(* ===== verification/Prelude.thy ===== *)
theory Prelude
  imports Main "HOL-Library.Word"
begin

text \<open>
  Shared ground of the Lattice development: the machine types of
  \<^verbatim>\<open>include/lattice/types.hpp\<close>, the error values of \<^verbatim>\<open>include/lattice/error.hpp\<close>
  (\<open>Result<T>\<close> is the sum \<open>Error + 'a\<close>), checked \<open>size_t\<close> arithmetic, the big-endian
  field writers and readers that the codec, the negotiator, the engine and the replay window
  each carry, and the generic lemmas on lists and words the components use.

  Conventions. Fixed-width integers are words; \<open>size_t\<close> values are \<open>nat\<close> bounded by
  \<open>SIZE_MAX\<close>, with the wrap-around written out where the code adds without a check; a
  \<open>std::vector\<close> is a list; \<open>std::optional\<close> is \<open>option\<close>.
\<close>

unbundle bit_operations_syntax

named_theorems result_simps "case analysis on results and optional values"

section \<open>Machine types\<close>

type_synonym u8 = "8 word"
type_synonym u16 = "16 word"
type_synonym u32 = "32 word"
type_synonym u64 = "64 word"
type_synonym bytes = "u8 list"

definition SIZE_MAX :: nat where
  "SIZE_MAX = 2 ^ 64 - 1"

section \<open>Errors and results\<close>

datatype ErrorScope =
    ES_connection | ES_channel | ES_message | ES_plugin | ES_transport | ES_internal

datatype ErrorCode =
    EC_need_more_data | EC_truncated_frame | EC_bad_magic | EC_reserved_flags
  | EC_varint_non_canonical | EC_varint_too_long | EC_frame_too_large | EC_header_too_large
  | EC_crc_mismatch | EC_malformed_tlv | EC_unsupported_frame_type | EC_negotiation_rejected
  | EC_duplicate_required_tlv | EC_unknown_required_feature | EC_stale_generation
  | EC_illegal_state | EC_fragment_range | EC_fragment_overlap | EC_sequence_error
  | EC_flow_underflow | EC_flow_overflow | EC_resource_limit | EC_would_block
  | EC_plugin_decode | EC_resume_rejected | EC_timeout | EC_cancelled | EC_transport_error
  | EC_invariant_failure

datatype CloseAction = CA_none | CA_reject_message | CA_reset_channel | CA_close_connection

record Error =
  err_scope :: ErrorScope
  err_code :: ErrorCode
  err_action :: CloseAction
  err_channel_no :: u32
  err_generation :: u8
  err_frame_seq :: u32
  err_message_seq :: u32
  err_offset :: u64
  err_detail :: string

type_synonym 'a result = "Error + 'a"

definition make_error :: "ErrorScope \<Rightarrow> ErrorCode \<Rightarrow> CloseAction \<Rightarrow> string \<Rightarrow> Error" where
  "make_error scope code action detail =
     \<lparr>err_scope = scope, err_code = code, err_action = action, err_channel_no = 0,
      err_generation = 0, err_frame_seq = 0, err_message_seq = 0, err_offset = 0,
      err_detail = detail\<rparr>"

lemma make_error_sel [simp]:
  "err_scope (make_error s c a d) = s"
  "err_code (make_error s c a d) = c"
  "err_action (make_error s c a d) = a"
  "err_detail (make_error s c a d) = d"
  by (simp_all add: make_error_def)

fun is_ok :: "'a result \<Rightarrow> bool" where
  "is_ok (Inr _) = True"
| "is_ok (Inl _) = False"

lemma is_ok_iff: "is_ok r \<longleftrightarrow> (\<exists>v. r = Inr v)"
  by (cases r) auto

lemma not_is_ok_iff: "\<not> is_ok r \<longleftrightarrow> (\<exists>e. r = Inl e)"
  by (cases r) auto

declare sum.splits [result_simps] option.splits [result_simps]

section \<open>Channel identifiers and frame types\<close>

record ChannelId =
  cid_number :: u32
  cid_generation :: u8

definition control_channel :: ChannelId where
  "control_channel = \<lparr>cid_number = 0, cid_generation = 0\<rparr>"

definition is_control :: "ChannelId \<Rightarrow> bool" where
  "is_control c \<longleftrightarrow> cid_number c = 0 \<and> cid_generation c = 0"

lemma is_control_control [simp]: "is_control control_channel"
  by (simp add: is_control_def control_channel_def)

lemma is_control_iff: "is_control c \<longleftrightarrow> c = control_channel"
  by (cases c) (simp add: is_control_def control_channel_def)

datatype FrameType =
    FT_hello | FT_open | FT_data | FT_ack | FT_credit | FT_half_close | FT_reset
  | FT_ping | FT_pong | FT_goaway | FT_resume

fun frame_type_code :: "FrameType \<Rightarrow> u8" where
  "frame_type_code FT_hello = 0x01"
| "frame_type_code FT_open = 0x10"
| "frame_type_code FT_data = 0x11"
| "frame_type_code FT_ack = 0x12"
| "frame_type_code FT_credit = 0x13"
| "frame_type_code FT_half_close = 0x14"
| "frame_type_code FT_reset = 0x15"
| "frame_type_code FT_ping = 0x20"
| "frame_type_code FT_pong = 0x21"
| "frame_type_code FT_goaway = 0x22"
| "frame_type_code FT_resume = 0x23"

datatype ConnectionState = CS_created | CS_negotiating | CS_active | CS_draining | CS_closed

datatype ChannelState =
    CH_free | CH_opening | CH_open | CH_local_closed | CH_remote_closed | CH_closing
  | CH_tombstone

datatype Direction = Dir_local_send | Dir_remote_send

section \<open>Policies, capabilities and plugin descriptors\<close>

record PluginDescriptor =
  pd_family_id :: u32
  pd_schema_hash :: u64
  pd_max_depth :: u32

record LocalPolicy =
  lp_min_major :: u16
  lp_max_major :: u16
  lp_max_frame :: nat
  lp_max_message :: nat
  lp_connection_window :: nat
  lp_max_channels :: u16
  lp_required_features :: u64
  lp_optional_features :: u64
  lp_replay_window :: u32

definition default_policy :: LocalPolicy where
  "default_policy = \<lparr>lp_min_major = 1, lp_max_major = 1, lp_max_frame = 64 * 1024,
     lp_max_message = 1024 * 1024, lp_connection_window = 1024 * 1024, lp_max_channels = 256,
     lp_required_features = 0, lp_optional_features = 0, lp_replay_window = 4096\<rparr>"

record CapabilitySet =
  cap_major :: u16
  cap_max_frame :: nat
  cap_max_message :: nat
  cap_connection_window :: nat
  cap_max_channels :: u16
  cap_features :: u64
  cap_transcript_hash :: bytes
  cap_plugins :: "PluginDescriptor list"

section \<open>Checked size arithmetic\<close>

text \<open>\<open>checked_add\<close> and \<open>checked_mul\<close> return \<open>None\<close> where the code returns false; the
  null-pointer guard on the out parameter has no counterpart.\<close>

definition checked_add :: "nat \<Rightarrow> nat \<Rightarrow> nat option" where
  "checked_add a b = (if a > SIZE_MAX - b then None else Some (a + b))"

definition checked_mul :: "nat \<Rightarrow> nat \<Rightarrow> nat option" where
  "checked_mul a b = (if a \<noteq> 0 \<and> b > SIZE_MAX div a then None else Some (a * b))"

lemma checked_add_Some:
  "b \<le> SIZE_MAX \<Longrightarrow> checked_add a b = Some c \<longleftrightarrow> a + b \<le> SIZE_MAX \<and> c = a + b"
  by (auto simp: checked_add_def)

lemma checked_add_if:
  "b \<le> SIZE_MAX \<Longrightarrow> checked_add a b = (if a + b \<le> SIZE_MAX then Some (a + b) else None)"
  by (auto simp: checked_add_def)

lemma checked_add_SomeD: "checked_add a b = Some c \<Longrightarrow> c = a + b"
  by (auto simp: checked_add_def split: if_splits)

lemma checked_add_NoneD: "checked_add a b = None \<Longrightarrow> SIZE_MAX < a + b"
  by (auto simp: checked_add_def split: if_splits)

lemma checked_add_fits: "a + b \<le> SIZE_MAX \<Longrightarrow> checked_add a b = Some (a + b)"
  by (auto simp: checked_add_def)

lemma checked_mul_Some: "checked_mul a b = Some c \<longleftrightarrow> a * b \<le> SIZE_MAX \<and> c = a * b"
proof (cases "a = 0")
  case True
  then show ?thesis by (auto simp: checked_mul_def)
next
  case False
  then have "b \<le> SIZE_MAX div a \<longleftrightarrow> a * b \<le> SIZE_MAX"
    by (simp add: less_eq_div_iff_mult_less_eq mult.commute)
  with False show ?thesis by (auto simp: checked_mul_def not_less)
qed

text \<open>The unchecked \<open>+\<close>, \<open>+=\<close> and \<open>-=\<close> of \<open>std::size_t\<close>.\<close>

definition size_add :: "nat \<Rightarrow> nat \<Rightarrow> nat" where
  "size_add a b = (a + b) mod (SIZE_MAX + 1)"

definition size_sub :: "nat \<Rightarrow> nat \<Rightarrow> nat" where
  "size_sub a b = (if b \<le> a then a - b else a + (SIZE_MAX + 1) - b)"

lemma size_add_fits [simp]: "a + b \<le> SIZE_MAX \<Longrightarrow> size_add a b = a + b"
  by (simp add: size_add_def)

lemma size_sub_fits [simp]: "b \<le> a \<Longrightarrow> size_sub a b = a - b"
  by (simp add: size_sub_def)

section \<open>Big-endian fields\<close>

definition append_u16 :: "bytes \<Rightarrow> u16 \<Rightarrow> bytes" where
  "append_u16 out value = out @ [ucast (drop_bit 8 value AND 0xFF), ucast (value AND 0xFF)]"

definition append_u24 :: "bytes \<Rightarrow> u32 \<Rightarrow> bytes" where
  "append_u24 out value =
     out @ [ucast (drop_bit 16 value AND 0xFF), ucast (drop_bit 8 value AND 0xFF),
            ucast (value AND 0xFF)]"

definition append_u32 :: "bytes \<Rightarrow> u32 \<Rightarrow> bytes" where
  "append_u32 out value =
     out @ [ucast (drop_bit 24 value AND 0xFF), ucast (drop_bit 16 value AND 0xFF),
            ucast (drop_bit 8 value AND 0xFF), ucast (value AND 0xFF)]"

definition append_u64 :: "bytes \<Rightarrow> u64 \<Rightarrow> bytes" where
  "append_u64 out value =
     out @ map (\<lambda>shift. ucast (drop_bit shift value AND 0xFF)) [56, 48, 40, 32, 24, 16, 8, 0]"

definition word16_be :: "u8 \<Rightarrow> u8 \<Rightarrow> u16" where
  "word16_be b0 b1 = push_bit 8 (ucast b0) OR ucast b1"

definition word24_be :: "u8 \<Rightarrow> u8 \<Rightarrow> u8 \<Rightarrow> u32" where
  "word24_be b0 b1 b2 = push_bit 16 (ucast b0) OR push_bit 8 (ucast b1) OR ucast b2"

definition word32_be :: "u8 \<Rightarrow> u8 \<Rightarrow> u8 \<Rightarrow> u8 \<Rightarrow> u32" where
  "word32_be b0 b1 b2 b3 =
     push_bit 24 (ucast b0) OR push_bit 16 (ucast b1) OR push_bit 8 (ucast b2) OR ucast b3"

text \<open>The loop \<open>value = (value << 8U) | byte\<close>.\<close>

definition word64_be :: "bytes \<Rightarrow> u64" where
  "word64_be bs = foldl (\<lambda>value byte. push_bit 8 value OR ucast byte) 0 bs"

lemma unat_u32_less: "unat (w :: u32) < 2 ^ 32"
  using unsigned_less[of w] by simp

lemma unat_u16_less: "unat (w :: u16) < 2 ^ 16"
  using unsigned_less[of w] by simp

lemma unat_u8_less: "unat (w :: u8) < 2 ^ 8"
  using unsigned_less[of w] by simp

lemma unat_of_nat_u32: "n < 2 ^ 32 \<Longrightarrow> unat (of_nat n :: u32) = n"
  by (simp add: unat_of_nat)

lemma unat_plus_one_u32: "w \<noteq> 0xFFFFFFFF \<Longrightarrow> unat (w + 1) = Suc (unat w)" for w :: u32
proof -
  assume "w \<noteq> 0xFFFFFFFF"
  then have "unat w \<noteq> unat (0xFFFFFFFF :: u32)" by (simp only: word_unat_eq_iff[symmetric]) simp
  then show ?thesis using unat_u32_less[of w] by (simp add: unat_word_ariths)
qed

lemma byte_mask: "(0xFF :: 'a::len word) = mask 8"
  by (simp add: mask_eq_exp_minus_1)

lemma bit_u8_high [simp]: "8 \<le> n \<Longrightarrow> bit (w :: u8) n = False"
  by (auto dest: bit_imp_le_length)

lemma bit_u32_high [simp]: "32 \<le> n \<Longrightarrow> bit (w :: u32) n = False"
  by (auto dest: bit_imp_le_length)

lemma bit_u8_less: "bit (w :: u8) n \<Longrightarrow> n < 8"
  using bit_imp_le_length[of w n] by simp

lemma xor_cancel_right [simp]: "x XOR z = y XOR z \<longleftrightarrow> x = y" for x y z :: "'a::len word"
proof
  assume "x XOR z = y XOR z"
  then have "(x XOR z) XOR z = (y XOR z) XOR z" by (rule arg_cong)
  then show "x = y" by (simp add: xor.assoc)
qed simp

lemma xor_cancel_left [simp]: "z XOR x = z XOR y \<longleftrightarrow> x = y" for x y z :: "'a::len word"
  by (metis xor.commute xor_cancel_right)

lemma word16_be_fields:
  "word16_be (ucast (drop_bit 8 v AND 0xFF)) (ucast (v AND 0xFF)) = v" for v :: u16
  unfolding word16_be_def byte_mask by (rule bit_word_eqI) (auto simp: bit_simps)

lemma word24_be_fields:
  "word24_be (ucast (drop_bit 16 v AND 0xFF)) (ucast (drop_bit 8 v AND 0xFF)) (ucast (v AND 0xFF))
   = take_bit 24 v" for v :: u32
  unfolding word24_be_def byte_mask
proof (rule bit_word_eqI)
  fix n assume "n < LENGTH(32)"
  then consider "n < 8" | "8 \<le> n" "n < 16" | "16 \<le> n" "n < 24" | "24 \<le> n" "n < 32"
    by fastforce
  then show "bit (push_bit 16 (ucast (ucast (drop_bit 16 v AND mask 8) :: u8)) OR
      push_bit 8 (ucast (ucast (drop_bit 8 v AND mask 8) :: u8)) OR
      ucast (ucast (v AND mask 8) :: u8) :: u32) n = bit (take_bit 24 v) n"
    by cases (auto simp: bit_simps)
qed

lemma word32_be_fields:
  "word32_be (ucast (drop_bit 24 v AND 0xFF)) (ucast (drop_bit 16 v AND 0xFF))
     (ucast (drop_bit 8 v AND 0xFF)) (ucast (v AND 0xFF)) = v" for v :: u32
  unfolding word32_be_def byte_mask
proof (rule bit_word_eqI)
  fix n assume "n < LENGTH(32)"
  then consider "n < 8" | "8 \<le> n" "n < 16" | "16 \<le> n" "n < 24" | "24 \<le> n" "n < 32"
    by fastforce
  then show "bit (push_bit 24 (ucast (ucast (drop_bit 24 v AND mask 8) :: u8)) OR
      push_bit 16 (ucast (ucast (drop_bit 16 v AND mask 8) :: u8)) OR
      push_bit 8 (ucast (ucast (drop_bit 8 v AND mask 8) :: u8)) OR
      ucast (ucast (v AND mask 8) :: u8) :: u32) n = bit v n"
    by cases (auto simp: bit_simps)
qed

lemma word64_be_step:
  fixes v :: u64
  assumes "t = s + 8"
  shows "push_bit 8 (drop_bit t v) OR ucast (ucast (drop_bit s v AND 0xFF) :: u8) = drop_bit s v"
  unfolding byte_mask assms
proof (rule bit_word_eqI)
  fix n assume n: "n < LENGTH(64)"
  have shift: "s + 8 + (n - 8) = s + n" if "8 \<le> n" using that by simp
  show "bit (push_bit 8 (drop_bit (s + 8) v) OR
      ucast (ucast (drop_bit s v AND mask 8) :: u8)) n = bit (drop_bit s v) n"
  proof (cases "n < 8")
    case True
    then show ?thesis using n by (simp add: bit_simps)
  next
    case False
    then show ?thesis using n shift by (simp add: bit_simps)
  qed
qed

lemma word64_be_start:
  "push_bit 8 0 OR ucast (ucast (drop_bit 56 v AND 0xFF) :: u8) = drop_bit 56 v" for v :: u64
  unfolding byte_mask by (rule bit_word_eqI) (auto simp: bit_simps dest: bit_imp_le_length)

lemma word64_be_fields: "word64_be (append_u64 [] v) = v"
proof -
  have *: "(56::nat) = 48 + 8" "(48::nat) = 40 + 8" "(40::nat) = 32 + 8" "(32::nat) = 24 + 8"
    "(24::nat) = 16 + 8" "(16::nat) = 8 + 8" "(8::nat) = 0 + 8"
    by simp_all
  have "word64_be (append_u64 [] v) = drop_bit 0 v"
    by (simp only: word64_be_def append_u64_def append_Nil list.map foldl.simps word64_be_start
        word64_be_step[OF *(1)] word64_be_step[OF *(2)] word64_be_step[OF *(3)]
        word64_be_step[OF *(4)] word64_be_step[OF *(5)] word64_be_step[OF *(6)]
        word64_be_step[OF *(7)])
  then show ?thesis by simp
qed

lemma append_u16_word16 [simp]: "append_u16 out (word16_be b0 b1) = out @ [b0, b1]"
  unfolding append_u16_def word16_be_def byte_mask
  by (auto intro!: bit_word_eqI simp: bit_simps)

lemma append_u32_word32 [simp]: "append_u32 out (word32_be b0 b1 b2 b3) = out @ [b0, b1, b2, b3]"
  unfolding append_u32_def word32_be_def byte_mask
  by (auto intro!: bit_word_eqI simp: bit_simps)

lemma append_field_split:
  "append_u16 out v16 = out @ append_u16 [] v16"
  "append_u24 out v24 = out @ append_u24 [] v24"
  "append_u32 out v32 = out @ append_u32 [] v32"
  "append_u64 out v64 = out @ append_u64 [] v64"
  by (simp_all add: append_u16_def append_u24_def append_u32_def append_u64_def)

lemma length_append_field [simp]:
  "length (append_u16 out v16) = length out + 2"
  "length (append_u24 out v24) = length out + 3"
  "length (append_u32 out v32) = length out + 4"
  "length (append_u64 out v64) = length out + 8"
  by (simp_all add: append_u16_def append_u24_def append_u32_def append_u64_def)

end
