(* ===== verification/Crc.thy ===== *)
theory Crc
  imports Prelude
begin

text \<open>
  CRC32C of \<^verbatim>\<open>src/format/frame_codec.cpp\<close>: the table construction, the slicing-by-8 loop, the
  SSE4.2 loop over the intrinsics (parameters: they are instructions, not code of the
  repository) and the runtime dispatch. The one-bit step is linear over XOR and injective;
  from this follow the equality of all three loops with the bytewise reference and the
  detection of every single-byte corruption.
\<close>

section \<open>The table\<close>

text \<open>One round of the inner loop: \<open>mask\<close> is the negated low bit.\<close>

definition crc_bit :: "u32 \<Rightarrow> u32" where
  "crc_bit crc = (let mask = - (crc AND 1) in drop_bit 1 crc XOR (0x82F63B78 AND mask))"

definition crc_table0 :: "u32 \<Rightarrow> u32" where
  "crc_table0 i =
     crc_bit (crc_bit (crc_bit (crc_bit (crc_bit (crc_bit (crc_bit (crc_bit i)))))))"

fun crc_table :: "nat \<Rightarrow> u32 \<Rightarrow> u32" where
  "crc_table 0 i = crc_table0 i"
| "crc_table (Suc sl) i =
     (let previous = crc_table sl i
      in crc_table0 (previous AND 0xFF) XOR drop_bit 8 previous)"

section \<open>The loops\<close>

text \<open>\<open>memcpy\<close> of eight bytes into a \<open>uint64_t\<close> on a little-endian host.\<close>

definition load_block :: "u8 \<Rightarrow> u8 \<Rightarrow> u8 \<Rightarrow> u8 \<Rightarrow> u8 \<Rightarrow> u8 \<Rightarrow> u8 \<Rightarrow> u8 \<Rightarrow> u64" where
  "load_block b0 b1 b2 b3 b4 b5 b6 b7 =
     word64_be [b7, b6, b5, b4, b3, b2, b1, b0]"

definition crc_slice8 :: "u32 \<Rightarrow> u64 \<Rightarrow> u32" where
  "crc_slice8 crc0 block =
     (let crc = crc0 XOR ucast (block AND 0xFFFFFFFF);
          high = (ucast (drop_bit 32 block) :: u32)
      in crc_table 7 (crc AND 0xFF) XOR
         crc_table 6 (drop_bit 8 crc AND 0xFF) XOR
         crc_table 5 (drop_bit 16 crc AND 0xFF) XOR
         crc_table 4 (drop_bit 24 crc AND 0xFF) XOR
         crc_table 3 (high AND 0xFF) XOR
         crc_table 2 (drop_bit 8 high AND 0xFF) XOR
         crc_table 1 (drop_bit 16 high AND 0xFF) XOR
         crc_table 0 (drop_bit 24 high AND 0xFF))"

definition crc_tail_step :: "u32 \<Rightarrow> u8 \<Rightarrow> u32" where
  "crc_tail_step crc byte = crc_table 0 ((crc XOR ucast byte) AND 0xFF) XOR drop_bit 8 crc"

fun crc_loop :: "u32 \<Rightarrow> bytes \<Rightarrow> u32" where
  "crc_loop crc (b0 # b1 # b2 # b3 # b4 # b5 # b6 # b7 # rest) =
     crc_loop (crc_slice8 crc (load_block b0 b1 b2 b3 b4 b5 b6 b7)) rest"
| "crc_loop crc bs = foldl crc_tail_step crc bs"

definition crc32c :: "bytes \<Rightarrow> u32" where
  "crc32c bs = NOT (crc_loop 0xFFFFFFFF bs)"

text \<open>The SSE4.2 path, over the two intrinsics.\<close>

fun crc_sse_loop ::
  "(u64 \<Rightarrow> u64 \<Rightarrow> u64) \<Rightarrow> (u32 \<Rightarrow> u8 \<Rightarrow> u32) \<Rightarrow> u64 \<Rightarrow> bytes \<Rightarrow> u32" where
  "crc_sse_loop mm_u64 mm_u8 crc (b0 # b1 # b2 # b3 # b4 # b5 # b6 # b7 # rest) =
     crc_sse_loop mm_u64 mm_u8 (mm_u64 crc (load_block b0 b1 b2 b3 b4 b5 b6 b7)) rest"
| "crc_sse_loop mm_u64 mm_u8 crc bs = foldl mm_u8 (ucast crc) bs"

definition crc32c_sse42 ::
  "(u64 \<Rightarrow> u64 \<Rightarrow> u64) \<Rightarrow> (u32 \<Rightarrow> u8 \<Rightarrow> u32) \<Rightarrow> bytes \<Rightarrow> u32" where
  "crc32c_sse42 mm_u64 mm_u8 bs = NOT (crc_sse_loop mm_u64 mm_u8 0xFFFFFFFF bs)"

definition crc32c_dispatch ::
  "bool \<Rightarrow> (u64 \<Rightarrow> u64 \<Rightarrow> u64) \<Rightarrow> (u32 \<Rightarrow> u8 \<Rightarrow> u32) \<Rightarrow> bytes \<Rightarrow> u32" where
  "crc32c_dispatch use_sse42 mm_u64 mm_u8 bs =
     (if use_sse42 then crc32c_sse42 mm_u64 mm_u8 bs else crc32c bs)"

section \<open>The reference: one byte at a time, one bit at a time\<close>

definition crc_byte :: "u32 \<Rightarrow> u8 \<Rightarrow> u32" where
  "crc_byte crc byte = crc_table0 (crc XOR ucast byte)"

definition crc32c_ref :: "bytes \<Rightarrow> u32" where
  "crc32c_ref bs = NOT (foldl crc_byte 0xFFFFFFFF bs)"

section \<open>Linear, injective steps\<close>

lemma ucast_ucast_byte: "ucast (ucast (b :: u8) :: u32) = b"
  by (rule bit_word_eqI) (auto simp: bit_simps)

text \<open>
  What a CRC step function owes: it is additive over XOR and injective. A fold of such a step
  over a message then never maps two messages that differ in one byte to the same value.
\<close>

locale linear_checksum =
  fixes step :: "u32 \<Rightarrow> u32"
  assumes step_xor: "step (x XOR y) = step x XOR step y"
    and step_inj: "step x = step y \<Longrightarrow> x = y"
begin

definition absorb :: "u32 \<Rightarrow> u8 \<Rightarrow> u32" where
  "absorb crc byte = step (crc XOR ucast byte)"

lemma absorb_inj_crc: "absorb c b = absorb c' b \<Longrightarrow> c = c'"
  by (auto simp: absorb_def dest: step_inj)

lemma absorb_inj_byte: "absorb c b = absorb c b' \<Longrightarrow> b = b'"
proof -
  assume "absorb c b = absorb c b'"
  then have "(ucast b :: u32) = ucast b'" by (auto simp: absorb_def dest: step_inj)
  then have "(ucast (ucast b :: u32) :: u8) = ucast (ucast b' :: u32)" by simp
  then show "b = b'" by (simp add: ucast_ucast_byte)
qed

lemma fold_inj: "foldl absorb c bs = foldl absorb c' bs \<Longrightarrow> c = c'"
proof (induction bs arbitrary: c c')
  case Nil
  then show ?case by simp
next
  case (Cons b bs)
  then have "foldl absorb (absorb c b) bs = foldl absorb (absorb c' b) bs" by simp
  then have "absorb c b = absorb c' b" by (rule Cons.IH)
  then show ?case by (rule absorb_inj_crc)
qed

lemma single_byte_detected:
  assumes "x \<noteq> y"
  shows "foldl absorb c (pre @ x # post) \<noteq> foldl absorb c (pre @ y # post)"
proof
  let ?c = "foldl absorb c pre"
  assume "foldl absorb c (pre @ x # post) = foldl absorb c (pre @ y # post)"
  then have "foldl absorb (absorb ?c x) post = foldl absorb (absorb ?c y) post" by simp
  then have "absorb ?c x = absorb ?c y" by (rule fold_inj)
  then show False using assms by (auto dest: absorb_inj_byte)
qed

lemma step_zero: "step 0 = 0"
  using step_xor[of 0 0] by simp

end

section \<open>The one-bit step is linear and injective\<close>

lemma crc_bit_alt: "crc_bit x = drop_bit 1 x XOR (if bit x 0 then 0x82F63B78 else 0)"
proof -
  have "x AND 1 = (if bit x 0 then 1 else 0)"
    by (simp add: and_one_eq odd_iff_mod_2_eq_one bit_0 parity_cases)
  then show ?thesis by (simp add: crc_bit_def Let_def)
qed

lemma crc_bit_xor: "crc_bit (x XOR y) = crc_bit x XOR crc_bit y"
  by (simp add: crc_bit_alt drop_bit_xor bit_simps ac_simps)

lemma crc_bit_top: "bit (crc_bit x) 31 = bit x 0"
  by (simp add: crc_bit_alt bit_simps)

lemma crc_bit_inj: "crc_bit x = crc_bit y \<Longrightarrow> x = y"
proof -
  assume eq: "crc_bit x = crc_bit y"
  then have low: "bit x 0 = bit y 0" using crc_bit_top by metis
  have "drop_bit 1 x = drop_bit 1 y"
    using eq low by (auto simp: crc_bit_alt split: if_splits)
  then have "bit x (Suc n) = bit y (Suc n)" for n
    by (metis bit_drop_bit_eq comp_apply plus_1_eq_Suc)
  with low show "x = y" by (metis bit_word_eqI not0_implies_Suc)
qed

lemma crc_table0_xor: "crc_table0 (x XOR y) = crc_table0 x XOR crc_table0 y"
  by (simp add: crc_table0_def crc_bit_xor)

lemma crc_table0_inj: "crc_table0 x = crc_table0 y \<Longrightarrow> x = y"
  by (auto simp: crc_table0_def dest!: crc_bit_inj)

interpretation crc: linear_checksum crc_table0
  by unfold_locales (rule crc_table0_xor, rule crc_table0_inj)

lemma crc_absorb: "crc.absorb = crc_byte"
  by (simp add: fun_eq_iff crc.absorb_def crc_byte_def)

section \<open>All loops compute the reference\<close>

lemma crc_bit_even: "\<not> bit x 0 \<Longrightarrow> crc_bit x = drop_bit 1 x"
  by (simp add: crc_bit_alt)

lemma crc_table0_high:
  assumes "take_bit 8 x = 0"
  shows "crc_table0 x = drop_bit 8 x"
proof -
  have low: "\<not> bit x n" if "n < 8" for n
    using assms that by (metis bit_0_eq bit_take_bit_iff bot_apply bot_bool_def)
  have "crc_bit (drop_bit n x) = drop_bit (Suc n) x" if "n < 8" for n
    using low[OF that] by (simp add: crc_bit_even bit_simps drop_bit_drop_bit)
  from this[of 0] this[of 1] this[of 2] this[of 3] this[of 4] this[of 5] this[of 6] this[of 7]
  show ?thesis by (simp add: crc_table0_def flip: numeral_2_eq_2)
qed

lemma bit_u32_shifted: "bit (x :: u32) (8 + n) \<Longrightarrow> n < 24"
  using bit_imp_le_length[of x "8 + n"] by simp

lemma crc_table0_split: "crc_table0 x = crc_table0 (x AND 0xFF) XOR drop_bit 8 x"
proof -
  have "x = (x AND 0xFF) XOR (x AND NOT (0xFF))"
    unfolding byte_mask by (rule bit_word_eqI) (auto simp: bit_simps)
  then have "crc_table0 x = crc_table0 (x AND 0xFF) XOR crc_table0 (x AND NOT (0xFF))"
    by (metis crc_table0_xor)
  also have "crc_table0 (x AND NOT (0xFF)) = drop_bit 8 x"
    unfolding byte_mask
    by (subst crc_table0_high) (auto intro!: bit_word_eqI simp: bit_simps dest: bit_u32_shifted)
  finally show ?thesis .
qed

lemma crc_table_funpow: "crc_table n i = (crc_table0 ^^ Suc n) i"
  by (induction n) (simp_all add: Let_def crc_table0_split[symmetric])

lemma crc_tail_step_byte: "crc_tail_step = crc_byte"
proof (intro ext)
  fix crc :: u32 and b :: u8
  have "drop_bit 8 (crc XOR ucast b) = drop_bit 8 crc"
    by (rule bit_word_eqI) (auto simp: bit_simps)
  then show "crc_tail_step crc b = crc_byte crc b"
    by (simp add: crc_tail_step_def crc_byte_def crc_table0_split[of "crc XOR ucast b"])
qed

lemma crc_iter_xor: "(crc_table0 ^^ n) (x XOR y) = (crc_table0 ^^ n) x XOR (crc_table0 ^^ n) y"
  by (induction n) (simp_all add: crc_table0_xor)

lemma crc_iter_split:
  "(crc_table0 ^^ Suc n) x = (crc_table0 ^^ Suc n) (x AND 0xFF) XOR (crc_table0 ^^ n) (drop_bit 8 x)"
  by (simp add: funpow_Suc_right crc_table0_split[of x] crc_iter_xor del: funpow.simps)

lemma crc_iter_zero [simp]: "(crc_table0 ^^ n) 0 = 0"
  by (induction n) (simp_all add: crc.step_zero)

lemma crc_iter_bytes:
  "(crc_table0 ^^ (n + 4)) x =
     (crc_table0 ^^ (n + 4)) (x AND 0xFF) XOR
     ((crc_table0 ^^ (n + 3)) (drop_bit 8 x AND 0xFF) XOR
     ((crc_table0 ^^ (n + 2)) (drop_bit 16 x AND 0xFF) XOR
      (crc_table0 ^^ (n + 1)) (drop_bit 24 x AND 0xFF)))"
proof -
  have "drop_bit 32 x = 0" by (rule bit_word_eqI) (simp add: bit_simps)
  then show ?thesis
    using crc_iter_split[of "n + 3" x] crc_iter_split[of "n + 2" "drop_bit 8 x"]
      crc_iter_split[of "n + 1" "drop_bit 16 x"] crc_iter_split[of n "drop_bit 24 x"]
    by (simp add: drop_bit_drop_bit eval_nat_numeral del: funpow.simps)
qed

lemma load_block_low:
  fixes b0 b1 b2 b3 b4 b5 b6 b7 :: u8
  defines "low \<equiv> ucast (load_block b0 b1 b2 b3 b4 b5 b6 b7 AND 0xFFFFFFFF) :: u32"
  shows "low AND 0xFF = ucast b0" "drop_bit 8 low AND 0xFF = ucast b1"
    "drop_bit 16 low AND 0xFF = ucast b2" "drop_bit 24 low AND 0xFF = ucast b3"
proof -
  have m: "(0xFFFFFFFF :: u64) = mask 32" by (simp add: mask_eq_exp_minus_1)
  have lt: "n < 16" "n < 24" if "bit (b :: u8) n" for b n
    using bit_u8_less[OF that] by simp_all
  show "low AND 0xFF = ucast b0" "drop_bit 8 low AND 0xFF = ucast b1"
    "drop_bit 16 low AND 0xFF = ucast b2" "drop_bit 24 low AND 0xFF = ucast b3"
    unfolding low_def load_block_def word64_be_def m byte_mask
    by (auto intro!: bit_word_eqI simp: bit_simps dest: bit_u8_less lt)
qed

lemma load_block_high:
  fixes b0 b1 b2 b3 b4 b5 b6 b7 :: u8
  defines "high \<equiv> ucast (drop_bit 32 (load_block b0 b1 b2 b3 b4 b5 b6 b7)) :: u32"
  shows "high AND 0xFF = ucast b4" "drop_bit 8 high AND 0xFF = ucast b5"
    "drop_bit 16 high AND 0xFF = ucast b6" "drop_bit 24 high AND 0xFF = ucast b7"
proof -
  have lt: "n < 16" "n < 24" if "bit (b :: u8) n" for b n
    using bit_u8_less[OF that] by simp_all
  show "high AND 0xFF = ucast b4" "drop_bit 8 high AND 0xFF = ucast b5"
    "drop_bit 16 high AND 0xFF = ucast b6" "drop_bit 24 high AND 0xFF = ucast b7"
    unfolding high_def load_block_def word64_be_def byte_mask
    by (auto intro!: bit_word_eqI simp: bit_simps dest: bit_u8_less lt)
qed

lemma crc_slice8_tables:
  "crc_slice8 crc block =
     (crc_table0 ^^ 8) (crc XOR ucast (block AND 0xFFFFFFFF)) XOR
     (crc_table0 ^^ 4) (ucast (drop_bit 32 block))"
proof -
  let ?x = "crc XOR ucast (block AND 0xFFFFFFFF)" and ?h = "ucast (drop_bit 32 block) :: u32"
  have "(crc_table0 ^^ 8) ?x = crc_table 7 (?x AND 0xFF) XOR (crc_table 6 (drop_bit 8 ?x AND 0xFF)
      XOR (crc_table 5 (drop_bit 16 ?x AND 0xFF) XOR crc_table 4 (drop_bit 24 ?x AND 0xFF)))"
    using crc_iter_bytes[of 4 ?x] by (simp add: crc_table_funpow del: funpow.simps)
  moreover have "(crc_table0 ^^ 4) ?h = crc_table 3 (?h AND 0xFF) XOR
      (crc_table 2 (drop_bit 8 ?h AND 0xFF) XOR (crc_table 1 (drop_bit 16 ?h AND 0xFF) XOR
       crc_table 0 (drop_bit 24 ?h AND 0xFF)))"
    using crc_iter_bytes[of 0 ?h] by (simp add: crc_table_funpow del: funpow.simps)
  ultimately show ?thesis by (simp add: crc_slice8_def Let_def xor.assoc)
qed

lemma crc_slice8_bytes:
  "crc_slice8 crc (load_block b0 b1 b2 b3 b4 b5 b6 b7)
   = foldl crc_byte crc [b0, b1, b2, b3, b4, b5, b6, b7]"
proof -
  let ?B = "\<lambda>n x. (crc_table0 ^^ n) x"
  let ?block = "load_block b0 b1 b2 b3 b4 b5 b6 b7"
  let ?low = "ucast (?block AND 0xFFFFFFFF) :: u32"
  let ?high = "ucast (drop_bit 32 ?block) :: u32"
  have "crc_slice8 crc ?block = (?B 8 crc XOR ?B 8 ?low) XOR ?B 4 ?high"
    by (simp only: crc_slice8_tables crc_iter_xor)
  also have "?B 8 ?low = ?B 8 (ucast b0) XOR (?B 7 (ucast b1) XOR
      (?B 6 (ucast b2) XOR ?B 5 (ucast b3)))"
    using crc_iter_bytes[of 4 ?low] by (simp add: load_block_low del: funpow.simps)
  also have "?B 4 ?high = ?B 4 (ucast b4) XOR (?B 3 (ucast b5) XOR
      (?B 2 (ucast b6) XOR ?B 1 (ucast b7)))"
    using crc_iter_bytes[of 0 ?high]
    by (simp add: load_block_high del: funpow.simps flip: numeral_2_eq_2)
  finally show ?thesis
    by (simp add: crc_byte_def crc_table0_xor eval_nat_numeral ac_simps)
qed

lemma crc_loop_ref: "crc_loop crc bs = foldl crc_byte crc bs"
  by (induction crc bs rule: crc_loop.induct)
    (simp_all add: crc_slice8_bytes crc_tail_step_byte)

text \<open>Property C30. The slicing-by-8 routine computes the same checksum as the bytewise, bit at a
  time definition of CRC32C, on every input.\<close>

theorem crc32c_is_reference: "crc32c bs = crc32c_ref bs"
  by (simp add: crc32c_def crc32c_ref_def crc_loop_ref)

lemma ucast_u64_u32 [simp]: "(ucast (ucast (c :: u32) :: u64) :: u32) = c"
  by (rule bit_word_eqI) (auto simp: bit_simps)

lemma crc_sse_loop_ref:
  assumes "\<And>c b. mm_u8 c b = crc_byte c b"
    and "\<And>c b0 b1 b2 b3 b4 b5 b6 b7. mm_u64 c (load_block b0 b1 b2 b3 b4 b5 b6 b7)
           = ucast (foldl crc_byte (ucast c) [b0, b1, b2, b3, b4, b5, b6, b7])"
  shows "crc_sse_loop mm_u64 mm_u8 crc bs = foldl crc_byte (ucast crc) bs"
  using assms
  by (induction mm_u64 mm_u8 crc bs rule: crc_sse_loop.induct) simp_all

text \<open>Remark. Where the two SSE4.2 intrinsics absorb a byte and eight little-endian bytes
  into the CRC32C register as documented, the runtime dispatch returns the same checksum on
  both paths.\<close>

theorem crc32c_dispatch_agrees:
  assumes "\<And>c b. mm_u8 c b = crc_byte c b"
    and "\<And>c b0 b1 b2 b3 b4 b5 b6 b7. mm_u64 c (load_block b0 b1 b2 b3 b4 b5 b6 b7)
           = ucast (foldl crc_byte (ucast c) [b0, b1, b2, b3, b4, b5, b6, b7])"
  shows "crc32c_dispatch use_sse42 mm_u64 mm_u8 bs = crc32c bs"
  using crc_sse_loop_ref[of mm_u8 mm_u64, OF assms]
  by (simp add: crc32c_dispatch_def crc32c_sse42_def crc32c_def crc_loop_ref)

text \<open>The bytes the eight-byte intrinsic reads off its operand, least significant first.\<close>

definition block_bytes :: "u64 \<Rightarrow> bytes" where
  "block_bytes block = map (\<lambda>shift. ucast (drop_bit shift block AND 0xFF)) [0, 8, 16, 24, 32, 40, 48, 56]"

lemma block_bytes_load: "block_bytes (load_block b0 b1 b2 b3 b4 b5 b6 b7) = [b0, b1, b2, b3, b4, b5, b6, b7]"
proof -
  have lt: "n < 16" "n < 24" "n < 32" "n < 40" "n < 48" "n < 56" "n < 64" if "bit (b :: u8) n" for b n
    using bit_u8_less[OF that] by simp_all
  show ?thesis
    unfolding block_bytes_def load_block_def word64_be_def byte_mask
    by (auto intro!: bit_word_eqI simp: bit_simps dest: bit_u8_less lt)
qed

theorem crc32c_dispatch_agrees_witness:
  "crc32c_dispatch True (\<lambda>c block. ucast (foldl crc_byte (ucast c) (block_bytes block))) crc_byte
     [1, 2, 3, 4, 5, 6, 7, 8, 9, 10] = crc32c [1, 2, 3, 4, 5, 6, 7, 8, 9, 10]"
  by (rule crc32c_dispatch_agrees) (simp_all only: block_bytes_load)

lemma crc32c_single_byte:
  assumes "x \<noteq> y"
  shows "crc32c (pre @ x # post) \<noteq> crc32c (pre @ y # post)"
  using crc.single_byte_detected[OF assms, of "0xFFFFFFFF" pre post]
  by (simp add: crc32c_def crc_loop_ref crc_absorb)

end
