(* ===== verification/Wire_Format.thy ===== *)
theory Wire_Format
  imports Prelude
begin

text \<open>
  The interface every fixed or self-delimiting wire field offers: a writer and a reader that
  takes the whole buffer and a cursor, as \<open>read_u32(payload, &cursor)\<close> and
  \<open>decode_uleb128(bytes, offset)\<close> do. Inside the locale: injectivity and prefix-freeness of
  the writer, and the two directions of the loops that read a counted list of fields.
  The 32-bit reader of \<^verbatim>\<open>frame_codec.cpp\<close> is its first provider.
\<close>

text \<open>A counted loop of reads: the first failure stops it.\<close>

fun read_list ::
  "(bytes \<Rightarrow> nat \<Rightarrow> ('a \<times> nat) result) \<Rightarrow> nat \<Rightarrow> bytes \<Rightarrow> nat \<Rightarrow> ('a list \<times> nat) result" where
  "read_list read 0 bs cursor = Inr ([], cursor)"
| "read_list read (Suc n) bs cursor =
     (case read bs cursor of
        Inl e \<Rightarrow> Inl e
      | Inr (x, cursor') \<Rightarrow>
          (case read_list read n bs cursor' of
             Inl e \<Rightarrow> Inl e
           | Inr (xs, cursor'') \<Rightarrow> Inr (x # xs, cursor'')))"

locale cursor_format =
  fixes put :: "'a \<Rightarrow> bytes"
    and read :: "bytes \<Rightarrow> nat \<Rightarrow> ('a \<times> nat) result"
    and valid :: "'a \<Rightarrow> bool"
  assumes read_put:
      "valid x \<Longrightarrow> read (pre @ put x @ post) (length pre) = Inr (x, length pre + length (put x))"
    and read_sound:
      "read bs c = Inr (x, c') \<Longrightarrow>
         valid x \<and> c' = c + length (put x) \<and> c' \<le> length bs \<and>
         take (length (put x)) (drop c bs) = put x"
begin

lemma read_valid: "read bs c = Inr (x, c') \<Longrightarrow> valid x"
  using read_sound by blast

lemma read_bounds: "read bs c = Inr (x, c') \<Longrightarrow> c \<le> c' \<and> c' \<le> length bs"
  using read_sound by fastforce

lemma put_prefix_free:
  assumes "valid x" "valid y" "put x @ s = put y @ t"
  shows "x = y \<and> s = t"
proof -
  have "read (put x @ s) 0 = Inr (x, length (put x))"
    using read_put[OF assms(1), of "[]" s] by simp
  moreover have "read (put y @ t) 0 = Inr (y, length (put y))"
    using read_put[OF assms(2), of "[]" t] by simp
  ultimately show ?thesis using assms(3) by simp
qed

lemma put_inj: "valid x \<Longrightarrow> valid y \<Longrightarrow> put x = put y \<Longrightarrow> x = y"
  using put_prefix_free[of x y "[]" "[]"] by simp

lemma read_list_put:
  "list_all valid xs \<Longrightarrow>
     read_list read (length xs) (pre @ concat (map put xs) @ post) (length pre)
     = Inr (xs, length pre + length (concat (map put xs)))"
proof (induction xs arbitrary: pre)
  case Nil
  then show ?case by simp
next
  case (Cons x xs)
  have "read (pre @ put x @ (concat (map put xs) @ post)) (length pre)
      = Inr (x, length pre + length (put x))"
    using Cons.prems by (intro read_put) simp
  moreover have "read_list read (length xs) ((pre @ put x) @ concat (map put xs) @ post)
        (length (pre @ put x))
      = Inr (xs, length (pre @ put x) + length (concat (map put xs)))"
    using Cons.prems by (intro Cons.IH) simp
  ultimately show ?case by simp
qed

lemma read_list_sound:
  "read_list read n bs c = Inr (xs, c') \<Longrightarrow>
     length xs = n \<and> list_all valid xs \<and> c' = c + length (concat (map put xs)) \<and>
     (c \<le> length bs \<longrightarrow> c' \<le> length bs) \<and>
     take (length (concat (map put xs))) (drop c bs) = concat (map put xs)"
proof (induction n arbitrary: c xs c')
  case 0
  then show ?case by simp
next
  case (Suc n)
  then obtain x c1 ys where r: "read bs c = Inr (x, c1)"
    and l: "read_list read n bs c1 = Inr (ys, c')" and xs: "xs = x # ys"
    by (auto split: sum.splits prod.splits)
  note head = read_sound[OF r] and tail = Suc.IH[OF l]
  have "drop c1 bs = drop (length (put x)) (drop c bs)"
    using head by (simp add: add.commute)
  then have "take (length (put x) + length (concat (map put ys))) (drop c bs)
      = put x @ concat (map put ys)"
    using head tail by (simp add: take_add)
  then show ?case using head tail xs by simp
qed

end

section \<open>Sequencing two formats\<close>

definition read_pair ::
  "(bytes \<Rightarrow> nat \<Rightarrow> ('a \<times> nat) result) \<Rightarrow> (bytes \<Rightarrow> nat \<Rightarrow> ('b \<times> nat) result) \<Rightarrow>
   bytes \<Rightarrow> nat \<Rightarrow> (('a \<times> 'b) \<times> nat) result" where
  "read_pair read1 read2 bs cursor =
     (case read1 bs cursor of
        Inl e \<Rightarrow> Inl e
      | Inr (x, cursor') \<Rightarrow>
          (case read2 bs cursor' of
             Inl e \<Rightarrow> Inl e
           | Inr (y, cursor'') \<Rightarrow> Inr ((x, y), cursor'')))"

locale format_pair =
  first: cursor_format put1 read1 valid1 + second: cursor_format put2 read2 valid2
  for put1 :: "'a \<Rightarrow> bytes" and read1 valid1 and put2 :: "'b \<Rightarrow> bytes" and read2 valid2
begin

lemma pair_read_put:
  assumes "valid1 x" "valid2 y"
  shows "read_pair read1 read2 (pre @ (put1 x @ put2 y) @ post) (length pre)
    = Inr ((x, y), length pre + length (put1 x @ put2 y))"
proof -
  have "read1 (pre @ put1 x @ (put2 y @ post)) (length pre)
      = Inr (x, length (pre @ put1 x))"
    using first.read_put[OF assms(1)] by simp
  moreover have "read2 ((pre @ put1 x) @ put2 y @ post) (length (pre @ put1 x))
      = Inr (y, length (pre @ put1 x) + length (put2 y))"
    using second.read_put[OF assms(2)] .
  ultimately show ?thesis by (simp add: read_pair_def)
qed

lemma pair_read_sound:
  assumes "read_pair read1 read2 bs c = Inr ((x, y), c')"
  shows "valid1 x \<and> valid2 y \<and> c' = c + length (put1 x @ put2 y) \<and> c' \<le> length bs \<and>
    take (length (put1 x @ put2 y)) (drop c bs) = put1 x @ put2 y"
proof -
  obtain c1 where r1: "read1 bs c = Inr (x, c1)" and r2: "read2 bs c1 = Inr (y, c')"
    using assms by (auto simp: read_pair_def split: sum.splits)
  note h1 = first.read_sound[OF r1] and h2 = second.read_sound[OF r2]
  have "drop c1 bs = drop (length (put1 x)) (drop c bs)"
    using h1 by (simp add: add.commute)
  then show ?thesis using h1 h2 by (simp add: take_add)
qed

end

sublocale format_pair \<subseteq> pair: cursor_format
  "\<lambda>(x, y). put1 x @ put2 y" "read_pair read1 read2" "\<lambda>(x, y). valid1 x \<and> valid2 y"
  by unfold_locales (use pair_read_put pair_read_sound in \<open>auto split: prod.splits\<close>)

section \<open>The 32-bit reader\<close>

definition read_u32_be :: "bytes \<Rightarrow> nat \<Rightarrow> u32 result" where
  "read_u32_be bs offset =
     (if offset > length bs \<or> length bs - offset < 4
      then Inl (make_error ES_connection EC_truncated_frame CA_close_connection
                  ''not enough bytes for u32'')
      else Inr (word32_be (bs ! offset) (bs ! (offset + 1)) (bs ! (offset + 2)) (bs ! (offset + 3))))"

lemma take_four:
  "c + 4 \<le> length bs \<Longrightarrow> take 4 (drop c bs) = [bs ! c, bs ! (c + 1), bs ! (c + 2), bs ! (c + 3)]"
  by (rule nth_equalityI) (auto simp: less_Suc_eq numeral_eq_Suc)

lemma take_two: "c + 2 \<le> length bs \<Longrightarrow> take 2 (drop c bs) = [bs ! c, bs ! (c + 1)]"
  by (rule nth_equalityI) (auto simp: less_Suc_eq numeral_eq_Suc)

lemma read_u32_be_at:
  "read_u32_be (pre @ append_u32 [] v @ post) (length pre) = Inr v"
  by (simp add: read_u32_be_def append_u32_def nth_append word32_be_fields)

lemma read_u32_be_InrD:
  assumes "read_u32_be bs c = Inr v"
  shows "c + 4 \<le> length bs \<and> take 4 (drop c bs) = append_u32 [] v"
proof -
  have len: "c + 4 \<le> length bs" and
    v: "v = word32_be (bs ! c) (bs ! (c + 1)) (bs ! (c + 2)) (bs ! (c + 3))"
    using assms by (auto simp: read_u32_be_def split: if_splits)
  show ?thesis unfolding v append_u32_word32 using len by (simp add: take_four)
qed

lemma read_u32_be_ok_iff: "is_ok (read_u32_be bs c) \<longleftrightarrow> c + 4 \<le> length bs"
  by (auto simp: read_u32_be_def)

definition read_u32_cursor :: "bytes \<Rightarrow> nat \<Rightarrow> (u32 \<times> nat) result" where
  "read_u32_cursor bs cursor =
     (case read_u32_be bs cursor of Inl e \<Rightarrow> Inl e | Inr v \<Rightarrow> Inr (v, cursor + 4))"

interpretation u32_field: cursor_format "append_u32 []" read_u32_cursor "\<lambda>_. True"
  by unfold_locales
    (auto simp: read_u32_cursor_def read_u32_be_at dest: read_u32_be_InrD split: sum.splits)

interpretation u32_pair: format_pair
  "append_u32 []" read_u32_cursor "\<lambda>_. True" "append_u32 []" read_u32_cursor "\<lambda>_. True"
  by unfold_locales

end
