(* ===== verification/Varint.thy ===== *)
theory Varint
  imports Wire_Format
begin

text \<open>
  The canonical ULEB128 lengths of \<^verbatim>\<open>src/format/frame_codec.cpp\<close>: \<open>encode_uleb128\<close> and
  \<open>decode_uleb128\<close>, loop by loop. The codec is shown to be a \<open>cursor_format\<close>: whatever is
  encoded is decoded at any position of any buffer, and only the bytes the encoder writes are
  accepted.
\<close>

definition kMaxVarintBytes :: nat where
  "kMaxVarintBytes = 5"

section \<open>The encoder\<close>

text \<open>The \<open>do \<dots> while (value != 0U)\<close> loop.\<close>

function uleb_bytes :: "u32 \<Rightarrow> bytes" where
  "uleb_bytes value =
     (let byte = (ucast (value AND 0x7F) :: u8);
          value' = drop_bit 7 value
      in if value' \<noteq> 0 then (byte OR 0x80) # uleb_bytes value' else [byte])"
  by pat_completeness auto
termination
proof (relation "measure unat")
  fix v :: u32 and byte :: u8 and v' :: u32
  assume v': "v' = drop_bit 7 v" and nz: "v' \<noteq> 0"
  have "unat v' = unat v div 128"
    by (simp only: v' unat_drop_bit_eq drop_bit_eq_div[where 'a = nat]) simp
  moreover have "unat v' \<noteq> 0" using nz by (simp add: unat_eq_zero)
  ultimately show "(v', v) \<in> measure unat" by simp
qed simp

declare uleb_bytes.simps [simp del]

definition encode_uleb128 :: "u32 \<Rightarrow> bytes result" where
  "encode_uleb128 value =
     (let out = uleb_bytes value
      in if length out > kMaxVarintBytes
         then Inl (make_error ES_connection EC_varint_too_long CA_close_connection
                     ''varint exceeds protocol cap'')
         else Inr out)"

section \<open>The decoder\<close>

text \<open>The \<open>for\<close> loop over at most \<open>kMaxVarintBytes\<close> bytes, with the running value and shift.\<close>

function decode_uleb_loop ::
  "bytes \<Rightarrow> nat \<Rightarrow> nat \<Rightarrow> u32 \<Rightarrow> nat \<Rightarrow> (u32 \<times> nat) result" where
  "decode_uleb_loop bs offset i value shift =
     (if i < kMaxVarintBytes then
        if offset + i \<ge> length bs
        then Inl (make_error ES_connection EC_need_more_data CA_none ''partial varint'')
        else
          let byte = bs ! (offset + i);
              value' = value OR push_bit shift (ucast (byte AND 0x7F))
          in if byte AND 0x80 = 0
             then if (i = 4 \<and> byte AND 0xF0 \<noteq> 0) \<or> (i > 0 \<and> value' < push_bit (7 * i) 1)
                  then Inl (make_error ES_connection EC_varint_non_canonical CA_close_connection
                              ''non-minimal ULEB128'')
                  else Inr (value', i + 1)
             else decode_uleb_loop bs offset (i + 1) value' (shift + 7)
      else Inl (make_error ES_connection EC_varint_too_long CA_close_connection
                  ''ULEB128 longer than five bytes''))"
  by pat_completeness auto
termination
  by (relation "measure (\<lambda>(bs, offset, i, value, shift). kMaxVarintBytes - i)") auto

declare decode_uleb_loop.simps [simp del]

definition decode_uleb128 :: "bytes \<Rightarrow> nat \<Rightarrow> (u32 \<times> nat) result" where
  "decode_uleb128 bs offset = decode_uleb_loop bs offset 0 0 0"

section \<open>Bit-level facts\<close>

lemma seven_mask: "(0x7F :: 'a::len word) = mask 7"
  by (simp add: mask_eq_exp_minus_1)

lemma bit_0x80 [simp]: "bit (0x80 :: int) n \<longleftrightarrow> n = 7"
proof -
  have "(0x80 :: int) = push_bit 7 1" by simp
  then show ?thesis by (simp only: bit_simps) auto
qed

lemma low_septet_byte:
  "ucast ((ucast (v AND 0x7F) OR 0x80) AND 0x7F :: u8) = (v AND 0x7F)"
  "ucast (ucast (v AND 0x7F) AND 0x7F :: u8) = (v AND 0x7F)" for v :: u32
  unfolding seven_mask by (auto intro!: bit_word_eqI simp: bit_simps)

lemma continuation_bit:
  "(ucast (v AND 0x7F) OR 0x80) AND 0x80 = (0x80 :: u8)"
  "ucast (v AND 0x7F) AND 0x80 = (0 :: u8)" for v :: u32
  unfolding seven_mask by (auto intro!: bit_word_eqI simp: bit_simps)

lemma take_bit_extend:
  "take_bit k v OR push_bit k (drop_bit k v AND 0x7F) = take_bit (k + 7) v" for v :: u32
proof (rule bit_word_eqI)
  fix n assume "n < LENGTH(32)"
  then show "bit (take_bit k v OR push_bit k (drop_bit k v AND 0x7F)) n = bit (take_bit (k + 7) v) n"
    unfolding seven_mask by (cases "n < k") (auto simp: bit_simps)
qed

section \<open>Encode, then decode\<close>

lemma uleb_bytes_last: "drop_bit 7 v = 0 \<Longrightarrow> uleb_bytes v = [ucast (v AND 0x7F)]"
  by (subst uleb_bytes.simps) (simp add: Let_def)

lemma uleb_bytes_more:
  "drop_bit 7 v \<noteq> 0 \<Longrightarrow> uleb_bytes v = (ucast (v AND 0x7F) OR 0x80) # uleb_bytes (drop_bit 7 v)"
  by (subst uleb_bytes.simps) (simp add: Let_def)

lemma drop_all_u32: "32 \<le> k \<Longrightarrow> drop_bit k v = 0" for v :: u32
  by (rule bit_word_eqI) (simp add: bit_simps)

lemma take_bit_eq_if_drop_bit_0: "drop_bit k v = 0 \<Longrightarrow> take_bit k v = v" for v :: u32
  by (metis bits_ident bit.disj_zero_right or.right_neutral push_bit_of_0 add.right_neutral add.commute)

lemma length_uleb_drop: "i < 5 \<Longrightarrow> i + length (uleb_bytes (drop_bit (7 * i) v)) \<le> 5"
proof (induction "5 - i" arbitrary: i)
  case 0
  then show ?case by simp
next
  case (Suc k)
  show ?case
  proof (cases "drop_bit 7 (drop_bit (7 * i) v) = 0")
    case True
    then show ?thesis using Suc.prems by (simp add: uleb_bytes_last)
  next
    case False
    then have "i \<noteq> 4" by (auto simp: drop_bit_drop_bit drop_all_u32)
    with Suc.prems Suc.hyps have "Suc i + length (uleb_bytes (drop_bit (7 * Suc i) v)) \<le> 5"
      by (intro Suc.hyps) auto
    with False show ?thesis by (simp add: uleb_bytes_more drop_bit_drop_bit add.commute)
  qed
qed

lemma length_uleb_bytes: "length (uleb_bytes v) \<le> 5"
  using length_uleb_drop[of 0 v] by simp

lemma uleb_bytes_not_Nil [simp]: "uleb_bytes v \<noteq> []"
  by (subst uleb_bytes.simps) (simp add: Let_def)

lemma encode_uleb128_ok: "encode_uleb128 v = Inr (uleb_bytes v)"
  using length_uleb_bytes[of v] by (simp add: encode_uleb128_def kMaxVarintBytes_def)

lemma unat_push_one: "unat (push_bit k 1 :: u32) = 2 ^ k" if "k < 32"
proof -
  have "unat (of_nat (2 ^ k) :: u32) = 2 ^ k mod 2 ^ 32"
    by (simp only: unat_of_nat len_num1 len_bit0 len_num0) simp
  also have "(2::nat) ^ k < 2 ^ 32" using that by (simp only: power_strict_increasing_iff)
  then have "(2::nat) ^ k mod 2 ^ 32 = 2 ^ k" by (rule mod_less)
  finally show ?thesis by simp
qed

lemma drop_bit_less: "drop_bit k v \<noteq> 0 \<Longrightarrow> k < 32 \<Longrightarrow> \<not> v < push_bit k 1" for v :: u32
proof
  assume nz: "drop_bit k v \<noteq> 0" and k: "k < 32" "v < push_bit k 1"
  then have "unat v < 2 ^ k"
    by (simp only: word_less_nat_alt unat_push_one)
  then have "unat (drop_bit k v) = 0"
    by (simp only: unat_drop_bit_eq drop_bit_eq_div[where 'a = nat] div_less)
  with nz show False by (simp only: unat_eq_zero)
qed

lemma high_nibble: "(0xF0 :: u8) = push_bit 4 (mask 4)"
  by (simp add: mask_eq_exp_minus_1)

lemma fifth_septet: "ucast (drop_bit 28 v AND 0x7F) AND 0xF0 = (0 :: u8)" for v :: u32
  unfolding high_nibble seven_mask by (rule bit_word_eqI) (auto simp: bit_simps)

lemma decode_uleb_loop_last:
  assumes "i < 5" "offset + i < length bs" "bs ! (offset + i) AND 0x80 = 0"
    and "value' = value OR push_bit shift (ucast (bs ! (offset + i) AND 0x7F))"
    and "i = 4 \<longrightarrow> bs ! (offset + i) AND 0xF0 = 0"
    and "i > 0 \<longrightarrow> \<not> value' < push_bit (7 * i) 1"
  shows "decode_uleb_loop bs offset i value shift = Inr (value', i + 1)"
  using assms by (subst decode_uleb_loop.simps) (auto simp: Let_def kMaxVarintBytes_def)

lemma decode_uleb_loop_more:
  assumes "i < 5" "offset + i < length bs" "bs ! (offset + i) AND 0x80 \<noteq> 0"
  shows "decode_uleb_loop bs offset i value shift = decode_uleb_loop bs offset (i + 1)
    (value OR push_bit shift (ucast (bs ! (offset + i) AND 0x7F))) (shift + 7)"
  using assms by (subst decode_uleb_loop.simps) (simp add: Let_def kMaxVarintBytes_def)

lemma decode_uleb_loop_put:
  "i < 5 \<Longrightarrow> (i > 0 \<longrightarrow> drop_bit (7 * i) v \<noteq> 0) \<Longrightarrow> offset + i = length pre \<Longrightarrow>
     decode_uleb_loop (pre @ uleb_bytes (drop_bit (7 * i) v) @ post) offset i
       (take_bit (7 * i) v) (7 * i)
     = Inr (v, i + length (uleb_bytes (drop_bit (7 * i) v)))"
proof (induction "5 - i" arbitrary: i pre)
  case 0
  then show ?case by simp
next
  case (Suc k)
  let ?r = "drop_bit (7 * i) v"
  let ?bs = "pre @ uleb_bytes ?r @ post"
  have here: "offset + i < length ?bs" using Suc.prems(3) by simp
  show ?case
  proof (cases "drop_bit 7 ?r = 0")
    case True
    have byte: "?bs ! (offset + i) = ucast (?r AND 0x7F)"
      using Suc.prems(3) True by (simp add: uleb_bytes_last)
    have whole: "take_bit (7 * i + 7) v = v"
      using True by (intro take_bit_eq_if_drop_bit_0) (simp add: drop_bit_drop_bit add.commute)
    have "decode_uleb_loop ?bs offset i (take_bit (7 * i) v) (7 * i) = Inr (v, i + 1)"
    proof (rule decode_uleb_loop_last[OF Suc.prems(1) here])
      show "?bs ! (offset + i) AND 0x80 = 0" unfolding byte by (rule continuation_bit)
      show "v = take_bit (7 * i) v OR push_bit (7 * i) (ucast (?bs ! (offset + i) AND 0x7F))"
        unfolding byte low_septet_byte take_bit_extend whole ..
      show "i = 4 \<longrightarrow> ?bs ! (offset + i) AND 0xF0 = 0"
        unfolding byte using fifth_septet by simp
      show "i > 0 \<longrightarrow> \<not> v < push_bit (7 * i) 1"
        using Suc.prems drop_bit_less by auto
    qed
    with True show ?thesis by (simp add: uleb_bytes_last)
  next
    case False
    have byte: "?bs ! (offset + i) = ucast (?r AND 0x7F) OR 0x80"
      using Suc.prems(3) False by (simp add: uleb_bytes_more)
    have i: "i + 1 < 5" "7 * (i + 1) = 7 * i + 7"
      using False Suc.prems(1) by (cases "i = 4") (auto simp: drop_bit_drop_bit drop_all_u32)
    have nonzero: "(0x80 :: u8) \<noteq> 0 \<longleftrightarrow> True" by simp
    have next_rest: "drop_bit (7 * (i + 1)) v = drop_bit 7 ?r"
      by (simp add: drop_bit_drop_bit add.commute)
    have "decode_uleb_loop ?bs offset i (take_bit (7 * i) v) (7 * i)
        = decode_uleb_loop ?bs offset (i + 1) (take_bit (7 * (i + 1)) v) (7 * (i + 1))"
      using decode_uleb_loop_more[OF Suc.prems(1) here, of "take_bit (7 * i) v" "7 * i"]
      by (simp only: byte continuation_bit low_septet_byte take_bit_extend i(2) nonzero)
    also have "?bs = (pre @ [ucast (?r AND 0x7F) OR 0x80]) @
        uleb_bytes (drop_bit (7 * (i + 1)) v) @ post"
      unfolding next_rest using uleb_bytes_more[OF False] by simp
    also have "decode_uleb_loop \<dots> offset (i + 1) (take_bit (7 * (i + 1)) v) (7 * (i + 1))
        = Inr (v, i + 1 + length (uleb_bytes (drop_bit (7 * (i + 1)) v)))"
      using Suc.hyps(2) Suc.prems False i(1) next_rest by (intro Suc.hyps(1)) simp_all
    finally show ?thesis
      unfolding next_rest using uleb_bytes_more[OF False] by simp
  qed
qed

lemma decode_uleb128_put:
  "decode_uleb128 (pre @ uleb_bytes v @ post) (length pre) = Inr (v, length (uleb_bytes v))"
  using decode_uleb_loop_put[of 0 v "length pre" pre post]
  by (simp add: decode_uleb128_def)

section \<open>Only canonical encodings decode\<close>

lemma low_byte: "b AND 0x80 = 0 \<Longrightarrow> ucast (ucast (b AND 0x7F) :: u32) = b" for b :: u8
proof -
  assume top: "b AND 0x80 = 0"
  have e: "(0x80 :: u8) = push_bit 7 1" by simp
  have t: "\<not> bit b 7"
  proof
    assume "bit b 7"
    then have "bit (b AND 0x80) 7" unfolding e by (simp only: bit_simps) simp
    with top show False by simp
  qed
  show ?thesis
    unfolding seven_mask
  proof (rule bit_word_eqI)
    fix n assume "n < LENGTH(8)"
    then show "bit (ucast (ucast (b AND mask 7) :: u32) :: u8) n = bit b n"
      using t by (cases "n = 7") (auto simp: bit_simps)
  qed
qed

lemma high_byte: "b AND 0x80 \<noteq> 0 \<Longrightarrow> ucast (ucast (b AND 0x7F) :: u32) OR 0x80 = b" for b :: u8
proof -
  assume top: "b AND 0x80 \<noteq> 0"
  have e: "(0x80 :: u8) = push_bit 7 1" by simp
  have t: "bit b 7"
  proof (rule ccontr)
    assume no: "\<not> bit b 7"
    have "b AND 0x80 = 0"
      unfolding e
    proof (rule bit_word_eqI)
      fix n assume "n < LENGTH(8)"
      then show "bit (b AND push_bit 7 1) n = bit 0 n"
        using no by (cases "n = 7") (simp_all only: bit_simps, auto)
    qed
    with top show False ..
  qed
  show ?thesis
    unfolding seven_mask e
  proof (rule bit_word_eqI)
    fix n assume "n < LENGTH(8)"
    then show "bit (ucast (ucast (b AND mask 7) :: u32) OR push_bit 7 1 :: u8) n = bit b n"
      using t by (cases "n = 7") (auto simp: bit_simps)
  qed
qed

lemma septet_parts:
  fixes t w :: u32
  assumes "take_bit k t = t" "\<And>m. bit w m \<Longrightarrow> k + m < 32"
  shows "take_bit k (t OR push_bit k w) = t" "drop_bit k (t OR push_bit k w) = w"
proof -
  have t: "bit t n \<longrightarrow> n < k" for n using assms(1) by (metis bit_take_bit_iff)
  show "take_bit k (t OR push_bit k w) = t"
    using t by (intro bit_word_eqI) (auto simp: bit_simps)
  show "drop_bit k (t OR push_bit k w) = w"
    using t assms(2) by (intro bit_word_eqI) (fastforce simp: bit_simps)
qed

lemma take_septet: "drop_bit k v AND 0x7F = drop_bit k (take_bit (k + 7) v)" for v :: u32
  unfolding seven_mask by (rule bit_word_eqI) (auto simp: bit_simps)

lemma septet_fits:
  fixes b :: u8
  assumes "i < 5" "i = 4 \<longrightarrow> b AND 0xF0 = 0" "bit (ucast (b AND 0x7F) :: u32) m"
  shows "7 * i + m < 32"
proof -
  have m: "m < 7" "bit b m" using assms(3) unfolding seven_mask by (auto simp: bit_simps)
  show ?thesis
  proof (cases "i = 4")
    case True
    then have "b AND 0xF0 = 0" using assms(2) by simp
    then have "\<not> bit (b AND 0xF0) m" by simp
    then have "m < 4" using m unfolding high_nibble by (auto simp: bit_simps)
    with True show ?thesis by simp
  qed (use assms(1) m in simp)
qed

lemma decode_uleb_loop_InrD:
  assumes "decode_uleb_loop bs offset i t shift = Inr (v, n)" "i < 5"
  obtains
    (Last) "offset + i < length bs" "bs ! (offset + i) AND 0x80 = 0"
      "v = t OR push_bit shift (ucast (bs ! (offset + i) AND 0x7F))" "n = i + 1"
      "i = 4 \<longrightarrow> bs ! (offset + i) AND 0xF0 = 0" "i > 0 \<longrightarrow> \<not> v < push_bit (7 * i) 1"
  | (More) "offset + i < length bs" "bs ! (offset + i) AND 0x80 \<noteq> 0" "i + 1 < 5"
      "decode_uleb_loop bs offset (i + 1)
         (t OR push_bit shift (ucast (bs ! (offset + i) AND 0x7F))) (shift + 7) = Inr (v, n)"
proof -
  have len: "offset + i < length bs"
    using assms by (subst (asm) decode_uleb_loop.simps) (auto simp: kMaxVarintBytes_def split: if_splits)
  show ?thesis
  proof (cases "bs ! (offset + i) AND 0x80 = 0")
    case True
    show ?thesis
      by (rule Last[OF len True]; use assms len True in
          \<open>subst (asm) decode_uleb_loop.simps, auto simp: Let_def kMaxVarintBytes_def split: if_splits\<close>)
  next
    case False
    have rest: "decode_uleb_loop bs offset (i + 1)
        (t OR push_bit shift (ucast (bs ! (offset + i) AND 0x7F))) (shift + 7) = Inr (v, n)"
      using assms(1) decode_uleb_loop_more[OF assms(2) len False] by simp
    then have "i + 1 < 5"
      by (subst (asm) decode_uleb_loop.simps) (auto simp: kMaxVarintBytes_def split: if_splits)
    then show ?thesis using More[OF len False _ rest] by blast
  qed
qed

lemma zero_below_push: "drop_bit k v = 0 \<Longrightarrow> k < 32 \<Longrightarrow> v < push_bit k 1" for v :: u32
proof -
  assume "drop_bit k v = 0" and k: "k < 32"
  then have "unat v div 2 ^ k = 0"
    by (metis unat_drop_bit_eq drop_bit_eq_div unat_0)
  then have "unat v < 2 ^ k" by (simp add: div_eq_0_iff)
  then show ?thesis using k by (simp only: word_less_nat_alt unat_push_one)
qed

lemma decode_uleb_loop_sound:
  "decode_uleb_loop bs offset i t (7 * i) = Inr (v, n) \<Longrightarrow> take_bit (7 * i) t = t \<Longrightarrow> i < 5 \<Longrightarrow>
     take_bit (7 * i) v = t \<and> (i > 0 \<longrightarrow> drop_bit (7 * i) v \<noteq> 0) \<and>
     n = i + length (uleb_bytes (drop_bit (7 * i) v)) \<and> offset + n \<le> length bs \<and>
     take (length (uleb_bytes (drop_bit (7 * i) v))) (drop (offset + i) bs)
       = uleb_bytes (drop_bit (7 * i) v)"
proof (induction "5 - i" arbitrary: i t)
  case 0
  then show ?case by simp
next
  case (Suc k)
  let ?b = "bs ! (offset + i)" and ?w = "ucast (bs ! (offset + i) AND 0x7F) :: u32"
  let ?t' = "t OR push_bit (7 * i) ?w"
  from Suc.prems(1,3) show ?case
  proof (cases rule: decode_uleb_loop_InrD)
    case Last
    have fits: "7 * i + m < 32" if "bit ?w m" for m
      using septet_fits[OF Suc.prems(3) Last(5) that] .
    have take: "take_bit (7 * i) v = t" and drop: "drop_bit (7 * i) v = ?w"
      using septet_parts[OF Suc.prems(2) fits] Last(3) by simp_all
    have "drop_bit 7 ?w = 0"
      unfolding seven_mask by (rule bit_word_eqI) (auto simp: bit_simps)
    then have "uleb_bytes ?w = [ucast (?w AND 0x7F)]" by (rule uleb_bytes_last)
    also have "?w AND 0x7F = ?w"
      unfolding seven_mask by (rule bit_word_eqI) (auto simp: bit_simps)
    also have "ucast ?w = ?b" using Last(2) by (rule low_byte)
    finally have bytes: "uleb_bytes ?w = [?b]" .
    have "i > 0 \<longrightarrow> ?w \<noteq> 0"
      using zero_below_push[of "7 * i" v] drop Last(6) Suc.prems(3) by auto
    then show ?thesis
      using take drop bytes Last(1,4) by (simp add: Cons_nth_drop_Suc[symmetric])
  next
    case More
    have fits: "7 * i + m < 32" if "bit ?w m" for m
      using septet_fits[OF Suc.prems(3) _ that] More(3) by simp
    have next_i: "7 * (i + 1) = 7 * i + 7" by simp
    have t': "take_bit (7 * i + 7) ?t' = ?t'"
    proof (rule bit_word_eqI)
      fix m
      have "bit t m \<longrightarrow> m < 7 * i" using Suc.prems(2) by (metis bit_take_bit_iff)
      then show "bit (take_bit (7 * i + 7) ?t') m = bit ?t' m"
        unfolding seven_mask by (auto simp: bit_simps)
    qed
    have k: "k = 5 - (i + 1)" using Suc.hyps(2) by simp
    note IH = Suc.hyps(1)[OF k, unfolded next_i, OF More(4) t' More(3)]
    have tk: "take_bit (7 * i + 7) v = ?t'" and nz: "drop_bit (7 * i + 7) v \<noteq> 0"
      using IH by simp_all
    let ?r = "drop_bit (7 * i) v"
    have r7: "drop_bit 7 ?r = drop_bit (7 * i + 7) v" by (simp add: drop_bit_drop_bit add.commute)
    have r0: "?r \<noteq> 0" using nz r7 by (metis drop_bit_of_0)
    have "take_bit (7 * i) v = take_bit (7 * i) ?t'"
      using arg_cong[OF tk, of "take_bit (7 * i)"] by simp
    then have take: "take_bit (7 * i) v = t"
      using septet_parts(1)[OF Suc.prems(2) fits] by simp
    have "?r AND 0x7F = ?w"
      unfolding take_septet tk using septet_parts(2)[OF Suc.prems(2) fits] .
    then have "ucast (?r AND 0x7F) OR 0x80 = ?b" using high_byte[OF More(2)] by simp
    then have "uleb_bytes ?r = ?b # uleb_bytes (drop_bit (7 * i + 7) v)"
      using uleb_bytes_more[of ?r] nz r7 by simp
    then show ?thesis
      using IH More(1) take r0
      by (auto simp: Cons_nth_drop_Suc[symmetric])
  qed
qed

section \<open>The codec as a wire format\<close>

lemma decode_uleb128_InrD:
  assumes "decode_uleb128 bs offset = Inr (v, n)"
  shows "n = length (uleb_bytes v) \<and> offset + n \<le> length bs \<and>
    take (length (uleb_bytes v)) (drop offset bs) = uleb_bytes v"
  using decode_uleb_loop_sound[of bs offset 0 0 v n] assms by (simp add: decode_uleb128_def)

definition read_uleb128 :: "bytes \<Rightarrow> nat \<Rightarrow> (u32 \<times> nat) result" where
  "read_uleb128 bs cursor =
     (case decode_uleb128 bs cursor of Inl e \<Rightarrow> Inl e | Inr (v, n) \<Rightarrow> Inr (v, cursor + n))"

interpretation uleb: cursor_format uleb_bytes read_uleb128 "\<lambda>_. True"
  by unfold_locales
    (auto simp: read_uleb128_def decode_uleb128_put dest: decode_uleb128_InrD split: sum.splits)

text \<open>Remark. Every 32-bit length is encoded in one to five bytes, and decoding at the
  position where the encoding starts, in any surrounding bytes, returns the length and exactly
  the number of bytes it occupies.\<close>

theorem uleb128_roundtrip:
  "\<exists>out. encode_uleb128 v = Inr out \<and> 1 \<le> length out \<and> length out \<le> kMaxVarintBytes \<and>
     decode_uleb128 (pre @ out @ post) (length pre) = Inr (v, length out)"
  using length_uleb_bytes[of v] uleb_bytes_not_Nil[of v]
  by (simp add: encode_uleb128_ok decode_uleb128_put kMaxVarintBytes_def Suc_le_eq)

text \<open>Remark. The decoder accepts canonical encodings only: when it returns a value and a
  byte count, those bytes of the input are the encoder's output for that value.\<close>

theorem uleb128_canonical:
  assumes "decode_uleb128 bs offset = Inr (v, n)"
  shows "offset + n \<le> length bs \<and> encode_uleb128 v = Inr (take n (drop offset bs))"
  using decode_uleb128_InrD[OF assms] by (auto simp: encode_uleb128_ok)

theorem uleb128_canonical_witness:
  "1 + 2 \<le> length [0xAA, 0x80, 0x01, 0xBB :: u8] \<and>
   encode_uleb128 128 = Inr (take 2 (drop 1 [0xAA, 0x80, 0x01, 0xBB]))"
proof -
  have "decode_uleb128 [0xAA, 0x80, 0x01, 0xBB] 1 = Inr (128, 2)"
    by (simp add: decode_uleb128_def decode_uleb_loop.simps Let_def kMaxVarintBytes_def)
  then show ?thesis by (rule uleb128_canonical)
qed

text \<open>How the outcome at a position can depend on bytes that have not arrived yet: only
  \<open>need_more_data\<close> can change.\<close>

lemma decode_uleb_loop_extend:
  "(\<forall>e. decode_uleb_loop bs offset i t shift = Inl e \<longrightarrow> err_code e \<noteq> EC_need_more_data) \<Longrightarrow>
     decode_uleb_loop (bs @ rest) offset i t shift = decode_uleb_loop bs offset i t shift"
proof (induction bs offset i t shift rule: decode_uleb_loop.induct)
  case (1 bs offset i t shift)
  show ?case
  proof (cases "i < kMaxVarintBytes \<and> offset + i < length bs")
    case True
    then have same: "(bs @ rest) ! (offset + i) = bs ! (offset + i)" by (simp add: nth_append)
    let ?t' = "t OR push_bit shift (ucast (bs ! (offset + i) AND 0x7F))"
    show ?thesis
    proof (cases "bs ! (offset + i) AND 0x80 = 0")
      case True
      with \<open>i < kMaxVarintBytes \<and> offset + i < length bs\<close> show ?thesis
        by (simp add: decode_uleb_loop.simps[of _ offset i t shift] Let_def same)
    next
      case False
      with \<open>i < kMaxVarintBytes \<and> offset + i < length bs\<close> "1.prems"
      have "decode_uleb_loop (bs @ rest) offset (i + 1) ?t' (shift + 7)
          = decode_uleb_loop bs offset (i + 1) ?t' (shift + 7)"
        by (intro "1.IH") (auto simp: decode_uleb_loop.simps[of bs offset i t shift] Let_def)
      with False \<open>i < kMaxVarintBytes \<and> offset + i < length bs\<close> show ?thesis
        by (simp add: decode_uleb_loop.simps[of _ offset i t shift] Let_def same)
    qed
  next
    case False
    with "1.prems" show ?thesis
      by (auto simp: decode_uleb_loop.simps[of _ offset i t shift])
  qed
qed

lemma decode_uleb128_extend:
  assumes "\<And>e. decode_uleb128 bs offset = Inl e \<Longrightarrow> err_code e \<noteq> EC_need_more_data"
  shows "decode_uleb128 (bs @ rest) offset = decode_uleb128 bs offset"
  using assms decode_uleb_loop_extend[of bs offset 0 0 0 rest] by (auto simp: decode_uleb128_def)

end
