(* ===== verification/Extensions.thy ===== *)
theory Extensions
  imports Varint
begin

text \<open>
  The TLV extension block of a frame, \<^verbatim>\<open>src/format/frame_codec.cpp\<close>: \<open>write_extensions\<close> sorts
  and writes, \<open>parse_extensions\<close> reads back with its order, length and required-bit checks.
  The lemmas give both directions: what is written parses back to the sorted list, and what
  parses is byte for byte the writing of the parsed list.
\<close>

record Extension =
  ext_type :: u16
  ext_required :: bool
  ext_value :: bytes

definition kRequiredBit :: u16 where
  "kRequiredBit = 0x8000"

definition known_required_extension :: "u16 \<Rightarrow> bool" where
  "known_required_extension t \<longleftrightarrow> t = 1 \<or> t = 2 \<or> t = 3 \<or> t = 4"

section \<open>Writing\<close>

text \<open>The comparator of \<open>std::stable_sort\<close>: by type, required before optional. The key orders
  extensions the same way and \<open>sort_key\<close> is stable.\<close>

definition extension_key :: "Extension \<Rightarrow> nat" where
  "extension_key e = 2 * unat (ext_type e) + (if ext_required e then 0 else 1)"

fun write_extension_loop :: "bytes \<Rightarrow> Extension list \<Rightarrow> bytes result" where
  "write_extension_loop out [] = Inr out"
| "write_extension_loop out (e # es) =
     (if ext_type e > 0x7FFF
      then Inl (make_error ES_connection EC_malformed_tlv CA_close_connection
                  ''extension type exceeds canonical range'')
      else
        let raw = ext_type e OR (if ext_required e then kRequiredBit else 0);
            out' = append_u16 out raw
        in case encode_uleb128 (of_nat (length (ext_value e))) of
             Inl err \<Rightarrow> Inl err
           | Inr encoded_len \<Rightarrow> write_extension_loop (out' @ encoded_len @ ext_value e) es)"

definition write_extensions :: "Extension list \<Rightarrow> bytes result" where
  "write_extensions es = write_extension_loop [] (sort_key extension_key es)"

section \<open>Parsing\<close>

function parse_extension_loop ::
  "bytes \<Rightarrow> nat \<Rightarrow> u16 option \<Rightarrow> Extension list \<Rightarrow> Extension list result" where
  "parse_extension_loop bs cursor previous es =
     (if cursor < length bs then
        if length bs - cursor < 2
        then Inl (make_error ES_connection EC_malformed_tlv CA_close_connection
                    ''short extension type'')
        else
          let raw = word16_be (bs ! cursor) (bs ! (cursor + 1)) in
          case decode_uleb128 bs (cursor + 2) of
            Inl e \<Rightarrow>
              Inl (e\<lparr>err_code := (if err_code e = EC_need_more_data then EC_malformed_tlv
                                  else err_code e),
                     err_action := CA_close_connection\<rparr>)
          | Inr (len, n) \<Rightarrow>
              let cursor' = cursor + 2 + n in
              if unat len > length bs - cursor'
              then Inl (make_error ES_connection EC_malformed_tlv CA_close_connection
                          ''extension length exceeds header'')
              else
                let type = raw AND NOT kRequiredBit in
                if (case previous of None \<Rightarrow> False | Some p \<Rightarrow> type < p)
                then Inl (make_error ES_connection EC_malformed_tlv CA_close_connection
                            ''extensions are not sorted'')
                else
                  let required = (raw AND kRequiredBit \<noteq> 0) in
                  if required \<and> \<not> known_required_extension type
                  then Inl (make_error ES_connection EC_unknown_required_feature
                              CA_close_connection ''unknown required frame extension'')
                  else parse_extension_loop bs (cursor' + unat len) (Some type)
                         (es @ [\<lparr>ext_type = type, ext_required = required,
                                 ext_value = take (unat len) (drop cursor' bs)\<rparr>])
      else Inr es)"
  by pat_completeness auto
termination
  by (relation "measure (\<lambda>(bs, cursor, previous, es). length bs - cursor)") auto

declare parse_extension_loop.simps [simp del]

definition parse_extensions :: "bytes \<Rightarrow> Extension list result" where
  "parse_extensions bs = parse_extension_loop bs 0 None []"

section \<open>Bytes of one extension\<close>

definition extension_raw :: "Extension \<Rightarrow> u16" where
  "extension_raw e = ext_type e OR (if ext_required e then kRequiredBit else 0)"

definition extension_bytes :: "Extension \<Rightarrow> bytes" where
  "extension_bytes e =
     append_u16 [] (extension_raw e) @ uleb_bytes (of_nat (length (ext_value e))) @ ext_value e"

definition extension_ok :: "Extension \<Rightarrow> bool" where
  "extension_ok e \<longleftrightarrow>
     ext_type e \<le> 0x7FFF \<and> length (ext_value e) < 2 ^ 32 \<and>
     (ext_required e \<longrightarrow> known_required_extension (ext_type e))"

lemma required_mask: "kRequiredBit = push_bit 15 1"
  by (simp add: kRequiredBit_def)

lemma bit_required_word [simp]: "bit (0x8000 :: u16) n \<longleftrightarrow> n = 15"
proof -
  have "(0x8000 :: u16) = push_bit 15 1" by simp
  then show ?thesis by (simp only: bit_simps) auto
qed

lemma bit_required_int [simp]: "bit (0x8000 :: int) n \<longleftrightarrow> n = 15"
proof -
  have "(0x8000 :: int) = push_bit 15 1" by simp
  then show ?thesis by (simp only: bit_simps) auto
qed

lemma canonical_type: "t \<le> 0x7FFF \<longleftrightarrow> \<not> bit t 15" for t :: u16
proof
  assume "t \<le> 0x7FFF"
  then have "unat t < 2 ^ 15" by (simp add: word_le_nat_alt)
  then have "take_bit 15 (unat t) = unat t" by (simp add: take_bit_nat_eq_self)
  then have "\<not> bit (unat t) 15" by (metis bit_take_bit_iff less_irrefl)
  then show "\<not> bit t 15" by (simp add: bit_unsigned_iff)
next
  assume no: "\<not> bit t 15"
  have "t = take_bit 15 t"
  proof (rule bit_word_eqI)
    fix n assume "n < LENGTH(16)"
    then show "bit t n = bit (take_bit 15 t) n"
      using no by (cases "n = 15") (auto simp: bit_simps)
  qed
  then have "unat t = take_bit 15 (unat t)" by (metis unsigned_take_bit_eq)
  then have "unat t < 2 ^ 15" by (metis take_bit_nat_less_exp)
  then show "t \<le> 0x7FFF" by (simp add: word_le_nat_alt)
qed

lemma raw_parts:
  assumes "ext_type e \<le> 0x7FFF"
  shows "extension_raw e AND NOT kRequiredBit = ext_type e"
    "extension_raw e AND kRequiredBit \<noteq> 0 \<longleftrightarrow> ext_required e"
proof -
  have no: "\<not> bit (ext_type e) 15" using assms canonical_type by blast
  show "extension_raw e AND NOT kRequiredBit = ext_type e"
    unfolding extension_raw_def required_mask
  proof (rule bit_word_eqI)
    fix n assume "n < LENGTH(16)"
    then show "bit ((ext_type e OR (if ext_required e then push_bit 15 1 else 0)) AND
        NOT (push_bit 15 1)) n = bit (ext_type e) n"
      using no by (cases "n = 15") (simp_all only: bit_simps, auto)
  qed
  have "bit (extension_raw e AND kRequiredBit) 15 \<longleftrightarrow> ext_required e"
    unfolding extension_raw_def required_mask using no by (simp only: bit_simps) auto
  moreover have "ext_required e \<or> extension_raw e AND kRequiredBit = 0"
  proof (cases "ext_required e")
    case False
    then have "bit (extension_raw e AND kRequiredBit) n = bit 0 n" for n
      unfolding extension_raw_def required_mask
      using no by (cases "n = 15") (simp_all only: bit_simps, auto)
    then show ?thesis by (auto intro: bit_word_eqI)
  qed simp
  ultimately show "extension_raw e AND kRequiredBit \<noteq> 0 \<longleftrightarrow> ext_required e" by auto
qed

lemma raw_join:
  "extension_raw \<lparr>ext_type = raw AND NOT kRequiredBit, ext_required = (raw AND kRequiredBit \<noteq> 0),
     ext_value = v\<rparr> = raw"
  "raw AND NOT kRequiredBit \<le> 0x7FFF"
proof -
  have bit: "raw AND kRequiredBit \<noteq> 0 \<longleftrightarrow> bit raw 15"
  proof
    assume "bit raw 15"
    then have "bit (raw AND kRequiredBit) 15"
      unfolding required_mask by (simp only: bit_simps) auto
    then show "raw AND kRequiredBit \<noteq> 0" by auto
  next
    assume "raw AND kRequiredBit \<noteq> 0"
    then obtain n where "bit (raw AND kRequiredBit) n" by (metis bit_0_eq bit_eqI bot_apply bot_bool_def)
    then show "bit raw 15" unfolding required_mask by (simp only: bit_simps) auto
  qed
  show "extension_raw \<lparr>ext_type = raw AND NOT kRequiredBit,
      ext_required = (raw AND kRequiredBit \<noteq> 0), ext_value = v\<rparr> = raw"
    unfolding bit
  proof (rule bit_word_eqI)
    fix n assume "n < LENGTH(16)"
    then show "bit (extension_raw \<lparr>ext_type = raw AND NOT kRequiredBit, ext_required = bit raw 15,
        ext_value = v\<rparr>) n = bit raw n"
      unfolding extension_raw_def required_mask
      by (cases "n = 15"; cases "bit raw 15") (simp_all only: bit_simps Extension.simps if_True if_False, auto)
  qed
  show "raw AND NOT kRequiredBit \<le> 0x7FFF"
    unfolding canonical_type required_mask by (simp only: bit_simps) auto
qed

section \<open>Written, then parsed\<close>

lemma write_extension_loop_ok:
  "list_all extension_ok es \<Longrightarrow>
     write_extension_loop out es = Inr (out @ concat (map extension_bytes es))"
proof (induction es arbitrary: out)
  case Nil
  then show ?case by simp
next
  case (Cons e es)
  have "list_all extension_ok es" "extension_ok e" using Cons.prems by simp_all
  moreover from this(2) have "ext_type e \<le> 0x7FFF" by (simp add: extension_ok_def)
  ultimately show ?case
    using Cons.IH
    by (auto simp: Let_def encode_uleb128_ok extension_bytes_def extension_raw_def
        append_field_split(1)[of out] not_less)
qed

lemma write_extension_loop_type:
  "write_extension_loop out es = Inr bs \<Longrightarrow> list_all (\<lambda>e. ext_type e \<le> 0x7FFF) es"
  by (induction out es arbitrary: bs rule: write_extension_loop.induct)
    (auto simp: Let_def encode_uleb128_ok not_less split: if_splits)

lemma write_extension_loop_bytes:
  "list_all (\<lambda>e. ext_type e \<le> 0x7FFF) es \<Longrightarrow>
     write_extension_loop out es = Inr (out @ concat (map extension_bytes es))"
proof (induction es arbitrary: out)
  case Nil
  then show ?case by simp
next
  case (Cons e es)
  then show ?case
    by (auto simp: Let_def encode_uleb128_ok extension_bytes_def extension_raw_def
        append_field_split(1)[of out] not_less)
qed

lemma parse_extension_loop_end: "length bs \<le> cursor \<Longrightarrow> parse_extension_loop bs cursor prev acc = Inr acc"
  by (subst parse_extension_loop.simps) simp

text \<open>One round of the loop on a buffer that holds the writing of one extension at the cursor.\<close>

lemma parse_extension_loop_step:
  assumes ok: "extension_ok e" and prev: "\<And>p. prev = Some p \<Longrightarrow> p \<le> ext_type e"
  shows "parse_extension_loop (pre @ extension_bytes e @ post) (length pre) prev acc
    = parse_extension_loop (pre @ extension_bytes e @ post) (length (pre @ extension_bytes e))
        (Some (ext_type e)) (acc @ [e])"
proof -
  let ?len = "of_nat (length (ext_value e)) :: u32"
  let ?n = "length (uleb_bytes ?len)"
  define bs where "bs = pre @ extension_bytes e @ post"
  define b0 :: u8 where "b0 = ucast (drop_bit 8 (extension_raw e) AND 0xFF)"
  define b1 :: u8 where "b1 = ucast (extension_raw e AND 0xFF)"
  have bs: "bs = pre @ [b0, b1] @ uleb_bytes ?len @ ext_value e @ post"
    by (simp add: bs_def extension_bytes_def append_u16_def b0_def b1_def)
  have raw: "word16_be (bs ! length pre) (bs ! (length pre + 1)) = extension_raw e"
    unfolding bs by (simp add: nth_append b0_def b1_def word16_be_fields)
  have len: "unat ?len = length (ext_value e)"
    using ok by (simp add: extension_ok_def unat_of_nat)
  have dec: "decode_uleb128 bs (length pre + 2) = Inr (?len, ?n)"
    using decode_uleb128_put[of "pre @ [b0, b1]" ?len "ext_value e @ post"] bs by simp
  have parts: "extension_raw e AND NOT kRequiredBit = ext_type e"
    "extension_raw e AND kRequiredBit \<noteq> 0 \<longleftrightarrow> ext_required e"
    using ok by (auto simp: extension_ok_def raw_parts)
  have val: "take (length (ext_value e)) (drop (length pre + 2 + ?n) bs) = ext_value e"
    unfolding bs by simp
  have bounds: "length pre < length bs \<longleftrightarrow> True" "length bs - length pre < 2 \<longleftrightarrow> False"
    "length (ext_value e) > length bs - (length pre + 2 + ?n) \<longleftrightarrow> False"
    unfolding bs by simp_all
  have order: "(case prev of None \<Rightarrow> False | Some p \<Rightarrow> ext_type e < p) \<longleftrightarrow> False"
    using prev by (auto split: option.splits)
  have known: "ext_required e \<and> \<not> known_required_extension (ext_type e) \<longleftrightarrow> False"
    using ok by (auto simp: extension_ok_def)
  have rec: "\<lparr>ext_type = ext_type e, ext_required = ext_required e, ext_value = ext_value e\<rparr> = e"
    by simp
  have tail: "length pre + 2 + ?n + length (ext_value e) = length (pre @ extension_bytes e)"
    by (simp add: extension_bytes_def)
  have "parse_extension_loop bs (length pre) prev acc
      = parse_extension_loop bs (length (pre @ extension_bytes e)) (Some (ext_type e)) (acc @ [e])"
    by (subst parse_extension_loop.simps)
      (simp only: bounds if_True if_False raw dec Let_def sum.case prod.case parts len val order
        known rec tail)
  then show ?thesis unfolding bs_def .
qed

definition types_sorted :: "u16 option \<Rightarrow> Extension list \<Rightarrow> bool" where
  "types_sorted prev es \<longleftrightarrow> sorted (map ext_type es) \<and> (\<forall>p. prev = Some p \<longrightarrow> (\<forall>e \<in> set es. p \<le> ext_type e))"

lemma types_sorted_Cons [simp]:
  "types_sorted prev (e # es) \<longleftrightarrow>
     (\<forall>p. prev = Some p \<longrightarrow> p \<le> ext_type e) \<and> types_sorted (Some (ext_type e)) es"
  by (auto simp: types_sorted_def)

lemma types_sorted_Nil [simp]: "types_sorted prev []"
  by (simp add: types_sorted_def)

lemma parse_extension_loop_put:
  "list_all extension_ok es \<Longrightarrow> types_sorted prev es \<Longrightarrow>
     parse_extension_loop (pre @ concat (map extension_bytes es)) (length pre) prev acc = Inr (acc @ es)"
proof (induction es arbitrary: pre prev acc)
  case Nil
  then show ?case by (simp add: parse_extension_loop_end)
next
  case (Cons e es)
  have "parse_extension_loop (pre @ concat (map extension_bytes (e # es))) (length pre) prev acc
      = parse_extension_loop (pre @ extension_bytes e @ concat (map extension_bytes es))
          (length (pre @ extension_bytes e)) (Some (ext_type e)) (acc @ [e])"
    using parse_extension_loop_step[of e prev pre "concat (map extension_bytes es)" acc] Cons.prems
    by simp
  then show ?case
    using Cons.IH[of "Some (ext_type e)" "pre @ extension_bytes e" "acc @ [e]"] Cons.prems by simp
qed

lemma sorted_by_key_types:
  "sorted (map extension_key es) \<Longrightarrow> sorted (map ext_type es)"
proof -
  have mono: "ext_type a \<le> ext_type b" if "extension_key a \<le> extension_key b" for a b
    using that by (auto simp: extension_key_def word_le_nat_alt split: if_splits)
  show "sorted (map extension_key es) \<Longrightarrow> sorted (map ext_type es)"
    by (induction es) (auto intro: mono)
qed

lemma extensions_parse_back:
  assumes "list_all extension_ok es"
  shows "\<exists>out. write_extensions es = Inr out \<and> parse_extensions out = Inr (sort_key extension_key es)"
proof -
  let ?es = "sort_key extension_key es"
  have ok: "list_all extension_ok ?es" using assms by (simp add: list_all_iff)
  have "types_sorted None ?es"
    by (simp add: types_sorted_def sorted_by_key_types)
  then show ?thesis
    using write_extension_loop_ok[OF ok, of "[]"] parse_extension_loop_put[OF ok, of None "[]" "[]"]
    by (simp add: write_extensions_def parse_extensions_def)
qed

section \<open>What parses is what was written\<close>

lemma parse_extension_loop_sound:
  "parse_extension_loop bs cursor prev acc = Inr es \<Longrightarrow> cursor \<le> length bs \<Longrightarrow>
     \<exists>new. es = acc @ new \<and> list_all extension_ok new \<and> types_sorted prev new \<and>
       drop cursor bs = concat (map extension_bytes new)"
proof (induction bs cursor prev acc arbitrary: es rule: parse_extension_loop.induct)
  case (1 bs cursor prev acc)
  show ?case
  proof (cases "cursor < length bs")
    case False
    then show ?thesis using 1(2,3) by (simp add: parse_extension_loop_end)
  next
    case True
    let ?raw = "word16_be (bs ! cursor) (bs ! (cursor + 1))"
    let ?type = "?raw AND NOT kRequiredBit" and ?req = "?raw AND kRequiredBit \<noteq> 0"
    note step = 1(2)[unfolded parse_extension_loop.simps[of bs cursor prev acc] Let_def]
    from True step have two: "\<not> length bs - cursor < 2" by (simp split: if_splits)
    obtain len n where dec: "decode_uleb128 bs (cursor + 2) = Inr (len, n)"
      using step True two by (cases "decode_uleb128 bs (cursor + 2)") (auto simp only: if_True if_False sum.case)
    let ?cursor = "cursor + 2 + n"
    let ?val = "take (unat len) (drop ?cursor bs)"
    let ?e = "\<lparr>ext_type = ?type, ext_required = ?req, ext_value = ?val\<rparr>"
    have fit: "\<not> unat len > length bs - ?cursor"
      and order: "\<not> (case prev of None \<Rightarrow> False | Some p \<Rightarrow> ?type < p)"
      and known: "\<not> (?req \<and> \<not> known_required_extension ?type)"
      and rest: "parse_extension_loop bs (?cursor + unat len) (Some ?type) (acc @ [?e]) = Inr es"
      using step[simplified True two dec if_True if_False simp_thms sum.case prod.case]
      by (simp_all only: sum.distinct simp_thms split: if_splits)
    note n = decode_uleb128_InrD[OF dec]
    have len: "length ?val = unat len" using fit by simp
    have le: "?cursor + unat len \<le> length bs" using n fit by linarith
    obtain new where new: "es = (acc @ [?e]) @ new" "list_all extension_ok new"
      "types_sorted (Some ?type) new"
      "drop (?cursor + unat len) bs = concat (map extension_bytes new)"
      using 1(1)[OF True two refl dec refl refl fit refl order refl known rest le] by blast
    have "extension_ok ?e"
      using known raw_join(2)[of ?raw] unat_u32_less[of len] len by (auto simp: extension_ok_def)
    moreover have "types_sorted prev (?e # new)"
      using order new(3) by (auto split: option.splits simp: not_less)
    moreover have "drop cursor bs = extension_bytes ?e @ drop (?cursor + unat len) bs"
    proof -
      have "drop cursor bs = take 2 (drop cursor bs) @ drop (cursor + 2) bs"
        by (metis append_take_drop_id add.commute drop_drop)
      also have "take 2 (drop cursor bs) = append_u16 [] ?raw"
        using two by (simp add: take_two)
      also have "drop (cursor + 2) bs = uleb_bytes len @ drop ?cursor bs"
        using n by (metis append_take_drop_id add.commute drop_drop)
      also have "drop ?cursor bs = ?val @ drop (?cursor + unat len) bs"
        by (metis append_take_drop_id add.commute drop_drop)
      finally show ?thesis
        unfolding extension_bytes_def raw_join(1) using len by simp
    qed
    ultimately show ?thesis using new by (intro exI[of _ "?e # new"]) simp
  qed
qed

lemma parse_extensions_sound:
  "parse_extensions bs = Inr es \<Longrightarrow>
     list_all extension_ok es \<and> sorted (map ext_type es) \<and> bs = concat (map extension_bytes es)"
  using parse_extension_loop_sound[of bs 0 None "[]" es]
  by (auto simp: parse_extensions_def types_sorted_def)

end
