(* ===== verification/Incremental.thy ===== *)
theory Incremental
  imports Prelude
begin

text \<open>
  The interface between a stream buffer and a frame decoder. A step looks at the bytes that
  have not been consumed and waits, fails, or yields an item with the number of bytes it took.
  Under the laws of \<open>incremental_decoder\<close> what a stream decodes to does not depend on where
  it was cut.
\<close>

datatype 'f decode_step = Step_need_more | Step_error Error | Step_frame 'f nat

datatype stream_end = Pending bytes | Failed Error

locale incremental_decoder =
  fixes step :: "bytes \<Rightarrow> 'f decode_step"
  assumes step_empty: "step [] = Step_need_more"
    and step_progress: "step v = Step_frame f n \<Longrightarrow> 0 < n \<and> n \<le> length v"
    and step_stable: "step v \<noteq> Step_need_more \<Longrightarrow> step (v @ w) = step v"
begin

inductive runs :: "bytes \<Rightarrow> 'f list \<Rightarrow> stream_end \<Rightarrow> bool" where
  runs_wait: "step v = Step_need_more \<Longrightarrow> runs v [] (Pending v)"
| runs_fail: "step v = Step_error e \<Longrightarrow> runs v [] (Failed e)"
| runs_item: "step v = Step_frame f n \<Longrightarrow> runs (drop n v) fs out \<Longrightarrow> runs v (f # fs) out"

inductive_simps runs_Nil: "runs v [] out"
inductive_simps runs_Cons: "runs v (f # fs) out"

lemma runs_empty: "runs [] fs out \<longleftrightarrow> fs = [] \<and> out = Pending []"
  by (cases fs) (auto simp: runs_Nil runs_Cons step_empty)

lemma runs_functional: "runs v fs out \<Longrightarrow> runs v gs out' \<Longrightarrow> fs = gs \<and> out = out'"
proof (induction arbitrary: gs out' rule: runs.induct)
  case (runs_wait v)
  then show ?case by (auto elim: runs.cases)
next
  case (runs_fail v e)
  then show ?case by (auto elim: runs.cases)
next
  case (runs_item v f n fs out)
  from runs_item.prems runs_item.hyps(1) obtain gs' where "gs = f # gs'" "runs (drop n v) gs' out'"
    by (auto elim: runs.cases)
  with runs_item.IH show ?case by blast
qed

lemma runs_total: "\<exists>fs out. runs v fs out"
proof (induction "length v" arbitrary: v rule: less_induct)
  case less
  show ?case
  proof (cases "step v")
    case (Step_frame f n)
    then have "length (drop n v) < length v" using step_progress[of v f n] by auto
    then show ?thesis using less Step_frame runs.runs_item by blast
  qed (use runs.intros in blast)+
qed

lemma runs_settled: "runs v fs (Pending r) \<Longrightarrow> step r = Step_need_more"
  by (induction v fs "Pending r" rule: runs.induct) auto

lemma runs_extend_failed: "runs v fs (Failed e) \<Longrightarrow> runs (v @ w) fs (Failed e)"
proof (induction v fs "Failed e" rule: runs.induct)
  case (runs_fail v)
  then show ?case using step_stable[of v w] by (simp add: runs.runs_fail)
next
  case (runs_item v f n fs)
  then show ?case
    using step_stable[of v w] step_progress[of v f n]
    by (intro runs.runs_item[where n = n]) simp_all
qed

lemma runs_append: "runs v fs (Pending r) \<Longrightarrow> runs (r @ w) gs out \<Longrightarrow> runs (v @ w) (fs @ gs) out"
proof (induction v fs "Pending r" rule: runs.induct)
  case (runs_item v f n fs)
  then show ?case
    using step_stable[of v w] step_progress[of v f n]
    by (auto intro!: runs.runs_item[where n = n])
qed simp

lemma runs_items:
  assumes "\<And>i rest. i < length outs \<Longrightarrow>
      step (outs ! i @ rest) = Step_frame (fs ! i) (length (outs ! i))"
    and "length fs = length outs"
  shows "runs (concat outs) fs (Pending [])"
  using assms
proof (induction outs arbitrary: fs)
  case Nil
  then show ?case by (simp add: runs_empty)
next
  case (Cons b outs)
  then obtain f fs' where fs: "fs = f # fs'" by (cases fs) auto
  have "step (b @ concat outs) = Step_frame f (length b)"
    using Cons.prems(1)[of 0 "concat outs"] fs by simp
  moreover have "runs (concat outs) fs' (Pending [])"
    using Cons.prems fs by (intro Cons.IH) (use Cons.prems(1)[of "Suc _"] in auto)
  ultimately show ?case unfolding fs by (auto intro!: runs.runs_item)
qed

end

end
