(* ===== verification/Frame_Codec.thy ===== *)
theory Frame_Codec
  imports Crc Extensions Incremental
begin

text \<open>
  The LTX1 frame codec, \<^verbatim>\<open>src/format/frame_codec.cpp\<close> with the types of
  \<^verbatim>\<open>include/lattice/frame.hpp\<close>: \<open>FrameCodec::encode\<close>, and \<open>FrameCodec::feed\<close> as the
  iteration of one decoding step over the stream buffer. The lemmas give the frame round trip,
  what acceptance implies, and that the events do not depend on how the stream is cut into
  chunks (through the interface \<open>incremental_decoder\<close>).
\<close>

definition kLtxMagic :: u32 where
  "kLtxMagic = 0x4C545831"

definition kFixedPrefixBytes :: nat where
  "kFixedPrefixBytes = 16"

definition kMaxChannelNo :: u32 where
  "kMaxChannelNo = 0x00FFFFFF"

record Frame =
  f_type :: FrameType
  f_flags :: u8
  f_channel :: ChannelId
  f_frame_seq :: u32
  f_extensions :: "Extension list"
  f_payload :: bytes

record FrameLimits =
  fl_max_frame :: nat
  fl_max_header :: nat

definition default_frame_limits :: FrameLimits where
  "default_frame_limits = \<lparr>fl_max_frame = 64 * 1024, fl_max_header = 4096\<rparr>"

record FrameCodec =
  fc_limits :: FrameLimits
  fc_buffer :: bytes

datatype DecodeEvent = DE_frame Frame | DE_need_more | DE_error Error

fun known_frame_type :: "u8 \<Rightarrow> bool" where
  "known_frame_type t = (t \<in> {0x01, 0x10, 0x11, 0x12, 0x13, 0x14, 0x15, 0x20, 0x21, 0x22, 0x23})"

text \<open>The cast \<open>static_cast<FrameType>(raw_type)\<close>, defined on the values \<open>known_frame_type\<close>
  lets through.\<close>

definition frame_type_of :: "u8 \<Rightarrow> FrameType option" where
  "frame_type_of t = List.find (\<lambda>ty. frame_type_code ty = t)
     [FT_hello, FT_open, FT_data, FT_ack, FT_credit, FT_half_close, FT_reset, FT_ping, FT_pong,
      FT_goaway, FT_resume]"

section \<open>Extension lookup\<close>

definition find_extension :: "Frame \<Rightarrow> u16 \<Rightarrow> Extension option" where
  "find_extension frame type = List.find (\<lambda>ext. ext_type ext = type) (f_extensions frame)"

definition extension_u32 :: "Frame \<Rightarrow> u16 \<Rightarrow> u32 result" where
  "extension_u32 frame type =
     (case find_extension frame type of
        None \<Rightarrow> Inl (make_error ES_message EC_malformed_tlv CA_reset_channel
                       ''missing u32 extension'')
      | Some ext \<Rightarrow>
          if length (ext_value ext) \<noteq> 4
          then Inl (make_error ES_message EC_malformed_tlv CA_reset_channel
                      ''missing u32 extension'')
          else read_u32_be (ext_value ext) 0)"

section \<open>Encoding\<close>

definition encode_frame :: "FrameLimits \<Rightarrow> Frame \<Rightarrow> bytes result" where
  "encode_frame limits frame =
     (if f_flags frame \<noteq> 0
      then Inl (make_error ES_connection EC_reserved_flags CA_close_connection
                  ''reserved frame flags are nonzero'')
      else if cid_number (f_channel frame) > kMaxChannelNo
      then Inl (make_error ES_channel EC_resource_limit CA_reset_channel
                  ''channel number exceeds 24 bits'')
      else case write_extensions (f_extensions frame) of
        Inl e \<Rightarrow> Inl e
      | Inr ext \<Rightarrow>
          if length ext > fl_max_header limits
          then Inl (make_error ES_connection EC_header_too_large CA_close_connection
                      ''extension header exceeds limit'')
          else if length (f_payload frame) > 2 ^ 32 - 1
          then Inl (make_error ES_connection EC_frame_too_large CA_close_connection
                      ''payload exceeds protocol varint range'')
          else case encode_uleb128 (of_nat (length (f_payload frame))) of
            Inl e \<Rightarrow> Inl e
          | Inr payload_len \<Rightarrow>
              let out = append_u32 [] kLtxMagic;
                  out = out @ [frame_type_code (f_type frame), f_flags frame];
                  out = append_u16 out (of_nat (length ext));
                  out = append_u24 out (cid_number (f_channel frame));
                  out = out @ [cid_generation (f_channel frame)];
                  out = append_u32 out (f_frame_seq frame);
                  out = out @ payload_len @ ext @ f_payload frame
              in case checked_add (length out) 4 of
                None \<Rightarrow> Inl (make_error ES_connection EC_frame_too_large CA_close_connection
                              ''encoded frame exceeds limit'')
              | Some frame_total \<Rightarrow>
                  if frame_total > fl_max_frame limits
                  then Inl (make_error ES_connection EC_frame_too_large CA_close_connection
                              ''encoded frame exceeds limit'')
                  else Inr (append_u32 out (crc32c out)))"

section \<open>Decoding\<close>

text \<open>One turn of the \<open>for (;;)\<close> loop of \<open>feed\<close> on the bytes not consumed yet: wait, fail (the
  buffer is dropped), or a frame and the number of bytes it took.\<close>

definition close_error :: "ErrorCode \<Rightarrow> string \<Rightarrow> 'f decode_step" where
  "close_error code detail =
     Step_error (make_error ES_connection code CA_close_connection detail)"

definition decode_body ::
  "FrameLimits \<Rightarrow> bytes \<Rightarrow> bool \<Rightarrow> FrameType \<Rightarrow> nat \<Rightarrow> nat \<Rightarrow> nat \<Rightarrow> Frame decode_step" where
  "decode_body limits view eof type ext_len varint_bytes payload_size =
     (case checked_add (16 + varint_bytes) ext_len of
        None \<Rightarrow> close_error EC_frame_too_large ''header size overflow''
      | Some header_total \<Rightarrow>
          (case (case checked_add header_total payload_size of
                   None \<Rightarrow> None
                 | Some without_crc \<Rightarrow>
                     map_option (\<lambda>frame_total. (without_crc, frame_total)) (checked_add without_crc 4)) of
             None \<Rightarrow> close_error EC_frame_too_large ''frame exceeds negotiated limit''
           | Some (without_crc, frame_total) \<Rightarrow>
               if frame_total > fl_max_frame limits
               then close_error EC_frame_too_large ''frame exceeds negotiated limit''
               else if length view < frame_total
               then (if eof then close_error EC_truncated_frame ''EOF inside frame''
                     else Step_need_more)
               else
                 let expected_crc = word32_be (view ! without_crc) (view ! (without_crc + 1))
                                      (view ! (without_crc + 2)) (view ! (without_crc + 3));
                     actual_crc = crc32c (take without_crc view)
                 in if actual_crc \<noteq> expected_crc
                    then close_error EC_crc_mismatch ''CRC32C mismatch''
                    else case (if ext_len > 0
                               then parse_extensions (take ext_len (drop (16 + varint_bytes) view))
                               else Inr []) of
                      Inl e \<Rightarrow> Step_error e
                    | Inr extensions \<Rightarrow>
                        Step_frame
                          \<lparr>f_type = type, f_flags = view ! 5,
                           f_channel = \<lparr>cid_number = word24_be (view ! 8) (view ! 9) (view ! 10),
                                        cid_generation = view ! 11\<rparr>,
                           f_frame_seq = word32_be (view ! 12) (view ! 13) (view ! 14) (view ! 15),
                           f_extensions = extensions,
                           f_payload = take payload_size (drop header_total view)\<rparr>
                          frame_total))"

text \<open>The checks of the fixed prefix, in the order of the code: the frame type and the length of
  the extension block.\<close>

definition decode_prefix :: "FrameLimits \<Rightarrow> bytes \<Rightarrow> (FrameType \<times> nat) result" where
  "decode_prefix limits view =
     (if word32_be (view ! 0) (view ! 1) (view ! 2) (view ! 3) \<noteq> kLtxMagic
      then Inl (make_error ES_connection EC_bad_magic CA_close_connection ''LTX1 magic mismatch'')
      else case (if known_frame_type (view ! 4) then frame_type_of (view ! 4) else None) of
        None \<Rightarrow> Inl (make_error ES_connection EC_unsupported_frame_type CA_close_connection
                       ''unknown frame type'')
      | Some type \<Rightarrow>
          if view ! 5 \<noteq> 0
          then Inl (make_error ES_connection EC_reserved_flags CA_close_connection
                      ''reserved flags are set'')
          else
            let ext_len = unat (word16_be (view ! 6) (view ! 7))
            in if ext_len > fl_max_header limits
               then Inl (make_error ES_connection EC_header_too_large CA_close_connection
                           ''extension header exceeds limit'')
               else Inr (type, ext_len))"

definition decode_one :: "FrameLimits \<Rightarrow> bool \<Rightarrow> bytes \<Rightarrow> Frame decode_step" where
  "decode_one limits eof view =
     (if length view < kFixedPrefixBytes
      then (if eof \<and> length view > 0
            then close_error EC_truncated_frame ''EOF before fixed prefix''
            else Step_need_more)
      else case decode_prefix limits view of
        Inl e \<Rightarrow> Step_error e
      | Inr (type, ext_len) \<Rightarrow>
          (case decode_uleb128 view 16 of
             Inl e \<Rightarrow>
               if err_code e = EC_need_more_data
               then (if eof
                     then Step_error (e\<lparr>err_code := EC_truncated_frame,
                                         err_action := CA_close_connection\<rparr>)
                     else Step_need_more)
               else Step_error e
           | Inr (payload_len, varint_bytes) \<Rightarrow>
               decode_body limits view eof type ext_len varint_bytes (unat payload_len)))"

section \<open>The step as an incremental decoder\<close>

lemma decode_body_frameD:
  assumes "decode_body limits view eof type ext_len varint_bytes payload_size = Step_frame f n"
  shows "n = 16 + varint_bytes + ext_len + payload_size + 4 \<and> n \<le> length view \<and>
    n \<le> fl_max_frame limits \<and>
    word32_be (view ! (n - 4)) (view ! (n - 3)) (view ! (n - 2)) (view ! (n - 1))
      = crc32c (take (n - 4) view) \<and>
    (\<exists>exts. (if ext_len > 0 then parse_extensions (take ext_len (drop (16 + varint_bytes) view))
             else Inr []) = Inr exts \<and>
      f = \<lparr>f_type = type, f_flags = view ! 5,
           f_channel = \<lparr>cid_number = word24_be (view ! 8) (view ! 9) (view ! 10),
                        cid_generation = view ! 11\<rparr>,
           f_frame_seq = word32_be (view ! 12) (view ! 13) (view ! 14) (view ! 15),
           f_extensions = exts,
           f_payload = take payload_size (drop (16 + varint_bytes + ext_len) view)\<rparr>)"
  using assms
  by (auto simp: decode_body_def close_error_def Let_def numeral_eq_Suc
      dest!: checked_add_SomeD split: option.splits sum.splits if_splits)

lemma decode_prefix_InrD:
  assumes "decode_prefix limits view = Inr (type, ext_len)"
  shows "word32_be (view ! 0) (view ! 1) (view ! 2) (view ! 3) = kLtxMagic \<and>
    frame_type_of (view ! 4) = Some type \<and> view ! 5 = 0 \<and>
    ext_len = unat (word16_be (view ! 6) (view ! 7)) \<and> ext_len \<le> fl_max_header limits"
  using assms by (auto simp: decode_prefix_def Let_def split: option.splits if_splits)

lemma decode_one_frameD:
  assumes "decode_one limits eof view = Step_frame f n"
  obtains type ext_len payload_len varint_bytes where
    "kFixedPrefixBytes \<le> length view" "decode_prefix limits view = Inr (type, ext_len)"
    "decode_uleb128 view 16 = Inr (payload_len, varint_bytes)"
    "decode_body limits view eof type ext_len varint_bytes (unat payload_len) = Step_frame f n"
  using assms by (auto simp: decode_one_def close_error_def split: sum.splits if_splits)

lemma decode_one_progress:
  "decode_one limits eof view = Step_frame f n \<Longrightarrow> 20 \<le> n \<and> n \<le> length view"
  by (erule decode_one_frameD) (auto dest!: decode_body_frameD)

lemma decode_one_stable:
  assumes "decode_one limits False view \<noteq> Step_need_more"
  shows "decode_one limits eof (view @ rest) = decode_one limits False view"
proof -
  have len: "16 \<le> length view"
    using assms by (auto simp: decode_one_def kFixedPrefixBytes_def split: if_splits)
  have same: "(view @ rest) ! i = view ! i" if "i < length view" for i
    using that by (simp add: nth_append)
  have fields: "(view @ rest) ! 0 = view ! 0" "(view @ rest) ! 1 = view ! 1"
    "(view @ rest) ! 2 = view ! 2" "(view @ rest) ! 3 = view ! 3" "(view @ rest) ! 4 = view ! 4"
    "(view @ rest) ! 5 = view ! 5" "(view @ rest) ! 6 = view ! 6" "(view @ rest) ! 7 = view ! 7"
    "(view @ rest) ! 8 = view ! 8" "(view @ rest) ! 9 = view ! 9" "(view @ rest) ! 10 = view ! 10"
    "(view @ rest) ! 11 = view ! 11" "(view @ rest) ! 12 = view ! 12"
    "(view @ rest) ! 13 = view ! 13" "(view @ rest) ! 14 = view ! 14"
    "(view @ rest) ! 15 = view ! 15"
    using len by (auto intro!: same)
  have body: "decode_body limits (view @ rest) eof type ext_len vb ps
      = decode_body limits view False type ext_len vb ps"
    if ready: "decode_body limits view False type ext_len vb ps \<noteq> Step_need_more"
    for type ext_len vb ps
  proof -
    show ?thesis
    proof (cases "checked_add (16 + vb) ext_len")
      case None
      then show ?thesis by (simp add: decode_body_def)
    next
      case (Some header_total)
      note h = Some
      show ?thesis
      proof (cases "case checked_add header_total ps of None \<Rightarrow> None
          | Some without_crc \<Rightarrow>
              map_option (\<lambda>frame_total. (without_crc, frame_total)) (checked_add without_crc 4)")
        case None
        then show ?thesis using h by (simp add: decode_body_def)
      next
        case (Some sizes)
        obtain wc ft where sizes: "sizes = (wc, ft)" by fastforce
        have wc: "header_total = 16 + vb + ext_len" "wc = header_total + ps" "ft = wc + 4"
          using h Some sizes by (auto dest!: checked_add_SomeD split: option.splits)
        consider "ft > fl_max_frame limits" | "\<not> ft > fl_max_frame limits" "ft \<le> length view"
          using ready h Some sizes by (force simp: decode_body_def)
        then show ?thesis
        proof cases
          case 2
          then show ?thesis
            using h Some sizes wc
            by (simp add: decode_body_def Let_def fields nth_append split: sum.split)
        qed (use h Some sizes in \<open>simp add: decode_body_def\<close>)
      qed
    qed
  qed
  have dec: "decode_uleb128 (view @ rest) 16 = decode_uleb128 view 16"
    if "\<And>e. decode_uleb128 view 16 = Inl e \<Longrightarrow> err_code e \<noteq> EC_need_more_data"
    using that by (rule decode_uleb128_extend)
  have prefix: "decode_prefix limits (view @ rest) = decode_prefix limits view"
    by (simp only: decode_prefix_def fields)
  have long: "\<not> length view < kFixedPrefixBytes" "\<not> length (view @ rest) < kFixedPrefixBytes"
    using len by (simp_all add: kFixedPrefixBytes_def)
  show ?thesis
  proof (cases "decode_prefix limits view")
    case (Inl e)
    then show ?thesis using long prefix by (simp add: decode_one_def)
  next
    case (Inr head)
    note head = Inr
    obtain type ext_len where te: "head = (type, ext_len)" by fastforce
    show ?thesis
    proof (cases "decode_uleb128 view 16")
      case (Inl e)
      then show ?thesis
        using assms head te long prefix dec by (auto simp: decode_one_def split: if_splits)
    next
      case (Inr r)
      then have "decode_uleb128 (view @ rest) 16 = Inr r" using dec by simp
      then show ?thesis
        using assms Inr head te long prefix body by (auto simp: decode_one_def split: prod.splits)
    qed
  qed
qed

section \<open>The stream loop\<close>

text \<open>The \<open>for (;;)\<close> loop of \<open>feed\<close>: the events so far, and the buffer left behind.\<close>

function feed_loop ::
  "FrameLimits \<Rightarrow> bool \<Rightarrow> bytes \<Rightarrow> DecodeEvent list \<Rightarrow> bytes \<times> DecodeEvent list" where
  "feed_loop limits eof view events =
     (case decode_one limits eof view of
        Step_need_more \<Rightarrow> (view, if events = [] then [DE_need_more] else events)
      | Step_error e \<Rightarrow> ([], events @ [DE_error e])
      | Step_frame f n \<Rightarrow>
          if n = length view then ([], events @ [DE_frame f])
          else feed_loop limits eof (drop n view) (events @ [DE_frame f]))"
  by pat_completeness auto
termination
  by (relation "measure (\<lambda>(limits, eof, view, events). length view)")
    (auto dest!: decode_one_progress)

declare feed_loop.simps [simp del]

definition feed :: "FrameCodec \<Rightarrow> bytes \<Rightarrow> bool \<Rightarrow> FrameCodec \<times> DecodeEvent list" where
  "feed codec bs eof =
     (let (buffer', events) = feed_loop (fc_limits codec) eof (fc_buffer codec @ bs) []
      in (codec\<lparr>fc_buffer := buffer'\<rparr>, events))"

definition reset :: "FrameCodec \<Rightarrow> FrameCodec" where
  "reset codec = codec\<lparr>fc_buffer := []\<rparr>"

definition new_codec :: "FrameLimits \<Rightarrow> FrameCodec" where
  "new_codec limits = \<lparr>fc_limits = limits, fc_buffer = []\<rparr>"

lemma decode_one_empty [simp]: "decode_one limits eof [] = Step_need_more"
  by (simp add: decode_one_def kFixedPrefixBytes_def)

interpretation ltx: incremental_decoder "decode_one limits False" for limits
  by unfold_locales (use decode_one_progress decode_one_stable in force)+

section \<open>Streams and chunks\<close>

fun event_is_error :: "DecodeEvent \<Rightarrow> bool" where
  "event_is_error (DE_error _) = True"
| "event_is_error _ = False"

definition signals :: "DecodeEvent list \<Rightarrow> DecodeEvent list" where
  "signals events = filter (\<lambda>e. e \<noteq> DE_need_more) events"

text \<open>A receiver that feeds one chunk after the other and stops at the first error, as
  \<open>ConnectionEngine::receive\<close> does.\<close>

fun feed_chunks :: "FrameCodec \<Rightarrow> bytes list \<Rightarrow> FrameCodec \<times> DecodeEvent list" where
  "feed_chunks codec [] = (codec, [])"
| "feed_chunks codec (c # cs) =
     (let (codec', events) = feed codec c False
      in if list_ex event_is_error events then (codec', events)
         else let (codec'', events') = feed_chunks codec' cs in (codec'', events @ events'))"

fun end_buffer :: "stream_end \<Rightarrow> bytes" where
  "end_buffer (Pending r) = r"
| "end_buffer (Failed _) = []"

fun end_events :: "stream_end \<Rightarrow> DecodeEvent list" where
  "end_events (Pending _) = []"
| "end_events (Failed e) = [DE_error e]"

lemma feed_loop_runs:
  "ltx.runs limits view fs out \<Longrightarrow>
     feed_loop limits False view events =
       (end_buffer out,
        let all_events = events @ map DE_frame fs @ end_events out
        in if all_events = [] then [DE_need_more] else all_events)"
proof (induction arbitrary: events rule: ltx.runs.induct[of limits])
  case (runs_wait v)
  then show ?case by (simp add: feed_loop.simps[of _ _ v])
next
  case (runs_fail v e)
  then show ?case by (simp add: feed_loop.simps[of _ _ v])
next
  case (runs_item v f n fs out)
  show ?case
  proof (cases "n = length v")
    case True
    then have "fs = []" "out = Pending []" using runs_item(2) by (simp_all add: ltx.runs_empty)
    then show ?thesis using runs_item(1) True by (simp add: feed_loop.simps[of _ _ v])
  next
    case False
    then show ?thesis
      using runs_item(1) runs_item(3)[of "events @ [DE_frame f]"] by (simp add: feed_loop.simps[of _ _ v] Let_def)
  qed
qed

lemma feed_runs:
  assumes "ltx.runs limits (r @ bs) fs out"
  shows "feed \<lparr>fc_limits = limits, fc_buffer = r\<rparr> bs False =
    (\<lparr>fc_limits = limits, fc_buffer = end_buffer out\<rparr>,
     let all_events = map DE_frame fs @ end_events out
     in if all_events = [] then [DE_need_more] else all_events)"
  using feed_loop_runs[OF assms, of "[]"] by (simp add: feed_def)

lemma signals_frames [simp]: "signals (map DE_frame fs) = map DE_frame fs"
  by (induction fs) (auto simp: signals_def)

lemma signals_append [simp]: "signals (a @ b) = signals a @ signals b"
  by (simp add: signals_def)

lemma signals_Nil [simp]: "signals [] = []"
  by (simp add: signals_def)

lemma signals_wait [simp]: "signals [DE_need_more] = []"
  by (simp add: signals_def)

lemma signals_error [simp]: "signals [DE_error e] = [DE_error e]"
  by (simp add: signals_def)

lemma signals_end [simp]: "signals (end_events out) = end_events out"
  by (cases out) (auto simp: signals_def)

lemma signals_or_wait: "signals (if es = [] then [DE_need_more] else es) = signals es"
  by (simp add: signals_def)

lemma no_error_frames [simp]: "\<not> list_ex event_is_error (map DE_frame fs)"
  by (induction fs) auto

lemma feed_chunks_runs:
  "decode_one limits False r = Step_need_more \<Longrightarrow> ltx.runs limits (r @ concat cs) fs out \<Longrightarrow>
     \<exists>events. feed_chunks \<lparr>fc_limits = limits, fc_buffer = r\<rparr> cs
         = (\<lparr>fc_limits = limits, fc_buffer = end_buffer out\<rparr>, events) \<and>
       signals events = map DE_frame fs @ end_events out"
proof (induction cs arbitrary: r fs out)
  case Nil
  then have "fs = [] \<and> out = Pending r"
    using ltx.runs_functional[OF Nil.prems(2)[simplified] ltx.runs_wait] by blast
  then show ?case by (simp add: signals_def)
next
  case (Cons c cs)
  obtain fs1 out1 where first: "ltx.runs limits (r @ c) fs1 out1" using ltx.runs_total by blast
  show ?case
  proof (cases out1)
    case (Pending r1)
    then have settled: "decode_one limits False r1 = Step_need_more"
      using first ltx.runs_settled by blast
    obtain fs2 out2 where rest: "ltx.runs limits (r1 @ concat cs) fs2 out2"
      using ltx.runs_total by blast
    have "fs = fs1 @ fs2 \<and> out = out2"
      using ltx.runs_append[OF first[unfolded Pending] rest] Cons.prems(2)
      by (auto dest: ltx.runs_functional)
    then show ?thesis
      using feed_runs[OF first] Cons.IH[OF settled rest] Pending
      by (cases "fs1 = []") (auto simp: Let_def signals_def)
  next
    case (Failed e)
    have "fs = fs1 \<and> out = out1"
      using ltx.runs_extend_failed[OF first[unfolded Failed], of "concat cs"] Cons.prems(2) Failed
      by (auto dest: ltx.runs_functional)
    then show ?thesis
      using feed_runs[OF first] Failed by (simp add: Let_def)
  qed
qed

text \<open>Property C9. The decoder is insensitive to segmentation: feeding a stream in any chunks
  yields the frames, the first error and the left-over buffer of feeding it at once.\<close>

theorem feed_chunking_invariant:
  "fst (feed_chunks (new_codec limits) chunks) = fst (feed (new_codec limits) (concat chunks) False)
   \<and> signals (snd (feed_chunks (new_codec limits) chunks))
     = signals (snd (feed (new_codec limits) (concat chunks) False))"
proof -
  obtain fs out where runs: "ltx.runs limits (concat chunks) fs out" using ltx.runs_total by blast
  have "decode_one limits False [] = Step_need_more" by simp
  from feed_chunks_runs[OF this, of chunks fs out] feed_runs[of limits "[]" "concat chunks" fs out] runs
  show ?thesis by (auto simp: new_codec_def Let_def signals_or_wait)
qed

section \<open>The bytes of a frame\<close>

definition frame_head :: "Frame \<Rightarrow> u16 \<Rightarrow> bytes" where
  "frame_head f ext_len =
     append_u32 [] kLtxMagic @ [frame_type_code (f_type f), f_flags f] @ append_u16 [] ext_len @
     append_u24 [] (cid_number (f_channel f)) @ [cid_generation (f_channel f)] @
     append_u32 [] (f_frame_seq f)"

definition frame_body :: "Frame \<Rightarrow> bytes \<Rightarrow> bytes" where
  "frame_body f ext =
     frame_head f (of_nat (length ext)) @ uleb_bytes (of_nat (length (f_payload f))) @ ext @
     f_payload f"

definition frame_bytes :: "Frame \<Rightarrow> bytes \<Rightarrow> bytes" where
  "frame_bytes f ext = frame_body f ext @ append_u32 [] (crc32c (frame_body f ext))"

lemma length_frame_head [simp]: "length (frame_head f n) = 16"
  by (simp add: frame_head_def)

lemma length_frame_bytes:
  "length (frame_bytes f ext) =
     20 + length (uleb_bytes (of_nat (length (f_payload f)))) + length ext + length (f_payload f)"
  by (simp add: frame_bytes_def frame_body_def)

lemma encode_frame_iff:
  "encode_frame limits f = Inr out \<longleftrightarrow>
     f_flags f = 0 \<and> cid_number (f_channel f) \<le> kMaxChannelNo \<and>
     (\<exists>ext. write_extensions (f_extensions f) = Inr ext \<and> length ext \<le> fl_max_header limits \<and>
        length (f_payload f) < 2 ^ 32 \<and> length (frame_bytes f ext) \<le> SIZE_MAX \<and>
        length (frame_bytes f ext) \<le> fl_max_frame limits \<and> out = frame_bytes f ext)"
proof -
  have body: "append_u32 (append_u24 (append_u16 (append_u32 [] kLtxMagic @
        [frame_type_code (f_type f), f_flags f]) l) n @ g) s @ p
      = append_u32 [] kLtxMagic @ [frame_type_code (f_type f), f_flags f] @ append_u16 [] l @
        append_u24 [] n @ g @ append_u32 [] s @ p" for l n g s p
    by (simp add: append_u16_def append_u24_def append_u32_def)
  show ?thesis
    unfolding encode_frame_def Let_def body
    by (auto simp: encode_uleb128_ok frame_bytes_def frame_body_def frame_head_def not_less
        checked_add_if append_field_split(3)[of "_ @ _"] SIZE_MAX_def
        split: sum.splits option.splits if_splits)
qed

section \<open>Encoded, then decoded\<close>

lemma frame_type_of_code [simp]: "frame_type_of (frame_type_code t) = Some t"
  by (cases t) (simp_all add: frame_type_of_def)

lemma known_code [simp]: "known_frame_type (frame_type_code t)"
  by (cases t) simp_all

lemma frame_type_of_Some: "frame_type_of b = Some t \<Longrightarrow> b = frame_type_code t"
  by (auto simp: frame_type_of_def split: if_splits)

lemma take_bit_channel: "c \<le> kMaxChannelNo \<Longrightarrow> take_bit 24 c = c" for c :: u32
proof -
  assume "c \<le> kMaxChannelNo"
  then have "unat c < 2 ^ 24" by (simp add: kMaxChannelNo_def word_le_nat_alt)
  then have "unat (take_bit 24 c) = unat c" by (simp add: unsigned_take_bit_eq take_bit_nat_eq_self)
  then show ?thesis by (simp only: word_unat_eq_iff)
qed

lemma word24_bounded: "word24_be a b c \<le> kMaxChannelNo"
proof -
  have "take_bit 24 (word24_be a b c) = word24_be a b c"
    unfolding word24_be_def by (rule bit_word_eqI) (auto simp: bit_simps dest: bit_u8_less)
  then have "unat (word24_be a b c) < 2 ^ 24"
    by (metis unsigned_take_bit_eq take_bit_nat_less_exp)
  then show ?thesis by (simp add: kMaxChannelNo_def word_le_nat_alt)
qed

lemma append_u24_word24 [simp]: "append_u24 [] (word24_be a b c) = [a, b, c]"
  unfolding append_u24_def word24_be_def byte_mask
  by (auto intro!: bit_word_eqI simp: bit_simps)

lemma head_fields:
  assumes "view = frame_head f l @ rest"
  shows "word32_be (view ! 0) (view ! 1) (view ! 2) (view ! 3) = kLtxMagic"
    "view ! 4 = frame_type_code (f_type f)" "view ! 5 = f_flags f"
    "word16_be (view ! 6) (view ! 7) = l"
    "word24_be (view ! 8) (view ! 9) (view ! 10) = take_bit 24 (cid_number (f_channel f))"
    "view ! 11 = cid_generation (f_channel f)"
    "word32_be (view ! 12) (view ! 13) (view ! 14) (view ! 15) = f_frame_seq f"
  unfolding assms frame_head_def
  by (simp_all add: append_u16_def append_u24_def append_u32_def word16_be_fields word24_be_fields
      word32_be_fields)

definition normal_frame :: "Frame \<Rightarrow> Frame" where
  "normal_frame f = f\<lparr>f_extensions := sort_key extension_key (f_extensions f)\<rparr>"

lemma write_extensions_InrD:
  "write_extensions es = Inr ext \<Longrightarrow> ext = concat (map extension_bytes (sort_key extension_key es))"
  using write_extension_loop_type[of "[]"] write_extension_loop_bytes[of _ "[]"]
  by (fastforce simp: write_extensions_def)

lemma decode_frame_bytes:
  assumes ext: "ext = concat (map extension_bytes es)"
    and oks: "list_all extension_ok es" "sorted (map ext_type es)"
    and sizes: "length ext \<le> fl_max_header limits" "length ext \<le> 65535"
      "length (f_payload f) < 2 ^ 32" "length (frame_bytes f ext) \<le> SIZE_MAX"
      "length (frame_bytes f ext) \<le> fl_max_frame limits"
    and head: "f_flags f = 0" "cid_number (f_channel f) \<le> kMaxChannelNo"
  shows "decode_one limits eof (frame_bytes f ext @ rest)
    = Step_frame (f\<lparr>f_extensions := es\<rparr>) (length (frame_bytes f ext))"
proof -
  let ?l = "of_nat (length ext) :: u16" and ?p = "of_nat (length (f_payload f)) :: u32"
  let ?crc = "crc32c (frame_body f ext)"
  let ?vb = "length (uleb_bytes ?p)"
  define view where "view = frame_bytes f ext @ rest"
  have view: "view = frame_head f ?l @ uleb_bytes ?p @ ext @ f_payload f @ append_u32 [] ?crc @ rest"
    by (simp add: view_def frame_bytes_def frame_body_def)
  note fields = head_fields[OF view]
  have l: "unat ?l = length ext" using sizes(2) by (simp add: unat_of_nat)
  have p: "unat ?p = length (f_payload f)" using sizes(3) by (simp add: unat_of_nat)
  have prefix: "decode_prefix limits view = Inr (f_type f, length ext)"
    using fields head(1) l sizes(1)
    by (simp add: decode_prefix_def Let_def del: known_frame_type.simps)
  have dec: "decode_uleb128 view 16 = Inr (?p, ?vb)"
    using decode_uleb128_put[of "frame_head f ?l" ?p] view by simp
  have exts: "(if length ext > 0 then parse_extensions (take (length ext) (drop (16 + ?vb) view))
      else Inr []) = Inr es"
  proof (cases "length ext > 0")
    case True
    have "take (length ext) (drop (16 + ?vb) view) = ext" unfolding view by simp
    then show ?thesis
      using True parse_extension_loop_put[of es None "[]" "[]"] oks ext
      by (simp add: parse_extensions_def types_sorted_def)
  next
    case False
    then have "es = []" using ext by (cases es) (auto simp: extension_bytes_def)
    with False show ?thesis by simp
  qed
  let ?wc = "16 + ?vb + length ext + length (f_payload f)"
  have wc: "?wc = length (frame_body f ext)" by (simp add: frame_body_def)
  have body: "view = frame_body f ext @ append_u32 [] ?crc @ rest"
    by (simp add: view_def frame_bytes_def)
  have crc: "word32_be (view ! ?wc) (view ! (?wc + 1)) (view ! (?wc + 2)) (view ! (?wc + 3)) = ?crc"
    using read_u32_be_at[of "frame_body f ext" ?crc rest] unfolding wc body
    by (simp add: read_u32_be_def split: if_splits)
  have taken: "take ?wc view = frame_body f ext" unfolding wc body by simp
  have payload: "take (length (f_payload f)) (drop (16 + ?vb + length ext) view) = f_payload f"
    unfolding view by simp
  have adds: "checked_add (16 + ?vb) (length ext) = Some (16 + ?vb + length ext)"
    "checked_add (16 + ?vb + length ext) (length (f_payload f)) = Some ?wc"
    "checked_add ?wc 4 = Some (?wc + 4)"
    using sizes(4) by (intro checked_add_fits; simp add: length_frame_bytes)+
  have n: "length (frame_bytes f ext) = ?wc + 4" by (simp add: length_frame_bytes)
  have fit: "\<not> ?wc + 4 > fl_max_frame limits" "\<not> length view < ?wc + 4"
    using sizes(5) n unfolding view_def by simp_all
  have long: "\<not> length view < kFixedPrefixBytes"
    unfolding view by (simp add: kFixedPrefixBytes_def)
  have "decode_body limits view eof (f_type f) (length ext) ?vb (length (f_payload f))
      = Step_frame (f\<lparr>f_extensions := es\<rparr>) (?wc + 4)"
    unfolding decode_body_def adds option.case option.map prod.case if_not_P[OF fit(1)]
      if_not_P[OF fit(2)] Let_def crc taken exts payload fields
    using head by (simp add: take_bit_channel)
  then show ?thesis
    unfolding n view_def[symmetric] using long prefix dec p by (simp add: decode_one_def)
qed

lemma encoded_frame_decodes:
  assumes "encode_frame limits f = Inr out" "list_all extension_ok (f_extensions f)"
    and "fl_max_header limits \<le> 65535"
  shows "decode_one limits eof (out @ rest) = Step_frame (normal_frame f) (length out)"
proof -
  obtain ext where e: "f_flags f = 0" "cid_number (f_channel f) \<le> kMaxChannelNo"
    "write_extensions (f_extensions f) = Inr ext" "length ext \<le> fl_max_header limits"
    "length (f_payload f) < 2 ^ 32" "length (frame_bytes f ext) \<le> SIZE_MAX"
    "length (frame_bytes f ext) \<le> fl_max_frame limits" "out = frame_bytes f ext"
    using assms(1) by (auto simp: encode_frame_iff)
  show ?thesis
    unfolding e(8) normal_frame_def using e(1,2,4,5,6,7) assms(2,3)
    by (intro decode_frame_bytes write_extensions_InrD[OF e(3)]) (simp_all add: sorted_by_key_types list_all_iff)
qed

section \<open>A concrete frame\<close>

definition sample_frame :: Frame where
  "sample_frame = \<lparr>f_type = FT_data, f_flags = 0,
     f_channel = \<lparr>cid_number = 5, cid_generation = 2\<rparr>, f_frame_seq = 77,
     f_extensions = [\<lparr>ext_type = 2, ext_required = True, ext_value = [0, 0, 0, 9]\<rparr>,
                     \<lparr>ext_type = 1, ext_required = True, ext_value = [0, 0, 0, 3]\<rparr>],
     f_payload = [104, 105]\<rparr>"

definition sample_bytes :: bytes where
  "sample_bytes = frame_bytes sample_frame
     [0x80, 1, 4, 0, 0, 0, 3, 0x80, 2, 4, 0, 0, 0, 9]"

lemma sample_extensions_ok: "list_all extension_ok (f_extensions sample_frame)"
  by (simp add: sample_frame_def extension_ok_def known_required_extension_def)

lemma sample_write:
  "write_extensions (f_extensions sample_frame) = Inr [0x80, 1, 4, 0, 0, 0, 3, 0x80, 2, 4, 0, 0, 0, 9]"
  by (simp add: write_extensions_def sample_frame_def extension_key_def encode_uleb128_ok
      append_u16_def kRequiredBit_def uleb_bytes_last Let_def)

lemma sample_encode: "encode_frame default_frame_limits sample_frame = Inr sample_bytes"
proof -
  have "f_flags sample_frame = 0" "cid_number (f_channel sample_frame) \<le> kMaxChannelNo"
    "length (f_payload sample_frame) = 2"
    by (simp_all add: sample_frame_def kMaxChannelNo_def)
  then show ?thesis
    using sample_write length_uleb_bytes[of 2]
    by (simp add: encode_frame_iff sample_bytes_def length_frame_bytes default_frame_limits_def
        SIZE_MAX_def)
qed

text \<open>Property C6. Frames survive the wire: whatever list of frames with well-formed extensions
  is encoded under some limits (a header limit of at most 65535 bytes), feeding the bytes in any
  chunks to a decoder with the same limits reports exactly those frames, extensions in canonical
  order, no error, and leaves nothing in the buffer.\<close>

theorem frame_stream_roundtrip:
  assumes "list_all2 (\<lambda>f out. encode_frame limits f = Inr out) fs outs"
    and "list_all (\<lambda>f. list_all extension_ok (f_extensions f)) fs"
    and "fl_max_header limits \<le> 65535"
    and "concat chunks = concat outs"
  shows "fst (feed_chunks (new_codec limits) chunks) = new_codec limits \<and>
    signals (snd (feed_chunks (new_codec limits) chunks)) = map (DE_frame \<circ> normal_frame) fs"
proof -
  have len: "length fs = length outs" using assms(1) by (rule list_all2_lengthD)
  have "ltx.runs limits (concat outs) (map normal_frame fs) (Pending [])"
  proof (rule ltx.runs_items)
    fix i rest assume i: "i < length outs"
    then show "decode_one limits False (outs ! i @ rest)
        = Step_frame (map normal_frame fs ! i) (length (outs ! i))"
      using encoded_frame_decodes[of limits "fs ! i" "outs ! i" False rest] assms(1,2,3) len
      by (auto simp: list_all2_conv_all_nth list_all_length)
  qed (use len in simp)
  with feed_chunks_runs[of limits "[]" chunks "map normal_frame fs" "Pending []"] assms(4)
  show ?thesis by (auto simp: new_codec_def)
qed

theorem frame_stream_roundtrip_witness:
  "fst (feed_chunks (new_codec default_frame_limits) [take 7 sample_bytes, drop 7 sample_bytes])
     = new_codec default_frame_limits \<and>
   signals (snd (feed_chunks (new_codec default_frame_limits)
     [take 7 sample_bytes, drop 7 sample_bytes])) = map (DE_frame \<circ> normal_frame) [sample_frame]"
  by (rule frame_stream_roundtrip[where outs = "[sample_bytes]"])
    (use sample_encode sample_extensions_ok in \<open>simp_all add: default_frame_limits_def\<close>)

section \<open>What decodes was encoded\<close>

lemma take_prefix_bytes:
  "16 \<le> length view \<Longrightarrow> take 16 view = [view ! 0, view ! 1, view ! 2, view ! 3, view ! 4, view ! 5,
     view ! 6, view ! 7, view ! 8, view ! 9, view ! 10, view ! 11, view ! 12, view ! 13, view ! 14,
     view ! 15]"
  by (rule nth_equalityI) (auto simp: less_Suc_eq numeral_eq_Suc)

lemma take_split: "take (m + n) xs = take m xs @ take n (drop m xs)"
  by (rule take_add)

lemma decode_one_bytes:
  assumes "decode_one limits eof view = Step_frame f n"
  shows "f_flags f = 0 \<and> cid_number (f_channel f) \<le> kMaxChannelNo \<and>
    list_all extension_ok (f_extensions f) \<and> sorted (map ext_type (f_extensions f)) \<and>
    length (concat (map extension_bytes (f_extensions f))) \<le> fl_max_header limits \<and>
    length (f_payload f) < 2 ^ 32 \<and> n \<le> fl_max_frame limits \<and> n \<le> length view \<and>
    take n view = frame_bytes f (concat (map extension_bytes (f_extensions f)))"
proof -
  from assms obtain type ext_len p vb where long: "kFixedPrefixBytes \<le> length view"
    and pre: "decode_prefix limits view = Inr (type, ext_len)"
    and dec: "decode_uleb128 view 16 = Inr (p, vb)"
    and body: "decode_body limits view eof type ext_len vb (unat p) = Step_frame f n"
    by (rule decode_one_frameD)
  note P = decode_prefix_InrD[OF pre] and D = decode_uleb128_InrD[OF dec]
    and B = decode_body_frameD[OF body]
  obtain exts where exts: "(if ext_len > 0 then parse_extensions (take ext_len (drop (16 + vb) view))
      else Inr []) = Inr exts"
    and f: "f = \<lparr>f_type = type, f_flags = view ! 5,
           f_channel = \<lparr>cid_number = word24_be (view ! 8) (view ! 9) (view ! 10),
                        cid_generation = view ! 11\<rparr>,
           f_frame_seq = word32_be (view ! 12) (view ! 13) (view ! 14) (view ! 15),
           f_extensions = exts,
           f_payload = take (unat p) (drop (16 + vb + ext_len) view)\<rparr>"
    using B by auto
  define ext where "ext = take ext_len (drop (16 + vb) view)"
  have E: "list_all extension_ok exts \<and> sorted (map ext_type exts) \<and>
      ext = concat (map extension_bytes exts)"
    using exts parse_extensions_sound[of ext exts] by (auto simp: ext_def split: if_splits)
  have lens: "length ext = ext_len" "length (f_payload f) = unat p"
    using B by (auto simp: ext_def f min_def)
  have magic: "append_u32 [] kLtxMagic = [view ! 0, view ! 1, view ! 2, view ! 3]"
    using P append_u32_word32[of "[]" "view ! 0" "view ! 1" "view ! 2" "view ! 3"] by simp
  have "(of_nat ext_len :: u16) = word16_be (view ! 6) (view ! 7)" using P by simp
  then have head: "take 16 view = frame_head f (of_nat (length ext))"
    using long P frame_type_of_Some[of "view ! 4" type]
    by (simp add: take_prefix_bytes kFixedPrefixBytes_def frame_head_def lens magic)
      (simp add: f)
  have n4: "n - 4 = 16 + vb + ext_len + unat p" "n = (n - 4) + 4" using B by simp_all
  have "take (n - 4) view = take 16 view @ take vb (drop 16 view) @ ext @ f_payload f"
    unfolding n4(1) ext_def f
    by (simp only: take_split[of "16 + vb + ext_len"] take_split[of "16 + vb"] take_split[of 16]
        append_assoc Frame.simps)
  also have "take vb (drop 16 view) = uleb_bytes p" using D by simp
  finally have wc: "take (n - 4) view = frame_body f ext"
    unfolding frame_body_def head using lens(2) by simp
  have "take 4 (drop (n - 4) view) = append_u32 [] (crc32c (take (n - 4) view))"
  proof -
    have crc: "word32_be (view ! (n - 4)) (view ! (n - 3)) (view ! (n - 2)) (view ! (n - 1))
        = crc32c (take (n - 4) view)"
      using B by blast
    have idx: "n - 4 + 4 \<le> length view" "n - 3 = n - 4 + 1" "n - 2 = n - 4 + 2" "n - 1 = n - 4 + 3"
      using B by linarith+
    have "take 4 (drop (n - 4) view)
        = append_u32 [] (word32_be (view ! (n - 4)) (view ! (n - 3)) (view ! (n - 2)) (view ! (n - 1)))"
      unfolding idx(2-4) append_u32_word32 append_Nil by (rule take_four[OF idx(1)])
    then show ?thesis unfolding crc .
  qed
  then have "take n view = frame_bytes f ext"
    using n4(2) take_split[of "n - 4" 4 view] wc by (simp add: frame_bytes_def)
  then show ?thesis
    using P B E lens word24_bounded unat_u32_less[of p] by (auto simp: f)
qed

text \<open>What the decoder takes for a frame: the encoder's layout of its fields, within the limits, with
  well-formed extensions in an order that is non-decreasing in their type.\<close>

definition wire_form :: "FrameLimits \<Rightarrow> Frame \<Rightarrow> bytes \<Rightarrow> bool" where
  "wire_form limits f bs \<longleftrightarrow>
     f_flags f = 0 \<and> cid_number (f_channel f) \<le> kMaxChannelNo \<and>
     list_all extension_ok (f_extensions f) \<and> sorted (map ext_type (f_extensions f)) \<and>
     length (concat (map extension_bytes (f_extensions f))) \<le> fl_max_header limits \<and>
     length (f_payload f) < 2 ^ 32 \<and> length bs \<le> fl_max_frame limits \<and>
     bs = frame_bytes f (concat (map extension_bytes (f_extensions f)))"

lemma wire_form_decodes:
  assumes "wire_form limits f bs" "length bs \<le> SIZE_MAX" "fl_max_header limits \<le> 65535"
  shows "decode_one limits eof (bs @ rest) = Step_frame f (length bs)"
proof -
  have bs: "bs = frame_bytes f (concat (map extension_bytes (f_extensions f)))"
    using assms(1) by (simp add: wire_form_def)
  have "decode_one limits eof (bs @ rest) = Step_frame (f\<lparr>f_extensions := f_extensions f\<rparr>) (length bs)"
    unfolding bs using assms by (intro decode_frame_bytes[OF refl]) (auto simp: wire_form_def)
  then show ?thesis by simp
qed

lemma sum_sort_key:
  fixes g :: "'a \<Rightarrow> nat"
  shows "sum_list (map g (sort_key k xs)) = sum_list (map g xs)"
proof -
  have "sum_list (map g (insort_key k x ys)) = g x + sum_list (map g ys)" for x ys
    by (induction ys) auto
  then show ?thesis by (induction xs) simp_all
qed

lemma concat_extensions_inj:
  assumes "concat (map extension_bytes es) = concat (map extension_bytes es')"
    and "list_all extension_ok es" "sorted (map ext_type es)" "list_all extension_ok es'" "sorted (map ext_type es')"
  shows "es = es'"
proof -
  have "parse_extensions (concat (map extension_bytes xs)) = Inr xs"
    if "list_all extension_ok xs" "sorted (map ext_type xs)" for xs
    using parse_extension_loop_put[of xs None "[]" "[]"] that by (simp add: parse_extensions_def types_sorted_def)
  then show ?thesis using assms by (metis sum.inject(2))
qed

text \<open>The encoder puts the extensions of such a frame in its own order, required before optional
  within a type, and so writes other bytes of the same length unless they stood in it.\<close>

lemma wire_form_encoding:
  assumes "wire_form limits f bs" "length bs \<le> SIZE_MAX"
  shows "encode_frame limits f = Inr (frame_bytes f (concat (map extension_bytes (sort_key extension_key (f_extensions f)))))"
    and "encode_frame limits f = Inr bs \<longleftrightarrow> sorted (map extension_key (f_extensions f))"
proof -
  let ?es = "f_extensions f"
  let ?sorted = "sort_key extension_key ?es"
  note w = assms(1)[unfolded wire_form_def]
  have ok: "list_all extension_ok ?sorted" "sorted (map ext_type ?sorted)"
    using w by (simp_all add: list_all_iff sorted_by_key_types)
  then have wrote: "write_extensions ?es = Inr (concat (map extension_bytes ?sorted))"
    using write_extension_loop_ok[of ?sorted "[]"] by (simp add: write_extensions_def)
  have len: "length (concat (map extension_bytes ?sorted)) = length (concat (map extension_bytes ?es))"
    by (simp add: length_concat comp_def sum_sort_key)
  show enc: "encode_frame limits f = Inr (frame_bytes f (concat (map extension_bytes ?sorted)))"
  proof -
    have "length (frame_bytes f (concat (map extension_bytes ?sorted))) = length bs"
      using w by (auto simp: length_frame_bytes len)
    then show ?thesis using w assms(2) wrote len by (auto simp: encode_frame_iff)
  qed
  show "encode_frame limits f = Inr bs \<longleftrightarrow> sorted (map extension_key ?es)"
  proof
    assume "encode_frame limits f = Inr bs"
    then have "frame_bytes f (concat (map extension_bytes ?sorted)) = frame_bytes f (concat (map extension_bytes ?es))"
      using enc w by simp
    then have "concat (map extension_bytes ?sorted) = concat (map extension_bytes ?es)"
      using len by (simp add: frame_bytes_def frame_body_def)
    from concat_extensions_inj[OF this ok] w show "sorted (map extension_key ?es)"
      by (metis sorted_sort_key)
  next
    assume "sorted (map extension_key ?es)"
    then show "encode_frame limits f = Inr bs" using enc w by (simp add: sort_key_id_if_sorted)
  qed
qed

lemma accepted_wire_form:
  assumes "decode_one limits eof view = Step_frame f n"
  shows "n \<le> length view" "wire_form limits f (take n view)"
  proof -
  note D = decode_one_bytes[OF assms]
  have "n \<le> length view" using D by blast
  then have "length (take n view) = n" by simp
  then show "n \<le> length view" "wire_form limits f (take n view)" using D by (simp_all only: wire_form_def simp_thms)
qed

text \<open>Property C7. What the decoder accepts, exactly. A frame is accepted from the first \<open>n\<close> bytes
  of a buffer if and only if these bytes are its wire form: no flags, a 24-bit channel, the
  encoder's layout and CRC, minimal varints, header and frame within the limits, no unknown
  required extension, and the extensions in non-decreasing order of type; nothing damaged,
  over-sized or unsorted gets through, and whatever follows on the stream does not matter. The
  order is weaker than the encoder's: the bytes accepted are those the encoder writes for the
  decoded frame exactly when, within each type, required extensions precede optional ones.\<close>

theorem accepted_frame_exact:
  assumes "fl_max_header limits \<le> 65535" "length view \<le> SIZE_MAX"
  shows "(decode_one limits eof view = Step_frame f n \<longleftrightarrow> n \<le> length view \<and> wire_form limits f (take n view)) \<and>
    (decode_one limits eof view = Step_frame f n \<longrightarrow>
       (encode_frame limits f = Inr (take n view) \<longleftrightarrow> sorted (map extension_key (f_extensions f))))"
proof -
  have conv: "decode_one limits eof view = Step_frame f n" if "n \<le> length view" "wire_form limits f (take n view)"
    using wire_form_decodes[OF that(2) _ assms(1), of eof "drop n view"] that(1) assms(2) by simp
  have "encode_frame limits f = Inr (take n view) \<longleftrightarrow> sorted (map extension_key (f_extensions f))"
    if "wire_form limits f (take n view)"
    using wire_form_encoding(2)[OF that] assms(2) by simp
  then show ?thesis using conv accepted_wire_form[of limits eof view f n] by blast
qed

text \<open>A frame with an optional extension before a required one of the same type is accepted.\<close>

definition unsorted_frame :: Frame where
  "unsorted_frame = \<lparr>f_type = FT_data, f_flags = 0, f_channel = \<lparr>cid_number = 5, cid_generation = 2\<rparr>,
     f_frame_seq = 77,
     f_extensions = [\<lparr>ext_type = 1, ext_required = False, ext_value = [0, 0, 0, 9]\<rparr>,
                     \<lparr>ext_type = 1, ext_required = True, ext_value = [0, 0, 0, 3]\<rparr>],
     f_payload = [104, 105]\<rparr>"

theorem accepted_frame_exact_witness:
  "\<exists>bs. decode_one default_frame_limits False bs = Step_frame unsorted_frame (length bs) \<and>
     encode_frame default_frame_limits unsorted_frame \<noteq> Inr bs"
proof -
  let ?bs = "frame_bytes unsorted_frame (concat (map extension_bytes (f_extensions unsorted_frame)))"
  have len: "length (concat (map extension_bytes (f_extensions unsorted_frame))) = 14"
    by (simp add: unsorted_frame_def extension_bytes_def append_u16_def uleb_bytes_last)
  have bytes: "length ?bs \<le> 50"
    using length_uleb_bytes[of "of_nat (length (f_payload unsorted_frame))"]
    unfolding length_frame_bytes len by (simp add: unsorted_frame_def)
  then have "wire_form default_frame_limits unsorted_frame ?bs"
    using len by (simp add: wire_form_def unsorted_frame_def extension_ok_def known_required_extension_def
        kMaxChannelNo_def default_frame_limits_def)
  moreover have "\<not> sorted (map extension_key (f_extensions unsorted_frame))"
    by (simp add: unsorted_frame_def extension_key_def)
  moreover have "fl_max_header default_frame_limits \<le> 65535" "length ?bs \<le> SIZE_MAX"
    using bytes by (simp_all add: default_frame_limits_def SIZE_MAX_def)
  ultimately show ?thesis
    using accepted_frame_exact[of default_frame_limits ?bs False unsorted_frame "length ?bs"]
    by (intro exI[of _ ?bs]) (metis order_refl take_all)
qed

lemma frame_bytes_split:
  assumes "frame_bytes f ext = pre @ x # post" "frame_bytes g ext' = pre @ y # post"
  shows "x = y"
proof (rule ccontr)
  assume ne: "x \<noteq> y"
  let ?b = "frame_body f ext" and ?c = "frame_body g ext'"
  have len: "length ?b = length ?c"
    using arg_cong[OF assms(1), of length] arg_cong[OF assms(2), of length]
    by (simp add: frame_bytes_def)
  have f: "?b = take (length ?b) (pre @ x # post)"
    "append_u32 [] (crc32c ?b) = drop (length ?b) (pre @ x # post)"
    unfolding assms(1)[symmetric] by (simp_all add: frame_bytes_def)
  have g: "?c = take (length ?b) (pre @ y # post)"
    "append_u32 [] (crc32c ?c) = drop (length ?b) (pre @ y # post)"
    unfolding assms(2)[symmetric] len by (simp_all add: frame_bytes_def)
  show False
  proof (cases "length pre < length ?b")
    case True
    then obtain k where k: "length ?b = length pre + Suc k" by (metis less_iff_Suc_add add_Suc_right)
    then have "?b = pre @ x # take k post" "?c = pre @ y # take k post"
      using f(1) g(1) by simp_all
    then have "crc32c ?b \<noteq> crc32c ?c" using crc32c_single_byte[OF ne, of pre "take k post"] by simp
    moreover have "append_u32 [] (crc32c ?b) = append_u32 [] (crc32c ?c)"
      using f(2) g(2) k by simp
    ultimately show False by (metis u32_field.put_inj)
  next
    case False
    then have "?b = ?c" using f(1) g(1) by simp
    then have "frame_bytes f ext = frame_bytes g ext'" by (simp add: frame_bytes_def)
    with ne assms show False by simp
  qed
qed

text \<open>Property C8. A frame that was damaged in one byte on the way is never accepted at its
  length: no byte of header, extensions, payload or checksum can be replaced unnoticed.\<close>

theorem corrupted_byte_rejected:
  assumes "encode_frame limits f = Inr (pre @ x # post)" and "x \<noteq> y"
  shows "decode_one limits' eof (pre @ y # post @ rest) \<noteq> Step_frame g (length (pre @ x # post))"
proof
  assume dec: "decode_one limits' eof (pre @ y # post @ rest) = Step_frame g (length (pre @ x # post))"
  obtain ext where "frame_bytes f ext = pre @ x # post"
    using assms(1) by (auto simp: encode_frame_iff)
  moreover have "frame_bytes g (concat (map extension_bytes (f_extensions g))) = pre @ y # post"
    using decode_one_bytes[OF dec] by simp
  ultimately show False using frame_bytes_split assms(2) by blast
qed

theorem corrupted_byte_rejected_witness:
  "decode_one default_frame_limits True ([0x4C, 0x54, 0x58] @ 0x32 # drop 4 sample_bytes @ [])
     \<noteq> Step_frame sample_frame (length ([0x4C, 0x54, 0x58] @ 0x31 # drop 4 sample_bytes))"
proof (rule corrupted_byte_rejected)
  have "sample_bytes = [0x4C, 0x54, 0x58] @ 0x31 # drop 4 sample_bytes"
    by (simp add: sample_bytes_def frame_bytes_def frame_body_def frame_head_def append_u32_def
        kLtxMagic_def)
  with sample_encode show "encode_frame default_frame_limits sample_frame
      = Inr ([0x4C, 0x54, 0x58] @ 0x31 # drop 4 sample_bytes)" by simp
qed simp

end
