(* ===== verification/Flow_Account.thy ===== *)
theory Flow_Account
  imports Prelude
begin

text \<open>
  The credit accounts of \<^verbatim>\<open>src/channel/channel_state.cpp\<close>: \<open>FlowAccount\<close> with its
  \<open>reserve\<close>, \<open>release\<close> and \<open>grant\<close>. The interface \<open>credit_account\<close> is what the
  engine relies on when it brackets a send or a receive by reserve and release.
\<close>

record FlowAccount =
  fa_window :: nat
  fa_available :: nat
  fa_reserved :: nat

definition flow_account :: "nat \<Rightarrow> FlowAccount" where
  "flow_account window = \<lparr>fa_window = window, fa_available = window, fa_reserved = 0\<rparr>"

definition flow_reserve :: "FlowAccount \<Rightarrow> nat \<Rightarrow> FlowAccount \<times> unit result" where
  "flow_reserve a amount =
     (if amount = 0 then (a, Inr ())
      else if amount > fa_available a
      then (a, Inl (make_error ES_channel EC_would_block CA_none ''insufficient credit''))
      else (a\<lparr>fa_available := size_sub (fa_available a) amount,
              fa_reserved := size_add (fa_reserved a) amount\<rparr>, Inr ()))"

definition flow_release :: "FlowAccount \<Rightarrow> nat \<Rightarrow> FlowAccount \<times> unit result" where
  "flow_release a amount =
     (if amount > fa_reserved a
      then (a, Inl (make_error ES_channel EC_flow_underflow CA_reset_channel
                      ''release exceeds reserved credit''))
      else
        let a = a\<lparr>fa_reserved := size_sub (fa_reserved a) amount\<rparr> in
        case checked_add (fa_available a) amount of
          None \<Rightarrow> (a, Inl (make_error ES_channel EC_flow_overflow CA_close_connection
                             ''credit release exceeds window''))
        | Some next_available \<Rightarrow>
            if next_available > fa_window a
            then (a, Inl (make_error ES_channel EC_flow_overflow CA_close_connection
                            ''credit release exceeds window''))
            else (a\<lparr>fa_available := next_available\<rparr>, Inr ()))"

definition flow_grant :: "FlowAccount \<Rightarrow> nat \<Rightarrow> FlowAccount \<times> unit result" where
  "flow_grant a amount =
     (if amount = 0
      then (a, Inl (make_error ES_channel EC_flow_underflow CA_reset_channel
                      ''zero CREDIT is illegal''))
      else case checked_add (fa_available a) amount of
        None \<Rightarrow> (a, Inl (make_error ES_channel EC_flow_overflow CA_close_connection
                           ''CREDIT exceeds negotiated window''))
      | Some next_available \<Rightarrow>
          if size_add next_available (fa_reserved a) > fa_window a
          then (a, Inl (make_error ES_channel EC_flow_overflow CA_close_connection
                          ''CREDIT exceeds negotiated window''))
          else (a\<lparr>fa_available := next_available\<rparr>, Inr ()))"

definition flow_invariant_holds :: "FlowAccount \<Rightarrow> bool" where
  "flow_invariant_holds a \<longleftrightarrow> size_add (fa_available a) (fa_reserved a) \<le> fa_window a"

section \<open>The reserve and release bracket\<close>

locale credit_account =
  fixes acquire :: "'s \<Rightarrow> nat \<Rightarrow> 's \<times> unit result"
    and restore :: "'s \<Rightarrow> nat \<Rightarrow> 's \<times> unit result"
    and ok :: "'s \<Rightarrow> bool"
  assumes acquire_fails: "acquire s n = (s', Inl e) \<Longrightarrow> s' = s"
    and acquire_ok: "ok s \<Longrightarrow> acquire s n = (s', Inr ()) \<Longrightarrow> ok s'"
    and restore_ok: "ok s \<Longrightarrow> ok (fst (restore s n))"
    and restore_acquired: "ok s \<Longrightarrow> acquire s n = (s', Inr ()) \<Longrightarrow> restore s' n = (s, Inr ())"
begin

definition bracket :: "'s \<Rightarrow> nat \<Rightarrow> 's \<times> unit result" where
  "bracket s n = (case acquire s n of (s', Inl e) \<Rightarrow> (s', Inl e) | (s', Inr _) \<Rightarrow> restore s' n)"

lemma bracket_neutral_result: "ok s \<Longrightarrow> bracket s n = (s, snd (acquire s n))"
proof -
  assume ok: "ok s"
  obtain s' r where a: "acquire s n = (s', r)" by fastforce
  show ?thesis
  proof (cases r)
    case (Inl e)
    then show ?thesis using a acquire_fails[of s n s' e] by (simp add: bracket_def)
  next
    case (Inr u)
    then show ?thesis using a restore_acquired[OF ok, of n s'] by (simp add: bracket_def)
  qed
qed

text \<open>Amounts taken one after the other and given back in reverse order leave no trace.\<close>

fun acquire_all :: "'s \<Rightarrow> nat list \<Rightarrow> 's option" where
  "acquire_all s [] = Some s"
| "acquire_all s (n # ns) =
     (case acquire s n of (s', Inl e) \<Rightarrow> None | (s', Inr _) \<Rightarrow> acquire_all s' ns)"

fun restore_all :: "'s \<Rightarrow> nat list \<Rightarrow> 's option" where
  "restore_all s [] = Some s"
| "restore_all s (n # ns) =
     (case restore s n of (s', Inl e) \<Rightarrow> None | (s', Inr _) \<Rightarrow> restore_all s' ns)"

lemma restore_all_append:
  "restore_all s (ns @ ms) = (case restore_all s ns of None \<Rightarrow> None | Some s' \<Rightarrow> restore_all s' ms)"
  by (induction s ns rule: restore_all.induct) (auto split: sum.splits prod.splits)

lemma nested_neutral: "ok s \<Longrightarrow> acquire_all s ns = Some s' \<Longrightarrow> restore_all s' (rev ns) = Some s"
proof (induction ns arbitrary: s)
  case Nil
  then show ?case by simp
next
  case (Cons n ns)
  then obtain s1 where a: "acquire s n = (s1, Inr ())" and r: "acquire_all s1 ns = Some s'"
    by (auto split: prod.splits sum.splits)
  have "restore_all s' (rev ns) = Some s1" using Cons.IH acquire_ok Cons.prems(1) a r by blast
  moreover have "restore s1 n = (s, Inr ())" using restore_acquired[OF Cons.prems(1) a] .
  ultimately show ?case by (simp add: restore_all_append)
qed

end

definition flow_ok :: "FlowAccount \<Rightarrow> bool" where
  "flow_ok a \<longleftrightarrow> fa_available a + fa_reserved a \<le> fa_window a \<and> fa_window a \<le> SIZE_MAX"

lemma flow_ok_new [simp]: "flow_ok (flow_account window) \<longleftrightarrow> window \<le> SIZE_MAX"
  by (simp add: flow_ok_def flow_account_def)

lemma flow_ok_invariant: "flow_ok a \<Longrightarrow> flow_invariant_holds a"
  by (simp add: flow_ok_def flow_invariant_holds_def)

interpretation flow: credit_account flow_reserve flow_release flow_ok
proof
  show "s' = s" if "flow_reserve s n = (s', Inl e)" for s n s' e
    using that by (auto simp: flow_reserve_def split: if_splits)
  show "flow_ok s'" if "flow_ok s" "flow_reserve s n = (s', Inr ())" for s n s'
    using that by (auto simp: flow_reserve_def flow_ok_def split: if_splits)
  show "flow_ok (fst (flow_release s n))" if "flow_ok s" for s n
    using that
    by (auto simp: flow_release_def flow_ok_def Let_def split: option.splits dest!: checked_add_SomeD)
  show "flow_release s' n = (s, Inr ())" if "flow_ok s" "flow_reserve s n = (s', Inr ())" for s n s'
    using that
    by (auto simp: flow_reserve_def flow_release_def flow_ok_def Let_def checked_add_fits
        split: if_splits)
qed

section \<open>Histories of an account\<close>

datatype FlowOp = Reserve nat | Release nat | Grant nat

fun flow_apply :: "FlowAccount \<Rightarrow> FlowOp \<Rightarrow> FlowAccount" where
  "flow_apply a (Reserve n) = fst (flow_reserve a n)"
| "flow_apply a (Release n) = fst (flow_release a n)"
| "flow_apply a (Grant n) = fst (flow_grant a n)"

fun grant_bounded :: "nat \<Rightarrow> FlowOp \<Rightarrow> bool" where
  "grant_bounded bound (Grant n) = (n \<le> bound)"
| "grant_bounded bound _ = True"

definition flow_full :: "FlowAccount \<Rightarrow> bool" where
  "flow_full a \<longleftrightarrow> fa_available a + fa_reserved a = fa_window a"

lemma flow_grant_full:
  assumes "flow_full a" "fa_window a + n \<le> SIZE_MAX"
  shows "flow_grant a n = (a, Inl (if n = 0
     then make_error ES_channel EC_flow_underflow CA_reset_channel ''zero CREDIT is illegal''
     else make_error ES_channel EC_flow_overflow CA_close_connection
            ''CREDIT exceeds negotiated window''))"
  using assms by (auto simp: flow_grant_def flow_full_def checked_add_fits)

lemma flow_apply_window [simp]: "fa_window (flow_apply a op) = fa_window a"
  by (cases op)
    (auto simp: flow_reserve_def flow_release_def flow_grant_def Let_def split: option.splits)

lemma flow_apply_full:
  assumes "flow_full a" "fa_window a + bound \<le> SIZE_MAX" "grant_bounded bound op"
  shows "flow_full (flow_apply a op)"
proof (cases op)
  case (Grant n)
  then show ?thesis using assms flow_grant_full[of a n] by simp
qed (use assms in \<open>auto simp: flow_full_def flow_reserve_def flow_release_def Let_def
      checked_add_fits split: option.splits\<close>)

lemma flow_history_full:
  "flow_full a \<Longrightarrow> fa_window a + bound \<le> SIZE_MAX \<Longrightarrow> list_all (grant_bounded bound) ops \<Longrightarrow>
     flow_full (foldl flow_apply a ops) \<and> fa_window (foldl flow_apply a ops) = fa_window a"
  by (induction ops arbitrary: a) (use flow_apply_full in auto)

text \<open>Remark. Credit is conserved: whatever reserves, releases and grants an account has
  seen (grants of at most \<open>bound\<close>, the window leaving room for one), available and reserved
  credit add up to exactly the window. Consequently a CREDIT of any such size is refused, as an
  underflow for zero and as an overflow otherwise, and the refused grant changes nothing.\<close>

theorem flow_credit_conserved:
  assumes "window + bound \<le> SIZE_MAX" and "list_all (grant_bounded bound) ops"
    and "a = foldl flow_apply (flow_account window) ops" and "n \<le> bound"
  shows "fa_available a + fa_reserved a = window \<and> flow_invariant_holds a \<and>
    flow_grant a n = (a, Inl (if n = 0
     then make_error ES_channel EC_flow_underflow CA_reset_channel ''zero CREDIT is illegal''
     else make_error ES_channel EC_flow_overflow CA_close_connection
            ''CREDIT exceeds negotiated window''))"
proof -
  have full: "flow_full a" "fa_window a = window"
    using flow_history_full[of "flow_account window" bound ops] assms
    by (auto simp: flow_full_def flow_account_def)
  then have "flow_ok a" using assms(1) by (simp add: flow_full_def flow_ok_def)
  then show ?thesis
    using full assms flow_grant_full[of a n] flow_ok_invariant by (simp add: flow_full_def)
qed

theorem flow_credit_conserved_witness:
  "fa_available (foldl flow_apply (flow_account 100) [Reserve 30, Grant 5, Release 10]) +
     fa_reserved (foldl flow_apply (flow_account 100) [Reserve 30, Grant 5, Release 10]) = 100 \<and>
   flow_invariant_holds (foldl flow_apply (flow_account 100) [Reserve 30, Grant 5, Release 10]) \<and>
   flow_grant (foldl flow_apply (flow_account 100) [Reserve 30, Grant 5, Release 10]) 7 =
     (foldl flow_apply (flow_account 100) [Reserve 30, Grant 5, Release 10],
      Inl (if (7::nat) = 0
       then make_error ES_channel EC_flow_underflow CA_reset_channel ''zero CREDIT is illegal''
       else make_error ES_channel EC_flow_overflow CA_close_connection
              ''CREDIT exceeds negotiated window''))"
  by (rule flow_credit_conserved[where bound = 10 and ops = "[Reserve 30, Grant 5, Release 10]"])
    (simp_all add: SIZE_MAX_def)

text \<open>Remark. Reserving and releasing the same amount leaves the account as it was, and the
  bracket succeeds exactly when the amount is available: the law behind every send and every
  received fragment.\<close>

theorem flow_bracket_neutral:
  assumes "flow_ok a"
  shows "(if n \<le> fa_available a
     then \<exists>a'. flow_reserve a n = (a', Inr ()) \<and> flow_release a' n = (a, Inr ())
     else flow_reserve a n = (a, Inl (make_error ES_channel EC_would_block CA_none
                                        ''insufficient credit'')))"
proof (cases "n \<le> fa_available a")
  case True
  then have "snd (flow_reserve a n) = Inr ()" by (simp add: flow_reserve_def)
  then obtain a' where "flow_reserve a n = (a', Inr ())" by (metis prod.collapse)
  with True flow.restore_acquired[OF assms] show ?thesis by auto
qed (simp add: flow_reserve_def)

theorem flow_bracket_neutral_witness:
  "if (30::nat) \<le> fa_available (flow_account 100)
   then \<exists>a'. flow_reserve (flow_account 100) 30 = (a', Inr ()) \<and>
          flow_release a' 30 = (flow_account 100, Inr ())
   else flow_reserve (flow_account 100) 30 =
          (flow_account 100, Inl (make_error ES_channel EC_would_block CA_none
                                    ''insufficient credit''))"
  by (rule flow_bracket_neutral) (simp add: SIZE_MAX_def)

text \<open>Remark. The bound on grants is needed: in \<open>grant\<close> the sum of the new balance and the
  reserved credit is not checked, it wraps, and a grant that raises the balance far above the
  window is accepted, after which the class's own \<open>invariant_holds\<close> still answers yes.\<close>

theorem flow_grant_wraps:
  "let a = fst (flow_reserve (flow_account 10) 5);
       (a', r) = flow_grant a (SIZE_MAX - 5)
   in r = Inr () \<and> fa_available a' = SIZE_MAX \<and> fa_window a' = 10 \<and> flow_invariant_holds a'"
  by (simp add: flow_account_def flow_reserve_def flow_grant_def checked_add_def size_add_def
      flow_invariant_holds_def SIZE_MAX_def)

end
