(* ===== verification/Reassembler.thy ===== *)
theory Reassembler
  imports Prelude "HOL-Library.Multiset"
begin

text \<open>
  \<open>Reassembler\<close> of \<^verbatim>\<open>src/channel/channel_state.cpp\<close>: fragments of a message, kept per
  sequence number until they cover the message. The ordered map is a partial function; the
  comparator of \<open>std::sort\<close> looks at offsets only, and \<open>sort_key\<close> is one order it allows
  for equal offsets (the delivered bytes do not depend on it, since stored fragments agree
  where they overlap). The lemmas show that slices of a message never conflict, that whatever
  is delivered is the message, and that delivery happens as soon as the slices cover it.
\<close>

record LogicalMessage =
  lm_channel :: ChannelId
  lm_sequence :: u32
  lm_payload :: bytes

record Range =
  r_offset :: u32
  r_bytes :: bytes

record Pending =
  p_total :: u32
  p_ranges :: "Range list"

record Reassembler =
  ra_max_message :: nat
  ra_pending :: "u32 \<rightharpoonup> Pending"
  ra_retained :: nat

lemma pending_eta [simp]: "\<lparr>p_total = p_total p, p_ranges = p_ranges p\<rparr> = p"
  by (cases p) simp

definition reassembler :: "nat \<Rightarrow> Reassembler" where
  "reassembler max_message =
     \<lparr>ra_max_message = max_message, ra_pending = Map.empty, ra_retained = 0\<rparr>"

definition channel_error :: "ErrorCode \<Rightarrow> ChannelId \<Rightarrow> string \<Rightarrow> Error" where
  "channel_error code cid detail =
     (make_error ES_channel code CA_reset_channel detail)
       \<lparr>err_channel_no := cid_number cid, err_generation := cid_generation cid\<rparr>"

lemma channel_error_sel [simp]:
  "err_code (channel_error c cid d) = c" "err_scope (channel_error c cid d) = ES_channel"
  "err_action (channel_error c cid d) = CA_reset_channel"
  by (simp_all add: channel_error_def make_error_def)

definition range_end :: "Range \<Rightarrow> u32" where
  "range_end r = of_nat (unat (r_offset r) + length (r_bytes r))"

definition reset_message :: "Reassembler \<Rightarrow> u32 \<Rightarrow> Reassembler" where
  "reset_message r sequence =
     (case ra_pending r sequence of
        None \<Rightarrow> r
      | Some pending \<Rightarrow>
          r\<lparr>ra_retained := foldl (\<lambda>n rg. size_sub n (length (r_bytes rg)))
                              (ra_retained r) (p_ranges pending),
            ra_pending := (ra_pending r)(sequence := None)\<rparr>)"

text \<open>The comparison loop over the overlap of the new fragment and one stored range.\<close>

definition overlap_agrees :: "Range \<Rightarrow> u32 \<Rightarrow> u32 \<Rightarrow> bytes \<Rightarrow> bool" where
  "overlap_agrees rg offset fragment_end bs =
     (let overlap_begin = max offset (r_offset rg);
          overlap_end = min fragment_end (range_end rg)
      in list_all (\<lambda>pos. r_bytes rg ! (pos - unat (r_offset rg)) = bs ! (pos - unat offset))
           [unat overlap_begin..<unat overlap_end])"

datatype scan_result = Scan_conflict | Scan_contained | Scan_new

fun scan_ranges :: "Range list \<Rightarrow> u32 \<Rightarrow> u32 \<Rightarrow> bytes \<Rightarrow> scan_result" where
  "scan_ranges [] offset fragment_end bs = Scan_new"
| "scan_ranges (rg # ranges) offset fragment_end bs =
     (if fragment_end \<le> r_offset rg \<or> offset \<ge> range_end rg
      then scan_ranges ranges offset fragment_end bs
      else if \<not> overlap_agrees rg offset fragment_end bs then Scan_conflict
      else if offset \<ge> r_offset rg \<and> fragment_end \<le> range_end rg then Scan_contained
      else scan_ranges ranges offset fragment_end bs)"

text \<open>The coverage loop: \<open>None\<close> at the first gap.\<close>

fun covered_scan :: "u32 \<Rightarrow> Range list \<Rightarrow> u32 option" where
  "covered_scan covered [] = Some covered"
| "covered_scan covered (rg # ranges) =
     (if r_offset rg > covered then None
      else covered_scan (max covered (range_end rg)) ranges)"

definition copy_range :: "bytes \<Rightarrow> Range \<Rightarrow> bytes" where
  "copy_range payload rg =
     take (unat (r_offset rg)) payload @ r_bytes rg @
     drop (unat (r_offset rg) + length (r_bytes rg)) payload"

text \<open>The second half of \<open>insert\<close>: the fragment is new; budget, storing, coverage, delivery.\<close>

definition reassembler_store ::
  "Reassembler \<Rightarrow> ChannelId \<Rightarrow> u32 \<Rightarrow> bool \<Rightarrow> Pending \<Rightarrow> u32 \<Rightarrow> bytes
     \<Rightarrow> Reassembler \<times> LogicalMessage option result" where
  "reassembler_store r channel sequence new_pending pending offset bs =
     (case (case checked_add (ra_retained r) (length bs) of
              None \<Rightarrow> None
            | Some n \<Rightarrow> if n > ra_max_message r then None else Some n) of
        None \<Rightarrow>
          (if new_pending \<and> p_ranges pending = []
           then r\<lparr>ra_pending := (ra_pending r)(sequence := None)\<rparr> else r,
           Inl (channel_error EC_resource_limit channel
                  ''retained incomplete fragments exceed receive budget''))
      | Some next_retained \<Rightarrow>
          let ranges = sort_key r_offset (p_ranges pending @ [\<lparr>r_offset = offset, r_bytes = bs\<rparr>]);
              r' = r\<lparr>ra_retained := next_retained,
                     ra_pending := (ra_pending r)(sequence \<mapsto> pending\<lparr>p_ranges := ranges\<rparr>)\<rparr>
          in case covered_scan 0 ranges of
               None \<Rightarrow> (r', Inr None)
             | Some covered \<Rightarrow>
                 if covered < p_total pending then (r', Inr None)
                 else
                   (r'\<lparr>ra_retained := foldl (\<lambda>n rg. size_sub n (length (r_bytes rg)))
                                         (ra_retained r') ranges,
                       ra_pending := (ra_pending r')(sequence := None)\<rparr>,
                    Inr (Some \<lparr>lm_channel = channel, lm_sequence = sequence,
                               lm_payload = foldl copy_range
                                 (replicate (unat (p_total pending)) 0) ranges\<rparr>)))"

definition reassembler_insert ::
  "Reassembler \<Rightarrow> ChannelId \<Rightarrow> u32 \<Rightarrow> u32 \<Rightarrow> u32 \<Rightarrow> bytes
     \<Rightarrow> Reassembler \<times> LogicalMessage option result" where
  "reassembler_insert r channel sequence offset msg_total bs =
     (if msg_total = 0 \<or> unat msg_total > ra_max_message r
      then (r, Inl (channel_error EC_resource_limit channel ''message total exceeds limit''))
      else case checked_add (unat offset) (length bs) of
        None \<Rightarrow> (r, Inl (channel_error EC_fragment_range channel
                           ''fragment extends past total length''))
      | Some frag_end \<Rightarrow>
          if frag_end > unat msg_total
          then (r, Inl (channel_error EC_fragment_range channel
                          ''fragment extends past total length''))
          else
            let found = (case ra_pending r sequence of
                           None \<Rightarrow> \<lparr>p_total = 0, p_ranges = []\<rparr> | Some p \<Rightarrow> p);
                new_pending = (p_total found = 0);
                pending = (if new_pending then found\<lparr>p_total := msg_total\<rparr> else found);
                r' = r\<lparr>ra_pending := (ra_pending r)(sequence \<mapsto> pending)\<rparr>
            in if \<not> new_pending \<and> p_total found \<noteq> msg_total
               then (reset_message r' sequence,
                     Inl (channel_error EC_fragment_range channel ''message total changed''))
               else case scan_ranges (p_ranges pending) offset (of_nat frag_end) bs of
                 Scan_conflict \<Rightarrow>
                   (reset_message r' sequence,
                    Inl (channel_error EC_fragment_overlap channel
                           ''conflicting overlapping fragment bytes''))
               | Scan_contained \<Rightarrow> (r', Inr None)
               | Scan_new \<Rightarrow>
                   reassembler_store r' channel sequence new_pending pending offset bs)"

section \<open>Positions covered by fragments\<close>

definition covers :: "Range list \<Rightarrow> nat set" where
  "covers ranges = {pos. \<exists>r \<in> set ranges. unat (r_offset r) \<le> pos \<and>
     pos < unat (r_offset r) + length (r_bytes r)}"

definition slice_of :: "bytes \<Rightarrow> Range \<Rightarrow> bool" where
  "slice_of msg r \<longleftrightarrow> unat (r_offset r) + length (r_bytes r) \<le> length msg \<and>
     r_bytes r = take (length (r_bytes r)) (drop (unat (r_offset r)) msg)"

lemma covers_simps [simp]:
  "covers [] = {}"
  "covers (r # rs) = {unat (r_offset r)..<unat (r_offset r) + length (r_bytes r)} \<union> covers rs"
  "covers (rs @ ts) = covers rs \<union> covers ts"
  "covers (sort_key f rs) = covers rs"
  by (auto simp: covers_def)

lemma slice_nth:
  "slice_of msg r \<Longrightarrow> i < length (r_bytes r) \<Longrightarrow> r_bytes r ! i = msg ! (unat (r_offset r) + i)"
  unfolding slice_of_def by (metis add_leD1 nth_drop nth_take)

lemma slice_range_end:
  "slice_of msg r \<Longrightarrow> length msg < 2 ^ 32 \<Longrightarrow>
     unat (range_end r) = unat (r_offset r) + length (r_bytes r)"
  unfolding slice_of_def range_end_def by (rule unat_of_nat_u32) linarith

lemma copy_range_slice:
  assumes "slice_of msg r" "length payload = length msg"
  shows "length (copy_range payload r) = length msg \<and>
    (\<forall>pos < length msg. copy_range payload r ! pos =
       (if pos \<in> covers [r] then msg ! pos else payload ! pos))"
proof -
  have fit: "unat (r_offset r) + length (r_bytes r) \<le> length msg"
    using assms(1) by (simp add: slice_of_def)
  have "copy_range payload r ! pos = (if pos \<in> covers [r] then msg ! pos else payload ! pos)"
    if "pos < length msg" for pos
    using that fit assms(2) slice_nth[OF assms(1), of "pos - unat (r_offset r)"]
    by (auto simp: copy_range_def nth_append)
  then show ?thesis using fit assms(2) by (simp add: copy_range_def)
qed

lemma copy_ranges_slices:
  "\<forall>r \<in> set rs. slice_of msg r \<Longrightarrow> length payload = length msg \<Longrightarrow>
     length (foldl copy_range payload rs) = length msg \<and>
     (\<forall>pos < length msg. foldl copy_range payload rs ! pos =
        (if pos \<in> covers rs then msg ! pos else payload ! pos))"
proof (induction rs arbitrary: payload)
  case Nil
  then show ?case by simp
next
  case (Cons r rs)
  then show ?case using copy_range_slice[of msg r payload] Cons.IH[of "copy_range payload r"] by auto
qed

lemma copy_ranges_whole:
  assumes "\<forall>r \<in> set rs. slice_of msg r" "{..<length msg} \<subseteq> covers rs"
  shows "foldl copy_range (replicate (length msg) 0) rs = msg"
  using copy_ranges_slices[OF assms(1), of "replicate (length msg) 0"] assms(2)
  by (intro nth_equalityI) auto

section \<open>Slices of one message never conflict\<close>

lemma overlap_agrees_slices:
  assumes "slice_of msg rg" "slice_of msg \<lparr>r_offset = offset, r_bytes = bs\<rparr>"
    and "length msg < 2 ^ 32"
  shows "overlap_agrees rg offset (of_nat (unat offset + length bs)) bs"
proof -
  have "r_bytes rg ! (pos - unat (r_offset rg)) = bs ! (pos - unat offset)"
    if "unat (max offset (r_offset rg)) \<le> pos"
      "pos < unat (min (of_nat (unat offset + length bs)) (range_end rg))" for pos
  proof -
    have b: "unat offset \<le> pos" "unat (r_offset rg) \<le> pos" "pos < unat offset + length bs"
      "pos < unat (r_offset rg) + length (r_bytes rg)"
      using that slice_range_end[OF assms(1,3)] slice_range_end[OF assms(2,3)]
      by (auto simp: max_def min_def word_le_nat_alt range_end_def split: if_splits)
    then show ?thesis
      using slice_nth[OF assms(1), of "pos - unat (r_offset rg)"]
        slice_nth[OF assms(2), of "pos - unat offset"]
      by simp
  qed
  then show ?thesis by (simp add: overlap_agrees_def Let_def list_all_iff)
qed

lemma scan_ranges_slices:
  assumes "\<forall>r \<in> set ranges. slice_of msg r" "slice_of msg \<lparr>r_offset = offset, r_bytes = bs\<rparr>"
    and "length msg < 2 ^ 32"
  shows "scan_ranges ranges offset (of_nat (unat offset + length bs)) bs \<noteq> Scan_conflict"
    and "scan_ranges ranges offset (of_nat (unat offset + length bs)) bs = Scan_contained \<Longrightarrow>
      covers [\<lparr>r_offset = offset, r_bytes = bs\<rparr>] \<subseteq> covers ranges"
proof -
  have e: "unat (of_nat (unat offset + length bs) :: u32) = unat offset + length bs"
    using slice_range_end[OF assms(2,3)] by (simp add: range_end_def)
  have "scan_ranges ranges offset (of_nat (unat offset + length bs)) bs \<noteq> Scan_conflict \<and>
      (scan_ranges ranges offset (of_nat (unat offset + length bs)) bs = Scan_contained \<longrightarrow>
        covers [\<lparr>r_offset = offset, r_bytes = bs\<rparr>] \<subseteq> covers ranges)"
    using assms(1)
  proof (induction ranges)
    case Nil
    then show ?case by simp
  next
    case (Cons rg ranges)
    have agree: "overlap_agrees rg offset (of_nat (unat offset + length bs)) bs"
      using overlap_agrees_slices[OF _ assms(2,3)] Cons.prems by simp
    have r: "unat (range_end rg) = unat (r_offset rg) + length (r_bytes rg)"
      using slice_range_end[OF _ assms(3)] Cons.prems by simp
    show ?case
      using Cons.IH Cons.prems agree e r by (auto simp: word_le_nat_alt)
  qed
  then show "scan_ranges ranges offset (of_nat (unat offset + length bs)) bs \<noteq> Scan_conflict"
    "scan_ranges ranges offset (of_nat (unat offset + length bs)) bs = Scan_contained \<Longrightarrow>
      covers [\<lparr>r_offset = offset, r_bytes = bs\<rparr>] \<subseteq> covers ranges"
    by blast+
qed

section \<open>The coverage loop\<close>

lemma covered_scan_Some:
  "covered_scan c rs = Some d \<Longrightarrow> \<forall>r \<in> set rs. slice_of msg r \<Longrightarrow> length msg < 2 ^ 32 \<Longrightarrow>
     c \<le> d \<and> {unat c..<unat d} \<subseteq> covers rs \<and> (\<forall>pos \<in> covers rs. pos < unat d)"
proof (induction rs arbitrary: c)
  case Nil
  then show ?case by simp
next
  case (Cons r rs)
  then have sc: "covered_scan (max c (range_end r)) rs = Some d" and le: "r_offset r \<le> c"
    by (auto split: if_splits)
  have slices: "\<forall>r \<in> set rs. slice_of msg r" using Cons.prems(2) by simp
  note IH' = Cons.IH[OF sc slices Cons.prems(3)]
  then have IH: "max c (range_end r) \<le> d" "{unat (max c (range_end r))..<unat d} \<subseteq> covers rs"
    "\<forall>pos \<in> covers rs. pos < unat d" by blast+
  have r: "unat (range_end r) = unat (r_offset r) + length (r_bytes r)"
    using slice_range_end[of msg r] Cons.prems by simp
  have "unat (range_end r) \<le> unat d" "unat c \<le> unat d"
    using IH(1) by (auto simp: max_def word_le_nat_alt split: if_splits)
  moreover have cov: "pos \<in> covers (r # rs)" if "unat c \<le> pos" "pos < unat d" for pos
  proof (cases "pos < unat (range_end r)")
    case True
    then show ?thesis using r le that by (auto simp: word_le_nat_alt)
  next
    case False
    then have "unat (max c (range_end r)) \<le> pos" using that by (auto simp: max_def)
    then show ?thesis using IH(2) that by auto
  qed
  moreover from cov have "{unat c..<unat d} \<subseteq> covers (r # rs)" by (auto simp del: covers_simps)
  ultimately show ?case using IH(3) r by (auto simp: word_le_nat_alt)
qed

lemma covered_scan_None:
  "covered_scan c rs = None \<Longrightarrow> sorted (map r_offset rs) \<Longrightarrow> \<forall>r \<in> set rs. slice_of msg r \<Longrightarrow>
     length msg < 2 ^ 32 \<Longrightarrow> \<exists>pos \<ge> unat c. pos < length msg \<and> pos \<notin> covers rs"
proof (induction rs arbitrary: c)
  case Nil
  then show ?case by simp
next
  case (Cons r rs)
  have r: "unat (range_end r) = unat (r_offset r) + length (r_bytes r)"
    "unat (r_offset r) + length (r_bytes r) \<le> length msg"
    using slice_range_end[of msg r] Cons.prems by (simp_all add: slice_of_def)
  show ?case
  proof (cases "r_offset r > c")
    case True
    have "unat c \<notin> covers (r # rs)"
      using True Cons.prems(2) by (fastforce simp: covers_def word_le_nat_alt word_less_nat_alt)
    moreover have "unat c < length msg" using True r(2) by (simp add: word_less_nat_alt)
    ultimately show ?thesis by blast
  next
    case False
    then have "covered_scan (max c (range_end r)) rs = None" using Cons.prems(1) by simp
    from Cons.IH[OF this] Cons.prems(2-4)
    obtain pos where "unat (max c (range_end r)) \<le> pos" "pos < length msg" "pos \<notin> covers rs"
      by auto
    moreover from this(1) have "unat c \<le> pos" "unat (range_end r) \<le> pos"
      by (auto simp: max_def word_le_nat_alt split: if_splits)
    ultimately show ?thesis using r(1) by auto
  qed
qed

lemma covered_scan_complete:
  assumes "sorted (map r_offset rs)" "\<forall>r \<in> set rs. slice_of msg r" "length msg < 2 ^ 32"
    and "unat msg_total = length msg"
  shows "(\<exists>d. covered_scan 0 rs = Some d \<and> \<not> d < msg_total) \<longleftrightarrow> {..<length msg} \<subseteq> covers rs"
proof (cases "covered_scan 0 rs")
  case None
  then show ?thesis using covered_scan_None[OF None assms(1-3)] by auto
next
  case (Some d)
  have cov: "{..<unat d} \<subseteq> covers rs" "\<forall>pos \<in> covers rs. pos < unat d"
    using covered_scan_Some[OF Some assms(2,3)] by (auto simp: subset_eq)
  have "\<not> d < msg_total \<longleftrightarrow> length msg \<le> unat d"
    using assms(4) by (simp add: word_less_nat_alt not_less)
  moreover have "length msg \<le> unat d \<longleftrightarrow> {..<length msg} \<subseteq> covers rs"
  proof
    assume "length msg \<le> unat d"
    then show "{..<length msg} \<subseteq> covers rs" using cov(1) by auto
  next
    assume whole: "{..<length msg} \<subseteq> covers rs"
    show "length msg \<le> unat d"
    proof (rule ccontr)
      assume "\<not> length msg \<le> unat d"
      then have "unat d \<in> covers rs" using whole by auto
      with cov(2) show False by blast
    qed
  qed
  ultimately show ?thesis using Some by simp
qed

section \<open>Accounting of the retained bytes\<close>

definition ranges_size :: "Range list \<Rightarrow> nat" where
  "ranges_size rs = sum_list (map (\<lambda>r. length (r_bytes r)) rs)"

definition retained_sum :: "(u32 \<rightharpoonup> Pending) \<Rightarrow> nat" where
  "retained_sum m = (\<Sum>s \<in> dom m. ranges_size (p_ranges (the (m s))))"

definition pending_ok :: "nat \<Rightarrow> Pending \<Rightarrow> bool" where
  "pending_ok max_message p \<longleftrightarrow> p_total p \<noteq> 0 \<and> unat (p_total p) \<le> max_message \<and>
     (\<forall>r \<in> set (p_ranges p). unat (r_offset r) + length (r_bytes r) \<le> unat (p_total p))"

definition reassembler_ok :: "Reassembler \<Rightarrow> bool" where
  "reassembler_ok r \<longleftrightarrow> finite (dom (ra_pending r)) \<and> ra_max_message r \<le> SIZE_MAX \<and>
     ra_retained r = retained_sum (ra_pending r) \<and> ra_retained r \<le> ra_max_message r \<and>
     (\<forall>s p. ra_pending r s = Some p \<longrightarrow> pending_ok (ra_max_message r) p)"

lemma ranges_size_simps [simp]:
  "ranges_size [] = 0" "ranges_size (r # rs) = length (r_bytes r) + ranges_size rs"
  "ranges_size (rs @ ts) = ranges_size rs + ranges_size ts"
  by (simp_all add: ranges_size_def)

lemma ranges_size_sort [simp]: "ranges_size (sort_key f rs) = ranges_size rs"
proof -
  have "sum_mset (image_mset (\<lambda>r. length (r_bytes r)) (mset (sort_key f rs)))
      = sum_mset (image_mset (\<lambda>r. length (r_bytes r)) (mset rs))"
    by simp
  then show ?thesis unfolding ranges_size_def by (simp only: mset_map[symmetric] sum_mset_sum_list)
qed

lemma retained_sum_upd:
  "finite (dom m) \<Longrightarrow> retained_sum (m(s \<mapsto> p)) = ranges_size (p_ranges p) + retained_sum (m(s := None))"
proof -
  assume fin: "finite (dom m)"
  let ?size = "\<lambda>m k. ranges_size (p_ranges (the (m k)))"
  have "dom (m(s \<mapsto> p)) = insert s (dom m - {s})" by auto
  then have "retained_sum (m(s \<mapsto> p)) = ranges_size (p_ranges p) + sum (?size (m(s \<mapsto> p))) (dom m - {s})"
    unfolding retained_sum_def
    using fin sum.insert[of "dom m - {s}" s "?size (m(s \<mapsto> p))"] by simp
  also have "sum (?size (m(s \<mapsto> p))) (dom m - {s}) = sum (?size (m(s := None))) (dom m - {s})"
    by (rule sum.cong) auto
  also have "dom m - {s} = dom (m(s := None))" by auto
  finally show ?thesis unfolding retained_sum_def .
qed

lemma retained_sum_remove:
  "finite (dom m) \<Longrightarrow> m s = Some p \<Longrightarrow>
     retained_sum m = ranges_size (p_ranges p) + retained_sum (m(s := None))"
  using retained_sum_upd[of m s p] by (simp add: fun_upd_idem)

lemma release_ranges:
  "ranges_size rs \<le> n \<Longrightarrow>
     foldl (\<lambda>n r. size_sub n (length (r_bytes r))) n rs = n - ranges_size rs"
  by (induction rs arbitrary: n) simp_all

lemma reset_message_absent [simp]: "ra_pending r s = None \<Longrightarrow> reset_message r s = r"
  by (simp add: reset_message_def)

lemma reset_message_present:
  assumes "reassembler_ok r" "ra_pending r s = Some p"
  shows "reset_message r s = r\<lparr>ra_pending := (ra_pending r)(s := None),
    ra_retained := retained_sum ((ra_pending r)(s := None))\<rparr>"
  using assms retained_sum_remove[of "ra_pending r" s p]
  by (simp add: reset_message_def reassembler_ok_def release_ranges)

lemma reset_message_ok: "reassembler_ok r \<Longrightarrow> reassembler_ok (reset_message r s)"
proof (cases "ra_pending r s")
  case (Some p)
  assume ok: "reassembler_ok r"
  then show ?thesis
    using Some retained_sum_remove[of "ra_pending r" s p]
    by (simp add: reset_message_present) (auto simp: reassembler_ok_def)
qed simp

text \<open>The outcomes of one insertion into a well-formed reassembler.\<close>

definition pending_ranges :: "Reassembler \<Rightarrow> u32 \<Rightarrow> Range list" where
  "pending_ranges r s = (case ra_pending r s of None \<Rightarrow> [] | Some p \<Rightarrow> p_ranges p)"

lemma store_outcomes:
  assumes ok: "reassembler_ok r"
    and r1: "r1 = r\<lparr>ra_pending := (ra_pending r)(s \<mapsto> \<lparr>p_total = msg_total, p_ranges = pending_ranges r s\<rparr>)\<rparr>"
    and old: "\<And>p. ra_pending r s = Some p \<Longrightarrow> p_total p = msg_total"
    and new: "new \<longleftrightarrow> ra_pending r s = None"
    and store: "reassembler_store r1 channel s new
      \<lparr>p_total = msg_total, p_ranges = pending_ranges r s\<rparr> offset bs = (r', res)"
  defines "ranges \<equiv> sort_key r_offset (pending_ranges r s @ [\<lparr>r_offset = offset, r_bytes = bs\<rparr>])"
  obtains
    (Refused) e where "r' = r" "res = Inl e" "err_code e = EC_resource_limit"
      "ra_retained r + length bs > ra_max_message r"
  | (Stored) "ra_retained r + length bs \<le> ra_max_message r"
      "\<nexists>d. covered_scan 0 ranges = Some d \<and> \<not> d < msg_total" "res = Inr None"
      "r' = r\<lparr>ra_retained := ra_retained r + length bs,
             ra_pending := (ra_pending r)(s \<mapsto> \<lparr>p_total = msg_total, p_ranges = ranges\<rparr>)\<rparr>"
  | (Delivered) d where "covered_scan 0 ranges = Some d" "\<not> d < msg_total"
      "r' = r\<lparr>ra_retained := retained_sum ((ra_pending r)(s := None)),
             ra_pending := (ra_pending r)(s := None)\<rparr>"
      "res = Inr (Some \<lparr>lm_channel = channel, lm_sequence = s,
         lm_payload = foldl copy_range (replicate (unat msg_total) 0) ranges\<rparr>)"
proof -
  define budget where "budget = (case checked_add (ra_retained r) (length bs) of None \<Rightarrow> None
    | Some n \<Rightarrow> if n > ra_max_message r then None else Some n)"
  have same: "ra_pending r s = Some p \<Longrightarrow>
      (ra_pending r)(s \<mapsto> \<lparr>p_total = msg_total, p_ranges = pending_ranges r s\<rparr>) = ra_pending r" for p
    using old[of p] by (auto simp: pending_ranges_def fun_upd_idem)
  have retained: "ra_retained r = ranges_size (pending_ranges r s)
      + retained_sum ((ra_pending r)(s := None))"
    using ok retained_sum_remove[of "ra_pending r" s]
    by (cases "ra_pending r s") (auto simp: pending_ranges_def reassembler_ok_def fun_upd_idem)
  have budget1: "(case checked_add (ra_retained r1) (length bs) of None \<Rightarrow> None
    | Some n \<Rightarrow> if n > ra_max_message r1 then None else Some n) = budget"
    by (simp add: budget_def r1 cong: option.case_cong)
  note body = store[unfolded reassembler_store_def budget1 Let_def Pending.simps]
  show thesis
  proof (cases budget)
    case None
    have "r' = r"
    proof (cases "ra_pending r s")
      case None
      then have "r\<lparr>ra_pending := (ra_pending r)(s := None)\<rparr> = r" by (simp add: fun_upd_idem)
      then show ?thesis using body \<open>budget = None\<close> new None by (simp add: r1 pending_ranges_def)
    next
      case (Some p)
      then show ?thesis using body \<open>budget = None\<close> new same[OF Some] by (simp add: r1)
    qed
    moreover have "\<exists>e. res = Inl e \<and> err_code e = EC_resource_limit" using body None by auto
    moreover have "ra_retained r + length bs > ra_max_message r"
      using None ok
      by (auto simp: budget_def reassembler_ok_def dest: checked_add_NoneD checked_add_SomeD
          split: option.splits if_splits)
    ultimately show thesis using Refused by blast
  next
    case (Some n)
    then have n: "n = ra_retained r + length bs" "n \<le> ra_max_message r"
      by (auto simp: budget_def dest: checked_add_SomeD split: option.splits if_splits)
    have gone: "foldl (\<lambda>n rg. size_sub n (length (r_bytes rg))) n ranges
        = retained_sum ((ra_pending r)(s := None))"
      using n(1) retained by (subst release_ranges) (simp_all add: ranges_def)
    show thesis
    proof (cases "\<exists>d. covered_scan 0 ranges = Some d \<and> \<not> d < msg_total")
      case True
      then obtain d where "covered_scan 0 ranges = Some d" "\<not> d < msg_total" by blast
      then show thesis
        using body Some gone by (intro Delivered[of d]) (simp_all add: r1 ranges_def)
    next
      case False
      then show thesis
        using body Some n
        by (intro Stored) (auto simp: r1 ranges_def split: option.splits if_splits)
    qed
  qed
qed

lemma insert_outcomes:
  assumes "reassembler_ok r" "reassembler_insert r channel s offset msg_total bs = (r', res)"
  defines "ranges \<equiv> sort_key r_offset (pending_ranges r s @ [\<lparr>r_offset = offset, r_bytes = bs\<rparr>])"
    and "scan \<equiv> scan_ranges (pending_ranges r s) offset (of_nat (unat offset + length bs)) bs"
  obtains
    (Refused) e where "r' = r" "res = Inl e"
      "err_code e = EC_resource_limit \<and> (msg_total = 0 \<or> unat msg_total > ra_max_message r \<or>
         ra_retained r + length bs > ra_max_message r) \<or>
       err_code e = EC_fragment_range \<and> unat offset + length bs > unat msg_total"
  | (Dropped) e p where "ra_pending r s = Some p" "r' = reset_message r s" "res = Inl e"
      "p_total p \<noteq> msg_total \<and> err_code e = EC_fragment_range \<or>
       scan = Scan_conflict \<and> err_code e = EC_fragment_overlap"
  | (Contained) "r' = r" "res = Inr None" "scan = Scan_contained"
  | (Stored) "msg_total \<noteq> 0" "unat msg_total \<le> ra_max_message r"
      "unat offset + length bs \<le> unat msg_total"
      "\<And>p. ra_pending r s = Some p \<Longrightarrow> p_total p = msg_total"
      "ra_retained r + length bs \<le> ra_max_message r"
      "\<nexists>d. covered_scan 0 ranges = Some d \<and> \<not> d < msg_total" "res = Inr None"
      "r' = r\<lparr>ra_retained := ra_retained r + length bs,
             ra_pending := (ra_pending r)(s \<mapsto> \<lparr>p_total = msg_total, p_ranges = ranges\<rparr>)\<rparr>"
  | (Delivered) d where "covered_scan 0 ranges = Some d" "\<not> d < msg_total"
      "\<And>p. ra_pending r s = Some p \<Longrightarrow> p_total p = msg_total"
      "unat offset + length bs \<le> unat msg_total"
      "r' = r\<lparr>ra_retained := retained_sum ((ra_pending r)(s := None)),
             ra_pending := (ra_pending r)(s := None)\<rparr>"
      "res = Inr (Some \<lparr>lm_channel = channel, lm_sequence = s,
         lm_payload = foldl copy_range (replicate (unat msg_total) 0) ranges\<rparr>)"
proof -
  let ?body = "reassembler_insert r channel s offset msg_total bs"
  let ?stop = "unat offset + length bs"
  show thesis
  proof (cases "msg_total = 0 \<or> unat msg_total > ra_max_message r")
    case True
    then show thesis
      using assms(2) by (intro Refused) (auto simp: reassembler_insert_def)
  next
    case False
    note total_ok = this
    show thesis
    proof (cases "checked_add (unat offset) (length bs) = Some ?stop \<and> ?stop \<le> unat msg_total")
      case False
      then have over: "unat offset + length bs > unat msg_total"
        using total_ok assms(1) checked_add_NoneD[of "unat offset" "length bs"]
        by (cases "checked_add (unat offset) (length bs)")
          (auto simp: reassembler_ok_def dest: checked_add_SomeD)
      show thesis
        using assms(2) total_ok over
        by (cases "checked_add (unat offset) (length bs)")
          (auto intro!: Refused simp: reassembler_insert_def dest: checked_add_SomeD)
    next
      case True
      note fit = this
      let ?pend = "\<lparr>p_total = msg_total, p_ranges = pending_ranges r s\<rparr>"
      let ?r1 = "r\<lparr>ra_pending := (ra_pending r)(s \<mapsto> ?pend)\<rparr>"
      have some: "p_total p \<noteq> 0" if "ra_pending r s = Some p" for p
        using that assms(1) by (auto simp: reassembler_ok_def pending_ok_def)
      have same: "?r1 = r" if "ra_pending r s = Some p" "p_total p = msg_total" for p
        using that by (auto simp: pending_ranges_def fun_upd_idem)
      show thesis
      proof (cases "\<exists>p. ra_pending r s = Some p \<and> p_total p \<noteq> msg_total")
        case True
        then obtain p where p: "ra_pending r s = Some p" "p_total p \<noteq> msg_total" by blast
        have "r\<lparr>ra_pending := (ra_pending r)(s \<mapsto> p)\<rparr> = r" using p by (simp add: fun_upd_idem)
        then show thesis
          using assms(2) total_ok fit p some[OF p(1)]
          by (intro Dropped[of p]) (auto simp: reassembler_insert_def Let_def)
      next
        case False
        then have old: "\<And>p. ra_pending r s = Some p \<Longrightarrow> p_total p = msg_total" by blast
        have body: "(case scan of
            Scan_conflict \<Rightarrow> (reset_message ?r1 s,
              Inl (channel_error EC_fragment_overlap channel ''conflicting overlapping fragment bytes''))
          | Scan_contained \<Rightarrow> (?r1, Inr None)
          | Scan_new \<Rightarrow> reassembler_store ?r1 channel s (ra_pending r s = None) ?pend offset bs)
          = (r', res)"
        proof (cases "ra_pending r s")
          case None
          then show ?thesis
            using assms(2) total_ok fit
            by (simp add: reassembler_insert_def Let_def scan_def pending_ranges_def)
        next
          case (Some p)
          moreover have "?pend = p" using Some old[OF Some] by (simp add: pending_ranges_def)
          moreover have "p_total p \<noteq> 0" using some[OF Some] .
          ultimately show ?thesis
            using assms(2) total_ok fit Some unfolding old[OF Some, symmetric]
            by (simp add: reassembler_insert_def Let_def scan_def pending_ranges_def
                cong: scan_result.case_cong)
        qed
        show thesis
        proof (cases scan)
          case Scan_conflict
          then obtain p where p: "ra_pending r s = Some p"
            by (cases "ra_pending r s") (auto simp: scan_def pending_ranges_def)
          show thesis
            using body Scan_conflict same[OF p old[OF p]] p by (intro Dropped[of p]) auto
        next
          case Scan_contained
          then obtain p where p: "ra_pending r s = Some p"
            by (cases "ra_pending r s") (auto simp: scan_def pending_ranges_def)
          show thesis
            using body Scan_contained same[OF p old[OF p]] by (intro Contained) auto
        next
          case Scan_new
          then have store: "reassembler_store ?r1 channel s (ra_pending r s = None) ?pend offset bs
              = (r', res)"
            using body by simp
          show thesis
          proof (rule store_outcomes[OF assms(1) refl old refl store], goal_cases)
            case 2
            then show thesis by (intro Refused) auto
          next
            case 3
            then show thesis
              using total_ok fit old by (intro Stored) (auto simp: ranges_def)
          next
            case (4 d)
            then show thesis using fit old by (intro Delivered[of d]) (auto simp: ranges_def)
          qed
        qed
      qed
    qed
  qed
qed

section \<open>Invariant and delivery\<close>

lemma stored_ok:
  assumes "reassembler_ok r" "msg_total \<noteq> 0" "unat msg_total \<le> ra_max_message r"
    and "unat offset + length bs \<le> unat msg_total"
    and "\<And>p. ra_pending r s = Some p \<Longrightarrow> p_total p = msg_total"
    and "ra_retained r + length bs \<le> ra_max_message r"
  shows "reassembler_ok (r\<lparr>ra_retained := ra_retained r + length bs,
    ra_pending := (ra_pending r)(s \<mapsto> \<lparr>p_total = msg_total,
      p_ranges = sort_key r_offset (pending_ranges r s @ [\<lparr>r_offset = offset, r_bytes = bs\<rparr>])\<rparr>)\<rparr>)"
proof -
  let ?p = "\<lparr>p_total = msg_total,
      p_ranges = sort_key r_offset (pending_ranges r s @ [\<lparr>r_offset = offset, r_bytes = bs\<rparr>])\<rparr>"
  have fin: "finite (dom (ra_pending r))" and ret: "ra_retained r = retained_sum (ra_pending r)"
    using assms(1) by (simp_all add: reassembler_ok_def)
  have "retained_sum (ra_pending r) = ranges_size (pending_ranges r s)
      + retained_sum ((ra_pending r)(s := None))"
    using retained_sum_remove[OF fin, of s]
    by (cases "ra_pending r s") (auto simp: pending_ranges_def fun_upd_idem)
  then have "ra_retained r + length bs = retained_sum ((ra_pending r)(s \<mapsto> ?p))"
    using retained_sum_upd[OF fin, of s ?p] ret by simp
  moreover have "pending_ok (ra_max_message r) ?p"
    using assms by (cases "ra_pending r s")
      (auto simp: pending_ok_def pending_ranges_def reassembler_ok_def)
  ultimately show ?thesis using assms(1,6) by (auto simp: reassembler_ok_def)
qed

lemma delivered_ok:
  assumes "reassembler_ok r"
  shows "reassembler_ok (r\<lparr>ra_retained := retained_sum ((ra_pending r)(s := None)),
    ra_pending := (ra_pending r)(s := None)\<rparr>)"
proof (cases "ra_pending r s")
  case None
  then have "(ra_pending r)(s := None) = ra_pending r" by (simp add: fun_upd_idem)
  then show ?thesis using assms by (simp add: reassembler_ok_def)
next
  case (Some p)
  then show ?thesis
    using assms retained_sum_remove[of "ra_pending r" s p] by (auto simp: reassembler_ok_def)
qed

lemma insert_ok:
  assumes "reassembler_ok r"
  shows "reassembler_ok (fst (reassembler_insert r channel s offset msg_total bs))"
proof -
  obtain r' res where i: "reassembler_insert r channel s offset msg_total bs = (r', res)" by fastforce
  show ?thesis
    using assms i
    by (cases rule: insert_outcomes[OF assms i])
      (auto intro: stored_ok delivered_ok reset_message_ok)
qed

lemma reassembler_ok_new [simp]: "reassembler_ok (reassembler n) \<longleftrightarrow> n \<le> SIZE_MAX"
  by (auto simp: reassembler_ok_def reassembler_def retained_sum_def)

text \<open>Fragments as they arrive, until one completes the message or is refused.\<close>

fun insert_fragments ::
  "Reassembler \<Rightarrow> ChannelId \<Rightarrow> u32 \<Rightarrow> u32 \<Rightarrow> Range list \<Rightarrow> Reassembler \<times> LogicalMessage option result" where
  "insert_fragments r channel sequence msg_total [] = (r, Inr None)"
| "insert_fragments r channel sequence msg_total (f # fs) =
     (case reassembler_insert r channel sequence (r_offset f) msg_total (r_bytes f) of
        (r', Inr None) \<Rightarrow> insert_fragments r' channel sequence msg_total fs
      | outcome \<Rightarrow> outcome)"

text \<open>What holds between two fragments of \<open>msg\<close> with sequence \<open>s\<close>, relative to the reassembler
  \<open>r0\<close> before the first: everything else is untouched, only slices are stored, they cover what
  arrived, and something is missing.\<close>

definition collecting :: "Reassembler \<Rightarrow> u32 \<Rightarrow> bytes \<Rightarrow> Range list \<Rightarrow> Reassembler \<Rightarrow> bool" where
  "collecting r0 s msg arrived r \<longleftrightarrow>
     reassembler_ok r \<and> ra_max_message r = ra_max_message r0 \<and>
     (ra_pending r)(s := None) = ra_pending r0 \<and>
     (\<forall>p. ra_pending r s = Some p \<longrightarrow> p_total p = of_nat (length msg)) \<and>
     (\<forall>f \<in> set (pending_ranges r s). slice_of msg f) \<and>
     covers (pending_ranges r s) = covers arrived \<and>
     ranges_size (pending_ranges r s) \<le> ranges_size arrived \<and>
     \<not> {..<length msg} \<subseteq> covers arrived"

lemma collecting_retained:
  assumes "collecting r0 s msg arrived r" "reassembler_ok r0"
  shows "ra_retained r \<le> ra_retained r0 + ranges_size arrived"
proof -
  have "ra_retained r = ranges_size (pending_ranges r s) + retained_sum ((ra_pending r)(s := None))"
    using assms(1) retained_sum_remove[of "ra_pending r" s]
    by (cases "ra_pending r s")
      (auto simp: collecting_def pending_ranges_def reassembler_ok_def fun_upd_idem)
  then show ?thesis using assms by (auto simp: collecting_def reassembler_ok_def)
qed

lemma pending_ranges_stored [simp]:
  "pending_ranges (r\<lparr>ra_retained := n, ra_pending := (ra_pending r)(s \<mapsto> p)\<rparr>) s = p_ranges p"
  by (simp add: pending_ranges_def)

lemma collecting_step:
  assumes col: "collecting r0 s msg arrived r" and slice: "slice_of msg f"
    and msg: "0 < length msg" "length msg < 2 ^ 32" "length msg \<le> ra_max_message r0"
    and ins: "reassembler_insert r channel s (r_offset f) (of_nat (length msg)) (r_bytes f) = (r', res)"
  shows "(\<exists>e. res = Inl e \<and> err_code e = EC_resource_limit \<and> r' = r \<and>
        ra_retained r + length (r_bytes f) > ra_max_message r) \<or>
    (res = Inr None \<and> collecting r0 s msg (arrived @ [f]) r') \<or>
    ({..<length msg} \<subseteq> covers (arrived @ [f]) \<and>
      res = Inr (Some \<lparr>lm_channel = channel, lm_sequence = s, lm_payload = msg\<rparr>) \<and>
      r' = r0\<lparr>ra_retained := retained_sum (ra_pending r0)\<rparr>)"
proof -
  let ?t = "of_nat (length msg) :: u32"
  have ok: "reassembler_ok r" and maxr: "ra_max_message r = ra_max_message r0"
    and others: "(ra_pending r)(s := None) = ra_pending r0"
    and totals: "\<And>p. ra_pending r s = Some p \<Longrightarrow> p_total p = ?t"
    and slices: "\<forall>f \<in> set (pending_ranges r s). slice_of msg f"
    and cov: "covers (pending_ranges r s) = covers arrived"
    and size: "ranges_size (pending_ranges r s) \<le> ranges_size arrived"
    and gap: "\<not> {..<length msg} \<subseteq> covers arrived"
    using col by (auto simp: collecting_def)
  have t: "unat ?t = length msg" using msg(2) by (rule unat_of_nat_u32)
  have t0: "?t \<noteq> 0" using t msg(1) by auto
  have f: "\<lparr>r_offset = r_offset f, r_bytes = r_bytes f\<rparr> = f" by simp
  let ?ranges = "sort_key r_offset (pending_ranges r s @ [f])"
  have fit: "unat (r_offset f) + length (r_bytes f) \<le> length msg"
    using slice by (simp add: slice_of_def)
  have all: "\<forall>g \<in> set ?ranges. slice_of msg g" using slices slice by simp
  have scan: "scan_ranges (pending_ranges r s) (r_offset f)
      (of_nat (unat (r_offset f) + length (r_bytes f))) (r_bytes f) \<noteq> Scan_conflict"
    "scan_ranges (pending_ranges r s) (r_offset f)
      (of_nat (unat (r_offset f) + length (r_bytes f))) (r_bytes f) = Scan_contained \<Longrightarrow>
      covers [f] \<subseteq> covers (pending_ranges r s)"
    using scan_ranges_slices[OF slices, of "r_offset f" "r_bytes f"] slice msg(2) f by simp_all
  have complete: "(\<exists>d. covered_scan 0 ?ranges = Some d \<and> \<not> d < ?t)
      \<longleftrightarrow> {..<length msg} \<subseteq> covers (arrived @ [f])"
    using covered_scan_complete[OF _ all msg(2) t] cov by simp
  show ?thesis
  proof (cases rule: insert_outcomes[OF ok ins, unfolded f, case_names Refused Dropped Contained Stored Delivered])
    case (Refused e)
    then show ?thesis using t t0 msg(3) maxr fit by auto
  next
    case (Dropped e p)
    then show ?thesis using totals scan(1) by auto
  next
    case Contained
    then have "covers [f] \<subseteq> covers arrived" using scan(2) cov by simp
    then have "covers (arrived @ [f]) = covers arrived" by auto
    then show ?thesis
      using Contained col by (simp add: collecting_def del: covers_simps)
  next
    case Stored
    then have "\<not> {..<length msg} \<subseteq> covers (arrived @ [f])" using complete by simp
    moreover have "reassembler_ok r'"
      using Stored stored_ok[OF ok t0, of "r_offset f" "r_bytes f" s] f by simp
    ultimately have "collecting r0 s msg (arrived @ [f]) r'"
      using Stored others maxr all cov size
      by (simp add: collecting_def pending_ranges_def)
    then show ?thesis using Stored by simp
  next
    case (Delivered d)
    then have whole: "{..<length msg} \<subseteq> covers (arrived @ [f])" using complete by blast
    then have "foldl copy_range (replicate (length msg) 0) ?ranges = msg"
      using copy_ranges_whole[OF all] cov by simp
    then show ?thesis
      using Delivered whole others maxr t ok
      by (cases r; cases r0) (simp add: reassembler_ok_def)
  qed
qed

lemma collecting_start:
  "reassembler_ok r \<Longrightarrow> ra_pending r s = None \<Longrightarrow> 0 < length msg \<Longrightarrow> collecting r s msg [] r"
  by (auto simp: collecting_def pending_ranges_def fun_upd_idem)

lemma restore_retained: "reassembler_ok r \<Longrightarrow> r\<lparr>ra_retained := retained_sum (ra_pending r)\<rparr> = r"
  by (cases r) (simp add: reassembler_ok_def)

lemma insert_fragments_collecting:
  assumes "reassembler_ok r0" "0 < length msg" "length msg < 2 ^ 32"
    and "length msg \<le> ra_max_message r0"
  shows "collecting r0 s msg arrived r \<Longrightarrow> \<forall>f \<in> set fs. slice_of msg f \<Longrightarrow>
     insert_fragments r channel s (of_nat (length msg)) fs = (r', res) \<Longrightarrow>
     (\<exists>e. res = Inl e \<and> err_code e = EC_resource_limit \<and>
        ra_retained r0 + ranges_size (arrived @ fs) > ra_max_message r0) \<or>
     (res = Inr None \<and> \<not> {..<length msg} \<subseteq> covers (arrived @ fs)) \<or>
     (res = Inr (Some \<lparr>lm_channel = channel, lm_sequence = s, lm_payload = msg\<rparr>) \<and> r' = r0)"
proof (induction fs arbitrary: r arrived)
  case Nil
  then show ?case by (simp add: collecting_def)
next
  case (Cons f fs)
  obtain r1 res1 where ins: "reassembler_insert r channel s (r_offset f) (of_nat (length msg))
      (r_bytes f) = (r1, res1)" by fastforce
  have slice: "slice_of msg f" using Cons.prems(2) by simp
  have ret: "ra_retained r \<le> ra_retained r0 + ranges_size arrived" "ra_max_message r = ra_max_message r0"
    using collecting_retained[OF Cons.prems(1) assms(1)] Cons.prems(1) by (simp_all add: collecting_def)
  from collecting_step[OF Cons.prems(1) slice assms(2-4) ins] show ?case
  proof (elim disjE exE conjE)
    assume "res1 = Inr None" "collecting r0 s msg (arrived @ [f]) r1"
    then show ?case
      using Cons.IH[of "arrived @ [f]" r1] Cons.prems ins by simp
  next
    fix e assume "res1 = Inl e" "err_code e = EC_resource_limit" "r1 = r"
      "ra_retained r + length (r_bytes f) > ra_max_message r"
    then show ?case using Cons.prems(3) ins ret by auto
  next
    assume "res1 = Inr (Some \<lparr>lm_channel = channel, lm_sequence = s, lm_payload = msg\<rparr>)"
      "r1 = r0\<lparr>ra_retained := retained_sum (ra_pending r0)\<rparr>"
    then show ?case using Cons.prems(3) ins restore_retained[OF assms(1)] by simp
  qed
qed

text \<open>Property C10. Reassembly is exact: fragments that are slices of a message, in any order,
  overlapping or repeated, deliver exactly that message once they cover it, provided the
  fragments fit the receive budget, and afterwards the reassembler is as it was before the first
  of them.\<close>

theorem reassembly_delivers:
  assumes "reassembler_ok r" and "ra_pending r s = None"
    and "0 < length msg" and "length msg < 2 ^ 32" and "length msg \<le> ra_max_message r"
    and "\<forall>f \<in> set fs. slice_of msg f" and "{..<length msg} \<subseteq> covers fs"
    and "ra_retained r + ranges_size fs \<le> ra_max_message r"
  shows "insert_fragments r channel s (of_nat (length msg)) fs =
    (r, Inr (Some \<lparr>lm_channel = channel, lm_sequence = s, lm_payload = msg\<rparr>))"
proof -
  obtain r' res where i: "insert_fragments r channel s (of_nat (length msg)) fs = (r', res)"
    by fastforce
  from insert_fragments_collecting[OF assms(1,3,4,5) collecting_start[OF assms(1,2,3)] assms(6) i]
  show ?thesis using i assms(7,8) by auto
qed

lemma two_bytes: "{..<2} = {0, 1 :: nat}"
  by auto

theorem reassembly_delivers_witness:
  "insert_fragments (reassembler 16) control_channel 9 (of_nat (length [7, 8 :: u8]))
     [\<lparr>r_offset = 1, r_bytes = [8]\<rparr>, \<lparr>r_offset = 0, r_bytes = [7, 8]\<rparr>] =
   (reassembler 16, Inr (Some \<lparr>lm_channel = control_channel, lm_sequence = 9, lm_payload = [7, 8]\<rparr>))"
  by (rule reassembly_delivers)
    (auto simp: reassembler_def reassembler_ok_def retained_sum_def SIZE_MAX_def slice_of_def)

text \<open>Property C11. No delivery is ever wrong: from slices of one message, complete or not, within
  the budget or not, an insertion can only wait, refuse with a resource limit, or deliver that
  very message.\<close>

theorem reassembly_never_alters:
  assumes "reassembler_ok r" and "ra_pending r s = None"
    and "0 < length msg" and "length msg < 2 ^ 32" and "length msg \<le> ra_max_message r"
    and "\<forall>f \<in> set fs. slice_of msg f"
    and "insert_fragments r channel s (of_nat (length msg)) fs = (r', res)"
  shows "res = Inr None \<and> \<not> {..<length msg} \<subseteq> covers fs \<or>
    (\<exists>e. res = Inl e \<and> err_code e = EC_resource_limit) \<or>
    res = Inr (Some \<lparr>lm_channel = channel, lm_sequence = s, lm_payload = msg\<rparr>)"
  using insert_fragments_collecting[OF assms(1,3,4,5) collecting_start[OF assms(1,2,3)] assms(6,7)]
  by auto

theorem reassembly_never_alters_witness:
  "\<exists>r' res. insert_fragments (reassembler 16) control_channel 9 (of_nat (length [7, 8 :: u8]))
     [\<lparr>r_offset = 1, r_bytes = [8]\<rparr>] = (r', res) \<and>
   (res = Inr None \<and> \<not> {..<length [7, 8 :: u8]} \<subseteq> covers [\<lparr>r_offset = 1, r_bytes = [8]\<rparr>] \<or>
    (\<exists>e. res = Inl e \<and> err_code e = EC_resource_limit) \<or>
    res = Inr (Some \<lparr>lm_channel = control_channel, lm_sequence = 9, lm_payload = [7, 8]\<rparr>))"
proof -
  obtain r' res where i: "insert_fragments (reassembler 16) control_channel 9
      (of_nat (length [7, 8 :: u8])) [\<lparr>r_offset = 1, r_bytes = [8]\<rparr>] = (r', res)" by fastforce
  have "res = Inr None \<and> \<not> {..<length [7, 8 :: u8]} \<subseteq> covers [\<lparr>r_offset = 1, r_bytes = [8]\<rparr>] \<or>
    (\<exists>e. res = Inl e \<and> err_code e = EC_resource_limit) \<or>
    res = Inr (Some \<lparr>lm_channel = control_channel, lm_sequence = 9, lm_payload = [7, 8]\<rparr>)"
    by (rule reassembly_never_alters[OF _ _ _ _ _ _ i])
      (auto simp: reassembler_def reassembler_ok_def retained_sum_def SIZE_MAX_def slice_of_def)
  with i show ?thesis by blast
qed

section \<open>Arbitrary histories\<close>

datatype ReassemblerOp = Ra_insert ChannelId u32 u32 u32 bytes | Ra_reset u32

fun reassembler_apply :: "Reassembler \<Rightarrow> ReassemblerOp \<Rightarrow> Reassembler" where
  "reassembler_apply r (Ra_insert channel sequence offset msg_total bs) =
     fst (reassembler_insert r channel sequence offset msg_total bs)"
| "reassembler_apply r (Ra_reset sequence) = reset_message r sequence"

lemma reset_message_max [simp]: "ra_max_message (reset_message r s) = ra_max_message r"
  by (simp add: reset_message_def split: option.splits)

lemma insert_max [simp]:
  "ra_max_message (fst (reassembler_insert r channel s offset msg_total bs)) = ra_max_message r"
  by (auto simp: reassembler_insert_def reassembler_store_def Let_def
      split: option.splits scan_result.splits)

lemma reassembler_history:
  "reassembler_ok r \<Longrightarrow> reassembler_ok (foldl reassembler_apply r ops) \<and>
     ra_max_message (foldl reassembler_apply r ops) = ra_max_message r"
proof (induction ops arbitrary: r)
  case (Cons op ops)
  have "reassembler_ok (reassembler_apply r op) \<and>
      ra_max_message (reassembler_apply r op) = ra_max_message r"
    using Cons.prems insert_ok reset_message_ok by (cases op) simp_all
  then show ?case using Cons.IH[of "reassembler_apply r op"] by simp
qed simp

text \<open>Remark. The receive budget is respected: whatever fragments a peer sends, conflicting
  ones and ones that change the total included, the retained byte count never exceeds
  \<open>max_message\<close> and equals the bytes of the stored fragments.\<close>

theorem reassembler_budget:
  assumes "max_message \<le> SIZE_MAX"
  shows "let r = foldl reassembler_apply (reassembler max_message) ops
    in ra_retained r \<le> max_message \<and> ra_retained r = retained_sum (ra_pending r)"
proof -
  have "reassembler_ok (reassembler max_message)" using assms by simp
  from reassembler_history[OF this, of ops] show ?thesis
    by (simp add: Let_def reassembler_ok_def) (simp add: reassembler_def)
qed

theorem reassembler_budget_witness:
  "let r = foldl reassembler_apply (reassembler 8)
       [Ra_insert control_channel 1 0 4 [1, 2], Ra_insert control_channel 1 1 4 [9], Ra_reset 2]
   in ra_retained r \<le> 8 \<and> ra_retained r = retained_sum (ra_pending r)"
  by (rule reassembler_budget) (simp add: SIZE_MAX_def)

lemma range_end_empty [simp]: "range_end \<lparr>r_offset = 0, r_bytes = []\<rparr> = 0"
  by (simp add: range_end_def)

lemma covered_scan_empty [simp]: "covered_scan 0 (replicate n \<lparr>r_offset = 0, r_bytes = []\<rparr>) = Some 0"
  by (induction n) simp_all

lemma scan_ranges_empty [simp]:
  "scan_ranges (replicate n \<lparr>r_offset = 0, r_bytes = []\<rparr>) 0 0 [] = Scan_new"
  by (induction n) simp_all

lemma empty_ranges_sorted:
  "sort_key r_offset (replicate n \<lparr>r_offset = 0, r_bytes = []\<rparr> @ [\<lparr>r_offset = 0, r_bytes = []\<rparr>])
   = replicate (Suc n) \<lparr>r_offset = 0, r_bytes = []\<rparr>"
proof -
  have "replicate n \<lparr>r_offset = 0, r_bytes = []\<rparr> @ [\<lparr>r_offset = 0, r_bytes = []\<rparr>]
      = replicate (Suc n) \<lparr>r_offset = 0 :: u32, r_bytes = []\<rparr>"
    by (simp add: replicate_append_same)
  then show ?thesis by (simp only: map_replicate sorted_replicate sort_key_id_if_sorted)
qed

text \<open>Remark. The budget counts bytes only: empty fragments are stored one after the other,
  so a peer can make the number of stored ranges as large as it likes at no charge.\<close>

theorem empty_fragments_unbounded:
  "let r = foldl reassembler_apply (reassembler 8) (replicate n (Ra_insert control_channel 1 0 4 []))
   in ra_retained r = 0 \<and> length (pending_ranges r 1) = n"
proof -
  let ?op = "Ra_insert control_channel 1 0 4 []" and ?z = "\<lparr>r_offset = 0 :: u32, r_bytes = []\<rparr>"
  have upd: "p\<lparr>p_ranges := x\<rparr> = \<lparr>p_total = p_total p, p_ranges = x\<rparr>" for p x by (cases p) simp
  have step: "reassembler_apply r ?op = r\<lparr>ra_retained := 0, ra_pending := (ra_pending r)(1 \<mapsto>
        \<lparr>p_total = 4, p_ranges = replicate (Suc k) ?z\<rparr>)\<rparr>"
    if "pending_ranges r 1 = replicate k ?z" "ra_retained r = 0" "ra_max_message r = 8"
      "\<And>p. ra_pending r 1 = Some p \<Longrightarrow> p_total p = 4" for r k
    using that
    by (cases "ra_pending r 1")
      (auto simp: reassembler_insert_def reassembler_store_def Let_def checked_add_def upd
        pending_ranges_def empty_ranges_sorted[of k, simplified] SIZE_MAX_def)
  have "let r = foldl reassembler_apply (reassembler 8) (replicate n ?op)
    in pending_ranges r 1 = replicate n ?z \<and> ra_retained r = 0 \<and> ra_max_message r = 8 \<and>
      (\<forall>p. ra_pending r 1 = Some p \<longrightarrow> p_total p = 4)"
  proof (induction n)
    case 0
    then show ?case by (simp add: reassembler_def pending_ranges_def)
  next
    case (Suc n)
    have "replicate (Suc n) ?op = replicate n ?op @ [?op]" by (simp add: replicate_append_same)
    then show ?case
      using Suc step[of "foldl reassembler_apply (reassembler 8) (replicate n ?op)" n]
      by (simp add: Let_def pending_ranges_def del: replicate_Suc replicate.simps reassembler_apply.simps)
  qed
  then show ?thesis by (simp add: Let_def)
qed

end
