(* ===== verification/Channel_Table.thy ===== *)
theory Channel_Table
  imports Flow_Account Reassembler
begin

text \<open>
  \<open>ChannelTable\<close> of \<^verbatim>\<open>src/channel/channel_state.cpp\<close>: the fixed slots of a connection,
  their generations and states. \<open>find\<close> returns a pointer into the vector; here it returns the
  slot, and what the code writes through the pointer is \<open>update_slot\<close>. The lemmas give the
  slot invariant (states and half-close flags agree), that stale identifiers stay dead, and
  that send sequences are handed out once.
\<close>

record ChannelSlot =
  cs_id :: ChannelId
  cs_state :: ChannelState
  cs_next_send_seq :: u32
  cs_next_recv_seq :: u32
  cs_local_half_closed :: bool
  cs_remote_half_closed :: bool
  cs_flow :: FlowAccount
  cs_reassembler :: Reassembler

record ChannelTable =
  ct_slots :: "ChannelSlot list"
  ct_channel_window :: nat
  ct_max_message :: nat

definition new_slot :: "nat \<Rightarrow> nat \<Rightarrow> nat \<Rightarrow> ChannelSlot" where
  "new_slot window max_message i =
     \<lparr>cs_id = \<lparr>cid_number = of_nat (i + 1), cid_generation = 0\<rparr>, cs_state = CH_free,
      cs_next_send_seq = 1, cs_next_recv_seq = 1, cs_local_half_closed = False,
      cs_remote_half_closed = False, cs_flow = flow_account window,
      cs_reassembler = reassembler max_message\<rparr>"

definition channel_table :: "u16 \<Rightarrow> nat \<Rightarrow> nat \<Rightarrow> ChannelTable" where
  "channel_table max_channels window max_message =
     \<lparr>ct_slots = map (new_slot window max_message) [0..<unat max_channels],
      ct_channel_window = window, ct_max_message = max_message\<rparr>"

text \<open>The block of assignments both \<open>allocate\<close> and \<open>accept_remote\<close> perform.\<close>

definition opened_slot :: "ChannelTable \<Rightarrow> ChannelId \<Rightarrow> ChannelState \<Rightarrow> ChannelSlot \<Rightarrow> ChannelSlot" where
  "opened_slot t cid state slot =
     slot\<lparr>cs_id := cid, cs_state := state, cs_next_send_seq := 1, cs_next_recv_seq := 1,
          cs_local_half_closed := False, cs_remote_half_closed := False,
          cs_flow := flow_account (ct_channel_window t),
          cs_reassembler := reassembler (ct_max_message t)\<rparr>"

fun first_free :: "ChannelSlot list \<Rightarrow> nat \<Rightarrow> nat option" where
  "first_free [] i = None"
| "first_free (slot # slots) i = (if cs_state slot = CH_free then Some i else first_free slots (Suc i))"

definition allocate :: "ChannelTable \<Rightarrow> ChannelTable \<times> ChannelId result" where
  "allocate t =
     (case first_free (ct_slots t) 0 of
        None \<Rightarrow> (t, Inl (make_error ES_connection EC_resource_limit CA_none
                           ''no free channel slots''))
      | Some i \<Rightarrow>
          let slot = ct_slots t ! i in
          if cid_generation (cs_id slot) = 0xFF
          then (t, Inl (channel_error EC_resource_limit (cs_id slot) ''channel generation wrapped''))
          else
            let cid = (cs_id slot)\<lparr>cid_generation := cid_generation (cs_id slot) + 1\<rparr>
            in (t\<lparr>ct_slots := (ct_slots t)[i := opened_slot t cid CH_opening slot]\<rparr>, Inr cid))"

text \<open>\<open>slots_[id.number - 1U]\<close>, guarded as everywhere in the code.\<close>

definition slot_index :: "ChannelTable \<Rightarrow> ChannelId \<Rightarrow> nat option" where
  "slot_index t cid =
     (if cid_number cid = 0 \<or> unat (cid_number cid) > length (ct_slots t) then None
      else Some (unat (cid_number cid - 1)))"

definition accept_remote :: "ChannelTable \<Rightarrow> ChannelId \<Rightarrow> ChannelTable \<times> unit result" where
  "accept_remote t cid =
     (case slot_index t cid of
        None \<Rightarrow> (t, Inl (channel_error EC_resource_limit cid ''remote channel number is out of range''))
      | Some i \<Rightarrow>
          let slot = ct_slots t ! i in
          if cs_state slot \<noteq> CH_free
          then (t, Inl (channel_error EC_illegal_state cid ''remote OPEN targets busy slot''))
          else if cid_generation cid \<noteq> cid_generation (cs_id slot) + 1
          then (t, Inl (channel_error EC_stale_generation cid ''remote OPEN generation is not next''))
          else (t\<lparr>ct_slots := (ct_slots t)[i := opened_slot t cid CH_open slot]\<rparr>, Inr ()))"

definition find_slot :: "ChannelTable \<Rightarrow> ChannelId \<Rightarrow> ChannelSlot option" where
  "find_slot t cid =
     (case slot_index t cid of
        None \<Rightarrow> None
      | Some i \<Rightarrow>
          let slot = ct_slots t ! i in
          if cid_generation (cs_id slot) \<noteq> cid_generation cid \<or> cs_state slot = CH_free \<or>
             cs_state slot = CH_tombstone
          then None else Some slot)"

definition update_slot :: "ChannelTable \<Rightarrow> ChannelId \<Rightarrow> ChannelSlot \<Rightarrow> ChannelTable" where
  "update_slot t cid slot = t\<lparr>ct_slots := (ct_slots t)[unat (cid_number cid - 1) := slot]\<rparr>"

definition activate :: "ChannelTable \<Rightarrow> ChannelId \<Rightarrow> ChannelTable \<times> unit result" where
  "activate t cid =
     (case find_slot t cid of
        None \<Rightarrow> (t, Inl (channel_error EC_illegal_state cid ''channel cannot activate''))
      | Some slot \<Rightarrow>
          if cs_state slot \<noteq> CH_opening
          then (t, Inl (channel_error EC_illegal_state cid ''channel cannot activate''))
          else (update_slot t cid (slot\<lparr>cs_state := CH_open\<rparr>), Inr ()))"

definition reserve_send_sequence :: "ChannelTable \<Rightarrow> ChannelId \<Rightarrow> ChannelTable \<times> u32 result" where
  "reserve_send_sequence t cid =
     (case find_slot t cid of
        None \<Rightarrow> (t, Inl (channel_error EC_stale_generation cid ''send sequence targets stale channel''))
      | Some slot \<Rightarrow>
          if cs_next_send_seq slot = 0xFFFFFFFF
          then (t, Inl (channel_error EC_resource_limit cid ''send sequence would wrap''))
          else (update_slot t cid (slot\<lparr>cs_next_send_seq := cs_next_send_seq slot + 1\<rparr>),
                Inr (cs_next_send_seq slot)))"

definition half_close :: "ChannelTable \<Rightarrow> ChannelId \<Rightarrow> Direction \<Rightarrow> ChannelTable \<times> unit result" where
  "half_close t cid direction =
     (case find_slot t cid of
        None \<Rightarrow> (t, Inl (channel_error EC_stale_generation cid ''channel not live''))
      | Some slot \<Rightarrow>
          if cs_state slot \<noteq> CH_open \<and> cs_state slot \<noteq> CH_local_closed \<and>
             cs_state slot \<noteq> CH_remote_closed
          then (t, Inl (channel_error EC_illegal_state cid ''channel half-close is illegal now''))
          else
            (update_slot t cid
              (if direction = Dir_local_send
               then slot\<lparr>cs_local_half_closed := True,
                         cs_state := (if cs_remote_half_closed slot then CH_closing
                                      else CH_local_closed)\<rparr>
               else slot\<lparr>cs_remote_half_closed := True,
                         cs_state := (if cs_local_half_closed slot then CH_closing
                                      else CH_remote_closed)\<rparr>), Inr ()))"

definition reset_channel :: "ChannelTable \<Rightarrow> ChannelId \<Rightarrow> ChannelTable \<times> unit result" where
  "reset_channel t cid =
     (case find_slot t cid of
        None \<Rightarrow> (t, Inl (channel_error EC_stale_generation cid ''reset targets stale channel''))
      | Some slot \<Rightarrow>
          (update_slot t cid
             (slot\<lparr>cs_state := CH_tombstone, cs_flow := flow_account (ct_channel_window t),
                   cs_reassembler := reassembler (ct_max_message t)\<rparr>), Inr ()))"

definition retire_tombstone :: "ChannelTable \<Rightarrow> ChannelId \<Rightarrow> ChannelTable \<times> unit result" where
  "retire_tombstone t cid =
     (case slot_index t cid of
        None \<Rightarrow> (t, Inl (channel_error EC_illegal_state cid ''only tombstone can retire''))
      | Some i \<Rightarrow>
          let slot = ct_slots t ! i in
          if cid_generation (cs_id slot) \<noteq> cid_generation cid \<or> cs_state slot \<noteq> CH_tombstone
          then (t, Inl (channel_error EC_illegal_state cid ''only tombstone can retire''))
          else (t\<lparr>ct_slots := (ct_slots t)[i := slot\<lparr>cs_state := CH_free\<rparr>]\<rparr>, Inr ()))"

definition slot_live :: "ChannelSlot \<Rightarrow> bool" where
  "slot_live slot \<longleftrightarrow> cs_state slot \<noteq> CH_free \<and> cs_state slot \<noteq> CH_tombstone"

definition live_count :: "ChannelTable \<Rightarrow> nat" where
  "live_count t = length (filter slot_live (ct_slots t))"

section \<open>Slots and identifiers\<close>

lemma slot_index_Some:
  "slot_index t cid = Some i \<longleftrightarrow> i < length (ct_slots t) \<and> cid_number cid \<noteq> 0 \<and>
     unat (cid_number cid) = Suc i"
proof -
  have "unat (cid_number cid - 1) = unat (cid_number cid) - 1" if "cid_number cid \<noteq> 0"
    using that by (simp add: unat_minus_one)
  moreover have "0 < unat (cid_number cid)" if "cid_number cid \<noteq> 0"
    using that by (simp add: unat_gt_0)
  ultimately show ?thesis by (auto simp: slot_index_def)
qed

lemma find_slot_Some:
  "find_slot t cid = Some slot \<longleftrightarrow> (\<exists>i. slot_index t cid = Some i \<and> slot = ct_slots t ! i \<and>
     cid_generation (cs_id slot) = cid_generation cid \<and> slot_live slot)"
  by (auto simp: find_slot_def slot_live_def Let_def split: option.splits if_splits)

lemma update_slot_index:
  "slot_index t cid = Some i \<Longrightarrow> update_slot t cid slot = t\<lparr>ct_slots := (ct_slots t)[i := slot]\<rparr>"
  by (simp add: update_slot_def slot_index_def split: if_splits)

lemma first_free_Some:
  "first_free slots k = Some i \<longleftrightarrow> k \<le> i \<and> i - k < length slots \<and> cs_state (slots ! (i - k)) = CH_free \<and>
     (\<forall>j < i - k. cs_state (slots ! j) \<noteq> CH_free)"
proof (induction slots arbitrary: k)
  case Nil
  then show ?case by simp
next
  case (Cons slot slots)
  show ?case
  proof (cases "cs_state slot = CH_free")
    case True
    then show ?thesis by (cases "i - k") (auto)
  next
    case False
    have "Suc k \<le> i \<longleftrightarrow> k \<le> i \<and> i - k \<noteq> 0" by auto
    moreover have "i - k = Suc (i - Suc k)" if "Suc k \<le> i" using that by simp
    ultimately show ?thesis using False Cons.IH[of "Suc k"]
      by (cases "i - k") (auto simp: less_Suc_eq_0_disj)
  qed
qed

section \<open>Transitions of one slot\<close>

text \<open>The abstract life cycle of a slot. Every operation of the table is at most one of these
  steps on one slot.\<close>

inductive slot_step :: "ChannelTable \<Rightarrow> ChannelSlot \<Rightarrow> ChannelSlot \<Rightarrow> bool" for t where
  step_open: "cs_state slot = CH_free \<Longrightarrow> st = CH_opening \<or> st = CH_open \<Longrightarrow>
    slot_step t slot (opened_slot t ((cs_id slot)\<lparr>cid_generation := cid_generation (cs_id slot) + 1\<rparr>)
      st slot)"
| step_activate: "cs_state slot = CH_opening \<Longrightarrow> slot_step t slot (slot\<lparr>cs_state := CH_open\<rparr>)"
| step_sequence: "slot_live slot \<Longrightarrow> cs_next_send_seq slot \<noteq> 0xFFFFFFFF \<Longrightarrow>
    slot_step t slot (slot\<lparr>cs_next_send_seq := cs_next_send_seq slot + 1\<rparr>)"
| step_close_local: "cs_state slot \<in> {CH_open, CH_local_closed, CH_remote_closed} \<Longrightarrow>
    slot_step t slot (slot\<lparr>cs_local_half_closed := True,
      cs_state := (if cs_remote_half_closed slot then CH_closing else CH_local_closed)\<rparr>)"
| step_close_remote: "cs_state slot \<in> {CH_open, CH_local_closed, CH_remote_closed} \<Longrightarrow>
    slot_step t slot (slot\<lparr>cs_remote_half_closed := True,
      cs_state := (if cs_local_half_closed slot then CH_closing else CH_remote_closed)\<rparr>)"
| step_reset: "slot_live slot \<Longrightarrow> slot_step t slot
    (slot\<lparr>cs_state := CH_tombstone, cs_flow := flow_account (ct_channel_window t),
          cs_reassembler := reassembler (ct_max_message t)\<rparr>)"
| step_retire: "cs_state slot = CH_tombstone \<Longrightarrow> slot_step t slot (slot\<lparr>cs_state := CH_free\<rparr>)"

inductive_cases slot_stepE: "slot_step t slot slot'"

text \<open>Flags and state of a slot agree.\<close>

fun flags_agree :: "ChannelState \<Rightarrow> bool \<Rightarrow> bool \<Rightarrow> bool" where
  "flags_agree CH_opening l r = (\<not> l \<and> \<not> r)"
| "flags_agree CH_open l r = (\<not> l \<and> \<not> r)"
| "flags_agree CH_local_closed l r = (l \<and> \<not> r)"
| "flags_agree CH_remote_closed l r = (\<not> l \<and> r)"
| "flags_agree CH_closing l r = (l \<and> r)"
| "flags_agree CH_free l r = True"
| "flags_agree CH_tombstone l r = True"

definition slot_ok :: "ChannelTable \<Rightarrow> nat \<Rightarrow> ChannelSlot \<Rightarrow> bool" where
  "slot_ok t i slot \<longleftrightarrow> cid_number (cs_id slot) = of_nat (Suc i) \<and>
     flags_agree (cs_state slot) (cs_local_half_closed slot) (cs_remote_half_closed slot) \<and>
     flow_ok (cs_flow slot) \<and> fa_window (cs_flow slot) = ct_channel_window t \<and>
     reassembler_ok (cs_reassembler slot) \<and>
     ra_max_message (cs_reassembler slot) = ct_max_message t"

definition table_ok :: "ChannelTable \<Rightarrow> bool" where
  "table_ok t \<longleftrightarrow> length (ct_slots t) < 2 ^ 16 \<and> ct_channel_window t \<le> SIZE_MAX \<and>
     ct_max_message t \<le> SIZE_MAX \<and> (\<forall>i < length (ct_slots t). slot_ok t i (ct_slots t ! i))"

lemma table_ok_new:
  "window \<le> SIZE_MAX \<Longrightarrow> max_message \<le> SIZE_MAX \<Longrightarrow> table_ok (channel_table n window max_message)"
  using unat_u16_less[of n]
  by (auto simp: table_ok_def channel_table_def slot_ok_def new_slot_def flow_account_def[of window]
      flow_ok_def) (simp_all add: reassembler_def)

lemma table_ok_number:
  "table_ok t \<Longrightarrow> slot_index t cid = Some i \<Longrightarrow> cid_number (cs_id (ct_slots t ! i)) = cid_number cid"
proof -
  assume ok: "table_ok t" and i: "slot_index t cid = Some i"
  have "cid_number (cs_id (ct_slots t ! i)) = of_nat (Suc i)"
    using ok i by (simp add: table_ok_def slot_index_Some slot_ok_def del: of_nat_Suc)
  also have "Suc i = unat (cid_number cid)" using i by (simp add: slot_index_Some)
  finally show ?thesis by simp
qed

lemma slot_step_ok:
  assumes "slot_step t slot slot'" "slot_ok t i slot" "table_ok t"
  shows "slot_ok t i slot'"
  using assms
  by (cases rule: slot_step.cases)
    (auto simp: slot_ok_def table_ok_def opened_slot_def flow_account_def[of "ct_channel_window t"]
      flow_ok_def reassembler_def[of "ct_max_message t", symmetric],
     auto simp: reassembler_def)

section \<open>Operations are slot transitions\<close>

datatype ChannelOp =
    Ch_allocate | Ch_accept ChannelId | Ch_activate ChannelId | Ch_reserve_sequence ChannelId
  | Ch_half_close ChannelId Direction | Ch_reset ChannelId | Ch_retire ChannelId

fun channel_apply :: "ChannelTable \<Rightarrow> ChannelOp \<Rightarrow> ChannelTable" where
  "channel_apply t Ch_allocate = fst (allocate t)"
| "channel_apply t (Ch_accept cid) = fst (accept_remote t cid)"
| "channel_apply t (Ch_activate cid) = fst (activate t cid)"
| "channel_apply t (Ch_reserve_sequence cid) = fst (reserve_send_sequence t cid)"
| "channel_apply t (Ch_half_close cid direction) = fst (half_close t cid direction)"
| "channel_apply t (Ch_reset cid) = fst (reset_channel t cid)"
| "channel_apply t (Ch_retire cid) = fst (retire_tombstone t cid)"

definition table_step :: "ChannelTable \<Rightarrow> ChannelTable \<Rightarrow> bool" where
  "table_step t t' \<longleftrightarrow> t' = t \<or> (\<exists>i slot'. i < length (ct_slots t) \<and>
     slot_step t (ct_slots t ! i) slot' \<and> t' = t\<lparr>ct_slots := (ct_slots t)[i := slot']\<rparr>)"

lemma table_stepI:
  "i < length (ct_slots t) \<Longrightarrow> slot_step t (ct_slots t ! i) slot' \<Longrightarrow>
     table_step t (t\<lparr>ct_slots := (ct_slots t)[i := slot']\<rparr>)"
  by (auto simp: table_step_def)

lemma table_step_refl [simp]: "table_step t t"
  by (simp add: table_step_def)

lemma table_step_found:
  assumes "find_slot t cid = Some slot" "slot_step t slot slot'"
  shows "table_step t (update_slot t cid slot')"
  using assms by (auto simp: find_slot_Some update_slot_index slot_index_Some intro: table_stepI)

lemma accept_id:
  assumes "table_ok t" "slot_index t cid = Some i"
    and "cid_generation cid = cid_generation (cs_id (ct_slots t ! i)) + 1"
  shows "cid = (cs_id (ct_slots t ! i))\<lparr>cid_generation := cid_generation (cs_id (ct_slots t ! i)) + 1\<rparr>"
  using table_ok_number[OF assms(1,2)] assms(3) by (cases cid; cases "cs_id (ct_slots t ! i)") simp

lemma channel_apply_step: "table_ok t \<Longrightarrow> table_step t (channel_apply t op)"
proof (cases op)
  case Ch_allocate
  then show ?thesis
    by (auto simp: allocate_def Let_def first_free_Some intro!: table_stepI step_open
        split: option.splits)
next
  case (Ch_accept cid)
  assume ok: "table_ok t"
  show ?thesis
    using Ch_accept accept_id[OF ok, of cid]
    by (auto simp: accept_remote_def Let_def slot_index_Some intro!: table_stepI split: option.splits)
      (metis step_open)
next
  case (Ch_activate cid)
  then show ?thesis
    by (auto simp: activate_def intro!: table_step_found slot_step.intros split: option.splits)
next
  case (Ch_reserve_sequence cid)
  then show ?thesis
    by (auto simp: reserve_send_sequence_def find_slot_Some intro!: table_step_found slot_step.intros
        split: option.splits)
next
  case (Ch_half_close cid direction)
  show ?thesis
  proof (cases "find_slot t cid")
    case None
    then show ?thesis using Ch_half_close by (simp add: half_close_def)
  next
    case (Some slot)
    show ?thesis
    proof (cases "cs_state slot \<in> {CH_open, CH_local_closed, CH_remote_closed}")
      case True
      then show ?thesis
        using table_step_found[OF Some step_close_local[OF True]]
          table_step_found[OF Some step_close_remote[OF True]] Ch_half_close Some
        by (cases direction) (auto simp: half_close_def)
    qed (use Ch_half_close Some in \<open>simp add: half_close_def\<close>)
  qed
next
  case (Ch_reset cid)
  then show ?thesis
    by (auto simp: reset_channel_def find_slot_Some intro!: table_step_found slot_step.intros
        split: option.splits)
next
  case (Ch_retire cid)
  then show ?thesis
    by (auto simp: retire_tombstone_def Let_def slot_index_Some intro!: table_stepI step_retire
        split: option.splits)
qed

lemma table_step_ok: "table_step t t' \<Longrightarrow> table_ok t \<Longrightarrow> table_ok t'"
proof (unfold table_step_def, elim disjE exE conjE)
  fix i slot' assume ok: "table_ok t" and i: "i < length (ct_slots t)"
    and step: "slot_step t (ct_slots t ! i) slot'" and t': "t' = t\<lparr>ct_slots := (ct_slots t)[i := slot']\<rparr>"
  have "slot_ok t i slot'" using slot_step_ok[OF step _ ok] ok i by (simp add: table_ok_def)
  then show "table_ok t'" using ok i by (auto simp: table_ok_def t' nth_list_update slot_ok_def)
qed simp

lemma channel_apply_ok: "table_ok t \<Longrightarrow> table_ok (channel_apply t op)"
  using channel_apply_step table_step_ok by blast

lemma channel_history_ok: "table_ok t \<Longrightarrow> table_ok (foldl channel_apply t ops)"
  by (induction ops arbitrary: t) (simp_all add: channel_apply_ok)

text \<open>Remark. In every history of a table, each slot keeps its number, its state tells
  exactly which directions are half closed (both when closing, none when opening or open), its
  credit fits its window and its reassembler keeps its budget.\<close>

theorem channel_slots_consistent:
  assumes "window \<le> SIZE_MAX" and "max_message \<le> SIZE_MAX"
    and "t = foldl channel_apply (channel_table n window max_message) ops"
    and "i < length (ct_slots t)"
  shows "cid_number (cs_id (ct_slots t ! i)) = of_nat (Suc i) \<and>
    flags_agree (cs_state (ct_slots t ! i)) (cs_local_half_closed (ct_slots t ! i))
      (cs_remote_half_closed (ct_slots t ! i)) \<and>
    flow_ok (cs_flow (ct_slots t ! i)) \<and> reassembler_ok (cs_reassembler (ct_slots t ! i))"
proof -
  have "table_ok t" using channel_history_ok[OF table_ok_new] assms(1-3) by simp
  then show ?thesis using assms(4) by (simp add: table_ok_def slot_ok_def del: of_nat_Suc)
qed

section \<open>Stale identifiers\<close>

text \<open>A slot since a reset at generation \<open>g\<close>: either still dead at \<open>g\<close>, or reopened between one
  and \<open>k\<close> times.\<close>

definition outlived :: "u8 \<Rightarrow> nat \<Rightarrow> ChannelSlot \<Rightarrow> bool" where
  "outlived g k slot \<longleftrightarrow> (\<exists>m \<le> k. cid_generation (cs_id slot) = g + of_nat m \<and>
     (m = 0 \<longrightarrow> \<not> slot_live slot))"

lemma outlived_step:
  assumes "outlived g k slot" "slot_step t slot slot'"
  shows "outlived g (Suc k) slot'"
proof -
  obtain m where m: "m \<le> k" "cid_generation (cs_id slot) = g + of_nat m"
    "m = 0 \<longrightarrow> \<not> slot_live slot"
    using assms(1) by (auto simp: outlived_def)
  from assms(2) show ?thesis
  proof (cases rule: slot_step.cases)
    case (step_open st)
    then show ?thesis
      using m by (auto simp: outlived_def opened_slot_def intro!: exI[of _ "Suc m"])
  next
    case step_retire
    then show ?thesis using m by (auto simp: outlived_def slot_live_def intro!: exI[of _ m])
  next
    case step_reset
    then show ?thesis using m by (auto simp: outlived_def slot_live_def intro!: exI[of _ m])
  qed (use m in \<open>auto simp: outlived_def slot_live_def intro!: exI[of _ m]\<close>)
qed

lemma outlived_not_live: "outlived g k slot \<Longrightarrow> k < 256 \<Longrightarrow> cid_generation (cs_id slot) = g \<Longrightarrow> \<not> slot_live slot"
proof -
  assume a: "outlived g k slot" "k < 256" "cid_generation (cs_id slot) = g"
  then obtain m where m: "m < 256" "g = g + of_nat m" "m = 0 \<longrightarrow> \<not> slot_live slot"
    unfolding outlived_def by (metis le_less_trans)
  then have "(of_nat m :: u8) = 0" by (metis add_cancel_right_right)
  then have "unat (of_nat m :: u8) = 0" by simp
  then have "m = 0" using m(1) by (simp add: unat_of_nat)
  with m(3) show ?thesis by simp
qed

lemma outlived_history:
  "table_ok t \<Longrightarrow> i < length (ct_slots t) \<Longrightarrow> outlived g k (ct_slots t ! i) \<Longrightarrow>
     i < length (ct_slots (foldl channel_apply t ops)) \<and>
     outlived g (k + length ops) (ct_slots (foldl channel_apply t ops) ! i)"
proof (induction ops arbitrary: t k)
  case Nil
  then show ?case by simp
next
  case (Cons op ops)
  let ?t = "channel_apply t op"
  have step: "table_step t ?t" using channel_apply_step Cons.prems(1) .
  then have ok: "table_ok ?t" using table_step_ok Cons.prems(1) by blast
  have "i < length (ct_slots ?t) \<and> outlived g (Suc k) (ct_slots ?t ! i)"
    using step unfolding table_step_def
  proof (elim disjE exE conjE)
    assume "?t = t"
    then show ?thesis using Cons.prems(2,3) by (auto simp: outlived_def intro: le_SucI)
  next
    fix j slot' assume "j < length (ct_slots t)" "slot_step t (ct_slots t ! j) slot'"
      "?t = t\<lparr>ct_slots := (ct_slots t)[j := slot']\<rparr>"
    then show ?thesis
      using Cons.prems(2,3) outlived_step[of g k "ct_slots t ! i" t slot']
      by (auto simp: nth_list_update) (auto simp: outlived_def intro: le_SucI)
  qed
  then show ?case using Cons.IH[OF ok, of "Suc k"] by simp
qed

text \<open>Remark. A reset identifier stays dead: after a successful reset, no sequence of fewer
  than 256 further operations on the table (allocations, remote opens and retirements included)
  makes \<open>find\<close> return a slot for it again.\<close>

theorem reset_channel_stays_dead:
  assumes "table_ok t" and "reset_channel t cid = (t', Inr ())" and "length ops < 256"
  shows "find_slot (foldl channel_apply t' ops) cid = None"
proof -
  obtain slot i where f: "find_slot t cid = Some slot" and i: "slot_index t cid = Some i"
    and slot: "slot = ct_slots t ! i" "cid_generation (cs_id slot) = cid_generation cid"
    using assms(2) by (auto simp: reset_channel_def find_slot_Some split: option.splits)
  have t': "t' = channel_apply t (Ch_reset cid)" using assms(2) by simp
  have ok: "table_ok t'" unfolding t' using channel_apply_step table_step_ok assms(1) by blast
  have i': "i < length (ct_slots t')" "outlived (cid_generation cid) 0 (ct_slots t' ! i)"
    using assms(2) f i slot
    by (auto simp: reset_channel_def update_slot_index slot_index_Some outlived_def slot_live_def)
  note hist = outlived_history[OF ok i', of ops]
  let ?h = "foldl channel_apply t' ops"
  show ?thesis
  proof (rule ccontr)
    assume "find_slot ?h cid \<noteq> None"
    then obtain j where j: "slot_index ?h cid = Some j"
      "cid_generation (cs_id (ct_slots ?h ! j)) = cid_generation cid" "slot_live (ct_slots ?h ! j)"
      by (auto simp: find_slot_Some)
    have "j = i" using i j(1) by (simp add: slot_index_Some)
    then show False using outlived_not_live[of "cid_generation cid" "length ops"] hist j assms(3) by simp
  qed
qed

section \<open>Allocation and sequences\<close>

lemma filter_length_upd:
  "i < length xs \<Longrightarrow> length (filter P (xs[i := y])) + (if P (xs ! i) then 1 else 0)
    = length (filter P xs) + (if P y then 1 else 0)"
proof (induction xs arbitrary: i)
  case (Cons x xs)
  then show ?case by (cases i) auto
qed simp

lemma live_count_upd:
  assumes "i < length (ct_slots t)"
  shows "live_count (t\<lparr>ct_slots := (ct_slots t)[i := slot']\<rparr>) + (if slot_live (ct_slots t ! i) then 1 else 0)
    = live_count t + (if slot_live slot' then 1 else 0)"
  using filter_length_upd[OF assms, of slot_live slot'] by (simp add: live_count_def)

text \<open>Remark. \<open>allocate\<close> takes the first free slot: it fails with no change when there is
  none, or when that slot has used up its generations; otherwise the identifier returned is the
  slot's number with the next generation, it is found as an opening channel with fresh sequences,
  full credit and an empty reassembler, exactly one more slot is live, and every other slot is
  untouched.\<close>

theorem allocate_spec:
  assumes "table_ok t"
  shows "case first_free (ct_slots t) 0 of
      None \<Rightarrow> (\<forall>slot \<in> set (ct_slots t). cs_state slot \<noteq> CH_free) \<and>
        allocate t = (t, Inl (make_error ES_connection EC_resource_limit CA_none
                                ''no free channel slots''))
    | Some i \<Rightarrow> i < length (ct_slots t) \<and> cs_state (ct_slots t ! i) = CH_free \<and>
        (if cid_generation (cs_id (ct_slots t ! i)) = 0xFF
         then \<exists>e. allocate t = (t, Inl e) \<and> err_code e = EC_resource_limit
         else \<exists>t' cid slot. allocate t = (t', Inr cid) \<and> cid_number cid = of_nat (Suc i) \<and>
           cid_generation cid = cid_generation (cs_id (ct_slots t ! i)) + 1 \<and>
           find_slot t' cid = Some slot \<and> cs_state slot = CH_opening \<and>
           cs_next_send_seq slot = 1 \<and> cs_next_recv_seq slot = 1 \<and>
           cs_flow slot = flow_account (ct_channel_window t) \<and>
           cs_reassembler slot = reassembler (ct_max_message t) \<and>
           live_count t' = live_count t + 1 \<and>
           (\<forall>j. j \<noteq> i \<longrightarrow> ct_slots t' ! j = ct_slots t ! j))"
proof (cases "first_free (ct_slots t) 0")
  case None
  have "first_free slots k = None \<Longrightarrow> \<forall>slot \<in> set slots. cs_state slot \<noteq> CH_free" for slots k
    by (induction slots k rule: first_free.induct) (auto split: if_splits)
  with None show ?thesis by (simp add: allocate_def)
next
  case (Some i)
  then have i: "i < length (ct_slots t)" "cs_state (ct_slots t ! i) = CH_free"
    by (simp_all add: first_free_Some)
  show ?thesis
  proof (cases "cid_generation (cs_id (ct_slots t ! i)) = 0xFF")
    case True
    then show ?thesis using Some i by (simp add: allocate_def Let_def)
  next
    case False
    let ?g = "cid_generation (cs_id (ct_slots t ! i)) + 1"
    let ?cid = "(cs_id (ct_slots t ! i))\<lparr>cid_generation := ?g\<rparr>"
    let ?slot = "opened_slot t ?cid CH_opening (ct_slots t ! i)"
    let ?t = "t\<lparr>ct_slots := (ct_slots t)[i := ?slot]\<rparr>"
    have alloc: "allocate t = (?t, Inr ?cid)" using Some False by (simp add: allocate_def Let_def)
    have num: "cid_number ?cid = of_nat (Suc i)" and len: "Suc i < 2 ^ 32"
      using assms i by (simp_all add: table_ok_def slot_ok_def del: of_nat_Suc)
    have "unat (of_nat (Suc i) :: u32) = Suc i" using len by (rule unat_of_nat_u32)
    then have idx: "slot_index ?t ?cid = Some i"
      unfolding slot_index_Some num using i(1) by (metis Suc_neq_Zero length_list_update
          ChannelTable.select_convs(1) ChannelTable.surjective ChannelTable.update_convs(1) unat_0)
    have "find_slot ?t ?cid = Some ?slot"
      using idx i(1) by (simp add: find_slot_Some slot_live_def opened_slot_def)
    moreover have "live_count ?t = live_count t + 1"
      using live_count_upd[OF i(1), of ?slot] i(2) by (simp add: slot_live_def opened_slot_def)
    ultimately show ?thesis
      unfolding Some option.case
      using i alloc num False by (auto simp: opened_slot_def simp del: of_nat_Suc)
  qed
qed

fun reserve_many :: "ChannelTable \<Rightarrow> ChannelId \<Rightarrow> nat \<Rightarrow> ChannelTable \<times> u32 result list" where
  "reserve_many t cid 0 = (t, [])"
| "reserve_many t cid (Suc n) =
     (let (t', r) = reserve_send_sequence t cid; (t'', rs) = reserve_many t' cid n in (t'', r # rs))"

lemma reserve_sequence_ok:
  assumes "find_slot t cid = Some slot" "cs_next_send_seq slot \<noteq> 0xFFFFFFFF"
  shows "\<exists>t' slot'. reserve_send_sequence t cid = (t', Inr (cs_next_send_seq slot)) \<and>
    find_slot t' cid = Some slot' \<and> cs_next_send_seq slot' = cs_next_send_seq slot + 1"
proof -
  obtain i where i: "slot_index t cid = Some i" "slot = ct_slots t ! i"
    "cid_generation (cs_id slot) = cid_generation cid" "slot_live slot"
    using assms(1) by (auto simp: find_slot_Some)
  let ?slot = "slot\<lparr>cs_next_send_seq := cs_next_send_seq slot + 1\<rparr>"
  have "find_slot (update_slot t cid ?slot) cid = Some ?slot"
    using i by (auto simp: find_slot_Some update_slot_index slot_index_Some slot_live_def)
  then show ?thesis using assms by (simp add: reserve_send_sequence_def)
qed

lemma reserve_many_consecutive:
  "find_slot t cid = Some slot \<Longrightarrow> unat (cs_next_send_seq slot) + n < 2 ^ 32 \<Longrightarrow>
     snd (reserve_many t cid n) = map (\<lambda>k. Inr (cs_next_send_seq slot + of_nat k)) [0..<n]"
proof (induction n arbitrary: t slot)
  case 0
  then show ?case by simp
next
  case (Suc n)
  have nm: "cs_next_send_seq slot \<noteq> 0xFFFFFFFF" using Suc.prems(2) by auto
  obtain t' slot' where r: "reserve_send_sequence t cid = (t', Inr (cs_next_send_seq slot))"
    "find_slot t' cid = Some slot'" "cs_next_send_seq slot' = cs_next_send_seq slot + 1"
    using reserve_sequence_ok[OF Suc.prems(1) nm] by blast
  have "unat (cs_next_send_seq slot + 1) = unat (cs_next_send_seq slot) + 1"
    using Suc.prems(2) by (simp add: unat_word_ariths)
  then have "snd (reserve_many t' cid n) = map (\<lambda>k. Inr (cs_next_send_seq slot + 1 + of_nat k)) [0..<n]"
    using Suc.IH[OF r(2)] Suc.prems(2) r(3) by simp
  moreover have "[0..<Suc n] = 0 # map Suc [0..<n]" by (simp only: upt_conv_Cons map_Suc_upt)
  ultimately show ?case
    using r(1) by (cases "reserve_many t' cid n") (simp add: o_def add.assoc del: upt_Suc)
qed

text \<open>Remark. Send sequences of a channel are consecutive and never repeat: \<open>n\<close>
  reservations on a live channel return its next \<open>n\<close> numbers, all different, and once the
  counter stands at its maximum every reservation is refused instead of wrapping.\<close>

theorem send_sequences_unique:
  assumes "find_slot t cid = Some slot"
  shows "(unat (cs_next_send_seq slot) + n < 2 ^ 32 \<longrightarrow>
      snd (reserve_many t cid n) = map (\<lambda>k. Inr (cs_next_send_seq slot + of_nat k)) [0..<n] \<and>
      distinct (snd (reserve_many t cid n))) \<and>
    (cs_next_send_seq slot = 0xFFFFFFFF \<longrightarrow> fst (reserve_send_sequence t cid) = t \<and>
      \<not> is_ok (snd (reserve_send_sequence t cid)))"
proof (intro conjI impI)
  assume n: "unat (cs_next_send_seq slot) + n < 2 ^ 32"
  show "snd (reserve_many t cid n) = map (\<lambda>k. Inr (cs_next_send_seq slot + of_nat k)) [0..<n]"
    using assms n by (rule reserve_many_consecutive)
  then show "distinct (snd (reserve_many t cid n))"
  proof -
    have "inj_on (\<lambda>k. Inr (cs_next_send_seq slot + of_nat k) :: u32 result) {0..<n}"
    proof (rule inj_onI)
      fix j k assume jk: "j \<in> {0..<n}" "k \<in> {0..<n}"
        "(Inr (cs_next_send_seq slot + of_nat j) :: u32 result) = Inr (cs_next_send_seq slot + of_nat k)"
      then have "(of_nat j :: u32) = of_nat k" by simp
      then have "unat (of_nat j :: u32) = unat (of_nat k :: u32)" by simp
      then show "j = k" using jk n by (simp add: unat_of_nat)
    qed
    then show ?thesis
      using \<open>snd (reserve_many t cid n) = _\<close> by (simp add: distinct_map)
  qed
qed (use assms in \<open>simp_all add: reserve_send_sequence_def\<close>)

section \<open>Worn generations\<close>

text \<open>A peer that opens, resets and retires channel 1 over and over.\<close>

fun recycle :: "nat \<Rightarrow> ChannelOp list" where
  "recycle g = [Ch_accept \<lparr>cid_number = 1, cid_generation = of_nat (Suc g)\<rparr>,
     Ch_reset \<lparr>cid_number = 1, cid_generation = of_nat (Suc g)\<rparr>,
     Ch_retire \<lparr>cid_number = 1, cid_generation = of_nat (Suc g)\<rparr>]"

definition worn :: "nat \<Rightarrow> nat \<Rightarrow> ChannelTable \<Rightarrow> bool" where
  "worn n g t \<longleftrightarrow> length (ct_slots t) = n \<and> cs_id (ct_slots t ! 0) = \<lparr>cid_number = 1, cid_generation = of_nat g\<rparr> \<and>
     cs_state (ct_slots t ! 0) = CH_free \<and>
     (\<forall>i. 0 < i \<and> i < n \<longrightarrow> cs_state (ct_slots t ! i) = CH_free \<and> cid_generation (cs_id (ct_slots t ! i)) = 0)"

lemma worn_recycle:
  assumes "worn n g t" "0 < n"
  shows "worn n (Suc g) (foldl channel_apply t (recycle g))"
proof -
  let ?c = "\<lparr>cid_number = 1, cid_generation = of_nat (Suc g)\<rparr> :: ChannelId"
  have idx: "slot_index t' ?c = Some 0" if "length (ct_slots t') = n" for t'
    using that assms(2) by (simp add: slot_index_Some del: of_nat_Suc)
  let ?s = "opened_slot t ?c CH_open (ct_slots t ! 0)"
  let ?t1 = "t\<lparr>ct_slots := (ct_slots t)[0 := ?s]\<rparr>"
  have len: "length (ct_slots t) = n" using assms(1) by (simp add: worn_def)
  have 1: "channel_apply t (Ch_accept ?c) = ?t1"
    using assms idx[OF len] by (simp add: accept_remote_def worn_def Let_def add.commute)
  have f: "find_slot ?t1 ?c = Some ?s"
    using idx[of ?t1] len assms(2) by (simp add: find_slot_Some opened_slot_def slot_live_def del: of_nat_Suc)
  let ?s2 = "?s\<lparr>cs_state := CH_tombstone, cs_flow := flow_account (ct_channel_window ?t1),
                cs_reassembler := reassembler (ct_max_message ?t1)\<rparr>"
  have 2: "channel_apply ?t1 (Ch_reset ?c) = t\<lparr>ct_slots := (ct_slots t)[0 := ?s2]\<rparr>"
    using f idx[of ?t1] len by (simp add: reset_channel_def update_slot_index del: of_nat_Suc)
  have 3: "channel_apply (t\<lparr>ct_slots := (ct_slots t)[0 := ?s2]\<rparr>) (Ch_retire ?c)
      = t\<lparr>ct_slots := (ct_slots t)[0 := ?s2\<lparr>cs_state := CH_free\<rparr>]\<rparr>"
    using idx[of "t\<lparr>ct_slots := (ct_slots t)[0 := ?s2]\<rparr>"] len assms(2)
    by (simp add: retire_tombstone_def Let_def opened_slot_def del: of_nat_Suc)
  have "foldl channel_apply t (recycle g) = t\<lparr>ct_slots := (ct_slots t)[0 := ?s2\<lparr>cs_state := CH_free\<rparr>]\<rparr>"
    unfolding recycle.simps foldl.simps 1 2 3 ..
  then show ?thesis
    using assms by (auto simp: worn_def opened_slot_def nth_list_update simp del: of_nat_Suc)
qed

lemma worn_history:
  "worn n 0 t \<Longrightarrow> 0 < n \<Longrightarrow> worn n k (foldl channel_apply t (concat (map recycle [0..<k])))"
proof (induction k)
  case (Suc k)
  then show ?case using worn_recycle[of n k] by simp
qed simp

lemma worn_new: "0 < unat n \<Longrightarrow> worn (unat n) 0 (channel_table n window max_message)"
  by (simp add: worn_def channel_table_def new_slot_def)

text \<open>Remark. One exhausted slot blocks the table: after a peer has recycled channel 1 up to
  generation 255, \<open>allocate\<close> answers that the generation wrapped although every other slot is
  free and fresh.\<close>

theorem worn_slot_blocks_allocation:
  assumes "1 < unat n"
  shows "let t = foldl channel_apply (channel_table n window max_message) (concat (map recycle [0..<255]))
    in (\<exists>e. allocate t = (t, Inl e) \<and> err_code e = EC_resource_limit) \<and>
       cs_state (ct_slots t ! 1) = CH_free \<and> cid_generation (cs_id (ct_slots t ! 1)) = 0"
proof -
  let ?t = "foldl channel_apply (channel_table n window max_message) (concat (map recycle [0..<255]))"
  note n = assms
  have w: "worn (unat n) 255 ?t" using n by (intro worn_history worn_new) simp_all
  then have "first_free (ct_slots ?t) 0 = Some 0"
    using n by (cases "ct_slots ?t") (auto simp: worn_def)
  then show ?thesis using w n by (simp add: Let_def allocate_def worn_def)
qed

theorem worn_slot_blocks_allocation_witness:
  "let t = foldl channel_apply (channel_table 2 100 100) (concat (map recycle [0..<255]))
   in (\<exists>e. allocate t = (t, Inl e) \<and> err_code e = EC_resource_limit) \<and>
      cs_state (ct_slots t ! 1) = CH_free \<and> cid_generation (cs_id (ct_slots t ! 1)) = 0"
  by (rule worn_slot_blocks_allocation) simp

text \<open>Remark. The bound of 256 on stale identifiers is sharp: \<open>accept_remote\<close> lets the
  generation wrap, so after 256 rounds the identifier that was reset in the first round can be
  opened again and is live.\<close>

theorem generation_wraps:
  "let t = foldl channel_apply (channel_table 1 window max_message)
             (concat (map recycle [0..<256]) @ [Ch_accept \<lparr>cid_number = 1, cid_generation = 1\<rparr>])
   in find_slot t \<lparr>cid_number = 1, cid_generation = 1\<rparr> \<noteq> None"
proof -
  let ?t = "foldl channel_apply (channel_table 1 window max_message) (concat (map recycle [0..<256]))"
  have w: "worn (unat (1 :: u16)) 256 ?t" by (intro worn_history worn_new) simp_all
  let ?c = "\<lparr>cid_number = 1, cid_generation = 1\<rparr> :: ChannelId"
  let ?s = "opened_slot ?t ?c CH_open (ct_slots ?t ! 0)"
  have len: "length (ct_slots ?t) = 1" using w by (simp add: worn_def)
  then have idx: "slot_index ?t ?c = Some 0" by (simp add: slot_index_Some)
  have "accept_remote ?t ?c = (?t\<lparr>ct_slots := (ct_slots ?t)[0 := ?s]\<rparr>, Inr ())"
    using w idx by (simp add: accept_remote_def worn_def)
  moreover have "find_slot (?t\<lparr>ct_slots := (ct_slots ?t)[0 := ?s]\<rparr>) ?c = Some ?s"
    using len by (simp add: find_slot_Some slot_index_Some opened_slot_def slot_live_def)
  ultimately show ?thesis by (simp add: Let_def)
qed

section \<open>Concrete tables\<close>

theorem channel_slots_consistent_witness:
  "cid_number (cs_id (ct_slots (foldl channel_apply (channel_table 4 100 50)
      [Ch_allocate, Ch_activate \<lparr>cid_number = 1, cid_generation = 1\<rparr>]) ! 0)) = of_nat (Suc 0) \<and>
   flags_agree (cs_state (ct_slots (foldl channel_apply (channel_table 4 100 50)
      [Ch_allocate, Ch_activate \<lparr>cid_number = 1, cid_generation = 1\<rparr>]) ! 0))
     (cs_local_half_closed (ct_slots (foldl channel_apply (channel_table 4 100 50)
      [Ch_allocate, Ch_activate \<lparr>cid_number = 1, cid_generation = 1\<rparr>]) ! 0))
     (cs_remote_half_closed (ct_slots (foldl channel_apply (channel_table 4 100 50)
      [Ch_allocate, Ch_activate \<lparr>cid_number = 1, cid_generation = 1\<rparr>]) ! 0)) \<and>
   flow_ok (cs_flow (ct_slots (foldl channel_apply (channel_table 4 100 50)
      [Ch_allocate, Ch_activate \<lparr>cid_number = 1, cid_generation = 1\<rparr>]) ! 0)) \<and>
   reassembler_ok (cs_reassembler (ct_slots (foldl channel_apply (channel_table 4 100 50)
      [Ch_allocate, Ch_activate \<lparr>cid_number = 1, cid_generation = 1\<rparr>]) ! 0))"
  by (rule channel_slots_consistent[OF _ _ refl])
    (simp_all add: SIZE_MAX_def channel_table_def new_slot_def allocate_def opened_slot_def
      activate_def find_slot_def slot_index_def update_slot_def Let_def upt_rec)

lemma sample_table_ok: "table_ok (channel_table 4 100 50)"
  by (rule table_ok_new) (simp_all add: SIZE_MAX_def)

theorem reset_channel_stays_dead_witness:
  "find_slot (foldl channel_apply
      (fst (reset_channel (fst (allocate (channel_table 4 100 50))) \<lparr>cid_number = 1, cid_generation = 1\<rparr>))
      [Ch_retire \<lparr>cid_number = 1, cid_generation = 1\<rparr>, Ch_allocate])
    \<lparr>cid_number = 1, cid_generation = 1\<rparr> = None"
proof (rule reset_channel_stays_dead)
  show "table_ok (fst (allocate (channel_table 4 100 50)))"
    using channel_apply_ok[OF sample_table_ok, of Ch_allocate] by simp
  show "reset_channel (fst (allocate (channel_table 4 100 50))) \<lparr>cid_number = 1, cid_generation = 1\<rparr>
    = (fst (reset_channel (fst (allocate (channel_table 4 100 50)))
        \<lparr>cid_number = 1, cid_generation = 1\<rparr>), Inr ())"
    by (simp add: reset_channel_def find_slot_def slot_index_def channel_table_def new_slot_def
        allocate_def opened_slot_def Let_def upt_rec)
qed simp

theorem allocate_spec_witness:
  "\<exists>t' cid. allocate (channel_table 4 100 50) = (t', Inr cid) \<and> live_count t' = 1"
proof -
  have "first_free (ct_slots (channel_table 4 100 50)) 0 = Some 0"
    by (simp add: channel_table_def new_slot_def upt_rec)
  moreover have "cid_generation (cs_id (ct_slots (channel_table 4 100 50) ! 0)) = 0"
    "live_count (channel_table 4 100 50) = 0"
    by (simp_all add: channel_table_def new_slot_def live_count_def slot_live_def)
  ultimately show ?thesis using allocate_spec[OF sample_table_ok] by auto
qed

theorem send_sequences_unique_witness:
  "\<exists>t slot. find_slot t \<lparr>cid_number = 1, cid_generation = 1\<rparr> = Some slot \<and>
     distinct (snd (reserve_many t \<lparr>cid_number = 1, cid_generation = 1\<rparr> 3))"
proof -
  let ?t = "fst (allocate (channel_table 4 100 50))" and ?c = "\<lparr>cid_number = 1, cid_generation = 1\<rparr>"
  obtain slot where f: "find_slot ?t ?c = Some slot" and q: "cs_next_send_seq slot = 1"
    by (simp add: find_slot_def slot_index_def channel_table_def new_slot_def
        allocate_def opened_slot_def Let_def upt_rec)
  then show ?thesis using send_sequences_unique[OF f, of 3] by auto
qed

end
