(* ===== verification/Ordered_Map.thy ===== *)
theory Ordered_Map
  imports Prelude
begin

text \<open>
  \<open>std::map\<close> as a list of pairs in key order: the program iterates over its maps, so the order
  is part of the behaviour. \<open>keyed_store\<close> is what the components rely on: what a lookup
  returns after an insertion or a removal, and that both keep the representation invariant.
\<close>

fun om_put :: "'k::linorder \<Rightarrow> 'v \<Rightarrow> ('k \<times> 'v) list \<Rightarrow> ('k \<times> 'v) list" where
  "om_put k v [] = [(k, v)]"
| "om_put k v ((k', v') # m) =
     (if k < k' then (k, v) # (k', v') # m
      else if k = k' then (k, v) # m
      else (k', v') # om_put k v m)"

definition om_get :: "('k \<times> 'v) list \<Rightarrow> 'k \<Rightarrow> 'v option" where
  "om_get m k = map_of m k"

definition om_del :: "'k \<Rightarrow> ('k \<times> 'v) list \<Rightarrow> ('k \<times> 'v) list" where
  "om_del k m = filter (\<lambda>(k', v). k' \<noteq> k) m"

definition om_ok :: "('k::linorder \<times> 'v) list \<Rightarrow> bool" where
  "om_ok m \<longleftrightarrow> sorted_wrt (<) (map fst m)"

lemma om_ok_Nil [simp]: "om_ok []"
  by (simp add: om_ok_def)

lemma om_ok_Cons: "om_ok ((k, v) # m) \<longleftrightarrow> (\<forall>k' \<in> fst ` set m. k < k') \<and> om_ok m"
  by (auto simp: om_ok_def)

lemma om_ok_distinct: "om_ok m \<Longrightarrow> distinct (map fst m)"
  unfolding om_ok_def by (simp add: strict_sorted_iff)

lemma keys_om_put [simp]: "fst ` set (om_put k v m) = insert k (fst ` set m)"
  by (induction k v m rule: om_put.induct) auto

lemma om_ok_put [simp]: "om_ok m \<Longrightarrow> om_ok (om_put k v m)"
  by (induction k v m rule: om_put.induct) (auto simp: om_ok_Cons)

lemma om_ok_del [simp]: "om_ok m \<Longrightarrow> om_ok (om_del k m)"
  by (induction m) (auto simp: om_ok_Cons om_del_def)

lemma om_get_Nil [simp]: "om_get [] k = None"
  by (simp add: om_get_def)

lemma om_get_put_map: "om_ok m \<Longrightarrow> om_get (om_put k v m) = (om_get m)(k \<mapsto> v)"
  unfolding om_get_def
proof (induction k v m rule: om_put.induct)
  case (2 k v k' v' m)
  then show ?case by (auto simp: om_ok_Cons fun_eq_iff)
qed simp

lemma om_get_del_map: "om_get (om_del k m) = (om_get m)(k := None)"
  unfolding om_get_def om_del_def by (induction m) (auto simp: fun_eq_iff)

lemma om_get_iff: "om_ok m \<Longrightarrow> om_get m k = Some v \<longleftrightarrow> (k, v) \<in> set m"
  unfolding om_get_def using om_ok_distinct by (metis map_of_eq_Some_iff)

lemma om_get_None: "om_get m k = None \<longleftrightarrow> k \<notin> fst ` set m"
  by (simp add: om_get_def map_of_eq_None_iff)

lemma om_ext: "om_ok m \<Longrightarrow> om_ok n \<Longrightarrow> om_get m = om_get n \<Longrightarrow> m = n"
proof -
  assume ok: "om_ok m" "om_ok n" and eq: "om_get m = om_get n"
  then have "set m = set n" using om_get_iff by (metis subset_antisym subsetI surj_pair)
  moreover have "inj_on fst (set m \<union> set n)"
    using om_ok_distinct[OF ok(1)] \<open>set m = set n\<close> by (simp add: distinct_map)
  moreover have "sorted (map fst m)" "sorted (map fst n)"
    using ok by (simp_all add: om_ok_def strict_sorted_iff)
  ultimately show "m = n"
    using ok om_ok_distinct map_sorted_distinct_set_unique by blast
qed

locale keyed_store =
  fixes get :: "'m \<Rightarrow> 'k \<Rightarrow> 'v option"
    and put :: "'k \<Rightarrow> 'v \<Rightarrow> 'm \<Rightarrow> 'm"
    and del :: "'k \<Rightarrow> 'm \<Rightarrow> 'm"
    and empty :: 'm
    and ok :: "'m \<Rightarrow> bool"
  assumes get_put: "ok m \<Longrightarrow> get (put k v m) = (get m)(k \<mapsto> v)"
    and get_del: "ok m \<Longrightarrow> get (del k m) = (get m)(k := None)"
    and get_empty: "get empty = Map.empty"
    and ok_put: "ok m \<Longrightarrow> ok (put k v m)"
    and ok_del: "ok m \<Longrightarrow> ok (del k m)"
    and ok_empty: "ok empty"
    and ok_ext: "ok m \<Longrightarrow> ok n \<Longrightarrow> get m = get n \<Longrightarrow> m = n"
begin

lemma put_put_same: "ok m \<Longrightarrow> put k v (put k w m) = put k v m"
  by (intro ok_ext) (simp_all add: get_put ok_put)

lemma put_commute: "ok m \<Longrightarrow> k \<noteq> l \<Longrightarrow> put k v (put l w m) = put l w (put k v m)"
  by (intro ok_ext) (auto simp: get_put ok_put fun_upd_twist)

lemma put_get_same: "ok m \<Longrightarrow> get m k = Some v \<Longrightarrow> put k v m = m"
  by (intro ok_ext) (auto simp: get_put ok_put fun_upd_idem)

lemma del_put: "ok m \<Longrightarrow> get m k = None \<Longrightarrow> del k (put k v m) = m"
  by (intro ok_ext) (auto simp: get_put get_del ok_put ok_del fun_upd_idem)

lemma del_absent: "ok m \<Longrightarrow> get m k = None \<Longrightarrow> del k m = m"
  by (intro ok_ext) (auto simp: get_del ok_del fun_upd_idem)

end

interpretation om: keyed_store om_get om_put om_del "[]" om_ok
  by unfold_locales (simp_all add: om_get_put_map om_get_del_map om_ext fun_eq_iff)

end
