(* ===== verification/Scheduler.thy ===== *)
theory Scheduler
  imports Ordered_Map
begin

text \<open>
  \<open>OutboundScheduler\<close> of \<^verbatim>\<open>src/schedule/outbound_scheduler.cpp\<close>: a control queue and one data
  queue per channel, drained under a byte budget, control first and data in round robin. A
  missing entry of \<open>expected_sequence_\<close> reads as 0, as \<open>operator[]\<close> inserts it. The lemmas
  show that the byte counter is exact and that draining in any portions neither loses, repeats
  nor reorders a byte of the control stream or of a channel.
\<close>

datatype OutboundPriority = OP_control | OP_data

record OutboundItem =
  oi_priority :: OutboundPriority
  oi_channel :: ChannelId
  oi_sequence :: u32
  oi_encoded :: bytes

record OutboundScheduler =
  os_byte_limit :: nat
  os_queued_bytes :: nat
  os_control :: "OutboundItem list"
  os_data :: "(u32 \<times> OutboundItem list) list"
  os_expected_sequence :: "u32 \<Rightarrow> u32"
  os_rr_cursor :: u32

definition outbound_scheduler :: "nat \<Rightarrow> OutboundScheduler" where
  "outbound_scheduler byte_limit =
     \<lparr>os_byte_limit = byte_limit, os_queued_bytes = 0, os_control = [], os_data = [],
      os_expected_sequence = (\<lambda>_. 0), os_rr_cursor = 0\<rparr>"

definition data_queue :: "(u32 \<times> OutboundItem list) list \<Rightarrow> u32 \<Rightarrow> OutboundItem list" where
  "data_queue data c = (case om_get data c of None \<Rightarrow> [] | Some q \<Rightarrow> q)"

definition enqueue :: "OutboundScheduler \<Rightarrow> OutboundItem \<Rightarrow> OutboundScheduler \<times> unit result" where
  "enqueue s item =
     (if oi_encoded item = []
      then (s, Inl (make_error ES_connection EC_resource_limit CA_none
                      ''scheduler item cannot be empty''))
      else case (case checked_add (os_queued_bytes s) (length (oi_encoded item)) of
                   None \<Rightarrow> None
                 | Some n \<Rightarrow> if n > os_byte_limit s then None else Some n) of
        None \<Rightarrow> (s, Inl (make_error ES_connection EC_would_block CA_none
                           ''outbound scheduler byte limit reached''))
      | Some next_bytes \<Rightarrow>
          let s' = s\<lparr>os_queued_bytes := next_bytes\<rparr> in
          if oi_priority item = OP_control
          then (s'\<lparr>os_control := os_control s' @ [item]\<rparr>, Inr ())
          else
            let c = cid_number (oi_channel item);
                queue = data_queue (os_data s') c
            in if queue \<noteq> [] \<and> oi_sequence item \<le> oi_sequence (last queue)
               then (s'\<lparr>os_queued_bytes := size_sub (os_queued_bytes s') (length (oi_encoded item))\<rparr>,
                     Inl (make_error ES_channel EC_sequence_error CA_reset_channel
                            ''data scheduler sequence regressed''))
               else (s'\<lparr>os_data := om_put c (queue @ [item]) (os_data s')\<rparr>, Inr ()))"

text \<open>The control loop: bytes used, bytes queued, the queue left, and the chunks; the flag is the
  early return after a partial item.\<close>

fun drain_control ::
  "nat \<Rightarrow> nat \<Rightarrow> nat \<Rightarrow> OutboundItem list
     \<Rightarrow> nat \<times> nat \<times> OutboundItem list \<times> OutboundItem list \<times> bool" where
  "drain_control writable used queued [] = (used, queued, [], [], False)"
| "drain_control writable used queued (item # items) =
     (if used < writable then
        let available = writable - used;
            n = min available (length (oi_encoded item));
            chunk = item\<lparr>oi_encoded := take n (oi_encoded item)\<rparr>
        in if n = length (oi_encoded item)
           then let (used', queued', left, out, stop) =
                      drain_control writable (used + n) (size_sub queued n) items
                in (used', queued', left, chunk # out, stop)
           else (used + n, size_sub queued n, item\<lparr>oi_encoded := drop n (oi_encoded item)\<rparr> # items,
                 [chunk], True)
      else (used, queued, item # items, [], False))"

definition rotate_from :: "u32 \<Rightarrow> u32 list \<Rightarrow> u32 list" where
  "rotate_from cursor channels =
     dropWhile (\<lambda>c. c < cursor) channels @ takeWhile (\<lambda>c. c < cursor) channels"

text \<open>The data loop over the channels, once each.\<close>

fun drain_channels ::
  "nat \<Rightarrow> nat \<Rightarrow> OutboundScheduler \<Rightarrow> u32 list \<Rightarrow> OutboundScheduler \<times> OutboundItem list" where
  "drain_channels writable used s [] = (s, [])"
| "drain_channels writable used s (c # cs) =
     (case data_queue (os_data s) c of
        [] \<Rightarrow> drain_channels writable used s cs
      | item # items \<Rightarrow>
          let expected = os_expected_sequence s c in
          if expected \<noteq> 0 \<and> oi_sequence item \<noteq> expected
          then drain_channels writable used s cs
          else
            let available = writable - used;
                n = min available (length (oi_encoded item))
            in if n = 0 then drain_channels writable used s cs
               else
                 let chunk = item\<lparr>oi_encoded := take n (oi_encoded item)\<rparr>;
                     s' = s\<lparr>os_queued_bytes := size_sub (os_queued_bytes s) n, os_rr_cursor := c + 1\<rparr>
                 in if n = length (oi_encoded item)
                    then let (s'', out) = drain_channels writable (used + n)
                               (s'\<lparr>os_expected_sequence :=
                                     (os_expected_sequence s')(c := oi_sequence item + 1),
                                   os_data := om_put c items (os_data s')\<rparr>) cs
                         in (s'', chunk # out)
                    else (s'\<lparr>os_data := om_put c
                               (item\<lparr>oi_encoded := drop n (oi_encoded item)\<rparr> # items) (os_data s')\<rparr>,
                          [chunk]))"

definition drain :: "OutboundScheduler \<Rightarrow> nat \<Rightarrow> OutboundScheduler \<times> OutboundItem list" where
  "drain s writable =
     (let (used, queued, left, out, stop) =
            drain_control writable 0 (os_queued_bytes s) (os_control s);
          s1 = s\<lparr>os_queued_bytes := queued, os_control := left\<rparr>
      in if stop \<or> used \<ge> writable \<or> os_data s1 = [] then (s1, out)
         else
           let channels = map fst (filter (\<lambda>(c, queue). queue \<noteq> []) (os_data s1)) in
           if channels = [] then (s1, out)
           else
             let (s2, out') = drain_channels writable used s1
                                (rotate_from (os_rr_cursor s1) channels)
             in (s2\<lparr>os_data := filter (\<lambda>(c, queue). queue \<noteq> []) (os_data s2)\<rparr>, out @ out'))"

definition scheduler_empty :: "OutboundScheduler \<Rightarrow> bool" where
  "scheduler_empty s \<longleftrightarrow> os_control s = [] \<and> list_all (\<lambda>(c, queue). queue = []) (os_data s)"

section \<open>Byte streams\<close>

definition item_bytes :: "OutboundItem list \<Rightarrow> bytes" where
  "item_bytes items = concat (map oi_encoded items)"

definition channel_bytes :: "OutboundScheduler \<Rightarrow> u32 \<Rightarrow> bytes" where
  "channel_bytes s c = item_bytes (data_queue (os_data s) c)"

definition data_size :: "(u32 \<times> OutboundItem list) list \<Rightarrow> nat" where
  "data_size data = sum_list (map (\<lambda>(c, queue). length (item_bytes queue)) data)"

definition out_bytes :: "OutboundItem list \<Rightarrow> OutboundPriority \<Rightarrow> u32 \<Rightarrow> bytes" where
  "out_bytes out p c = item_bytes (filter (\<lambda>i. oi_priority i = p \<and>
     (p = OP_data \<longrightarrow> cid_number (oi_channel i) = c)) out)"

definition items_ok :: "OutboundItem list \<Rightarrow> bool" where
  "items_ok items \<longleftrightarrow> list_all (\<lambda>i. oi_encoded i \<noteq> []) items"

definition scheduler_ok :: "OutboundScheduler \<Rightarrow> bool" where
  "scheduler_ok s \<longleftrightarrow> om_ok (os_data s) \<and>
     os_queued_bytes s = length (item_bytes (os_control s)) + data_size (os_data s) \<and>
     os_queued_bytes s \<le> os_byte_limit s \<and> os_byte_limit s \<le> SIZE_MAX \<and>
     list_all (\<lambda>i. oi_encoded i \<noteq> [] \<and> oi_priority i = OP_control) (os_control s) \<and>
     (\<forall>c queue. (c, queue) \<in> set (os_data s) \<longrightarrow>
        list_all (\<lambda>i. oi_encoded i \<noteq> [] \<and> oi_priority i = OP_data \<and> cid_number (oi_channel i) = c) queue \<and>
        sorted_wrt (\<lambda>a b. oi_sequence a < oi_sequence b) queue)"

lemma item_bytes_simps [simp]:
  "item_bytes [] = []" "item_bytes (i # is) = oi_encoded i @ item_bytes is"
  "item_bytes (is @ js) = item_bytes is @ item_bytes js"
  by (simp_all add: item_bytes_def)

lemma data_size_simps [simp]:
  "data_size [] = 0" "data_size ((c, q) # m) = length (item_bytes q) + data_size m"
  by (simp_all add: data_size_def)

lemma data_size_put:
  "om_ok m \<Longrightarrow> data_size (om_put c q m) + length (item_bytes (data_queue m c))
     = data_size m + length (item_bytes q)"
  unfolding data_queue_def
proof (induction c q m rule: om_put.induct)
  case (2 k v k' v' m)
  then show ?case by (auto simp: om_ok_Cons om_get_def dest!: map_of_SomeD split: option.splits)
qed (simp add: om_get_def)

lemma data_queue_put [simp]: "om_ok m \<Longrightarrow> data_queue (om_put c q m) d = (if d = c then q else data_queue m d)"
  by (simp add: data_queue_def om.get_put)

lemma data_size_filter [simp]: "data_size (filter (\<lambda>(c, queue). queue \<noteq> []) m) = data_size m"
  by (induction m) auto

lemma data_queue_filter [simp]:
  "om_ok m \<Longrightarrow> data_queue (filter (\<lambda>(c, queue). queue \<noteq> []) m) c = data_queue m c"
  by (induction m) (auto simp: data_queue_def om_get_def om_ok_Cons split: option.splits,
    fastforce dest: map_of_SomeD)

lemma om_ok_filter [simp]: "om_ok m \<Longrightarrow> om_ok (filter P m)"
  by (induction m) (auto simp: om_ok_Cons)

lemma data_queue_mem: "om_ok m \<Longrightarrow> data_queue m c \<noteq> [] \<Longrightarrow> (c, data_queue m c) \<in> set m"
  by (auto simp: data_queue_def om_get_iff[symmetric] split: option.splits)

lemma data_queue_size: "om_ok m \<Longrightarrow> length (item_bytes (data_queue m c)) \<le> data_size m"
  using data_size_put[of m c "[]"] by simp

section \<open>The two loops\<close>

definition control_items :: "OutboundItem list \<Rightarrow> bool" where
  "control_items items \<longleftrightarrow> list_all (\<lambda>i. oi_encoded i \<noteq> [] \<and> oi_priority i = OP_control) items"

definition data_items :: "u32 \<Rightarrow> OutboundItem list \<Rightarrow> bool" where
  "data_items c items \<longleftrightarrow>
     list_all (\<lambda>i. oi_encoded i \<noteq> [] \<and> oi_priority i = OP_data \<and> cid_number (oi_channel i) = c) items \<and>
     sorted_wrt (\<lambda>a b. oi_sequence a < oi_sequence b) items"

definition data_ok :: "(u32 \<times> OutboundItem list) list \<Rightarrow> bool" where
  "data_ok data \<longleftrightarrow> om_ok data \<and> (\<forall>c queue. (c, queue) \<in> set data \<longrightarrow> data_items c queue)"

lemma scheduler_ok_alt:
  "scheduler_ok s \<longleftrightarrow> data_ok (os_data s) \<and> control_items (os_control s) \<and>
     os_queued_bytes s = length (item_bytes (os_control s)) + data_size (os_data s) \<and>
     os_queued_bytes s \<le> os_byte_limit s \<and> os_byte_limit s \<le> SIZE_MAX"
  by (auto simp: scheduler_ok_def data_ok_def control_items_def data_items_def)

lemma data_ok_queue: "data_ok data \<Longrightarrow> data_items c (data_queue data c)"
proof (cases "data_queue data c = []")
  case False
  assume "data_ok data"
  then show ?thesis using data_queue_mem[of data c] False by (simp add: data_ok_def)
qed (simp add: data_items_def)

lemma data_ok_put: "data_ok data \<Longrightarrow> data_items c q \<Longrightarrow> data_ok (om_put c q data)"
  using om_get_iff[of "om_put c q data"]
  by (auto simp: data_ok_def om_get_put_map om_get_iff[symmetric] split: if_splits)

lemma drain_control_spec:
  "drain_control w used queued items = (used', queued', left, out, stop) \<Longrightarrow> used \<le> w \<Longrightarrow>
     length (item_bytes items) \<le> queued \<Longrightarrow> control_items items \<Longrightarrow>
     used' \<le> w \<and> used' = used + length (item_bytes out) \<and> queued' + length (item_bytes out) = queued \<and>
     item_bytes out @ item_bytes left = item_bytes items \<and> control_items left \<and>
     (\<forall>i \<in> set out. oi_priority i = OP_control) \<and> (left \<noteq> [] \<longrightarrow> used' = w) \<and> (stop \<longrightarrow> left \<noteq> [])"
proof (induction w used queued items arbitrary: used' queued' left out stop rule: drain_control.induct)
  case (1 w used queued)
  then show ?case by simp
next
  case (2 w used queued item items)
  let ?n = "min (w - used) (length (oi_encoded item))"
  show ?case
  proof (cases "used < w")
    case False
    then show ?thesis using 2 by simp
  next
    case True
    show ?thesis
    proof (cases "?n = length (oi_encoded item)")
      case full: True
      obtain u q l out' st where rest: "drain_control w (used + ?n) (size_sub queued ?n) items
          = (u, q, l, out', st)"
        by (metis prod_cases5)
      have "used' = u" "queued' = q" "left = l" "stop = st"
        "out = item\<lparr>oi_encoded := take ?n (oi_encoded item)\<rparr> # out'"
        using 2(2) True full rest by (auto simp: Let_def)
      moreover have "used + ?n \<le> w" "length (item_bytes items) \<le> size_sub queued ?n"
        "control_items items" "size_sub queued ?n + length (oi_encoded item) = queued"
        using 2(4,5) full True by (auto simp: control_items_def)
      moreover from 2(1)[OF True refl refl refl full rest this(1-3)]
      have "u \<le> w \<and> u = used + ?n + length (item_bytes out') \<and>
          q + length (item_bytes out') = size_sub queued ?n \<and>
          item_bytes out' @ item_bytes l = item_bytes items \<and> control_items l \<and>
          (\<forall>i \<in> set out'. oi_priority i = OP_control) \<and> (l \<noteq> [] \<longrightarrow> u = w) \<and> (st \<longrightarrow> l \<noteq> [])" .
      moreover have "oi_priority item = OP_control" using 2(5) by (simp add: control_items_def)
      ultimately show ?thesis unfolding full by auto
    next
      case False
      then have n: "?n = w - used" "w - used < length (oi_encoded item)"
        by (auto simp: min_def split: if_splits)
      show ?thesis using 2(2-5) True n by (auto simp: Let_def control_items_def)
    qed
  qed
qed

lemma out_bytes_Cons [simp]:
  "out_bytes [] p c = []"
  "out_bytes (i # out) p c =
     (if oi_priority i = p \<and> (p = OP_data \<longrightarrow> cid_number (oi_channel i) = c)
      then oi_encoded i @ out_bytes out p c else out_bytes out p c)"
  "out_bytes (out @ out') p c = out_bytes out p c @ out_bytes out' p c"
  by (auto simp: out_bytes_def)

lemma drain_channels_spec:
  "drain_channels w used s cs = (s', out) \<Longrightarrow> data_ok (os_data s) \<Longrightarrow> used \<le> w \<Longrightarrow>
     data_size (os_data s) \<le> os_queued_bytes s \<Longrightarrow>
     data_ok (os_data s') \<and> os_control s' = os_control s \<and> os_byte_limit s' = os_byte_limit s \<and>
     (\<forall>c. out_bytes out OP_data c @ channel_bytes s' c = channel_bytes s c) \<and>
     (\<forall>i \<in> set out. oi_priority i = OP_data) \<and>
     used + length (item_bytes out) \<le> w \<and>
     data_size (os_data s') + length (item_bytes out) = data_size (os_data s) \<and>
     os_queued_bytes s' + length (item_bytes out) = os_queued_bytes s"
proof (induction w used s cs arbitrary: s' out rule: drain_channels.induct)
  case (1 w used s)
  then show ?case by simp
next
  case (2 w used s c cs)
  show ?case
  proof (cases "data_queue (os_data s) c")
    case Nil
    then have "drain_channels w used s cs = (s', out)" using "2.prems"(1) by simp
    from "2.IH"(1)[OF Nil this "2.prems"(2-4)] show ?thesis .
  next
    case (Cons item items)
    let ?n = "min (w - used) (length (oi_encoded item))"
    let ?s = "s\<lparr>os_queued_bytes := size_sub (os_queued_bytes s) ?n, os_rr_cursor := c + 1\<rparr>"
    have q: "data_items c (item # items)" using data_ok_queue[OF "2.prems"(2), of c] Cons by simp
    have ok: "om_ok (os_data s)" using "2.prems"(2) by (simp add: data_ok_def)
    have size: "length (oi_encoded item) + length (item_bytes items) \<le> data_size (os_data s)"
      using data_queue_size[OF ok, of c] Cons by simp
    show ?thesis
    proof (cases "(os_expected_sequence s c \<noteq> 0 \<and> oi_sequence item \<noteq> os_expected_sequence s c) \<or> ?n = 0")
      case True
      then have skip: "drain_channels w used s cs = (s', out)"
        using "2.prems"(1)[unfolded drain_channels.simps(2) Cons list.case Let_def]
        by (elim disjE conjE) (simp_all only: simp_thms if_True if_False if_cancel)
      show ?thesis
      proof (cases "os_expected_sequence s c \<noteq> 0 \<and> oi_sequence item \<noteq> os_expected_sequence s c")
        case True
        from "2.IH"(2)[OF Cons refl True skip "2.prems"(2-4)] show ?thesis .
      next
        case go: False
        with True have "?n = 0" by blast
        from "2.IH"(3)[OF Cons refl go refl refl this skip "2.prems"(2-4)] show ?thesis .
      qed
    next
      case False
      show ?thesis
      proof (cases "?n = length (oi_encoded item)")
        case full: True
        let ?s2 = "?s\<lparr>os_expected_sequence := (os_expected_sequence ?s)(c := oi_sequence item + 1),
                      os_data := om_put c items (os_data ?s)\<rparr>"
        obtain s'' out' where rest: "drain_channels w (used + ?n) ?s2 cs = (s'', out')" by fastforce
        have s': "s' = s''" "out = item\<lparr>oi_encoded := take ?n (oi_encoded item)\<rparr> # out'"
          using "2.prems"(1) Cons False full rest by (auto simp: Let_def)
        have n: "used + ?n \<le> w" "?n \<le> os_queued_bytes s"
          using "2.prems"(3,4) full size by auto
        have put: "data_size (om_put c items (os_data s)) + length (oi_encoded item)
            = data_size (os_data s)"
          using data_size_put[OF ok, of c items] Cons by simp
        have ok2: "data_ok (os_data ?s2)" "data_size (os_data ?s2) \<le> os_queued_bytes ?s2"
          using data_ok_put[OF "2.prems"(2), of c items] q put n(2) "2.prems"(4) full
          by (simp_all add: data_items_def)
        have not_zero: "\<not> (os_expected_sequence s c \<noteq> 0 \<and> oi_sequence item \<noteq> os_expected_sequence s c)"
          "?n \<noteq> 0"
          using False by simp_all
        note IH = "2.IH"(4)[OF Cons refl not_zero(1) refl refl not_zero(2) refl refl full rest
            ok2(1) n(1) ok2(2)]
        have ch: "channel_bytes s d = (if d = c then oi_encoded item else []) @ channel_bytes ?s2 d" for d
          using Cons ok by (simp add: channel_bytes_def)
        have i: "oi_priority item = OP_data" "cid_number (oi_channel item) = c"
          using q by (simp_all add: data_items_def)
        show ?thesis
          using IH put n full i unfolding s' by (auto simp: ch)
      next
        case part: False
        let ?item = "item\<lparr>oi_encoded := drop ?n (oi_encoded item)\<rparr>"
        have s': "s' = ?s\<lparr>os_data := om_put c (?item # items) (os_data ?s)\<rparr>"
          "out = [item\<lparr>oi_encoded := take ?n (oi_encoded item)\<rparr>]"
        proof -
          have c: "(os_expected_sequence s c \<noteq> 0 \<and> oi_sequence item \<noteq> os_expected_sequence s c) = False"
            "(?n = 0) = False" "(?n = length (oi_encoded item)) = False"
            using False part by blast+
          show "s' = ?s\<lparr>os_data := om_put c (?item # items) (os_data ?s)\<rparr>"
            "out = [item\<lparr>oi_encoded := take ?n (oi_encoded item)\<rparr>]"
            using "2.prems"(1)[unfolded drain_channels.simps(2) Cons list.case Let_def]
            by (simp_all only: c if_False prod.inject)
        qed
        have n: "?n < length (oi_encoded item)" "used + ?n \<le> w" "?n \<le> os_queued_bytes s"
          using part "2.prems"(3,4) size by auto
        have put: "data_size (om_put c (?item # items) (os_data s)) + ?n = data_size (os_data s)"
          using data_size_put[OF ok, of c "?item # items"] Cons n by simp
        have "data_ok (os_data s')"
          using data_ok_put[OF "2.prems"(2), of c "?item # items"] q n(1)
          unfolding s' by (simp add: data_items_def)
        moreover have "channel_bytes s d = (if d = c then take ?n (oi_encoded item) else [])
            @ channel_bytes s' d" for d
          using Cons ok unfolding s' by (simp add: channel_bytes_def)
        moreover have "oi_priority item = OP_data" "cid_number (oi_channel item) = c"
          using q by (simp_all add: data_items_def)
        ultimately show ?thesis
          using put n unfolding s' by auto
      qed
    qed
  qed
qed

section \<open>Enqueue and drain\<close>

definition waiting :: "OutboundScheduler \<Rightarrow> OutboundPriority \<Rightarrow> u32 \<Rightarrow> bytes" where
  "waiting s p c = (case p of OP_control \<Rightarrow> item_bytes (os_control s) | OP_data \<Rightarrow> channel_bytes s c)"

lemma enqueue_spec:
  assumes "scheduler_ok s" "enqueue s item = (s', res)"
  shows "scheduler_ok s' \<and> (\<forall>e. res = Inl e \<longrightarrow> s' = s) \<and>
    (res = Inr () \<longrightarrow> (\<forall>p c. waiting s' p c = waiting s p c @ out_bytes [item] p c))"
proof -
  let ?c = "cid_number (oi_channel item)" and ?n = "length (oi_encoded item)"
  let ?queue = "data_queue (os_data s) ?c"
  have ok: "om_ok (os_data s)" "data_ok (os_data s)"
    using assms(1) by (simp_all add: scheduler_ok_alt data_ok_def)
  show ?thesis
  proof (cases "oi_encoded item = [] \<or> os_queued_bytes s + ?n > os_byte_limit s")
    case True
    then have "s' = s \<and> (\<exists>e. res = Inl e)"
      using assms
      by (auto simp: enqueue_def scheduler_ok_alt split: option.splits if_splits
          dest!: checked_add_SomeD)
    then show ?thesis using assms(1) by auto
  next
    case False
    then have add: "checked_add (os_queued_bytes s) ?n = Some (os_queued_bytes s + ?n)"
      using assms(1) by (intro checked_add_fits) (simp add: scheduler_ok_alt)
    have priority: "oi_priority item = OP_control \<or> oi_priority item = OP_data"
      by (cases "oi_priority item") simp_all
    then show ?thesis
    proof
      assume p: "oi_priority item = OP_control"
      then have "s' = s\<lparr>os_queued_bytes := os_queued_bytes s + ?n, os_control := os_control s @ [item]\<rparr>"
        "res = Inr ()"
        using assms(2) add False by (simp_all add: enqueue_def)
      then show ?thesis
        using assms(1) False p
        by (auto simp: scheduler_ok_alt control_items_def waiting_def channel_bytes_def
            split: OutboundPriority.splits)
    next
      assume p: "oi_priority item = OP_data"
      show ?thesis
      proof (cases "?queue \<noteq> [] \<and> oi_sequence item \<le> oi_sequence (last ?queue)")
        case True
        then have "s' = s \<and> (\<exists>e. res = Inl e)"
          using assms(2) add False p by (auto simp: enqueue_def)
        then show ?thesis using assms(1) by auto
      next
        case fresh: False
        have s': "s' = s\<lparr>os_queued_bytes := os_queued_bytes s + ?n,
            os_data := om_put ?c (?queue @ [item]) (os_data s)\<rparr>" "res = Inr ()"
          using assms(2) add False p fresh by (auto simp: enqueue_def Let_def)
        have q: "data_items ?c ?queue" using data_ok_queue[OF ok(2)] .
        have "\<forall>x \<in> set ?queue. oi_sequence x < oi_sequence item"
        proof (cases "?queue" rule: rev_cases)
          case (snoc ys y)
          then have "oi_sequence y < oi_sequence item" using fresh by (simp add: not_le)
          moreover have "\<forall>x \<in> set ys. oi_sequence x < oi_sequence y"
            using q snoc by (simp add: data_items_def sorted_wrt_append)
          ultimately show ?thesis using snoc by auto
        qed simp
        then have "data_items ?c (?queue @ [item])"
          using q False p by (simp add: data_items_def sorted_wrt_append)
        then have "data_ok (os_data s')" using data_ok_put[OF ok(2)] s' by simp
        moreover have "data_size (os_data s') = data_size (os_data s) + ?n"
          using data_size_put[OF ok(1), of ?c "?queue @ [item]"] s' by simp
        moreover have "waiting s' pr c = waiting s pr c @ out_bytes [item] pr c" for pr c
          using s' p ok(1) by (auto simp: waiting_def channel_bytes_def split: OutboundPriority.splits)
        ultimately show ?thesis using assms(1) s' False by (simp add: scheduler_ok_alt)
      qed
    qed
  qed
qed

lemma out_bytes_all:
  "\<forall>i \<in> set out. oi_priority i = p \<Longrightarrow> out_bytes out p c = (if p = OP_control then item_bytes out
     else out_bytes out p c)"
  "\<forall>i \<in> set out. oi_priority i = p \<Longrightarrow> q \<noteq> p \<Longrightarrow> out_bytes out q c = []"
  by (induction out) auto

lemma drain_spec:
  assumes "scheduler_ok s" "drain s w = (s', out)"
  shows "scheduler_ok s' \<and> os_byte_limit s' = os_byte_limit s \<and> length (item_bytes out) \<le> w \<and>
    os_queued_bytes s' + length (item_bytes out) = os_queued_bytes s \<and>
    (\<forall>p c. out_bytes out p c @ waiting s' p c = waiting s p c) \<and>
    (\<exists>cs ds. out = cs @ ds \<and> (\<forall>i \<in> set cs. oi_priority i = OP_control) \<and>
       (\<forall>i \<in> set ds. oi_priority i = OP_data) \<and> (ds \<noteq> [] \<longrightarrow> os_control s' = []))"
proof -
  obtain used queued left out1 stop where c: "drain_control w 0 (os_queued_bytes s) (os_control s)
      = (used, queued, left, out1, stop)"
    by (metis prod_cases5)
  have size: "length (item_bytes (os_control s)) \<le> os_queued_bytes s" "control_items (os_control s)"
    using assms(1) by (simp_all add: scheduler_ok_alt)
  note C = drain_control_spec[OF c _ size, simplified]
  let ?s1 = "s\<lparr>os_queued_bytes := queued, os_control := left\<rparr>"
  have len: "length (item_bytes out1) + length (item_bytes left) = length (item_bytes (os_control s))"
    using C by (metis length_append)
  have ok1: "scheduler_ok ?s1" using assms(1) C len by (auto simp: scheduler_ok_alt)
  have w1: "out_bytes out1 p d @ waiting ?s1 p d = waiting s p d" for p d
    using C out_bytes_all[of out1 OP_control]
    by (cases p) (auto simp: waiting_def channel_bytes_def)
  let ?channels = "map fst (filter (\<lambda>(c, queue). queue \<noteq> []) (os_data ?s1))"
  show ?thesis
  proof (cases "stop \<or> used \<ge> w \<or> os_data ?s1 = [] \<or> ?channels = []")
    case True
    then have "s' = ?s1" "out = out1"
      using assms(2) c by (auto simp: drain_def Let_def split: if_splits)
    moreover have "\<exists>cs ds. out1 = cs @ ds \<and> (\<forall>i \<in> set cs. oi_priority i = OP_control) \<and>
       (\<forall>i \<in> set ds. oi_priority i = OP_data) \<and> (ds \<noteq> [] \<longrightarrow> os_control ?s1 = [])"
      using C by (intro exI[of _ out1] exI[of _ "[]"]) simp
    ultimately show ?thesis using ok1 w1 C by simp
  next
    case False
    obtain s2 out2 where d: "drain_channels w used ?s1 (rotate_from (os_rr_cursor ?s1) ?channels) = (s2, out2)"
      by fastforce
    have s': "s' = s2\<lparr>os_data := filter (\<lambda>(c, queue). queue \<noteq> []) (os_data s2)\<rparr>" "out = out1 @ out2"
      using assms(2) c d False by (auto simp: drain_def Let_def)
    have pre: "data_ok (os_data ?s1)" "used \<le> w" "data_size (os_data ?s1) \<le> os_queued_bytes ?s1"
      using ok1 C by (simp_all add: scheduler_ok_alt)
    note D = drain_channels_spec[OF d pre]
    have om: "om_ok (os_data s2)" using D by (simp add: data_ok_def)
    have "left = []" using False C by auto
    have "data_ok (os_data s')" using D s' by (auto simp: data_ok_def)
    then have "scheduler_ok s'"
      using D s' ok1 by (auto simp: scheduler_ok_alt)
    moreover have "out_bytes out p e @ waiting s' p e = waiting s p e" for p e
      unfolding s'(2) w1[of p e, symmetric]
      using D om out_bytes_all(2)[of out2 OP_data OP_control]
      by (cases p) (auto simp: s'(1) waiting_def channel_bytes_def)
    moreover have "\<exists>cs ds. out = cs @ ds \<and> (\<forall>i \<in> set cs. oi_priority i = OP_control) \<and>
       (\<forall>i \<in> set ds. oi_priority i = OP_data) \<and> (ds \<noteq> [] \<longrightarrow> os_control s' = [])"
      using C D s' \<open>left = []\<close> by (intro exI[of _ out1] exI[of _ out2]) simp
    ultimately show ?thesis using C D s' by simp
  qed
qed

section \<open>Histories\<close>

datatype SchedulerOp = Sch_enqueue OutboundItem | Sch_drain nat

text \<open>The scheduler, the items it accepted and the chunks it handed out, in order.\<close>

fun scheduler_run ::
  "OutboundScheduler \<Rightarrow> SchedulerOp list \<Rightarrow> OutboundScheduler \<times> OutboundItem list \<times> OutboundItem list" where
  "scheduler_run s [] = (s, [], [])"
| "scheduler_run s (Sch_enqueue item # ops) =
     (case enqueue s item of
        (s', Inl e) \<Rightarrow> scheduler_run s' ops
      | (s', Inr _) \<Rightarrow>
          (let (s'', accepted, out) = scheduler_run s' ops in (s'', item # accepted, out)))"
| "scheduler_run s (Sch_drain n # ops) =
     (let (s', chunks) = drain s n; (s'', accepted, out) = scheduler_run s' ops
      in (s'', accepted, chunks @ out))"

lemma scheduler_run_streams:
  "scheduler_ok s \<Longrightarrow> scheduler_run s ops = (s', accepted, out) \<Longrightarrow>
     scheduler_ok s' \<and>
     (\<forall>p c. out_bytes out p c @ waiting s' p c = waiting s p c @ out_bytes accepted p c)"
proof (induction s ops arbitrary: s' accepted out rule: scheduler_run.induct)
  case (1 s)
  then show ?case by simp
next
  case (2 s item ops)
  obtain s1 r where e: "enqueue s item = (s1, r)" by fastforce
  note E = enqueue_spec[OF "2.prems"(1) e]
  show ?case
  proof (cases r)
    case (Inl err)
    then show ?thesis using "2.IH"(1)[OF e[symmetric] Inl] "2.prems" e E by simp
  next
    case (Inr u)
    obtain s2 acc o2 where r: "scheduler_run s1 ops = (s2, acc, o2)" by (metis prod_cases3)
    have "scheduler_ok s2 \<and> (\<forall>p c. out_bytes o2 p c @ waiting s2 p c = waiting s1 p c @ out_bytes acc p c)"
      using "2.IH"(2)[OF e[symmetric] Inr _ r] E by blast
    moreover have "s' = s2" "accepted = item # acc" "out = o2" using "2.prems"(2) e Inr r by auto
    moreover have "out_bytes (item # acc) p c = out_bytes [item] p c @ out_bytes acc p c" for p c
      using out_bytes_Cons(3)[of "[item]" acc] by simp
    moreover have "waiting s1 p c = waiting s p c @ out_bytes [item] p c" for p c
      using E Inr by simp
    ultimately show ?thesis by (simp only: append_assoc simp_thms)
  qed
next
  case (3 s n ops)
  obtain s1 chunks where d: "drain s n = (s1, chunks)" by fastforce
  obtain s2 acc o2 where r: "scheduler_run s1 ops = (s2, acc, o2)" by (metis prod_cases3)
  note D = drain_spec[OF "3.prems"(1) d]
  have "scheduler_ok s2 \<and> (\<forall>p c. out_bytes o2 p c @ waiting s2 p c = waiting s1 p c @ out_bytes acc p c)"
    using "3.IH"[OF refl d[symmetric] _ r] D by blast
  moreover have "s' = s2" "accepted = acc" "out = chunks @ o2" using "3.prems"(2) d r by auto
  moreover have "waiting s p c = out_bytes chunks p c @ waiting s1 p c" for p c using D by simp
  ultimately show ?case by simp
qed

lemma scheduler_ok_new [simp]: "scheduler_ok (outbound_scheduler limit) \<longleftrightarrow> limit \<le> SIZE_MAX"
  by (auto simp: scheduler_ok_def outbound_scheduler_def)

lemma waiting_new [simp]: "waiting (outbound_scheduler limit) p c = []"
  by (simp add: waiting_def outbound_scheduler_def channel_bytes_def data_queue_def
      split: OutboundPriority.split)

text \<open>Property C13. The scheduler is a faithful multiplexer: over any history of enqueues and
  drains with any byte budgets, the bytes handed out for the control stream, and for each
  channel, followed by the bytes still waiting there, are exactly the bytes accepted for it, in
  order. No byte is lost, repeated, reordered or moved to another channel.\<close>

theorem scheduler_streams_exact:
  assumes "limit \<le> SIZE_MAX"
    and "scheduler_run (outbound_scheduler limit) ops = (s, accepted, out)"
  shows "out_bytes out p c @ waiting s p c = out_bytes accepted p c"
  using scheduler_run_streams[OF _ assms(2)] assms(1) by simp

text \<open>Remark. The byte counter is exact and bounded: after any history the queued byte count
  equals the bytes waiting and stays within the limit, so a refused enqueue is refused for the
  bytes that are really there; data of one channel waits in strictly increasing sequence.\<close>

theorem scheduler_bytes_bounded:
  assumes "limit \<le> SIZE_MAX"
    and "scheduler_run (outbound_scheduler limit) ops = (s, accepted, out)"
  shows "os_queued_bytes s = length (item_bytes (os_control s)) + data_size (os_data s) \<and>
    os_queued_bytes s \<le> os_byte_limit s \<and>
    sorted_wrt (\<lambda>a b. oi_sequence a < oi_sequence b) (data_queue (os_data s) c)"
proof -
  have ok: "scheduler_ok s" using scheduler_run_streams[OF _ assms(2)] assms(1) by simp
  then have "data_items c (data_queue (os_data s) c)"
    by (intro data_ok_queue) (simp add: scheduler_ok_alt)
  with ok show ?thesis by (simp add: scheduler_ok_alt data_items_def)
qed

text \<open>Remark. Control goes first: what one drain returns is a run of control chunks followed
  by data chunks, data only when no control byte is left waiting, and never more bytes than the
  budget; the counter falls by exactly the bytes returned.\<close>

theorem drain_control_first:
  assumes "scheduler_ok s" and "drain s writable = (s', out)"
  shows "\<exists>cs ds. out = cs @ ds \<and> (\<forall>i \<in> set cs. oi_priority i = OP_control) \<and>
    (\<forall>i \<in> set ds. oi_priority i = OP_data) \<and> (ds \<noteq> [] \<longrightarrow> os_control s' = []) \<and>
    length (item_bytes out) \<le> writable \<and>
    os_queued_bytes s' + length (item_bytes out) = os_queued_bytes s"
  using drain_spec[OF assms] by auto

section \<open>Sequence gaps\<close>

definition blocked :: "OutboundScheduler \<Rightarrow> u32 \<Rightarrow> OutboundItem list \<Rightarrow> u32 \<Rightarrow> bool" where
  "blocked s c items expected \<longleftrightarrow> om_ok (os_data s) \<and> data_queue (os_data s) c = items \<and> items \<noteq> [] \<and>
     os_expected_sequence s c = expected \<and> expected \<noteq> 0 \<and> oi_sequence (hd items) \<noteq> expected"

lemma drain_channels_blocked:
  "blocked s c items expected \<Longrightarrow> drain_channels w used s cs = (s', out) \<Longrightarrow> blocked s' c items expected"
proof (induction w used s cs arbitrary: s' out rule: drain_channels.induct)
  case (2 w used s d cs)
  show ?case
  proof (cases "data_queue (os_data s) d")
    case Nil
    then show ?thesis using "2.IH"(1)[OF Nil] "2.prems" by simp
  next
    case (Cons item rest)
    let ?n = "min (w - used) (length (oi_encoded item))"
    let ?s = "s\<lparr>os_queued_bytes := size_sub (os_queued_bytes s) ?n, os_rr_cursor := d + 1\<rparr>"
    let ?s2 = "?s\<lparr>os_expected_sequence := (os_expected_sequence ?s)(d := oi_sequence item + 1),
                  os_data := om_put d rest (os_data ?s)\<rparr>"
    note run = "2.prems"(2)[unfolded drain_channels.simps(2) Cons list.case Let_def]
    show ?thesis
    proof (cases "os_expected_sequence s d \<noteq> 0 \<and> oi_sequence item \<noteq> os_expected_sequence s d")
      case True
      then have "drain_channels w used s cs = (s', out)" using run by (simp only: simp_thms if_True)
      then show ?thesis using "2.IH"(2)[OF Cons refl True] "2.prems"(1) by blast
    next
      case False
      have dc: "d \<noteq> c" using False Cons "2.prems"(1) by (auto simp: blocked_def)
      show ?thesis
      proof (cases "?n = 0")
        case True
        then have "drain_channels w used s cs = (s', out)"
          using run False by (simp only: simp_thms if_False if_True if_cancel)
        then show ?thesis using "2.IH"(3)[OF Cons refl False refl refl True] "2.prems"(1) by blast
      next
        case nz: False
        show ?thesis
        proof (cases "?n = length (oi_encoded item)")
          case True
          obtain s'' o' where r: "drain_channels w (used + ?n) ?s2 cs = (s'', o')" by fastforce
          have "s' = s''" using run False nz True r by (simp add: Let_def)
          moreover have "blocked ?s2 c items expected" using "2.prems"(1) dc by (simp add: blocked_def)
          ultimately show ?thesis
            using "2.IH"(4)[OF Cons refl False refl refl nz refl refl True _ r] by blast
        next
          case part: False
          have c: "(os_expected_sequence s d \<noteq> 0 \<and> oi_sequence item \<noteq> os_expected_sequence s d) = False"
            "(?n = 0) = False" "(?n = length (oi_encoded item)) = False"
            using False nz part by blast+
          have "s' = ?s\<lparr>os_data := om_put d (item\<lparr>oi_encoded := drop ?n (oi_encoded item)\<rparr> # rest)
              (os_data ?s)\<rparr>"
            using run by (simp only: c if_False prod.inject)
          then show ?thesis using "2.prems"(1) dc by (simp add: blocked_def)
        qed
      qed
    qed
  qed
qed simp

lemma drain_blocked:
  assumes "blocked s c items expected"
  shows "blocked (fst (drain s w)) c items expected"
proof -
  obtain used queued left out1 stop where d: "drain_control w 0 (os_queued_bytes s) (os_control s)
      = (used, queued, left, out1, stop)"
    by (metis prod_cases5)
  let ?s1 = "s\<lparr>os_queued_bytes := queued, os_control := left\<rparr>"
  have b1: "blocked ?s1 c items expected" using assms by (simp add: blocked_def)
  let ?channels = "map fst (filter (\<lambda>(c, queue). queue \<noteq> []) (os_data ?s1))"
  obtain s2 out2 where dc: "drain_channels w used ?s1 (rotate_from (os_rr_cursor ?s1) ?channels) = (s2, out2)"
    by fastforce
  have "blocked (s2\<lparr>os_data := filter (\<lambda>(c, queue). queue \<noteq> []) (os_data s2)\<rparr>) c items expected"
    using drain_channels_blocked[OF b1 dc] by (simp add: blocked_def)
  then show ?thesis using b1 d dc by (auto simp: drain_def Let_def)
qed

text \<open>Remark. A gap is never bridged: when the head of a channel's queue does not carry the
  sequence after the last one sent there, no later drain, however large, sends anything of that
  channel. Since the sequences the engine passes are frame sequences shared by all channels,
  one frame elsewhere is enough.\<close>

theorem sequence_gap_blocks_channel:
  assumes "om_ok (os_data s)" and "data_queue (os_data s) c = item # items"
    and "os_expected_sequence s c \<noteq> 0" and "oi_sequence item \<noteq> os_expected_sequence s c"
  shows "data_queue (os_data (foldl (\<lambda>s w. fst (drain s w)) s budgets)) c = item # items"
proof -
  have "blocked s c (item # items) (os_expected_sequence s c) \<Longrightarrow>
      blocked (foldl (\<lambda>s w. fst (drain s w)) s budgets) c (item # items) (os_expected_sequence s c)"
  proof (induction budgets rule: rev_induct)
    case (snoc w ws)
    then show ?case using drain_blocked by simp
  qed simp
  then show ?thesis using assms by (simp add: blocked_def)
qed

section \<open>A concrete scheduler\<close>

definition sample_item :: "OutboundPriority \<Rightarrow> u32 \<Rightarrow> u32 \<Rightarrow> bytes \<Rightarrow> OutboundItem" where
  "sample_item p c q bs = \<lparr>oi_priority = p, oi_channel = \<lparr>cid_number = c, cid_generation = 1\<rparr>,
     oi_sequence = q, oi_encoded = bs\<rparr>"

definition sample_ops :: "SchedulerOp list" where
  "sample_ops = [Sch_enqueue (sample_item OP_data 4 1 [1, 2, 3]),
     Sch_enqueue (sample_item OP_control 0 2 [9]), Sch_drain 3,
     Sch_enqueue (sample_item OP_data 4 3 [7])]"

lemma sample_scheduler_run: "\<exists>s acc out. scheduler_run (outbound_scheduler 100) sample_ops = (s, acc, out)"
  by (metis prod_cases3)

theorem scheduler_streams_exact_witness:
  "out_bytes (snd (snd (scheduler_run (outbound_scheduler 100) sample_ops))) OP_data 4 @
     waiting (fst (scheduler_run (outbound_scheduler 100) sample_ops)) OP_data 4
   = out_bytes (fst (snd (scheduler_run (outbound_scheduler 100) sample_ops))) OP_data 4"
  by (rule scheduler_streams_exact[where limit = 100 and ops = sample_ops]) (simp_all add: SIZE_MAX_def)

theorem scheduler_bytes_bounded_witness:
  "let s = fst (scheduler_run (outbound_scheduler 100) sample_ops) in
   os_queued_bytes s = length (item_bytes (os_control s)) + data_size (os_data s) \<and>
   os_queued_bytes s \<le> os_byte_limit s \<and>
   sorted_wrt (\<lambda>a b. oi_sequence a < oi_sequence b) (data_queue (os_data s) 4)"
  unfolding Let_def
  by (rule scheduler_bytes_bounded[where limit = 100 and ops = sample_ops
        and accepted = "fst (snd (scheduler_run (outbound_scheduler 100) sample_ops))"
        and out = "snd (snd (scheduler_run (outbound_scheduler 100) sample_ops))"])
    (simp_all add: SIZE_MAX_def)

theorem drain_control_first_witness:
  "\<exists>s' out cs ds. drain (outbound_scheduler 100) 10 = (s', out) \<and> out = cs @ ds \<and>
     (ds \<noteq> [] \<longrightarrow> os_control s' = []) \<and> length (item_bytes out) \<le> 10"
proof -
  obtain s' out where d: "drain (outbound_scheduler 100) 10 = (s', out)" by fastforce
  show ?thesis using drain_control_first[OF _ d] d by (auto simp: SIZE_MAX_def)
qed

theorem sequence_gap_blocks_channel_witness:
  "let s = \<lparr>os_byte_limit = 100, os_queued_bytes = 1, os_control = [],
             os_data = [(4, [sample_item OP_data 4 3 [7]])],
             os_expected_sequence = (\<lambda>_. 0)(4 := 2), os_rr_cursor = 0\<rparr>
   in data_queue (os_data (foldl (\<lambda>s w. fst (drain s w)) s [1000, 1000])) 4
        = [sample_item OP_data 4 3 [7]]"
  unfolding Let_def
  by (rule sequence_gap_blocks_channel)
    (simp_all add: om_ok_def data_queue_def om_get_def sample_item_def)

end
