(* ===== verification/Replay_Window.thy ===== *)
theory Replay_Window
  imports Wire_Format
begin

text \<open>
  \<open>ReplayWindow\<close> and the ACK payload of \<^verbatim>\<open>src/replay/replay_window.cpp\<close>: the retained outbound
  frames of an epoch, their acknowledgement, retry and resumption. With capacity 0 the code
  pops from an empty deque, which is undefined; the model then keeps the list empty, and the
  lemmas that count entries assume a positive capacity.
\<close>

record ReplayEntry =
  re_epoch :: u16
  re_frame_seq :: u32
  re_encoded :: bytes
  re_retries :: u8

record AckRange =
  ar_first :: u32
  ar_last :: u32

record ResumeProof =
  rp_transcript_hash :: bytes
  rp_epoch :: u16
  rp_first_required_seq :: u32

record ReplayWindow =
  rw_capacity :: nat
  rw_epoch :: u16
  rw_entries :: "ReplayEntry list"

definition replay_window :: "nat \<Rightarrow> ReplayWindow" where
  "replay_window capacity = \<lparr>rw_capacity = capacity, rw_epoch = 1, rw_entries = []\<rparr>"

definition window_contains :: "ReplayWindow \<Rightarrow> u32 \<Rightarrow> bool" where
  "window_contains w frame_seq = list_ex (\<lambda>e. re_frame_seq e = frame_seq) (rw_entries w)"

definition earliest_sequence :: "ReplayWindow \<Rightarrow> u32 option" where
  "earliest_sequence w = (case rw_entries w of [] \<Rightarrow> None | e # es \<Rightarrow> Some (re_frame_seq e))"

definition latest_sequence :: "ReplayWindow \<Rightarrow> u32 option" where
  "latest_sequence w =
     (if rw_entries w = [] then None else Some (re_frame_seq (last (rw_entries w))))"

definition record_frame :: "ReplayWindow \<Rightarrow> u16 \<Rightarrow> u32 \<Rightarrow> bytes \<Rightarrow> ReplayWindow \<times> unit result" where
  "record_frame w epoch frame_seq encoded =
     (if epoch \<noteq> rw_epoch w
      then (w, Inl (make_error ES_connection EC_resume_rejected CA_close_connection
                      ''replay epoch mismatch''))
      else if window_contains w frame_seq
      then (w, Inl (make_error ES_connection EC_sequence_error CA_close_connection
                      ''duplicate replay frame sequence''))
      else
        let kept = (if length (rw_entries w) \<ge> rw_capacity w then tl (rw_entries w)
                    else rw_entries w)
        in (w\<lparr>rw_entries := kept @ [\<lparr>re_epoch = epoch, re_frame_seq = frame_seq,
                                    re_encoded = encoded, re_retries = 0\<rparr>]\<rparr>, Inr ()))"

text \<open>The validation loop of \<open>acknowledge\<close> and \<open>encode_ack_payload\<close> over the sorted ranges; the
  bound of the former on the latest sequence is the argument \<open>latest\<close>.\<close>

fun check_ranges :: "u32 option \<Rightarrow> AckRange option \<Rightarrow> AckRange list \<Rightarrow> unit result" where
  "check_ranges latest prev [] = Inr ()"
| "check_ranges latest prev (r # rs) =
     (if ar_first r > ar_last r
      then Inl (make_error ES_connection EC_sequence_error CA_close_connection ''invalid ACK range'')
      else if (case prev of None \<Rightarrow> False | Some p \<Rightarrow> ar_last p \<ge> ar_first r)
      then Inl (make_error ES_connection EC_sequence_error CA_close_connection
                  ''overlapping ACK ranges'')
      else if (case latest of None \<Rightarrow> False | Some l \<Rightarrow> ar_last r > l)
      then Inl (make_error ES_connection EC_sequence_error CA_close_connection
                  ''ACK range refers to unsent future frame'')
      else check_ranges latest (Some r) rs)"

definition range_acks :: "AckRange list \<Rightarrow> ReplayEntry \<Rightarrow> bool" where
  "range_acks ranges e =
     list_ex (\<lambda>r. re_frame_seq e \<ge> ar_first r \<and> re_frame_seq e \<le> ar_last r) ranges"

definition acknowledge ::
  "ReplayWindow \<Rightarrow> u16 \<Rightarrow> AckRange list \<Rightarrow> ReplayWindow \<times> ReplayEntry list result" where
  "acknowledge w epoch ranges =
     (if epoch \<noteq> rw_epoch w
      then (w, Inl (make_error ES_connection EC_resume_rejected CA_close_connection
                      ''ACK epoch mismatch''))
      else
        let sorted_ranges = sort_key ar_first ranges in
        case check_ranges (latest_sequence w) None sorted_ranges of
          Inl e \<Rightarrow> (w, Inl e)
        | Inr _ \<Rightarrow>
            (w\<lparr>rw_entries := filter (\<lambda>e. \<not> range_acks sorted_ranges e) (rw_entries w)\<rparr>,
             Inr (filter (range_acks sorted_ranges) (rw_entries w))))"

text \<open>The loop of \<open>due_for_retry\<close>: entries before the failing one stay incremented.\<close>

fun retry_loop :: "u8 \<Rightarrow> ReplayEntry list \<Rightarrow> ReplayEntry list \<times> ReplayEntry list result" where
  "retry_loop retry_limit [] = ([], Inr [])"
| "retry_loop retry_limit (e # es) =
     (if re_retries e \<ge> retry_limit
      then (e # es, Inl (make_error ES_channel EC_sequence_error CA_reset_channel
                           ''replay retry limit exhausted''))
      else
        let e' = e\<lparr>re_retries := re_retries e + 1\<rparr>;
            (es', r) = retry_loop retry_limit es
        in (e' # es', case r of Inl err \<Rightarrow> Inl err | Inr due \<Rightarrow> Inr (e' # due)))"

definition due_for_retry :: "ReplayWindow \<Rightarrow> u8 \<Rightarrow> ReplayWindow \<times> ReplayEntry list result" where
  "due_for_retry w retry_limit =
     (let (es, r) = retry_loop retry_limit (rw_entries w) in (w\<lparr>rw_entries := es\<rparr>, r))"

definition can_resume :: "ReplayWindow \<Rightarrow> ResumeProof \<Rightarrow> unit result" where
  "can_resume w rp =
     (if rp_epoch rp \<noteq> rw_epoch w
      then Inl (make_error ES_connection EC_resume_rejected CA_close_connection ''resume epoch mismatch'')
      else case (earliest_sequence w, latest_sequence w) of
        (Some earliest, Some latest) \<Rightarrow>
          let latest_plus_one = (if latest = 0xFFFFFFFF then latest else latest + 1)
          in if rp_first_required_seq rp < earliest \<or> rp_first_required_seq rp > latest_plus_one
             then Inl (make_error ES_connection EC_resume_rejected CA_close_connection
                         ''resume range is outside retained replay window'')
             else Inr ()
      | _ \<Rightarrow> Inl (make_error ES_connection EC_resume_rejected CA_close_connection
                   ''resume requested with empty replay window''))"

definition retained_from :: "ReplayWindow \<Rightarrow> u16 \<Rightarrow> u32 \<Rightarrow> ReplayEntry list result" where
  "retained_from w epoch first_required_seq =
     (case can_resume w \<lparr>rp_transcript_hash = replicate 16 0, rp_epoch = epoch,
                         rp_first_required_seq = first_required_seq\<rparr> of
        Inl e \<Rightarrow> Inl e
      | Inr _ \<Rightarrow> Inr (filter (\<lambda>e. re_frame_seq e \<ge> first_required_seq) (rw_entries w)))"

section \<open>The ACK payload\<close>

definition append_range :: "bytes \<Rightarrow> AckRange \<Rightarrow> bytes" where
  "append_range out r = append_u32 (append_u32 out (ar_first r)) (ar_last r)"

definition encode_ack_payload :: "u16 \<Rightarrow> AckRange list \<Rightarrow> bytes result" where
  "encode_ack_payload epoch ranges =
     (let sorted_ranges = sort_key ar_first ranges in
      case check_ranges None None sorted_ranges of
        Inl e \<Rightarrow> Inl e
      | Inr _ \<Rightarrow>
          if length sorted_ranges > 0xFFFF
          then Inl (make_error ES_connection EC_resource_limit CA_close_connection
                      ''too many ACK ranges'')
          else Inr (foldl append_range
                     (append_u16 (append_u16 [] epoch) (of_nat (length sorted_ranges)))
                     sorted_ranges))"

definition read_range :: "bytes \<Rightarrow> nat \<Rightarrow> (AckRange \<times> nat) result" where
  "read_range payload offset =
     (case (read_u32_be payload offset, read_u32_be payload (offset + 4)) of
        (Inr lo, Inr hi) \<Rightarrow> Inr (\<lparr>ar_first = lo, ar_last = hi\<rparr>, offset + 8)
      | _ \<Rightarrow> Inl (make_error ES_connection EC_sequence_error CA_close_connection
                   ''ACK range is truncated''))"

definition decode_ack_payload :: "bytes \<Rightarrow> (u16 \<times> AckRange list) result" where
  "decode_ack_payload payload =
     (if length payload < 4
      then Inl (make_error ES_connection EC_sequence_error CA_close_connection
                  ''ACK payload too short'')
      else
        let epoch = word16_be (payload ! 0) (payload ! 1);
            count = word16_be (payload ! 2) (payload ! 3)
        in if length payload \<noteq> 4 + unat count * 8
           then Inl (make_error ES_connection EC_sequence_error CA_close_connection
                       ''ACK payload length mismatch'')
           else case read_list read_range (unat count) payload 4 of
             Inl e \<Rightarrow> Inl e
           | Inr (ranges, _) \<Rightarrow>
               (case encode_ack_payload epoch ranges of
                  Inl e \<Rightarrow> Inl e
                | Inr _ \<Rightarrow> Inr (epoch, ranges)))"

lemma append_range_split: "append_range out r = out @ append_range [] r"
  by (simp add: append_range_def append_field_split(3)[of out]
      append_field_split(3)[of "out @ _"] append_field_split(3)[of "append_u32 [] _"])

lemma length_append_range [simp]: "length (append_range [] r) = 8"
  by (simp add: append_range_def)

interpretation ack_range: cursor_format "append_range []" read_range "\<lambda>_. True"
proof
  show "read_range (pre @ append_range [] x @ post) (length pre)
      = Inr (x, length pre + length (append_range [] x))" for pre x post
  proof -
    have 1: "append_range [] x = append_u32 [] (ar_first x) @ append_u32 [] (ar_last x)"
      by (simp add: append_range_def append_field_split(3)[of "append_u32 [] _"])
    have "read_u32_be (pre @ append_range [] x @ post) (length pre) = Inr (ar_first x)"
      unfolding 1 append_assoc by (rule read_u32_be_at)
    moreover have "read_u32_be (pre @ append_range [] x @ post) (length pre + 4) = Inr (ar_last x)"
      using read_u32_be_at[of "pre @ append_u32 [] (ar_first x)" "ar_last x" post]
      unfolding 1 by simp
    ultimately show ?thesis by (simp add: read_range_def)
  qed
  show "True \<and> c' = c + length (append_range [] x) \<and> c' \<le> length bs \<and>
      take (length (append_range [] x)) (drop c bs) = append_range [] x"
    if "read_range bs c = Inr (x, c')" for bs c x c'
  proof -
    from that obtain f l where f: "read_u32_be bs c = Inr f" and l: "read_u32_be bs (c + 4) = Inr l"
      and x: "x = \<lparr>ar_first = f, ar_last = l\<rparr>" "c' = c + 8"
      by (auto simp: read_range_def split: sum.splits)
    have "take (4 + 4) (drop c bs) = append_u32 [] f @ append_u32 [] l"
      using read_u32_be_InrD[OF f] read_u32_be_InrD[OF l]
      by (simp only: take_add drop_drop) (simp add: add.commute)
    then show ?thesis
      using x read_u32_be_InrD[OF l]
      by (simp add: append_range_def append_field_split(3)[of "append_u32 [] _"])
  qed
qed

lemma foldl_append_range: "foldl append_range out rs = out @ concat (map (append_range []) rs)"
proof (induction rs arbitrary: out)
  case (Cons r rs)
  then show ?case using append_range_split[of out r] by simp
qed simp

lemma check_ranges_ok:
  "check_ranges latest prev rs = Inr () \<longleftrightarrow>
     list_all (\<lambda>r. ar_first r \<le> ar_last r \<and> (\<forall>l. latest = Some l \<longrightarrow> ar_last r \<le> l)) rs \<and>
     sorted_wrt (\<lambda>a b. ar_last a < ar_first b) rs \<and>
     (\<forall>p. prev = Some p \<longrightarrow> list_all (\<lambda>r. ar_last p < ar_first r) rs)"
proof (induction rs arbitrary: prev)
  case (Cons r rs)
  show ?case
    by (auto simp: Cons.IH not_less not_le list_all_iff split: option.splits
        intro: order.strict_trans1 order.strict_trans2 less_trans le_less_trans)
qed simp

section \<open>Acknowledgement\<close>

lemma range_acks_iff:
  "range_acks ranges e \<longleftrightarrow> (\<exists>r \<in> set ranges. ar_first r \<le> re_frame_seq e \<and> re_frame_seq e \<le> ar_last r)"
  by (auto simp: range_acks_def list_ex_iff)

lemma range_acks_sort [simp]: "range_acks (sort_key f ranges) = range_acks ranges"
  by (simp add: fun_eq_iff range_acks_iff)

text \<open>Property C19. An acknowledgement retires exactly the frames it names: on success the
  retired entries are those with a sequence inside some range and the window keeps the others,
  both in order, every range is well formed and none reaches beyond the newest retained frame;
  on failure, and for another epoch, the window is unchanged.\<close>

theorem acknowledge_exact:
  "case acknowledge w epoch ranges of
     (w', Inr retired) \<Rightarrow>
       epoch = rw_epoch w \<and>
       retired = filter (\<lambda>e. \<exists>r \<in> set ranges. ar_first r \<le> re_frame_seq e \<and> re_frame_seq e \<le> ar_last r)
         (rw_entries w) \<and>
       w' = w\<lparr>rw_entries := filter (\<lambda>e. \<not> (\<exists>r \<in> set ranges. ar_first r \<le> re_frame_seq e \<and>
         re_frame_seq e \<le> ar_last r)) (rw_entries w)\<rparr> \<and>
       (\<forall>r \<in> set ranges. ar_first r \<le> ar_last r \<and>
          (rw_entries w \<noteq> [] \<longrightarrow> ar_last r \<le> re_frame_seq (last (rw_entries w))))
   | (w', Inl e) \<Rightarrow> w' = w"
proof (cases "epoch = rw_epoch w")
  case False
  then show ?thesis by (simp add: acknowledge_def)
next
  case True
  show ?thesis
  proof (cases "check_ranges (latest_sequence w) None (sort_key ar_first ranges)")
    case (Inl e)
    then show ?thesis using True by (simp add: acknowledge_def)
  next
    case (Inr u)
    then have "\<forall>r \<in> set ranges. ar_first r \<le> ar_last r \<and>
        (rw_entries w \<noteq> [] \<longrightarrow> ar_last r \<le> re_frame_seq (last (rw_entries w)))"
      using check_ranges_ok[of "latest_sequence w" None "sort_key ar_first ranges"]
      by (auto simp: list_all_iff latest_sequence_def)
    then show ?thesis
      using True Inr by (simp add: acknowledge_def range_acks_iff[abs_def])
  qed
qed

theorem acknowledge_exact_witness:
  "\<exists>w' retired. acknowledge \<lparr>rw_capacity = 8, rw_epoch = 1, rw_entries =
       [\<lparr>re_epoch = 1, re_frame_seq = 3, re_encoded = [1], re_retries = 0\<rparr>,
        \<lparr>re_epoch = 1, re_frame_seq = 5, re_encoded = [2], re_retries = 0\<rparr>]\<rparr> 1
       [\<lparr>ar_first = 4, ar_last = 5\<rparr>] = (w', Inr retired) \<and>
     map re_frame_seq retired = [5] \<and> map re_frame_seq (rw_entries w') = [3]"
proof -
  let ?w = "\<lparr>rw_capacity = 8, rw_epoch = 1, rw_entries =
       [\<lparr>re_epoch = 1, re_frame_seq = 3, re_encoded = [1], re_retries = 0\<rparr>,
        \<lparr>re_epoch = 1, re_frame_seq = 5, re_encoded = [2], re_retries = 0\<rparr>]\<rparr>"
  have "is_ok (snd (acknowledge ?w 1 [\<lparr>ar_first = 4, ar_last = 5\<rparr>]))"
    by (simp add: acknowledge_def Let_def latest_sequence_def range_acks_def)
  then obtain w' retired where a: "acknowledge ?w 1 [\<lparr>ar_first = 4, ar_last = 5\<rparr>] = (w', Inr retired)"
    by (metis is_ok_iff prod.collapse)
  show ?thesis using acknowledge_exact[of ?w 1 "[\<lparr>ar_first = 4, ar_last = 5\<rparr>]"] a by simp
qed

section \<open>The sliding window\<close>

definition seqs :: "ReplayWindow \<Rightarrow> u32 list" where
  "seqs w = map re_frame_seq (rw_entries w)"

definition window_ok :: "ReplayWindow \<Rightarrow> bool" where
  "window_ok w \<longleftrightarrow> 0 < rw_capacity w \<and> length (rw_entries w) \<le> rw_capacity w \<and>
     list_all (\<lambda>e. re_epoch e = rw_epoch w) (rw_entries w) \<and> sorted_wrt (<) (seqs w)"

lemma window_contains_iff: "window_contains w q \<longleftrightarrow> q \<in> set (seqs w)"
  by (auto simp: window_contains_def seqs_def list_ex_iff)

lemma record_frame_ok:
  assumes "window_ok w" "\<forall>q \<in> set (seqs w). q < frame_seq"
  shows "\<exists>w'. record_frame w (rw_epoch w) frame_seq encoded = (w', Inr ()) \<and> window_ok w' \<and>
    rw_epoch w' = rw_epoch w \<and> rw_capacity w' = rw_capacity w \<and>
    rw_entries w' = drop (Suc (length (rw_entries w)) - rw_capacity w) (rw_entries w @
      [\<lparr>re_epoch = rw_epoch w, re_frame_seq = frame_seq, re_encoded = encoded, re_retries = 0\<rparr>])"
proof -
  let ?e = "\<lparr>re_epoch = rw_epoch w, re_frame_seq = frame_seq, re_encoded = encoded, re_retries = 0\<rparr>"
  let ?kept = "if length (rw_entries w) \<ge> rw_capacity w then tl (rw_entries w) else rw_entries w"
  have new: "\<not> window_contains w frame_seq" using assms(2) by (auto simp: window_contains_iff)
  have kept: "?kept = drop (Suc (length (rw_entries w)) - rw_capacity w) (rw_entries w)"
    "Suc (length (rw_entries w)) - rw_capacity w \<le> length (rw_entries w)"
    using assms(1) by (auto simp: window_ok_def drop_Suc Suc_diff_le)
  have "sorted_wrt (<) (map re_frame_seq (rw_entries w @ [?e]))"
    using assms by (auto simp: window_ok_def seqs_def sorted_wrt_append)
  from sorted_wrt_drop[OF this, of "Suc (length (rw_entries w)) - rw_capacity w"]
  have "sorted_wrt (<) (map re_frame_seq (drop (Suc (length (rw_entries w)) - rw_capacity w)
      (rw_entries w)) @ [frame_seq])"
    using kept(2) by (simp add: drop_map)
  then show ?thesis
    using assms new kept
    by (auto simp: record_frame_def window_ok_def seqs_def drop_map list_all_iff dest: in_set_dropD
        list.set_sel(2))
qed

fun record_all :: "ReplayWindow \<Rightarrow> (u32 \<times> bytes) list \<Rightarrow> ReplayWindow \<times> bool" where
  "record_all w [] = (w, True)"
| "record_all w ((frame_seq, encoded) # frames) =
     (case record_frame w (rw_epoch w) frame_seq encoded of
        (w', Inl e) \<Rightarrow> (w', False)
      | (w', Inr _) \<Rightarrow> record_all w' frames)"

definition fresh_entry :: "u16 \<Rightarrow> u32 \<times> bytes \<Rightarrow> ReplayEntry" where
  "fresh_entry epoch f =
     \<lparr>re_epoch = epoch, re_frame_seq = fst f, re_encoded = snd f, re_retries = 0\<rparr>"

lemma record_all_window:
  "window_ok w \<Longrightarrow> sorted_wrt (<) (seqs w @ map fst frames) \<Longrightarrow>
     \<exists>w'. record_all w frames = (w', True) \<and> window_ok w' \<and>
       rw_entries w' = drop (length (rw_entries w) + length frames - rw_capacity w)
         (rw_entries w @ map (fresh_entry (rw_epoch w)) frames)"
proof (induction frames arbitrary: w)
  case Nil
  then show ?case by (simp add: window_ok_def)
next
  case (Cons f frames)
  obtain q enc where f: "f = (q, enc)" by fastforce
  have "\<forall>x \<in> set (seqs w). x < q" using Cons.prems(2) by (simp add: f sorted_wrt_append)
  then obtain w1 where w1: "record_frame w (rw_epoch w) q enc = (w1, Inr ())" "window_ok w1"
    "rw_epoch w1 = rw_epoch w" "rw_capacity w1 = rw_capacity w"
    "rw_entries w1 = drop (Suc (length (rw_entries w)) - rw_capacity w)
       (rw_entries w @ [fresh_entry (rw_epoch w) f])"
    using record_frame_ok[OF Cons.prems(1), of q enc] unfolding fresh_entry_def f fst_conv snd_conv
    by blast
  let ?d = "Suc (length (rw_entries w)) - rw_capacity w"
  have d: "?d \<le> Suc (length (rw_entries w))" by simp
  have "seqs w1 @ map fst frames = drop ?d (seqs w @ map fst (f # frames))"
    using d Cons.prems(1) by (simp add: seqs_def w1(5) drop_map fresh_entry_def f window_ok_def)
  then have "sorted_wrt (<) (seqs w1 @ map fst frames)"
    by (simp only: sorted_wrt_drop[OF Cons.prems(2)])
  from Cons.IH[OF w1(2) this] obtain w' where w': "record_all w1 frames = (w', True)" "window_ok w'"
    "rw_entries w' = drop (length (rw_entries w1) + length frames - rw_capacity w)
       (rw_entries w1 @ map (fresh_entry (rw_epoch w)) frames)"
    using w1(3,4) by auto
  have len: "length (rw_entries w1) = Suc (length (rw_entries w)) - ?d" unfolding w1(5) by simp
  have cat: "rw_entries w1 @ map (fresh_entry (rw_epoch w)) frames
      = drop ?d (rw_entries w @ map (fresh_entry (rw_epoch w)) (f # frames))"
    unfolding w1(5) using d Cons.prems(1) by (simp add: window_ok_def)
  have "rw_entries w' = drop (length (rw_entries w) + length (f # frames) - rw_capacity w)
      (rw_entries w @ map (fresh_entry (rw_epoch w)) (f # frames))"
    unfolding w'(3) cat drop_drop len by (rule arg_cong[where f = "\<lambda>n. drop n _"]) (use Cons.prems(1) in \<open>auto simp: window_ok_def\<close>)
  then show ?case using w' w1(1) by (simp add: f)
qed

text \<open>Remark. The window slides: recording frames with increasing sequences in a window of
  positive capacity never fails, and it then retains exactly the most recent frames, as many as
  the capacity allows, oldest first, with no retries counted.\<close>

theorem window_keeps_latest:
  assumes "0 < capacity" and "sorted_wrt (<) (map fst frames)"
  shows "\<exists>w. record_all (replay_window capacity) frames = (w, True) \<and>
    rw_entries w = drop (length frames - capacity) (map (fresh_entry 1) frames) \<and>
    length (rw_entries w) \<le> capacity"
proof -
  have "window_ok (replay_window capacity)"
    using assms(1) by (simp add: window_ok_def replay_window_def seqs_def)
  from record_all_window[OF this, of frames] assms(2) show ?thesis
    by (auto simp: replay_window_def seqs_def)
qed

theorem window_keeps_latest_witness:
  "\<exists>w. record_all (replay_window 2) [(3, [1]), (5, [2]), (9, [3])] = (w, True) \<and>
    rw_entries w = drop (length [(3 :: u32, [1 :: u8]), (5, [2]), (9, [3])] - 2)
      (map (fresh_entry 1) [(3, [1]), (5, [2]), (9, [3])]) \<and>
    length (rw_entries w) \<le> 2"
  by (rule window_keeps_latest) simp_all

lemma sorted_filter_suffix:
  "sorted_wrt (<) (map f xs) \<Longrightarrow>
     \<exists>pre. xs = pre @ filter (\<lambda>x. n \<le> f x) xs \<and> (\<forall>x \<in> set pre. f x < n)" for n :: "'b::linorder"
proof (induction xs)
  case (Cons x xs)
  show ?case
  proof (cases "n \<le> f x")
    case True
    then have "filter (\<lambda>x. n \<le> f x) (x # xs) = x # xs"
      using Cons.prems by (auto intro!: filter_True)
    then show ?thesis by (intro exI[of _ "[]"]) simp
  next
    case False
    with Cons obtain pre where "xs = pre @ filter (\<lambda>x. n \<le> f x) xs" "\<forall>x \<in> set pre. f x < n" by auto
    with False show ?thesis by (intro exI[of _ "x # pre"]) auto
  qed
qed simp

text \<open>Remark. Resumption replays exactly the missing tail: a resume request is granted if
  and only if it names the window's epoch and a first sequence between the oldest retained frame
  and one past the newest, and then the frames returned are a suffix of the window, in order,
  all from the requested sequence on, everything before it being older.\<close>

theorem resume_returns_suffix:
  assumes "window_ok w"
  shows "(is_ok (retained_from w epoch n) \<longleftrightarrow> epoch = rw_epoch w \<and> rw_entries w \<noteq> [] \<and>
      re_frame_seq (hd (rw_entries w)) \<le> n \<and>
      unat n \<le> Suc (unat (re_frame_seq (last (rw_entries w))))) \<and>
    (\<forall>es. retained_from w epoch n = Inr es \<longrightarrow>
      (\<exists>pre. rw_entries w = pre @ es \<and> (\<forall>e \<in> set pre. re_frame_seq e < n) \<and>
         (\<forall>e \<in> set es. n \<le> re_frame_seq e)))"
proof (cases "epoch = rw_epoch w \<and> rw_entries w \<noteq> []")
  case False
  then show ?thesis
    by (cases "rw_entries w") (auto simp: retained_from_def can_resume_def earliest_sequence_def
        latest_sequence_def)
next
  case True
  let ?lo = "re_frame_seq (hd (rw_entries w))" and ?hi = "re_frame_seq (last (rw_entries w))"
  have upper: "n > (if ?hi = 0xFFFFFFFF then ?hi else ?hi + 1) \<longleftrightarrow> \<not> unat n \<le> Suc (unat ?hi)"
  proof (cases "?hi = 0xFFFFFFFF")
    case True
    then have "unat n \<le> Suc (unat ?hi)" "\<not> n > ?hi"
      using unat_u32_less[of n] by (simp_all add: word_less_nat_alt)
    with True show ?thesis by simp
  next
    case False
    then show ?thesis by (simp add: word_less_nat_alt unat_plus_one_u32 not_le)
  qed
  have resume: "can_resume w \<lparr>rp_transcript_hash = h, rp_epoch = epoch, rp_first_required_seq = n\<rparr>
      = (if n < ?lo \<or> \<not> unat n \<le> Suc (unat ?hi)
         then Inl (make_error ES_connection EC_resume_rejected CA_close_connection
                     ''resume range is outside retained replay window'')
         else Inr ())" for h
    using True upper by (cases "rw_entries w") (auto simp: can_resume_def earliest_sequence_def
        latest_sequence_def Let_def)
  obtain pre where "rw_entries w = pre @ filter (\<lambda>e. n \<le> re_frame_seq e) (rw_entries w)"
    "\<forall>e \<in> set pre. re_frame_seq e < n"
    using sorted_filter_suffix[of re_frame_seq "rw_entries w" n] assms
    by (auto simp: window_ok_def seqs_def)
  then show ?thesis
    using True resume by (auto simp: retained_from_def not_less)
qed

theorem resume_returns_suffix_witness:
  "let w = fst (record_all (replay_window 4) [(3, [1]), (5, [2]), (9, [3])])
   in \<exists>pre es. retained_from w 1 5 = Inr es \<and> rw_entries w = pre @ es"
proof -
  let ?w = "fst (record_all (replay_window 4) [(3, [1]), (5, [2]), (9, [3])])"
  have ok: "window_ok ?w"
    by (simp add: replay_window_def record_frame_def window_contains_def window_ok_def seqs_def)
  have "rw_epoch ?w = 1" "map re_frame_seq (rw_entries ?w) = [3, 5, 9]"
    by (simp_all add: replay_window_def record_frame_def window_contains_def)
  then have "is_ok (retained_from ?w 1 5)" using resume_returns_suffix[OF ok, of 1 5] by auto
  then obtain es where es: "retained_from ?w 1 5 = Inr es" by (auto simp: is_ok_iff)
  then show ?thesis using resume_returns_suffix[OF ok, of 1 5] unfolding Let_def by metis
qed

section \<open>Retries\<close>

text \<open>Remark. Every round of retries raises the count of each retained frame by one and
  returns all of them, until some frame has reached the limit: then the round fails, and the
  frames retained before that one have nevertheless been counted once more.\<close>

theorem retry_round:
  "case due_for_retry w retry_limit of (w', res) \<Rightarrow>
     (if \<forall>e \<in> set (rw_entries w). re_retries e < retry_limit
      then res = Inr (map (\<lambda>e. e\<lparr>re_retries := re_retries e + 1\<rparr>) (rw_entries w)) \<and>
        rw_entries w' = map (\<lambda>e. e\<lparr>re_retries := re_retries e + 1\<rparr>) (rw_entries w)
      else (\<exists>err. res = Inl err \<and> err_code err = EC_sequence_error) \<and>
        rw_entries w' = map (\<lambda>e. e\<lparr>re_retries := re_retries e + 1\<rparr>)
            (takeWhile (\<lambda>e. re_retries e < retry_limit) (rw_entries w)) @
          dropWhile (\<lambda>e. re_retries e < retry_limit) (rw_entries w))"
proof -
  have "case retry_loop retry_limit es of (es', res) \<Rightarrow>
     (if \<forall>e \<in> set es. re_retries e < retry_limit
      then res = Inr (map (\<lambda>e. e\<lparr>re_retries := re_retries e + 1\<rparr>) es) \<and>
        es' = map (\<lambda>e. e\<lparr>re_retries := re_retries e + 1\<rparr>) es
      else (\<exists>err. res = Inl err \<and> err_code err = EC_sequence_error) \<and>
        es' = map (\<lambda>e. e\<lparr>re_retries := re_retries e + 1\<rparr>)
            (takeWhile (\<lambda>e. re_retries e < retry_limit) es) @
          dropWhile (\<lambda>e. re_retries e < retry_limit) es)" for es
    by (induction retry_limit es rule: retry_loop.induct)
      (auto simp: Let_def not_le split: prod.splits if_splits)
  from this[of "rw_entries w"] show ?thesis
    by (auto simp: due_for_retry_def split: prod.splits if_splits)
qed

theorem retry_round_witness:
  "snd (due_for_retry \<lparr>rw_capacity = 8, rw_epoch = 1, rw_entries =
       [\<lparr>re_epoch = 1, re_frame_seq = 3, re_encoded = [1], re_retries = 2\<rparr>]\<rparr> 5)
   = Inr [\<lparr>re_epoch = 1, re_frame_seq = 3, re_encoded = [1], re_retries = 3\<rparr>]"
  using retry_round[of "\<lparr>rw_capacity = 8, rw_epoch = 1, rw_entries =
       [\<lparr>re_epoch = 1, re_frame_seq = 3, re_encoded = [1], re_retries = 2\<rparr>]\<rparr>" 5]
  by (simp split: prod.splits)

section \<open>The ACK payload is a codec\<close>

lemma word16_header:
  "word16_be ((append_u16 (append_u16 [] a) b @ xs) ! 0) ((append_u16 (append_u16 [] a) b @ xs) ! 1) = a"
  "word16_be ((append_u16 (append_u16 [] a) b @ xs) ! 2) ((append_u16 (append_u16 [] a) b @ xs) ! 3) = b"
  by (simp_all add: append_u16_def word16_be_fields)

lemma concat_ranges_length [simp]: "length (concat (map (append_range []) rs)) = 8 * length rs"
  by (induction rs) simp_all

lemma encode_ack_payload_iff:
  "encode_ack_payload epoch ranges = Inr out \<longleftrightarrow>
     check_ranges None None (sort_key ar_first ranges) = Inr () \<and> length ranges \<le> 0xFFFF \<and>
     out = append_u16 (append_u16 [] epoch) (of_nat (length ranges)) @
           concat (map (append_range []) (sort_key ar_first ranges))"
  by (auto simp: encode_ack_payload_def Let_def foldl_append_range split: sum.splits)

lemma check_ranges_sorted:
  "check_ranges latest None rs = Inr () \<Longrightarrow> sort_key ar_first rs = rs"
proof -
  assume "check_ranges latest None rs = Inr ()"
  then have s: "sorted_wrt (\<lambda>a b. ar_last a < ar_first b) rs" "list_all (\<lambda>r. ar_first r \<le> ar_last r) rs"
    by (auto simp: check_ranges_ok list_all_iff)
  have "sorted (map ar_first rs)"
    using s
  proof (induction rs)
    case (Cons r rs)
    then show ?case by (auto simp: list_all_iff intro: less_imp_le le_less_trans)
  qed simp
  then show ?thesis by (rule sort_key_id_if_sorted)
qed

text \<open>The decoder takes the ranges in whatever order they come, as long as sorting them makes
  them valid.\<close>

lemma decode_any_order:
  assumes "check_ranges None None (sort_key ar_first rs) = Inr ()" "length rs \<le> 0xFFFF"
    and "payload = append_u16 (append_u16 [] epoch) (of_nat (length rs)) @ concat (map (append_range []) rs)"
  shows "decode_ack_payload payload = Inr (epoch, rs)"
proof -
  have n: "unat (of_nat (length rs) :: u16) = length rs" using assms(2) by (simp add: unat_of_nat)
  have four: "length (append_u16 (append_u16 [] epoch) c) = 4" for c by (simp add: append_u16_def)
  have "read_list read_range (length rs) payload 4 = Inr (rs, 4 + 8 * length rs)"
    using ack_range.read_list_put[of rs "append_u16 (append_u16 [] epoch) (of_nat (length rs))" "[]"]
    unfolding assms(3) four by (simp only: list_all_iff append_Nil2 concat_ranges_length) simp
  moreover have "is_ok (encode_ack_payload epoch rs)"
    using assms(1,2) encode_ack_payload_iff[of epoch rs] by (simp add: is_ok_iff)
  then obtain out where "encode_ack_payload epoch rs = Inr out" by (auto simp: is_ok_iff)
  moreover have "length payload = 4 + 8 * length rs" by (simp add: assms(3))
  ultimately show ?thesis
    using n word16_header[of epoch "of_nat (length rs)" "concat (map (append_range []) rs)"]
    by (simp add: decode_ack_payload_def Let_def assms(3)[symmetric])
qed

text \<open>Remark. An encoded ACK payload decodes to its epoch and its ranges in ascending order.\<close>

theorem ack_payload_roundtrip:
  assumes "encode_ack_payload epoch ranges = Inr out"
  shows "decode_ack_payload out = Inr (epoch, sort_key ar_first ranges)"
proof (rule decode_any_order)
  have chk: "check_ranges None None (sort_key ar_first ranges) = Inr ()"
    using assms by (simp add: encode_ack_payload_iff)
  then show "check_ranges None None (sort_key ar_first (sort_key ar_first ranges)) = Inr ()"
    by (simp add: check_ranges_sorted[OF chk])
qed (use assms in \<open>simp_all add: encode_ack_payload_iff\<close>)

theorem ack_payload_roundtrip_witness:
  "decode_ack_payload [0, 1, 0, 2, 0, 0, 0, 3, 0, 0, 0, 4, 0, 0, 0, 9, 0, 0, 0, 9]
   = Inr (1, sort_key ar_first [\<lparr>ar_first = 9, ar_last = 9\<rparr>, \<lparr>ar_first = 3, ar_last = 4\<rparr>])"
proof (rule ack_payload_roundtrip)
  show "encode_ack_payload 1 [\<lparr>ar_first = 9, ar_last = 9\<rparr>, \<lparr>ar_first = 3, ar_last = 4\<rparr>]
    = Inr [0, 1, 0, 2, 0, 0, 0, 3, 0, 0, 0, 4, 0, 0, 0, 9, 0, 0, 0, 9]"
    by (simp add: encode_ack_payload_def append_range_def append_u16_def append_u32_def)
qed

text \<open>Remark. The decoder is not canonical, though it re-encodes to check: the re-encoding
  sorts a copy, so a payload with its ranges in descending order is accepted although no encoder
  writes it.\<close>

theorem ack_payload_not_canonical:
  "decode_ack_payload [0, 1, 0, 2, 0, 0, 0, 9, 0, 0, 0, 9, 0, 0, 0, 3, 0, 0, 0, 4]
     = Inr (1, [\<lparr>ar_first = 9, ar_last = 9\<rparr>, \<lparr>ar_first = 3, ar_last = 4\<rparr>]) \<and>
   encode_ack_payload 1 [\<lparr>ar_first = 9, ar_last = 9\<rparr>, \<lparr>ar_first = 3, ar_last = 4\<rparr>]
     = Inr [0, 1, 0, 2, 0, 0, 0, 3, 0, 0, 0, 4, 0, 0, 0, 9, 0, 0, 0, 9]"
proof
  show "decode_ack_payload [0, 1, 0, 2, 0, 0, 0, 9, 0, 0, 0, 9, 0, 0, 0, 3, 0, 0, 0, 4]
     = Inr (1, [\<lparr>ar_first = 9, ar_last = 9\<rparr>, \<lparr>ar_first = 3, ar_last = 4\<rparr>])"
    by (rule decode_any_order) (simp_all add: append_range_def append_u16_def append_u32_def)
qed (simp add: encode_ack_payload_def append_range_def append_u16_def append_u32_def)

end
