(* ===== verification/Text_Format.thy ===== *)
theory Text_Format
  imports Prelude "HOL-Library.Char_ord"
begin

text \<open>
  The text the program reads and writes: decimal numbers and hexadecimal bytes as
  \<open>std::ostream\<close> prints them, lines as \<open>std::getline\<close> cuts them, and fields up to a separator.
  Each printer is followed by its inverse, so that the components that store text (replay
  snapshots, traces, route policies) get their round trips from here.
\<close>

section \<open>Decimal\<close>

definition digit_char :: "nat \<Rightarrow> char" where
  "digit_char d = char_of (48 + d)"

fun decimal :: "nat \<Rightarrow> string" where
  "decimal n = (if n < 10 then [digit_char n] else decimal (n div 10) @ [digit_char (n mod 10)])"

declare decimal.simps [simp del]

definition is_digit :: "char \<Rightarrow> bool" where
  "is_digit ch \<longleftrightarrow> \<not> (ch < CHR ''0'' \<or> ch > CHR ''9'')"

definition digit_of :: "char \<Rightarrow> nat" where
  "digit_of ch = of_char ch - of_char (CHR ''0'')"

lemma of_digit_char: "d < 10 \<Longrightarrow> of_char (digit_char d) = 48 + d"
  by (simp add: digit_char_def)

lemma digit_char_simps [simp]:
  assumes "d < 10"
  shows "is_digit (digit_char d)" "digit_of (digit_char d) = d"
  using of_digit_char[OF assms] assms by (simp_all add: is_digit_def digit_of_def less_char_def)

lemma digit_of_less: "is_digit ch \<Longrightarrow> digit_of ch < 10"
  by (auto simp: is_digit_def digit_of_def less_char_def not_less)

lemma decimal_nonempty [simp]: "decimal n \<noteq> []"
  by (subst decimal.simps) simp

lemma decimal_digits: "list_all is_digit (decimal n)"
proof (induction n rule: decimal.induct)
  case (1 n)
  then show ?case by (subst decimal.simps) (auto simp: not_less)
qed

lemma digit_not: "is_digit ch \<Longrightarrow> ch \<noteq> CHR ''|'' \<and> ch \<noteq> CHR 0x0A"
  by (auto simp: is_digit_def less_char_def)

section \<open>Hexadecimal\<close>

definition hex_digit :: "nat \<Rightarrow> char" where
  "hex_digit d = (if d < 10 then char_of (48 + d) else char_of (97 + (d - 10)))"

definition hex_byte :: "u8 \<Rightarrow> string" where
  "hex_byte byte = [hex_digit (unat byte div 16), hex_digit (unat byte mod 16)]"

definition hex :: "bytes \<Rightarrow> string" where
  "hex bs = concat (map hex_byte bs)"

text \<open>The lambda \<open>nibble\<close>, \<open>None\<close> where it returns \<open>-1\<close>.\<close>

definition nibble :: "char \<Rightarrow> nat option" where
  "nibble ch =
     (if CHR ''0'' \<le> ch \<and> ch \<le> CHR ''9'' then Some (of_char ch - of_char (CHR ''0''))
      else if CHR ''a'' \<le> ch \<and> ch \<le> CHR ''f'' then Some (10 + of_char ch - of_char (CHR ''a''))
      else if CHR ''A'' \<le> ch \<and> ch \<le> CHR ''F'' then Some (10 + of_char ch - of_char (CHR ''A''))
      else None)"

lemma nibble_hex_digit: "d < 16 \<Longrightarrow> nibble (hex_digit d) = Some d"
  by (auto simp: nibble_def hex_digit_def less_eq_char_def)

lemma nibble_less: "nibble ch = Some d \<Longrightarrow> d < 16"
  by (auto simp: nibble_def less_eq_char_def split: if_splits)

lemma byte_of_nibbles:
  "of_nat (unat b div 16 * 16 + unat b mod 16) = b" for b :: u8
  by simp

lemma hex_digit_not: "d < 16 \<Longrightarrow> hex_digit d \<noteq> CHR ''|'' \<and> hex_digit d \<noteq> CHR 0x0A"
  using nibble_hex_digit[of d] by (auto simp: nibble_def less_eq_char_def)

lemma unat_byte_div [simp]: "unat (b :: u8) div 16 < 16"
  using unat_u8_less[of b] by simp

lemma hex_chars: "ch \<in> set (hex bs) \<Longrightarrow> ch \<noteq> CHR ''|'' \<and> ch \<noteq> CHR 0x0A"
  using hex_digit_not by (auto simp: hex_def hex_byte_def)

lemma hex_simps [simp]: "hex [] = []" "hex (b # bs) = hex_byte b @ hex bs" "hex bs = [] \<longleftrightarrow> bs = []"
  by (auto simp: hex_def hex_byte_def)

section \<open>Lines and fields\<close>

function getlines :: "string \<Rightarrow> string list" where
  "getlines s =
     (if s = [] then []
      else takeWhile (\<lambda>c. c \<noteq> CHR 0x0A) s #
           (case dropWhile (\<lambda>c. c \<noteq> CHR 0x0A) s of [] \<Rightarrow> [] | _ # rest \<Rightarrow> getlines rest))"
  by pat_completeness auto
termination
proof (relation "measure length")
  fix s :: string and c rest assume "dropWhile (\<lambda>c. c \<noteq> CHR 0x0A) s = c # rest"
  then have "length (c # rest) \<le> length s" by (metis length_dropWhile_le)
  then show "(rest, s) \<in> measure length" by simp
qed simp

declare getlines.simps [simp del]

lemma getlines_Nil [simp]: "getlines [] = []"
  by (simp add: getlines.simps)

lemma getlines_line:
  "CHR 0x0A \<notin> set l \<Longrightarrow> getlines (l @ CHR 0x0A # rest) = l # getlines rest"
proof -
  assume "CHR 0x0A \<notin> set l"
  then have "\<And>c. c \<in> set l \<Longrightarrow> c \<noteq> CHR 0x0A" by metis
  then show ?thesis by (subst getlines.simps) (simp add: takeWhile_append2 dropWhile_append2)
qed

lemma getlines_plain: "l \<in> set (getlines s) \<Longrightarrow> CHR 0x0A \<notin> set l"
proof (induction s rule: getlines.induct)
  case (1 s)
  have "s \<noteq> []" using "1.prems" by auto
  then have "l = takeWhile (\<lambda>c. c \<noteq> CHR 0x0A) s \<or>
      (\<exists>c rest. dropWhile (\<lambda>c. c \<noteq> CHR 0x0A) s = c # rest \<and> l \<in> set (getlines rest))"
    using "1.prems" getlines.simps[of s] by (auto split: list.splits)
  then show ?case using "1.IH" \<open>s \<noteq> []\<close> by (auto dest: set_takeWhileD)
qed

text \<open>What is before and after the first separator, \<open>None\<close> when there is none.\<close>

fun cut_at :: "char \<Rightarrow> string \<Rightarrow> (string \<times> string) option" where
  "cut_at sep [] = None"
| "cut_at sep (c # s) =
     (if c = sep then Some ([], s)
      else case cut_at sep s of None \<Rightarrow> None | Some (before, after) \<Rightarrow> Some (c # before, after))"

lemma cut_at_append [simp]: "sep \<notin> set s \<Longrightarrow> cut_at sep (s @ sep # rest) = Some (s, rest)"
  by (induction s) auto

lemma cut_at_Some: "cut_at sep s = Some (before, after) \<Longrightarrow> s = before @ sep # after \<and> sep \<notin> set before"
  by (induction s arbitrary: before) (auto split: if_splits option.splits)

lemma cut_parts: "cut_at sep s = Some (a, b) \<Longrightarrow> set a \<subseteq> set s \<and> set b \<subseteq> set s \<and> sep \<notin> set a"
  using cut_at_Some[of sep s a b] by auto

definition starts_with :: "string \<Rightarrow> string \<Rightarrow> bool" where
  "starts_with prefix s \<longleftrightarrow> take (length prefix) s = prefix"

section \<open>Reading numbers and hexadecimal\<close>

text \<open>
  The readers of \<^verbatim>\<open>replay_window.cpp\<close>, \<^verbatim>\<open>trace.cpp\<close> and \<^verbatim>\<open>route_policy.cpp\<close> are the same
  loops over different errors, and over different overflow tests: both are parameters here.
\<close>

fun hex_loop :: "'e \<Rightarrow> bytes \<Rightarrow> string \<Rightarrow> 'e + bytes" where
  "hex_loop bad out (h # l # rest) =
     (case (nibble h, nibble l) of
        (Some high, Some low) \<Rightarrow> hex_loop bad (out @ [of_nat (high * 16 + low)]) rest
      | _ \<Rightarrow> Inl bad)"
| "hex_loop bad out _ = Inr out"

fun decimal_loop :: "(nat \<Rightarrow> nat \<Rightarrow> bool) \<Rightarrow> 'e \<Rightarrow> 'e \<Rightarrow> nat \<Rightarrow> string \<Rightarrow> 'e + nat" where
  "decimal_loop over bad overflow v [] = Inr v"
| "decimal_loop over bad overflow v (ch # s) =
     (if ch < CHR ''0'' \<or> ch > CHR ''9'' then Inl bad
      else
        let digit = digit_of ch
        in if over v digit then Inl overflow
           else decimal_loop over bad overflow (v * 10 + digit) s)"

lemma length_hex [simp]: "length (hex bs) = 2 * length bs"
  by (induction bs) (simp_all add: hex_byte_def)

lemma hex_loop_hex: "hex_loop bad out (hex bs) = Inr (out @ bs)"
proof (induction bs arbitrary: out)
  case (Cons b bs)
  have "hex_loop bad out (hex (b # bs)) = hex_loop bad (out @ [b]) (hex bs)"
    by (simp add: hex_byte_def nibble_hex_digit del: hex_simps(3))
  then show ?case using Cons by simp
qed simp

text \<open>An overflow test that is exact for a largest value.\<close>

locale decimal_reader =
  fixes over :: "nat \<Rightarrow> nat \<Rightarrow> bool" and top :: nat
  assumes over_iff: "v \<le> top \<Longrightarrow> d < 10 \<Longrightarrow> over v d \<longleftrightarrow> top < v * 10 + d"
begin

lemma loop_append:
  assumes "decimal_loop over bad overflow v s = Inr n" "n \<le> top" "is_digit ch"
    "10 * n + digit_of ch \<le> top"
  shows "decimal_loop over bad overflow v (s @ [ch]) = Inr (10 * n + digit_of ch)"
  using assms
proof (induction s arbitrary: v)
  case Nil
  then have "\<not> over n (digit_of ch)"
    using over_iff[of n "digit_of ch"] digit_of_less[of ch] by simp
  with Nil show ?case by (simp add: is_digit_def Let_def not_less)
next
  case (Cons c s)
  then show ?case by (auto simp: Let_def split: if_splits)
qed

lemma loop_decimal: "n \<le> top \<Longrightarrow> decimal_loop over bad overflow 0 (decimal n) = Inr n"
proof (induction n rule: decimal.induct)
  case (1 n)
  show ?case
  proof (cases "n < 10")
    case True
    then have "decimal_loop over bad overflow 0 ([] @ [digit_char n]) =
        Inr (10 * 0 + digit_of (digit_char n))"
      using 1(2) by (intro loop_append) simp_all
    then show ?thesis using True by (subst decimal.simps) simp
  next
    case False
    then have "decimal_loop over bad overflow 0 (decimal (n div 10)) = Inr (n div 10)"
      using 1 by simp
    then have "decimal_loop over bad overflow 0 (decimal (n div 10) @ [digit_char (n mod 10)]) =
        Inr (10 * (n div 10) + digit_of (digit_char (n mod 10)))"
      by (rule loop_append) (use 1(2) in simp_all)
    then show ?thesis using False by (subst decimal.simps) simp
  qed
qed

lemma loop_bounded: "decimal_loop over bad overflow v s = Inr n \<Longrightarrow> v \<le> top \<Longrightarrow> n \<le> top"
proof (induction s arbitrary: v)
  case (Cons ch s)
  then have ch: "is_digit ch" and step: "\<not> over v (digit_of ch)"
    and rest: "decimal_loop over bad overflow (v * 10 + digit_of ch) s = Inr n"
    by (auto simp: is_digit_def Let_def split: if_splits)
  have "v * 10 + digit_of ch \<le> top"
    using over_iff[OF Cons.prems(2) digit_of_less[OF ch]] step by simp
  then show ?case by (rule Cons.IH[OF rest])
qed simp

lemma decimal_injective: "m \<le> top \<Longrightarrow> n \<le> top \<Longrightarrow> decimal m = decimal n \<Longrightarrow> m = n"
  using loop_decimal[of m] loop_decimal[of n] by (metis sum.inject(2))

end

text \<open>The test of the 64-bit readers, \<open>value > (max - digit) / 10\<close>.\<close>

definition u64_over :: "nat \<Rightarrow> nat \<Rightarrow> bool" where
  "u64_over v digit \<longleftrightarrow> v > (2 ^ 64 - 1 - digit) div 10"

interpretation u64_text: decimal_reader u64_over "2 ^ 64 - 1"
proof unfold_locales
  fix v d :: nat
  assume "v \<le> 2 ^ 64 - 1" "d < 10"
  then show "u64_over v d \<longleftrightarrow> 2 ^ 64 - 1 < v * 10 + d" unfolding u64_over_def by simp arith
qed

lemma no_bar_decimal [simp]: "CHR ''|'' \<notin> set (decimal n)" "CHR 0x0A \<notin> set (decimal n)"
  using decimal_digits[of n] digit_not by (auto simp: list_all_iff)

lemma no_bar_hex [simp]: "CHR ''|'' \<notin> set (hex bs)" "CHR 0x0A \<notin> set (hex bs)"
  using hex_chars by blast+

section \<open>Channel names\<close>

text \<open>\<open>ChannelId::str\<close>: number, colon, generation. Two channels have the same name only if they
  are the same.\<close>

definition channel_str :: "ChannelId \<Rightarrow> string" where
  "channel_str ch = decimal (unat (cid_number ch)) @ '':'' @ decimal (unat (cid_generation ch))"

lemma digits_plain: "list_all is_digit s \<Longrightarrow> \<not> is_digit c \<Longrightarrow> c \<notin> set s"
  by (auto simp: list_all_iff)

lemma decimal_plain: "\<not> is_digit c \<Longrightarrow> c \<notin> set (decimal n)"
  by (rule digits_plain[OF decimal_digits])

lemma no_colon_decimal [simp]: "CHR '':'' \<notin> set (decimal n)"
  by (rule decimal_plain) (simp add: is_digit_def less_char_def)

lemma channel_str_cut:
  "cut_at (CHR '':'') (channel_str ch) =
     Some (decimal (unat (cid_number ch)), decimal (unat (cid_generation ch)))"
  by (simp add: channel_str_def)

lemma channel_str_injective: "channel_str a = channel_str b \<longleftrightarrow> a = b"
proof
  assume same: "channel_str a = channel_str b"
  have small: "unat (cid_number c) \<le> 2 ^ 64 - 1" "unat (cid_generation c) \<le> 2 ^ 64 - 1" for c
    using unat_u32_less[of "cid_number c"] unat_u8_less[of "cid_generation c"] by simp_all
  have "decimal (unat (cid_number a)) = decimal (unat (cid_number b))"
    "decimal (unat (cid_generation a)) = decimal (unat (cid_generation b))"
    using channel_str_cut[of a] channel_str_cut[of b] same by simp_all
  then have "cid_number a = cid_number b" "cid_generation a = cid_generation b"
    using u64_text.decimal_injective small by (metis word_unat_eq_iff)+
  then show "a = b" by (cases a; cases b) simp
qed simp

end
