(* ===== verification/Replay_Snapshot.thy ===== *)
theory Replay_Snapshot
  imports Replay_Window Text_Format
begin

text \<open>
  The stored form of a replay window: \<open>serialize_retained\<close> and \<open>restore_retained\<close> of
  \<^verbatim>\<open>src/replay/replay_window.cpp\<close>, with their number and hexadecimal readers. A window that was
  filled in order survives the round trip, and whatever text is accepted gives a window that a
  running connection could have.
\<close>

definition snapshot_error :: "string \<Rightarrow> Error" where
  "snapshot_error detail = make_error ES_connection EC_resource_limit CA_none detail"

definition parse_hex :: "string \<Rightarrow> bytes result" where
  "parse_hex s =
     (if length s mod 2 \<noteq> 0 then Inl (snapshot_error ''replay snapshot hex has odd length'')
      else hex_loop (snapshot_error ''replay snapshot hex contains non-hex byte'') [] s)"

definition parse_u64 :: "string \<Rightarrow> nat result" where
  "parse_u64 s =
     (if s = [] then Inl (snapshot_error ''replay snapshot integer is empty'')
      else decimal_loop u64_over (snapshot_error ''replay snapshot integer is not decimal'')
             (snapshot_error ''replay snapshot integer overflows'') 0 s)"

section \<open>Writing\<close>

definition entry_line :: "ReplayEntry \<Rightarrow> string" where
  "entry_line e = ''entry|'' @ decimal (unat (re_frame_seq e)) @ ''|'' @
     decimal (unat (re_retries e)) @ ''|'' @ hex (re_encoded e) @ [CHR 0x0A]"

definition serialize_retained :: "ReplayWindow \<Rightarrow> string" where
  "serialize_retained w =
     ''LTXREPLAY/1'' @ [CHR 0x0A] @
     ''capacity|'' @ decimal (rw_capacity w) @ [CHR 0x0A] @
     ''epoch|'' @ decimal (unat (rw_epoch w)) @ [CHR 0x0A] @
     concat (map entry_line (rw_entries w))"

section \<open>Reading\<close>

definition resume_error :: "string \<Rightarrow> Error" where
  "resume_error detail = make_error ES_connection EC_resume_rejected CA_close_connection detail"

text \<open>One line of the entry section.\<close>

definition parse_entry :: "string \<Rightarrow> (nat \<times> nat \<times> bytes) result" where
  "parse_entry line =
     (case cut_at (CHR ''|'') line of
        None \<Rightarrow> Inl (resume_error ''malformed replay snapshot entry'')
      | Some (tag, rest1) \<Rightarrow>
          (case cut_at (CHR ''|'') rest1 of
             None \<Rightarrow> Inl (resume_error ''malformed replay snapshot entry'')
           | Some (seq_text, rest2) \<Rightarrow>
               (case cut_at (CHR ''|'') rest2 of
                  None \<Rightarrow> Inl (resume_error ''malformed replay snapshot entry'')
                | Some (retries_text, hex_text) \<Rightarrow>
                    if tag \<noteq> ''entry'' then Inl (resume_error ''malformed replay snapshot entry'')
                    else
                      (case (parse_u64 seq_text, parse_u64 retries_text, parse_hex hex_text) of
                         (Inr seq, Inr retries, Inr encoded) \<Rightarrow>
                           if seq > 0xFFFFFFFF \<or> retries > 0xFF \<or> encoded = []
                           then Inl (resume_error ''replay snapshot entry is invalid'')
                           else Inr (seq, retries, encoded)
                       | _ \<Rightarrow> Inl (resume_error ''replay snapshot entry is invalid'')))))"

fun restore_entries :: "ReplayWindow \<Rightarrow> u32 option \<Rightarrow> string list \<Rightarrow> ReplayWindow result" where
  "restore_entries restored previous_seq [] = Inr restored"
| "restore_entries restored previous_seq (line # lines) =
     (if line = [] then restore_entries restored previous_seq lines
      else
        (case parse_entry line of
           Inl e \<Rightarrow> Inl e
         | Inr (seq, retries, encoded) \<Rightarrow>
             let frame_seq = of_nat seq
             in if (case previous_seq of None \<Rightarrow> False | Some p \<Rightarrow> p \<ge> frame_seq)
                then Inl (resume_error ''replay snapshot entries are not ordered'')
                else if length (rw_entries restored) \<ge> rw_capacity restored
                then Inl (resume_error ''replay snapshot exceeds capacity'')
                else restore_entries
                       (restored\<lparr>rw_entries := rw_entries restored @
                          [\<lparr>re_epoch = rw_epoch restored, re_frame_seq = frame_seq,
                            re_encoded = encoded, re_retries = of_nat retries\<rparr>]\<rparr>)
                       (Some frame_seq) lines))"

definition restore_retained :: "string \<Rightarrow> ReplayWindow result" where
  "restore_retained s =
     (case getlines s of
        [] \<Rightarrow> Inl (resume_error ''replay snapshot header mismatch'')
      | header # lines1 \<Rightarrow>
          if header \<noteq> ''LTXREPLAY/1''
          then Inl (resume_error ''replay snapshot header mismatch'')
          else
            (case lines1 of
               [] \<Rightarrow> Inl (resume_error ''replay snapshot missing capacity'')
             | line1 # lines2 \<Rightarrow>
                 if \<not> starts_with ''capacity|'' line1
                 then Inl (resume_error ''replay snapshot missing capacity'')
                 else
                   (case parse_u64 (drop 9 line1) of
                      Inl _ \<Rightarrow> Inl (resume_error ''replay snapshot capacity is invalid'')
                    | Inr capacity \<Rightarrow>
                        if capacity = 0 \<or> capacity > SIZE_MAX
                        then Inl (resume_error ''replay snapshot capacity is invalid'')
                        else
                          (case lines2 of
                             [] \<Rightarrow> Inl (resume_error ''replay snapshot missing epoch'')
                           | line2 # lines3 \<Rightarrow>
                               if \<not> starts_with ''epoch|'' line2
                               then Inl (resume_error ''replay snapshot missing epoch'')
                               else
                                 (case parse_u64 (drop 6 line2) of
                                    Inl _ \<Rightarrow> Inl (resume_error ''replay snapshot epoch is invalid'')
                                  | Inr epoch \<Rightarrow>
                                      if epoch = 0 \<or> epoch > 0xFFFF
                                      then Inl (resume_error ''replay snapshot epoch is invalid'')
                                      else restore_entries
                                             ((replay_window capacity)\<lparr>rw_epoch := of_nat epoch\<rparr>)
                                             None lines3)))))"

section \<open>The readers invert the writers\<close>

lemma parse_hex_inverse: "parse_hex (hex bs) = Inr bs"
  by (simp add: parse_hex_def hex_loop_hex)

lemma parse_u64_inverse: "n < 2 ^ 64 \<Longrightarrow> parse_u64 (decimal n) = Inr n"
  by (simp add: parse_u64_def u64_text.loop_decimal)

definition entry_text :: "ReplayEntry \<Rightarrow> string" where
  "entry_text e = ''entry'' @ CHR ''|'' # decimal (unat (re_frame_seq e)) @ CHR ''|'' #
     decimal (unat (re_retries e)) @ CHR ''|'' # hex (re_encoded e)"

lemma entry_line_text: "entry_line e = entry_text e @ [CHR 0x0A]"
  by (simp add: entry_line_def entry_text_def)

lemma entry_text_line [simp]: "CHR 0x0A \<notin> set (entry_text e)" "entry_text e \<noteq> []"
  by (simp_all add: entry_text_def)

lemma unat_u8_small: "unat (b :: u8) \<le> 255"
  using unat_u8_less[of b] by simp

lemma unat_u32_small: "unat (b :: u32) \<le> 4294967295"
  using unat_u32_less[of b] by simp

lemma parse_entry_text:
  assumes "re_encoded e \<noteq> []"
  shows "parse_entry (entry_text e) = Inr (unat (re_frame_seq e), unat (re_retries e), re_encoded e)"
proof -
  have "unat (re_frame_seq e) < 2 ^ 64" "unat (re_retries e) < 2 ^ 64"
    using unat_u32_small[of "re_frame_seq e"] unat_u8_small[of "re_retries e"] by simp_all
  then show ?thesis
    unfolding parse_entry_def entry_text_def using assms
    by (simp only: cut_at_append[OF no_bar_decimal(1)] cut_at_append[of "CHR ''|''" "''entry''"]
        option.case prod.case) (simp add: parse_u64_inverse parse_hex_inverse not_less
        unat_u32_small unat_u8_small)
qed

lemma getlines_entries:
  "getlines (concat (map entry_line es)) = map entry_text es"
  by (induction es) (simp_all add: entry_line_text getlines_line)

lemma restore_entries_text:
  assumes "length (rw_entries w) + length es \<le> rw_capacity w"
    and "\<forall>e \<in> set es. re_epoch e = rw_epoch w \<and> re_encoded e \<noteq> []"
    and "sorted_wrt (<) (map re_frame_seq es)"
    and "\<forall>p. prev = Some p \<longrightarrow> (\<forall>e \<in> set es. p < re_frame_seq e)"
  shows "restore_entries w prev (map entry_text es) = Inr (w\<lparr>rw_entries := rw_entries w @ es\<rparr>)"
  using assms
proof (induction es arbitrary: w prev)
  case (Cons e es)
  let ?w = "w\<lparr>rw_entries := rw_entries w @ [e]\<rparr>"
  have e: "\<lparr>re_epoch = rw_epoch w, re_frame_seq = re_frame_seq e, re_encoded = re_encoded e,
      re_retries = re_retries e\<rparr> = e" using Cons.prems(2) by (cases e) simp
  have room: "\<not> length (rw_entries w) \<ge> rw_capacity w" using Cons.prems(1) by simp
  have order: "\<not> (case prev of None \<Rightarrow> False | Some p \<Rightarrow> p \<ge> re_frame_seq e)"
    using Cons.prems(4) by (auto split: option.splits)
  have "parse_entry (entry_text e) = Inr (unat (re_frame_seq e), unat (re_retries e), re_encoded e)"
    using Cons.prems(2) by (intro parse_entry_text) simp
  then have "restore_entries w prev (map entry_text (e # es)) =
      restore_entries ?w (Some (re_frame_seq e)) (map entry_text es)"
    using room order e by (cases prev) (simp_all add: Let_def)
  also have "\<dots> = Inr (?w\<lparr>rw_entries := rw_entries ?w @ es\<rparr>)"
    using Cons.prems by (intro Cons.IH) auto
  finally show ?case by simp
qed simp

definition storable :: "ReplayWindow \<Rightarrow> bool" where
  "storable w \<longleftrightarrow> window_ok w \<and> rw_capacity w \<le> SIZE_MAX \<and> rw_epoch w \<noteq> 0 \<and>
     list_all (\<lambda>e. re_encoded e \<noteq> []) (rw_entries w)"

lemma getlines_serialize:
  "getlines (serialize_retained w) = ''LTXREPLAY/1'' # (''capacity|'' @ decimal (rw_capacity w)) #
     (''epoch|'' @ decimal (unat (rw_epoch w))) # map entry_text (rw_entries w)"
proof -
  have line: "getlines (l @ [CHR 0x0A] @ rest) = l # getlines rest" if "CHR 0x0A \<notin> set l" for l rest
    using getlines_line[OF that] by simp
  have whole: "serialize_retained w = ''LTXREPLAY/1'' @ [CHR 0x0A] @
      (''capacity|'' @ decimal (rw_capacity w)) @ [CHR 0x0A] @
      (''epoch|'' @ decimal (unat (rw_epoch w))) @ [CHR 0x0A] @ concat (map entry_line (rw_entries w))"
    unfolding serialize_retained_def append_assoc by (rule refl)
  have plain: "CHR 0x0A \<notin> set ''LTXREPLAY/1''"
    "CHR 0x0A \<notin> set (''capacity|'' @ decimal (rw_capacity w))"
    "CHR 0x0A \<notin> set (''epoch|'' @ decimal (unat (rw_epoch w)))"
    by simp_all
  show ?thesis
    unfolding whole line[OF plain(1)] line[OF plain(2)] line[OF plain(3)] getlines_entries
    by (rule refl)
qed

lemma snapshot_restores:
  assumes "storable w"
  shows "restore_retained (serialize_retained w) = Inr w"
proof -
  have cap: "rw_capacity w < 2 ^ 64" "0 < rw_capacity w" "\<not> rw_capacity w > SIZE_MAX"
    using assms by (simp_all add: storable_def window_ok_def SIZE_MAX_def)
  have epoch: "unat (rw_epoch w) < 2 ^ 64" "unat (rw_epoch w) \<noteq> 0" "unat (rw_epoch w) \<le> 65535"
    using assms unat_u16_less[of "rw_epoch w"] by (auto simp: storable_def unat_eq_zero)
  let ?w0 = "(replay_window (rw_capacity w))\<lparr>rw_epoch := rw_epoch w\<rparr>"
  have "restore_entries ?w0 None (map entry_text (rw_entries w)) =
      Inr (?w0\<lparr>rw_entries := rw_entries ?w0 @ rw_entries w\<rparr>)"
    using assms
    by (intro restore_entries_text)
      (auto simp: storable_def window_ok_def seqs_def list_all_iff replay_window_def)
  moreover have "?w0\<lparr>rw_entries := rw_entries ?w0 @ rw_entries w\<rparr> = w"
    by (cases w) (simp add: replay_window_def)
  ultimately show ?thesis
    using cap epoch
    by (simp add: restore_retained_def getlines_serialize starts_with_def parse_u64_inverse not_less)
qed

text \<open>Property C20. A replay window survives being stored: whatever well-formed window (capacity
  and epoch not zero, non-empty frames in strictly increasing sequence, all of the window's
  epoch) is serialized, restoring the text gives the same window, entry for entry with the retry
  counts.\<close>

theorem snapshot_roundtrip:
  assumes "storable w"
  shows "restore_retained (serialize_retained w) = Inr w"
  using assms by (rule snapshot_restores)

lemma restore_entries_ok:
  "restore_entries w prev lines = Inr w' \<Longrightarrow>
   window_ok w \<and> list_all (\<lambda>e. re_encoded e \<noteq> []) (rw_entries w) \<and>
     (\<forall>p. prev = Some p \<longrightarrow> (\<forall>e \<in> set (rw_entries w). re_frame_seq e \<le> p)) \<and>
     (prev = None \<longrightarrow> rw_entries w = []) \<Longrightarrow>
   window_ok w' \<and> list_all (\<lambda>e. re_encoded e \<noteq> []) (rw_entries w') \<and>
     rw_capacity w' = rw_capacity w \<and> rw_epoch w' = rw_epoch w"
proof (induction lines arbitrary: w prev)
  case (Cons line lines)
  show ?case
  proof (cases "line = []")
    case True
    then show ?thesis using Cons.IH[of w prev] Cons.prems by simp
  next
    case False
    then obtain seq retries encoded where p: "parse_entry line = Inr (seq, retries, encoded)"
      using Cons.prems(1) by (auto split: sum.splits)
    have enc: "encoded \<noteq> []" using p
      by (auto simp: parse_entry_def split: option.splits sum.splits prod.splits if_splits)
    let ?q = "of_nat seq :: u32"
    let ?w = "w\<lparr>rw_entries := rw_entries w @ [\<lparr>re_epoch = rw_epoch w, re_frame_seq = ?q,
        re_encoded = encoded, re_retries = of_nat retries\<rparr>]\<rparr>"
    have order: "\<not> (case prev of None \<Rightarrow> False | Some p \<Rightarrow> p \<ge> ?q)"
      and room: "\<not> length (rw_entries w) \<ge> rw_capacity w"
      and rest: "restore_entries ?w (Some ?q) lines = Inr w'"
      using Cons.prems(1) False p by (auto simp: Let_def split: if_splits)
    have below: "\<forall>e \<in> set (rw_entries w). re_frame_seq e < ?q"
      using Cons.prems(2) order by (cases prev) (auto simp: not_le intro: le_less_trans)
    then have "window_ok ?w" using Cons.prems(2) room
      by (auto simp: window_ok_def seqs_def sorted_wrt_append)
    then show ?thesis using Cons.IH[OF rest] Cons.prems(2) below enc by (auto intro: less_imp_le)
  qed
qed simp

text \<open>Remark. No text can put a window in a bad state: whatever text is accepted, the window
  it gives has a non-zero capacity it does not exceed, a non-zero epoch that all its entries
  carry, strictly increasing sequences and non-empty frames; storing it again restores it.\<close>

theorem restored_window_sound:
  assumes "restore_retained s = Inr w"
  shows "window_ok w \<and> rw_epoch w \<noteq> 0 \<and> restore_retained (serialize_retained w) = Inr w"
proof -
  obtain capacity epoch lines where c: "capacity \<noteq> 0" "capacity \<le> SIZE_MAX"
    and e: "epoch \<noteq> 0" "epoch \<le> 0xFFFF"
    and r: "restore_entries ((replay_window capacity)\<lparr>rw_epoch := of_nat epoch\<rparr>) None lines = Inr w"
    using assms by (auto simp: restore_retained_def split: list.splits sum.splits if_splits)
  have start: "window_ok ((replay_window capacity)\<lparr>rw_epoch := of_nat epoch\<rparr>)"
    using c by (simp add: window_ok_def replay_window_def seqs_def)
  have ok: "window_ok w" "list_all (\<lambda>e. re_encoded e \<noteq> []) (rw_entries w)" "rw_capacity w = capacity"
    "rw_epoch w = of_nat epoch"
    using restore_entries_ok[OF r] start by (simp_all add: replay_window_def)
  have "unat (of_nat epoch :: u16) = epoch" using e by (simp add: unat_of_nat)
  then have "rw_epoch w \<noteq> 0" using e ok(4) by auto
  then have st: "storable w" using ok c(2) by (simp add: storable_def)
  then have "restore_retained (serialize_retained w) = Inr w"
    unfolding storable_def using snapshot_restores[OF st] by simp
  then show ?thesis using ok(1) \<open>rw_epoch w \<noteq> 0\<close> by simp
qed

definition sample_window :: ReplayWindow where
  "sample_window = \<lparr>rw_capacity = 8, rw_epoch = 1, rw_entries =
     [\<lparr>re_epoch = 1, re_frame_seq = 3, re_encoded = [0x4C, 0], re_retries = 2\<rparr>,
      \<lparr>re_epoch = 1, re_frame_seq = 12, re_encoded = [255], re_retries = 0\<rparr>]\<rparr>"

lemma sample_storable: "storable sample_window"
  by (simp add: storable_def sample_window_def window_ok_def seqs_def SIZE_MAX_def)

theorem snapshot_roundtrip_witness: "restore_retained (serialize_retained sample_window) = Inr sample_window"
  by (rule snapshot_roundtrip[OF sample_storable])

theorem restored_window_sound_witness:
  "window_ok sample_window \<and> rw_epoch sample_window \<noteq> 0 \<and>
     restore_retained (serialize_retained sample_window) = Inr sample_window"
  by (rule restored_window_sound[OF snapshot_restores[OF sample_storable]])

end
