(* ===== verification/Timer_Wheel.thy ===== *)
theory Timer_Wheel
  imports Prelude "HOL-Library.Product_Lexorder" "HOL-Library.Multiset"
begin

text \<open>
  The timers of a connection: \<open>TimerWheel\<close> and \<open>VirtualClock\<close> of
  \<^verbatim>\<open>include/lattice/replay.hpp\<close> and \<^verbatim>\<open>src/replay/replay_window.cpp\<close>. The wheel is a vector
  kept sorted by due time and identifier; \<open>schedule\<close> appends and sorts again, \<open>expire\<close> pops
  the front while it is due. \<open>TimerId\<close> is given the order of its value, so that the code's
  comparator is the lexicographic order on pairs. \<open>WheelOp\<close> histories state what a wheel does
  over its life: each scheduled timer is pending, fired or cancelled, exactly once.
\<close>

section \<open>Timers\<close>

datatype TimerId = TimerId (tid_value: u64)

instantiation TimerId :: linorder
begin

definition less_eq_TimerId :: "TimerId \<Rightarrow> TimerId \<Rightarrow> bool" where
  "less_eq_TimerId a b \<longleftrightarrow> tid_value a \<le> tid_value b"

definition less_TimerId :: "TimerId \<Rightarrow> TimerId \<Rightarrow> bool" where
  "less_TimerId a b \<longleftrightarrow> tid_value a < tid_value b"

instance
  by standard (auto simp: less_eq_TimerId_def less_TimerId_def intro: TimerId.expand)

end

datatype TimerKind =
    TK_handshake | TK_fragment_gap | TK_retry | TK_idle | TK_pong_deadline | TK_drain

record TimerEvent =
  te_id :: TimerId
  te_kind :: TimerKind
  te_channel :: ChannelId
  te_due :: u64

record TimerWheel =
  tw_next_id :: u64
  tw_timers :: "TimerEvent list"

definition timer_wheel :: TimerWheel where
  "timer_wheel = \<lparr>tw_next_id = 1, tw_timers = []\<rparr>"

definition timer_key :: "TimerEvent \<Rightarrow> u64 \<times> TimerId" where
  "timer_key e = (te_due e, te_id e)"

definition schedule :: "TimerWheel \<Rightarrow> TimerKind \<Rightarrow> ChannelId \<Rightarrow> u64 \<Rightarrow> TimerWheel \<times> TimerId" where
  "schedule w kind channel due =
     (let event = \<lparr>te_id = TimerId (tw_next_id w), te_kind = kind, te_channel = channel,
                   te_due = due\<rparr>
      in (w\<lparr>tw_next_id := tw_next_id w + 1,
            tw_timers := sort_key timer_key (tw_timers w @ [event])\<rparr>, te_id event))"

definition cancel :: "TimerWheel \<Rightarrow> TimerId \<Rightarrow> TimerWheel \<times> unit result" where
  "cancel w tid =
     (let timers = filter (\<lambda>e. te_id e \<noteq> tid) (tw_timers w)
      in if length timers = length (tw_timers w)
         then (w\<lparr>tw_timers := timers\<rparr>,
               Inl (make_error ES_internal EC_illegal_state CA_none ''timer id is not live''))
         else (w\<lparr>tw_timers := timers\<rparr>, Inr ()))"

fun expire_loop :: "u64 \<Rightarrow> TimerEvent list \<Rightarrow> TimerEvent list \<times> TimerEvent list" where
  "expire_loop now [] = ([], [])"
| "expire_loop now (e # es) =
     (if te_due e \<le> now then let (expired, rest) = expire_loop now es in (e # expired, rest)
      else ([], e # es))"

definition expire :: "TimerWheel \<Rightarrow> u64 \<Rightarrow> TimerWheel \<times> TimerEvent list" where
  "expire w now =
     (let (expired, rest) = expire_loop now (tw_timers w) in (w\<lparr>tw_timers := rest\<rparr>, expired))"

text \<open>\<open>VirtualClock::advance_ms\<close> wraps like every unsigned addition.\<close>

definition advance_ms :: "u64 \<Rightarrow> u64 \<Rightarrow> u64" where
  "advance_ms now delta = now + delta"

section \<open>Well-formed wheels\<close>

definition wheel_sorted :: "TimerWheel \<Rightarrow> bool" where
  "wheel_sorted w \<longleftrightarrow> sorted (map timer_key (tw_timers w))"

lemma wheel_sorted_new [simp]: "wheel_sorted timer_wheel"
  by (simp add: wheel_sorted_def timer_wheel_def)

lemma wheel_sorted_schedule [simp]: "wheel_sorted (fst (schedule w kind channel due))"
  by (simp add: wheel_sorted_def schedule_def Let_def)

lemma sorted_map_filter_key: "sorted (map f xs) \<Longrightarrow> sorted (map f (filter P xs))"
  by (simp add: sorted_filter)

lemma wheel_sorted_cancel: "wheel_sorted w \<Longrightarrow> wheel_sorted (fst (cancel w tid))"
  by (simp add: wheel_sorted_def cancel_def Let_def sorted_map_filter_key)

lemma expire_loop_filter:
  "sorted (map timer_key es) \<Longrightarrow>
   expire_loop now es = (filter (\<lambda>e. te_due e \<le> now) es, filter (\<lambda>e. now < te_due e) es)"
proof (induction es)
  case (Cons e es)
  have tail: "sorted (map timer_key es)" using Cons.prems by simp
  have "\<forall>x \<in> set es. timer_key e \<le> timer_key x" using Cons.prems by simp
  then have first: "\<forall>x \<in> set es. te_due e \<le> te_due x"
    by (auto simp: timer_key_def less_eq_prod_def)
  show ?case
  proof (cases "te_due e \<le> now")
    case True
    then show ?thesis using Cons.IH[OF tail] by (simp add: not_less)
  next
    case False
    then have "now < te_due e" by simp
    then have later: "\<forall>x \<in> set (e # es). now < te_due x" using first by (auto intro: less_le_trans)
    then have "filter (\<lambda>e. te_due e \<le> now) (e # es) = []"
      and "filter (\<lambda>e. now < te_due e) (e # es) = e # es"
      by (auto simp: filter_empty_conv filter_id_conv not_le)
    then show ?thesis using False by simp
  qed
qed simp

lemma expire_filter:
  "wheel_sorted w \<Longrightarrow>
   expire w now = (w\<lparr>tw_timers := filter (\<lambda>e. now < te_due e) (tw_timers w)\<rparr>,
                   filter (\<lambda>e. te_due e \<le> now) (tw_timers w))"
  by (simp add: expire_def wheel_sorted_def expire_loop_filter)

lemma wheel_sorted_expire: "wheel_sorted w \<Longrightarrow> wheel_sorted (fst (expire w now))"
  by (simp add: expire_filter) (simp add: wheel_sorted_def sorted_map_filter_key)

section \<open>Histories of a wheel\<close>

datatype WheelOp = OP_Schedule TimerKind ChannelId u64 | OP_Cancel TimerId | OP_Expire u64

record WheelLog =
  wl_wheel :: TimerWheel
  wl_scheduled :: "TimerId list"
  wl_cancelled :: "TimerId list"
  wl_fired :: "TimerEvent list"

definition wheel_log :: WheelLog where
  "wheel_log = \<lparr>wl_wheel = timer_wheel, wl_scheduled = [], wl_cancelled = [], wl_fired = []\<rparr>"

fun wheel_step :: "WheelLog \<Rightarrow> WheelOp \<Rightarrow> WheelLog" where
  "wheel_step l (OP_Schedule kind channel due) =
     (let (w, tid) = schedule (wl_wheel l) kind channel due
      in l\<lparr>wl_wheel := w, wl_scheduled := wl_scheduled l @ [tid]\<rparr>)"
| "wheel_step l (OP_Cancel tid) =
     (case cancel (wl_wheel l) tid of
        (w, Inl e) \<Rightarrow> l\<lparr>wl_wheel := w\<rparr>
      | (w, Inr _) \<Rightarrow> l\<lparr>wl_wheel := w, wl_cancelled := wl_cancelled l @ [tid]\<rparr>)"
| "wheel_step l (OP_Expire now) =
     (let (w, expired) = expire (wl_wheel l) now
      in l\<lparr>wl_wheel := w, wl_fired := wl_fired l @ expired\<rparr>)"

definition wheel_run :: "WheelOp list \<Rightarrow> WheelLog" where
  "wheel_run ops = foldl wheel_step wheel_log ops"

definition pending_ids :: "TimerWheel \<Rightarrow> TimerId list" where
  "pending_ids w = map te_id (tw_timers w)"

text \<open>The invariant of a history: identifiers are handed out in order from 1, none twice while
  the 64-bit counter has not wrapped, and each of them is accounted for once.\<close>

definition log_ok :: "nat \<Rightarrow> WheelLog \<Rightarrow> bool" where
  "log_ok n l \<longleftrightarrow> wheel_sorted (wl_wheel l) \<and> length (wl_scheduled l) \<le> n \<and>
     tw_next_id (wl_wheel l) = of_nat (length (wl_scheduled l) + 1) \<and>
     wl_scheduled l = map (\<lambda>k. TimerId (of_nat (k + 1))) [0..<length (wl_scheduled l)] \<and>
     mset (wl_scheduled l) =
       mset (map te_id (wl_fired l)) + mset (wl_cancelled l) + mset (pending_ids (wl_wheel l))"

lemma mset_map_sort_key [simp]: "mset (map g (sort_key f xs)) = mset (map g xs)"
  by (simp add: mset_map)

lemma distinct_ids:
  assumes "n < 2 ^ 64"
  shows "distinct (map (\<lambda>k. TimerId (of_nat (k + 1))) [0..<n])"
  unfolding distinct_map
proof (intro conjI inj_onI)
  fix a b assume "a \<in> set [0..<n]" "b \<in> set [0..<n]"
    and eq: "TimerId (of_nat (a + 1)) = TimerId (of_nat (b + 1))"
  then have "a + 1 < 2 ^ 64" "b + 1 < 2 ^ 64" using assms by auto
  moreover have "unat (of_nat (a + 1) :: u64) = unat (of_nat (b + 1) :: u64)" using eq by simp
  ultimately show "a = b" by (simp add: unat_of_nat del: of_nat_add of_nat_Suc)
qed simp

lemma log_ok_distinct:
  assumes "log_ok n l" "n < 2 ^ 64"
  shows "distinct (map te_id (wl_fired l) @ wl_cancelled l @ pending_ids (wl_wheel l))"
proof -
  have "distinct (wl_scheduled l)"
    using assms distinct_ids[of "length (wl_scheduled l)"] by (metis log_ok_def le_less_trans)
  moreover have "mset (wl_scheduled l) =
      mset (map te_id (wl_fired l) @ wl_cancelled l @ pending_ids (wl_wheel l))"
    using assms(1) by (simp add: log_ok_def ac_simps)
  ultimately show ?thesis using mset_eq_imp_distinct_iff by metis
qed

lemma cancel_mset:
  assumes "distinct (pending_ids w)" "cancel w tid = (w', r)"
  shows "mset (pending_ids w) =
     (if is_ok r then {#tid#} else {#}) + mset (pending_ids w') \<and> tw_next_id w' = tw_next_id w"
proof -
  let ?keep = "filter (\<lambda>e. te_id e \<noteq> tid) (tw_timers w)"
  have w': "w' = w\<lparr>tw_timers := ?keep\<rparr>"
    and r: "is_ok r \<longleftrightarrow> length ?keep \<noteq> length (tw_timers w)"
    using assms(2) by (auto simp: cancel_def Let_def split: if_splits)
  have ids: "pending_ids w' = filter (\<lambda>i. i \<noteq> tid) (pending_ids w)"
    by (simp add: w' pending_ids_def filter_map comp_def)
  have live: "is_ok r \<longleftrightarrow> tid \<in> set (pending_ids w)"
  proof -
    have "length ?keep = length (tw_timers w) \<longleftrightarrow> (\<forall>e \<in> set (tw_timers w). te_id e \<noteq> tid)"
      using length_filter_less[of _ "tw_timers w" "\<lambda>e. te_id e \<noteq> tid"]
      by (metis (mono_tags, lifting) filter_True less_irrefl)
    then show ?thesis using r by (auto simp: pending_ids_def)
  qed
  have "mset (filter (\<lambda>i. i \<noteq> tid) xs) + (if tid \<in> set xs then {#tid#} else {#}) = mset xs"
    if "distinct xs" for xs :: "TimerId list"
    using that by (induction xs) auto
  from this[OF assms(1)] show ?thesis using ids live by (simp add: w' ac_simps)
qed

lemma mset_filter_split:
  "mset (map f (filter (\<lambda>e. te_due e \<le> now) es)) + mset (map f (filter (\<lambda>e. now < te_due e) es))
   = mset (map f es)"
  by (induction es) (auto simp: not_le)

lemma log_ok_step:
  assumes "log_ok n l" "n < 2 ^ 64"
  shows "log_ok (n + 1) (wheel_step l op)"
proof (cases op)
  case (OP_Schedule kind channel due)
  have "(of_nat (length (wl_scheduled l)) :: u64) + 1 = of_nat (length (wl_scheduled l) + 1)"
    by simp
  then show ?thesis using assms(1) wheel_sorted_schedule[of "wl_wheel l" kind channel due]
    by (simp add: OP_Schedule log_ok_def schedule_def Let_def pending_ids_def algebra_simps)
next
  case (OP_Cancel tid)
  obtain w' r where c: "cancel (wl_wheel l) tid = (w', r)" by fastforce
  have "distinct (pending_ids (wl_wheel l))" using log_ok_distinct[OF assms] by simp
  from cancel_mset[OF this c] show ?thesis
    using assms(1) c wheel_sorted_cancel[of "wl_wheel l" tid]
    by (cases r) (auto simp: OP_Cancel log_ok_def)
next
  case (OP_Expire now)
  have "wheel_sorted (wl_wheel l)" using assms(1) by (simp add: log_ok_def)
  from expire_filter[OF this] wheel_sorted_expire[OF this] show ?thesis
    using assms(1) mset_filter_split[of te_id now "tw_timers (wl_wheel l)"]
    by (simp add: OP_Expire log_ok_def pending_ids_def ac_simps del: mset_map)
qed

lemma log_ok_fold:
  "\<lbrakk>log_ok n l; n + length ops < 2 ^ 64\<rbrakk> \<Longrightarrow> log_ok (n + length ops) (foldl wheel_step l ops)"
proof (induction ops arbitrary: n l)
  case (Cons op ops)
  then have "log_ok (n + 1) (wheel_step l op)" using log_ok_step by simp
  then show ?case using Cons.IH[of "n + 1" "wheel_step l op"] Cons.prems(2) by simp
qed simp

lemma log_ok_run: "length ops < 2 ^ 64 \<Longrightarrow> log_ok (length ops) (wheel_run ops)"
proof -
  have "log_ok 0 wheel_log"
    by (simp add: log_ok_def wheel_log_def timer_wheel_def pending_ids_def wheel_sorted_def)
  then show "length ops < 2 ^ 64 \<Longrightarrow> ?thesis" using log_ok_fold[of 0 wheel_log ops]
    by (simp add: wheel_run_def)
qed

section \<open>What a wheel promises\<close>

lemma timers_conserved_facts:
  assumes "length ops < 2 ^ 64"
  shows "mset (wl_scheduled (wheel_run ops)) = mset (map te_id (wl_fired (wheel_run ops))) +
           mset (wl_cancelled (wheel_run ops)) + mset (pending_ids (wl_wheel (wheel_run ops)))"
    and "distinct (map te_id (wl_fired (wheel_run ops)) @ wl_cancelled (wheel_run ops) @
           pending_ids (wl_wheel (wheel_run ops)))"
  using log_ok_run[OF assms] log_ok_distinct[OF log_ok_run[OF assms] assms]
  by (simp_all add: log_ok_def)

text \<open>Property C21. After any history of fewer than \<open>2 ^ 64\<close> operations, every timer ever
  scheduled has been fired once, or has been cancelled once, or is still pending, never two of
  them: the identifiers fired, cancelled and pending are together a rearrangement of the
  identifiers \<open>schedule\<close> returned, and they are distinct. A cancelled timer never fires, a timer
  never fires twice, and none is lost.\<close>

theorem timers_conserved:
  assumes "length ops < 2 ^ 64"
  shows "(mset (wl_scheduled (wheel_run ops)) = mset (map te_id (wl_fired (wheel_run ops))) +
           mset (wl_cancelled (wheel_run ops)) + mset (pending_ids (wl_wheel (wheel_run ops)))) \<and>
    (distinct (map te_id (wl_fired (wheel_run ops)) @ wl_cancelled (wheel_run ops) @
           pending_ids (wl_wheel (wheel_run ops))))"
  using timers_conserved_facts[OF assms] by blast

theorem timers_conserved_witness:
  "let l = wheel_run [OP_Schedule TK_idle control_channel 9, OP_Schedule TK_drain control_channel 4,
       OP_Schedule TK_retry control_channel 6, OP_Cancel (TimerId 3), OP_Expire 5]
   in map te_id (wl_fired l) = [TimerId 2] \<and> wl_cancelled l = [TimerId 3] \<and>
      distinct ([TimerId 2] @ [TimerId 3] @ pending_ids (wl_wheel l))"
proof -
  let ?ops = "[OP_Schedule TK_idle control_channel 9, OP_Schedule TK_drain control_channel 4,
       OP_Schedule TK_retry control_channel 6, OP_Cancel (TimerId 3), OP_Expire 5]"
  have "map te_id (wl_fired (wheel_run ?ops)) = [TimerId 2]"
    "wl_cancelled (wheel_run ?ops) = [TimerId 3]"
    by (simp_all add: wheel_run_def wheel_log_def timer_wheel_def schedule_def cancel_def
        expire_def timer_key_def less_eq_prod_def less_prod_def)
  then show ?thesis using timers_conserved[of ?ops] by (simp add: Let_def)
qed

text \<open>Remark. On any wheel a history can reach, \<open>expire now\<close> returns exactly the pending
  timers whose due time has come, ordered by due time and, within one instant, by the order in
  which they were scheduled; the timers left are exactly those not yet due.\<close>

theorem expire_exact:
  assumes "length ops < 2 ^ 64" "expire (wl_wheel (wheel_run ops)) now = (w', expired)"
  shows "set expired = {e \<in> set (tw_timers (wl_wheel (wheel_run ops))). te_due e \<le> now}"
    and "set (tw_timers w') = {e \<in> set (tw_timers (wl_wheel (wheel_run ops))). now < te_due e}"
    and "sorted (map timer_key expired)" and "distinct (map te_id expired)"
proof -
  let ?w = "wl_wheel (wheel_run ops)"
  have ok: "wheel_sorted ?w" using log_ok_run[OF assms(1)] by (simp add: log_ok_def)
  have e: "expired = filter (\<lambda>e. te_due e \<le> now) (tw_timers ?w)"
    and w': "tw_timers w' = filter (\<lambda>e. now < te_due e) (tw_timers ?w)"
    using expire_filter[OF ok, of now] assms(2) by auto
  show "set expired = {e \<in> set (tw_timers ?w). te_due e \<le> now}" by (auto simp: e)
  show "set (tw_timers w') = {e \<in> set (tw_timers ?w). now < te_due e}" by (auto simp: w')
  show "sorted (map timer_key expired)"
    using ok sorted_map_filter_key by (auto simp: e wheel_sorted_def)
  have "distinct (pending_ids ?w)"
    using log_ok_distinct[OF log_ok_run[OF assms(1)] assms(1)] by simp
  then show "distinct (map te_id expired)" by (simp add: e pending_ids_def distinct_map_filter)
qed

theorem expire_exact_witness:
  "\<exists>w' expired. expire (wl_wheel (wheel_run [OP_Schedule TK_idle control_channel 9,
       OP_Schedule TK_drain control_channel 4, OP_Schedule TK_retry control_channel 4])) 4 =
       (w', expired) \<and> map te_id expired = [TimerId 2, TimerId 3] \<and>
     sorted (map timer_key expired) \<and> (\<forall>e \<in> set (tw_timers w'). 4 < te_due e)"
proof -
  let ?ops = "[OP_Schedule TK_idle control_channel 9, OP_Schedule TK_drain control_channel 4,
       OP_Schedule TK_retry control_channel 4]"
  obtain w' expired where e: "expire (wl_wheel (wheel_run ?ops)) 4 = (w', expired)" by fastforce
  have "map te_id (snd (expire (wl_wheel (wheel_run ?ops)) 4)) = [TimerId 2, TimerId 3]"
    by (simp add: wheel_run_def wheel_log_def timer_wheel_def schedule_def expire_def timer_key_def
        less_eq_prod_def less_prod_def less_eq_TimerId_def)
  then show ?thesis using e expire_exact[of ?ops 4 w' expired] by auto
qed

end
