(* ===== verification/Negotiator.thy ===== *)
theory Negotiator
  imports Wire_Format Crc "HOL-Library.Multiset"
begin

text \<open>
  Capability negotiation, \<^verbatim>\<open>src/connection/negotiator.cpp\<close>: the HELLO payload writer and reader,
  \<open>negotiate\<close> with its transcript hash. The header of the payload is a chain of fixed fields;
  the field formats are composed through the locale \<open>format_pair\<close>, so that the round trip of
  the header is that of its fields. The main results: both peers of a handshake compute the
  same capabilities, and what they agree on is within the limits of both.
\<close>

record HelloMessage =
  hm_min_major :: u16
  hm_max_major :: u16
  hm_limits :: LocalPolicy
  hm_plugins :: "PluginDescriptor list"

definition negotiation_error :: "string \<Rightarrow> Error" where
  "negotiation_error detail =
     make_error ES_connection EC_negotiation_rejected CA_close_connection detail"

section \<open>Field readers\<close>

definition read_u16 :: "bytes \<Rightarrow> nat \<Rightarrow> (u16 \<times> nat) result" where
  "read_u16 bs cursor =
     (if cursor > length bs \<or> length bs - cursor < 2
      then Inl (negotiation_error ''short HELLO u16'')
      else Inr (word16_be (bs ! cursor) (bs ! (cursor + 1)), cursor + 2))"

definition read_u32 :: "bytes \<Rightarrow> nat \<Rightarrow> (u32 \<times> nat) result" where
  "read_u32 bs cursor =
     (case read_u32_be bs cursor of
        Inl _ \<Rightarrow> Inl (negotiation_error ''short HELLO u32'')
      | Inr v \<Rightarrow> Inr (v, cursor + 4))"

definition read_u64 :: "bytes \<Rightarrow> nat \<Rightarrow> (u64 \<times> nat) result" where
  "read_u64 bs cursor =
     (if cursor > length bs \<or> length bs - cursor < 8
      then Inl (negotiation_error ''short HELLO u64'')
      else Inr (word64_be (take 8 (drop cursor bs)), cursor + 8))"

lemma append_u64_word64:
  assumes "length bs = 8"
  shows "append_u64 [] (word64_be bs) = bs"
proof -
  obtain b0 b1 b2 b3 b4 b5 b6 b7 where bs: "bs = [b0, b1, b2, b3, b4, b5, b6, b7]"
    using assms by (auto simp: length_Suc_conv numeral_eq_Suc)
  show ?thesis
    unfolding bs append_u64_def word64_be_def byte_mask
    by (auto intro!: bit_word_eqI simp: bit_simps)
qed

interpretation u16_format: cursor_format "append_u16 []" read_u16 "\<lambda>_. True"
proof
  show "read_u16 (pre @ append_u16 [] x @ post) (length pre)
      = Inr (x, length pre + length (append_u16 [] x))" for pre x post
    by (simp add: read_u16_def append_u16_def nth_append word16_be_fields)
  show "True \<and> c' = c + length (append_u16 [] x) \<and> c' \<le> length bs \<and>
      take (length (append_u16 [] x)) (drop c bs) = append_u16 [] x"
    if "read_u16 bs c = Inr (x, c')" for bs c x c'
  proof -
    have len: "c + 2 \<le> length bs" and x: "x = word16_be (bs ! c) (bs ! (c + 1))" and c': "c' = c + 2"
      using that by (auto simp: read_u16_def split: if_splits)
    show ?thesis unfolding x c' append_u16_word16 using take_two[OF len] len
      by (simp add: numeral_2_eq_2)
  qed
qed

interpretation u32_format: cursor_format "append_u32 []" read_u32 "\<lambda>_. True"
  by unfold_locales
    (auto simp: read_u32_def read_u32_be_at dest: read_u32_be_InrD split: sum.splits)

interpretation u64_format: cursor_format "append_u64 []" read_u64 "\<lambda>_. True"
proof
  show "read_u64 (pre @ append_u64 [] x @ post) (length pre)
      = Inr (x, length pre + length (append_u64 [] x))" for pre x post
    using word64_be_fields[of x] by (simp add: read_u64_def)
  show "True \<and> c' = c + length (append_u64 [] x) \<and> c' \<le> length bs \<and>
      take (length (append_u64 [] x)) (drop c bs) = append_u64 [] x"
    if "read_u64 bs c = Inr (x, c')" for bs c x c'
    using that append_u64_word64[of "take 8 (drop c bs)"]
    by (auto simp: read_u64_def split: if_splits)
qed

section \<open>The HELLO payload\<close>

text \<open>The header is min and max version, frame, message and window limits, channel limit,
  required and optional features, and the number of plugin descriptors.\<close>

definition hello_header :: "HelloMessage \<Rightarrow> bytes" where
  "hello_header hello =
     (let limits = hm_limits hello;
          out = append_u16 [] (hm_min_major hello);
          out = append_u16 out (hm_max_major hello);
          out = append_u32 out (of_nat (lp_max_frame limits));
          out = append_u32 out (of_nat (lp_max_message limits));
          out = append_u32 out (of_nat (lp_connection_window limits));
          out = append_u16 out (lp_max_channels limits);
          out = append_u64 out (lp_required_features limits);
          out = append_u64 out (lp_optional_features limits)
      in append_u16 out (of_nat (length (hm_plugins hello))))"

definition append_descriptor :: "bytes \<Rightarrow> PluginDescriptor \<Rightarrow> bytes" where
  "append_descriptor out plugin =
     append_u32 (append_u64 (append_u32 out (pd_family_id plugin)) (pd_schema_hash plugin))
       (pd_max_depth plugin)"

fun write_descriptors :: "u32 option \<Rightarrow> bytes \<Rightarrow> PluginDescriptor list \<Rightarrow> bytes result" where
  "write_descriptors previous out [] = Inr out"
| "write_descriptors previous out (plugin # plugins) =
     (if previous = Some (pd_family_id plugin)
      then Inl (make_error ES_plugin EC_duplicate_required_tlv CA_close_connection
                  ''duplicate plugin family in HELLO'')
      else write_descriptors (Some (pd_family_id plugin)) (append_descriptor out plugin) plugins)"

definition encode_hello_payload :: "HelloMessage \<Rightarrow> bytes result" where
  "encode_hello_payload hello =
     (if hm_min_major hello > hm_max_major hello
      then Inl (negotiation_error ''invalid version range'')
      else write_descriptors None (hello_header hello) (sort_key pd_family_id (hm_plugins hello)))"

text \<open>The nine header reads stop at the first that fails: a failed read leaves the cursor in
  place, and whatever the later ones give, the error is the same.\<close>

definition read_hello_header ::
  "bytes \<Rightarrow> nat \<Rightarrow> ((u16 \<times> u16 \<times> u32 \<times> u32 \<times> u32 \<times> u16 \<times> u64 \<times> u64 \<times> u16) \<times> nat) result" where
  "read_hello_header =
     read_pair read_u16 (read_pair read_u16 (read_pair read_u32 (read_pair read_u32
       (read_pair read_u32 (read_pair read_u16 (read_pair read_u64 (read_pair read_u64
         read_u16)))))))"

definition read_descriptor :: "bytes \<Rightarrow> nat \<Rightarrow> (PluginDescriptor \<times> nat) result" where
  "read_descriptor payload cursor =
     (case read_pair read_u32 (read_pair read_u64 read_u32) payload cursor of
        Inl _ \<Rightarrow> Inl (negotiation_error ''truncated plugin descriptor in HELLO'')
      | Inr ((family, schema, depth), cursor') \<Rightarrow>
          Inr (\<lparr>pd_family_id = family, pd_schema_hash = schema, pd_max_depth = depth\<rparr>, cursor'))"

definition decode_hello_payload :: "bytes \<Rightarrow> HelloMessage result" where
  "decode_hello_payload payload =
     (case read_hello_header payload 0 of
        Inl _ \<Rightarrow> Inl (negotiation_error ''malformed HELLO payload'')
      | Inr ((min_major, max_major, max_frame, max_message, conn_window, max_channels, required,
              optional, plugin_count), cursor) \<Rightarrow>
          (case read_list read_descriptor (unat plugin_count) payload cursor of
             Inl e \<Rightarrow> Inl e
           | Inr (plugins, cursor') \<Rightarrow>
               if cursor' \<noteq> length payload
               then Inl (negotiation_error ''HELLO payload has trailing bytes'')
               else Inr \<lparr>hm_min_major = min_major, hm_max_major = max_major,
                      hm_limits = default_policy
                        \<lparr>lp_min_major := min_major, lp_max_major := max_major,
                         lp_max_frame := unat max_frame, lp_max_message := unat max_message,
                         lp_connection_window := unat conn_window,
                         lp_max_channels := max_channels, lp_required_features := required,
                         lp_optional_features := optional\<rparr>,
                      hm_plugins = plugins\<rparr>))"

section \<open>Negotiation\<close>

definition transcript_hash :: "CapabilitySet \<Rightarrow> bytes" where
  "transcript_hash caps =
     (let out = append_u16 [] (cap_major caps);
          out = append_u32 out (of_nat (cap_max_frame caps));
          out = append_u32 out (of_nat (cap_max_message caps));
          out = append_u32 out (of_nat (cap_connection_window caps));
          out = append_u16 out (cap_max_channels caps);
          out = append_u64 out (cap_features caps);
          encoded = foldl append_descriptor out (cap_plugins caps);
          first = crc32c encoded;
          second = crc32c (encoded @ [0xA5]);
          row = (\<lambda>v. map (\<lambda>i. ucast (drop_bit (24 - 8 * i) (v :: u32)) :: u8) [0, 1, 2, 3])
      in row first @ row second @ row (first XOR second) @ row (first + second))"

text \<open>The inner and the outer loop over the two plugin lists.\<close>

fun match_peer ::
  "PluginDescriptor \<Rightarrow> PluginDescriptor list \<Rightarrow> PluginDescriptor list \<Rightarrow> PluginDescriptor list result" where
  "match_peer lhs [] acc = Inr acc"
| "match_peer lhs (rhs # rest) acc =
     (if pd_family_id lhs = pd_family_id rhs
      then if pd_schema_hash lhs \<noteq> pd_schema_hash rhs
           then Inl (make_error ES_plugin EC_negotiation_rejected CA_close_connection
                       ''plugin schema hash mismatch'')
           else match_peer lhs rest
                  (acc @ [\<lparr>pd_family_id = pd_family_id lhs, pd_schema_hash = pd_schema_hash lhs,
                          pd_max_depth = min (pd_max_depth lhs) (pd_max_depth rhs)\<rparr>])
      else match_peer lhs rest acc)"

fun match_plugins ::
  "PluginDescriptor list \<Rightarrow> PluginDescriptor list \<Rightarrow> PluginDescriptor list \<Rightarrow> PluginDescriptor list result" where
  "match_plugins [] peer acc = Inr acc"
| "match_plugins (lhs # rest) peer acc =
     (case match_peer lhs peer acc of
        Inl e \<Rightarrow> Inl e
      | Inr acc' \<Rightarrow> match_plugins rest peer acc')"

definition negotiate :: "HelloMessage \<Rightarrow> HelloMessage \<Rightarrow> CapabilitySet result" where
  "negotiate local peer =
     (if hm_max_major local < hm_min_major peer \<or> hm_max_major peer < hm_min_major local
      then Inl (negotiation_error ''no compatible major version'')
      else
        let l = hm_limits local; p = hm_limits peer;
            max_frame = min (lp_max_frame l) (lp_max_frame p);
            max_message = min (lp_max_message l) (lp_max_message p);
            connection_window = min (lp_connection_window l) (lp_connection_window p);
            max_channels = min (lp_max_channels l) (lp_max_channels p)
        in if max_frame < 128 \<or> max_message < 1 \<or> connection_window < max_frame \<or> max_channels = 0
           then Inl (negotiation_error ''negotiated limits below minimum'')
           else
             let common_features =
                   (lp_required_features l OR lp_optional_features l) AND
                   (lp_required_features p OR lp_optional_features p)
             in if lp_required_features l AND NOT common_features \<noteq> 0 \<or>
                   lp_required_features p AND NOT common_features \<noteq> 0
                then Inl (make_error ES_connection EC_unknown_required_feature CA_close_connection
                            ''required feature is unsupported'')
                else case match_plugins (hm_plugins local) (hm_plugins peer) [] of
                       Inl e \<Rightarrow> Inl e
                     | Inr matched \<Rightarrow>
                         if matched = []
                         then Inl (make_error ES_plugin EC_negotiation_rejected CA_close_connection
                                     ''no mutually supported plugin family'')
                         else
                           let caps = \<lparr>cap_major = min (hm_max_major local) (hm_max_major peer),
                                 cap_max_frame = max_frame, cap_max_message = max_message,
                                 cap_connection_window = connection_window,
                                 cap_max_channels = max_channels, cap_features = common_features,
                                 cap_transcript_hash = replicate 16 0,
                                 cap_plugins = sort_key pd_family_id matched\<rparr>
                           in Inr (caps\<lparr>cap_transcript_hash := transcript_hash caps\<rparr>))"

section \<open>The HELLO format\<close>

abbreviation pair_put :: "('a \<Rightarrow> bytes) \<Rightarrow> ('b \<Rightarrow> bytes) \<Rightarrow> 'a \<times> 'b \<Rightarrow> bytes" where
  "pair_put put1 put2 \<equiv> \<lambda>(x, y). put1 x @ put2 y"

abbreviation pair_valid :: "('a \<Rightarrow> bool) \<Rightarrow> ('b \<Rightarrow> bool) \<Rightarrow> 'a \<times> 'b \<Rightarrow> bool" where
  "pair_valid valid1 valid2 \<equiv> \<lambda>(x, y). valid1 x \<and> valid2 y"

abbreviation every :: "'a \<Rightarrow> bool" where
  "every \<equiv> \<lambda>_. True"

interpretation h8: format_pair "append_u64 []" read_u64 every "append_u16 []" read_u16 every
  by unfold_locales

interpretation h7: format_pair "append_u64 []" read_u64 every
  "pair_put (append_u64 []) (append_u16 [])" "read_pair read_u64 read_u16" "pair_valid every every"
  by unfold_locales

interpretation h6: format_pair "append_u16 []" read_u16 every
  "pair_put (append_u64 []) (pair_put (append_u64 []) (append_u16 []))"
  "read_pair read_u64 (read_pair read_u64 read_u16)"
  "pair_valid every (pair_valid every every)"
  by unfold_locales

interpretation h5: format_pair "append_u32 []" read_u32 every
  "pair_put (append_u16 []) (pair_put (append_u64 []) (pair_put (append_u64 []) (append_u16 [])))"
  "read_pair read_u16 (read_pair read_u64 (read_pair read_u64 read_u16))"
  "pair_valid every (pair_valid every (pair_valid every every))"
  by unfold_locales

interpretation h4: format_pair "append_u32 []" read_u32 every
  "pair_put (append_u32 []) (pair_put (append_u16 []) (pair_put (append_u64 [])
     (pair_put (append_u64 []) (append_u16 []))))"
  "read_pair read_u32 (read_pair read_u16 (read_pair read_u64 (read_pair read_u64 read_u16)))"
  "pair_valid every (pair_valid every (pair_valid every (pair_valid every every)))"
  by unfold_locales

interpretation h3: format_pair "append_u32 []" read_u32 every
  "pair_put (append_u32 []) (pair_put (append_u32 []) (pair_put (append_u16 [])
     (pair_put (append_u64 []) (pair_put (append_u64 []) (append_u16 [])))))"
  "read_pair read_u32 (read_pair read_u32 (read_pair read_u16 (read_pair read_u64
     (read_pair read_u64 read_u16))))"
  "pair_valid every (pair_valid every (pair_valid every (pair_valid every (pair_valid every every))))"
  by unfold_locales

interpretation h2: format_pair "append_u16 []" read_u16 every
  "pair_put (append_u32 []) (pair_put (append_u32 []) (pair_put (append_u32 [])
     (pair_put (append_u16 []) (pair_put (append_u64 []) (pair_put (append_u64 []) (append_u16 []))))))"
  "read_pair read_u32 (read_pair read_u32 (read_pair read_u32 (read_pair read_u16
     (read_pair read_u64 (read_pair read_u64 read_u16)))))"
  "pair_valid every (pair_valid every (pair_valid every (pair_valid every (pair_valid every
     (pair_valid every every)))))"
  by unfold_locales

interpretation h1: format_pair "append_u16 []" read_u16 every
  "pair_put (append_u16 []) (pair_put (append_u32 []) (pair_put (append_u32 [])
     (pair_put (append_u32 []) (pair_put (append_u16 []) (pair_put (append_u64 [])
       (pair_put (append_u64 []) (append_u16 [])))))))"
  "read_pair read_u16 (read_pair read_u32 (read_pair read_u32 (read_pair read_u32
     (read_pair read_u16 (read_pair read_u64 (read_pair read_u64 read_u16))))))"
  "pair_valid every (pair_valid every (pair_valid every (pair_valid every (pair_valid every
     (pair_valid every (pair_valid every every))))))"
  by unfold_locales

definition hello_fields ::
  "HelloMessage \<Rightarrow> u16 \<times> u16 \<times> u32 \<times> u32 \<times> u32 \<times> u16 \<times> u64 \<times> u64 \<times> u16" where
  "hello_fields hello = (hm_min_major hello, hm_max_major hello,
     of_nat (lp_max_frame (hm_limits hello)), of_nat (lp_max_message (hm_limits hello)),
     of_nat (lp_connection_window (hm_limits hello)), lp_max_channels (hm_limits hello),
     lp_required_features (hm_limits hello), lp_optional_features (hm_limits hello),
     of_nat (length (hm_plugins hello)))"

lemma hello_header_split:
  "hello_header hello =
     append_u16 [] (hm_min_major hello) @ append_u16 [] (hm_max_major hello) @
     append_u32 [] (of_nat (lp_max_frame (hm_limits hello))) @
     append_u32 [] (of_nat (lp_max_message (hm_limits hello))) @
     append_u32 [] (of_nat (lp_connection_window (hm_limits hello))) @
     append_u16 [] (lp_max_channels (hm_limits hello)) @
     append_u64 [] (lp_required_features (hm_limits hello)) @
     append_u64 [] (lp_optional_features (hm_limits hello)) @
     append_u16 [] (of_nat (length (hm_plugins hello)))"
  by (simp add: hello_header_def Let_def append_u16_def append_u32_def append_u64_def)

lemma read_header_put:
  "read_hello_header (hello_header hello @ post) 0 = Inr (hello_fields hello, length (hello_header hello))"
  using h1.pair.read_put[of "hello_fields hello" "[]" post]
  by (simp add: read_hello_header_def hello_fields_def hello_header_split)

interpretation d2: format_pair "append_u64 []" read_u64 every "append_u32 []" read_u32 every
  by unfold_locales

interpretation d1: format_pair "append_u32 []" read_u32 every
  "pair_put (append_u64 []) (append_u32 [])" "read_pair read_u64 read_u32" "pair_valid every every"
  by unfold_locales

lemma append_descriptor_split:
  "append_descriptor out d = out @ append_u32 [] (pd_family_id d) @ append_u64 [] (pd_schema_hash d) @
     append_u32 [] (pd_max_depth d)"
  by (simp add: append_descriptor_def append_u32_def append_u64_def)

interpretation descriptor: cursor_format "append_descriptor []" read_descriptor every
proof
  show "read_descriptor (pre @ append_descriptor [] d @ post) (length pre)
      = Inr (d, length pre + length (append_descriptor [] d))" for pre d post
    using d1.pair.read_put[of "(pd_family_id d, pd_schema_hash d, pd_max_depth d)" pre post]
    by (simp add: read_descriptor_def append_descriptor_split[of "[]"])
  show "True \<and> c' = c + length (append_descriptor [] d) \<and> c' \<le> length bs \<and>
      take (length (append_descriptor [] d)) (drop c bs) = append_descriptor [] d"
    if "read_descriptor bs c = Inr (d, c')" for bs c d c'
  proof -
    from that have "read_pair read_u32 (read_pair read_u64 read_u32) bs c
        = Inr ((pd_family_id d, pd_schema_hash d, pd_max_depth d), c')"
      by (auto simp: read_descriptor_def split: sum.splits prod.splits)
    from d1.pair.read_sound[OF this] show ?thesis by (simp add: append_descriptor_split[of "[]"])
  qed
qed

section \<open>What a HELLO carries\<close>

text \<open>The message a peer reads: limits cut to 32 bits, plugins in family order, the version range
  copied into the limits, and the fields that are not sent at their defaults.\<close>

definition wire_hello :: "HelloMessage \<Rightarrow> HelloMessage" where
  "wire_hello hello =
     \<lparr>hm_min_major = hm_min_major hello, hm_max_major = hm_max_major hello,
      hm_limits = default_policy
        \<lparr>lp_min_major := hm_min_major hello, lp_max_major := hm_max_major hello,
         lp_max_frame := lp_max_frame (hm_limits hello) mod 2 ^ 32,
         lp_max_message := lp_max_message (hm_limits hello) mod 2 ^ 32,
         lp_connection_window := lp_connection_window (hm_limits hello) mod 2 ^ 32,
         lp_max_channels := lp_max_channels (hm_limits hello),
         lp_required_features := lp_required_features (hm_limits hello),
         lp_optional_features := lp_optional_features (hm_limits hello)\<rparr>,
      hm_plugins = sort_key pd_family_id (hm_plugins hello)\<rparr>"

definition families :: "HelloMessage \<Rightarrow> u32 list" where
  "families hello = map pd_family_id (hm_plugins hello)"

definition hello_fits :: "HelloMessage \<Rightarrow> bool" where
  "hello_fits hello \<longleftrightarrow> lp_max_frame (hm_limits hello) < 2 ^ 32 \<and>
     lp_max_message (hm_limits hello) < 2 ^ 32 \<and>
     lp_connection_window (hm_limits hello) < 2 ^ 32 \<and> length (hm_plugins hello) < 2 ^ 16"

lemma distinct_map_sort_key [simp]: "distinct (map g (sort_key f xs)) = distinct (map g xs)"
  by (metis mset_map mset_sort mset_eq_imp_distinct_iff)

lemma write_descriptors_eq:
  "\<lbrakk>sorted (map pd_family_id ps); \<forall>p. previous = Some p \<longrightarrow> (\<forall>x \<in> set ps. p \<le> pd_family_id x)\<rbrakk> \<Longrightarrow>
   write_descriptors previous out ps =
     (if distinct (map pd_family_id ps) \<and> (\<forall>p. previous = Some p \<longrightarrow> p \<notin> pd_family_id ` set ps)
      then Inr (out @ concat (map (append_descriptor []) ps))
      else Inl (make_error ES_plugin EC_duplicate_required_tlv CA_close_connection
                  ''duplicate plugin family in HELLO''))"
proof (induction ps arbitrary: previous out)
  case (Cons d ps)
  have tail: "write_descriptors (Some (pd_family_id d)) (append_descriptor out d) ps =
     (if distinct (map pd_family_id ps) \<and> pd_family_id d \<notin> pd_family_id ` set ps
      then Inr (append_descriptor out d @ concat (map (append_descriptor []) ps))
      else Inl (make_error ES_plugin EC_duplicate_required_tlv CA_close_connection
                  ''duplicate plugin family in HELLO''))"
    using Cons.IH[of "Some (pd_family_id d)" "append_descriptor out d"] Cons.prems(1) by simp
  have once: "p \<notin> pd_family_id ` set ps" if "previous = Some p" "p \<noteq> pd_family_id d" for p
  proof
    assume "p \<in> pd_family_id ` set ps"
    then have "pd_family_id d \<le> p" using Cons.prems(1) by auto
    with Cons.prems(2) that show False by auto
  qed
  have split: "append_descriptor out d = out @ append_descriptor [] d"
    by (simp add: append_descriptor_split[of out] append_descriptor_split[of "[]"])
  show ?case
    by (simp only: write_descriptors.simps tail) (use once in \<open>auto simp: split\<close>)
qed simp

lemma encode_hello_iff:
  "encode_hello_payload hello = Inr out \<longleftrightarrow>
     hm_min_major hello \<le> hm_max_major hello \<and> distinct (families hello) \<and>
     out = hello_header hello @
       concat (map (append_descriptor []) (sort_key pd_family_id (hm_plugins hello)))"
  by (auto simp: encode_hello_payload_def families_def not_less write_descriptors_eq)

text \<open>Remark. A HELLO payload decodes to the message that was encoded: whatever message
  with at most 65535 plugins the encoder accepts, the decoder reads back the same versions,
  channel limit, features and plugins, the plugins sorted by family, and each size limit modulo
  \<open>2 ^ 32\<close>, since the fields are 32 bits wide and the encoder casts without a check.\<close>

theorem hello_roundtrip:
  assumes "encode_hello_payload hello = Inr out" "length (hm_plugins hello) < 2 ^ 16"
  shows "decode_hello_payload out = Inr (wire_hello hello)"
proof -
  let ?ps = "sort_key pd_family_id (hm_plugins hello)"
  have out: "out = hello_header hello @ concat (map (append_descriptor []) ?ps)"
    using assms(1) by (simp add: encode_hello_iff)
  have n: "unat (of_nat (length (hm_plugins hello)) :: u16) = length ?ps"
    using assms(2) by (simp add: unat_of_nat)
  have "read_list read_descriptor (length ?ps) out (length (hello_header hello)) = Inr (?ps, length out)"
    using descriptor.read_list_put[of ?ps "hello_header hello" "[]"] by (simp add: out list_all_iff)
  then show ?thesis using n read_header_put[of hello "concat (map (append_descriptor []) ?ps)"]
    by (simp add: decode_hello_payload_def hello_fields_def wire_hello_def unat_of_nat flip: out)
qed

section \<open>What is negotiated\<close>

definition combine :: "PluginDescriptor \<Rightarrow> PluginDescriptor \<Rightarrow> PluginDescriptor" where
  "combine l r = \<lparr>pd_family_id = pd_family_id l, pd_schema_hash = pd_schema_hash l,
     pd_max_depth = min (pd_max_depth l) (pd_max_depth r)\<rparr>"

definition common_row :: "PluginDescriptor list \<Rightarrow> PluginDescriptor \<Rightarrow> PluginDescriptor list" where
  "common_row ps l = map (combine l) (filter (\<lambda>r. pd_family_id l = pd_family_id r) ps)"

definition common :: "PluginDescriptor list \<Rightarrow> PluginDescriptor list \<Rightarrow> PluginDescriptor list" where
  "common ls ps = concat (map (common_row ps) ls)"

definition clash :: "PluginDescriptor list \<Rightarrow> PluginDescriptor list \<Rightarrow> bool" where
  "clash ls ps \<longleftrightarrow> (\<exists>l \<in> set ls. \<exists>r \<in> set ps.
     pd_family_id l = pd_family_id r \<and> pd_schema_hash l \<noteq> pd_schema_hash r)"

definition mismatch_error :: "Error" where
  "mismatch_error = make_error ES_plugin EC_negotiation_rejected CA_close_connection
     ''plugin schema hash mismatch''"

lemma match_peer_eq:
  "match_peer l ps acc = (if clash [l] ps then Inl mismatch_error else Inr (acc @ common_row ps l))"
  by (induction ps arbitrary: acc) (auto simp: clash_def common_row_def combine_def mismatch_error_def)

lemma clash_Cons: "clash (l # ls) ps \<longleftrightarrow> clash [l] ps \<or> clash ls ps"
  by (auto simp: clash_def)

lemma match_plugins_eq:
  "match_plugins ls ps acc = (if clash ls ps then Inl mismatch_error else Inr (acc @ common ls ps))"
proof (induction ls arbitrary: acc)
  case (Cons l ls)
  then show ?case by (auto simp: match_peer_eq common_def clash_Cons[of l ls])
qed (simp add: clash_def common_def)

lemma clash_commute: "clash ls ps = clash ps ls"
  unfolding clash_def by metis

lemma clash_sort [simp]: "clash (sort_key f ls) ps = clash ls ps" "clash ls (sort_key f ps) = clash ls ps"
  by (simp_all add: clash_def)

lemma set_common: "set (common ls ps) =
    {combine l r | l r. l \<in> set ls \<and> r \<in> set ps \<and> pd_family_id l = pd_family_id r}"
  by (auto simp: common_def common_row_def)

lemma combine_commute:
  "\<lbrakk>pd_family_id l = pd_family_id r; pd_schema_hash l = pd_schema_hash r\<rbrakk> \<Longrightarrow> combine l r = combine r l"
  by (simp add: combine_def min.commute)

lemma set_common_commute: "\<not> clash ls ps \<Longrightarrow> set (common ls ps) = set (common ps ls)"
  unfolding set_common clash_def using combine_commute by (fastforce intro!: set_eqI)

lemma filter_family:
  "distinct (map pd_family_id ps) \<Longrightarrow>
   map pd_family_id (common_row ps l) =
     (if pd_family_id l \<in> pd_family_id ` set ps then [pd_family_id l] else [])"
  by (induction ps) (auto simp: common_row_def combine_def)

lemma distinct_common:
  assumes "distinct (map pd_family_id ls)" "distinct (map pd_family_id ps)"
  shows "distinct (map pd_family_id (common ls ps))"
proof -
  have "map pd_family_id (common ls ps) =
      map pd_family_id (filter (\<lambda>l. pd_family_id l \<in> pd_family_id ` set ps) ls)"
    by (induction ls) (auto simp: common_def filter_family[OF assms(2)])
  then show ?thesis using assms(1) by (simp add: distinct_map_filter)
qed

lemma sort_key_unique:
  assumes "set xs = set ys" "distinct (map f xs)" "distinct (map f ys)"
  shows "sort_key f xs = sort_key f ys"
  by (rule map_sorted_distinct_set_unique) (use assms in \<open>auto simp: distinct_map\<close>)

lemma common_sorted:
  assumes "distinct (map pd_family_id ls)" "distinct (map pd_family_id ps)"
  shows "sort_key pd_family_id (common (sort_key g ls) ps) = sort_key pd_family_id (common ls ps)"
    and "sort_key pd_family_id (common ls (sort_key g ps)) = sort_key pd_family_id (common ls ps)"
  by (rule sort_key_unique; use assms in \<open>simp add: set_common distinct_common\<close>)+

lemma common_swap:
  assumes "distinct (map pd_family_id ls)" "distinct (map pd_family_id ps)" "\<not> clash ls ps"
  shows "sort_key pd_family_id (common ls ps) = sort_key pd_family_id (common ps ls)"
  by (rule sort_key_unique) (use assms set_common_commute in \<open>simp_all add: distinct_common\<close>)

lemma common_empty_swap: "\<not> clash ls ps \<Longrightarrow> common ls ps = [] \<longleftrightarrow> common ps ls = []"
  using set_common_commute by (metis set_empty)

definition agreed :: "HelloMessage \<Rightarrow> HelloMessage \<Rightarrow> CapabilitySet" where
  "agreed a b =
     (let caps = \<lparr>cap_major = min (hm_max_major a) (hm_max_major b),
        cap_max_frame = min (lp_max_frame (hm_limits a)) (lp_max_frame (hm_limits b)),
        cap_max_message = min (lp_max_message (hm_limits a)) (lp_max_message (hm_limits b)),
        cap_connection_window =
          min (lp_connection_window (hm_limits a)) (lp_connection_window (hm_limits b)),
        cap_max_channels = min (lp_max_channels (hm_limits a)) (lp_max_channels (hm_limits b)),
        cap_features = (lp_required_features (hm_limits a) OR lp_optional_features (hm_limits a)) AND
          (lp_required_features (hm_limits b) OR lp_optional_features (hm_limits b)),
        cap_transcript_hash = replicate 16 0,
        cap_plugins = sort_key pd_family_id (common (hm_plugins a) (hm_plugins b))\<rparr>
      in caps\<lparr>cap_transcript_hash := transcript_hash caps\<rparr>)"

text \<open>\<open>negotiate\<close> as a flat decision list.\<close>

lemma negotiate_eq:
  "negotiate a b =
     (if hm_max_major a < hm_min_major b \<or> hm_max_major b < hm_min_major a
      then Inl (negotiation_error ''no compatible major version'')
      else if min (lp_max_frame (hm_limits a)) (lp_max_frame (hm_limits b)) < 128 \<or>
          min (lp_max_message (hm_limits a)) (lp_max_message (hm_limits b)) < 1 \<or>
          min (lp_connection_window (hm_limits a)) (lp_connection_window (hm_limits b))
            < min (lp_max_frame (hm_limits a)) (lp_max_frame (hm_limits b)) \<or>
          min (lp_max_channels (hm_limits a)) (lp_max_channels (hm_limits b)) = 0
      then Inl (negotiation_error ''negotiated limits below minimum'')
      else if lp_required_features (hm_limits a) AND NOT (cap_features (agreed a b)) \<noteq> 0 \<or>
          lp_required_features (hm_limits b) AND NOT (cap_features (agreed a b)) \<noteq> 0
      then Inl (make_error ES_connection EC_unknown_required_feature CA_close_connection
                  ''required feature is unsupported'')
      else if clash (hm_plugins a) (hm_plugins b) then Inl mismatch_error
      else if common (hm_plugins a) (hm_plugins b) = []
      then Inl (make_error ES_plugin EC_negotiation_rejected CA_close_connection
                  ''no mutually supported plugin family'')
      else Inr (agreed a b))"
proof -
  have f: "cap_features (agreed a b) =
      (lp_required_features (hm_limits a) OR lp_optional_features (hm_limits a)) AND
      (lp_required_features (hm_limits b) OR lp_optional_features (hm_limits b))"
    by (simp add: agreed_def Let_def)
  show ?thesis
    unfolding f unfolding negotiate_def agreed_def Let_def match_plugins_eq append_Nil
    by (cases "clash (hm_plugins a) (hm_plugins b)") (simp_all only: if_True if_False sum.case)
qed

lemma agreed_features: "cap_features (agreed a b) =
    (lp_required_features (hm_limits a) OR lp_optional_features (hm_limits a)) AND
    (lp_required_features (hm_limits b) OR lp_optional_features (hm_limits b))"
  by (simp add: agreed_def Let_def)

lemma agreed_swap:
  assumes "distinct (families a)" "distinct (families b)" "\<not> clash (hm_plugins a) (hm_plugins b)"
  shows "agreed a b = agreed b a"
  unfolding agreed_def common_swap[OF assms[unfolded families_def]]
  by (simp only: min.commute and.commute)

lemma negotiate_swap:
  assumes "distinct (families a)" "distinct (families b)"
  shows "negotiate a b = negotiate b a"
proof (cases "clash (hm_plugins a) (hm_plugins b)")
  case True
  then have "clash (hm_plugins b) (hm_plugins a)" by (simp add: clash_commute)
  with True show ?thesis
    unfolding negotiate_eq agreed_features
    by (simp only: if_True min.commute and.commute disj_commute)
next
  case False
  then have "\<not> clash (hm_plugins b) (hm_plugins a)" by (simp add: clash_commute)
  with False show ?thesis
    unfolding negotiate_eq[of a b] negotiate_eq[of b a] agreed_swap[OF assms False]
      common_empty_swap[OF False]
    by (simp only: min.commute disj_commute)
qed

lemma common_sort_empty: "common ls (sort_key f ps) = [] \<longleftrightarrow> common ls ps = []"
proof -
  have "set (common ls (sort_key f ps)) = set (common ls ps)" unfolding set_common by simp
  then show ?thesis by (metis set_empty)
qed

lemma negotiate_wire:
  assumes "hello_fits b" "distinct (families a)" "distinct (families b)"
  shows "negotiate a (wire_hello b) = negotiate a b"
proof -
  have limits: "lp_max_frame (hm_limits (wire_hello b)) = lp_max_frame (hm_limits b)"
    "lp_max_message (hm_limits (wire_hello b)) = lp_max_message (hm_limits b)"
    "lp_connection_window (hm_limits (wire_hello b)) = lp_connection_window (hm_limits b)"
    "lp_max_channels (hm_limits (wire_hello b)) = lp_max_channels (hm_limits b)"
    "lp_required_features (hm_limits (wire_hello b)) = lp_required_features (hm_limits b)"
    "lp_optional_features (hm_limits (wire_hello b)) = lp_optional_features (hm_limits b)"
    "hm_min_major (wire_hello b) = hm_min_major b" "hm_max_major (wire_hello b) = hm_max_major b"
    "hm_plugins (wire_hello b) = sort_key pd_family_id (hm_plugins b)"
    using assms(1) by (simp_all add: wire_hello_def hello_fits_def)
  have wire: "agreed a (wire_hello b) = agreed a b"
    unfolding agreed_def limits common_sorted(2)[OF assms(2,3)[unfolded families_def]]
    by (rule refl)
  show ?thesis
    unfolding negotiate_eq wire limits clash_sort common_sort_empty by (rule refl)
qed

text \<open>Remark. Both ends of a handshake agree: when two engines exchange the HELLO payloads
  of \<open>a\<close> and \<open>b\<close> (limits below \<open>2 ^ 32\<close>, at most 65535 plugins), each decodes the other's, and
  the outcomes of \<open>negotiate\<close> on the two sides are equal: the same error, or the same
  capabilities down to the transcript hash.\<close>

theorem handshake_agrees:
  assumes "encode_hello_payload a = Inr x" "encode_hello_payload b = Inr y"
    and "hello_fits a" "hello_fits b"
  shows "\<exists>a' b'. decode_hello_payload x = Inr a' \<and> decode_hello_payload y = Inr b' \<and>
    negotiate a b' = negotiate b a'"
proof -
  have d: "distinct (families a)" "distinct (families b)"
    using assms(1,2) by (simp_all add: encode_hello_iff)
  have "decode_hello_payload x = Inr (wire_hello a)" "decode_hello_payload y = Inr (wire_hello b)"
    using hello_roundtrip[OF assms(1)] hello_roundtrip[OF assms(2)] assms(3,4)
    by (simp_all add: hello_fits_def)
  moreover have "negotiate a (wire_hello b) = negotiate b (wire_hello a)"
    using negotiate_wire[OF assms(4) d] negotiate_wire[OF assms(3) d(2,1)] negotiate_swap[OF d]
    by simp
  ultimately show ?thesis by blast
qed

lemma features_subset: "x AND NOT y = 0 \<longleftrightarrow> (\<forall>n. bit x n \<longrightarrow> bit y n)" for x y :: u64
proof -
  have "n < 64" if "bit x n" for n using bit_imp_le_length[OF that] by simp
  then show ?thesis by (auto simp: bit_eq_iff bit_simps)
qed

definition compatible :: "HelloMessage \<Rightarrow> HelloMessage \<Rightarrow> bool" where
  "compatible a b \<longleftrightarrow>
     hm_min_major b \<le> hm_max_major a \<and> hm_min_major a \<le> hm_max_major b \<and>
     (\<forall>h \<in> {a, b}. 128 \<le> lp_max_frame (hm_limits h) \<and> 1 \<le> lp_max_message (hm_limits h) \<and>
        0 < lp_max_channels (hm_limits h) \<and>
        min (lp_max_frame (hm_limits a)) (lp_max_frame (hm_limits b))
          \<le> lp_connection_window (hm_limits h)) \<and>
     (\<forall>n. bit (lp_required_features (hm_limits a)) n \<longrightarrow>
        bit (lp_required_features (hm_limits b)) n \<or> bit (lp_optional_features (hm_limits b)) n) \<and>
     (\<forall>n. bit (lp_required_features (hm_limits b)) n \<longrightarrow>
        bit (lp_required_features (hm_limits a)) n \<or> bit (lp_optional_features (hm_limits a)) n) \<and>
     (\<forall>l \<in> set (hm_plugins a). \<forall>r \<in> set (hm_plugins b).
        pd_family_id l = pd_family_id r \<longrightarrow> pd_schema_hash l = pd_schema_hash r) \<and>
     set (families a) \<inter> set (families b) \<noteq> {}"

lemma common_empty: "common ls ps = [] \<longleftrightarrow>
    set (map pd_family_id ls) \<inter> set (map pd_family_id ps) = {}"
proof -
  have "common ls ps = [] \<longleftrightarrow> set (common ls ps) = {}" by simp
  also have "\<dots> \<longleftrightarrow> (\<forall>l \<in> set ls. \<forall>r \<in> set ps. pd_family_id l \<noteq> pd_family_id r)"
    unfolding set_common by blast
  finally show ?thesis by fastforce
qed

lemma common_features_ok:
  fixes ra oa rb ob :: u64
  shows "(ra AND NOT ((ra OR oa) AND (rb OR ob)) \<noteq> 0 \<or> rb AND NOT ((ra OR oa) AND (rb OR ob)) \<noteq> 0)
    \<longleftrightarrow> \<not> ((\<forall>n. bit ra n \<longrightarrow> bit rb n \<or> bit ob n) \<and> (\<forall>n. bit rb n \<longrightarrow> bit ra n \<or> bit oa n))"
  unfolding features_subset by (auto simp: bit_simps)

lemma limits_ok:
  fixes fa fb ma mb wa wb :: nat and ca cb :: u16
  shows "(min fa fb < 128 \<or> min ma mb < 1 \<or> min wa wb < min fa fb \<or> min ca cb = 0) \<longleftrightarrow>
    \<not> (128 \<le> fa \<and> 128 \<le> fb \<and> 1 \<le> ma \<and> 1 \<le> mb \<and> 0 < ca \<and> 0 < cb \<and>
       min fa fb \<le> wa \<and> min fa fb \<le> wb)"
proof -
  have "min ca cb = 0 \<longleftrightarrow> \<not> (0 < ca \<and> 0 < cb)"
    using word_gt_0[of ca] word_gt_0[of cb] word_le_0_iff[of cb] word_le_0_iff[of ca]
    by (auto simp: min_def not_le)
  then show ?thesis by (auto simp: min_less_iff_disj)
qed

lemma negotiate_when:
  "negotiate a b = Inr caps \<longleftrightarrow> compatible a b \<and> caps = agreed a b"
proof -
  have "compatible a b \<longleftrightarrow>
      \<not> (hm_max_major a < hm_min_major b \<or> hm_max_major b < hm_min_major a) \<and>
      \<not> (min (lp_max_frame (hm_limits a)) (lp_max_frame (hm_limits b)) < 128 \<or>
          min (lp_max_message (hm_limits a)) (lp_max_message (hm_limits b)) < 1 \<or>
          min (lp_connection_window (hm_limits a)) (lp_connection_window (hm_limits b))
            < min (lp_max_frame (hm_limits a)) (lp_max_frame (hm_limits b)) \<or>
          min (lp_max_channels (hm_limits a)) (lp_max_channels (hm_limits b)) = 0) \<and>
      \<not> (lp_required_features (hm_limits a) AND NOT (cap_features (agreed a b)) \<noteq> 0 \<or>
          lp_required_features (hm_limits b) AND NOT (cap_features (agreed a b)) \<noteq> 0) \<and>
      \<not> clash (hm_plugins a) (hm_plugins b) \<and> common (hm_plugins a) (hm_plugins b) \<noteq> []"
    unfolding limits_ok agreed_features common_features_ok compatible_def clash_def common_empty
      families_def by (auto simp: not_less word_gt_0)
  then show ?thesis unfolding negotiate_eq by auto
qed

text \<open>Property C15. Negotiation succeeds exactly when it should: the version ranges overlap, every
  limit of both sides is at least the protocol minimum and the smaller frame limit fits both
  windows, each side offers every feature the other requires, no shared plugin family differs in
  its schema hash, and some family is shared.\<close>

theorem negotiate_exact: "is_ok (negotiate a b) \<longleftrightarrow> compatible a b"
  by (simp add: is_ok_iff negotiate_when)

lemma negotiated_within_both_facts:
  assumes "negotiate a b = Inr caps" "h \<in> {a, b}"
    and "hm_min_major a \<le> hm_max_major a" "hm_min_major b \<le> hm_max_major b"
  shows "hm_min_major h \<le> cap_major caps \<and> cap_major caps \<le> hm_max_major h"
    and "128 \<le> cap_max_frame caps \<and> cap_max_frame caps \<le> lp_max_frame (hm_limits h)"
    and "1 \<le> cap_max_message caps \<and> cap_max_message caps \<le> lp_max_message (hm_limits h)"
    and "cap_max_frame caps \<le> cap_connection_window caps \<and>
      cap_connection_window caps \<le> lp_connection_window (hm_limits h)"
    and "0 < cap_max_channels caps \<and> cap_max_channels caps \<le> lp_max_channels (hm_limits h)"
    and "\<forall>n. (bit (lp_required_features (hm_limits h)) n \<longrightarrow> bit (cap_features caps) n) \<and>
      (bit (cap_features caps) n \<longrightarrow>
        bit (lp_required_features (hm_limits h)) n \<or> bit (lp_optional_features (hm_limits h)) n)"
    and "cap_plugins caps \<noteq> [] \<and> sorted (map pd_family_id (cap_plugins caps)) \<and>
      (\<forall>d \<in> set (cap_plugins caps). \<exists>od \<in> set (hm_plugins h). pd_family_id od = pd_family_id d \<and>
         pd_schema_hash od = pd_schema_hash d \<and> pd_max_depth d \<le> pd_max_depth od)"
proof -
  have c: "compatible a b" and caps: "caps = agreed a b" using assms(1) by (simp_all add: negotiate_when)
  note sel = caps agreed_def Let_def
  show "hm_min_major h \<le> cap_major caps \<and> cap_major caps \<le> hm_max_major h"
    using c assms(2-4) by (auto simp: sel compatible_def)
  show "128 \<le> cap_max_frame caps \<and> cap_max_frame caps \<le> lp_max_frame (hm_limits h)"
    using c assms(2) by (auto simp: sel compatible_def)
  show "1 \<le> cap_max_message caps \<and> cap_max_message caps \<le> lp_max_message (hm_limits h)"
    using c assms(2) by (auto simp: sel compatible_def)
  show "cap_max_frame caps \<le> cap_connection_window caps \<and>
      cap_connection_window caps \<le> lp_connection_window (hm_limits h)"
    using c assms(2) by (auto simp: sel compatible_def)
  show "0 < cap_max_channels caps \<and> cap_max_channels caps \<le> lp_max_channels (hm_limits h)"
    using c assms(2) by (auto simp: sel compatible_def min_def)
  show "\<forall>n. (bit (lp_required_features (hm_limits h)) n \<longrightarrow> bit (cap_features caps) n) \<and>
      (bit (cap_features caps) n \<longrightarrow>
        bit (lp_required_features (hm_limits h)) n \<or> bit (lp_optional_features (hm_limits h)) n)"
    using c assms(2) by (auto simp: sel compatible_def bit_simps)
  have "cap_plugins caps = sort_key pd_family_id (common (hm_plugins a) (hm_plugins b))"
    by (simp add: sel)
  moreover have "common (hm_plugins a) (hm_plugins b) \<noteq> []"
    using c by (simp add: common_empty compatible_def families_def)
  moreover have "\<forall>d \<in> set (common (hm_plugins a) (hm_plugins b)).
      \<exists>od \<in> set (hm_plugins h). pd_family_id od = pd_family_id d \<and>
         pd_schema_hash od = pd_schema_hash d \<and> pd_max_depth d \<le> pd_max_depth od"
    using c assms(2) unfolding set_common compatible_def by (fastforce simp: combine_def)
  ultimately show "cap_plugins caps \<noteq> [] \<and> sorted (map pd_family_id (cap_plugins caps)) \<and>
      (\<forall>d \<in> set (cap_plugins caps). \<exists>od \<in> set (hm_plugins h). pd_family_id od = pd_family_id d \<and>
         pd_schema_hash od = pd_schema_hash d \<and> pd_max_depth d \<le> pd_max_depth od)"
    by (metis set_empty set_sort sorted_sort_key)
qed

text \<open>Property C14. What is agreed binds both sides: each limit is within the limits of both, the
  window holds a frame, the version is in both ranges (when the ranges are not empty), the
  features are offered by both and include all that either requires, and the plugins, in family
  order, are families both have under the same schema hash, at a depth neither exceeds.\<close>

theorem negotiated_within_both:
  assumes "negotiate a b = Inr caps" "h \<in> {a, b}"
    and "hm_min_major a \<le> hm_max_major a" "hm_min_major b \<le> hm_max_major b"
  shows "(hm_min_major h \<le> cap_major caps \<and> cap_major caps \<le> hm_max_major h) \<and>
    (128 \<le> cap_max_frame caps \<and> cap_max_frame caps \<le> lp_max_frame (hm_limits h)) \<and>
    (1 \<le> cap_max_message caps \<and> cap_max_message caps \<le> lp_max_message (hm_limits h)) \<and>
    (cap_max_frame caps \<le> cap_connection_window caps \<and>
      cap_connection_window caps \<le> lp_connection_window (hm_limits h)) \<and>
    (0 < cap_max_channels caps \<and> cap_max_channels caps \<le> lp_max_channels (hm_limits h)) \<and>
    (\<forall>n. (bit (lp_required_features (hm_limits h)) n \<longrightarrow> bit (cap_features caps) n) \<and>
      (bit (cap_features caps) n \<longrightarrow>
        bit (lp_required_features (hm_limits h)) n \<or> bit (lp_optional_features (hm_limits h)) n)) \<and>
    (cap_plugins caps \<noteq> [] \<and> sorted (map pd_family_id (cap_plugins caps)) \<and>
      (\<forall>d \<in> set (cap_plugins caps). \<exists>od \<in> set (hm_plugins h). pd_family_id od = pd_family_id d \<and>
         pd_schema_hash od = pd_schema_hash d \<and> pd_max_depth d \<le> pd_max_depth od))"
  using negotiated_within_both_facts[OF assms] by blast

section \<open>Concrete messages\<close>

definition sample_left :: HelloMessage where
  "sample_left = \<lparr>hm_min_major = 1, hm_max_major = 2, hm_limits = default_policy,
     hm_plugins = [\<lparr>pd_family_id = 9, pd_schema_hash = 5, pd_max_depth = 4\<rparr>,
       \<lparr>pd_family_id = 7, pd_schema_hash = 0x4543484F5F763031, pd_max_depth = 4\<rparr>]\<rparr>"

definition sample_right :: HelloMessage where
  "sample_right = \<lparr>hm_min_major = 1, hm_max_major = 1,
     hm_limits = default_policy\<lparr>lp_max_frame := 4096, lp_max_channels := 16\<rparr>,
     hm_plugins = [\<lparr>pd_family_id = 7, pd_schema_hash = 0x4543484F5F763031, pd_max_depth = 3\<rparr>]\<rparr>"

lemma sample_encodes: "\<exists>x. encode_hello_payload sample_left = Inr x"
    "\<exists>y. encode_hello_payload sample_right = Inr y"
  by (simp_all add: encode_hello_iff sample_left_def sample_right_def families_def)

lemma sample_compatible: "compatible sample_left sample_right"
  by (simp add: compatible_def sample_left_def sample_right_def families_def default_policy_def)

theorem hello_roundtrip_witness:
  "\<exists>x. encode_hello_payload sample_left = Inr x \<and>
     decode_hello_payload x = Inr (wire_hello sample_left)"
proof -
  obtain x where x: "encode_hello_payload sample_left = Inr x" using sample_encodes(1) by blast
  have "length (hm_plugins sample_left) < 2 ^ 16" by (simp add: sample_left_def)
  then show ?thesis using hello_roundtrip[OF x] x by blast
qed

theorem handshake_agrees_witness:
  "\<exists>x y a' b'. encode_hello_payload sample_left = Inr x \<and> encode_hello_payload sample_right = Inr y \<and>
     decode_hello_payload x = Inr a' \<and> decode_hello_payload y = Inr b' \<and>
     negotiate sample_left b' = negotiate sample_right a'"
proof -
  obtain x y where xy: "encode_hello_payload sample_left = Inr x"
    "encode_hello_payload sample_right = Inr y"
    using sample_encodes by blast
  have fits: "hello_fits sample_left" "hello_fits sample_right"
    by (simp_all add: hello_fits_def sample_left_def sample_right_def default_policy_def)
  show ?thesis using handshake_agrees[OF xy fits] xy by blast
qed

theorem negotiated_within_both_witness:
  "\<exists>caps. negotiate sample_left sample_right = Inr caps \<and>
     128 \<le> cap_max_frame caps \<and> cap_max_frame caps \<le> 4096 \<and> cap_plugins caps \<noteq> []"
proof -
  have n: "negotiate sample_left sample_right = Inr (agreed sample_left sample_right)"
    by (simp add: negotiate_when sample_compatible)
  have r: "sample_right \<in> {sample_left, sample_right}"
    "hm_min_major sample_left \<le> hm_max_major sample_left"
    "hm_min_major sample_right \<le> hm_max_major sample_right"
    "lp_max_frame (hm_limits sample_right) = 4096"
    by (simp_all add: sample_left_def sample_right_def)
  show ?thesis
    using negotiated_within_both[OF n r(1-3)] n r(4) by fastforce
qed

end
