(* ===== verification/Plugin_Registry.thy ===== *)
theory Plugin_Registry
  imports Ordered_Map Reassembler
begin

text \<open>
  Plugin families and their leases, \<^verbatim>\<open>src/plugin/registry.cpp\<close>. A factory is code supplied by
  the caller: it is represented by the handler its plugin runs, and an empty
  \<open>std::function\<close> by \<open>None\<close>. \<open>register_factory\<close> moves the factory into the entry it offers to
  \<open>emplace\<close>, so that when the family is already there, what it assigns to the entry is the
  moved-from \<open>std::function\<close>, which every implementation leaves empty; calling it throws
  \<open>std::bad_function_call\<close>. Where a factory is called, \<open>None\<close> is that exception, thrown before
  anything has been changed. The lease counters are shared between the registry and the
  leases through \<open>std::shared_ptr\<close>; they live in a store of cells, and entries and leases hold
  cell numbers. \<open>RegistryOp\<close> histories track the live leases, to state that a counter is always
  the number of leases that hold its cell. The counter is a \<open>nat\<close>: there are never \<open>2 ^ 64\<close>
  leases in memory.
\<close>

type_synonym Handler = "LogicalMessage \<Rightarrow> bytes result"

record PluginLeaseState =
  ls_active :: nat
  ls_draining :: bool

record PluginEntry =
  pe_descriptor :: PluginDescriptor
  pe_factory :: "Handler option"
  pe_state :: nat

record PluginLease =
  pl_plugin :: Handler
  pl_state :: nat

record PluginRegistry =
  rg_entries :: "(u32 \<times> PluginEntry) list"
  rg_store :: "nat \<Rightarrow> PluginLeaseState"
  rg_next :: nat

definition fresh_state :: PluginLeaseState where
  "fresh_state = \<lparr>ls_active = 0, ls_draining = False\<rparr>"

definition plugin_registry :: PluginRegistry where
  "plugin_registry = \<lparr>rg_entries = [], rg_store = (\<lambda>_. fresh_state), rg_next = 0\<rparr>"

section \<open>The echo plugin\<close>

definition echo_descriptor :: PluginDescriptor where
  "echo_descriptor =
     \<lparr>pd_family_id = 7, pd_schema_hash = 0x4543484F5F763031, pd_max_depth = 4\<rparr>"

definition echo_handle :: Handler where
  "echo_handle message = Inr ([0x65, 0x63, 0x68, 0x6F, 0x3A] @ lm_payload message)"

section \<open>Registration and leases\<close>

definition register_factory ::
  "PluginRegistry \<Rightarrow> PluginDescriptor \<Rightarrow> Handler option \<Rightarrow> PluginRegistry \<times> unit result" where
  "register_factory rg descriptor factory =
     (if pd_family_id descriptor = 0 \<or> pd_max_depth descriptor > 32 \<or> factory = None
      then (rg, Inl (make_error ES_plugin EC_resource_limit CA_reject_message
                       ''invalid plugin descriptor''))
      else
        let state = rg_next rg;
            allocated = rg\<lparr>rg_store := (rg_store rg)(state := fresh_state), rg_next := state + 1\<rparr>
        in case om_get (rg_entries rg) (pd_family_id descriptor) of
             None \<Rightarrow>
               (allocated\<lparr>rg_entries := om_put (pd_family_id descriptor)
                   \<lparr>pe_descriptor = descriptor, pe_factory = factory, pe_state = state\<rparr>
                   (rg_entries rg)\<rparr>, Inr ())
           | Some entry \<Rightarrow>
               if pe_descriptor entry \<noteq> descriptor
               then (rg, Inl (make_error ES_plugin EC_duplicate_required_tlv CA_close_connection
                                ''ambiguous plugin schema''))
               else if ls_active (rg_store rg (pe_state entry)) > 0
               then (rg, Inl (make_error ES_plugin EC_would_block CA_none
                                ''cannot replace plugin family while leases are active''))
               else (allocated\<lparr>rg_entries := om_put (pd_family_id descriptor)
                        (entry\<lparr>pe_factory := None, pe_state := state\<rparr>) (rg_entries rg)\<rparr>,
                     Inr ()))"

definition unregister_family :: "PluginRegistry \<Rightarrow> u32 \<Rightarrow> PluginRegistry \<times> unit result" where
  "unregister_family rg family_id =
     (case om_get (rg_entries rg) family_id of
        None \<Rightarrow> (rg, Inl (make_error ES_plugin EC_plugin_decode CA_reject_message
                           ''plugin family not registered''))
      | Some entry \<Rightarrow>
          let cell = rg_store rg (pe_state entry);
              drained = rg\<lparr>rg_store := (rg_store rg)(pe_state entry := cell\<lparr>ls_draining := True\<rparr>)\<rparr>
          in if ls_active cell > 0
             then (drained, Inl (make_error ES_plugin EC_would_block CA_none
                                   ''plugin family is waiting for active leases''))
             else (drained\<lparr>rg_entries := om_del family_id (rg_entries rg)\<rparr>, Inr ()))"

definition unavailable :: Error where
  "unavailable =
     make_error ES_plugin EC_plugin_decode CA_reject_message ''plugin family is unavailable''"

definition create_lease :: "PluginRegistry \<Rightarrow> u32 \<Rightarrow> (PluginRegistry \<times> PluginLease result) option" where
  "create_lease rg family_id =
     (case om_get (rg_entries rg) family_id of
        None \<Rightarrow> Some (rg, Inl unavailable)
      | Some entry \<Rightarrow>
          let cell = rg_store rg (pe_state entry)
          in if ls_draining cell then Some (rg, Inl unavailable)
             else
               case pe_factory entry of
                 None \<Rightarrow> None
               | Some plugin \<Rightarrow>
                   Some (rg\<lparr>rg_store := (rg_store rg)
                            (pe_state entry := cell\<lparr>ls_active := ls_active cell + 1\<rparr>)\<rparr>,
                         Inr \<lparr>pl_plugin = plugin, pl_state = pe_state entry\<rparr>))"

definition create_plugin :: "PluginRegistry \<Rightarrow> u32 \<Rightarrow> Handler result option" where
  "create_plugin rg family_id =
     (case om_get (rg_entries rg) family_id of
        None \<Rightarrow> Some (Inl unavailable)
      | Some entry \<Rightarrow>
          if ls_draining (rg_store rg (pe_state entry)) then Some (Inl unavailable)
          else map_option Inr (pe_factory entry))"

text \<open>\<open>PluginLease::release\<close>, run by the destructor and by move assignment.\<close>

definition release_lease :: "PluginRegistry \<Rightarrow> PluginLease \<Rightarrow> PluginRegistry" where
  "release_lease rg lease =
     (let cell = rg_store rg (pl_state lease)
      in if ls_active cell > 0
         then rg\<lparr>rg_store := (rg_store rg)
                   (pl_state lease := cell\<lparr>ls_active := ls_active cell - 1\<rparr>)\<rparr>
         else rg)"

definition descriptors :: "PluginRegistry \<Rightarrow> PluginDescriptor list" where
  "descriptors rg = sort_key pd_family_id (map (\<lambda>(family, entry). pe_descriptor entry) (rg_entries rg))"

definition contains_exact :: "PluginRegistry \<Rightarrow> PluginDescriptor \<Rightarrow> bool" where
  "contains_exact rg descriptor \<longleftrightarrow>
     (case om_get (rg_entries rg) (pd_family_id descriptor) of
        None \<Rightarrow> False
      | Some entry \<Rightarrow> pe_descriptor entry = descriptor)"

section \<open>Histories\<close>

datatype RegistryOp =
    OP_Register PluginDescriptor "Handler option"
  | OP_Unregister u32
  | OP_Lease u32
  | OP_Release nat

fun registry_step :: "PluginRegistry \<times> PluginLease list \<Rightarrow> RegistryOp \<Rightarrow> PluginRegistry \<times> PluginLease list" where
  "registry_step (rg, leases) (OP_Register d f) = (fst (register_factory rg d f), leases)"
| "registry_step (rg, leases) (OP_Unregister fam) = (fst (unregister_family rg fam), leases)"
| "registry_step (rg, leases) (OP_Lease fam) =
     (case create_lease rg fam of
        None \<Rightarrow> (rg, leases)
      | Some (rg', Inl e) \<Rightarrow> (rg', leases)
      | Some (rg', Inr lease) \<Rightarrow> (rg', leases @ [lease]))"
| "registry_step (rg, leases) (OP_Release i) =
     (if i < length leases
      then (release_lease rg (leases ! i), take i leases @ drop (i + 1) leases)
      else (rg, leases))"

definition registry_run :: "RegistryOp list \<Rightarrow> PluginRegistry \<times> PluginLease list" where
  "registry_run ops = foldl registry_step (plugin_registry, []) ops"

definition holders :: "PluginLease list \<Rightarrow> nat \<Rightarrow> nat" where
  "holders leases c = length (filter (\<lambda>l. pl_state l = c) leases)"

definition entry_ok :: "PluginRegistry \<Rightarrow> u32 \<Rightarrow> PluginEntry \<Rightarrow> bool" where
  "entry_ok rg family entry \<longleftrightarrow> pd_family_id (pe_descriptor entry) = family \<and> family \<noteq> 0 \<and>
     pd_max_depth (pe_descriptor entry) \<le> 32 \<and> pe_state entry < rg_next rg"

definition registry_ok :: "PluginRegistry \<Rightarrow> PluginLease list \<Rightarrow> bool" where
  "registry_ok rg leases \<longleftrightarrow> om_ok (rg_entries rg) \<and>
     (\<forall>(family, entry) \<in> set (rg_entries rg). entry_ok rg family entry) \<and>
     (\<forall>l \<in> set leases. pl_state l < rg_next rg) \<and>
     (\<forall>c. ls_active (rg_store rg c) = holders leases c)"

lemma holders_simps [simp]: "holders [] c = 0"
  "holders (l # ls) c = (if pl_state l = c then 1 else 0) + holders ls c"
  "holders (ls @ ls') c = holders ls c + holders ls' c"
  by (simp_all add: holders_def)

lemma holders_remove:
  assumes "i < length leases"
  shows "holders leases c = (if pl_state (leases ! i) = c then 1 else 0) +
    holders (take i leases @ drop (i + 1) leases) c"
  by (subst id_take_nth_drop[OF assms]) simp

lemma holders_none: "(\<forall>l \<in> set leases. pl_state l \<noteq> c) \<longleftrightarrow> holders leases c = 0"
  by (auto simp: holders_def filter_empty_conv)

lemma registry_entry:
  "\<lbrakk>registry_ok rg leases; om_get (rg_entries rg) family = Some entry\<rbrakk> \<Longrightarrow> entry_ok rg family entry"
  by (auto simp: registry_ok_def om_get_iff)

lemma entries_put:
  assumes "om_ok m" "\<forall>(k, v) \<in> set m. P k v" "P k v"
  shows "\<forall>(k, v) \<in> set (om_put k v m). P k v"
proof -
  have "om_get (om_put k v m) k' = Some v' \<Longrightarrow> P k' v'" for k' v'
    using assms by (auto simp: om_get_put_map om_get_iff split: if_splits)
  then show ?thesis using assms(1) by (auto simp: om_get_iff)
qed

lemma registry_ok_register:
  assumes "registry_ok rg leases"
  shows "registry_ok (fst (register_factory rg d f)) leases"
proof -
  have zero: "holders leases (rg_next rg) = 0"
    using assms holders_none[of leases "rg_next rg"] by (fastforce simp: registry_ok_def)
  define rg' where "rg' = rg\<lparr>rg_store := (rg_store rg)(rg_next rg := fresh_state), rg_next := rg_next rg + 1\<rparr>"
  have put: "registry_ok (rg'\<lparr>rg_entries := om_put k e (rg_entries rg)\<rparr>) leases"
    if "pd_family_id (pe_descriptor e) = k" "k \<noteq> 0" "pd_max_depth (pe_descriptor e) \<le> 32"
      "pe_state e = rg_next rg" for k e
  proof -
    have old: "\<forall>(k, e) \<in> set (rg_entries rg). entry_ok rg' k e"
      using assms by (auto simp: registry_ok_def entry_ok_def rg'_def)
    have "entry_ok rg' k e" using that by (simp add: entry_ok_def rg'_def)
    from entries_put[OF _ old this] assms zero show ?thesis
      by (auto simp: registry_ok_def rg'_def fresh_state_def entry_ok_def)
  qed
  show ?thesis
  proof (cases "om_get (rg_entries rg) (pd_family_id d)")
    case None
    then show ?thesis
      using assms put[of "\<lparr>pe_descriptor = d, pe_factory = f, pe_state = rg_next rg\<rparr>" "pd_family_id d"]
      by (auto simp: register_factory_def Let_def rg'_def not_less)
  next
    case (Some e)
    then show ?thesis
      using assms put[of "e\<lparr>pe_factory := None, pe_state := rg_next rg\<rparr>" "pd_family_id d"]
        registry_entry[OF assms Some]
      by (auto simp: register_factory_def Let_def rg'_def entry_ok_def)
  qed
qed

lemma entry_ok_cong:
  "rg_next rg' = rg_next rg \<Longrightarrow> entry_ok rg' = entry_ok rg"
  by (simp add: entry_ok_def fun_eq_iff)

lemma registry_ok_store:
  assumes "registry_ok rg leases"
    and "\<forall>l \<in> set leases'. pl_state l < rg_next rg"
    and "\<forall>c. ls_active (store c) = holders leases' c"
  shows "registry_ok (rg\<lparr>rg_store := store\<rparr>) leases'"
proof -
  have "entry_ok (rg\<lparr>rg_store := store\<rparr>) = entry_ok rg" by (rule entry_ok_cong) simp
  then show ?thesis using assms by (simp add: registry_ok_def)
qed

lemma registry_ok_del: "registry_ok rg leases \<Longrightarrow> registry_ok (rg\<lparr>rg_entries := om_del k (rg_entries rg)\<rparr>) leases"
  by (auto simp: registry_ok_def om_del_def entry_ok_def om_ok_del[unfolded om_del_def])

lemma registry_ok_unregister:
  assumes "registry_ok rg leases"
  shows "registry_ok (fst (unregister_family rg fam)) leases"
proof (cases "om_get (rg_entries rg) fam")
  case (Some e)
  let ?store = "(rg_store rg)(pe_state e := rg_store rg (pe_state e)\<lparr>ls_draining := True\<rparr>)"
  have "registry_ok (rg\<lparr>rg_store := ?store\<rparr>) leases"
    using assms by (intro registry_ok_store[OF assms]) (auto simp: registry_ok_def)
  from this registry_ok_del[OF this, of fam] show ?thesis
    using Some by (simp add: unregister_family_def Let_def)
qed (use assms in \<open>simp add: unregister_family_def\<close>)

lemma create_lease_cases:
  obtains (refused) "create_lease rg fam = Some (rg, Inl unavailable)"
  | (thrown) "create_lease rg fam = None"
  | (granted) entry plugin where "om_get (rg_entries rg) fam = Some entry"
      "\<not> ls_draining (rg_store rg (pe_state entry))" "pe_factory entry = Some plugin"
      "create_lease rg fam = Some (rg\<lparr>rg_store := (rg_store rg)(pe_state entry :=
         rg_store rg (pe_state entry)\<lparr>ls_active := ls_active (rg_store rg (pe_state entry)) + 1\<rparr>)\<rparr>,
         Inr \<lparr>pl_plugin = plugin, pl_state = pe_state entry\<rparr>)"
proof (cases "om_get (rg_entries rg) fam")
  case None
  then show ?thesis using refused by (simp add: create_lease_def)
next
  case (Some entry)
  then show ?thesis using refused thrown granted
    by (cases "ls_draining (rg_store rg (pe_state entry))"; cases "pe_factory entry")
      (simp_all add: create_lease_def Let_def)
qed

lemma registry_ok_step:
  assumes "registry_ok rg leases"
  shows "case registry_step (rg, leases) op of (rg', leases') \<Rightarrow> registry_ok rg' leases'"
proof (cases op)
  case (OP_Register d f)
  then show ?thesis using registry_ok_register[OF assms] by simp
next
  case (OP_Unregister fam)
  then show ?thesis using registry_ok_unregister[OF assms] by simp
next
  case (OP_Lease fam)
  show ?thesis
  proof (cases rule: create_lease_cases[of rg fam])
    case refused
    then show ?thesis using assms OP_Lease by (simp add: unavailable_def)
  next
    case thrown
    then show ?thesis using assms OP_Lease by simp
  next
    case (granted entry plugin)
    have "pe_state entry < rg_next rg" using registry_entry[OF assms granted(1)] by (simp add: entry_ok_def)
    then show ?thesis using assms OP_Lease granted
      by (simp, intro registry_ok_store[OF assms]) (auto simp: registry_ok_def)
  qed
next
  case (OP_Release i)
  show ?thesis
  proof (cases "i < length leases")
    case True
    let ?l = "leases ! i" and ?rest = "take i leases @ drop (i + 1) leases"
    have pos: "ls_active (rg_store rg (pl_state ?l)) > 0"
      using assms holders_remove[OF True, of "pl_state ?l"] by (simp add: registry_ok_def)
    have sub: "set ?rest \<subseteq> set leases" using set_take_subset[of i leases] set_drop_subset[of "i + 1" leases] by auto
    have "registry_ok (rg\<lparr>rg_store := (rg_store rg)(pl_state ?l :=
        rg_store rg (pl_state ?l)\<lparr>ls_active := ls_active (rg_store rg (pl_state ?l)) - 1\<rparr>)\<rparr>) ?rest"
    proof (rule registry_ok_store[OF assms])
      show "\<forall>l \<in> set ?rest. pl_state l < rg_next rg" using sub assms by (auto simp: registry_ok_def)
      show "\<forall>c. ls_active (((rg_store rg)(pl_state ?l := rg_store rg (pl_state ?l)
          \<lparr>ls_active := ls_active (rg_store rg (pl_state ?l)) - 1\<rparr>)) c) = holders ?rest c"
        using assms holders_remove[OF True] by (auto simp: registry_ok_def)
    qed
    then show ?thesis using True pos OP_Release by (simp add: release_lease_def Let_def)
  qed (use assms OP_Release in simp)
qed

lemma registry_ok_run:
  assumes "registry_run ops = (rg, leases)"
  shows "registry_ok rg leases"
proof -
  have "case foldl registry_step st ops of (rg', ls') \<Rightarrow> registry_ok rg' ls'"
    if "registry_ok (fst st) (snd st)" for st
    using that
  proof (induction ops arbitrary: st)
    case (Cons op ops)
    have "registry_ok (fst (registry_step st op)) (snd (registry_step st op))"
      using registry_ok_step[OF Cons.prems, of op] by (simp add: case_prod_beta)
    from Cons.IH[OF this] show ?case by simp
  qed auto
  moreover have "registry_ok plugin_registry []"
    by (simp add: registry_ok_def plugin_registry_def fresh_state_def)
  ultimately show ?thesis using assms by (fastforce simp: registry_run_def)
qed

section \<open>What the registry promises\<close>

text \<open>Remark. A lease counter is exactly the number of live leases: after any history of
  registrations, unregistrations, leases and releases (the leases released in any order), every
  counter equals the number of leases that hold it, so a release never finds it at zero; the
  entries stay ordered by family, each under its own non-zero family and with a depth of at
  most 32.\<close>

theorem lease_counts_exact:
  assumes "registry_run ops = (rg, leases)"
  shows "ls_active (rg_store rg c) = length (filter (\<lambda>l. pl_state l = c) leases)"
    and "sorted_wrt (<) (map fst (rg_entries rg))"
    and "list_all (\<lambda>(family, e). pd_family_id (pe_descriptor e) = family \<and> family \<noteq> 0 \<and>
           pd_max_depth (pe_descriptor e) \<le> 32) (rg_entries rg)"
  using registry_ok_run[OF assms]
  by (auto simp: registry_ok_def holders_def om_ok_def list_all_iff entry_ok_def)

lemma unregister_quiescent_facts:
  assumes "registry_run ops = (rg, leases)" "om_get (rg_entries rg) family = Some entry"
    and "unregister_family rg family = (rg', res)"
  shows "is_ok res \<longleftrightarrow> (\<forall>l \<in> set leases. pl_state l \<noteq> pe_state entry)"
    and "create_lease rg' family = Some (rg', Inl unavailable)"
    and "\<not> is_ok res \<Longrightarrow> om_get (rg_entries rg') family = Some entry"
    and "\<forall>e. res = Inl e \<longrightarrow> err_code e = EC_would_block"
proof -
  have ok: "registry_ok rg leases" using assms(1) by (rule registry_ok_run)
  have count: "ls_active (rg_store rg (pe_state entry)) = holders leases (pe_state entry)"
    and map: "om_ok (rg_entries rg)"
    using ok by (simp_all add: registry_ok_def)
  have shape: "rg' = (let drained = rg\<lparr>rg_store := (rg_store rg)(pe_state entry :=
        rg_store rg (pe_state entry)\<lparr>ls_draining := True\<rparr>)\<rparr>
      in if is_ok res then drained\<lparr>rg_entries := om_del family (rg_entries rg)\<rparr> else drained)"
    and res: "is_ok res \<longleftrightarrow> holders leases (pe_state entry) = 0"
      "\<forall>e. res = Inl e \<longrightarrow> err_code e = EC_would_block"
    using assms(2,3) count by (auto simp: unregister_family_def Let_def split: if_splits)
  show "is_ok res \<longleftrightarrow> (\<forall>l \<in> set leases. pl_state l \<noteq> pe_state entry)"
    using res(1) holders_none by metis
  show "create_lease rg' family = Some (rg', Inl unavailable)"
    using assms(2) by (simp add: shape Let_def create_lease_def om_get_del_map)
  show "om_get (rg_entries rg') family = Some entry" if "\<not> is_ok res"
    using that assms(2) by (simp add: shape)
  show "\<forall>e. res = Inl e \<longrightarrow> err_code e = EC_would_block" by (rule res(2))
qed

text \<open>Remark. What a registration that succeeds is worth: a new family leases the plugin it was
  registered with, but registering a family again, with the same descriptor, leaves it with an
  empty factory, so that the next lease throws, whatever the factory given.\<close>

lemma lease_after_registration:
  assumes "registry_run ops = (rg, leases)"
    and "register_factory rg d (Some handler) = (rg', Inr ())"
  shows "create_lease rg' (pd_family_id d) =
    (case om_get (rg_entries rg) (pd_family_id d) of
       None \<Rightarrow> Some (rg'\<lparr>rg_store := (rg_store rg')(rg_next rg := fresh_state\<lparr>ls_active := 1\<rparr>)\<rparr>,
                    Inr \<lparr>pl_plugin = handler, pl_state = rg_next rg\<rparr>)
     | Some entry \<Rightarrow> None)"
proof -
  have "om_ok (rg_entries rg)" using registry_ok_run[OF assms(1)] by (simp add: registry_ok_def)
  then show ?thesis using assms(2)
    by (auto simp: register_factory_def Let_def create_lease_def om_get_put_map fresh_state_def
        split: option.splits if_splits)
qed

theorem second_registration_breaks:
  assumes "registry_run ops = (rg, leases)" "om_get (rg_entries rg) (pd_family_id d) = Some entry"
    and "register_factory rg d (Some handler) = (rg', Inr ())"
  shows "create_lease rg' (pd_family_id d) = None \<and> create_plugin rg' (pd_family_id d) = None"
proof
  show lease: "create_lease rg' (pd_family_id d) = None"
    using lease_after_registration[OF assms(1,3)] assms(2) by simp
  then show "create_plugin rg' (pd_family_id d) = None"
    by (auto simp: create_lease_def create_plugin_def Let_def split: option.splits if_splits)
qed

theorem second_registration_breaks_witness:
  "\<exists>rg. fst (registry_run [OP_Register echo_descriptor (Some echo_handle),
       OP_Register echo_descriptor (Some echo_handle)]) = rg \<and> create_lease rg 7 = None"
proof -
  note defs = registry_run_def plugin_registry_def register_factory_def Let_def echo_descriptor_def
    fresh_state_def om_get_def
  obtain rg leases where r: "registry_run [OP_Register echo_descriptor (Some echo_handle)] = (rg, leases)" by fastforce
  obtain rg' res where d: "register_factory rg echo_descriptor (Some echo_handle) = (rg', res)" by fastforce
  have "om_get (rg_entries rg) (pd_family_id echo_descriptor) =
      Some \<lparr>pe_descriptor = echo_descriptor, pe_factory = Some echo_handle, pe_state = 0\<rparr>" "res = Inr ()"
    using r d by (auto simp: defs)
  from second_registration_breaks[OF r this(1), of echo_handle rg'] d this(2) r
  show ?thesis by (simp add: registry_run_def echo_descriptor_def)
qed

text \<open>Property C22. Unloading is quiescent: a registered family is removed if and only if no live
  lease was made from its current registration, and then no lease of it can be created; while
  leases are live, the attempt fails with \<open>would_block\<close>, the family stays registered, and from
  then on it refuses new leases, so that releasing the live ones lets a later attempt succeed.\<close>

theorem unregister_quiescent:
  assumes "registry_run ops = (rg, leases)" "om_get (rg_entries rg) family = Some entry"
    and "unregister_family rg family = (rg', res)"
  shows "(is_ok res \<longleftrightarrow> (\<forall>l \<in> set leases. pl_state l \<noteq> pe_state entry)) \<and>
    (create_lease rg' family = Some (rg', Inl unavailable)) \<and>
    (\<not> is_ok res \<longrightarrow> om_get (rg_entries rg') family = Some entry) \<and>
    (\<forall>e. res = Inl e \<longrightarrow> err_code e = EC_would_block)"
  using unregister_quiescent_facts[OF assms] by blast

theorem lease_counts_exact_witness:
  "let rg = fst (registry_run [OP_Register echo_descriptor (Some echo_handle), OP_Lease 7,
     OP_Lease 7, OP_Release 0]) in ls_active (rg_store rg 0) = 1"
proof -
  let ?ops = "[OP_Register echo_descriptor (Some echo_handle), OP_Lease 7, OP_Lease 7, OP_Release 0]"
  obtain rg leases where r: "registry_run ?ops = (rg, leases)" by fastforce
  have "leases = [\<lparr>pl_plugin = echo_handle, pl_state = 0\<rparr>]"
    using r by (simp add: registry_run_def plugin_registry_def register_factory_def Let_def
        echo_descriptor_def create_lease_def fresh_state_def om_get_def release_lease_def)
  then show ?thesis using lease_counts_exact(1)[OF r, of 0] r by simp
qed

theorem unregister_quiescent_witness:
  "\<exists>rg leases entry rg' e. registry_run [OP_Register echo_descriptor (Some echo_handle), OP_Lease 7]
       = (rg, leases) \<and> om_get (rg_entries rg) 7 = Some entry \<and>
     unregister_family rg 7 = (rg', Inl e) \<and> err_code e = EC_would_block \<and>
     create_lease rg' 7 = Some (rg', Inl unavailable)"
proof -
  let ?ops = "[OP_Register echo_descriptor (Some echo_handle), OP_Lease 7]"
  obtain rg leases where r: "registry_run ?ops = (rg, leases)" by fastforce
  define entry where "entry = \<lparr>pe_descriptor = echo_descriptor, pe_factory = Some echo_handle, pe_state = 0\<rparr>"
  have l: "leases = [\<lparr>pl_plugin = echo_handle, pl_state = 0\<rparr>]"
    and e: "om_get (rg_entries rg) 7 = Some entry"
    using r by (auto simp: registry_run_def plugin_registry_def register_factory_def Let_def
        echo_descriptor_def create_lease_def fresh_state_def om_get_def entry_def)
  obtain rg' res where u: "unregister_family rg 7 = (rg', res)" by fastforce
  note q = unregister_quiescent[OF r e u]
  have "\<not> is_ok res" using q l by (simp add: entry_def)
  then show ?thesis using r e u q by (auto simp: not_is_ok_iff)
qed

end
