(* ===== verification/Executor.thy ===== *)
theory Executor
  imports Prelude
begin

text \<open>
  The executors of \<^verbatim>\<open>src/connection/event_loop.cpp\<close>. A task is a value together with a function
  \<open>run\<close> that performs it, since the closures the program queues come from outside this file.
  \<open>DeterministicExecutor\<close> runs on the caller's thread: \<open>run\<close> may change the queue it is taken
  from, so \<open>drain_all\<close> is a partial function that need not return. \<open>ThreadedExecutor\<close> is a
  step relation whose steps are its critical sections: every interleaving of submitters,
  workers and the thread that shuts down is a path of \<open>threaded_step\<close>.
\<close>

record 't ExecutorTask =
  et_id :: u64
  et_shard :: u32
  et_run :: 't

definition executor_error :: "ErrorCode \<Rightarrow> string \<Rightarrow> Error" where
  "executor_error code detail = make_error ES_internal code CA_none detail"

section \<open>The deterministic executor\<close>

record 't DeterministicExecutor =
  de_capacity :: nat
  de_shards :: u32
  de_next_id :: u64
  de_queue :: "'t ExecutorTask list"

definition deterministic_executor :: "nat \<Rightarrow> u32 \<Rightarrow> 't DeterministicExecutor" where
  "deterministic_executor capacity shards =
     \<lparr>de_capacity = capacity, de_shards = (if shards = 0 then 1 else shards), de_next_id = 1,
      de_queue = []\<rparr>"

definition submit ::
  "'t DeterministicExecutor \<Rightarrow> u32 \<Rightarrow> 't option \<Rightarrow> 't DeterministicExecutor \<times> u64 result" where
  "submit ex shard task =
     (case task of
        None \<Rightarrow> (ex, Inl (executor_error EC_illegal_state ''executor task is empty''))
      | Some t \<Rightarrow>
          if shard \<ge> de_shards ex
          then (ex, Inl (executor_error EC_resource_limit ''executor shard is out of range''))
          else if length (de_queue ex) \<ge> de_capacity ex
          then (ex, Inl (executor_error EC_would_block ''executor queue is full''))
          else (ex\<lparr>de_next_id := de_next_id ex + 1,
                   de_queue := de_queue ex @ [\<lparr>et_id = de_next_id ex, et_shard = shard, et_run = t\<rparr>]\<rparr>,
                Inr (de_next_id ex)))"

definition cancel_task :: "'t DeterministicExecutor \<Rightarrow> u64 \<Rightarrow> 't DeterministicExecutor \<times> unit result" where
  "cancel_task ex tid =
     (let queue = filter (\<lambda>t. et_id t \<noteq> tid) (de_queue ex)
      in if length queue = length (de_queue ex)
         then (ex\<lparr>de_queue := queue\<rparr>,
               Inl (executor_error EC_illegal_state ''executor task is not queued''))
         else (ex\<lparr>de_queue := queue\<rparr>, Inr ()))"

text \<open>A task runs on the executor and the rest of the world.\<close>

type_synonym ('t, 's) runner =
  "'t \<Rightarrow> 't DeterministicExecutor \<times> 's \<Rightarrow> ('t DeterministicExecutor \<times> 's) \<times> unit result"

definition drain_one ::
  "('t, 's) runner \<Rightarrow> 't DeterministicExecutor \<times> 's \<Rightarrow> ('t DeterministicExecutor \<times> 's) \<times> unit result" where
  "drain_one run st =
     (case de_queue (fst st) of
        [] \<Rightarrow> (st, Inr ())
      | task # queue \<Rightarrow> run (et_run task) ((fst st)\<lparr>de_queue := queue\<rparr>, snd st))"

partial_function (option) drain_all ::
  "('t, 's) runner \<Rightarrow> 't DeterministicExecutor \<times> 's \<Rightarrow>
   (('t DeterministicExecutor \<times> 's) \<times> unit result) option" where
  "drain_all run st =
     (if de_queue (fst st) = [] then Some (st, Inr ())
      else case snd (drain_one run st) of
             Inl e \<Rightarrow> Some (fst (drain_one run st), Inl e)
           | Inr _ \<Rightarrow> drain_all run (fst (drain_one run st)))"

definition shard_for :: "'t DeterministicExecutor \<Rightarrow> u64 \<Rightarrow> u32" where
  "shard_for ex connection_id =
     (let shard_count = if de_shards ex = 0 then 1 else de_shards ex
      in ucast (connection_id mod ucast shard_count))"

definition router_submit ::
  "'t DeterministicExecutor \<Rightarrow> u64 \<Rightarrow> 't option \<Rightarrow> 't DeterministicExecutor \<times> u64 result" where
  "router_submit ex connection_id task = submit ex (shard_for ex connection_id) task"

text \<open>The reference: tasks run in queue order until one fails.\<close>

fun run_in_order :: "('t \<Rightarrow> 's \<Rightarrow> 's \<times> unit result) \<Rightarrow> 't ExecutorTask list \<Rightarrow> 's \<Rightarrow>
    ('t ExecutorTask list \<times> 's) \<times> unit result" where
  "run_in_order f [] s = (([], s), Inr ())"
| "run_in_order f (t # ts) s =
     (case f (et_run t) s of
        (s', Inl e) \<Rightarrow> ((ts, s'), Inl e)
      | (s', Inr _) \<Rightarrow> run_in_order f ts s')"

text \<open>A task that works on the world only.\<close>

definition lift_task :: "('t \<Rightarrow> 's \<Rightarrow> 's \<times> unit result) \<Rightarrow> ('t, 's) runner" where
  "lift_task f t st = ((fst st, fst (f t (snd st))), snd (f t (snd st)))"

lemma drain_all_lift:
  "drain_all (lift_task f) (ex, s) =
     (case run_in_order f (de_queue ex) s of
        ((queue, s'), res) \<Rightarrow> Some ((ex\<lparr>de_queue := queue\<rparr>, s'), res))"
proof (induction "de_queue ex" arbitrary: ex s)
  case Nil
  then show ?case by (simp add: drain_all.simps)
next
  case (Cons t q)
  obtain s' r where f: "f (et_run t) s = (s', r)" by fastforce
  note q = Cons.hyps(2)[symmetric]
  have one: "drain_one (lift_task f) (ex, s) = ((ex\<lparr>de_queue := q\<rparr>, s'), r)"
    using f by (simp add: drain_one_def q lift_task_def)
  show ?case
  proof (cases r)
    case (Inl e)
    then show ?thesis using f q one by (simp add: drain_all.simps)
  next
    case (Inr u)
    have "drain_all (lift_task f) (ex, s) = drain_all (lift_task f) (ex\<lparr>de_queue := q\<rparr>, s')"
      using q one Inr by (subst drain_all.simps) simp
    then show ?thesis using Cons.hyps(1)[of "ex\<lparr>de_queue := q\<rparr>" s'] f q Inr by simp
  qed
qed

text \<open>Remark. \<open>drain_all\<close> returns, and runs the queued tasks in submission order, each once,
  up to and including the first that fails, whose error it reports with the later ones still
  queued, provided the tasks do not touch the executor (those the engine submits do not).\<close>

theorem drain_all_in_order:
  "drain_all (lift_task f) (ex, s) =
     (case run_in_order f (de_queue ex) s of
        ((queue, s'), res) \<Rightarrow> Some ((ex\<lparr>de_queue := queue\<rparr>, s'), res))"
  by (rule drain_all_lift)

lemma unat_ucast_u32_u64: "unat (ucast (w :: u32) :: u64) = unat w"
  using unat_u32_less[of w] by (simp add: unsigned_ucast_eq take_bit_nat_eq_self)

datatype 't ExecutorOp = OP_Submit u32 "'t option" | OP_Cancel_task u64 | OP_Drain_one

text \<open>Draining takes the front task; what it does to the world is not part of the queue.\<close>

fun executor_apply :: "'t DeterministicExecutor \<Rightarrow> 't ExecutorOp \<Rightarrow> 't DeterministicExecutor" where
  "executor_apply ex (OP_Submit shard task) = fst (submit ex shard task)"
| "executor_apply ex (OP_Cancel_task tid) = fst (cancel_task ex tid)"
| "executor_apply ex OP_Drain_one =
     fst (fst (drain_one (lift_task (\<lambda>_ s. (s, Inr ()))) (ex, ())))"

definition executor_ok :: "nat \<Rightarrow> u32 \<Rightarrow> nat \<Rightarrow> 't DeterministicExecutor \<Rightarrow> bool" where
  "executor_ok capacity shards n ex \<longleftrightarrow> de_capacity ex = capacity \<and>
     de_shards ex = (if shards = 0 then 1 else shards) \<and> length (de_queue ex) \<le> capacity \<and>
     (\<forall>t \<in> set (de_queue ex). et_shard t < de_shards ex) \<and>
     (\<exists>k \<le> n. de_next_id ex = of_nat (k + 1) \<and>
        (\<forall>t \<in> set (de_queue ex). unat (et_id t) \<le> k)) \<and>
     sorted_wrt (<) (map et_id (de_queue ex))"

lemma executor_ok_sub:
  assumes "executor_ok capacity shards n ex"
    and "set q \<subseteq> set (de_queue ex)" "length q \<le> length (de_queue ex)" "sorted_wrt (<) (map et_id q)"
  shows "executor_ok capacity shards (Suc n) (ex\<lparr>de_queue := q\<rparr>)"
  using assms unfolding executor_ok_def by (auto intro: le_SucI)

lemma executor_ok_apply:
  assumes "executor_ok capacity shards n ex" "Suc n < 2 ^ 64"
  shows "executor_ok capacity shards (Suc n) (executor_apply ex op)"
proof -
  have same: "executor_ok capacity shards (Suc n) ex"
    using executor_ok_sub[OF assms(1), of "de_queue ex"] assms(1) by (simp add: executor_ok_def)
  show ?thesis
  proof (cases op)
    case (OP_Submit shard task)
    show ?thesis
    proof (cases "task = None \<or> shard \<ge> de_shards ex \<or> length (de_queue ex) \<ge> de_capacity ex")
      case True
      then show ?thesis using same OP_Submit by (auto simp: submit_def split: option.splits)
    next
      case False
      then obtain t where t: "task = Some t" "shard < de_shards ex" "length (de_queue ex) < de_capacity ex"
        by auto
      obtain k where k: "k \<le> n" "de_next_id ex = of_nat (k + 1)"
        "\<forall>t \<in> set (de_queue ex). unat (et_id t) \<le> k"
        using assms(1) by (auto simp: executor_ok_def)
      have nid: "unat (de_next_id ex) = k + 1"
        using k(1,2) assms(2) by (simp add: unat_of_nat del: of_nat_add of_nat_Suc)
      have lt: "\<forall>t \<in> set (de_queue ex). et_id t < de_next_id ex"
        using k(3) nid by (auto simp: word_less_nat_alt)
      have "(\<exists>j \<le> Suc n. of_nat (k + 1) + 1 = (of_nat (j + 1) :: u64) \<and>
          (\<forall>x \<in> set (de_queue ex). unat (et_id x) \<le> j) \<and> k + 1 \<le> j)"
        using k(1,3) by (intro exI[of _ "k + 1"]) auto
      then show ?thesis using assms(1) OP_Submit t nid lt k(2)
        by (auto simp: submit_def executor_ok_def sorted_wrt_append not_le)
    qed
  next
    case (OP_Cancel_task tid)
    then show ?thesis
      using executor_ok_sub[OF assms(1), of "filter (\<lambda>t. et_id t \<noteq> tid) (de_queue ex)"] assms(1)
      by (auto simp: cancel_task_def Let_def executor_ok_def sorted_wrt_map sorted_wrt_filter)
  next
    case OP_Drain_one
    then show ?thesis
      using same executor_ok_sub[OF assms(1), of "tl (de_queue ex)"] assms(1)
      by (cases "de_queue ex") (auto simp: drain_one_def lift_task_def executor_ok_def)
  qed
qed

lemma executor_ok_fold:
  "\<lbrakk>executor_ok capacity shards n ex; n + length ops < 2 ^ 64\<rbrakk> \<Longrightarrow>
   executor_ok capacity shards (n + length ops) (foldl executor_apply ex ops)"
proof (induction ops arbitrary: n ex)
  case (Cons op ops)
  then have "executor_ok capacity shards (Suc n) (executor_apply ex op)"
    by (intro executor_ok_apply) simp_all
  from Cons.IH[OF this] Cons.prems(2) show ?case by simp
qed simp

lemma executor_ok_run:
  assumes "length ops < 2 ^ 64"
  shows "executor_ok capacity shards (length ops)
    (foldl executor_apply (deterministic_executor capacity shards) ops)"
proof -
  have "executor_ok capacity shards 0 (deterministic_executor capacity shards)"
    by (simp add: executor_ok_def deterministic_executor_def)
  from executor_ok_fold[OF this] assms show ?thesis by simp
qed

lemma shard_for_less:
  assumes "de_shards ex \<noteq> 0"
  shows "shard_for ex connection_id < de_shards ex"
proof -
  have shards: "unat (ucast (de_shards ex) :: u64) = unat (de_shards ex)"
    by (rule unat_ucast_u32_u64)
  have pos: "0 < unat (de_shards ex)" using assms by (simp add: unat_gt_0)
  have "unat (connection_id mod ucast (de_shards ex)) < unat (de_shards ex)"
    using pos by (simp add: unat_mod_distrib shards)
  moreover have "unat (de_shards ex) < 2 ^ 32" by (rule unat_u32_less)
  ultimately show ?thesis using assms
    by (simp add: shard_for_def Let_def word_less_nat_alt unsigned_ucast_eq take_bit_nat_eq_self)
qed

text \<open>Remark. Admission over the life of an executor: whatever tasks are submitted,
  cancelled and drained (fewer than \<open>2 ^ 64\<close> operations), at most \<open>capacity\<close> are queued, their
  identifiers increase strictly along the queue, each is on a shard that exists, and a task
  routed by connection can only be refused because the queue is full.\<close>

theorem executor_admission:
  assumes "length ops < 2 ^ 64"
    and "ex = foldl executor_apply (deterministic_executor capacity shards) ops"
  shows "length (de_queue ex) \<le> capacity"
    and "sorted_wrt (<) (map et_id (de_queue ex))"
    and "\<forall>t \<in> set (de_queue ex). et_shard t < de_shards ex"
    and "case router_submit ex connection_id (Some t) of
       (ex', Inl e) \<Rightarrow> err_code e = EC_would_block \<and> length (de_queue ex) = capacity
     | (ex', Inr i) \<Rightarrow> i = de_next_id ex \<and> length (de_queue ex) < capacity"
proof -
  have ok: "executor_ok capacity shards (length ops) ex"
    using executor_ok_run[OF assms(1)] by (simp add: assms(2))
  show "length (de_queue ex) \<le> capacity" using ok by (simp add: executor_ok_def)
  show "sorted_wrt (<) (map et_id (de_queue ex))" using ok by (simp add: executor_ok_def)
  show "\<forall>t \<in> set (de_queue ex). et_shard t < de_shards ex" using ok unfolding executor_ok_def by blast
  have "de_shards ex \<noteq> 0" using ok by (simp add: executor_ok_def split: if_splits)
  from shard_for_less[OF this, of connection_id] ok
  show "case router_submit ex connection_id (Some t) of
       (ex', Inl e) \<Rightarrow> err_code e = EC_would_block \<and> length (de_queue ex) = capacity
     | (ex', Inr i) \<Rightarrow> i = de_next_id ex \<and> length (de_queue ex) < capacity"
    by (simp add: router_submit_def submit_def executor_error_def executor_ok_def)
qed

theorem executor_admission_witness:
  "length (de_queue (foldl executor_apply (deterministic_executor 1 0)
     [OP_Submit 0 (Some (1 :: nat)), OP_Submit 0 (Some 2)])) \<le> 1"
  by (rule executor_admission(1)[where ops = "[OP_Submit 0 (Some (1 :: nat)), OP_Submit 0 (Some 2)]"
        and shards = 0]) simp_all

section \<open>The threaded executor\<close>

text \<open>The state is what the mutex protects, together with where each thread is. A worker is about
  to take the lock and test its predicate (\<open>WK_Check\<close>: when its loop begins, and after every
  wake-up), blocked in \<open>ready.wait\<close> (\<open>WK_Asleep\<close>), running a task outside the lock, or its loop
  has returned. The calls of \<open>wait_idle\<close> and \<open>shutdown\<close> by other threads are numbered in the
  order they are made: such a call is about to test its predicate, blocked in \<open>idle.wait\<close>, between
  raising the flag and \<open>ready.notify_all\<close>, joining workers in turn, or has returned; a
  \<open>shutdown\<close> that finds the flag up returns without joining. A task is represented by the result
  its \<open>run\<close> gives. The counters are \<open>nat\<close>: \<open>threaded_ok\<close> below shows that neither is decremented
  at zero.\<close>

type_synonym ThreadTask = "unit result ExecutorTask"

datatype Worker = WK_Check | WK_Asleep | WK_Running ThreadTask | WK_Exited

datatype Caller =
    CL_Idle_check
  | CL_Idle_asleep
  | CL_Idle_returned "unit result"
  | CL_Shutdown_notify
  | CL_Shutdown_join nat
  | CL_Shutdown_returned
  | CL_Shutdown_early

record ThreadedExecutor =
  tx_capacity :: nat
  tx_shard_count :: u32
  tx_next_id :: u64
  tx_queues :: "ThreadTask list list"
  tx_workers :: "Worker list"
  tx_callers :: "Caller list"
  tx_stopping :: bool
  tx_queued :: nat
  tx_active :: nat
  tx_first_error :: "Error option"

definition threaded_executor :: "nat \<Rightarrow> u32 \<Rightarrow> ThreadedExecutor" where
  "threaded_executor max_tasks shards =
     (let shard_count = if shards = 0 then 1 else shards; n = unat shard_count
      in \<lparr>tx_capacity = max_tasks, tx_shard_count = shard_count, tx_next_id = 1,
          tx_queues = replicate n [], tx_workers = replicate n WK_Check, tx_callers = [],
          tx_stopping = False, tx_queued = 0, tx_active = 0, tx_first_error = None\<rparr>)"

text \<open>\<open>notify_all\<close> on either condition variable makes every thread blocked on it contend for the
  lock again.\<close>

definition ready_notify_all :: "ThreadedExecutor \<Rightarrow> ThreadedExecutor" where
  "ready_notify_all x =
     x\<lparr>tx_workers := map (\<lambda>wk. if wk = WK_Asleep then WK_Check else wk) (tx_workers x)\<rparr>"

definition idle_notify_all :: "ThreadedExecutor \<Rightarrow> ThreadedExecutor" where
  "idle_notify_all x =
     x\<lparr>tx_callers := map (\<lambda>c. if c = CL_Idle_asleep then CL_Idle_check else c) (tx_callers x)\<rparr>"

definition threaded_submit ::
  "ThreadedExecutor \<Rightarrow> u32 \<Rightarrow> unit result option \<Rightarrow> ThreadedExecutor \<times> u64 result" where
  "threaded_submit x shard task =
     (case task of
        None \<Rightarrow> (x, Inl (executor_error EC_illegal_state ''executor task is empty''))
      | Some t \<Rightarrow>
          if tx_stopping x
          then (x, Inl (executor_error EC_illegal_state ''executor is shutting down''))
          else if shard \<ge> tx_shard_count x
          then (x, Inl (executor_error EC_resource_limit ''executor shard is out of range''))
          else if tx_queued x \<ge> tx_capacity x
          then (x, Inl (executor_error EC_would_block ''executor queue is full''))
          else
            let s = unat shard;
                entry = \<lparr>et_id = tx_next_id x, et_shard = shard, et_run = t\<rparr>
            in (ready_notify_all (x\<lparr>tx_next_id := tx_next_id x + 1,
                  tx_queues := (tx_queues x)[s := tx_queues x ! s @ [entry]],
                  tx_queued := tx_queued x + 1\<rparr>), Inr (tx_next_id x)))"

text \<open>A worker with the lock: it blocks unless its predicate holds, else takes the front task,
  returns, or (never, the predicate being what it is) goes round its loop.\<close>

definition ready_predicate :: "ThreadedExecutor \<Rightarrow> nat \<Rightarrow> bool" where
  "ready_predicate x shard \<longleftrightarrow> tx_stopping x \<or> tx_queues x ! shard \<noteq> []"

definition worker_poll :: "ThreadedExecutor \<Rightarrow> nat \<Rightarrow> ThreadedExecutor" where
  "worker_poll x shard =
     (if \<not> ready_predicate x shard
      then x\<lparr>tx_workers := (tx_workers x)[shard := WK_Asleep]\<rparr>
      else
        case tx_queues x ! shard of
          [] \<Rightarrow> (if tx_stopping x then x\<lparr>tx_workers := (tx_workers x)[shard := WK_Exited]\<rparr> else x)
        | task # queue \<Rightarrow>
            x\<lparr>tx_queues := (tx_queues x)[shard := queue],
              tx_workers := (tx_workers x)[shard := WK_Running task],
              tx_queued := tx_queued x - 1, tx_active := tx_active x + 1\<rparr>)"

definition worker_finish :: "ThreadedExecutor \<Rightarrow> nat \<Rightarrow> ThreadTask \<Rightarrow> ThreadedExecutor" where
  "worker_finish x shard task =
     (let x' = x\<lparr>tx_workers := (tx_workers x)[shard := WK_Check], tx_active := tx_active x - 1,
                 tx_first_error :=
                   (case et_run task of
                      Inr _ \<Rightarrow> tx_first_error x
                    | Inl e \<Rightarrow> if tx_first_error x = None then Some e else tx_first_error x)\<rparr>
      in if tx_queued x' = 0 \<and> tx_active x' = 0 then idle_notify_all x' else x')"

text \<open>A caller of \<open>wait_idle\<close> with the lock.\<close>

definition idle_predicate :: "ThreadedExecutor \<Rightarrow> bool" where
  "idle_predicate x \<longleftrightarrow> tx_queued x = 0 \<and> tx_active x = 0"

definition wait_idle :: "ThreadedExecutor \<Rightarrow> nat \<Rightarrow> ThreadedExecutor" where
  "wait_idle x c =
     (if \<not> idle_predicate x then x\<lparr>tx_callers := (tx_callers x)[c := CL_Idle_asleep]\<rparr>
      else x\<lparr>tx_callers := (tx_callers x)[c := CL_Idle_returned
               (case tx_first_error x of Some e \<Rightarrow> Inl e | None \<Rightarrow> Inr ())]\<rparr>)"

text \<open>A call of \<open>shutdown\<close> tests and raises the flag under the lock, notifies after letting go of
  it, and then joins the workers one by one; only the call that raised the flag gets that far, so
  it finds every worker joinable.\<close>

definition shutdown :: "ThreadedExecutor \<Rightarrow> ThreadedExecutor" where
  "shutdown x =
     (if tx_stopping x then x\<lparr>tx_callers := tx_callers x @ [CL_Shutdown_early]\<rparr>
      else x\<lparr>tx_stopping := True, tx_callers := tx_callers x @ [CL_Shutdown_notify]\<rparr>)"

definition shutdown_notify :: "ThreadedExecutor \<Rightarrow> nat \<Rightarrow> ThreadedExecutor" where
  "shutdown_notify x c =
     ready_notify_all (x\<lparr>tx_callers := (tx_callers x)[c := CL_Shutdown_join 0]\<rparr>)"

definition shutdown_join :: "ThreadedExecutor \<Rightarrow> nat \<Rightarrow> nat \<Rightarrow> ThreadedExecutor option" where
  "shutdown_join x c k =
     (if k \<ge> length (tx_workers x)
      then Some (x\<lparr>tx_callers := (tx_callers x)[c := CL_Shutdown_returned]\<rparr>)
      else if tx_workers x ! k = WK_Exited
      then Some (x\<lparr>tx_callers := (tx_callers x)[c := CL_Shutdown_join (k + 1)]\<rparr>)
      else None)"

text \<open>The events: what other threads ask for, the wake-ups the standard lets a condition variable
  give for no reason, and the steps the executor's own code takes, each of them one critical
  section.\<close>

datatype ThreadEvent =
    EV_Submit u32 "unit result option" "u64 result"
  | EV_Wait_call
  | EV_Shutdown_call
  | EV_Spurious_worker nat
  | EV_Spurious_caller nat
  | EV_Poll nat
  | EV_Finish nat ThreadTask
  | EV_Wait nat
  | EV_Notify nat
  | EV_Join nat

inductive threaded_step :: "ThreadedExecutor \<Rightarrow> ThreadEvent \<Rightarrow> ThreadedExecutor \<Rightarrow> bool" where
  Submit: "threaded_submit x shard task = (x', r) \<Longrightarrow>
     threaded_step x (EV_Submit shard task r) x'"
| Wait_call: "threaded_step x EV_Wait_call (x\<lparr>tx_callers := tx_callers x @ [CL_Idle_check]\<rparr>)"
| Shutdown_call: "threaded_step x EV_Shutdown_call (shutdown x)"
| Spurious_worker: "\<lbrakk>w < length (tx_workers x); tx_workers x ! w = WK_Asleep\<rbrakk> \<Longrightarrow>
     threaded_step x (EV_Spurious_worker w) (x\<lparr>tx_workers := (tx_workers x)[w := WK_Check]\<rparr>)"
| Spurious_caller: "\<lbrakk>c < length (tx_callers x); tx_callers x ! c = CL_Idle_asleep\<rbrakk> \<Longrightarrow>
     threaded_step x (EV_Spurious_caller c) (x\<lparr>tx_callers := (tx_callers x)[c := CL_Idle_check]\<rparr>)"
| Poll: "\<lbrakk>w < length (tx_workers x); tx_workers x ! w = WK_Check\<rbrakk> \<Longrightarrow>
     threaded_step x (EV_Poll w) (worker_poll x w)"
| Finish: "\<lbrakk>w < length (tx_workers x); tx_workers x ! w = WK_Running task\<rbrakk> \<Longrightarrow>
     threaded_step x (EV_Finish w task) (worker_finish x w task)"
| Wait: "\<lbrakk>c < length (tx_callers x); tx_callers x ! c = CL_Idle_check\<rbrakk> \<Longrightarrow>
     threaded_step x (EV_Wait c) (wait_idle x c)"
| Notify: "\<lbrakk>c < length (tx_callers x); tx_callers x ! c = CL_Shutdown_notify\<rbrakk> \<Longrightarrow>
     threaded_step x (EV_Notify c) (shutdown_notify x c)"
| Join: "\<lbrakk>c < length (tx_callers x); tx_callers x ! c = CL_Shutdown_join k;
     shutdown_join x c k = Some x'\<rbrakk> \<Longrightarrow> threaded_step x (EV_Join c) x'"

inductive_cases threaded_stepE: "threaded_step x ev x'"

text \<open>An execution: the events so far, oldest first.\<close>

inductive threaded_run :: "nat \<Rightarrow> u32 \<Rightarrow> ThreadEvent list \<Rightarrow> ThreadedExecutor \<Rightarrow> bool"
  for capacity shards where
  Start: "threaded_run capacity shards [] (threaded_executor capacity shards)"
| Next: "\<lbrakk>threaded_run capacity shards evs x; threaded_step x ev x'\<rbrakk> \<Longrightarrow>
     threaded_run capacity shards (evs @ [ev]) x'"

section \<open>What an execution did\<close>

fun accepted_in :: "nat \<Rightarrow> ThreadEvent \<Rightarrow> ThreadTask list" where
  "accepted_in w (EV_Submit shard (Some t) (Inr i)) =
     (if unat shard = w then [\<lparr>et_id = i, et_shard = shard, et_run = t\<rparr>] else [])"
| "accepted_in w _ = []"

fun finished_in :: "nat \<Rightarrow> ThreadEvent \<Rightarrow> ThreadTask list" where
  "finished_in w (EV_Finish v t) = (if v = w then [t] else [])"
| "finished_in w _ = []"

fun failures_in :: "ThreadEvent \<Rightarrow> Error list" where
  "failures_in (EV_Finish v t) = (case et_run t of Inl e \<Rightarrow> [e] | Inr _ \<Rightarrow> [])"
| "failures_in _ = []"

definition accepted :: "nat \<Rightarrow> ThreadEvent list \<Rightarrow> ThreadTask list" where
  "accepted w evs = concat (map (accepted_in w) evs)"

definition finished :: "nat \<Rightarrow> ThreadEvent list \<Rightarrow> ThreadTask list" where
  "finished w evs = concat (map (finished_in w) evs)"

definition failures :: "ThreadEvent list \<Rightarrow> Error list" where
  "failures evs = concat (map failures_in evs)"

fun worker_task :: "Worker \<Rightarrow> ThreadTask list" where
  "worker_task (WK_Running t) = [t]"
| "worker_task _ = []"

definition in_flight :: "ThreadedExecutor \<Rightarrow> nat \<Rightarrow> ThreadTask list" where
  "in_flight x w = worker_task (tx_workers x ! w)"

text \<open>The invariant. Its last three parts are about the threads: a worker sleeps only while its
  queue is empty and nobody has raised the flag without having notified yet; a caller sleeps only
  while there is work; and a call that joins has seen the workers before it exit. The flag is
  raised by one call, the only one that notifies and joins.\<close>

definition worker_sound :: "ThreadedExecutor \<Rightarrow> nat \<Rightarrow> bool" where
  "worker_sound x w \<longleftrightarrow> (case tx_workers x ! w of
       WK_Check \<Rightarrow> True
     | WK_Running t \<Rightarrow> True
     | WK_Asleep \<Rightarrow> tx_queues x ! w = [] \<and> (tx_stopping x \<longrightarrow> CL_Shutdown_notify \<in> set (tx_callers x))
     | WK_Exited \<Rightarrow> tx_stopping x \<and> tx_queues x ! w = [])"

fun caller_sound :: "ThreadedExecutor \<Rightarrow> Caller \<Rightarrow> bool" where
  "caller_sound x CL_Idle_asleep = (\<not> idle_predicate x)"
| "caller_sound x (CL_Shutdown_join k) =
     (tx_stopping x \<and> k \<le> length (tx_workers x) \<and> (\<forall>j < k. tx_workers x ! j = WK_Exited))"
| "caller_sound x CL_Shutdown_returned =
     (tx_stopping x \<and> (\<forall>j < length (tx_workers x). tx_workers x ! j = WK_Exited))"
| "caller_sound x CL_Shutdown_notify = tx_stopping x"
| "caller_sound x CL_Shutdown_early = tx_stopping x"
| "caller_sound x _ = True"

definition threaded_ok :: "nat \<Rightarrow> u32 \<Rightarrow> ThreadEvent list \<Rightarrow> ThreadedExecutor \<Rightarrow> bool" where
  "threaded_ok capacity shards evs x \<longleftrightarrow>
     tx_capacity x = capacity \<and>
     length (tx_queues x) = unat (tx_shard_count x) \<and> length (tx_workers x) = length (tx_queues x) \<and>
     tx_queued x = sum_list (map length (tx_queues x)) \<and> tx_queued x \<le> capacity \<and>
     tx_active x = sum_list (map (length \<circ> worker_task) (tx_workers x)) \<and>
     tx_first_error x = (case failures evs of [] \<Rightarrow> None | e # _ \<Rightarrow> Some e) \<and>
     (\<forall>w < length (tx_queues x).
        accepted w evs = finished w evs @ in_flight x w @ tx_queues x ! w \<and> worker_sound x w) \<and>
     (\<forall>c \<in> set (tx_callers x). caller_sound x c)"

lemma sum_map_update:
  fixes f :: "'a \<Rightarrow> nat"
  shows "i < length xs \<Longrightarrow>
    sum_list (map f (xs[i := y])) + f (xs ! i) = sum_list (map f xs) + f y"
proof (induction xs arbitrary: i)
  case (Cons x xs)
  then show ?case by (cases i) auto
qed simp

lemma trace_simps [simp]:
  "accepted w [] = []" "accepted w (evs @ [ev]) = accepted w evs @ accepted_in w ev"
  "finished w [] = []" "finished w (evs @ [ev]) = finished w evs @ finished_in w ev"
  "failures [] = []" "failures (evs @ [ev]) = failures evs @ failures_in ev"
  by (simp_all add: accepted_def finished_def failures_def)

text \<open>What \<open>notify_all\<close> leaves alone.\<close>

lemma ready_notify_simps [simp]:
  "tx_capacity (ready_notify_all x) = tx_capacity x" "tx_shard_count (ready_notify_all x) = tx_shard_count x"
  "tx_next_id (ready_notify_all x) = tx_next_id x" "tx_queues (ready_notify_all x) = tx_queues x"
  "length (tx_workers (ready_notify_all x)) = length (tx_workers x)"
  "tx_callers (ready_notify_all x) = tx_callers x" "tx_stopping (ready_notify_all x) = tx_stopping x"
  "tx_queued (ready_notify_all x) = tx_queued x" "tx_active (ready_notify_all x) = tx_active x"
  "tx_first_error (ready_notify_all x) = tx_first_error x"
  "idle_predicate (ready_notify_all x) = idle_predicate x"
  by (simp_all add: ready_notify_all_def idle_predicate_def)

lemma idle_notify_simps [simp]:
  "tx_capacity (idle_notify_all x) = tx_capacity x" "tx_shard_count (idle_notify_all x) = tx_shard_count x"
  "tx_next_id (idle_notify_all x) = tx_next_id x" "tx_queues (idle_notify_all x) = tx_queues x"
  "tx_workers (idle_notify_all x) = tx_workers x"
  "length (tx_callers (idle_notify_all x)) = length (tx_callers x)"
  "tx_stopping (idle_notify_all x) = tx_stopping x"
  "tx_queued (idle_notify_all x) = tx_queued x" "tx_active (idle_notify_all x) = tx_active x"
  "tx_first_error (idle_notify_all x) = tx_first_error x"
  "idle_predicate (idle_notify_all x) = idle_predicate x"
  by (simp_all add: idle_notify_all_def idle_predicate_def)

lemma worker_task_wake: "worker_task (if wk = WK_Asleep then WK_Check else wk) = worker_task wk"
  by simp

lemma tasks_notified [simp]:
  "map (length \<circ> worker_task) (tx_workers (ready_notify_all x)) = map (length \<circ> worker_task) (tx_workers x)"
  by (simp add: ready_notify_all_def worker_task_wake)

lemma in_flight_notified [simp]:
  "w < length (tx_workers x) \<Longrightarrow> in_flight (ready_notify_all x) w = in_flight x w"
  "in_flight (idle_notify_all x) w = in_flight x w"
  by (auto simp: in_flight_def ready_notify_all_def worker_task_wake)

lemma worker_sound_notified:
  "\<lbrakk>w < length (tx_workers x); \<not> (tx_workers x ! w = WK_Exited \<and> \<not> (tx_stopping x \<and> tx_queues x ! w = []))\<rbrakk>
   \<Longrightarrow> worker_sound (ready_notify_all x) w"
  by (auto simp: worker_sound_def ready_notify_all_def split: Worker.splits)

lemma exited_notified [simp]:
  "j < length (tx_workers x) \<Longrightarrow>
   tx_workers (ready_notify_all x) ! j = WK_Exited \<longleftrightarrow> tx_workers x ! j = WK_Exited"
  by (auto simp: ready_notify_all_def)

lemma caller_sound_ready:
  "caller_sound (ready_notify_all x) c = caller_sound x c"
  by (cases c) (auto simp: all_conj_distrib)

lemma callers_sound_idle:
  assumes "\<forall>c \<in> set (tx_callers x). c \<noteq> CL_Idle_asleep \<longrightarrow> caller_sound x c"
  shows "\<forall>c \<in> set (tx_callers (idle_notify_all x)). caller_sound x c"
  using assms by (auto simp: idle_notify_all_def)

lemma worker_sound_idle: "worker_sound (idle_notify_all x) w = worker_sound x w"
  by (auto simp: worker_sound_def idle_notify_all_def image_iff split: Worker.splits)

text \<open>A caller's soundness depends on the state through four things only.\<close>

lemma caller_sound_mono:
  assumes "caller_sound x c" "tx_stopping x \<Longrightarrow> tx_stopping x'"
    "length (tx_workers x') = length (tx_workers x)"
    "\<And>j. j < length (tx_workers x) \<Longrightarrow> tx_workers x ! j = WK_Exited \<Longrightarrow> tx_workers x' ! j = WK_Exited"
    "c = CL_Idle_asleep \<Longrightarrow> \<not> idle_predicate x \<Longrightarrow> \<not> idle_predicate x'"
  shows "caller_sound x' c"
  using assms by (cases c) auto

lemma threaded_okD:
  assumes "threaded_ok capacity shards evs x"
  shows "tx_capacity x = capacity" "length (tx_queues x) = unat (tx_shard_count x)"
    "length (tx_workers x) = length (tx_queues x)"
    "tx_queued x = sum_list (map length (tx_queues x))" "tx_queued x \<le> capacity"
    "tx_active x = sum_list (map (length \<circ> worker_task) (tx_workers x))"
    "tx_first_error x = (case failures evs of [] \<Rightarrow> None | e # _ \<Rightarrow> Some e)"
    "w < length (tx_queues x) \<Longrightarrow> accepted w evs = finished w evs @ in_flight x w @ tx_queues x ! w"
    "w < length (tx_queues x) \<Longrightarrow> worker_sound x w"
    "c \<in> set (tx_callers x) \<Longrightarrow> caller_sound x c"
  using assms by (simp_all add: threaded_ok_def)

lemma threaded_ok_submit:
  assumes ok: "threaded_ok capacity shards evs x" and sub: "threaded_submit x shard task = (x', r)"
  shows "threaded_ok capacity shards (evs @ [EV_Submit shard task r]) x'"
proof (cases "is_ok r")
  case False
  then have "x' = x" "\<exists>e. r = Inl e" using sub
    by (auto simp: threaded_submit_def Let_def split: option.splits if_splits)
  then show ?thesis using ok by (auto simp: threaded_ok_def)
next
  case True
  then obtain t where t: "task = Some t" "\<not> tx_stopping x" "shard < tx_shard_count x"
    "tx_queued x < tx_capacity x" "r = Inr (tx_next_id x)"
    using sub by (auto simp: threaded_submit_def Let_def not_le split: option.splits if_splits)
  define y where "y = x\<lparr>tx_next_id := tx_next_id x + 1,
      tx_queues := (tx_queues x)[unat shard := tx_queues x ! unat shard @
        [\<lparr>et_id = tx_next_id x, et_shard = shard, et_run = t\<rparr>]],
      tx_queued := tx_queued x + 1\<rparr>"
  have x': "x' = ready_notify_all y" using sub t
    by (auto simp: y_def threaded_submit_def Let_def not_le split: option.splits if_splits)
  note d = threaded_okD[OF ok]
  have s: "unat shard < length (tx_queues x)" using d(2) t(3) by (simp add: word_less_nat_alt)
  have sum: "sum_list (map length (tx_queues y)) = sum_list (map length (tx_queues x)) + 1"
    using sum_map_update[OF s, of length "tx_queues y ! unat shard"] s by (simp add: y_def)
  have running: "\<not> (tx_workers x ! w = WK_Exited)" if "w < length (tx_queues x)" for w
    using d(9)[OF that] t(2) by (auto simp: worker_sound_def)
  have workers: "worker_sound x' w" if "w < length (tx_queues x)" for w
    using running[OF that] that d(3) unfolding x' by (intro worker_sound_notified) (auto simp: y_def)
  have callers: "caller_sound x' c" if "c \<in> set (tx_callers x)" for c
    unfolding x' caller_sound_ready by (rule caller_sound_mono[OF d(10)[OF that]])
      (auto simp: y_def idle_predicate_def)
  have flow: "accepted w (evs @ [EV_Submit shard task r]) =
      finished w (evs @ [EV_Submit shard task r]) @ in_flight x' w @ tx_queues x' ! w"
    if w: "w < length (tx_queues x)" for w
    using d(8)[OF w] w s t d(3) unfolding x' by (simp add: y_def in_flight_def ready_notify_all_def worker_task_wake nth_list_update)
  show ?thesis
    unfolding threaded_ok_def
  proof (intro conjI allI impI ballI)
    show "tx_active x' = sum_list (map (length \<circ> worker_task) (tx_workers x'))"
      using d(6) unfolding x' tasks_notified by (simp add: y_def)
  qed (use d s t sum workers callers flow in \<open>auto simp: x' y_def\<close>)
qed

lemma threaded_ok_poll:
  assumes ok: "threaded_ok capacity shards evs x"
    and w: "w < length (tx_workers x)" "tx_workers x ! w = WK_Check"
  shows "threaded_ok capacity shards (evs @ [EV_Poll w]) (worker_poll x w)"
proof -
  note d = threaded_okD[OF ok]
  have wq: "w < length (tx_queues x)" using w d(3) by simp
  have active: "sum_list (map (length \<circ> worker_task) ((tx_workers x)[w := wk])) =
      tx_active x + length (worker_task wk)" for wk
    using sum_map_update[OF w(1), of "length \<circ> worker_task" wk] w(2) d(6) by simp
  have others: "worker_sound (worker_poll x w) v" if "v < length (tx_queues x)" "v \<noteq> w" for v
    using d(9)[OF that(1)] that(2)
    by (auto simp: worker_sound_def worker_poll_def nth_list_update split: Worker.splits list.splits)
  have own: "worker_sound (worker_poll x w) w"
    using w wq by (auto simp: worker_sound_def worker_poll_def ready_predicate_def split: list.splits)
  have callers: "caller_sound (worker_poll x w) c" if "c \<in> set (tx_callers x)" for c
    by (rule caller_sound_mono[OF d(10)[OF that]])
      (use w in \<open>auto simp: worker_poll_def nth_list_update idle_predicate_def split: list.splits\<close>)
  have same: "tx_capacity (worker_poll x w) = tx_capacity x" "tx_callers (worker_poll x w) = tx_callers x"
    "tx_shard_count (worker_poll x w) = tx_shard_count x" "tx_first_error (worker_poll x w) = tx_first_error x"
    "length (tx_queues (worker_poll x w)) = length (tx_queues x)"
    "length (tx_workers (worker_poll x w)) = length (tx_workers x)"
    by (simp_all add: worker_poll_def split: list.splits)
  have queued: "tx_queued (worker_poll x w) = sum_list (map length (tx_queues (worker_poll x w))) \<and>
      tx_queued (worker_poll x w) \<le> capacity"
    using sum_map_update[OF wq, of length "tl (tx_queues x ! w)"] d(4,5)
    by (auto simp: worker_poll_def split: list.splits)
  have running: "tx_active (worker_poll x w) =
      sum_list (map (length \<circ> worker_task) (tx_workers (worker_poll x w)))"
    using active d(6) by (simp add: worker_poll_def split: list.splits)
  have flow: "accepted v evs = finished v evs @ in_flight (worker_poll x w) v @ tx_queues (worker_poll x w) ! v"
    if "v < length (tx_queues x)" for v
    using d(8)[OF that] w wq that d(3)
    by (auto simp: worker_poll_def in_flight_def nth_list_update split: list.splits)
  show ?thesis
    unfolding threaded_ok_def
  proof (intro conjI allI impI ballI)
    fix v assume "v < length (tx_queues (worker_poll x w))"
    then show "worker_sound (worker_poll x w) v" using own others same by (cases "v = w") simp_all
  qed (use d(1-3,7) same queued running flow callers in auto)
qed

lemma threaded_ok_finish:
  assumes ok: "threaded_ok capacity shards evs x"
    and w: "w < length (tx_workers x)" "tx_workers x ! w = WK_Running task"
  shows "threaded_ok capacity shards (evs @ [EV_Finish w task]) (worker_finish x w task)"
proof -
  note d = threaded_okD[OF ok]
  have wq: "w < length (tx_queues x)" using w d(3) by simp
  define y where "y = x\<lparr>tx_workers := (tx_workers x)[w := WK_Check], tx_active := tx_active x - 1,
      tx_first_error := (case et_run task of Inr _ \<Rightarrow> tx_first_error x
        | Inl e \<Rightarrow> if tx_first_error x = None then Some e else tx_first_error x)\<rparr>"
  have fin: "worker_finish x w task = (if idle_predicate y then idle_notify_all y else y)"
    by (simp add: worker_finish_def y_def idle_predicate_def Let_def)
  have active: "tx_active y = sum_list (map (length \<circ> worker_task) (tx_workers y))"
    using sum_map_update[OF w(1), of "length \<circ> worker_task" WK_Check] w(2) d(6) by (simp add: y_def)
  have workers: "worker_sound y v" if "v < length (tx_queues x)" for v
    using d(9)[OF that] that w(1) by (auto simp: worker_sound_def y_def nth_list_update split: Worker.splits)
  have callers: "caller_sound y c" if "c \<in> set (tx_callers x)" "c \<noteq> CL_Idle_asleep" for c
    by (rule caller_sound_mono[OF d(10)[OF that(1)]]) (use that w in \<open>auto simp: y_def nth_list_update\<close>)
  have error: "tx_first_error y = (case failures (evs @ [EV_Finish w task]) of [] \<Rightarrow> None | e # _ \<Rightarrow> Some e)"
    using d(7) by (auto simp: y_def split: list.splits sum.splits)
  have flow: "accepted v (evs @ [EV_Finish w task]) =
      finished v (evs @ [EV_Finish w task]) @ in_flight y v @ tx_queues y ! v"
    if "v < length (tx_queues x)" for v
    using d(8)[OF that] that w by (auto simp: y_def in_flight_def nth_list_update)
  have same: "tx_capacity y = tx_capacity x" "tx_shard_count y = tx_shard_count x" "tx_queues y = tx_queues x"
    "length (tx_workers y) = length (tx_workers x)" "tx_queued y = tx_queued x" "tx_callers y = tx_callers x"
    by (simp_all add: y_def)
  show ?thesis
  proof (cases "idle_predicate y")
    case True
    have "\<forall>c \<in> set (tx_callers (idle_notify_all y)). caller_sound y c"
      using callers by (intro callers_sound_idle) (simp add: same)
    then have "\<forall>c \<in> set (tx_callers (idle_notify_all y)). caller_sound (idle_notify_all y) c"
      by (auto elim!: caller_sound_mono)
    then show ?thesis using True d active workers error flow
      by (simp add: fin threaded_ok_def same worker_sound_idle)
  next
    case False
    then have "caller_sound y c" if "c \<in> set (tx_callers x)" for c
      using callers[OF that] by (cases "c = CL_Idle_asleep") auto
    then show ?thesis using False d active workers error flow by (simp add: fin threaded_ok_def same)
  qed
qed

lemma threaded_ok_callers:
  assumes ok: "threaded_ok capacity shards evs x"
    and quiet: "\<forall>w. accepted_in w ev = []" "\<forall>w. finished_in w ev = []" "failures_in ev = []"
    and callers: "\<forall>c \<in> set cs. caller_sound (x\<lparr>tx_callers := cs\<rparr>) c"
    and notify: "CL_Shutdown_notify \<in> set (tx_callers x) \<Longrightarrow> CL_Shutdown_notify \<in> set cs"
  shows "threaded_ok capacity shards (evs @ [ev]) (x\<lparr>tx_callers := cs\<rparr>)"
proof -
  have "worker_sound (x\<lparr>tx_callers := cs\<rparr>) w" if "worker_sound x w" for w
    using that notify by (auto simp: worker_sound_def split: Worker.splits)
  then show ?thesis using ok quiet callers by (simp add: threaded_ok_def in_flight_def)
qed

lemma caller_sound_callers [simp]: "caller_sound (x\<lparr>tx_callers := cs\<rparr>) c = caller_sound x c"
  by (cases c) (simp_all add: idle_predicate_def)

lemma threaded_ok_shutdown:
  assumes ok: "threaded_ok capacity shards evs x"
  shows "threaded_ok capacity shards (evs @ [EV_Shutdown_call]) (shutdown x)"
proof (cases "tx_stopping x")
  case True
  then show ?thesis unfolding shutdown_def
    using threaded_ok_callers[OF ok, of EV_Shutdown_call "tx_callers x @ [CL_Shutdown_early]"] threaded_okD(10)[OF ok]
    by auto
next
  case False
  note d = threaded_okD[OF ok]
  have workers: "worker_sound (shutdown x) w" if "w < length (tx_queues x)" for w
    using d(9)[OF that] False by (auto simp: worker_sound_def shutdown_def split: Worker.splits)
  have callers: "caller_sound (shutdown x) c" if "c \<in> set (tx_callers x)" for c
    by (rule caller_sound_mono[OF d(10)[OF that]]) (auto simp: shutdown_def idle_predicate_def)
  show ?thesis using False workers callers d
    by (auto simp: threaded_ok_def shutdown_def in_flight_def)
qed

lemma threaded_ok_spurious:
  assumes ok: "threaded_ok capacity shards evs x"
    and w: "w < length (tx_workers x)" "tx_workers x ! w = WK_Asleep"
  shows "threaded_ok capacity shards (evs @ [EV_Spurious_worker w]) (x\<lparr>tx_workers := (tx_workers x)[w := WK_Check]\<rparr>)"
    (is "threaded_ok _ _ _ ?y")
proof -
  note d = threaded_okD[OF ok]
  have "worker_sound ?y v" if "v < length (tx_queues x)" for v
    using d(9)[OF that] w by (auto simp: worker_sound_def nth_list_update split: Worker.splits)
  moreover have "caller_sound ?y c" if "c \<in> set (tx_callers x)" for c
    by (rule caller_sound_mono[OF d(10)[OF that]]) (use w in \<open>auto simp: nth_list_update idle_predicate_def\<close>)
  moreover have "in_flight ?y v = in_flight x v" for v
    using w by (cases "v = w") (auto simp: in_flight_def)
  ultimately show ?thesis
    using d sum_map_update[OF w(1), of "length \<circ> worker_task" WK_Check] w(2)
    by (simp add: threaded_ok_def)
qed

lemma threaded_ok_notify:
  assumes ok: "threaded_ok capacity shards evs x"
    and c: "c < length (tx_callers x)" "tx_callers x ! c = CL_Shutdown_notify"
  shows "threaded_ok capacity shards (evs @ [EV_Notify c]) (shutdown_notify x c)"
proof -
  note d = threaded_okD[OF ok]
  have stop: "tx_stopping x" using d(10)[OF nth_mem[OF c(1)]] c(2) by simp
  have workers: "worker_sound (shutdown_notify x c) w" if "w < length (tx_queues x)" for w
    using d(9)[OF that] that d(3) unfolding shutdown_notify_def
    by (intro worker_sound_notified) (auto simp: worker_sound_def)
  have callers: "caller_sound (shutdown_notify x c) k" if "k \<in> set ((tx_callers x)[c := CL_Shutdown_join 0])" for k
    using that set_update_subset_insert[of "tx_callers x" c] d(10) stop
    unfolding shutdown_notify_def caller_sound_ready by fastforce
  show ?thesis unfolding threaded_ok_def
  proof (intro conjI allI impI ballI)
    show "tx_active (shutdown_notify x c) =
        sum_list (map (length \<circ> worker_task) (tx_workers (shutdown_notify x c)))"
      using d(6) unfolding shutdown_notify_def tasks_notified by simp
  next
    fix k assume "k \<in> set (tx_callers (shutdown_notify x c))"
    then show "caller_sound (shutdown_notify x c) k" using callers by (simp add: shutdown_notify_def)
  next
    fix w assume "w < length (tx_queues (shutdown_notify x c))"
    then have w: "w < length (tx_queues x)" by (simp add: shutdown_notify_def)
    show "accepted w (evs @ [EV_Notify c]) = finished w (evs @ [EV_Notify c]) @
        in_flight (shutdown_notify x c) w @ tx_queues (shutdown_notify x c) ! w"
      using d(8)[OF w] w d(3) by (simp add: shutdown_notify_def in_flight_def ready_notify_all_def worker_task_wake)
    show "worker_sound (shutdown_notify x c) w" by (rule workers[OF w])
  qed (use d in \<open>simp_all add: shutdown_notify_def\<close>)
qed

lemma caller_update:
  assumes ok: "threaded_ok capacity shards evs x"
    and quiet: "\<forall>w. accepted_in w ev = []" "\<forall>w. finished_in w ev = []" "failures_in ev = []"
    and c: "c < length (tx_callers x)" "tx_callers x ! c \<noteq> CL_Shutdown_notify" "caller_sound x k"
  shows "threaded_ok capacity shards (evs @ [ev]) (x\<lparr>tx_callers := (tx_callers x)[c := k]\<rparr>)"
proof (rule threaded_ok_callers[OF ok quiet])
  show "\<forall>k' \<in> set ((tx_callers x)[c := k]). caller_sound (x\<lparr>tx_callers := (tx_callers x)[c := k]\<rparr>) k'"
    using set_update_subset_insert[of "tx_callers x" c k] threaded_okD(10)[OF ok] c(3) by auto
  show "CL_Shutdown_notify \<in> set (tx_callers x) \<Longrightarrow> CL_Shutdown_notify \<in> set ((tx_callers x)[c := k])"
    using c(1,2) by (metis in_set_conv_nth length_list_update nth_list_update_neq)
qed

lemma threaded_ok_join:
  assumes ok: "threaded_ok capacity shards evs x"
    and c: "c < length (tx_callers x)" "tx_callers x ! c = CL_Shutdown_join k" "shutdown_join x c k = Some x'"
  shows "threaded_ok capacity shards (evs @ [EV_Join c]) x'"
proof -
  have "caller_sound x (CL_Shutdown_join k)"
    using threaded_okD(10)[OF ok nth_mem[OF c(1)]] c(2) by simp
  then have "caller_sound x (if k \<ge> length (tx_workers x) then CL_Shutdown_returned else CL_Shutdown_join (k + 1))"
    using c(3) by (auto simp: shutdown_join_def less_Suc_eq split: if_splits)
  from caller_update[OF ok _ _ _ c(1) _ this, of "EV_Join c"] c(2,3) show ?thesis
    by (auto simp: shutdown_join_def split: if_splits)
qed

lemma threaded_ok_step:
  assumes "threaded_ok capacity shards evs x" "threaded_step x ev x'"
  shows "threaded_ok capacity shards (evs @ [ev]) x'"
  using assms(2)
proof (cases rule: threaded_step.cases)
  case (Submit shard task r)
  then show ?thesis using threaded_ok_submit[OF assms(1)] by simp
next
  case Wait_call
  then show ?thesis using threaded_ok_callers[OF assms(1), of ev "tx_callers x @ [CL_Idle_check]"]
    threaded_okD(10)[OF assms(1)] by auto
next
  case (Spurious_caller c)
  then show ?thesis using caller_update[OF assms(1), of ev c CL_Idle_check] by simp
next
  case (Wait c)
  then show ?thesis using caller_update[OF assms(1), of ev c CL_Idle_asleep] caller_update[OF assms(1), of ev c]
    by (simp add: wait_idle_def)
qed (use assms(1) in \<open>auto intro: threaded_ok_shutdown threaded_ok_spurious threaded_ok_poll
      threaded_ok_finish threaded_ok_notify threaded_ok_join\<close>)

lemma threaded_ok_run: "threaded_run capacity shards evs x \<Longrightarrow> threaded_ok capacity shards evs x"
proof (induction rule: threaded_run.induct)
  case Start
  then show ?case
    by (simp add: threaded_ok_def threaded_executor_def Let_def in_flight_def sum_list_replicate worker_sound_def)
next
  case (Next evs x ev x')
  then show ?case using threaded_ok_step by blast
qed

section \<open>What every interleaving guarantees\<close>

lemma threaded_fifo_facts:
  assumes "threaded_run capacity shards evs x" "w < length (tx_queues x)"
  shows "accepted w evs = finished w evs @ in_flight x w @ tx_queues x ! w"
    and "sum_list (map length (tx_queues x)) \<le> capacity"
  using threaded_ok_run[OF assms(1)] assms(2) by (auto simp: threaded_ok_def)

text \<open>Property C16. In every interleaving of submitters, workers, waiters and shutdowns, each
  shard is a first-in first-out server of one task at a time that loses and repeats nothing: the
  tasks accepted for a shard are, in order, those its worker has finished, the one it is running,
  and those queued; and the number of tasks queued over all shards never exceeds the capacity.\<close>

theorem threaded_fifo:
  assumes "threaded_run capacity shards evs x" "w < length (tx_queues x)"
  shows "(accepted w evs = finished w evs @ in_flight x w @ tx_queues x ! w) \<and>
    (sum_list (map length (tx_queues x)) \<le> capacity)"
  using threaded_fifo_facts[OF assms] by blast

lemma no_work_left:
  assumes ok: "threaded_ok capacity shards evs x" and w: "w < length (tx_queues x)"
    and none: "tx_queues x ! w = []" "worker_task (tx_workers x ! w) = []"
  shows "finished w evs = accepted w evs"
  using threaded_okD(8)[OF ok w] none by (simp add: in_flight_def)

text \<open>Remark. A call of \<open>wait_idle\<close> returns only when every accepted task has finished, and
  what it returns is the error of the first task to fail, in the order the tasks ended over all
  shards, or success if none failed.\<close>

theorem wait_idle_exact:
  assumes "threaded_run capacity shards evs x" "c < length (tx_callers x)"
    and "threaded_step x (EV_Wait c) x'" "tx_callers x' ! c = CL_Idle_returned r"
  shows "(\<forall>w < length (tx_queues x). finished w evs = accepted w evs) \<and>
    (r = (case failures evs of [] \<Rightarrow> Inr () | e # _ \<Rightarrow> Inl e))"
proof -
  have ok: "threaded_ok capacity shards evs x" using assms(1) by (rule threaded_ok_run)
  have "x' = wait_idle x c" using assms(3) by (auto elim: threaded_stepE)
  then have idle: "idle_predicate x"
    and r: "r = (case tx_first_error x of Some e \<Rightarrow> Inl e | None \<Rightarrow> Inr ())"
    using assms(2,4) by (auto simp: wait_idle_def split: if_splits)
  have "finished w evs = accepted w evs" if w: "w < length (tx_queues x)" for w
  proof (rule no_work_left[OF ok w])
    show "tx_queues x ! w = []" using idle threaded_okD(4)[OF ok] w by (simp add: idle_predicate_def)
    have "tx_workers x ! w \<in> set (tx_workers x)" using w threaded_okD(3)[OF ok] by simp
    then show "worker_task (tx_workers x ! w) = []"
      using idle threaded_okD(6)[OF ok] by (simp add: idle_predicate_def)
  qed
  moreover have "r = (case failures evs of [] \<Rightarrow> Inr () | e # _ \<Rightarrow> Inl e)"
    using r threaded_okD(7)[OF ok] by (simp split: list.splits)
  ultimately show ?thesis by blast
qed

text \<open>Property C18. Shutting down drains, for the caller that starts it: when the call of
  \<open>shutdown\<close> that raised the flag has returned, every worker has returned, every task ever
  accepted has finished, and every later submission of a task is refused.\<close>

theorem shutdown_drains:
  assumes "threaded_run capacity shards evs x" "CL_Shutdown_returned \<in> set (tx_callers x)"
    and "w < length (tx_queues x)"
  shows "finished w evs = accepted w evs \<and> tx_workers x ! w = WK_Exited \<and>
    threaded_submit x shard (Some t) = (x, Inl (executor_error EC_illegal_state ''executor is shutting down''))"
proof -
  have ok: "threaded_ok capacity shards evs x" using assms(1) by (rule threaded_ok_run)
  have stop: "tx_stopping x" and exited: "tx_workers x ! w = WK_Exited"
    using threaded_okD(10)[OF ok assms(2)] assms(3) threaded_okD(3)[OF ok] by simp_all
  then have "finished w evs = accepted w evs"
    using threaded_okD(9)[OF ok assms(3)] by (intro no_work_left[OF ok assms(3)]) (simp_all add: worker_sound_def)
  then show ?thesis using stop exited by (simp add: threaded_submit_def)
qed

section \<open>Nothing is left waiting\<close>

text \<open>The steps of the executor's own code, and the paths that take only those.\<close>

fun internal :: "ThreadEvent \<Rightarrow> bool" where
  "internal (EV_Poll _) = True"
| "internal (EV_Finish _ _) = True"
| "internal (EV_Wait _) = True"
| "internal (EV_Notify _) = True"
| "internal (EV_Join _) = True"
| "internal _ = False"

inductive internal_path :: "ThreadedExecutor \<Rightarrow> ThreadEvent list \<Rightarrow> ThreadedExecutor \<Rightarrow> bool" where
  Stay: "internal_path x [] x"
| Go: "\<lbrakk>threaded_step x ev x'; internal ev; internal_path x' evs x''\<rbrakk> \<Longrightarrow> internal_path x (ev # evs) x''"

text \<open>A bound on how many such steps there can be: a queued task is worth taking and finishing,
  either of which may wake every other thread once.\<close>

fun caller_work :: "nat \<Rightarrow> nat \<Rightarrow> Caller \<Rightarrow> nat" where
  "caller_work weight n CL_Idle_check = 1"
| "caller_work weight n CL_Shutdown_notify = weight"
| "caller_work weight n (CL_Shutdown_join k) = n + 1 - k"
| "caller_work weight n _ = 0"

definition work_weight :: "ThreadedExecutor \<Rightarrow> nat" where
  "work_weight x = 2 * length (tx_workers x) + length (tx_callers x) + 3"

definition polls_due :: "Worker list \<Rightarrow> nat" where
  "polls_due wks = sum_list (map (\<lambda>wk. if wk = WK_Check then 1 else 0) wks)"

definition calls_due :: "nat \<Rightarrow> nat \<Rightarrow> Caller list \<Rightarrow> nat" where
  "calls_due weight n cs = sum_list (map (caller_work weight n) cs)"

definition work_left :: "ThreadedExecutor \<Rightarrow> nat" where
  "work_left x = 2 * work_weight x * tx_queued x + work_weight x * tx_active x +
     polls_due (tx_workers x) + calls_due (work_weight x) (length (tx_workers x)) (tx_callers x)"

lemma polls_due_update:
  "w < length wks \<Longrightarrow> polls_due (wks[w := wk]) + (if wks ! w = WK_Check then 1 else 0)
     = polls_due wks + (if wk = WK_Check then 1 else 0)"
  unfolding polls_due_def by (rule sum_map_update)

lemma calls_due_update:
  "c < length cs \<Longrightarrow> calls_due weight n (cs[c := k]) + caller_work weight n (cs ! c)
     = calls_due weight n cs + caller_work weight n k"
  unfolding calls_due_def by (rule sum_map_update)

lemma polls_due_woken: "polls_due (map f wks) \<le> length wks"
  unfolding polls_due_def by (induction wks) auto

lemma calls_due_woken:
  "calls_due weight n (map (\<lambda>c. if c = CL_Idle_asleep then CL_Idle_check else c) cs)
     \<le> calls_due weight n cs + length cs"
  unfolding calls_due_def by (induction cs) auto

lemma poll_works:
  assumes ok: "threaded_ok capacity shards evs x"
    and w: "w < length (tx_workers x)" "tx_workers x ! w = WK_Check"
  shows "work_left (worker_poll x w) < work_left x"
proof -
  have wq: "w < length (tx_queues x)" using w threaded_okD(3)[OF ok] by simp
  have polls: "polls_due ((tx_workers x)[w := wk]) + 1 = polls_due (tx_workers x)" if "wk \<noteq> WK_Check" for wk
    using polls_due_update[OF w(1), of wk] w(2) that by simp
  have front: "0 < tx_queued x" if "tx_queues x ! w \<noteq> []"
    using that nth_mem[OF wq] by (auto simp: threaded_okD(4)[OF ok] sum_list_eq_0_iff intro!: gr0I)
  have weight: "2 * k * q + k * a = 2 * k * (q - 1) + k * (a + 1) + k" if "0 < q" for k q a :: nat
    using that by (cases q) (auto simp: algebra_simps)
  show ?thesis
    using polls[of WK_Asleep] polls[of WK_Exited] polls[of "WK_Running (hd (tx_queues x ! w))"]
      front weight[of "tx_queued x" "work_weight x" "tx_active x"]
    by (auto simp: worker_poll_def ready_predicate_def work_left_def work_weight_def split: list.splits)
qed

lemma finish_works:
  assumes ok: "threaded_ok capacity shards evs x"
    and w: "w < length (tx_workers x)" "tx_workers x ! w = WK_Running task"
  shows "work_left (worker_finish x w task) < work_left x"
proof -
  have polls: "polls_due ((tx_workers x)[w := WK_Check]) = polls_due (tx_workers x) + 1"
    using polls_due_update[OF w(1), of WK_Check] w(2) by simp
  have "WK_Running task \<in> set (tx_workers x)" using w by (metis nth_mem)
  then have "tx_active x \<noteq> 0" unfolding threaded_okD(6)[OF ok] sum_list_eq_0_iff by force
  then have weight: "k * tx_active x = k * (tx_active x - 1) + k" for k :: nat
    by (cases "tx_active x") auto
  show ?thesis
    using polls weight[of "work_weight x"]
      calls_due_woken[of "work_weight x" "length (tx_workers x)" "tx_callers x"]
    by (auto simp: worker_finish_def Let_def work_left_def work_weight_def idle_notify_all_def)
qed

lemma notify_works:
  assumes c: "c < length (tx_callers x)" "tx_callers x ! c = CL_Shutdown_notify"
  shows "work_left (shutdown_notify x c) < work_left x"
  using calls_due_update[OF c(1), of "work_weight x" "length (tx_workers x)" "CL_Shutdown_join 0"] c(2)
    polls_due_woken[of "\<lambda>wk. if wk = WK_Asleep then WK_Check else wk" "tx_workers x"]
  by (simp add: shutdown_notify_def ready_notify_all_def work_left_def work_weight_def)

lemma internal_works:
  assumes ok: "threaded_ok capacity shards evs x" and step: "threaded_step x ev x'" "internal ev"
  shows "work_left x' < work_left x"
  using step(1)
proof (cases rule: threaded_step.cases)
  case (Wait c)
  then show ?thesis
    using calls_due_update[of c "tx_callers x" "work_weight x" "length (tx_workers x)" CL_Idle_asleep]
      calls_due_update[of c "tx_callers x" "work_weight x" "length (tx_workers x)"
        "CL_Idle_returned (case tx_first_error x of Some e \<Rightarrow> Inl e | None \<Rightarrow> Inr ())"]
    by (auto simp: wait_idle_def work_left_def work_weight_def)
next
  case (Join c k)
  have "caller_sound x (tx_callers x ! c)" using Join(2) by (intro threaded_okD(10)[OF ok] nth_mem)
  then show ?thesis using Join
    calls_due_update[of c "tx_callers x" "work_weight x" "length (tx_workers x)" CL_Shutdown_returned]
    calls_due_update[of c "tx_callers x" "work_weight x" "length (tx_workers x)" "CL_Shutdown_join (k + 1)"]
    by (auto simp: shutdown_join_def work_left_def work_weight_def split: if_splits)
qed (use step(2) ok in \<open>auto intro: poll_works finish_works notify_works\<close>)

text \<open>Where no such step is left, nothing is left to do.\<close>

fun returned :: "Caller \<Rightarrow> bool" where
  "returned (CL_Idle_returned r) = True"
| "returned CL_Shutdown_returned = True"
| "returned CL_Shutdown_early = True"
| "returned _ = False"

definition settled :: "ThreadedExecutor \<Rightarrow> bool" where
  "settled x \<longleftrightarrow> list_all returned (tx_callers x) \<and> list_all (\<lambda>q. q = []) (tx_queues x) \<and>
     list_all (\<lambda>wk. wk = (if tx_stopping x then WK_Exited else WK_Asleep)) (tx_workers x)"

lemma stuck_settled:
  assumes ok: "threaded_ok capacity shards evs x"
    and stuck: "\<forall>ev x'. threaded_step x ev x' \<longrightarrow> \<not> internal ev"
  shows "settled x"
proof -
  note d = threaded_okD[OF ok]
  have no_notify: "tx_callers x ! c \<noteq> CL_Shutdown_notify" if "c < length (tx_callers x)" for c
    using Notify[OF that] stuck by (meson internal.simps(4))
  have workers: "tx_workers x ! w = (if tx_stopping x then WK_Exited else WK_Asleep) \<and> tx_queues x ! w = []"
    if w: "w < length (tx_workers x)" for w
  proof -
    have "tx_workers x ! w \<noteq> WK_Check" using Poll[OF w] stuck by (meson internal.simps(1))
    moreover have "tx_workers x ! w \<noteq> WK_Running t" for t using Finish[OF w] stuck by (meson internal.simps(2))
    moreover have "CL_Shutdown_notify \<notin> set (tx_callers x)" using no_notify by (auto simp: in_set_conv_nth)
    ultimately show ?thesis using d(9)[of w] w d(3) by (cases "tx_workers x ! w") (auto simp: worker_sound_def)
  qed
  have queues: "\<forall>q \<in> set (tx_queues x). q = []" using workers d(3) by (auto simp: in_set_conv_nth)
  have idle: "idle_predicate x"
    using queues workers by (auto simp: idle_predicate_def d(4,6) sum_list_eq_0_iff in_set_conv_nth)
  have "returned (tx_callers x ! c)" if c: "c < length (tx_callers x)" for c
  proof -
    have sound: "caller_sound x (tx_callers x ! c)" by (rule d(10)) (use c in simp)
    show ?thesis
    proof (cases "tx_callers x ! c")
      case CL_Idle_check
      then show ?thesis using Wait[OF c] stuck by (meson internal.simps(3))
    next
      case (CL_Shutdown_join k)
      then have "\<exists>x'. shutdown_join x c k = Some x'"
        using sound workers by (auto simp: shutdown_join_def)
      then show ?thesis using Join[OF c CL_Shutdown_join] stuck by (meson internal.simps(5))
    qed (use sound idle no_notify[OF c] in auto)
  qed
  then show ?thesis using queues workers
    by (simp add: settled_def list_all_length list_all_iff)
qed

lemma internal_path_bound:
  assumes "internal_path x steps x'" "threaded_ok capacity shards evs x"
  shows "length steps + work_left x' \<le> work_left x \<and> (\<exists>evs'. threaded_ok capacity shards evs' x')"
  using assms
proof (induction arbitrary: evs rule: internal_path.induct)
  case (Go x ev x' steps x'')
  then show ?case using internal_works[of capacity shards evs x ev x'] threaded_ok_step[of capacity shards evs x ev x']
    by fastforce
qed auto

text \<open>Property C17. No wake-up is lost and nothing hangs: from every state an interleaving can
  reach, and with no help from spurious wake-ups, the executor's own steps come to an end within
  \<open>work_left\<close> of them, in whatever order they are taken; and where none is left every call of
  \<open>wait_idle\<close> and of \<open>shutdown\<close> has returned, no task is queued or running, and every worker
  sleeps, or has returned if the executor was shut down.\<close>

theorem workers_progress:
  assumes "threaded_run capacity shards evs x" "internal_path x steps x'"
  shows "length steps \<le> work_left x \<and>
    ((\<exists>ev x''. threaded_step x' ev x'' \<and> internal ev) \<or> settled x')"
proof -
  have ok: "threaded_ok capacity shards evs x" using assms(1) by (rule threaded_ok_run)
  from internal_path_bound[OF assms(2) ok] obtain evs' where
    "length steps \<le> work_left x" "threaded_ok capacity shards evs' x'" by auto
  then show ?thesis using stuck_settled by blast
qed

section \<open>A concrete run\<close>

definition sample_failure :: Error where
  "sample_failure = make_error ES_plugin EC_plugin_decode CA_reject_message ''bad payload''"

definition sample_task :: ThreadTask where
  "sample_task = \<lparr>et_id = 1, et_shard = 0, et_run = Inl sample_failure\<rparr>"

definition sample_events :: "ThreadEvent list" where
  "sample_events = [EV_Submit 0 (Some (Inl sample_failure)) (Inr 1), EV_Poll 0]"

definition busy_state :: ThreadedExecutor where
  "busy_state = \<lparr>tx_capacity = 2, tx_shard_count = 1, tx_next_id = 2, tx_queues = [[]],
     tx_workers = [WK_Running sample_task], tx_callers = [], tx_stopping = False, tx_queued = 0,
     tx_active = 1, tx_first_error = None\<rparr>"

definition idle_state :: ThreadedExecutor where
  "idle_state = busy_state\<lparr>tx_workers := [WK_Check], tx_active := 0,
     tx_first_error := Some sample_failure\<rparr>"

lemma busy_run: "threaded_run 2 1 sample_events busy_state"
proof -
  let ?x1 = "fst (threaded_submit (threaded_executor 2 1) 0 (Some (Inl sample_failure)))"
  note defs = threaded_submit_def threaded_executor_def Let_def ready_notify_all_def
  have "threaded_run 2 1 ([] @ [EV_Submit 0 (Some (Inl sample_failure)) (Inr 1)]) ?x1"
    by (rule Next[OF Start Submit]) (simp add: defs)
  from Next[OF this Poll[of 0]] show ?thesis
    by (simp add: defs sample_events_def worker_poll_def ready_predicate_def busy_state_def sample_task_def)
qed

lemma sample_run: "threaded_run 2 1 (sample_events @ [EV_Finish 0 sample_task]) idle_state"
proof -
  have "worker_finish busy_state 0 sample_task = idle_state"
    by (simp add: worker_finish_def busy_state_def idle_state_def idle_notify_all_def Let_def sample_task_def)
  then show ?thesis using Next[OF busy_run Finish[of 0 busy_state sample_task]] by (simp add: busy_state_def)
qed

theorem threaded_fifo_witness: "accepted 0 sample_events = [sample_task] \<and>
    accepted 0 sample_events = finished 0 sample_events @ in_flight busy_state 0 @ tx_queues busy_state ! 0"
proof
  show "accepted 0 sample_events = [sample_task]"
    by (simp add: accepted_def sample_events_def sample_task_def)
  show "accepted 0 sample_events = finished 0 sample_events @ in_flight busy_state 0 @ tx_queues busy_state ! 0"
    by (rule threaded_fifo[OF busy_run, THEN conjunct1]) (simp add: busy_state_def)
qed

lemmas state_simps = idle_state_def busy_state_def shutdown_def shutdown_notify_def shutdown_join_def
  ready_notify_all_def worker_poll_def ready_predicate_def wait_idle_def idle_predicate_def

theorem wait_idle_exact_witness: "\<exists>evs x. threaded_run 2 1 evs x \<and>
    tx_callers (wait_idle x 0) ! 0 = CL_Idle_returned (Inl sample_failure) \<and>
    Inl sample_failure = (case failures evs of [] \<Rightarrow> Inr () | e # _ \<Rightarrow> Inl e)"
proof -
  let ?x = "idle_state\<lparr>tx_callers := [CL_Idle_check]\<rparr>"
  have run: "threaded_run 2 1 ((sample_events @ [EV_Finish 0 sample_task]) @ [EV_Wait_call]) ?x"
    using Next[OF sample_run Wait_call] by (simp add: state_simps)
  have "threaded_step ?x (EV_Wait 0) (wait_idle ?x 0)" by (rule Wait) simp_all
  from wait_idle_exact[OF run _ this, of "Inl sample_failure"] run show ?thesis
    by (intro exI[of _ "(sample_events @ [EV_Finish 0 sample_task]) @ [EV_Wait_call]"] exI[of _ ?x])
      (simp add: state_simps)
qed

text \<open>The executor shut down while idle, up to the return of the call.\<close>

lemma sample_shutdown:
  "threaded_run 2 1 (sample_events @ [EV_Finish 0 sample_task, EV_Shutdown_call, EV_Notify 0, EV_Poll 0, EV_Join 0, EV_Join 0])
     (idle_state\<lparr>tx_workers := [WK_Exited], tx_callers := [CL_Shutdown_returned], tx_stopping := True\<rparr>)"
proof -
  note run = sample_run
  note run = Next[OF run Shutdown_call]
  note run = Next[OF run Notify[of 0]]
  note run = Next[OF run[simplified state_simps, simplified] Poll[of 0], simplified state_simps, simplified]
  note run = Next[OF run Join[of 0 _ 0], simplified state_simps, simplified]
  note run = Next[OF run Join[of 0 _ 1], simplified state_simps, simplified]
  show ?thesis using run by (simp add: state_simps)
qed

theorem shutdown_drains_witness:
  "\<exists>evs x. threaded_run 2 1 evs x \<and> tx_callers x = [CL_Shutdown_returned] \<and>
     finished 0 evs = [sample_task] \<and> finished 0 evs = accepted 0 evs"
proof -
  note run = sample_shutdown
  have "finished 0 (sample_events @ [EV_Finish 0 sample_task, EV_Shutdown_call, EV_Notify 0, EV_Poll 0, EV_Join 0, EV_Join 0])
      = [sample_task]" by (simp add: finished_def sample_events_def)
  with shutdown_drains[OF run, of 0] run show ?thesis
    by (intro exI conjI) (auto simp: state_simps)
qed

text \<open>Remark. A second call of \<open>shutdown\<close> returns at once, whatever is running: here while the
  one task accepted has not finished.\<close>

theorem second_shutdown_early:
  "\<exists>evs x. threaded_run 2 1 evs x \<and> tx_callers x ! 1 = CL_Shutdown_early \<and>
     accepted 0 evs = [sample_task] \<and> finished 0 evs = []"
proof -
  note run = Next[OF Next[OF busy_run Shutdown_call] Shutdown_call]
  then show ?thesis
    by (intro exI conjI) (auto simp: state_simps accepted_def finished_def sample_events_def sample_task_def)
qed

theorem workers_progress_witness:
  "2 \<le> work_left (idle_state\<lparr>tx_callers := [CL_Idle_check]\<rparr>) \<and>
   (\<exists>x'. internal_path (idle_state\<lparr>tx_callers := [CL_Idle_check]\<rparr>) [EV_Wait 0, EV_Poll 0] x' \<and> settled x')"
proof -
  let ?x = "idle_state\<lparr>tx_callers := [CL_Idle_check]\<rparr>"
  let ?y = "wait_idle ?x 0"
  have run: "threaded_run 2 1 ((sample_events @ [EV_Finish 0 sample_task]) @ [EV_Wait_call]) ?x"
    using Next[OF sample_run Wait_call] by (simp add: state_simps)
  have path: "internal_path ?x [EV_Wait 0, EV_Poll 0] (worker_poll ?y 0)"
    by (intro Go[OF Wait] Go[OF Poll] Stay) (simp_all add: state_simps)
  moreover have "settled (worker_poll ?y 0)" by (simp add: settled_def state_simps)
  ultimately show ?thesis using workers_progress[OF run path] by auto
qed

end
