(* ===== verification/Engine.thy ===== *)
theory Engine
  imports Frame_Codec Channel_Table Scheduler Replay_Snapshot Timer_Wheel Negotiator
    Plugin_Registry Executor
begin

text \<open>
  The connection engine, \<^verbatim>\<open>src/connection/engine.cpp\<close> with the types of
  \<^verbatim>\<open>include/lattice/connection.hpp\<close>. \<open>ConnectionEngine\<close> is the record of its members, and every
  public operation and every frame handler is a function from the engine to the engine it
  leaves and its result, composed as the code composes them. The executor the constructor takes
  a pointer to is a field, used by this engine alone; a closure submitted to it is the record
  \<open>PluginTask\<close> of what it captures. The size_t casts to 32 bits are \<open>of_nat\<close>.
\<close>

section \<open>Events, requests and tasks\<close>

datatype EventKind =
    EK_negotiated | EK_channel_opened | EK_message_delivered | EK_plugin_response
  | EK_pong_received | EK_resumed | EK_timer_expired | EK_channel_reset | EK_half_closed
  | EK_closed | EK_diagnostic

record ConnectionEvent =
  ev_kind :: EventKind
  ev_channel :: ChannelId
  ev_sequence :: u32
  ev_payload :: bytes
  ev_error :: "Error option"

record OpenRequest =
  or_family_id :: u32
  or_initial_window :: nat

record ResumeRequest =
  rr_transcript_hash :: bytes
  rr_epoch :: u16
  rr_first_required_seq :: u32

record PluginCompletion =
  pc_token :: u64
  pc_channel :: ChannelId
  pc_sequence :: u32
  pc_family_id :: u32
  pc_response :: bytes

record PluginTask =
  pt_lease :: PluginLease
  pt_completed :: LogicalMessage
  pt_token :: u64
  pt_channel :: ChannelId
  pt_sequence :: u32
  pt_family_id :: u32

record ConnectionEngine =
  ce_policy :: LocalPolicy
  ce_registry :: PluginRegistry
  ce_executor :: "PluginTask DeterministicExecutor option"
  ce_codec :: FrameCodec
  ce_state :: ConnectionState
  ce_capabilities :: "CapabilitySet option"
  ce_channels :: "ChannelTable option"
  ce_replay :: ReplayWindow
  ce_timers :: TimerWheel
  ce_scheduler :: OutboundScheduler
  ce_next_frame_seq :: u32
  ce_next_plugin_token :: u64
  ce_now_ms :: u64
  ce_pending_pong_token :: "u64 option"
  ce_events :: "ConnectionEvent list"

definition kExtMessageSeq :: u16 where "kExtMessageSeq = 1"
definition kExtFragmentOffset :: u16 where "kExtFragmentOffset = 2"
definition kExtMessageTotal :: u16 where "kExtMessageTotal = 3"
definition kExtFamilyId :: u16 where "kExtFamilyId = 4"
definition kHandshakeTimeoutMs :: u64 where "kHandshakeTimeoutMs = 5000"
definition kIdlePingMs :: u64 where "kIdlePingMs = 30000"
definition kPongTimeoutMs :: u64 where "kPongTimeoutMs = 5000"
definition kDrainTimeoutMs :: u64 where "kDrainTimeoutMs = 1000"

definition u32_bytes :: "u32 \<Rightarrow> bytes" where
  "u32_bytes v = append_u32 [] v"

definition state_error :: "string \<Rightarrow> Error" where
  "state_error detail = make_error ES_connection EC_illegal_state CA_close_connection detail"

definition is_control_frame :: "FrameType \<Rightarrow> bool" where
  "is_control_frame type \<longleftrightarrow> type \<noteq> FT_data"

section \<open>Payload codecs\<close>

definition encode_u64_be :: "u64 \<Rightarrow> bytes" where
  "encode_u64_be v = append_u64 [] v"

definition decode_u64_be :: "bytes \<Rightarrow> u64 result" where
  "decode_u64_be payload =
     (if length payload \<noteq> 8
      then Inl (make_error ES_connection EC_sequence_error CA_close_connection
                  ''u64 payload must be exactly eight bytes'')
      else Inr (word64_be payload))"

definition encode_resume_payload :: "ResumeRequest \<Rightarrow> bytes result" where
  "encode_resume_payload request =
     Inr (append_u32 (append_u16 (rr_transcript_hash request) (rr_epoch request))
            (rr_first_required_seq request))"

definition decode_resume_payload :: "bytes \<Rightarrow> ResumeRequest result" where
  "decode_resume_payload payload =
     (if length payload \<noteq> 22
      then Inl (make_error ES_connection EC_resume_rejected CA_close_connection
                  ''RESUME payload length mismatch'')
      else case read_u32_be payload 18 of
        Inl e \<Rightarrow> Inl e
      | Inr first_required \<Rightarrow>
          Inr \<lparr>rr_transcript_hash = take 16 payload,
               rr_epoch = word16_be (payload ! 16) (payload ! 17),
               rr_first_required_seq = first_required\<rparr>)"

section \<open>Construction and frame output\<close>

definition connection_engine ::
  "LocalPolicy \<Rightarrow> PluginRegistry \<Rightarrow> PluginTask DeterministicExecutor option \<Rightarrow> ConnectionEngine" where
  "connection_engine policy registry executor =
     \<lparr>ce_policy = policy, ce_registry = registry, ce_executor = executor,
      ce_codec = new_codec \<lparr>fl_max_frame = lp_max_frame policy, fl_max_header = 4096\<rparr>,
      ce_state = CS_created, ce_capabilities = None, ce_channels = None,
      ce_replay = replay_window (unat (lp_replay_window policy)), ce_timers = timer_wheel,
      ce_scheduler = outbound_scheduler (lp_connection_window policy), ce_next_frame_seq = 1,
      ce_next_plugin_token = 1, ce_now_ms = 0, ce_pending_pong_token = None, ce_events = []\<rparr>"

definition push_event :: "EventKind \<Rightarrow> ChannelId \<Rightarrow> u32 \<Rightarrow> bytes \<Rightarrow> ConnectionEngine \<Rightarrow> ConnectionEngine" where
  "push_event kind channel sequence payload e =
     e\<lparr>ce_events := ce_events e @ [\<lparr>ev_kind = kind, ev_channel = channel, ev_sequence = sequence,
         ev_payload = payload, ev_error = None\<rparr>]\<rparr>"

definition diagnostic :: "Error \<Rightarrow> ConnectionEngine \<Rightarrow> ConnectionEngine" where
  "diagnostic err e =
     e\<lparr>ce_events := ce_events e @ [\<lparr>ev_kind = EK_diagnostic, ev_channel = control_channel,
         ev_sequence = 0, ev_payload = [], ev_error = Some err\<rparr>]\<rparr>"

definition schedule_timer :: "TimerKind \<Rightarrow> ChannelId \<Rightarrow> u64 \<Rightarrow> ConnectionEngine \<Rightarrow> ConnectionEngine" where
  "schedule_timer kind channel delay_ms e =
     e\<lparr>ce_timers := fst (schedule (ce_timers e) kind channel (ce_now_ms e + delay_ms))\<rparr>"

definition make_frame ::
  "ConnectionEngine \<Rightarrow> FrameType \<Rightarrow> ChannelId \<Rightarrow> bytes \<Rightarrow> Extension list \<Rightarrow> ConnectionEngine \<times> Frame" where
  "make_frame e type channel payload extensions =
     (e\<lparr>ce_next_frame_seq := ce_next_frame_seq e + 1\<rparr>,
      \<lparr>f_type = type, f_flags = 0, f_channel = channel, f_frame_seq = ce_next_frame_seq e,
       f_extensions = extensions, f_payload = payload\<rparr>)"

definition queue_encoded :: "ConnectionEngine \<Rightarrow> Frame \<Rightarrow> bytes \<Rightarrow> ConnectionEngine \<times> unit result" where
  "queue_encoded e frame encoded =
     (let (s, r) = enqueue (ce_scheduler e)
            \<lparr>oi_priority = (if is_control_frame (f_type frame) then OP_control else OP_data),
             oi_channel = f_channel frame, oi_sequence = f_frame_seq frame, oi_encoded = encoded\<rparr>
      in (e\<lparr>ce_scheduler := s\<rparr>, r))"

definition flush_outbound :: "ConnectionEngine \<Rightarrow> nat \<Rightarrow> ConnectionEngine \<times> bytes list" where
  "flush_outbound e writable_bytes =
     (let (s, items) = drain (ce_scheduler e) writable_bytes
      in (e\<lparr>ce_scheduler := s\<rparr>, map oi_encoded items))"

definition emit :: "ConnectionEngine \<Rightarrow> Frame \<Rightarrow> ConnectionEngine \<times> bytes list result" where
  "emit e frame =
     (case encode_frame (fc_limits (ce_codec e)) frame of
        Inl err \<Rightarrow> (e, Inl err)
      | Inr encoded \<Rightarrow>
          (case record_frame (ce_replay e) 1 (f_frame_seq frame) encoded of
             (w, Inl err) \<Rightarrow> (e\<lparr>ce_replay := w\<rparr>, Inl err)
           | (w, Inr _) \<Rightarrow>
               (case queue_encoded (e\<lparr>ce_replay := w\<rparr>) frame encoded of
                  (e', Inl err) \<Rightarrow> (e', Inl err)
                | (e', Inr _) \<Rightarrow>
                    let (e'', out) = flush_outbound e' (lp_connection_window (ce_policy e'))
                    in (e'', Inr out))))"

text \<open>\<open>make_frame\<close> (which always succeeds) followed by \<open>emit\<close>, as every caller does.\<close>

definition emit_new ::
  "ConnectionEngine \<Rightarrow> FrameType \<Rightarrow> ChannelId \<Rightarrow> bytes \<Rightarrow> Extension list \<Rightarrow> ConnectionEngine \<times> bytes list result" where
  "emit_new e type channel payload extensions =
     (let (e', frame) = make_frame e type channel payload extensions in emit e' frame)"

section \<open>Local operations\<close>

definition local_hello :: "ConnectionEngine \<Rightarrow> HelloMessage" where
  "local_hello e = \<lparr>hm_min_major = lp_min_major (ce_policy e), hm_max_major = lp_max_major (ce_policy e),
     hm_limits = ce_policy e, hm_plugins = descriptors (ce_registry e)\<rparr>"

definition start :: "ConnectionEngine \<Rightarrow> ConnectionEngine \<times> bytes list result" where
  "start e =
     (if ce_state e \<noteq> CS_created then (e, Inl (state_error ''connection already started''))
      else case encode_hello_payload (local_hello e) of
        Inl err \<Rightarrow> (e, Inl err)
      | Inr payload \<Rightarrow>
          emit_new (schedule_timer TK_handshake control_channel kHandshakeTimeoutMs
                      (e\<lparr>ce_state := CS_negotiating\<rparr>))
            FT_hello control_channel payload [])"

definition family_negotiated :: "CapabilitySet \<Rightarrow> u32 \<Rightarrow> bool" where
  "family_negotiated caps family \<longleftrightarrow> list_ex (\<lambda>d. pd_family_id d = family) (cap_plugins caps)"

definition open_channel ::
  "ConnectionEngine \<Rightarrow> OpenRequest \<Rightarrow> ConnectionEngine \<times> (ChannelId \<times> bytes list) result" where
  "open_channel e request =
     (case ce_channels e of
        None \<Rightarrow> (e, Inl (state_error ''OPEN before negotiated Active state''))
      | Some channels \<Rightarrow>
          if ce_state e \<noteq> CS_active
          then (e, Inl (state_error ''OPEN before negotiated Active state''))
          else if \<not> family_negotiated (the (ce_capabilities e)) (or_family_id request)
          then (e, Inl (make_error ES_plugin EC_plugin_decode CA_reject_message
                          ''requested plugin family was not negotiated''))
          else
            (case allocate channels of
               (channels, Inl err) \<Rightarrow> (e\<lparr>ce_channels := Some channels\<rparr>, Inl err)
             | (channels, Inr cid) \<Rightarrow>
                 (case activate channels cid of
                    (channels, Inl err) \<Rightarrow> (e\<lparr>ce_channels := Some channels\<rparr>, Inl err)
                  | (channels, Inr _) \<Rightarrow>
                      (case emit_new (e\<lparr>ce_channels := Some channels\<rparr>) FT_open cid
                              (append_u32 (append_u32 [] (or_family_id request))
                                 (of_nat (or_initial_window request))) [] of
                         (e', Inl err) \<Rightarrow> (e', Inl err)
                       | (e', Inr bs) \<Rightarrow>
                           (push_event EK_channel_opened cid 0 [] e', Inr (cid, bs))))))"

text \<open>\<open>slot->flow\<close> and \<open>slot->reassembler\<close>, written through the pointer \<open>find\<close> returned.\<close>

definition set_flow :: "ConnectionEngine \<Rightarrow> ChannelId \<Rightarrow> FlowAccount \<Rightarrow> ConnectionEngine" where
  "set_flow e cid flow =
     (case ce_channels e of
        None \<Rightarrow> e
      | Some t \<Rightarrow> (case slot_index t cid of
                     None \<Rightarrow> e
                   | Some i \<Rightarrow> e\<lparr>ce_channels := Some (update_slot t cid ((ct_slots t ! i)\<lparr>cs_flow := flow\<rparr>))\<rparr>))"

definition release_flow :: "ConnectionEngine \<Rightarrow> ChannelId \<Rightarrow> nat \<Rightarrow> ConnectionEngine" where
  "release_flow e cid amount =
     (case ce_channels e of
        None \<Rightarrow> e
      | Some t \<Rightarrow> (case slot_index t cid of
                     None \<Rightarrow> e
                   | Some i \<Rightarrow> set_flow e cid (fst (flow_release (cs_flow (ct_slots t ! i)) amount))))"

definition fragment_extensions :: "u32 \<Rightarrow> nat \<Rightarrow> nat \<Rightarrow> Extension list" where
  "fragment_extensions sequence offset whole =
     [\<lparr>ext_type = kExtMessageSeq, ext_required = True, ext_value = u32_bytes sequence\<rparr>,
      \<lparr>ext_type = kExtFragmentOffset, ext_required = True, ext_value = u32_bytes (of_nat offset)\<rparr>,
      \<lparr>ext_type = kExtMessageTotal, ext_required = True, ext_value = u32_bytes (of_nat whole)\<rparr>,
      \<lparr>ext_type = kExtFamilyId, ext_required = True, ext_value = u32_bytes 7\<rparr>]"

definition max_fragment :: "CapabilitySet \<Rightarrow> nat" where
  "max_fragment caps = max 1 (cap_max_frame caps div 2)"

text \<open>The fragment loop of \<open>send\<close>; it stops at the first frame that cannot be emitted.\<close>

function send_loop ::
  "ConnectionEngine \<Rightarrow> ChannelId \<Rightarrow> u32 \<Rightarrow> bytes \<Rightarrow> nat \<Rightarrow> nat \<Rightarrow> bytes list \<Rightarrow> ConnectionEngine \<times> bytes list result" where
  "send_loop e cid sequence payload fragment offset out =
     (if offset < length payload \<and> 0 < fragment
      then
        let n = min fragment (length payload - offset)
        in case emit_new e FT_data cid (take n (drop offset payload))
                  (fragment_extensions sequence offset (length payload)) of
             (e', Inl err) \<Rightarrow> (e', Inl err)
           | (e', Inr encoded) \<Rightarrow>
               send_loop e' cid sequence payload fragment (offset + fragment) (out @ encoded)
      else (e, Inr out))"
  by pat_completeness auto
termination
  by (relation "measure (\<lambda>(e, cid, sequence, payload, fragment, offset, out). length payload - offset)")
    auto

declare send_loop.simps [simp del]

definition engine_send :: "ConnectionEngine \<Rightarrow> ChannelId \<Rightarrow> bytes \<Rightarrow> ConnectionEngine \<times> bytes list result" where
  "engine_send e cid payload =
     (case (ce_capabilities e, ce_channels e) of
        (Some caps, Some channels) \<Rightarrow>
          if ce_state e \<noteq> CS_active
          then (e, Inl (state_error ''DATA before negotiated Active state''))
          else
            (case find_slot channels cid of
               None \<Rightarrow> (e, Inl (make_error ES_channel EC_stale_generation CA_reset_channel
                                  ''send targets stale channel''))
             | Some slot \<Rightarrow>
                 if cs_local_half_closed slot
                 then (e, Inl (make_error ES_channel EC_illegal_state CA_reset_channel
                                 ''DATA after local half-close''))
                 else if length payload > cap_max_message caps
                 then (e, Inl (make_error ES_message EC_resource_limit CA_reject_message
                                 ''payload exceeds negotiated message cap''))
                 else
                   (case flow_reserve (cs_flow slot) (length payload) of
                      (flow, Inl err) \<Rightarrow> (set_flow e cid flow, Inl err)
                    | (flow, Inr _) \<Rightarrow>
                        let e1 = set_flow e cid flow in
                        (case reserve_send_sequence (the (ce_channels e1)) cid of
                           (channels', Inl err) \<Rightarrow>
                             (release_flow (e1\<lparr>ce_channels := Some channels'\<rparr>) cid (length payload),
                              Inl err)
                         | (channels', Inr sequence) \<Rightarrow>
                             (case send_loop (e1\<lparr>ce_channels := Some channels'\<rparr>) cid sequence payload
                                     (max_fragment caps) 0 [] of
                                (e2, r) \<Rightarrow> (release_flow e2 cid (length payload), r)))))
      | _ \<Rightarrow> (e, Inl (state_error ''DATA before negotiated Active state'')))"

definition grant_credit :: "ConnectionEngine \<Rightarrow> ChannelId \<Rightarrow> nat \<Rightarrow> ConnectionEngine \<times> bytes list result" where
  "grant_credit e cid amount = emit_new e FT_credit cid (append_u32 [] (of_nat amount)) []"

definition engine_acknowledge :: "ConnectionEngine \<Rightarrow> AckRange list \<Rightarrow> ConnectionEngine \<times> bytes list result" where
  "engine_acknowledge e ranges =
     (case encode_ack_payload 1 ranges of
        Inl err \<Rightarrow> (e, Inl err)
      | Inr payload \<Rightarrow> emit_new e FT_ack control_channel payload [])"

definition ping :: "ConnectionEngine \<Rightarrow> u64 \<Rightarrow> ConnectionEngine \<times> bytes list result" where
  "ping e token = emit_new e FT_ping control_channel (encode_u64_be token) []"

definition engine_resume :: "ConnectionEngine \<Rightarrow> ResumeRequest \<Rightarrow> ConnectionEngine \<times> bytes list result" where
  "engine_resume e request =
     (case encode_resume_payload request of
        Inl err \<Rightarrow> (e, Inl err)
      | Inr payload \<Rightarrow> emit_new e FT_resume control_channel payload [])"

definition complete_plugin :: "ConnectionEngine \<Rightarrow> PluginCompletion \<Rightarrow> ConnectionEngine \<times> unit result" where
  "complete_plugin e completion =
     (if (case ce_channels e of
            None \<Rightarrow> True
          | Some channels \<Rightarrow> find_slot channels (pc_channel completion) = None)
      then (e, Inr ())
      else if pc_token completion = 0 \<or> pc_family_id completion = 0
      then (e, Inl (make_error ES_plugin EC_plugin_decode CA_reject_message
                      ''plugin completion token is invalid''))
      else (push_event EK_plugin_response (pc_channel completion) (pc_sequence completion)
              (pc_response completion) e, Inr ()))"

text \<open>The closure submitted to the executor; destroying it afterwards releases its lease.\<close>

definition run_plugin_task :: "PluginTask \<Rightarrow> ConnectionEngine \<Rightarrow> ConnectionEngine \<times> unit result" where
  "run_plugin_task task e =
     (case (case pl_plugin (pt_lease task) (pt_completed task) of
              Inl err \<Rightarrow> (e, Inl err)
            | Inr response \<Rightarrow>
                complete_plugin e \<lparr>pc_token = pt_token task, pc_channel = pt_channel task,
                  pc_sequence = pt_sequence task, pc_family_id = pt_family_id task,
                  pc_response = response\<rparr>) of
        (e', r) \<Rightarrow> (e'\<lparr>ce_registry := release_lease (ce_registry e') (pt_lease task)\<rparr>, r))"

text \<open>\<open>drain_all\<close> of the executor, seen from the engine whose tasks it holds.\<close>

definition drain_executor :: "ConnectionEngine \<Rightarrow> ConnectionEngine \<times> unit result" where
  "drain_executor e =
     (case ce_executor e of
        None \<Rightarrow> (e, Inr ())
      | Some ex \<Rightarrow>
          (case drain_all (lift_task run_plugin_task) (ex, e) of
             None \<Rightarrow> (e, Inr ())
           | Some ((ex', e'), r) \<Rightarrow> (e'\<lparr>ce_executor := Some ex'\<rparr>, r)))"

section \<open>Timers\<close>

definition close_with :: "Error \<Rightarrow> ConnectionEngine \<Rightarrow> ConnectionEngine" where
  "close_with err e = (diagnostic err e)\<lparr>ce_state := CS_closed\<rparr>"

definition timeout_error :: "string \<Rightarrow> Error" where
  "timeout_error detail = make_error ES_connection EC_timeout CA_close_connection detail"

text \<open>One expired timer: the engine, and the bytes to add or the error to return.\<close>

definition fire_timer :: "ConnectionEngine \<Rightarrow> TimerEvent \<Rightarrow> ConnectionEngine \<times> bytes list result" where
  "fire_timer e0 timer =
     (let e = push_event EK_timer_expired (te_channel timer) 0 [] e0
      in if ce_state e = CS_closed then (e, Inr [])
         else case te_kind timer of
           TK_handshake \<Rightarrow>
             if ce_state e = CS_negotiating
             then (close_with (timeout_error ''handshake timeout'') e,
                   Inl (timeout_error ''handshake timeout''))
             else (e, Inr [])
         | TK_retry \<Rightarrow>
             (case due_for_retry (ce_replay e) 3 of
                (w, Inl err) \<Rightarrow> (e\<lparr>ce_replay := w\<rparr>, Inl err)
              | (w, Inr due) \<Rightarrow> (e\<lparr>ce_replay := w\<rparr>, Inr (map re_encoded due)))
         | TK_idle \<Rightarrow>
             let token = (if ce_now_ms e = 0 then 1 else ce_now_ms e)
             in (case ping (e\<lparr>ce_pending_pong_token := Some token\<rparr>) token of
                   (e', Inl err) \<Rightarrow> (e', Inl err)
                 | (e', Inr ping_bytes) \<Rightarrow>
                     (schedule_timer TK_idle control_channel kIdlePingMs
                        (schedule_timer TK_pong_deadline control_channel kPongTimeoutMs e'),
                      Inr ping_bytes))
         | TK_pong_deadline \<Rightarrow>
             if ce_pending_pong_token e \<noteq> None
             then (push_event EK_closed control_channel 0 [] (close_with (timeout_error ''PONG timeout'') e),
                   Inl (timeout_error ''PONG timeout''))
             else (e, Inr [])
         | TK_drain \<Rightarrow>
             if ce_state e = CS_draining
             then (push_event EK_closed control_channel 0 [] (e\<lparr>ce_state := CS_closed\<rparr>), Inr [])
             else (e, Inr [])
         | TK_fragment_gap \<Rightarrow>
             (case ce_channels e of
                None \<Rightarrow> (e, Inr [])
              | Some channels \<Rightarrow>
                  (push_event EK_channel_reset (te_channel timer) 0 []
                     (e\<lparr>ce_channels := Some (fst (reset_channel channels (te_channel timer)))\<rparr>),
                   Inr [])))"

fun advance_loop :: "ConnectionEngine \<Rightarrow> TimerEvent list \<Rightarrow> bytes list \<Rightarrow> ConnectionEngine \<times> bytes list result" where
  "advance_loop e [] out = (e, Inr out)"
| "advance_loop e (timer # timers) out =
     (case fire_timer e timer of
        (e', Inl err) \<Rightarrow> (e', Inl err)
      | (e', Inr bs) \<Rightarrow> advance_loop e' timers (out @ bs))"

definition advance_time :: "ConnectionEngine \<Rightarrow> u64 \<Rightarrow> ConnectionEngine \<times> bytes list result" where
  "advance_time e now_ms =
     (let (timers, expired) = expire (ce_timers e) now_ms
      in advance_loop (e\<lparr>ce_now_ms := now_ms, ce_timers := timers\<rparr>) expired [])"

section \<open>Snapshots and closing\<close>

definition export_replay_snapshot :: "ConnectionEngine \<Rightarrow> string result" where
  "export_replay_snapshot e = Inr (serialize_retained (ce_replay e))"

definition load_replay_snapshot :: "ConnectionEngine \<Rightarrow> string \<Rightarrow> ConnectionEngine \<times> unit result" where
  "load_replay_snapshot e snapshot =
     (if ce_state e \<noteq> CS_created
      then (e, Inl (state_error ''replay snapshot can only load before start''))
      else case restore_retained snapshot of
        Inl err \<Rightarrow> (e, Inl err)
      | Inr restored \<Rightarrow>
          let e' = e\<lparr>ce_replay := restored\<rparr>
          in case latest_sequence restored of
               None \<Rightarrow> (e'\<lparr>ce_next_frame_seq := 1\<rparr>, Inr ())
             | Some latest \<Rightarrow>
                 if latest = 0xFFFFFFFF
                 then (e', Inl (make_error ES_connection EC_resource_limit CA_close_connection
                                  ''replay snapshot frame sequence is exhausted''))
                 else (e'\<lparr>ce_next_frame_seq := latest + 1\<rparr>, Inr ()))"

definition engine_half_close ::
  "ConnectionEngine \<Rightarrow> ChannelId \<Rightarrow> Direction \<Rightarrow> ConnectionEngine \<times> bytes list result" where
  "engine_half_close e cid direction =
     (case ce_channels e of
        None \<Rightarrow> (e, Inl (state_error ''half-close before channel table exists''))
      | Some channels \<Rightarrow>
          (case half_close channels cid direction of
             (channels', Inl err) \<Rightarrow> (e\<lparr>ce_channels := Some channels'\<rparr>, Inl err)
           | (channels', Inr _) \<Rightarrow>
               let (e', frame) = make_frame (e\<lparr>ce_channels := Some channels'\<rparr>) FT_half_close cid
                     [if direction = Dir_local_send then 0 else 1] []
               in emit (push_event EK_half_closed cid 0 [] e') frame))"

definition engine_reset :: "ConnectionEngine \<Rightarrow> ChannelId \<Rightarrow> ConnectionEngine \<times> bytes list result" where
  "engine_reset e cid =
     (case ce_channels e of
        None \<Rightarrow> (e, Inl (state_error ''reset before channel table exists''))
      | Some channels \<Rightarrow>
          (case reset_channel channels cid of
             (channels', Inl err) \<Rightarrow> (e\<lparr>ce_channels := Some channels'\<rparr>, Inl err)
           | (channels', Inr _) \<Rightarrow>
               let (e', frame) = make_frame (e\<lparr>ce_channels := Some channels'\<rparr>) FT_reset cid [] []
               in emit (push_event EK_channel_reset cid 0 [] e') frame))"

definition goaway :: "ConnectionEngine \<Rightarrow> ConnectionEngine \<times> bytes list result" where
  "goaway e =
     emit_new (schedule_timer TK_drain control_channel kDrainTimeoutMs (e\<lparr>ce_state := CS_draining\<rparr>))
       FT_goaway control_channel [] []"

section \<open>Frame handlers\<close>

definition handle_hello :: "ConnectionEngine \<Rightarrow> Frame \<Rightarrow> ConnectionEngine \<times> bytes list result" where
  "handle_hello e frame =
     (if ce_state e \<noteq> CS_negotiating
      then (e, Inl (make_error ES_connection EC_illegal_state CA_close_connection ''unexpected HELLO''))
      else case decode_hello_payload (f_payload frame) of
        Inl err \<Rightarrow> (e, Inl err)
      | Inr peer \<Rightarrow>
          (case negotiate (local_hello e) peer of
             Inl err \<Rightarrow> (e, Inl err)
           | Inr caps \<Rightarrow>
               (push_event EK_negotiated control_channel 0 []
                  (schedule_timer TK_idle control_channel kIdlePingMs
                     (e\<lparr>ce_capabilities := Some caps,
                        ce_channels := Some (channel_table (cap_max_channels caps)
                          (cap_connection_window caps div unat (cap_max_channels caps))
                          (cap_max_message caps)),
                        ce_state := CS_active\<rparr>)), Inr [])))"

definition handle_open :: "ConnectionEngine \<Rightarrow> Frame \<Rightarrow> ConnectionEngine \<times> bytes list result" where
  "handle_open e frame =
     (if ce_state e \<noteq> CS_active \<or> ce_channels e = None \<or> length (f_payload frame) \<noteq> 8
      then (e, Inl (make_error ES_connection EC_illegal_state CA_close_connection
                      ''OPEN outside Active state or malformed''))
      else case read_u32_be (f_payload frame) 0 of
        Inl err \<Rightarrow> (e, Inl err)
      | Inr family \<Rightarrow>
          if \<not> family_negotiated (the (ce_capabilities e)) family
          then (e, Inl (make_error ES_plugin EC_plugin_decode CA_reset_channel
                          ''OPEN requested unnegotiated plugin family''))
          else
            (case accept_remote (the (ce_channels e)) (f_channel frame) of
               (channels, Inl err) \<Rightarrow> (e\<lparr>ce_channels := Some channels\<rparr>, Inl err)
             | (channels, Inr _) \<Rightarrow>
                 (push_event EK_channel_opened (f_channel frame) 0 [] (e\<lparr>ce_channels := Some channels\<rparr>),
                  Inr [])))"

text \<open>The end of \<open>handle_data\<close>: the completed message goes to a plugin lease, on the executor or
  at once. A refused task is destroyed and its lease with it. An empty factory throws: no function
  of the engine catches the exception, which passes through them to the caller of \<open>receive\<close> and
  is carried here by an error value that no code returns.\<close>

definition bad_function_call :: Error where
  "bad_function_call = make_error ES_internal EC_illegal_state CA_none ''std::bad_function_call''"

definition dispatch_message ::
  "ConnectionEngine \<Rightarrow> ChannelId \<Rightarrow> LogicalMessage \<Rightarrow> u32 \<Rightarrow> ConnectionEngine \<times> bytes list result" where
  "dispatch_message e channel completed family =
     (case create_lease (ce_registry e) family of
        None \<Rightarrow> (e, Inl bad_function_call)
      | Some (registry, Inl err) \<Rightarrow> (e\<lparr>ce_registry := registry\<rparr>, Inl err)
      | Some (registry, Inr lease) \<Rightarrow>
          let e1 = e\<lparr>ce_registry := registry, ce_next_plugin_token := ce_next_plugin_token e + 1\<rparr>;
              task = \<lparr>pt_lease = lease, pt_completed = completed,
                      pt_token = ce_next_plugin_token e, pt_channel = channel,
                      pt_sequence = lm_sequence completed, pt_family_id = family\<rparr>
          in case ce_executor e1 of
               Some ex \<Rightarrow>
                 (case submit ex (if de_shards ex = 0 then 0 else cid_number channel mod de_shards ex)
                         (Some task) of
                    (ex', Inl err) \<Rightarrow>
                      (e1\<lparr>ce_executor := Some ex',
                          ce_registry := release_lease (ce_registry e1) lease\<rparr>, Inl err)
                  | (ex', Inr _) \<Rightarrow> (e1\<lparr>ce_executor := Some ex'\<rparr>, Inr []))
             | None \<Rightarrow>
                 (case run_plugin_task task e1 of
                    (e2, Inl err) \<Rightarrow> (e2, Inl err)
                  | (e2, Inr _) \<Rightarrow> (e2, Inr [])))"

definition put_slot :: "ConnectionEngine \<Rightarrow> ChannelTable \<Rightarrow> ChannelId \<Rightarrow> ChannelSlot \<Rightarrow> ConnectionEngine" where
  "put_slot e t cid slot = e\<lparr>ce_channels := Some (update_slot t cid slot)\<rparr>"

text \<open>\<open>handle_data\<close> once the slot and the four extensions are there.\<close>

definition accept_fragment ::
  "ConnectionEngine \<Rightarrow> Frame \<Rightarrow> ChannelTable \<Rightarrow> ChannelSlot \<Rightarrow> u32 \<Rightarrow> u32 \<Rightarrow> u32 \<Rightarrow> u32 \<Rightarrow>
   ConnectionEngine \<times> bytes list result" where
  "accept_fragment e frame t slot seq offset whole family =
     (let channel = f_channel frame; n = length (f_payload frame) in
      if seq < cs_next_recv_seq slot
      then (e, Inl (make_error ES_message EC_sequence_error CA_reset_channel
                      ''DATA message sequence regressed''))
      else case flow_reserve (cs_flow slot) n of
        (flow, Inl err) \<Rightarrow> (put_slot e t channel (slot\<lparr>cs_flow := flow\<rparr>), Inl err)
      | (flow, Inr _) \<Rightarrow>
          (case reassembler_insert (cs_reassembler slot) channel seq offset whole (f_payload frame) of
             (ra, message) \<Rightarrow>
               let slot' = slot\<lparr>cs_flow := fst (flow_release flow n), cs_reassembler := ra\<rparr>;
                   e1 = put_slot e t channel slot'
               in (case message of
                     Inl err \<Rightarrow> (e1, Inl err)
                   | Inr None \<Rightarrow> (schedule_timer TK_fragment_gap channel 1000 e1, Inr [])
                   | Inr (Some completed) \<Rightarrow>
                       if lm_sequence completed \<noteq> cs_next_recv_seq slot'
                       then (e1, Inl (make_error ES_message EC_sequence_error CA_reset_channel
                                        ''DATA completed out of order''))
                       else dispatch_message
                              (push_event EK_message_delivered channel (lm_sequence completed)
                                 (lm_payload completed)
                                 (put_slot e t channel
                                    (slot'\<lparr>cs_next_recv_seq := cs_next_recv_seq slot' + 1\<rparr>)))
                              channel completed family)))"

definition handle_data :: "ConnectionEngine \<Rightarrow> Frame \<Rightarrow> ConnectionEngine \<times> bytes list result" where
  "handle_data e frame =
     (case ce_channels e of
        None \<Rightarrow> (e, Inl (make_error ES_connection EC_illegal_state CA_close_connection
                           ''DATA outside Active state''))
      | Some t \<Rightarrow>
          if ce_state e \<noteq> CS_active
          then (e, Inl (make_error ES_connection EC_illegal_state CA_close_connection
                          ''DATA outside Active state''))
          else
            (case find_slot t (f_channel frame) of
               None \<Rightarrow> (e, Inl (make_error ES_channel EC_stale_generation CA_reset_channel
                                  ''DATA targets stale generation''))
             | Some slot \<Rightarrow>
                 if cs_remote_half_closed slot
                 then (e, Inl (make_error ES_channel EC_illegal_state CA_reset_channel
                                 ''DATA after peer half-close''))
                 else
                   (case (extension_u32 frame kExtMessageSeq, extension_u32 frame kExtFragmentOffset,
                          extension_u32 frame kExtMessageTotal, extension_u32 frame kExtFamilyId) of
                      (Inr seq, Inr offset, Inr whole, Inr family) \<Rightarrow>
                        accept_fragment e frame t slot seq offset whole family
                    | _ \<Rightarrow> (e, Inl (make_error ES_message EC_malformed_tlv CA_reset_channel
                                     ''DATA missing required fragment extensions'')))))"

definition handle_credit :: "ConnectionEngine \<Rightarrow> Frame \<Rightarrow> ConnectionEngine \<times> bytes list result" where
  "handle_credit e frame =
     (case ce_channels e of
        None \<Rightarrow> (e, Inl (make_error ES_channel EC_illegal_state CA_reset_channel ''malformed CREDIT''))
      | Some t \<Rightarrow>
          if length (f_payload frame) \<noteq> 4
          then (e, Inl (make_error ES_channel EC_illegal_state CA_reset_channel ''malformed CREDIT''))
          else case read_u32_be (f_payload frame) 0 of
            Inl err \<Rightarrow> (e, Inl err)
          | Inr amount \<Rightarrow>
              (case find_slot t (f_channel frame) of
                 None \<Rightarrow> (e, Inl (make_error ES_channel EC_stale_generation CA_reset_channel
                                    ''CREDIT targets stale channel''))
               | Some slot \<Rightarrow>
                   (case flow_grant (cs_flow slot) (unat amount) of
                      (flow, Inl err) \<Rightarrow>
                        (put_slot e t (f_channel frame) (slot\<lparr>cs_flow := flow\<rparr>), Inl err)
                    | (flow, Inr _) \<Rightarrow>
                        (put_slot e t (f_channel frame) (slot\<lparr>cs_flow := flow\<rparr>), Inr []))))"

definition handle_ack :: "ConnectionEngine \<Rightarrow> Frame \<Rightarrow> ConnectionEngine \<times> bytes list result" where
  "handle_ack e frame =
     (if \<not> is_control (f_channel frame)
      then (e, Inl (make_error ES_connection EC_sequence_error CA_close_connection
                      ''ACK must use control channel''))
      else case decode_ack_payload (f_payload frame) of
        Inl err \<Rightarrow> (e, Inl err)
      | Inr (epoch, ranges) \<Rightarrow>
          (case acknowledge (ce_replay e) epoch ranges of
             (w, Inl err) \<Rightarrow> (e\<lparr>ce_replay := w\<rparr>, Inl err)
           | (w, Inr retired) \<Rightarrow> (e\<lparr>ce_replay := w\<rparr>, Inr [])))"

definition handle_ping :: "ConnectionEngine \<Rightarrow> Frame \<Rightarrow> ConnectionEngine \<times> bytes list result" where
  "handle_ping e frame =
     (if \<not> is_control (f_channel frame)
      then (e, Inl (make_error ES_connection EC_sequence_error CA_close_connection
                      ''PING must use control channel''))
      else case decode_u64_be (f_payload frame) of
        Inl err \<Rightarrow> (e, Inl err)
      | Inr token \<Rightarrow> emit_new e FT_pong control_channel (encode_u64_be token) [])"

definition handle_pong :: "ConnectionEngine \<Rightarrow> Frame \<Rightarrow> ConnectionEngine \<times> bytes list result" where
  "handle_pong e frame =
     (if \<not> is_control (f_channel frame)
      then (e, Inl (make_error ES_connection EC_sequence_error CA_close_connection
                      ''PONG must use control channel''))
      else case decode_u64_be (f_payload frame) of
        Inl err \<Rightarrow> (e, Inl err)
      | Inr token \<Rightarrow>
          let e' = (if ce_pending_pong_token e = Some token
                    then e\<lparr>ce_pending_pong_token := None\<rparr> else e)
          in (push_event EK_pong_received control_channel (ucast (token AND 0xFFFFFFFF)) [] e', Inr []))"

definition handle_resume :: "ConnectionEngine \<Rightarrow> Frame \<Rightarrow> ConnectionEngine \<times> bytes list result" where
  "handle_resume e frame =
     (if \<not> is_control (f_channel frame)
      then (e, Inl (make_error ES_connection EC_resume_rejected CA_close_connection
                      ''RESUME must use control channel''))
      else case decode_resume_payload (f_payload frame) of
        Inl err \<Rightarrow> (e, Inl err)
      | Inr request \<Rightarrow>
          if (case ce_capabilities e of
                None \<Rightarrow> True
              | Some caps \<Rightarrow> cap_transcript_hash caps \<noteq> rr_transcript_hash request)
          then (e, Inl (make_error ES_connection EC_resume_rejected CA_close_connection
                          ''RESUME transcript hash mismatch''))
          else
            (case can_resume (ce_replay e)
                    \<lparr>rp_transcript_hash = rr_transcript_hash request, rp_epoch = rr_epoch request,
                     rp_first_required_seq = rr_first_required_seq request\<rparr> of
               Inl err \<Rightarrow> (e, Inl err)
             | Inr _ \<Rightarrow>
                 (case retained_from (ce_replay e) (rr_epoch request) (rr_first_required_seq request) of
                    Inl err \<Rightarrow> (e, Inl err)
                  | Inr retained \<Rightarrow>
                      (push_event EK_resumed control_channel 0 [] (e\<lparr>ce_state := CS_active\<rparr>),
                       Inr (map re_encoded retained)))))"

definition handle_half_close :: "ConnectionEngine \<Rightarrow> Frame \<Rightarrow> ConnectionEngine \<times> bytes list result" where
  "handle_half_close e frame =
     (case ce_channels e of
        None \<Rightarrow> (e, Inl (make_error ES_channel EC_illegal_state CA_reset_channel ''malformed HALF_CLOSE''))
      | Some channels \<Rightarrow>
          if length (f_payload frame) \<noteq> 1
          then (e, Inl (make_error ES_channel EC_illegal_state CA_reset_channel ''malformed HALF_CLOSE''))
          else
            (case half_close channels (f_channel frame)
                    (if f_payload frame ! 0 = 0 then Dir_remote_send else Dir_local_send) of
               (channels', Inl err) \<Rightarrow> (e\<lparr>ce_channels := Some channels'\<rparr>, Inl err)
             | (channels', Inr _) \<Rightarrow>
                 (push_event EK_half_closed (f_channel frame) 0 [] (e\<lparr>ce_channels := Some channels'\<rparr>),
                  Inr [])))"

definition handle_reset :: "ConnectionEngine \<Rightarrow> Frame \<Rightarrow> ConnectionEngine \<times> bytes list result" where
  "handle_reset e frame =
     (let e' = (case ce_channels e of
                  None \<Rightarrow> e
                | Some channels \<Rightarrow>
                    e\<lparr>ce_channels := Some (fst (reset_channel channels (f_channel frame)))\<rparr>)
      in (push_event EK_channel_reset (f_channel frame) 0 [] e', Inr []))"

definition handle_goaway :: "ConnectionEngine \<Rightarrow> Frame \<Rightarrow> ConnectionEngine \<times> bytes list result" where
  "handle_goaway e frame =
     (push_event EK_closed (f_channel frame) 0 []
        (schedule_timer TK_drain control_channel kDrainTimeoutMs (e\<lparr>ce_state := CS_draining\<rparr>)), Inr [])"

definition handle_frame :: "ConnectionEngine \<Rightarrow> Frame \<Rightarrow> ConnectionEngine \<times> bytes list result" where
  "handle_frame e frame =
     (case f_type frame of
        FT_hello \<Rightarrow> handle_hello e frame
      | FT_open \<Rightarrow> handle_open e frame
      | FT_data \<Rightarrow> handle_data e frame
      | FT_ack \<Rightarrow> handle_ack e frame
      | FT_credit \<Rightarrow> handle_credit e frame
      | FT_ping \<Rightarrow> handle_ping e frame
      | FT_pong \<Rightarrow> handle_pong e frame
      | FT_resume \<Rightarrow> handle_resume e frame
      | FT_half_close \<Rightarrow> handle_half_close e frame
      | FT_reset \<Rightarrow> handle_reset e frame
      | FT_goaway \<Rightarrow> handle_goaway e frame)"

section \<open>Receiving\<close>

text \<open>What \<open>receive\<close> does with the error of a frame before it returns it; an exception goes by.\<close>

definition frame_failed :: "Error \<Rightarrow> ConnectionEngine \<Rightarrow> ConnectionEngine" where
  "frame_failed err e =
     (if err = bad_function_call then e
      else if err_action err = CA_close_connection then close_with err e
      else diagnostic err e)"

fun receive_loop ::
  "ConnectionEngine \<Rightarrow> DecodeEvent list \<Rightarrow> bytes list \<Rightarrow> ConnectionEngine \<times> bytes list result" where
  "receive_loop e [] outbound = (e, Inr outbound)"
| "receive_loop e (DE_need_more # events) outbound = receive_loop e events outbound"
| "receive_loop e (DE_error err # events) outbound = (close_with err e, Inl err)"
| "receive_loop e (DE_frame frame # events) outbound =
     (case handle_frame e frame of
        (e', Inl err) \<Rightarrow> (frame_failed err e', Inl err)
      | (e', Inr produced) \<Rightarrow> receive_loop e' events (outbound @ produced))"

definition receive :: "ConnectionEngine \<Rightarrow> bytes \<Rightarrow> bool \<Rightarrow> ConnectionEngine \<times> bytes list result" where
  "receive e bs eof =
     (let (codec, events) = feed (ce_codec e) bs eof
      in receive_loop (e\<lparr>ce_codec := codec\<rparr>) events [])"

end
