(* ===== verification/Engine_Invariant.thy ===== *)
theory Engine_Invariant
  imports Engine
begin

text \<open>
  What holds of a connection engine whatever its peer and its user do: the invariant of its
  channel table and of the event log, over every sequence of public operations. The lemmas go
  bottom up: emitting a frame leaves all but the frame counter, the replay window and the
  scheduler alone; each handler changes the table by at most one slot; so the log and the slots
  stay in step. The properties at the end are the negotiation gate, the order of deliveries, the
  neutrality of the credit accounts and what follows from them for CREDIT frames.
\<close>

section \<open>What emitting leaves alone\<close>

text \<open>The part of the engine that emission does not touch.\<close>

definition same_core :: "ConnectionEngine \<Rightarrow> ConnectionEngine \<Rightarrow> bool" where
  "same_core e e' \<longleftrightarrow> ce_policy e' = ce_policy e \<and> ce_registry e' = ce_registry e \<and>
     ce_executor e' = ce_executor e \<and> ce_codec e' = ce_codec e \<and> ce_state e' = ce_state e \<and>
     ce_capabilities e' = ce_capabilities e \<and> ce_channels e' = ce_channels e \<and>
     ce_timers e' = ce_timers e \<and> ce_now_ms e' = ce_now_ms e \<and>
     ce_pending_pong_token e' = ce_pending_pong_token e \<and> ce_events e' = ce_events e"

lemma same_core_refl [simp]: "same_core e e"
  by (simp add: same_core_def)

lemma same_core_trans: "same_core a b \<Longrightarrow> same_core b c \<Longrightarrow> same_core a c"
  by (simp add: same_core_def)

lemma same_core_emit: "same_core e (fst (emit e frame))"
  by (auto simp: same_core_def emit_def queue_encoded_def flush_outbound_def
      split: sum.splits prod.splits)

lemma same_core_emit_new: "same_core e (fst (emit_new e type channel payload extensions))"
proof -
  have "same_core e (e\<lparr>ce_next_frame_seq := ce_next_frame_seq e + 1\<rparr>)" by (simp add: same_core_def)
  from same_core_trans[OF this same_core_emit] show ?thesis
    by (simp add: emit_new_def make_frame_def)
qed

lemma emit_new_core: "emit_new e type channel payload extensions = (e', r) \<Longrightarrow> same_core e e'"
  using same_core_emit_new[of e type channel payload extensions] by simp

lemma send_loop_core:
  "same_core e (fst (send_loop e cid sequence payload fragment offset out))"
proof (induction e cid sequence payload fragment offset out rule: send_loop.induct)
  case (1 e cid sequence payload fragment offset out)
  show ?case
  proof (cases "offset < length payload \<and> 0 < fragment")
    case False
    then show ?thesis by (subst send_loop.simps) auto
  next
    case True
    obtain e' r where em: "emit_new e FT_data cid (take (min fragment (length payload - offset)) (drop offset payload))
        (fragment_extensions sequence offset (length payload)) = (e', r)" by fastforce
    note step = emit_new_core[OF em]
    show ?thesis
    proof (cases r)
      case (Inl err)
      then show ?thesis using True em step by (subst send_loop.simps) simp
    next
      case (Inr encoded)
      have "same_core e' (fst (send_loop e' cid sequence payload fragment (offset + fragment) (out @ encoded)))"
        using 1 True em[symmetric] Inr by blast
      then show ?thesis using True em Inr same_core_trans[OF step]
        by (subst send_loop.simps) (simp add: Let_def)
    qed
  qed
qed

section \<open>Slots\<close>

definition credit_full :: "ChannelSlot \<Rightarrow> bool" where
  "credit_full slot \<longleftrightarrow> fa_reserved (cs_flow slot) = 0 \<and> fa_available (cs_flow slot) = fa_window (cs_flow slot)"

text \<open>One operation of the engine on its table: at most one slot changes, by a transition that
  keeps it well formed and its credit full, never frees it, and restarts or keeps its receive
  sequence.\<close>

definition slot_move :: "ChannelTable \<Rightarrow> nat \<Rightarrow> ChannelSlot \<Rightarrow> ChannelSlot \<Rightarrow> bool" where
  "slot_move t i slot slot' \<longleftrightarrow> slot_ok t i slot' \<and> credit_full slot' \<and> cs_state slot' \<noteq> CH_free \<and>
     (if cs_state slot = CH_free then cs_next_recv_seq slot' = 1
      else cs_next_recv_seq slot' = cs_next_recv_seq slot)"

definition table_move :: "ChannelTable \<Rightarrow> ChannelTable \<Rightarrow> bool" where
  "table_move t t' \<longleftrightarrow> t' = t \<or> (\<exists>i slot'. i < length (ct_slots t) \<and>
     slot_move t i (ct_slots t ! i) slot' \<and> t' = t\<lparr>ct_slots := (ct_slots t)[i := slot']\<rparr>)"

definition table_full :: "ChannelTable \<Rightarrow> bool" where
  "table_full t \<longleftrightarrow> table_ok t \<and> list_all credit_full (ct_slots t)"

lemma table_move_refl [simp]: "table_move t t"
  by (simp add: table_move_def)

lemma slot_step_move:
  assumes "slot_step t slot slot'" "slot_ok t i slot" "credit_full slot" "table_ok t"
    and "cs_state slot' \<noteq> CH_free"
  shows "slot_move t i slot slot'"
  using assms(1) slot_step_ok[OF assms(1,2,4)] assms(3,5)
  by (cases rule: slot_step.cases)
    (auto simp: slot_move_def credit_full_def flow_account_def opened_slot_def slot_live_def)

lemma list_update_changed:
  "xs[k := y] ! i \<noteq> xs ! i \<Longrightarrow> k = i \<and> i < length xs \<and> xs[k := y] ! i = y"
  by (metis list_update_beyond not_le nth_list_update_eq nth_list_update_neq)

lemma channel_apply_not_free:
  assumes "op = Ch_allocate \<or> (\<exists>cid. op = Ch_accept cid) \<or> (\<exists>cid. op = Ch_activate cid) \<or>
      (\<exists>cid. op = Ch_reserve_sequence cid) \<or> (\<exists>cid d. op = Ch_half_close cid d) \<or> (\<exists>cid. op = Ch_reset cid)"
    and "i < length (ct_slots t)" "ct_slots (channel_apply t op) ! i \<noteq> ct_slots t ! i"
  shows "cs_state (ct_slots (channel_apply t op) ! i) \<noteq> CH_free"
  using assms
  by (auto simp: allocate_def accept_remote_def activate_def reserve_send_sequence_def half_close_def
      reset_channel_def Let_def find_slot_Some update_slot_index slot_live_def opened_slot_def
      dest!: list_update_changed split: option.splits if_splits)

lemma channel_apply_move:
  assumes "table_full t" "op = Ch_allocate \<or> (\<exists>cid. op = Ch_accept cid) \<or> (\<exists>cid. op = Ch_activate cid) \<or>
      (\<exists>cid. op = Ch_reserve_sequence cid) \<or> (\<exists>cid d. op = Ch_half_close cid d) \<or> (\<exists>cid. op = Ch_reset cid)"
  shows "table_move t (channel_apply t op)"
proof (cases "channel_apply t op = t")
  case False
  have ok: "table_ok t" using assms(1) by (simp add: table_full_def)
  from channel_apply_step[OF ok, of op] False obtain i slot' where i: "i < length (ct_slots t)"
    and step: "slot_step t (ct_slots t ! i) slot'"
    and t': "channel_apply t op = t\<lparr>ct_slots := (ct_slots t)[i := slot']\<rparr>"
    by (auto simp: table_step_def)
  have "slot' \<noteq> ct_slots t ! i" using False t' by auto
  then have "cs_state slot' \<noteq> CH_free"
    using channel_apply_not_free[OF assms(2) i] t' i by simp
  then have "slot_move t i (ct_slots t ! i) slot'"
    using slot_step_move[OF step _ _ ok] ok assms(1) i
    by (simp add: table_ok_def table_full_def list_all_length)
  then show ?thesis using i t' by (auto simp: table_move_def)
qed simp

lemma table_move_full: "table_full t \<Longrightarrow> table_move t t' \<Longrightarrow> table_full t'"
proof (unfold table_move_def, elim disjE exE conjE)
  fix i slot' assume full: "table_full t" and i: "i < length (ct_slots t)"
    and move: "slot_move t i (ct_slots t ! i) slot'" and t': "t' = t\<lparr>ct_slots := (ct_slots t)[i := slot']\<rparr>"
  show "table_full t'" using full i move
    by (auto simp: table_full_def table_ok_def t' nth_list_update slot_ok_def slot_move_def list_all_length)
qed simp

lemma table_full_new:
  "window \<le> SIZE_MAX \<Longrightarrow> max_message \<le> SIZE_MAX \<Longrightarrow> table_full (channel_table n window max_message)"
  using table_ok_new[of window max_message n]
  by (auto simp: table_full_def channel_table_def new_slot_def credit_full_def
      flow_account_def list_all_length)

lemma reserve_release:
  assumes "flow_ok flow" "flow_reserve flow n = (flow', Inr ())"
  shows "fst (flow_release flow' n) = flow"
  using flow.restore_acquired[OF assms] by simp

lemma reserve_fails: "flow_reserve flow n = (flow', Inl err) \<Longrightarrow> flow' = flow"
  by (auto simp: flow_reserve_def split: if_splits)

section \<open>The event log\<close>

definition kinds :: "ConnectionEvent list \<Rightarrow> EventKind set" where
  "kinds evs = ev_kind ` set evs"

fun channel_kind :: "EventKind \<Rightarrow> bool" where
  "channel_kind EK_channel_opened = True"
| "channel_kind EK_message_delivered = True"
| "channel_kind EK_plugin_response = True"
| "channel_kind _ = False"

definition gated :: "ConnectionEvent list \<Rightarrow> bool" where
  "gated evs \<longleftrightarrow> (\<forall>i < length evs. channel_kind (ev_kind (evs ! i)) \<longrightarrow>
     (\<exists>j < i. ev_kind (evs ! j) = EK_negotiated))"

text \<open>The sequence numbers of the messages delivered on a channel number, in log order.\<close>

definition delivered :: "u32 \<Rightarrow> ConnectionEvent list \<Rightarrow> u32 list" where
  "delivered n evs = map ev_sequence
     (filter (\<lambda>ev. ev_kind ev = EK_message_delivered \<and> cid_number (ev_channel ev) = n) evs)"

lemma delivered_simps [simp]:
  "delivered n [] = []"
  "delivered n (evs @ [ev]) = delivered n evs @
     (if ev_kind ev = EK_message_delivered \<and> cid_number (ev_channel ev) = n then [ev_sequence ev] else [])"
  by (simp_all add: delivered_def)

lemma kinds_simps [simp]: "kinds [] = {}" "kinds (evs @ [ev]) = insert (ev_kind ev) (kinds evs)"
  by (auto simp: kinds_def)

lemma gated_append:
  "gated (evs @ [ev]) \<longleftrightarrow> gated evs \<and> (channel_kind (ev_kind ev) \<longrightarrow> EK_negotiated \<in> kinds evs)"
proof -
  have member: "EK_negotiated \<in> kinds evs \<longleftrightarrow> (\<exists>j < length evs. ev_kind (evs ! j) = EK_negotiated)"
    by (force simp: kinds_def in_set_conv_nth)
  have prefix: "(\<exists>j < i. ev_kind ((evs @ [ev]) ! j) = EK_negotiated) \<longleftrightarrow>
      (\<exists>j < i. ev_kind (evs ! j) = EK_negotiated)" if "i \<le> length evs" for i
    using that by (metis less_le_trans nth_append)
  show ?thesis
    unfolding gated_def member length_append_singleton All_less_Suc
    using prefix by (auto simp: nth_append)
qed

text \<open>A slot and the log agree: the messages delivered on its number are the first ones, in order,
  the next one expected is the one after them, and a slot never opened has delivered none.\<close>

definition slot_log :: "nat \<Rightarrow> ChannelSlot \<Rightarrow> ConnectionEvent list \<Rightarrow> bool" where
  "slot_log i slot evs \<longleftrightarrow>
     (let ds = delivered (of_nat (Suc i)) evs
      in ds = map (\<lambda>k. of_nat (k + 1)) [0..<length ds] \<and>
         cs_next_recv_seq slot = of_nat (length ds + 1) \<and> (cs_state slot = CH_free \<longrightarrow> ds = []))"

definition engine_ok :: "ConnectionEngine \<Rightarrow> bool" where
  "engine_ok e \<longleftrightarrow>
     lp_connection_window (ce_policy e) \<le> SIZE_MAX \<and> lp_max_message (ce_policy e) \<le> SIZE_MAX \<and>
     (ce_capabilities e = None \<longleftrightarrow> ce_channels e = None) \<and>
     (ce_state e = CS_active \<longrightarrow> ce_capabilities e \<noteq> None) \<and>
     (ce_state e = CS_created \<or> ce_state e = CS_negotiating \<longrightarrow> ce_capabilities e = None) \<and>
     gated (ce_events e) \<and>
     (ce_channels e = None \<longrightarrow> (\<forall>n. delivered n (ce_events e) = [])) \<and>
     (\<forall>t. ce_channels e = Some t \<longrightarrow> EK_negotiated \<in> kinds (ce_events e) \<and> table_full t \<and>
        (\<forall>i < length (ct_slots t). slot_log i (ct_slots t ! i) (ce_events e)) \<and>
        (\<forall>n. n = 0 \<or> length (ct_slots t) < unat n \<longrightarrow> delivered n (ce_events e) = []))"

definition same_view :: "ConnectionEngine \<Rightarrow> ConnectionEngine \<Rightarrow> bool" where
  "same_view e e' \<longleftrightarrow> ce_policy e' = ce_policy e \<and> ce_state e' = ce_state e \<and>
     ce_capabilities e' = ce_capabilities e \<and> ce_channels e' = ce_channels e \<and>
     ce_events e' = ce_events e"

lemma same_core_view: "same_core e e' \<Longrightarrow> same_view e e'"
  by (simp add: same_core_def same_view_def)

lemma engine_ok_same_view: "same_view e e' \<Longrightarrow> engine_ok e' = engine_ok e"
  unfolding same_view_def engine_ok_def by (elim conjE) (simp only:)

lemma engine_ok_view: "same_view e e' \<Longrightarrow> engine_ok e \<Longrightarrow> engine_ok e'"
  using engine_ok_same_view by blast

lemma engine_ok_updates [simp]:
  "engine_ok (e\<lparr>ce_registry := rg\<rparr>) = engine_ok e" "engine_ok (e\<lparr>ce_executor := ex\<rparr>) = engine_ok e"
  "engine_ok (e\<lparr>ce_codec := c\<rparr>) = engine_ok e" "engine_ok (e\<lparr>ce_replay := w\<rparr>) = engine_ok e"
  "engine_ok (e\<lparr>ce_timers := tw\<rparr>) = engine_ok e" "engine_ok (e\<lparr>ce_scheduler := s\<rparr>) = engine_ok e"
  "engine_ok (e\<lparr>ce_next_frame_seq := q\<rparr>) = engine_ok e"
  "engine_ok (e\<lparr>ce_next_plugin_token := tok\<rparr>) = engine_ok e"
  "engine_ok (e\<lparr>ce_now_ms := m\<rparr>) = engine_ok e"
  "engine_ok (e\<lparr>ce_pending_pong_token := p\<rparr>) = engine_ok e"
  by (simp_all add: engine_ok_def)

lemma engine_ok_schedule [simp]: "engine_ok (schedule_timer kind channel delay e) = engine_ok e"
  by (simp add: schedule_timer_def)

lemma engine_ok_emit_new:
  "engine_ok e \<Longrightarrow> engine_ok (fst (emit_new e type channel payload extensions))"
  using same_core_emit_new same_core_view engine_ok_view by blast

lemma engine_ok_emit: "engine_ok e \<Longrightarrow> engine_ok (fst (emit e frame))"
  using same_core_emit same_core_view engine_ok_view by blast

lemma engine_ok_event:
  "engine_ok e \<Longrightarrow> kind \<noteq> EK_message_delivered \<Longrightarrow> channel_kind kind \<longrightarrow> ce_channels e \<noteq> None \<Longrightarrow>
   engine_ok (push_event kind channel sequence payload e)"
  by (auto simp: engine_ok_def push_event_def gated_append slot_log_def)

lemma engine_ok_diagnostic: "engine_ok e \<Longrightarrow> engine_ok (diagnostic err e)"
  by (auto simp: engine_ok_def diagnostic_def gated_append slot_log_def)

lemma engine_ok_stop:
  "engine_ok e \<Longrightarrow> engine_ok (e\<lparr>ce_state := CS_closed\<rparr>)" "engine_ok e \<Longrightarrow> engine_ok (e\<lparr>ce_state := CS_draining\<rparr>)"
  by (simp_all add: engine_ok_def)

lemma engine_ok_close: "engine_ok e \<Longrightarrow> engine_ok (close_with err e)"
  by (simp add: close_with_def engine_ok_stop engine_ok_diagnostic)

lemma engine_ok_move:
  assumes "engine_ok e" "ce_channels e = Some t" "table_move t t'"
  shows "engine_ok (e\<lparr>ce_channels := Some t'\<rparr>)"
proof -
  have full: "table_full t'" using assms table_move_full by (auto simp: engine_ok_def)
  have logs: "\<forall>i < length (ct_slots t). slot_log i (ct_slots t ! i) (ce_events e)"
    using assms(1,2) by (simp add: engine_ok_def)
  have len: "length (ct_slots t') = length (ct_slots t)" using assms(3) by (auto simp: table_move_def)
  have "\<forall>i < length (ct_slots t'). slot_log i (ct_slots t' ! i) (ce_events e)"
  proof (intro allI impI)
    fix i assume i: "i < length (ct_slots t')"
    have old: "slot_log i (ct_slots t ! i) (ce_events e)" using logs i len by simp
    show "slot_log i (ct_slots t' ! i) (ce_events e)"
    proof (cases "ct_slots t' ! i = ct_slots t ! i")
      case False
      then have "slot_move t i (ct_slots t ! i) (ct_slots t' ! i)"
        using assms(3) i by (auto simp: table_move_def dest!: list_update_changed)
      then show ?thesis using old by (auto simp: slot_move_def slot_log_def Let_def split: if_splits)
    qed (use old in simp)
  qed
  then show ?thesis using assms(1,2) full len by (auto simp: engine_ok_def)
qed

lemmas engine_ok_intros =
  engine_ok_emit_new engine_ok_emit engine_ok_event engine_ok_diagnostic engine_ok_stop engine_ok_close

lemma engine_ok_new:
  "lp_connection_window policy \<le> SIZE_MAX \<Longrightarrow> lp_max_message policy \<le> SIZE_MAX \<Longrightarrow>
   engine_ok (connection_engine policy registry executor)"
  by (simp add: engine_ok_def connection_engine_def gated_def)

section \<open>Every public operation keeps the invariant\<close>

lemma engine_ok_keep: "engine_ok e \<Longrightarrow> ce_channels e = Some t \<Longrightarrow> engine_ok (e\<lparr>ce_channels := Some t\<rparr>)"
  using engine_ok_move[of e t t] by simp

lemma engine_ok_table: "engine_ok e \<Longrightarrow> ce_channels e = Some t \<Longrightarrow> table_full t"
  by (simp add: engine_ok_def)

lemma table_op_moves:
  assumes "table_full t"
  shows "table_move t (fst (allocate t))" "table_move t (fst (accept_remote t cid))"
    "table_move t (fst (activate t cid))" "table_move t (fst (reserve_send_sequence t cid))"
    "table_move t (fst (half_close t cid d))" "table_move t (fst (reset_channel t cid))"
  using channel_apply_move[OF assms, of Ch_allocate] channel_apply_move[OF assms, of "Ch_accept cid"]
    channel_apply_move[OF assms, of "Ch_activate cid"]
    channel_apply_move[OF assms, of "Ch_reserve_sequence cid"]
    channel_apply_move[OF assms, of "Ch_half_close cid d"] channel_apply_move[OF assms, of "Ch_reset cid"]
  by simp_all

lemma engine_ok_table_op:
  assumes "engine_ok e" "ce_channels e = Some t" "op t = (t', r)" "table_full t \<Longrightarrow> table_move t (fst (op t))"
  shows "engine_ok (e\<lparr>ce_channels := Some t'\<rparr>)"
  using engine_ok_move[OF assms(1,2), of t'] assms(3,4) engine_ok_table[OF assms(1,2)] by simp

lemma engine_ok_start: "engine_ok e \<Longrightarrow> engine_ok (fst (start e))"
proof -
  assume ok: "engine_ok e"
  have "engine_ok (e\<lparr>ce_state := CS_negotiating\<rparr>)" if "ce_state e = CS_created"
    using ok that by (auto simp: engine_ok_def)
  then show ?thesis using ok by (auto simp: start_def intro!: engine_ok_emit_new split: sum.split)
qed

lemma engine_ok_emit_result: "engine_ok e \<Longrightarrow> emit_new e type channel payload exts = (e', r) \<Longrightarrow> engine_ok e'"
  using engine_ok_emit_new[of e type channel payload exts] by simp

lemma engine_ok_open_channel: "engine_ok e \<Longrightarrow> engine_ok (fst (open_channel e request))"
proof -
  assume ok: "engine_ok e"
  show ?thesis
  proof (cases "ce_channels e")
    case None
    then show ?thesis using ok by (simp add: open_channel_def)
  next
    case (Some t)
    obtain t1 r1 where a: "allocate t = (t1, r1)" by fastforce
    have ok1: "engine_ok (e\<lparr>ce_channels := Some t1\<rparr>)"
      using engine_ok_table_op[of e t allocate, OF ok Some a] table_op_moves(1) by blast
    show ?thesis
    proof (cases r1)
      case (Inl err)
      then show ?thesis using ok ok1 Some a by (simp add: open_channel_def)
    next
      case (Inr cid)
      obtain t2 r2 where b: "activate t1 cid = (t2, r2)" by fastforce
      have ok2: "engine_ok (e\<lparr>ce_channels := Some t2\<rparr>)"
        using engine_ok_table_op[of "e\<lparr>ce_channels := Some t1\<rparr>" t1 "\<lambda>t. activate t cid", OF ok1 _ b]
          table_op_moves(3) by simp
      obtain e3 r3 where em: "emit_new (e\<lparr>ce_channels := Some t2\<rparr>) FT_open cid
          (append_u32 (append_u32 [] (or_family_id request)) (of_nat (or_initial_window request))) [] = (e3, r3)"
        by fastforce
      have ok3: "engine_ok e3" by (rule engine_ok_emit_result[OF ok2 em])
      have "ce_channels e3 = Some t2" using emit_new_core[OF em] by (simp add: same_core_def)
      then show ?thesis using ok ok1 ok2 ok3 Some a Inr b em
        by (auto simp: open_channel_def intro!: engine_ok_event split: sum.split)
    qed
  qed
qed

lemma send_restores:
  assumes "find_slot t cid = Some slot" "flow_ok (cs_flow slot)"
    and "flow_reserve (cs_flow slot) n = (flow, Inr ())"
    and "reserve_send_sequence (update_slot t cid (slot\<lparr>cs_flow := flow\<rparr>)) cid = (t2, r)"
    and "ce_channels e2 = Some t2"
  shows "release_flow e2 cid n = e2\<lparr>ce_channels := Some (fst (reserve_send_sequence t cid))\<rparr>"
    and "snd (reserve_send_sequence t cid) = r"
proof -
  obtain i where i: "slot_index t cid = Some i" "slot = ct_slots t ! i"
    "cid_generation (cs_id slot) = cid_generation cid" "slot_live slot"
    using assms(1) by (auto simp: find_slot_Some)
  have len: "i < length (ct_slots t)" using i(1) by (simp add: slot_index_Some)
  let ?t1 = "t\<lparr>ct_slots := (ct_slots t)[i := slot\<lparr>cs_flow := flow\<rparr>]\<rparr>"
  have i1: "slot_index (t\<lparr>ct_slots := (ct_slots t)[i := x]\<rparr>) cid = Some i" for x
    using i(1) by (simp add: slot_index_Some)
  have t1: "update_slot t cid (slot\<lparr>cs_flow := flow\<rparr>) = ?t1" by (rule update_slot_index[OF i(1)])
  have f1: "find_slot ?t1 cid = Some (slot\<lparr>cs_flow := flow\<rparr>)"
    using i len by (simp add: find_slot_Some i1 slot_live_def)
  have rel: "fst (flow_release flow n) = cs_flow slot" by (rule reserve_release[OF assms(2,3)])
  have same: "(ct_slots t)[i := slot] = ct_slots t" using i(2) len by simp
  have upd: "(ct_slots t)[i := slot\<lparr>cs_next_send_seq := q, cs_flow := cs_flow slot\<rparr>] =
      (ct_slots t)[i := slot\<lparr>cs_next_send_seq := q\<rparr>]" for q by simp
  show "snd (reserve_send_sequence t cid) = r"
    using assms(1,4) f1 t1 by (auto simp: reserve_send_sequence_def)
  show "release_flow e2 cid n = e2\<lparr>ce_channels := Some (fst (reserve_send_sequence t cid))\<rparr>"
    using assms(1,4,5) f1 t1 i(1) i1 len same rel upd
    by (auto simp: reserve_send_sequence_def release_flow_def set_flow_def update_slot_index
        split: if_splits)
qed

lemma slot_of_full:
  "table_full t \<Longrightarrow> find_slot t cid = Some slot \<Longrightarrow> flow_ok (cs_flow slot) \<and> credit_full slot"
  by (auto simp: table_full_def table_ok_def find_slot_Some slot_index_Some slot_ok_def list_all_length)

lemma set_flow_update:
  "ce_channels e = Some t \<Longrightarrow> find_slot t cid = Some slot \<Longrightarrow>
   set_flow e cid flow = e\<lparr>ce_channels := Some (update_slot t cid (slot\<lparr>cs_flow := flow\<rparr>))\<rparr>"
  by (auto simp: set_flow_def find_slot_Some)

lemma update_slot_same: "find_slot t cid = Some slot \<Longrightarrow> update_slot t cid slot = t"
  by (auto simp: find_slot_Some update_slot_index slot_index_Some)

lemma engine_ok_send_live:
  assumes ok: "engine_ok e" and ch: "ce_channels e = Some t" and live: "find_slot t cid = Some slot"
    and res: "flow_reserve (cs_flow slot) n = (flow, Inr ())"
    and seq: "reserve_send_sequence (the (ce_channels (set_flow e cid flow))) cid = (t2, r)"
    and core: "same_core (set_flow e cid flow\<lparr>ce_channels := Some t2\<rparr>) e2"
  shows "engine_ok (release_flow e2 cid n)"
proof -
  have fl: "flow_ok (cs_flow slot)" using slot_of_full[OF engine_ok_table[OF ok ch] live] by simp
  note sf = set_flow_update[OF ch live, of flow]
  have seq': "reserve_send_sequence (update_slot t cid (slot\<lparr>cs_flow := flow\<rparr>)) cid = (t2, r)"
    using seq sf by simp
  have ch2: "ce_channels e2 = Some t2" using core by (simp add: same_core_def)
  have "engine_ok (e\<lparr>ce_channels := Some (fst (reserve_send_sequence t cid))\<rparr>)"
    using engine_ok_move[OF ok ch table_op_moves(4)[OF engine_ok_table[OF ok ch]]] .
  moreover have "same_view (e\<lparr>ce_channels := Some (fst (reserve_send_sequence t cid))\<rparr>)
      (release_flow e2 cid n)"
    using core by (simp add: send_restores(1)[OF live fl res seq' ch2] same_view_def same_core_def sf)
  ultimately show ?thesis using engine_ok_view by blast
qed

lemma engine_ok_send: "engine_ok e \<Longrightarrow> engine_ok (fst (engine_send e cid payload))"
proof -
  assume ok: "engine_ok e"
  show ?thesis
  proof (cases "\<exists>caps t slot. ce_capabilities e = Some caps \<and> ce_channels e = Some t \<and>
      ce_state e = CS_active \<and> find_slot t cid = Some slot \<and> \<not> cs_local_half_closed slot \<and>
      length payload \<le> cap_max_message caps")
    case False
    then have "fst (engine_send e cid payload) = e"
      by (auto simp: engine_send_def split: option.splits)
    then show ?thesis using ok by simp
  next
    case True
    then obtain caps t slot where g: "ce_capabilities e = Some caps" "ce_channels e = Some t"
      "ce_state e = CS_active" "find_slot t cid = Some slot" "\<not> cs_local_half_closed slot"
      "length payload \<le> cap_max_message caps" by blast
    obtain flow r where res: "flow_reserve (cs_flow slot) (length payload) = (flow, r)" by fastforce
    show ?thesis
    proof (cases r)
      case (Inl err)
      then have "flow = cs_flow slot" using res reserve_fails by blast
      then have "fst (engine_send e cid payload) = e\<lparr>ce_channels := Some t\<rparr>"
        using g res Inl by (simp add: engine_send_def set_flow_update update_slot_same)
      then show ?thesis using engine_ok_keep[OF ok g(2)] by simp
    next
      case (Inr u)
      then have res': "flow_reserve (cs_flow slot) (length payload) = (flow, Inr ())" using res by simp
      obtain t2 r2 where seq: "reserve_send_sequence (the (ce_channels (set_flow e cid flow))) cid = (t2, r2)"
        by fastforce
      note step = engine_ok_send_live[OF ok g(2) g(4) res' seq]
      show ?thesis
      proof (cases r2)
        case (Inl err)
        then show ?thesis using g res' seq step[OF same_core_refl] by (simp add: engine_send_def)
      next
        case (Inr sequence)
        let ?s = "send_loop (set_flow e cid flow\<lparr>ce_channels := Some t2\<rparr>) cid sequence payload
            (max_fragment caps) 0 []"
        have "fst (engine_send e cid payload) = release_flow (fst ?s) cid (length payload)"
          using g res' seq Inr by (simp add: engine_send_def split: prod.split)
        then show ?thesis using step[OF send_loop_core] by simp
      qed
    qed
  qed
qed

lemma engine_ok_send_ops:
  assumes "engine_ok e"
  shows "engine_ok (fst (grant_credit e cid amount))" "engine_ok (fst (engine_acknowledge e ranges))"
    "engine_ok (fst (ping e token))" "engine_ok (fst (engine_resume e request))"
    "engine_ok (fst (flush_outbound e n))" "engine_ok (fst (goaway e))"
    "engine_ok (fst (load_replay_snapshot e snap))"
  using assms
  by (auto simp: grant_credit_def engine_acknowledge_def ping_def engine_resume_def flush_outbound_def
      goaway_def load_replay_snapshot_def Let_def intro!: engine_ok_intros split: sum.split prod.split option.split)

lemma emit_pushed:
  "engine_ok e \<Longrightarrow> ce_channels e \<noteq> None \<Longrightarrow> kind \<noteq> EK_message_delivered \<Longrightarrow>
   make_frame e type cid payload exts = (e', frame) \<Longrightarrow>
   engine_ok (fst (emit (push_event kind channel sequence bs e') frame))"
  by (auto simp: make_frame_def intro!: engine_ok_intros)

lemma engine_ok_half_close: "engine_ok e \<Longrightarrow> engine_ok (fst (engine_half_close e cid d))"
proof (cases "ce_channels e")
  case (Some t)
  assume ok: "engine_ok e"
  obtain t' r where hc: "half_close t cid d = (t', r)" by fastforce
  have "engine_ok (e\<lparr>ce_channels := Some t'\<rparr>)"
    using engine_ok_table_op[of e t "\<lambda>t. half_close t cid d", OF ok Some hc] table_op_moves(5) by blast
  then show ?thesis using Some hc
    by (auto simp: engine_half_close_def make_frame_def intro!: engine_ok_intros split: sum.split)
qed (simp add: engine_half_close_def)

lemma engine_ok_reset: "engine_ok e \<Longrightarrow> engine_ok (fst (engine_reset e cid))"
proof (cases "ce_channels e")
  case (Some t)
  assume ok: "engine_ok e"
  obtain t' r where hc: "reset_channel t cid = (t', r)" by fastforce
  have "engine_ok (e\<lparr>ce_channels := Some t'\<rparr>)"
    using engine_ok_table_op[of e t "\<lambda>t. reset_channel t cid", OF ok Some hc] table_op_moves(6) by blast
  then show ?thesis using Some hc
    by (auto simp: engine_reset_def make_frame_def intro!: engine_ok_intros split: sum.split)
qed (simp add: engine_reset_def)

lemma engine_ok_complete: "engine_ok e \<Longrightarrow> engine_ok (fst (complete_plugin e completion))"
  by (auto simp: complete_plugin_def intro!: engine_ok_intros split: option.split)

lemma engine_ok_plugin_task: "engine_ok e \<Longrightarrow> engine_ok (fst (run_plugin_task task e))"
  using engine_ok_complete[of e]
  by (auto simp: run_plugin_task_def split: sum.split prod.split) (metis fst_conv)+

lemma engine_ok_drain: "engine_ok e \<Longrightarrow> engine_ok (fst (drain_executor e))"
proof (cases "ce_executor e")
  case (Some ex)
  assume ok: "engine_ok e"
  have "engine_ok (snd (fst (run_in_order run_plugin_task q e)))" for q
    using ok
  proof (induction q arbitrary: e)
    case (Cons task q)
    then show ?case using engine_ok_plugin_task[OF Cons.prems, of "et_run task"]
      by (auto split: sum.split prod.split)
  qed simp
  from this[of "de_queue ex"] show ?thesis using Some
    by (auto simp: drain_executor_def drain_all_lift split: prod.split)
qed (simp add: drain_executor_def)

lemma engine_ok_reset_at:
  "engine_ok e \<Longrightarrow> ce_channels e = Some t \<Longrightarrow>
   engine_ok (e\<lparr>ce_channels := Some (fst (reset_channel t cid))\<rparr>)"
  using engine_ok_move table_op_moves(6) engine_ok_table by blast

lemma engine_ok_ping_result: "engine_ok e \<Longrightarrow> ping e token = (e', r) \<Longrightarrow> engine_ok e'"
  using engine_ok_send_ops(3)[of e token] by simp

lemma engine_ok_fire: "engine_ok e \<Longrightarrow> engine_ok (fst (fire_timer e timer))"
proof -
  assume "engine_ok e"
  then have ok: "engine_ok (push_event EK_timer_expired (te_channel timer) 0 [] e)" (is "engine_ok ?e")
    by (auto intro: engine_ok_event)
  have ping: "engine_ok e'" if "ping (?e\<lparr>ce_pending_pong_token := p\<rparr>) token = (e', r)" for p token e' r
    using engine_ok_ping_result[OF _ that] ok by simp
  show ?thesis
    unfolding fire_timer_def Let_def using ok ping
    by (auto intro!: engine_ok_intros engine_ok_reset_at split: TimerKind.split sum.split prod.split option.split)
qed

lemma engine_ok_advance_loop: "engine_ok e \<Longrightarrow> engine_ok (fst (advance_loop e timers out))"
proof (induction e timers out rule: advance_loop.induct)
  case (2 e timer timers out)
  then show ?case using engine_ok_fire[of e timer] by (auto split: prod.split sum.split)
qed simp

lemma engine_ok_advance: "engine_ok e \<Longrightarrow> engine_ok (fst (advance_time e now))"
  by (auto simp: advance_time_def intro!: engine_ok_advance_loop split: prod.split)

section \<open>Every frame handler keeps the invariant\<close>

lemma engine_ok_hello: "engine_ok e \<Longrightarrow> engine_ok (fst (handle_hello e frame))"
proof -
  assume ok: "engine_ok e"
  have none: "ce_capabilities e = None" "ce_channels e = None" "\<forall>n. delivered n (ce_events e) = []"
    if "ce_state e = CS_negotiating" using ok that by (auto simp: engine_ok_def)
  have win: "cap_connection_window caps div n \<le> SIZE_MAX" "cap_max_message caps \<le> SIZE_MAX"
    if "negotiate (local_hello e) peer = Inr caps" for caps peer n
  proof -
    have "caps = agreed (local_hello e) peer" using that by (simp add: negotiate_when)
    then have "cap_connection_window caps \<le> lp_connection_window (ce_policy e)"
      "cap_max_message caps \<le> lp_max_message (ce_policy e)"
      by (simp_all add: agreed_def Let_def local_hello_def)
    moreover have "lp_connection_window (ce_policy e) \<le> SIZE_MAX \<and> lp_max_message (ce_policy e) \<le> SIZE_MAX"
      using ok by (simp add: engine_ok_def)
    ultimately show "cap_connection_window caps div n \<le> SIZE_MAX" "cap_max_message caps \<le> SIZE_MAX"
      using div_le_dividend[of "cap_connection_window caps" n] by linarith+
  qed
  have fresh: "slot_log i (ct_slots (channel_table m w k) ! i) (ce_events e @ [ev])"
    if "i < length (ct_slots (channel_table m w k))" "ce_state e = CS_negotiating"
      "ev_kind ev = EK_negotiated" for i m w k ev
    using that none by (simp add: slot_log_def channel_table_def new_slot_def)
  have "engine_ok (push_event EK_negotiated control_channel 0 []
          (schedule_timer TK_idle control_channel kIdlePingMs
             (e\<lparr>ce_capabilities := Some caps,
                ce_channels := Some (channel_table (cap_max_channels caps)
                  (cap_connection_window caps div unat (cap_max_channels caps)) (cap_max_message caps)),
                ce_state := CS_active\<rparr>)))"
    if "ce_state e = CS_negotiating" "negotiate (local_hello e) peer = Inr caps" for caps peer
    using ok none[OF that(1)] fresh[OF _ that(1)] table_full_new[OF win[OF that(2)]]
    by (simp add: engine_ok_def push_event_def schedule_timer_def gated_append)
  then show ?thesis using ok by (auto simp: handle_hello_def split: sum.split)
qed

lemma engine_ok_handle_open: "engine_ok e \<Longrightarrow> engine_ok (fst (handle_open e frame))"
proof (cases "ce_channels e")
  case (Some t)
  assume ok: "engine_ok e"
  obtain t' r where a: "accept_remote t (f_channel frame) = (t', r)" by fastforce
  have "engine_ok (e\<lparr>ce_channels := Some t'\<rparr>)"
    using engine_ok_table_op[of e t "\<lambda>t. accept_remote t (f_channel frame)", OF ok Some a]
      table_op_moves(2) by blast
  then show ?thesis using Some a ok
    by (auto simp: handle_open_def intro!: engine_ok_intros split: sum.split)
qed (simp add: handle_open_def)

lemma engine_ok_handle_half_close: "engine_ok e \<Longrightarrow> engine_ok (fst (handle_half_close e frame))"
proof (cases "ce_channels e")
  case (Some t)
  assume ok: "engine_ok e"
  let ?d = "if f_payload frame ! 0 = 0 then Dir_remote_send else Dir_local_send"
  obtain t' r where a: "half_close t (f_channel frame) ?d = (t', r)" by fastforce
  have "engine_ok (e\<lparr>ce_channels := Some t'\<rparr>)"
    using engine_ok_table_op[of e t "\<lambda>t. half_close t (f_channel frame) ?d", OF ok Some a]
      table_op_moves(5) by blast
  then show ?thesis using Some a ok
    by (auto simp: handle_half_close_def intro!: engine_ok_intros split: sum.split)
qed (simp add: handle_half_close_def)

lemma engine_ok_handle_reset: "engine_ok e \<Longrightarrow> engine_ok (fst (handle_reset e frame))"
  by (auto simp: handle_reset_def Let_def intro!: engine_ok_intros engine_ok_reset_at split: option.split)

lemma engine_ok_handle_goaway: "engine_ok e \<Longrightarrow> engine_ok (fst (handle_goaway e frame))"
  by (auto simp: handle_goaway_def intro!: engine_ok_intros)

lemma engine_ok_handle_ack: "engine_ok e \<Longrightarrow> engine_ok (fst (handle_ack e frame))"
  by (auto simp: handle_ack_def split: sum.split prod.split)

lemma engine_ok_handle_ping: "engine_ok e \<Longrightarrow> engine_ok (fst (handle_ping e frame))"
  by (auto simp: handle_ping_def intro!: engine_ok_intros split: sum.split)

lemma engine_ok_handle_pong: "engine_ok e \<Longrightarrow> engine_ok (fst (handle_pong e frame))"
  by (auto simp: handle_pong_def Let_def intro!: engine_ok_intros split: sum.split)

lemma engine_ok_activate:
  "engine_ok e \<Longrightarrow> ce_capabilities e \<noteq> None \<Longrightarrow> engine_ok (e\<lparr>ce_state := CS_active\<rparr>)"
  by (auto simp: engine_ok_def)

lemma engine_ok_handle_resume: "engine_ok e \<Longrightarrow> engine_ok (fst (handle_resume e frame))"
  by (auto simp: handle_resume_def intro!: engine_ok_intros engine_ok_activate
      split: sum.split option.split)

lemma grant_when_full:
  assumes "flow_ok a" "fa_reserved a = 0" "fa_available a = fa_window a" "n \<le> SIZE_MAX"
  shows "\<exists>err. flow_grant a n = (a, Inl err)"
  using assms
  by (auto simp: flow_grant_def flow_ok_def checked_add_if)

lemma u32_size: "unat (n :: u32) \<le> SIZE_MAX"
  using unat_u32_less[of n] by (simp add: SIZE_MAX_def)

lemma grant_live_slot:
  assumes "engine_ok e" "ce_channels e = Some t" "find_slot t cid = Some slot"
  shows "\<exists>err. flow_grant (cs_flow slot) (unat (n :: u32)) = (cs_flow slot, Inl err)"
  using slot_of_full[OF engine_ok_table[OF assms(1,2)] assms(3)] grant_when_full[OF _ _ _ u32_size]
  by (simp add: credit_full_def)

lemma handle_credit_same:
  assumes ok: "engine_ok e"
  shows "\<exists>err. handle_credit e frame = (e, Inl err)"
proof (cases "ce_channels e")
  case None
  then show ?thesis by (simp add: handle_credit_def)
next
  case ch: (Some t)
  then have same: "e\<lparr>ce_channels := Some t\<rparr> = e" by simp
  show ?thesis
  proof (cases "read_u32_be (f_payload frame) 0")
    case (Inl err)
    then show ?thesis using ch by (simp add: handle_credit_def)
  next
    case (Inr amount)
    show ?thesis
    proof (cases "find_slot t (f_channel frame)")
      case None
      then show ?thesis using ch Inr by (simp add: handle_credit_def)
    next
      case (Some slot)
      obtain err where "flow_grant (cs_flow slot) (unat amount) = (cs_flow slot, Inl err)"
        using grant_live_slot[OF ok ch Some] by blast
      then show ?thesis
        using ch Inr Some same by (simp add: handle_credit_def put_slot_def update_slot_same)
    qed
  qed
qed

lemma engine_ok_handle_credit: "engine_ok e \<Longrightarrow> engine_ok (fst (handle_credit e frame))"
  using handle_credit_same[of e frame] by auto

lemma credit_full_bracket:
  assumes "flow_ok (cs_flow slot)" "flow_reserve (cs_flow slot) n = (flow, Inr ())"
  shows "fst (flow_release flow n) = cs_flow slot"
  using reserve_release[OF assms] .

lemma found_slot:
  assumes "table_full t" "find_slot t cid = Some slot"
  obtains i where "slot_index t cid = Some i" "i < length (ct_slots t)" "slot = ct_slots t ! i"
    "slot_ok t i slot" "credit_full slot" "slot_live slot" "cid_number cid = of_nat (Suc i)"
    "update_slot t cid = (\<lambda>slot'. t\<lparr>ct_slots := (ct_slots t)[i := slot']\<rparr>)"
proof -
  obtain i where i: "slot_index t cid = Some i" "slot = ct_slots t ! i" "slot_live slot"
    using assms(2) by (auto simp: find_slot_Some)
  then have len: "i < length (ct_slots t)" "unat (cid_number cid) = Suc i" by (simp_all add: slot_index_Some)
  have "cid_number cid = of_nat (Suc i)" using len(2) by (metis of_nat_unat ucast_id)
  then show ?thesis
    using that[OF i(1) len(1) i(2) _ _ i(3)] assms(1) i len update_slot_index[OF i(1)]
    by (simp add: table_full_def table_ok_def list_all_length fun_eq_iff)
qed

lemma fragment_slot_move:
  assumes "table_full t" "find_slot t cid = Some slot"
    and "reassembler_insert (cs_reassembler slot) channel seq offset whole bs = (ra, message)"
  shows "table_move t (update_slot t cid (slot\<lparr>cs_reassembler := ra\<rparr>))"
proof -
  obtain i where i: "slot_index t cid = Some i" "i < length (ct_slots t)" "slot = ct_slots t ! i"
    "slot_ok t i slot" "credit_full slot" "slot_live slot" "cid_number cid = of_nat (Suc i)"
    "update_slot t cid = (\<lambda>slot'. t\<lparr>ct_slots := (ct_slots t)[i := slot']\<rparr>)"
    using found_slot[OF assms(1,2)] .
  have "reassembler_ok ra \<and> ra_max_message ra = ra_max_message (cs_reassembler slot)"
    using insert_ok[of "cs_reassembler slot" channel seq offset whole bs] i(4) assms(3)
      insert_max[of "cs_reassembler slot" channel seq offset whole bs] by (simp add: slot_ok_def)
  then have "slot_move t i slot (slot\<lparr>cs_reassembler := ra\<rparr>)"
    using i(4-6) by (simp add: slot_move_def slot_ok_def credit_full_def slot_live_def)
  then show ?thesis unfolding i(8) table_move_def using i(2,3) by blast
qed

text \<open>A delivery: the slot's receive sequence and the log advance together.\<close>

lemma slot_log_deliver:
  assumes "slot_log i slot evs" "cs_state slot \<noteq> CH_free" "cs_state slot' \<noteq> CH_free"
    and "cs_next_recv_seq slot' = cs_next_recv_seq slot + 1"
    and "ev_kind ev = EK_message_delivered" "cid_number (ev_channel ev) = of_nat (Suc i)"
    and "ev_sequence ev = cs_next_recv_seq slot"
  shows "slot_log i slot' (evs @ [ev])"
  using assms by (simp add: slot_log_def Let_def)

lemma slot_log_other:
  assumes "slot_log i slot evs" "cid_number (ev_channel ev) \<noteq> of_nat (Suc i)"
  shows "slot_log i slot (evs @ [ev])"
  using assms by (simp add: slot_log_def Let_def del: of_nat_Suc)

lemma of_nat_slot_inj:
  "i < 2 ^ 16 \<Longrightarrow> j < 2 ^ 16 \<Longrightarrow> (of_nat (Suc i) :: u32) = of_nat (Suc j) \<longleftrightarrow> i = j"
  by (simp only: word_of_nat_eq_iff take_bit_nat_def) simp

lemma engine_ok_deliver:
  assumes ok: "engine_ok e" and ch: "ce_channels e = Some t" and live: "find_slot t cid = Some slot"
    and full: "slot_ok t (unat (cid_number cid) - 1) slot'" "credit_full slot'"
      "cs_state slot' = cs_state slot" "cs_next_recv_seq slot' = cs_next_recv_seq slot + 1"
  shows "engine_ok (push_event EK_message_delivered cid (cs_next_recv_seq slot) bs (put_slot e t cid slot'))"
proof -
  note tf = engine_ok_table[OF ok ch]
  obtain i where i: "slot_index t cid = Some i" "i < length (ct_slots t)" "slot = ct_slots t ! i"
    "slot_ok t i slot" "credit_full slot" "slot_live slot" "cid_number cid = of_nat (Suc i)"
    "update_slot t cid = (\<lambda>slot'. t\<lparr>ct_slots := (ct_slots t)[i := slot']\<rparr>)"
    using found_slot[OF tf live] .
  define t' where "t' = t\<lparr>ct_slots := (ct_slots t)[i := slot']\<rparr>"
  define ev where "ev = \<lparr>ev_kind = EK_message_delivered, ev_channel = cid,
    ev_sequence = cs_next_recv_seq slot, ev_payload = bs, ev_error = None\<rparr>"
  have num: "unat (cid_number cid) = Suc i" using i(1) by (simp add: slot_index_Some)
  have small: "length (ct_slots t) < 2 ^ 16" using tf by (simp add: table_full_def table_ok_def)
  have ok': "slot_ok t i slot'" using full(1) num by simp
  have tf': "table_full t'"
    using tf ok' full(2) i(2)
    by (auto simp: t'_def table_full_def table_ok_def nth_list_update slot_ok_def list_all_length)
  have logs: "slot_log j (ct_slots t ! j) (ce_events e)" if "j < length (ct_slots t)" for j
    using ok ch that by (simp add: engine_ok_def)
  have logs': "\<forall>j < length (ct_slots t'). slot_log j (ct_slots t' ! j) (ce_events e @ [ev])"
  proof (intro allI impI)
    fix j assume "j < length (ct_slots t')"
    then have j: "j < length (ct_slots t)" by (simp add: t'_def)
    show "slot_log j (ct_slots t' ! j) (ce_events e @ [ev])"
    proof (cases "j = i")
      case True
      then show ?thesis
        using slot_log_deliver[of i slot "ce_events e" slot' ev] logs[OF i(2)] i full
        by (simp add: t'_def ev_def slot_live_def del: of_nat_Suc)
    next
      case False
      then have "cid_number (ev_channel ev) \<noteq> of_nat (Suc j)"
        using of_nat_slot_inj[of i j] i(2,7) j small by (simp add: ev_def del: of_nat_Suc)
      then show ?thesis using slot_log_other[OF logs[OF j]] False by (simp add: t'_def del: of_nat_Suc)
    qed
  qed
  have beyond: "\<forall>n. n = 0 \<or> length (ct_slots t') < unat n \<longrightarrow> delivered n (ce_events e @ [ev]) = []"
    using ok ch num i(2) by (auto simp: engine_ok_def t'_def ev_def)
  have "push_event EK_message_delivered cid (cs_next_recv_seq slot) bs (put_slot e t cid slot') =
      e\<lparr>ce_channels := Some t', ce_events := ce_events e @ [ev]\<rparr>"
    by (simp add: push_event_def put_slot_def i(8) t'_def ev_def)
  then show ?thesis using ok ch tf' logs' beyond
    by (simp add: engine_ok_def gated_append)
qed

lemma engine_ok_dispatch: "engine_ok e \<Longrightarrow> engine_ok (fst (dispatch_message e channel completed family))"
proof -
  assume ok: "engine_ok e"
  have task: "engine_ok e2" if "run_plugin_task task e1 = (e2, r)" "engine_ok e1" for task e1 e2 r
    using engine_ok_plugin_task[of e1 task] that by simp
  show ?thesis
    unfolding dispatch_message_def Let_def using ok
    by (auto split: sum.split prod.split option.split dest!: task)
qed

lemma fragment_unreserved: "flow_reserve (cs_flow slot) n = (flow, Inl err) \<Longrightarrow> slot\<lparr>cs_flow := flow\<rparr> = slot"
  using reserve_fails by fastforce

text \<open>A fragment whose credit could be reserved: the credit is given back, so only the
  reassembler and, on completion, the receive sequence of the slot change.\<close>

lemma accept_fragment_reserved:
  assumes "flow_ok (cs_flow slot)" "\<not> seq < cs_next_recv_seq slot"
    and "flow_reserve (cs_flow slot) (length (f_payload frame)) = (flow, Inr ())"
    and "reassembler_insert (cs_reassembler slot) (f_channel frame) seq offset whole (f_payload frame)
      = (ra, message)"
  shows "accept_fragment e frame t slot seq offset whole family =
    (case message of
       Inl err \<Rightarrow> (put_slot e t (f_channel frame) (slot\<lparr>cs_reassembler := ra\<rparr>), Inl err)
     | Inr None \<Rightarrow> (schedule_timer TK_fragment_gap (f_channel frame) 1000
                       (put_slot e t (f_channel frame) (slot\<lparr>cs_reassembler := ra\<rparr>)), Inr [])
     | Inr (Some completed) \<Rightarrow>
         if lm_sequence completed \<noteq> cs_next_recv_seq slot
         then (put_slot e t (f_channel frame) (slot\<lparr>cs_reassembler := ra\<rparr>),
               Inl (make_error ES_message EC_sequence_error CA_reset_channel ''DATA completed out of order''))
         else dispatch_message
                (push_event EK_message_delivered (f_channel frame) (lm_sequence completed)
                   (lm_payload completed)
                   (put_slot e t (f_channel frame)
                      (slot\<lparr>cs_reassembler := ra, cs_next_recv_seq := cs_next_recv_seq slot + 1\<rparr>)))
                (f_channel frame) completed family)"
proof -
  have slot': "slot\<lparr>cs_flow := fst (flow_release flow (length (f_payload frame))), cs_reassembler := ra\<rparr> =
      slot\<lparr>cs_reassembler := ra\<rparr>"
    using reserve_release[OF assms(1,3)] by simp
  show ?thesis
    unfolding accept_fragment_def Let_def assms(3,4) prod.case sum.case slot' using assms(2)
    by (simp split: sum.split option.split)
qed

lemma engine_ok_fragment:
  assumes ok: "engine_ok e" and ch: "ce_channels e = Some t" and live: "find_slot t (f_channel frame) = Some slot"
  shows "engine_ok (fst (accept_fragment e frame t slot seq offset whole family))"
proof -
  note tf = engine_ok_table[OF ok ch]
  let ?n = "length (f_payload frame)"
  obtain i where i: "slot_index t (f_channel frame) = Some i" "slot = ct_slots t ! i"
    "slot_ok t i slot" "credit_full slot"
    using found_slot[OF tf live] by metis
  have num: "unat (cid_number (f_channel frame)) - 1 = i" using i(1) by (simp add: slot_index_Some)
  obtain flow r where res: "flow_reserve (cs_flow slot) ?n = (flow, r)" by fastforce
  obtain ra message where ins: "reassembler_insert (cs_reassembler slot) (f_channel frame) seq offset whole
      (f_payload frame) = (ra, message)" by fastforce
  have keep: "engine_ok (put_slot e t (f_channel frame) slot)"
    using engine_ok_keep[OF ok ch] by (simp add: put_slot_def update_slot_same[OF live])
  show ?thesis
  proof (cases "seq < cs_next_recv_seq slot \<or> (\<exists>err. r = Inl err)")
    case True
    then show ?thesis using ok keep res fragment_unreserved[of slot]
      by (auto simp: accept_fragment_def Let_def)
  next
    case False
    then have r: "r = Inr ()" and seq: "\<not> seq < cs_next_recv_seq slot" by (cases r; simp)+
    let ?slot = "slot\<lparr>cs_reassembler := ra\<rparr>"
    have ok1: "engine_ok (put_slot e t (f_channel frame) ?slot)"
      using engine_ok_move[OF ok ch fragment_slot_move[OF tf live ins]] by (simp add: put_slot_def)
    have ra: "reassembler_ok ra \<and> ra_max_message ra = ra_max_message (cs_reassembler slot)"
      using insert_ok[of "cs_reassembler slot" "f_channel frame" seq offset whole "f_payload frame"]
        insert_max[of "cs_reassembler slot" "f_channel frame" seq offset whole "f_payload frame"] i(3) ins
      by (simp add: slot_ok_def)
    have ok2: "engine_ok (push_event EK_message_delivered (f_channel frame) (cs_next_recv_seq slot) bs
        (put_slot e t (f_channel frame) (?slot\<lparr>cs_next_recv_seq := cs_next_recv_seq slot + 1\<rparr>)))" for bs
      using i(3,4) ra by (intro engine_ok_deliver[OF ok ch live])
        (simp_all add: num[simplified] slot_ok_def credit_full_def)
    note body = accept_fragment_reserved[OF _ seq res[unfolded r] ins]
    show ?thesis unfolding body[OF slot_of_full[OF tf live, THEN conjunct1]]
      using ok1 engine_ok_dispatch[OF ok2]
      by (auto split: sum.split option.split)
  qed
qed

lemma engine_ok_handle_data: "engine_ok e \<Longrightarrow> engine_ok (fst (handle_data e frame))"
  by (auto simp: handle_data_def intro: engine_ok_fragment split: option.split sum.split)

lemmas engine_ok_handlers =
  engine_ok_hello engine_ok_handle_open engine_ok_handle_data engine_ok_handle_credit
  engine_ok_handle_ack engine_ok_handle_ping engine_ok_handle_pong engine_ok_handle_resume
  engine_ok_handle_half_close engine_ok_handle_reset engine_ok_handle_goaway

lemma engine_ok_frame: "engine_ok e \<Longrightarrow> engine_ok (fst (handle_frame e frame))"
  by (cases "f_type frame") (simp_all add: handle_frame_def engine_ok_handlers)

lemma engine_ok_receive_loop: "engine_ok e \<Longrightarrow> engine_ok (fst (receive_loop e events out))"
proof (induction e events out rule: receive_loop.induct)
  case (4 e frame events out)
  then show ?case using engine_ok_frame[of e frame]
    by (auto simp: frame_failed_def intro!: engine_ok_intros split: prod.split sum.split)
qed (auto intro!: engine_ok_intros)

lemma engine_ok_receive: "engine_ok e \<Longrightarrow> engine_ok (fst (receive e bs eof))"
  by (auto simp: receive_def intro!: engine_ok_receive_loop split: prod.split)

section \<open>Histories\<close>

text \<open>The public operations of the engine, as a user and a peer may call them in any order.\<close>

datatype EngineOp =
    Op_start | Op_receive bytes bool | Op_open OpenRequest | Op_send ChannelId bytes
  | Op_grant ChannelId nat | Op_ack "AckRange list" | Op_ping u64 | Op_resume ResumeRequest
  | Op_complete PluginCompletion | Op_drain | Op_advance u64 | Op_flush nat | Op_load string
  | Op_half_close ChannelId Direction | Op_reset ChannelId | Op_goaway

fun engine_apply :: "ConnectionEngine \<Rightarrow> EngineOp \<Rightarrow> ConnectionEngine" where
  "engine_apply e Op_start = fst (start e)"
| "engine_apply e (Op_receive bs eof) = fst (receive e bs eof)"
| "engine_apply e (Op_open request) = fst (open_channel e request)"
| "engine_apply e (Op_send cid payload) = fst (engine_send e cid payload)"
| "engine_apply e (Op_grant cid amount) = fst (grant_credit e cid amount)"
| "engine_apply e (Op_ack ranges) = fst (engine_acknowledge e ranges)"
| "engine_apply e (Op_ping token) = fst (ping e token)"
| "engine_apply e (Op_resume request) = fst (engine_resume e request)"
| "engine_apply e (Op_complete completion) = fst (complete_plugin e completion)"
| "engine_apply e Op_drain = fst (drain_executor e)"
| "engine_apply e (Op_advance now) = fst (advance_time e now)"
| "engine_apply e (Op_flush n) = fst (flush_outbound e n)"
| "engine_apply e (Op_load snapshot) = fst (load_replay_snapshot e snapshot)"
| "engine_apply e (Op_half_close cid direction) = fst (engine_half_close e cid direction)"
| "engine_apply e (Op_reset cid) = fst (engine_reset e cid)"
| "engine_apply e Op_goaway = fst (goaway e)"

lemma engine_ok_apply: "engine_ok e \<Longrightarrow> engine_ok (engine_apply e op)"
  by (cases op)
    (simp_all add: engine_ok_start engine_ok_receive engine_ok_open_channel engine_ok_send
      engine_ok_send_ops engine_ok_complete engine_ok_drain engine_ok_advance engine_ok_half_close
      engine_ok_reset)

definition run_engine :: "ConnectionEngine \<Rightarrow> EngineOp list \<Rightarrow> ConnectionEngine" where
  "run_engine e ops = foldl engine_apply e ops"

definition policy_fits :: "LocalPolicy \<Rightarrow> bool" where
  "policy_fits policy \<longleftrightarrow> lp_connection_window policy \<le> SIZE_MAX \<and> lp_max_message policy \<le> SIZE_MAX"

lemma engine_history_ok:
  "policy_fits policy \<Longrightarrow> engine_ok (run_engine (connection_engine policy registry executor) ops)"
proof -
  have "engine_ok e \<Longrightarrow> engine_ok (foldl engine_apply e ops)" for e
    by (induction ops arbitrary: e) (simp_all add: engine_ok_apply)
  then show "policy_fits policy \<Longrightarrow> ?thesis"
    by (simp add: run_engine_def policy_fits_def engine_ok_new)
qed

section \<open>Properties of every history\<close>

text \<open>Property C3. Whatever the user and the peer do, in any order, the engine is consistent: it is
  active only with a negotiated capability set and a channel table, it has the one exactly when
  it has the other, every slot of the table is well formed (its half-close flags agree with its
  state, its reassembler is within budget), and every credit account is whole again.\<close>

theorem engine_consistent:
  assumes "policy_fits policy" "e = run_engine (connection_engine policy registry executor) ops"
  shows "(ce_state e = CS_active \<longrightarrow> ce_capabilities e \<noteq> None) \<and>
    (ce_capabilities e = None \<longleftrightarrow> ce_channels e = None) \<and>
    (\<forall>t. ce_channels e = Some t \<longrightarrow> table_ok t \<and> list_all credit_full (ct_slots t))"
  using engine_history_ok[OF assms(1), of registry executor ops]
  unfolding assms(2) engine_ok_def table_full_def by blast

text \<open>Property C5. Nothing happens on a channel before the handshake: in every log, each event that
  reports an opened channel, a delivered message or a plugin's response has a negotiated event
  before it.\<close>

theorem negotiation_gate:
  assumes "policy_fits policy"
    and "evs = ce_events (run_engine (connection_engine policy registry executor) ops)"
  shows "\<forall>i < length evs. channel_kind (ev_kind (evs ! i)) \<longrightarrow>
    (\<exists>j < i. ev_kind (evs ! j) = EK_negotiated)"
  using engine_history_ok[OF assms(1), of registry executor ops]
  by (simp add: assms(2) engine_ok_def gated_def)

text \<open>Property C4. Messages are delivered in order, none twice and none skipped: in every history the
  sequence numbers delivered on a channel number are 1, 2, 3 and so on.\<close>

theorem delivered_in_order:
  assumes "policy_fits policy"
    and "evs = ce_events (run_engine (connection_engine policy registry executor) ops)"
  shows "delivered n evs = map (\<lambda>k. of_nat (k + 1)) [0..<length (delivered n evs)]"
proof -
  let ?e = "run_engine (connection_engine policy registry executor) ops"
  have ok: "engine_ok ?e" by (rule engine_history_ok[OF assms(1)])
  show ?thesis
  proof (cases "\<exists>t. ce_channels ?e = Some t \<and> n \<noteq> 0 \<and> unat n \<le> length (ct_slots t)")
    case True
    then obtain t where t: "ce_channels ?e = Some t" "n \<noteq> 0" "unat n \<le> length (ct_slots t)" by blast
    obtain i where i: "unat n = Suc i" using t(2) by (metis not0_implies_Suc unat_eq_zero)
    then have n: "n = of_nat (Suc i)" by (metis of_nat_unat ucast_id)
    have "slot_log i (ct_slots t ! i) evs" using ok t(1,3) i by (simp add: engine_ok_def assms(2))
    then show ?thesis unfolding n slot_log_def Let_def by blast
  next
    case False
    then have "delivered n evs = []"
      using ok by (cases "ce_channels ?e") (auto simp: engine_ok_def assms(2) not_le)
    then show ?thesis by simp
  qed
qed

text \<open>Property C29. CREDIT frames never take effect: in every reachable engine, the handler refuses a
  CREDIT frame, whatever its channel and amount, and leaves the engine as it was, because every
  account is whole between two operations.\<close>

theorem credit_always_refused:
  assumes "policy_fits policy" "e = run_engine (connection_engine policy registry executor) ops"
  shows "\<exists>err. handle_credit e frame = (e, Inl err)"
  unfolding assms(2) by (rule handle_credit_same[OF engine_history_ok[OF assms(1)]])

section \<open>A concrete engine\<close>

lemma default_policy_fits: "policy_fits default_policy"
  by (simp add: policy_fits_def default_policy_def SIZE_MAX_def)

definition sample_history :: "EngineOp list" where
  "sample_history = [Op_start, Op_receive [0x4C, 0x54] False, Op_goaway, Op_advance 2000]"

definition sample_engine :: ConnectionEngine where
  "sample_engine = run_engine (connection_engine default_policy plugin_registry None) sample_history"

theorem engine_consistent_witness:
  "ce_capabilities sample_engine = None \<longleftrightarrow> ce_channels sample_engine = None"
  using engine_consistent[OF default_policy_fits sample_engine_def] by blast

theorem delivered_in_order_witness:
  "delivered 1 (ce_events sample_engine) =
     map (\<lambda>k. of_nat (k + 1)) [0..<length (delivered 1 (ce_events sample_engine))]"
  by (rule delivered_in_order[OF default_policy_fits, where registry = plugin_registry
        and executor = None and ops = sample_history]) (simp add: sample_engine_def)

definition sample_credit :: Frame where
  "sample_credit = \<lparr>f_type = FT_credit, f_flags = 0, f_channel = \<lparr>cid_number = 1, cid_generation = 1\<rparr>,
     f_frame_seq = 3, f_extensions = [], f_payload = [0, 0, 0, 1]\<rparr>"

theorem credit_always_refused_witness:
  "\<exists>err. handle_credit sample_engine sample_credit = (sample_engine, Inl err)"
  by (rule credit_always_refused[OF default_policy_fits sample_engine_def])

end
