(* ===== verification/Engine_Session.thy ===== *)
theory Engine_Session
  imports Engine_Invariant
begin

text \<open>
  Two engines connected by a byte stream. The first group of lemmas follows a frame from
  \<open>emit\<close> to the peer's handler: with nothing queued, the scheduler hands the encoded frame out at
  once, and the peer's codec finds exactly that frame. On them rest the two end-to-end
  properties: the handshake, and the transfer of a message of any length in fragments.
\<close>

section \<open>Emitting with an idle scheduler\<close>

definition sched_idle :: "OutboundScheduler \<Rightarrow> bool" where
  "sched_idle s \<longleftrightarrow> os_control s = [] \<and> os_data s = [] \<and> os_queued_bytes s = 0"

text \<open>What sending an item at once leaves behind.\<close>

definition sent_item :: "OutboundScheduler \<Rightarrow> OutboundItem \<Rightarrow> OutboundScheduler" where
  "sent_item s item =
     (if oi_priority item = OP_control then s
      else s\<lparr>os_expected_sequence := (os_expected_sequence s)
               (cid_number (oi_channel item) := oi_sequence item + 1),
             os_rr_cursor := cid_number (oi_channel item) + 1\<rparr>)"

lemma sent_item_idle [simp]:
  "sched_idle (sent_item s item) = sched_idle s"
  "os_byte_limit (sent_item s item) = os_byte_limit s"
  by (simp_all add: sent_item_def sched_idle_def)

definition expects :: "OutboundScheduler \<Rightarrow> u32 \<Rightarrow> u32 \<Rightarrow> bool" where
  "expects s c q \<longleftrightarrow> os_expected_sequence s c = 0 \<or> os_expected_sequence s c = q"

lemma enqueue_idle_iff:
  assumes "sched_idle s" "os_byte_limit s \<le> SIZE_MAX"
  shows "(\<exists>s'. enqueue s item = (s', Inr ())) \<longleftrightarrow>
    oi_encoded item \<noteq> [] \<and> length (oi_encoded item) \<le> os_byte_limit s"
  using assms
  by (auto simp: enqueue_def sched_idle_def data_queue_def om_get_def checked_add_def Let_def
      split: option.split)

lemma idle_control:
  assumes "sched_idle s" "os_byte_limit s \<le> SIZE_MAX" "enqueue s item = (s', Inr ())"
    and "os_byte_limit s \<le> writable" "oi_priority item = OP_control"
  shows "drain s' writable = (sent_item s item, [item])"
proof -
  have len: "oi_encoded item \<noteq> []" "length (oi_encoded item) \<le> os_byte_limit s"
    using enqueue_idle_iff[OF assms(1,2), of item] assms(3) by auto
  have fit: "length (oi_encoded item) \<le> SIZE_MAX" using len assms(2) by simp
  have s': "s' = s\<lparr>os_queued_bytes := length (oi_encoded item), os_control := [item]\<rparr>"
    using assms len fit by (auto simp: enqueue_def sched_idle_def checked_add_fits Let_def)
  have n: "min writable (length (oi_encoded item)) = length (oi_encoded item)"
    "0 < length (oi_encoded item)" "0 < writable"
    using len(2) assms(4) length_greater_0_conv[of "oi_encoded item"] len(1) by linarith+
  show ?thesis
    using assms(1,5) n unfolding s'
    by (cases s) (simp add: drain_def sent_item_def sched_idle_def size_sub_def Let_def)
qed

lemma idle_data:
  assumes "sched_idle s" "os_byte_limit s \<le> SIZE_MAX" "enqueue s item = (s', Inr ())"
    and "os_byte_limit s \<le> writable" "oi_priority item = OP_data"
    and "expects s (cid_number (oi_channel item)) (oi_sequence item)"
  shows "drain s' writable = (sent_item s item, [item])"
proof -
  let ?c = "cid_number (oi_channel item)"
  have len: "oi_encoded item \<noteq> []" "length (oi_encoded item) \<le> os_byte_limit s"
    using enqueue_idle_iff[OF assms(1,2), of item] assms(3) by auto
  have fit: "length (oi_encoded item) \<le> SIZE_MAX" using len assms(2) by simp
  have s': "s' = s\<lparr>os_queued_bytes := length (oi_encoded item), os_data := [(?c, [item])]\<rparr>"
    using assms len fit
    by (auto simp: enqueue_def sched_idle_def checked_add_fits data_queue_def om_get_def Let_def)
  have n: "min writable (length (oi_encoded item)) = length (oi_encoded item)"
    "0 < length (oi_encoded item)" "0 < writable"
    using len(2) assms(4) length_greater_0_conv[of "oi_encoded item"] len(1) by linarith+
  show ?thesis
    using assms(1,5,6) n len unfolding s'
    by (cases s) (auto simp: drain_def sent_item_def sched_idle_def size_sub_def Let_def
        rotate_from_def data_queue_def om_get_def expects_def)
qed

text \<open>An engine with nothing queued, whose scheduler has the limit the constructor gave it.\<close>

definition flushed :: "ConnectionEngine \<Rightarrow> bool" where
  "flushed e \<longleftrightarrow> sched_idle (ce_scheduler e) \<and>
     os_byte_limit (ce_scheduler e) = lp_connection_window (ce_policy e) \<and>
     lp_connection_window (ce_policy e) \<le> SIZE_MAX"

definition frame_item :: "Frame \<Rightarrow> bytes \<Rightarrow> OutboundItem" where
  "frame_item frame encoded =
     \<lparr>oi_priority = (if is_control_frame (f_type frame) then OP_control else OP_data),
      oi_channel = f_channel frame, oi_sequence = f_frame_seq frame, oi_encoded = encoded\<rparr>"

lemma emit_flushed:
  assumes "flushed e" "emit e frame = (e', Inr out)"
    and "f_type frame = FT_data \<longrightarrow> expects (ce_scheduler e) (cid_number (f_channel frame)) (f_frame_seq frame)"
  obtains bs w where "encode_frame (fc_limits (ce_codec e)) frame = Inr bs" "out = [bs]"
    "e' = e\<lparr>ce_replay := w, ce_scheduler := sent_item (ce_scheduler e) (frame_item frame bs)\<rparr>"
    "record_frame (ce_replay e) 1 (f_frame_seq frame) bs = (w, Inr ())"
proof -
  obtain bs where enc: "encode_frame (fc_limits (ce_codec e)) frame = Inr bs"
    using assms(2) by (auto simp: emit_def split: sum.splits)
  obtain w where rec: "record_frame (ce_replay e) 1 (f_frame_seq frame) bs = (w, Inr ())"
    using assms(2) enc by (auto simp: emit_def split: sum.splits prod.splits)
  obtain s where enq: "enqueue (ce_scheduler e) (frame_item frame bs) = (s, Inr ())"
    using assms(2) enc rec
    by (auto simp: emit_def queue_encoded_def frame_item_def split: sum.splits prod.splits)
  have d: "drain s (lp_connection_window (ce_policy e)) =
      (sent_item (ce_scheduler e) (frame_item frame bs), [frame_item frame bs])"
  proof (cases "f_type frame = FT_data")
    case True
    then show ?thesis using assms(1,3) enq
      by (intro idle_data) (auto simp: flushed_def frame_item_def is_control_frame_def)
  next
    case False
    then show ?thesis using assms(1) enq
      by (intro idle_control) (auto simp: flushed_def frame_item_def is_control_frame_def)
  qed
  have "(e', Inr out) = (e\<lparr>ce_replay := w, ce_scheduler := sent_item (ce_scheduler e) (frame_item frame bs)\<rparr>,
      Inr [bs] :: bytes list result)"
    using assms(2) enc rec enq d
    by (simp add: emit_def queue_encoded_def frame_item_def flush_outbound_def Let_def)
  then show ?thesis using that[OF enc _ _ rec] by simp
qed

section \<open>From one engine to the codec of the other\<close>

lemma encode_other_limits:
  assumes "encode_frame limits f = Inr out" "fl_max_header limits \<le> fl_max_header limits'"
    and "length out \<le> fl_max_frame limits'"
  shows "encode_frame limits' f = Inr out"
  using assms by (auto simp: encode_frame_iff)

lemma feed_frames:
  assumes "list_all2 (\<lambda>f out. encode_frame limits f = Inr out \<and> length out \<le> fl_max_frame (fc_limits codec)) fs outs"
    and "list_all (\<lambda>f. list_all extension_ok (f_extensions f)) fs"
    and "fl_max_header limits \<le> fl_max_header (fc_limits codec)" "fl_max_header (fc_limits codec) \<le> 65535"
    and "fc_buffer codec = []" "fs \<noteq> []"
  shows "feed codec (concat outs) False = (codec, map DE_frame (map normal_frame fs))"
proof -
  have len: "length fs = length outs" using assms(1) by (rule list_all2_lengthD)
  have "ltx.runs (fc_limits codec) (concat outs) (map normal_frame fs) (Pending [])"
  proof (rule ltx.runs_items)
    fix i rest assume i: "i < length outs"
    have "encode_frame (fc_limits codec) (fs ! i) = Inr (outs ! i)"
      using encode_other_limits[OF _ assms(3)] assms(1) i len by (auto simp: list_all2_conv_all_nth)
    then show "decode_one (fc_limits codec) False (outs ! i @ rest)
        = Step_frame (map normal_frame fs ! i) (length (outs ! i))"
      using encoded_frame_decodes[of "fc_limits codec" "fs ! i" "outs ! i" False rest] assms(2,4) len i
      by (simp add: list_all_length)
  qed (use len in simp)
  from feed_runs[of "fc_limits codec" "[]" "concat outs", simplified, OF this] show ?thesis
    using assms(5,6) by (cases codec) simp
qed

text \<open>The engine loop over frames that are all accepted.\<close>

fun handle_frames :: "ConnectionEngine \<Rightarrow> Frame list \<Rightarrow> ConnectionEngine \<times> bytes list result" where
  "handle_frames e [] = (e, Inr [])"
| "handle_frames e (f # fs) =
     (case handle_frame e f of
        (e', Inl err) \<Rightarrow> (frame_failed err e', Inl err)
      | (e', Inr out) \<Rightarrow> (case handle_frames e' fs of
           (e'', Inl err) \<Rightarrow> (e'', Inl err)
         | (e'', Inr out') \<Rightarrow> (e'', Inr (out @ out'))))"

lemma receive_loop_frames:
  "receive_loop e (map DE_frame fs) out =
     (case handle_frames e fs of (e', Inl err) \<Rightarrow> (e', Inl err) | (e', Inr out') \<Rightarrow> (e', Inr (out @ out')))"
proof (induction fs arbitrary: e out)
  case (Cons f fs)
  obtain e' r where h: "handle_frame e f = (e', r)" by fastforce
  show ?case
  proof (cases r)
    case (Inr produced)
    obtain e'' r' where t: "handle_frames e' fs = (e'', r')" by fastforce
    show ?thesis using h Inr t Cons.IH[of e' "out @ produced"] by (cases r') simp_all
  qed (use h in simp)
qed simp

lemma receive_frames:
  assumes "feed (ce_codec e) bs False = (ce_codec e, map DE_frame fs)"
  shows "receive e bs False = handle_frames e fs"
  using receive_loop_frames[of e fs "[]"] assms
  by (simp add: receive_def) (auto split: sum.split prod.split)

section \<open>The handshake\<close>

definition hello_frame :: "bytes \<Rightarrow> Frame" where
  "hello_frame payload = \<lparr>f_type = FT_hello, f_flags = 0, f_channel = control_channel, f_frame_seq = 1,
     f_extensions = [], f_payload = payload\<rparr>"

lemma flushed_new: "lp_connection_window policy \<le> SIZE_MAX \<Longrightarrow> flushed (connection_engine policy registry executor)"
  by (simp add: flushed_def connection_engine_def outbound_scheduler_def sched_idle_def)

definition engine_limits :: "LocalPolicy \<Rightarrow> FrameLimits" where
  "engine_limits policy = \<lparr>fl_max_frame = lp_max_frame policy, fl_max_header = 4096\<rparr>"

definition policy_hello :: "LocalPolicy \<Rightarrow> PluginRegistry \<Rightarrow> HelloMessage" where
  "policy_hello policy registry = \<lparr>hm_min_major = lp_min_major policy, hm_max_major = lp_max_major policy,
     hm_limits = policy, hm_plugins = descriptors registry\<rparr>"

lemma local_hello_policy: "local_hello e = policy_hello (ce_policy e) (ce_registry e)"
  by (simp add: local_hello_def policy_hello_def)

text \<open>An engine that has sent its HELLO.\<close>

definition greeting :: "LocalPolicy \<Rightarrow> PluginRegistry \<Rightarrow> ConnectionEngine \<Rightarrow> bool" where
  "greeting policy registry e \<longleftrightarrow> ce_policy e = policy \<and> ce_registry e = registry \<and>
     ce_codec e = new_codec (engine_limits policy) \<and> ce_state e = CS_negotiating \<and>
     ce_capabilities e = None \<and> ce_channels e = None \<and> ce_events e = [] \<and> flushed e \<and>
     ce_next_frame_seq e = 2 \<and> rw_epoch (ce_replay e) = 1 \<and> \<not> window_contains (ce_replay e) 2"

lemma start_greets:
  assumes "start (connection_engine policy registry executor) = (e, Inr out)"
    and "lp_connection_window policy \<le> SIZE_MAX"
  obtains payload bs where "encode_hello_payload (policy_hello policy registry) = Inr payload"
    "encode_frame (engine_limits policy) (hello_frame payload) = Inr bs" "out = [bs]"
    "greeting policy registry e"
proof -
  let ?e = "connection_engine policy registry executor"
  obtain payload where p: "encode_hello_payload (policy_hello policy registry) = Inr payload"
    using assms(1)
    by (auto simp: start_def connection_engine_def local_hello_policy split: sum.splits if_splits)
  let ?e1 = "(schedule_timer TK_handshake control_channel kHandshakeTimeoutMs
      (?e\<lparr>ce_state := CS_negotiating\<rparr>))\<lparr>ce_next_frame_seq := 2\<rparr>"
  have em: "emit ?e1 (hello_frame payload) = (e, Inr out)"
    using assms(1) p
    by (simp add: start_def emit_new_def make_frame_def local_hello_policy hello_frame_def
        connection_engine_def schedule_timer_def)
  have "flushed ?e1" using flushed_new[OF assms(2), of registry executor]
    by (simp add: flushed_def schedule_timer_def)
  then obtain bs w where f: "encode_frame (fc_limits (ce_codec ?e1)) (hello_frame payload) = Inr bs"
    "out = [bs]"
    "e = ?e1\<lparr>ce_replay := w, ce_scheduler := sent_item (ce_scheduler ?e1) (frame_item (hello_frame payload) bs)\<rparr>"
    "record_frame (ce_replay ?e1) 1 (f_frame_seq (hello_frame payload)) bs = (w, Inr ())"
    by (rule emit_flushed[OF _ em]) (simp_all add: hello_frame_def)
  have enc: "encode_frame (engine_limits policy) (hello_frame payload) = Inr bs"
    using f(1) by (simp add: connection_engine_def schedule_timer_def new_codec_def engine_limits_def)
  have "rw_epoch w = 1 \<and> \<not> window_contains w 2"
    using f(4) by (auto simp: record_frame_def connection_engine_def schedule_timer_def replay_window_def
        window_contains_def hello_frame_def Let_def split: if_splits)
  then have "greeting policy registry e"
    using \<open>flushed ?e1\<close> unfolding f(3)
    by (simp add: greeting_def flushed_def schedule_timer_def connection_engine_def engine_limits_def)
  then show ?thesis using that[OF p enc f(2)] by blast
qed

lemma receive_greeting:
  assumes "greeting policy registry e"
    and "encode_frame limits (hello_frame payload) = Inr bs" "fl_max_header limits = 4096"
    and "length bs \<le> lp_max_frame policy"
  shows "receive e bs False = handle_frames e [hello_frame payload]"
proof -
  have norm: "normal_frame (hello_frame payload) = hello_frame payload"
    by (simp add: normal_frame_def hello_frame_def)
  have "feed (ce_codec e) (concat [bs]) False = (ce_codec e, map DE_frame (map normal_frame [hello_frame payload]))"
    using assms
    by (intro feed_frames[where limits = limits])
      (simp_all add: greeting_def new_codec_def engine_limits_def hello_frame_def)
  then show ?thesis using norm by (intro receive_frames) simp
qed

lemma handle_greeting:
  assumes "greeting policy registry e" "decode_hello_payload payload = Inr peer"
    and "negotiate (policy_hello policy registry) peer = outcome"
  shows "case outcome of
      Inl err \<Rightarrow> (\<exists>e'. handle_frames e [hello_frame payload] = (e', Inl err) \<and> ce_state e' \<noteq> CS_active \<and>
        ce_capabilities e' = None \<and> ce_channels e' = None)
    | Inr caps \<Rightarrow> (\<exists>e'. handle_frames e [hello_frame payload] = (e', Inr []) \<and> ce_state e' = CS_active \<and>
        ce_capabilities e' = Some caps \<and>
        ce_channels e' = Some (channel_table (cap_max_channels caps)
          (cap_connection_window caps div unat (cap_max_channels caps)) (cap_max_message caps)) \<and>
        ce_events e' = [\<lparr>ev_kind = EK_negotiated, ev_channel = control_channel, ev_sequence = 0,
          ev_payload = [], ev_error = None\<rparr>] \<and> ce_registry e' = registry \<and> ce_policy e' = policy \<and>
        ce_codec e' = ce_codec e \<and> flushed e' \<and> ce_next_frame_seq e' = 2 \<and>
        rw_epoch (ce_replay e') = 1 \<and> \<not> window_contains (ce_replay e') 2)"
  using assms
  by (auto simp: greeting_def handle_frame_def hello_frame_def handle_hello_def local_hello_policy
      frame_failed_def close_with_def diagnostic_def push_event_def schedule_timer_def flushed_def split: sum.split)

lemma hello_received:
  assumes "start (connection_engine policy registry executor) = (e, Inr out)"
    and "start (connection_engine policy' registry' executor') = (e', Inr out')"
    and "lp_connection_window policy \<le> SIZE_MAX" "lp_connection_window policy' \<le> SIZE_MAX"
    and "hello_fits (policy_hello policy' registry')"
    and "length (concat out') \<le> lp_max_frame policy"
  obtains payload' where "receive e (concat out') False = handle_frames e [hello_frame payload']"
    "decode_hello_payload payload' = Inr (wire_hello (policy_hello policy' registry'))"
    "greeting policy registry e"
    "negotiate (policy_hello policy registry) (wire_hello (policy_hello policy' registry'))
      = negotiate (policy_hello policy registry) (policy_hello policy' registry')"
    "distinct (families (policy_hello policy registry))" "distinct (families (policy_hello policy' registry'))"
proof -
  let ?a = "policy_hello policy registry" and ?b = "policy_hello policy' registry'"
  obtain x bs where a: "encode_hello_payload ?a = Inr x" "greeting policy registry e"
    by (rule start_greets[OF assms(1,3)])
  obtain y bs' where b: "encode_hello_payload ?b = Inr y"
    "encode_frame (engine_limits policy') (hello_frame y) = Inr bs'" "out' = [bs']"
    by (rule start_greets[OF assms(2,4)])
  have d: "distinct (families ?a)" "distinct (families ?b)" using a(1) b(1) by (simp_all add: encode_hello_iff)
  have "decode_hello_payload y = Inr (wire_hello ?b)"
    using hello_roundtrip[OF b(1)] assms(5) by (simp add: hello_fits_def)
  moreover have "receive e (concat out') False = handle_frames e [hello_frame y]"
    using receive_greeting[OF a(2) b(2)] b(3) assms(6) by (simp add: engine_limits_def)
  ultimately show ?thesis using that a(2) negotiate_wire[OF assms(5) d] d by blast
qed

text \<open>Property C2. The handshake, end to end: when two fresh engines start and each receives the
  bytes the other emitted (within its frame limit), they come to the same result. Both accept
  exactly when the two sides are compatible; then both are active with equal capabilities,
  transcript hash included, and equal empty channel tables. Otherwise both report the same error
  and neither is active.\<close>

theorem handshake_connects:
  assumes "start (connection_engine policy registry executor) = (a, Inr out)"
    and "start (connection_engine policy' registry' executor') = (b, Inr out')"
    and "policy_fits policy" "policy_fits policy'"
    and "hello_fits (policy_hello policy registry)" "hello_fits (policy_hello policy' registry')"
    and "length (concat out) \<le> lp_max_frame policy'" "length (concat out') \<le> lp_max_frame policy"
    and "receive a (concat out') False = (a', ra)" "receive b (concat out) False = (b', rb)"
  shows "ra = rb \<and> ce_capabilities a' = ce_capabilities b' \<and> ce_channels a' = ce_channels b' \<and>
    (is_ok ra \<longleftrightarrow> compatible (policy_hello policy registry) (policy_hello policy' registry')) \<and>
    (ce_state a' = CS_active \<longleftrightarrow> is_ok ra) \<and> (ce_state b' = CS_active \<longleftrightarrow> is_ok ra)"
proof -
  let ?a = "policy_hello policy registry" and ?b = "policy_hello policy' registry'"
  have win: "lp_connection_window policy \<le> SIZE_MAX" "lp_connection_window policy' \<le> SIZE_MAX"
    using assms(3,4) by (simp_all add: policy_fits_def)
  obtain y where y: "receive a (concat out') False = handle_frames a [hello_frame y]"
    "decode_hello_payload y = Inr (wire_hello ?b)" "greeting policy registry a"
    "negotiate ?a (wire_hello ?b) = negotiate ?a ?b" "distinct (families ?a)" "distinct (families ?b)"
    by (rule hello_received[OF assms(1,2) win assms(6,8)])
  obtain x where x: "receive b (concat out) False = handle_frames b [hello_frame x]"
    "decode_hello_payload x = Inr (wire_hello ?a)" "greeting policy' registry' b"
    "negotiate ?b (wire_hello ?a) = negotiate ?b ?a"
    by (rule hello_received[OF assms(2,1) win(2,1) assms(5,7)])
  note both = handle_greeting[OF y(3,2) y(4)]
    handle_greeting[OF x(3,2) x(4)[folded negotiate_swap[OF y(5,6)]]]
  have "ra = rb \<and> ce_capabilities a' = ce_capabilities b' \<and> ce_channels a' = ce_channels b' \<and>
      (is_ok ra \<longleftrightarrow> is_ok (negotiate ?a ?b)) \<and> (ce_state a' = CS_active \<longleftrightarrow> is_ok ra) \<and>
      (ce_state b' = CS_active \<longleftrightarrow> is_ok ra)"
    using both assms(9,10) x(1) y(1) by (cases "negotiate ?a ?b") (auto simp: is_ok_iff)
  moreover have "is_ok (negotiate ?a ?b) \<longleftrightarrow> compatible ?a ?b" by (simp add: is_ok_iff negotiate_when)
  ultimately show ?thesis by blast
qed

text \<open>A start that succeeds: the HELLO fits the frame limit and the window.\<close>

lemma emit_flushed_ok:
  assumes "flushed e" "encode_frame (fc_limits (ce_codec e)) frame = Inr bs"
    and "rw_epoch (ce_replay e) = 1" "\<not> window_contains (ce_replay e) (f_frame_seq frame)"
    and "length bs \<le> lp_connection_window (ce_policy e)"
    and "f_type frame = FT_data \<longrightarrow> expects (ce_scheduler e) (cid_number (f_channel frame)) (f_frame_seq frame)"
  obtains e' where "emit e frame = (e', Inr [bs])"
proof -
  obtain w where rec: "record_frame (ce_replay e) 1 (f_frame_seq frame) bs = (w, Inr ())"
    using assms(3,4) by (simp add: record_frame_def Let_def)
  have "bs \<noteq> []" using assms(2) by (auto simp: encode_frame_iff frame_bytes_def append_u32_def)
  then obtain s where enq: "enqueue (ce_scheduler e) (frame_item frame bs) = (s, Inr ())"
    using enqueue_idle_iff[of "ce_scheduler e" "frame_item frame bs"] assms(1,5)
    by (auto simp: flushed_def frame_item_def)
  obtain e' r where em: "emit e frame = (e', r)" by fastforce
  moreover obtain out where "r = Inr out"
    using em assms(2) rec enq
    by (auto simp: emit_def queue_encoded_def frame_item_def flush_outbound_def Let_def split: prod.splits)
  moreover from this have "out = [bs]"
    using emit_flushed[OF assms(1) em[unfolded \<open>r = Inr out\<close>] assms(6)] assms(2) by (metis sum.inject(2))
  ultimately show ?thesis using that by simp
qed

lemma start_succeeds:
  assumes "encode_hello_payload (policy_hello policy registry) = Inr payload"
    and "length payload + 25 \<le> lp_max_frame policy" "length payload + 25 \<le> lp_connection_window policy"
    and "lp_connection_window policy \<le> SIZE_MAX" "length payload < 2 ^ 32"
  shows "\<exists>e bs. start (connection_engine policy registry executor) = (e, Inr [bs]) \<and>
    length bs \<le> length payload + 25"
proof -
  let ?e = "(schedule_timer TK_handshake control_channel kHandshakeTimeoutMs
      (connection_engine policy registry executor\<lparr>ce_state := CS_negotiating\<rparr>))\<lparr>ce_next_frame_seq := 2\<rparr>"
  let ?bs = "frame_bytes (hello_frame payload) []"
  have len: "length ?bs \<le> length payload + 25"
    using length_uleb_bytes[of "of_nat (length payload)"] by (simp add: length_frame_bytes hello_frame_def)
  have "write_extensions [] = Inr []" by (simp add: write_extensions_def)
  then have enc: "encode_frame (fc_limits (ce_codec ?e)) (hello_frame payload) = Inr ?bs"
    using len assms(2-5)
    by (simp add: encode_frame_iff hello_frame_def connection_engine_def schedule_timer_def new_codec_def
        kMaxChannelNo_def control_channel_def)
  have fl: "flushed ?e" using flushed_new[OF assms(4), of registry executor]
    by (simp add: flushed_def schedule_timer_def)
  obtain e' where "emit ?e (hello_frame payload) = (e', Inr [?bs])"
    by (rule emit_flushed_ok[OF fl enc])
      (use len assms(3) in \<open>simp_all add: connection_engine_def schedule_timer_def replay_window_def
        window_contains_def hello_frame_def\<close>)
  then have "start (connection_engine policy registry executor) = (e', Inr [?bs])"
    using assms(1)
    by (simp add: start_def emit_new_def make_frame_def local_hello_policy hello_frame_def
        connection_engine_def schedule_timer_def)
  then show ?thesis using len by blast
qed

definition echo_registry :: PluginRegistry where
  "echo_registry = fst (register_factory plugin_registry echo_descriptor (Some echo_handle))"

lemma echo_descriptors: "descriptors echo_registry = [echo_descriptor]"
  by (simp add: echo_registry_def register_factory_def plugin_registry_def echo_descriptor_def
      descriptors_def om_get_def Let_def)

lemma echo_hello:
  "\<exists>payload. encode_hello_payload (policy_hello default_policy echo_registry) = Inr payload \<and>
     length payload = 52"
  by (simp add: encode_hello_iff policy_hello_def echo_descriptors families_def default_policy_def
      hello_header_split append_descriptor_split append_u16_def append_u32_def append_u64_def)

lemma echo_starts:
  "\<exists>e out. start (connection_engine default_policy echo_registry None) = (e, Inr out) \<and>
     length (concat out) \<le> 77"
proof -
  obtain payload where "encode_hello_payload (policy_hello default_policy echo_registry) = Inr payload"
    "length payload = 52" using echo_hello by blast
  then show ?thesis
    using start_succeeds[of default_policy echo_registry payload None]
    by (fastforce simp: default_policy_def SIZE_MAX_def)
qed

lemma echo_compatible:
  "compatible (policy_hello default_policy echo_registry) (policy_hello default_policy echo_registry)"
  by (simp add: compatible_def policy_hello_def echo_descriptors default_policy_def families_def)

lemma echo_fits: "hello_fits (policy_hello default_policy echo_registry)"
  by (simp add: hello_fits_def policy_hello_def echo_descriptors default_policy_def)

theorem handshake_connects_witness:
  "\<exists>a out a' produced. start (connection_engine default_policy echo_registry None) = (a, Inr out) \<and>
     receive a (concat out) False = (a', Inr produced) \<and> ce_state a' = CS_active"
proof -
  obtain a out where a: "start (connection_engine default_policy echo_registry None) = (a, Inr out)"
    "length (concat out) \<le> 77" using echo_starts by blast
  obtain a' r where r: "receive a (concat out) False = (a', r)" by fastforce
  have len: "length (concat out) \<le> lp_max_frame default_policy" using a(2) by (simp add: default_policy_def)
  note h = handshake_connects[OF a(1) a(1) default_policy_fits default_policy_fits echo_fits echo_fits
      len len r r]
  obtain produced where "r = Inr produced" using h echo_compatible by (auto simp: is_ok_iff)
  moreover have "ce_state a' = CS_active" using h echo_compatible by simp
  ultimately show ?thesis using a(1) r by auto
qed

section \<open>Sending a message in fragments\<close>

definition data_frame :: "ChannelId \<Rightarrow> u32 \<Rightarrow> bytes \<Rightarrow> nat \<Rightarrow> u32 \<Rightarrow> nat \<Rightarrow> Frame" where
  "data_frame cid sequence payload fragment q offset =
     \<lparr>f_type = FT_data, f_flags = 0, f_channel = cid, f_frame_seq = q,
      f_extensions = fragment_extensions sequence offset (length payload),
      f_payload = take (min fragment (length payload - offset)) (drop offset payload)\<rparr>"

function data_frames :: "ChannelId \<Rightarrow> u32 \<Rightarrow> bytes \<Rightarrow> nat \<Rightarrow> u32 \<Rightarrow> nat \<Rightarrow> Frame list" where
  "data_frames cid sequence payload fragment q offset =
     (if offset < length payload \<and> 0 < fragment
      then data_frame cid sequence payload fragment q offset #
        data_frames cid sequence payload fragment (q + 1) (offset + fragment)
      else [])"
  by pat_completeness auto
termination
  by (relation "measure (\<lambda>(cid, sequence, payload, fragment, q, offset). length payload - offset)") auto

declare data_frames.simps [simp del]

lemma flushed_updates [simp]:
  "flushed (e\<lparr>ce_next_frame_seq := q\<rparr>) = flushed e" "flushed (e\<lparr>ce_channels := chs\<rparr>) = flushed e"
  "flushed (e\<lparr>ce_replay := w\<rparr>) = flushed e"
  "flushed (e\<lparr>ce_scheduler := sent_item (ce_scheduler e) item\<rparr>) = flushed e"
  by (simp_all add: flushed_def)

lemma emit_data:
  assumes "flushed e" "expects (ce_scheduler e) (cid_number cid) (ce_next_frame_seq e)"
    and "emit_new e FT_data cid bs exts = (e', Inr encoded)"
  obtains b where "encode_frame (fc_limits (ce_codec e)) \<lparr>f_type = FT_data, f_flags = 0, f_channel = cid,
      f_frame_seq = ce_next_frame_seq e, f_extensions = exts, f_payload = bs\<rparr> = Inr b" "encoded = [b]"
    "flushed e'" "ce_codec e' = ce_codec e" "ce_next_frame_seq e' = ce_next_frame_seq e + 1"
    "expects (ce_scheduler e') (cid_number cid) (ce_next_frame_seq e + 1)"
proof -
  let ?e = "e\<lparr>ce_next_frame_seq := ce_next_frame_seq e + 1\<rparr>"
  let ?f = "\<lparr>f_type = FT_data, f_flags = 0, f_channel = cid, f_frame_seq = ce_next_frame_seq e,
      f_extensions = exts, f_payload = bs\<rparr>"
  have em: "emit ?e ?f = (e', Inr encoded)" using assms(3) by (simp add: emit_new_def make_frame_def)
  obtain b w where b: "encode_frame (fc_limits (ce_codec e)) ?f = Inr b" "encoded = [b]"
    "e' = ?e\<lparr>ce_replay := w, ce_scheduler := sent_item (ce_scheduler ?e) (frame_item ?f b)\<rparr>"
    by (rule emit_flushed[OF _ em]) (use assms(1,2) in simp_all)
  have "flushed e'" using assms(1) unfolding b(3) by (simp add: flushed_def)
  moreover have "expects (ce_scheduler e') (cid_number cid) (ce_next_frame_seq e + 1)"
    by (simp add: b(3) expects_def sent_item_def frame_item_def is_control_frame_def)
  ultimately show ?thesis using that[OF b(1,2)] b(3) by simp
qed

lemma send_loop_frames:
  assumes "flushed e" "expects (ce_scheduler e) (cid_number cid) (ce_next_frame_seq e)"
    and "send_loop e cid sequence payload fragment offset out = (e', Inr out')"
  shows "\<exists>bss. out' = out @ bss \<and> list_all2 (\<lambda>f bs. encode_frame (fc_limits (ce_codec e)) f = Inr bs)
    (data_frames cid sequence payload fragment (ce_next_frame_seq e) offset) bss"
  using assms
proof (induction e cid sequence payload fragment offset out rule: send_loop.induct)
  case (1 e cid sequence payload fragment offset out)
  show ?case
  proof (cases "offset < length payload \<and> 0 < fragment")
    case False
    then show ?thesis using "1.prems"(3) by (auto simp: send_loop.simps data_frames.simps)
  next
    case True
    let ?bs = "take (min fragment (length payload - offset)) (drop offset payload)"
    let ?x = "fragment_extensions sequence offset (length payload)"
    obtain e1 r1 where em: "emit_new e FT_data cid ?bs ?x = (e1, r1)" by fastforce
    then obtain encoded where r1: "r1 = Inr encoded"
      and rest: "send_loop e1 cid sequence payload fragment (offset + fragment) (out @ encoded) = (e', Inr out')"
      using "1.prems"(3) True by (cases r1) (simp_all add: send_loop.simps[of e] Let_def)
    obtain b where b: "encode_frame (fc_limits (ce_codec e)) (data_frame cid sequence payload fragment
        (ce_next_frame_seq e) offset) = Inr b" "encoded = [b]" "flushed e1" "ce_codec e1 = ce_codec e"
      "ce_next_frame_seq e1 = ce_next_frame_seq e + 1"
      "expects (ce_scheduler e1) (cid_number cid) (ce_next_frame_seq e + 1)"
      using emit_data[OF "1.prems"(1,2) em[unfolded r1]] unfolding data_frame_def by metis
    have "\<exists>bss. out' = (out @ encoded) @ bss \<and> list_all2 (\<lambda>f bs. encode_frame (fc_limits (ce_codec e1)) f = Inr bs)
        (data_frames cid sequence payload fragment (ce_next_frame_seq e1) (offset + fragment)) bss"
      using "1.IH"[OF True refl em[symmetric] r1 b(3) _ rest] b(5,6) by simp
    then obtain bss where "out' = (out @ encoded) @ bss"
      "list_all2 (\<lambda>f bs. encode_frame (fc_limits (ce_codec e)) f = Inr bs)
        (data_frames cid sequence payload fragment (ce_next_frame_seq e + 1) (offset + fragment)) bss"
      using b(4,5) by auto
    then show ?thesis using True b(1,2) by (subst data_frames.simps) auto
  qed
qed

section \<open>Receiving the fragments\<close>

lemma u32_value: "read_u32_be (u32_bytes v) 0 = Inr v"
  using read_u32_be_at[of "[]" v "[]"] by (simp add: u32_bytes_def)

lemma u32_bytes_length [simp]: "length (u32_bytes v) = 4"
  by (simp add: u32_bytes_def append_u32_def)

lemma data_frame_extensions:
  "extension_u32 (data_frame cid sequence payload fragment q offset) kExtMessageSeq = Inr sequence"
  "extension_u32 (data_frame cid sequence payload fragment q offset) kExtFragmentOffset = Inr (of_nat offset)"
  "extension_u32 (data_frame cid sequence payload fragment q offset) kExtMessageTotal =
     Inr (of_nat (length payload))"
  "extension_u32 (data_frame cid sequence payload fragment q offset) kExtFamilyId = Inr 7"
  by (simp_all add: extension_u32_def find_extension_def data_frame_def fragment_extensions_def
      kExtMessageSeq_def kExtFragmentOffset_def kExtMessageTotal_def kExtFamilyId_def u32_value)

lemma data_frame_normal: "normal_frame (data_frame cid sequence payload fragment q offset) =
    data_frame cid sequence payload fragment q offset"
  by (simp add: normal_frame_def data_frame_def fragment_extensions_def extension_key_def
      kExtMessageSeq_def kExtFragmentOffset_def kExtMessageTotal_def kExtFamilyId_def kRequiredBit_def)

lemma data_frame_extensions_ok: "list_all extension_ok (f_extensions (data_frame cid sequence payload fragment q offset))"
  by (simp add: data_frame_def fragment_extensions_def extension_ok_def known_required_extension_def
      kExtMessageSeq_def kExtFragmentOffset_def kExtMessageTotal_def kExtFamilyId_def)

text \<open>A receiver that is waiting for message \<open>sequence\<close> on channel \<open>cid\<close>, in slot \<open>slot\<close> of \<open>t\<close>,
  and still holds credit for fragments of \<open>n\<close> bytes.\<close>

definition receptive :: "ConnectionEngine \<Rightarrow> ChannelTable \<Rightarrow> ChannelId \<Rightarrow> ChannelSlot \<Rightarrow> nat \<Rightarrow> bool" where
  "receptive r t cid slot n \<longleftrightarrow> ce_state r = CS_active \<and> ce_channels r = Some t \<and>
     find_slot t cid = Some slot \<and> \<not> cs_remote_half_closed slot \<and> flow_ok (cs_flow slot) \<and>
     n \<le> fa_available (cs_flow slot)"

lemma reserve_available: "n \<le> fa_available a \<Longrightarrow> \<exists>a'. flow_reserve a n = (a', Inr ())"
  by (simp add: flow_reserve_def)

lemma handle_data_frame:
  assumes "receptive r t cid slot n" "min fragment (length payload) \<le> n"
    and "sequence = cs_next_recv_seq slot"
    and "reassembler_insert (cs_reassembler slot) cid sequence (of_nat offset) (of_nat (length payload))
      (f_payload (data_frame cid sequence payload fragment q offset)) = (ra, message)"
  shows "handle_frame r (data_frame cid sequence payload fragment q offset) =
    (case message of
       Inl err \<Rightarrow> (put_slot r t cid (slot\<lparr>cs_reassembler := ra\<rparr>), Inl err)
     | Inr None \<Rightarrow> (schedule_timer TK_fragment_gap cid 1000 (put_slot r t cid (slot\<lparr>cs_reassembler := ra\<rparr>)), Inr [])
     | Inr (Some completed) \<Rightarrow>
         if lm_sequence completed \<noteq> cs_next_recv_seq slot
         then (put_slot r t cid (slot\<lparr>cs_reassembler := ra\<rparr>),
               Inl (make_error ES_message EC_sequence_error CA_reset_channel ''DATA completed out of order''))
         else dispatch_message
                (push_event EK_message_delivered cid (lm_sequence completed) (lm_payload completed)
                   (put_slot r t cid
                      (slot\<lparr>cs_reassembler := ra, cs_next_recv_seq := cs_next_recv_seq slot + 1\<rparr>)))
                cid completed 7)"
proof -
  let ?f = "data_frame cid sequence payload fragment q offset"
  have fc: "f_channel ?f = cid" "f_type ?f = FT_data" by (simp_all add: data_frame_def)
  have "length (f_payload ?f) \<le> n" using assms(2) by (simp add: data_frame_def)
  then obtain flow where res: "flow_reserve (cs_flow slot) (length (f_payload ?f)) = (flow, Inr ())"
    using reserve_available[of "length (f_payload ?f)" "cs_flow slot"] assms(1) by (auto simp: receptive_def)
  have ok: "flow_ok (cs_flow slot)" "\<not> sequence < cs_next_recv_seq slot"
    using assms(1,3) by (simp_all add: receptive_def)
  have ins: "reassembler_insert (cs_reassembler slot) (f_channel ?f) sequence (of_nat offset)
      (of_nat (length payload)) (f_payload ?f) = (ra, message)"
    using assms(4) unfolding fc(1) .
  have "handle_frame r ?f = accept_fragment r ?f t slot sequence (of_nat offset) (of_nat (length payload)) 7"
    using assms(1) by (simp add: handle_frame_def fc handle_data_def receptive_def data_frame_extensions)
  from trans[OF this accept_fragment_reserved[OF ok res ins]] show ?thesis unfolding fc(1) .
qed

lemma put_slot_receptive:
  assumes "receptive r t cid slot n" "cs_flow slot' = cs_flow slot" "cs_id slot' = cs_id slot"
    "cs_state slot' = cs_state slot" "cs_remote_half_closed slot' = cs_remote_half_closed slot"
  shows "receptive (put_slot r t cid slot') (update_slot t cid slot') cid slot' n"
    and "put_slot (put_slot r t cid slot') (update_slot t cid slot') cid slot'' = put_slot r t cid slot''"
proof -
  obtain i where i: "slot_index t cid = Some i" "slot = ct_slots t ! i" "slot_live slot"
    "cid_generation (cs_id slot) = cid_generation cid"
    using assms(1) by (auto simp: receptive_def find_slot_Some)
  have len: "i < length (ct_slots t)" using i(1) by (simp add: slot_index_Some)
  have i': "slot_index (t\<lparr>ct_slots := (ct_slots t)[i := x]\<rparr>) cid = Some i" for x
    using i(1) by (simp add: slot_index_Some)
  show "receptive (put_slot r t cid slot') (update_slot t cid slot') cid slot' n"
    using assms i len by (simp add: receptive_def put_slot_def update_slot_index find_slot_Some i' slot_live_def)
  show "put_slot (put_slot r t cid slot') (update_slot t cid slot') cid slot'' = put_slot r t cid slot''"
    by (simp add: put_slot_def update_slot_index[OF i(1)] update_slot_index[OF i'])
qed

lemma dispatch_events:
  "\<exists>evs. ce_events (fst (dispatch_message e cid completed family)) = ce_events e @ evs \<and>
     (\<forall>ev \<in> set evs. ev_kind ev = EK_plugin_response)"
proof -
  have c: "\<exists>evs. ce_events (fst (complete_plugin e1 completion)) = ce_events e1 @ evs \<and>
      (\<forall>ev \<in> set evs. ev_kind ev = EK_plugin_response)" for e1 completion
    by (auto simp: complete_plugin_def push_event_def split: option.split)
  have task: "\<exists>evs. ce_events (fst (run_plugin_task task e1)) = ce_events e1 @ evs \<and>
      (\<forall>ev \<in> set evs. ev_kind ev = EK_plugin_response)" for task e1
    using c[of e1] by (auto simp: run_plugin_task_def split: sum.split prod.split) (metis fst_conv)+
  consider (thrown) "create_lease (ce_registry e) family = None"
    | (refused) rg err where "create_lease (ce_registry e) family = Some (rg, Inl err)"
    | (granted) rg lease where "create_lease (ce_registry e) family = Some (rg, Inr lease)"
    by (metis option.exhaust prod.exhaust sum.exhaust)
  then show ?thesis
  proof cases
    case (granted rg lease)
    let ?e1 = "e\<lparr>ce_registry := rg, ce_next_plugin_token := ce_next_plugin_token e + 1\<rparr>"
    let ?task = "\<lparr>pt_lease = lease, pt_completed = completed, pt_token = ce_next_plugin_token e,
        pt_channel = cid, pt_sequence = lm_sequence completed, pt_family_id = family\<rparr>"
    show ?thesis
    proof (cases "ce_executor e")
      case None
      then have "fst (dispatch_message e cid completed family) = fst (run_plugin_task ?task ?e1)"
        using granted by (simp add: dispatch_message_def Let_def split: sum.split prod.split)
      then show ?thesis using task[of ?task ?e1] by simp
    qed (use granted in \<open>auto simp: dispatch_message_def Let_def split: sum.split prod.split\<close>)
  qed (simp_all add: dispatch_message_def)
qed

text \<open>The fragments from \<open>offset\<close> on, when those before it are stored: the message is delivered,
  and nothing else is, whatever the plugin makes of it.\<close>

definition delivery :: "ChannelId \<Rightarrow> u32 \<Rightarrow> bytes \<Rightarrow> ConnectionEvent" where
  "delivery cid sequence payload = \<lparr>ev_kind = EK_message_delivered, ev_channel = cid,
     ev_sequence = sequence, ev_payload = payload, ev_error = None\<rparr>"

lemma deliver_frames:
  assumes "0 < fragment" "0 < length msg" "length msg < 2 ^ 32" "length msg \<le> ra_max_message r0"
    and "reassembler_ok r0" "ra_retained r0 + length msg \<le> ra_max_message r0"
    and "min fragment (length msg) \<le> bound"
  shows "receptive e t cid slot bound \<Longrightarrow> sequence = cs_next_recv_seq slot \<Longrightarrow>
    offset < length msg \<Longrightarrow> collecting r0 sequence msg arrived (cs_reassembler slot) \<Longrightarrow>
    covers arrived = {..<offset} \<Longrightarrow> ranges_size arrived = offset \<Longrightarrow>
    \<exists>rest. ce_events (fst (handle_frames e (data_frames cid sequence msg fragment q offset))) =
        ce_events e @ delivery cid sequence msg # rest \<and>
      (\<forall>ev \<in> set rest. ev_kind ev \<in> {EK_plugin_response, EK_diagnostic})"
proof (induction "length msg - offset" arbitrary: e t slot arrived offset q rule: less_induct)
  case less
  define n where "n = min fragment (length msg - offset)"
  let ?f = "data_frame cid sequence msg fragment q offset"
  let ?range = "\<lparr>r_offset = of_nat offset :: u32, r_bytes = take n (drop offset msg)\<rparr>"
  have n: "0 < n" "n \<le> fragment" "offset + n \<le> length msg" using less.prems(3) assms(1) by (auto simp: n_def)
  have off: "unat (of_nat offset :: u32) = offset"
    using less.prems(3) assms(3) by (intro unat_of_nat_u32) simp
  have pay: "f_payload ?f = take n (drop offset msg)" by (simp add: data_frame_def n_def)
  have len: "length (take n (drop offset msg)) = n" using n(3) by simp
  have slice: "slice_of msg ?range" using n(3) off len by (simp add: slice_of_def)
  obtain ra res where ins: "reassembler_insert (cs_reassembler slot) cid sequence (of_nat offset)
      (of_nat (length msg)) (take n (drop offset msg)) = (ra, res)" by fastforce
  have step: "handle_frame e ?f = (case res of
       Inl err \<Rightarrow> (put_slot e t cid (slot\<lparr>cs_reassembler := ra\<rparr>), Inl err)
     | Inr None \<Rightarrow> (schedule_timer TK_fragment_gap cid 1000 (put_slot e t cid (slot\<lparr>cs_reassembler := ra\<rparr>)), Inr [])
     | Inr (Some completed) \<Rightarrow>
         if lm_sequence completed \<noteq> cs_next_recv_seq slot
         then (put_slot e t cid (slot\<lparr>cs_reassembler := ra\<rparr>),
               Inl (make_error ES_message EC_sequence_error CA_reset_channel ''DATA completed out of order''))
         else dispatch_message
                (push_event EK_message_delivered cid (lm_sequence completed) (lm_payload completed)
                   (put_slot e t cid
                      (slot\<lparr>cs_reassembler := ra, cs_next_recv_seq := cs_next_recv_seq slot + 1\<rparr>)))
                cid completed 7)"
    by (rule handle_data_frame[OF less.prems(1) assms(7) less.prems(2)]) (use ins pay in simp)
  have unfold_frames: "data_frames cid sequence msg fragment q offset =
      ?f # data_frames cid sequence msg fragment (q + 1) (offset + fragment)"
    using less.prems(3) assms(1) by (subst data_frames.simps) simp
  have "covers [?range] = {offset..<offset + n}" using len off by simp
  then have whole: "covers (arrived @ [?range]) = {..<offset + n}"
    unfolding covers_simps(3) less.prems(5) by auto
  have ins': "reassembler_insert (cs_reassembler slot) cid sequence (r_offset ?range)
      (of_nat (length msg)) (r_bytes ?range) = (ra, res)" using ins by simp
  note outcome = collecting_step[OF less.prems(4) slice assms(2-4) ins', unfolded whole]
  consider (Refused) "ra_retained (cs_reassembler slot) + length (r_bytes ?range) > ra_max_message (cs_reassembler slot)"
    | (Waiting) "res = Inr None" "collecting r0 sequence msg (arrived @ [?range]) ra"
    | (Delivered) "{..<length msg} \<subseteq> {..<offset + n}"
        "res = Inr (Some \<lparr>lm_channel = cid, lm_sequence = sequence, lm_payload = msg\<rparr>)"
    using outcome by blast
  then show ?case
  proof cases
    case Refused
    then show ?thesis
      using collecting_retained[OF less.prems(4) assms(5)] less.prems(4,6) assms(6) n(3) len
      by (simp add: collecting_def)
  next
    case Waiting
    then have "\<not> {..<length msg} \<subseteq> {..<offset + n}" using whole by (simp add: collecting_def)
    then have part: "offset + n < length msg" by (auto simp: subset_iff not_le)
    then have nf: "n = fragment" by (auto simp: n_def)
    let ?slot = "slot\<lparr>cs_reassembler := ra\<rparr>"
    let ?e = "schedule_timer TK_fragment_gap cid 1000 (put_slot e t cid ?slot)"
    have rec: "receptive ?e (update_slot t cid ?slot) cid ?slot bound"
      using put_slot_receptive(1)[OF less.prems(1), of ?slot] by (simp add: receptive_def schedule_timer_def)
    have cov: "covers (arrived @ [?range]) = {..<offset + fragment}" using whole nf by simp
    have size: "ranges_size (arrived @ [?range]) = offset + fragment"
      using less.prems(6) len nf by simp
    have seq: "sequence = cs_next_recv_seq ?slot" "collecting r0 sequence msg (arrived @ [?range]) (cs_reassembler ?slot)"
      using less.prems(2) Waiting(2) by simp_all
    have shorter: "length msg - (offset + fragment) < length msg - offset" "offset + fragment < length msg"
      using part nf n(1) by simp_all
    from less.hyps[OF shorter(1) rec seq(1) shorter(2) seq(2) cov size]
    have "\<exists>rest. ce_events (fst (handle_frames ?e (data_frames cid sequence msg fragment (q + 1) (offset + fragment)))) =
          ce_events ?e @ delivery cid sequence msg # rest \<and>
        (\<forall>ev \<in> set rest. ev_kind ev \<in> {EK_plugin_response, EK_diagnostic})" .
    then show ?thesis using step Waiting(1)
      by (auto simp: unfold_frames schedule_timer_def put_slot_def split: prod.split sum.split)
  next
    case Delivered
    then have "length msg \<le> offset + fragment" using n(2) by (simp add: lessThan_subset_iff)
    then have last: "data_frames cid sequence msg fragment (q + 1) (offset + fragment) = []"
      by (simp add: data_frames.simps)
    let ?done = "\<lparr>lm_channel = cid, lm_sequence = sequence, lm_payload = msg\<rparr>"
    let ?e = "push_event EK_message_delivered cid sequence msg
        (put_slot e t cid (slot\<lparr>cs_reassembler := ra, cs_next_recv_seq := cs_next_recv_seq slot + 1\<rparr>))"
    have h: "handle_frame e ?f = dispatch_message ?e cid ?done 7"
      using step Delivered(2) less.prems(2) by simp
    obtain evs where "ce_events (fst (dispatch_message ?e cid ?done 7)) = ce_events ?e @ evs"
      "\<forall>ev \<in> set evs. ev_kind ev = EK_plugin_response" using dispatch_events by blast
    then show ?thesis
      by (auto simp: unfold_frames last h frame_failed_def close_with_def diagnostic_def push_event_def put_slot_def
          delivery_def split: prod.split sum.split)
  qed
qed

text \<open>When a sender has nothing queued and the next frame sequence is the one its scheduler
  expects on the channel; and when a receiver waits for the next message on it.\<close>

definition ready_to_send :: "LocalPolicy \<Rightarrow> ConnectionEngine \<Rightarrow> ChannelId \<Rightarrow> ChannelSlot \<Rightarrow> bool" where
  "ready_to_send policy s cid slot \<longleftrightarrow> flushed s \<and> ce_codec s = new_codec (engine_limits policy) \<and>
     expects (ce_scheduler s) (cid_number cid) (ce_next_frame_seq s) \<and>
     (\<exists>t. ce_channels s = Some t \<and> find_slot t cid = Some slot \<and> table_full t)"

definition ready_to_receive :: "LocalPolicy \<Rightarrow> ConnectionEngine \<Rightarrow> ChannelId \<Rightarrow> ChannelSlot \<Rightarrow> bool" where
  "ready_to_receive policy r cid slot \<longleftrightarrow> ce_state r = CS_active \<and> ce_codec r = new_codec (engine_limits policy) \<and>
     (\<exists>t. ce_channels r = Some t \<and> find_slot t cid = Some slot \<and> table_full t) \<and>
     \<not> cs_remote_half_closed slot \<and> ra_pending (cs_reassembler slot) (cs_next_recv_seq slot) = None"

lemma send_frames:
  assumes "ready_to_send policy s cid slot" "ce_capabilities s = Some caps"
    and "engine_send s cid msg = (s', Inr out)"
  shows "list_all2 (\<lambda>f bs. encode_frame (engine_limits policy) f = Inr bs)
    (data_frames cid (cs_next_send_seq slot) msg (max_fragment caps) (ce_next_frame_seq s) 0) out"
proof -
  obtain t where t: "ce_channels s = Some t" "find_slot t cid = Some slot" "table_full t"
    using assms(1) by (auto simp: ready_to_send_def)
  have fl: "flow_ok (cs_flow slot)" using slot_of_full[OF t(3,2)] by simp
  have active: "ce_state s = CS_active" and open_end: "\<not> cs_local_half_closed slot"
    "length msg \<le> cap_max_message caps"
    using assms(2,3) t(1,2) by (auto simp: engine_send_def split: if_splits)
  obtain flow r where res: "flow_reserve (cs_flow slot) (length msg) = (flow, r)" by fastforce
  have r: "r = Inr ()"
    using assms(2,3) t(1,2) res active open_end by (cases r) (simp_all add: engine_send_def)
  obtain t2 r2 where seq: "reserve_send_sequence (update_slot t cid (slot\<lparr>cs_flow := flow\<rparr>)) cid = (t2, r2)"
    by fastforce
  note same = send_restores(2)[OF t(2) fl res[unfolded r] seq, of "s\<lparr>ce_channels := Some t2\<rparr>"]
  obtain sequence where r2: "r2 = Inr sequence"
    using assms(2,3) t(1,2) res r seq active open_end
    by (cases r2) (simp_all add: engine_send_def set_flow_update)
  have sequence: "sequence = cs_next_send_seq slot"
    using same r2 t(2) by (simp add: reserve_send_sequence_def split: if_splits)
  let ?e = "s\<lparr>ce_channels := Some t2\<rparr>"
  obtain e2 where looped: "send_loop ?e cid sequence msg (max_fragment caps) 0 [] = (e2, Inr out)"
    using assms(2,3) t(1,2) res r seq r2 active open_end
    by (auto simp: engine_send_def set_flow_update split: prod.splits)
  have "flushed ?e" "expects (ce_scheduler ?e) (cid_number cid) (ce_next_frame_seq ?e)"
    using assms(1) by (simp_all add: ready_to_send_def)
  from send_loop_frames[OF this looped] assms(1) show ?thesis
    by (simp add: sequence ready_to_send_def new_codec_def)
qed

lemma data_frames_all: "list_all (\<lambda>f. \<exists>q offset. f = data_frame cid sequence msg fragment q offset)
    (data_frames cid sequence msg fragment q offset)"
proof (induction cid sequence msg fragment q offset rule: data_frames.induct)
  case (1 cid sequence payload fragment q offset)
  then show ?case by (subst data_frames.simps) auto
qed

lemma message_transfer:
  assumes "ready_to_send policy s cid slot" "ce_capabilities s = Some caps"
    and "engine_send s cid msg = (s', Inr out)" "0 < length msg" "length msg < 2 ^ 32"
    and "ready_to_receive policy' r cid slot'" "cs_next_recv_seq slot' = cs_next_send_seq slot"
    and "list_all (\<lambda>bs. length bs \<le> lp_max_frame policy') out"
    and "min (max_fragment caps) (length msg) \<le> fa_window (cs_flow slot')"
    and "ra_retained (cs_reassembler slot') + length msg \<le> ra_max_message (cs_reassembler slot')"
  shows "\<exists>rest. ce_events (fst (receive r (concat out) False)) =
      ce_events r @ delivery cid (cs_next_send_seq slot) msg # rest \<and>
    (\<forall>ev \<in> set rest. ev_kind ev \<in> {EK_plugin_response, EK_diagnostic})"
proof -
  let ?fs = "data_frames cid (cs_next_send_seq slot) msg (max_fragment caps) (ce_next_frame_seq s) 0"
  have enc: "list_all2 (\<lambda>f bs. encode_frame (engine_limits policy) f = Inr bs) ?fs out"
    by (rule send_frames[OF assms(1-3)])
  obtain t where t: "ce_channels r = Some t" "find_slot t cid = Some slot'" "table_full t"
    "ce_state r = CS_active" "ce_codec r = new_codec (engine_limits policy')"
    "\<not> cs_remote_half_closed slot'" "ra_pending (cs_reassembler slot') (cs_next_recv_seq slot') = None"
    using assms(6) by (auto simp: ready_to_receive_def)
  have pos: "0 < max_fragment caps" by (simp add: max_fragment_def)
  have ok: "flow_ok (cs_flow slot')" "fa_available (cs_flow slot') = fa_window (cs_flow slot')"
    "reassembler_ok (cs_reassembler slot')"
    using slot_of_full[OF t(3,2)] found_slot[OF t(3,2)] by (auto simp: credit_full_def slot_ok_def)
  have fs: "?fs \<noteq> []" using assms(4) pos by (subst data_frames.simps) simp
  have normal: "map normal_frame ?fs = ?fs"
    using data_frames_all[of cid "cs_next_send_seq slot" msg "max_fragment caps" "ce_next_frame_seq s" 0]
    by (intro map_idI) (auto simp: list_all_iff data_frame_normal)
  have "feed (ce_codec r) (concat out) False = (ce_codec r, map DE_frame (map normal_frame ?fs))"
  proof (rule feed_frames)
    show "list_all2 (\<lambda>f bs. encode_frame (engine_limits policy) f = Inr bs \<and>
        length bs \<le> fl_max_frame (fc_limits (ce_codec r))) ?fs out"
      using enc assms(8) t(5)
      by (simp add: list_all2_conv_all_nth list_all_length new_codec_def engine_limits_def)
    show "list_all (\<lambda>f. list_all extension_ok (f_extensions f)) ?fs"
      using data_frames_all[of cid "cs_next_send_seq slot" msg "max_fragment caps" "ce_next_frame_seq s" 0]
      by (auto simp: list_all_iff[of _ ?fs] data_frame_extensions_ok)
  qed (use t(5) fs in \<open>simp_all add: new_codec_def engine_limits_def\<close>)
  then have rcv: "receive r (concat out) False = handle_frames r ?fs"
    unfolding normal by (rule receive_frames)
  have rec: "receptive r t cid slot' (fa_window (cs_flow slot'))"
    using t ok by (simp add: receptive_def)
  have start: "collecting (cs_reassembler slot') (cs_next_send_seq slot) msg [] (cs_reassembler slot')"
    using collecting_start[OF ok(3) _ assms(4)] t(7) assms(7) by simp
  show ?thesis
    unfolding rcv
    using deliver_frames[OF pos assms(4,5) _ ok(3) assms(10,9) rec assms(7)[symmetric] _ start, of 0] assms(4,10)
    by simp
qed

text \<open>Property C1. A message arrives, end to end: what \<open>send\<close> emits for a message, of any length
  and cut into any number of fragments, makes the peer that receives the bytes log exactly one
  delivery, of that message on that channel with its sequence number, and nothing after it but
  the outcome of the plugin. This holds whenever the sender has nothing queued and the
  receiver is active with the channel open and in step, if the frames fit its limit, a fragment
  its credit and the message its receive budget.\<close>

theorem message_arrives:
  assumes "ready_to_send policy s cid slot" "ce_capabilities s = Some caps"
    and "engine_send s cid msg = (s', Inr out)" "0 < length msg" "length msg < 2 ^ 32"
    and "ready_to_receive policy' r cid slot'" "cs_next_recv_seq slot' = cs_next_send_seq slot"
    and "list_all (\<lambda>bs. length bs \<le> lp_max_frame policy') out"
    and "min (max_fragment caps) (length msg) \<le> fa_window (cs_flow slot')"
    and "ra_retained (cs_reassembler slot') + length msg \<le> ra_max_message (cs_reassembler slot')"
  shows "\<exists>rest. ce_events (fst (receive r (concat out) False)) =
      ce_events r @ delivery cid (cs_next_send_seq slot) msg # rest \<and>
    (\<forall>ev \<in> set rest. ev_kind ev \<in> {EK_plugin_response, EK_diagnostic})"
  by (rule message_transfer[OF assms])

text \<open>An engine with channel 1 open, which may send to itself.\<close>

definition open_table :: ChannelTable where
  "open_table = (let t = channel_table 2 4096 1000
     in t\<lparr>ct_slots := [opened_slot t \<lparr>cid_number = 1, cid_generation = 1\<rparr> CH_open (new_slot 4096 1000 0),
                       new_slot 4096 1000 1]\<rparr>)"

definition open_engine :: ConnectionEngine where
  "open_engine = (connection_engine default_policy echo_registry None)
     \<lparr>ce_state := CS_active, ce_channels := Some open_table,
      ce_capabilities := Some (agreed (policy_hello default_policy echo_registry)
                                 (policy_hello default_policy echo_registry))\<rparr>"

abbreviation first_channel :: ChannelId where
  "first_channel \<equiv> \<lparr>cid_number = 1, cid_generation = 1\<rparr>"

definition first_slot :: ChannelSlot where
  "first_slot = ct_slots open_table ! 0"

lemma open_table_reached:
  "fst (accept_remote (channel_table 2 4096 1000) first_channel) = open_table"
  by (simp add: accept_remote_def slot_index_def channel_table_def open_table_def new_slot_def
      opened_slot_def Let_def upt_rec)

lemma open_table_full: "table_full open_table"
  using table_move_full[OF table_full_new table_op_moves(2)[OF table_full_new], of 4096 1000 2 first_channel]
  by (simp add: open_table_reached SIZE_MAX_def)

lemma first_slot_found: "find_slot open_table first_channel = Some first_slot"
  by (simp add: find_slot_Some slot_index_Some first_slot_def open_table_def opened_slot_def
      slot_live_def Let_def)

lemma open_engine_ready:
  "ready_to_send default_policy open_engine first_channel first_slot"
  "ready_to_receive default_policy open_engine first_channel first_slot"
  using open_table_full first_slot_found
    flushed_new[of default_policy echo_registry None]
  by (auto simp: ready_to_send_def ready_to_receive_def open_engine_def connection_engine_def
      engine_limits_def flushed_def expects_def outbound_scheduler_def default_policy_def SIZE_MAX_def
      first_slot_def open_table_def opened_slot_def reassembler_def Let_def)

lemma first_send:
  "\<exists>s' bs. engine_send open_engine first_channel [65] = (s', Inr [bs]) \<and> length bs \<le> 100"
proof -
  let ?caps = "agreed (policy_hello default_policy echo_registry) (policy_hello default_policy echo_registry)"
  have caps: "cap_max_frame ?caps = 65536" "cap_max_message ?caps = 1048576"
    by (simp_all add: agreed_def Let_def policy_hello_def default_policy_def)
  obtain flow where res: "flow_reserve (cs_flow first_slot) 1 = (flow, Inr ())"
    using reserve_available[of 1 "cs_flow first_slot"]
    by (auto simp: first_slot_def open_table_def opened_slot_def flow_account_def channel_table_def Let_def)
  have ch: "ce_channels open_engine = Some open_table" "ce_capabilities open_engine = Some ?caps"
    "ce_state open_engine = CS_active" by (simp_all add: open_engine_def)
  note upd = set_flow_update[OF ch(1) first_slot_found, of flow]
  let ?t1 = "update_slot open_table first_channel (first_slot\<lparr>cs_flow := flow\<rparr>)"
  have "find_slot ?t1 first_channel = Some (first_slot\<lparr>cs_flow := flow\<rparr>)"
    by (simp add: find_slot_Some slot_index_Some update_slot_def first_slot_def open_table_def opened_slot_def
        slot_live_def Let_def)
  moreover have "cs_next_send_seq first_slot = 1"
    by (simp add: first_slot_def open_table_def opened_slot_def Let_def)
  ultimately obtain t2 where seq: "reserve_send_sequence ?t1 first_channel = (t2, Inr 1)"
    by (auto simp: reserve_send_sequence_def)
  let ?e = "open_engine\<lparr>ce_channels := Some t2, ce_next_frame_seq := 2\<rparr>"
  let ?f = "data_frame first_channel 1 [65] 32768 1 0"
  let ?x = "concat (map (\<lambda>i. [0x80, i, 4, 0, 0, 0, if i = 2 then 0 else if i = 4 then 7 else 1]) [1, 2, 3, 4]) :: bytes"
  have x: "write_extensions (f_extensions ?f) = Inr ?x"
    by (simp add: write_extensions_def data_frame_def fragment_extensions_def extension_key_def
        encode_uleb128_ok append_u16_def kRequiredBit_def uleb_bytes_last Let_def u32_bytes_def append_u32_def
        kExtMessageSeq_def kExtFragmentOffset_def kExtMessageTotal_def kExtFamilyId_def)
  let ?bs = "frame_bytes ?f ?x"
  have len: "length ?bs \<le> 100"
    using length_uleb_bytes[of 1] by (simp add: length_frame_bytes data_frame_def)
  have enc: "encode_frame (fc_limits (ce_codec ?e)) ?f = Inr ?bs"
    using len x
    by (simp add: encode_frame_iff open_engine_def connection_engine_def new_codec_def
        kMaxChannelNo_def default_policy_def SIZE_MAX_def)
       (simp add: data_frame_def)
  have fl: "flushed ?e" using open_engine_ready(1) by (simp add: ready_to_send_def)
  obtain e' where em: "emit ?e ?f = (e', Inr [?bs])"
    by (rule emit_flushed_ok[OF fl enc])
      (use len in \<open>simp_all add: open_engine_def connection_engine_def replay_window_def
        window_contains_def expects_def outbound_scheduler_def default_policy_def\<close>)
  have "emit_new (open_engine\<lparr>ce_channels := Some t2\<rparr>) FT_data first_channel [65] (fragment_extensions 1 0 1)
      = (e', Inr [?bs])"
    using em by (simp add: emit_new_def make_frame_def data_frame_def open_engine_def connection_engine_def)
  then have loop: "send_loop (open_engine\<lparr>ce_channels := Some t2\<rparr>) first_channel 1 [65] 32768 0 [] = (e', Inr [?bs])"
    by (simp add: send_loop.simps)
  have "\<not> cs_local_half_closed first_slot"
    by (simp add: first_slot_def open_table_def opened_slot_def Let_def)
  then have "engine_send open_engine first_channel [65] = (release_flow e' first_channel 1, Inr [?bs])"
    using ch first_slot_found caps res upd seq loop by (simp add: engine_send_def max_fragment_def)
  then show ?thesis using len by blast
qed

theorem message_arrives_witness:
  "\<exists>s' out rest. engine_send open_engine first_channel [65] = (s', Inr out) \<and>
     ce_events (fst (receive open_engine (concat out) False)) = delivery first_channel 1 [65] # rest"
proof -
  obtain s' bs where snd: "engine_send open_engine first_channel [65] = (s', Inr [bs])" "length bs \<le> 100"
    using first_send by blast
  have slot: "cs_next_recv_seq first_slot = 1" "cs_next_send_seq first_slot = 1"
    "fa_window (cs_flow first_slot) = 4096" "cs_reassembler first_slot = reassembler 1000"
    by (simp_all add: first_slot_def open_table_def opened_slot_def flow_account_def channel_table_def Let_def)
  have "ce_events open_engine = []" "ce_capabilities open_engine \<noteq> None"
    by (simp_all add: open_engine_def connection_engine_def)
  then show ?thesis
    using message_arrives[OF open_engine_ready(1) _ snd(1) _ _ open_engine_ready(2)] snd slot
    by (fastforce simp: reassembler_def default_policy_def)
qed

text \<open>A history with a channel: the engine above shakes hands with its own kind and opens one.\<close>

lemma table_opens:
  assumes "0 < unat n"
  shows "\<exists>t t'. allocate (channel_table n window max_message) = (t, Inr first_channel) \<and>
    activate t first_channel = (t', Inr ())"
proof -
  obtain k where k: "unat n = Suc k" using assms by (metis gr0_conv_Suc)
  then have slots: "ct_slots (channel_table n window max_message) =
      new_slot window max_message 0 # map (new_slot window max_message) [1..<unat n]"
    by (simp add: channel_table_def upt_conv_Cons del: upt_Suc)
  show ?thesis
    by (simp add: allocate_def slots new_slot_def Let_def activate_def find_slot_def slot_index_def
        opened_slot_def)
qed

lemma echo_opens:
  "\<exists>bs. map ev_kind (ce_events (run_engine (connection_engine default_policy echo_registry None)
      [Op_start, Op_receive bs False, Op_open \<lparr>or_family_id = 7, or_initial_window = 100\<rparr>]))
    = [EK_negotiated, EK_channel_opened]"
proof -
  let ?h = "policy_hello default_policy echo_registry"
  let ?caps = "agreed ?h ?h"
  let ?request = "\<lparr>or_family_id = 7, or_initial_window = 100\<rparr>"
  have win: "lp_connection_window default_policy \<le> SIZE_MAX" by (simp add: default_policy_def SIZE_MAX_def)
  have frame: "lp_max_frame default_policy = 65536" "lp_connection_window default_policy = 1048576"
    by (simp_all add: default_policy_def)
  obtain a out where a: "start (connection_engine default_policy echo_registry None) = (a, Inr out)"
    "length (concat out) \<le> 77" using echo_starts by blast
  have len: "length (concat out) \<le> lp_max_frame default_policy" using a(2) frame by simp
  obtain y where y: "receive a (concat out) False = handle_frames a [hello_frame y]"
    "decode_hello_payload y = Inr (wire_hello ?h)" "greeting default_policy echo_registry a"
    "negotiate ?h (wire_hello ?h) = negotiate ?h ?h"
    by (rule hello_received[OF a(1) a(1) win win echo_fits len])
  have neg: "negotiate ?h (wire_hello ?h) = Inr ?caps"
    using y(4) echo_compatible by (simp add: negotiate_when)
  define n where "n = cap_max_channels ?caps"
  have caps: "cap_plugins ?caps = [echo_descriptor]" "0 < unat n"
    by (simp_all add: n_def agreed_def Let_def policy_hello_def echo_descriptors common_def common_row_def
        combine_def echo_descriptor_def default_policy_def)
  obtain e1 where e1: "receive a (concat out) False = (e1, Inr [])" "ce_state e1 = CS_active"
    "ce_capabilities e1 = Some ?caps"
    "ce_channels e1 = Some (channel_table n (cap_connection_window ?caps div unat n) (cap_max_message ?caps))"
    "map ev_kind (ce_events e1) = [EK_negotiated]" "ce_policy e1 = default_policy" "ce_codec e1 = ce_codec a"
    "flushed e1" "ce_next_frame_seq e1 = 2" "rw_epoch (ce_replay e1) = 1" "\<not> window_contains (ce_replay e1) 2"
    using handle_greeting[OF y(3,2) neg] y(1) unfolding n_def by auto
  obtain t t' where t: "allocate (channel_table n (cap_connection_window ?caps div unat n) (cap_max_message ?caps))
      = (t, Inr first_channel)" "activate t first_channel = (t', Inr ())"
    using table_opens[OF caps(2)] by blast
  let ?e = "e1\<lparr>ce_channels := Some t', ce_next_frame_seq := 3\<rparr>"
  let ?f = "\<lparr>f_type = FT_open, f_flags = 0, f_channel = first_channel, f_frame_seq = 2, f_extensions = [],
      f_payload = append_u32 (append_u32 [] 7) 100\<rparr>"
  have ext: "write_extensions [] = Inr []" by (simp add: write_extensions_def)
  have size: "length (frame_bytes ?f []) \<le> 33"
    using length_uleb_bytes[of 8] by (simp add: length_frame_bytes append_u32_def)
  have enc: "encode_frame (fc_limits (ce_codec ?e)) ?f = Inr (frame_bytes ?f [])"
    using size y(3) frame e1(7) ext
    by (simp add: encode_frame_iff greeting_def new_codec_def engine_limits_def kMaxChannelNo_def SIZE_MAX_def
        append_u32_def)
  obtain e2 where em: "emit ?e ?f = (e2, Inr [frame_bytes ?f []])"
    by (rule emit_flushed_ok[OF _ enc]) (use e1 size frame in simp_all)
  have core: "same_core ?e e2" using same_core_emit[of ?e ?f] em by simp
  have new: "emit_new (e1\<lparr>ce_channels := Some t'\<rparr>) FT_open first_channel (append_u32 (append_u32 [] 7) 100) []
      = (e2, Inr [frame_bytes ?f []])"
    using em e1(9) by (simp add: emit_new_def make_frame_def)
  have "family_negotiated ?caps 7" by (simp add: family_negotiated_def caps(1) echo_descriptor_def)
  then have "open_channel e1 ?request = (push_event EK_channel_opened first_channel 0 [] e2,
      Inr (first_channel, [frame_bytes ?f []]))"
    using e1(2-4) t new by (simp add: open_channel_def)
  moreover have "map ev_kind (ce_events e2) = [EK_negotiated]" using core e1(5) by (simp add: same_core_def)
  ultimately have "map ev_kind (ce_events (fst (open_channel e1 ?request))) = [EK_negotiated, EK_channel_opened]"
    by (simp add: push_event_def)
  then show ?thesis using a(1) e1(1) by (intro exI[of _ "concat out"]) (simp add: run_engine_def)
qed

theorem negotiation_gate_witness:
  "\<exists>bs. let evs = ce_events (run_engine (connection_engine default_policy echo_registry None)
      [Op_start, Op_receive bs False, Op_open \<lparr>or_family_id = 7, or_initial_window = 100\<rparr>])
    in map ev_kind evs = [EK_negotiated, EK_channel_opened] \<and> (\<exists>j < 1. ev_kind (evs ! j) = EK_negotiated)"
proof -
  obtain bs where o: "map ev_kind (ce_events (run_engine (connection_engine default_policy echo_registry None)
      [Op_start, Op_receive bs False, Op_open \<lparr>or_family_id = 7, or_initial_window = 100\<rparr>]))
    = [EK_negotiated, EK_channel_opened]" (is "map ev_kind ?evs = _")
    by (rule exE[OF echo_opens])
  then have "length ?evs = length [EK_negotiated, EK_channel_opened]"
    "map ev_kind ?evs ! 1 = EK_channel_opened" by (metis length_map, simp)
  then have "1 < length ?evs" "channel_kind (ev_kind (?evs ! 1))" by (simp_all add: nth_map)
  then have "\<exists>j < 1. ev_kind (?evs ! j) = EK_negotiated"
    using negotiation_gate[OF default_policy_fits refl, of echo_registry None "[Op_start, Op_receive bs False,
      Op_open \<lparr>or_family_id = 7, or_initial_window = 100\<rparr>]"] by blast
  then show ?thesis unfolding Let_def by (intro exI[of _ bs] conjI o)
qed

end
