(* ===== verification/Gateway.thy ===== *)
theory Gateway
  imports Engine_Session
begin

text \<open>
  The gateway, \<^verbatim>\<open>src/gateway/gateway.cpp\<close> with \<^verbatim>\<open>include/lattice/gateway.hpp\<close>, and the
  in-memory transport, \<^verbatim>\<open>src/transport/memory_transport.cpp\<close>. A translator is code the user
  supplies: a function from payloads to results, the empty \<open>std::function\<close> being \<open>None\<close>. The
  properties say which messages are forwarded and how, which route a source gets, that a bridged
  message reaches the peer of the destination engine, and that the transport is a lossless
  queue.
\<close>

section \<open>Routes and translators\<close>

type_synonym Translator = "bytes \<Rightarrow> bytes result"

record GatewayRoute =
  gr_id :: u64
  gr_source :: ChannelId
  gr_destination :: ChannelId
  gr_family_id :: u32

record GatewayForwardedMessage =
  gm_route_id :: u64
  gm_source :: ChannelId
  gm_destination :: ChannelId
  gm_family_id :: u32
  gm_payload :: bytes

record GatewayPolicy =
  gp_translators :: "(u32 \<times> Translator) list"

record Gateway =
  gw_policy :: GatewayPolicy
  gw_routes :: "(u64 \<times> GatewayRoute) list"
  gw_next_route_id :: u64

definition new_gateway :: Gateway where
  "new_gateway = \<lparr>gw_policy = \<lparr>gp_translators = []\<rparr>, gw_routes = [], gw_next_route_id = 1\<rparr>"

definition has_translator :: "GatewayPolicy \<Rightarrow> u32 \<Rightarrow> bool" where
  "has_translator policy family_id \<longleftrightarrow> om_get (gp_translators policy) family_id \<noteq> None"

definition find_family :: "CapabilitySet \<Rightarrow> u32 \<Rightarrow> PluginDescriptor option" where
  "find_family caps family_id = List.find (\<lambda>d. pd_family_id d = family_id) (cap_plugins caps)"

definition may_forward :: "GatewayPolicy \<Rightarrow> CapabilitySet \<Rightarrow> CapabilitySet \<Rightarrow> u32 \<Rightarrow> bool" where
  "may_forward policy source dest family_id \<longleftrightarrow>
     (if \<not> family_negotiated source family_id \<or> \<not> family_negotiated dest family_id then False
      else case (find_family source family_id, find_family dest family_id) of
        (Some f, Some t) \<Rightarrow> pd_schema_hash f = pd_schema_hash t \<or> has_translator policy family_id
      | _ \<Rightarrow> False)"

definition policy_add_translator ::
  "GatewayPolicy \<Rightarrow> u32 \<Rightarrow> Translator option \<Rightarrow> GatewayPolicy \<times> unit result" where
  "policy_add_translator policy family_id translator =
     (case translator of
        None \<Rightarrow> (policy, Inl (make_error ES_plugin EC_plugin_decode CA_reject_message
                            ''gateway translator descriptor is invalid''))
      | Some f \<Rightarrow>
          if family_id = 0
          then (policy, Inl (make_error ES_plugin EC_plugin_decode CA_reject_message
                               ''gateway translator descriptor is invalid''))
          else (policy\<lparr>gp_translators := om_put family_id f (gp_translators policy)\<rparr>, Inr ()))"

definition translate_payload :: "GatewayPolicy \<Rightarrow> u32 \<Rightarrow> bytes \<Rightarrow> bytes result" where
  "translate_payload policy family_id payload =
     (case om_get (gp_translators policy) family_id of
        None \<Rightarrow> Inr payload
      | Some f \<Rightarrow> f payload)"

definition add_translator :: "Gateway \<Rightarrow> u32 \<Rightarrow> Translator option \<Rightarrow> Gateway \<times> unit result" where
  "add_translator gw family_id translator =
     (let (policy, r) = policy_add_translator (gw_policy gw) family_id translator
      in (gw\<lparr>gw_policy := policy\<rparr>, r))"

definition create_route ::
  "Gateway \<Rightarrow> ChannelId \<Rightarrow> ChannelId \<Rightarrow> u32 \<Rightarrow> Gateway \<times> GatewayRoute result" where
  "create_route gw source destination family_id =
     (if is_control source \<or> is_control destination \<or> family_id = 0
      then (gw, Inl (make_error ES_channel EC_illegal_state CA_reject_message
                       ''gateway route requires two data channels and a family''))
      else
        let route = \<lparr>gr_id = gw_next_route_id gw, gr_source = source, gr_destination = destination,
                     gr_family_id = family_id\<rparr>
        in (gw\<lparr>gw_next_route_id := gw_next_route_id gw + 1,
               gw_routes := om_put (gr_id route) route (gw_routes gw)\<rparr>, Inr route))"

definition find_route :: "Gateway \<Rightarrow> ChannelId \<Rightarrow> GatewayRoute result" where
  "find_route gw source =
     (case List.find (\<lambda>entry. gr_source (snd entry) = source) (gw_routes gw) of
        None \<Rightarrow> Inl (make_error ES_channel EC_illegal_state CA_reject_message
                       ''gateway route source is not registered'')
      | Some entry \<Rightarrow> Inr (snd entry))"

definition gateway_translate ::
  "Gateway \<Rightarrow> CapabilitySet \<Rightarrow> CapabilitySet \<Rightarrow> u32 \<Rightarrow> bytes \<Rightarrow> bytes result" where
  "gateway_translate gw source dest family_id payload =
     (if \<not> may_forward (gw_policy gw) source dest family_id
      then Inl (make_error ES_plugin EC_plugin_decode CA_reject_message
                  ''schema-mismatched opaque forwarding rejected'')
      else case translate_payload (gw_policy gw) family_id payload of
        Inl err \<Rightarrow> Inl err
      | Inr translated \<Rightarrow>
          if length translated > cap_max_message dest
          then Inl (make_error ES_message EC_resource_limit CA_reject_message
                      ''translated payload exceeds destination limit'')
          else Inr translated)"

definition forward ::
  "Gateway \<Rightarrow> CapabilitySet \<Rightarrow> CapabilitySet \<Rightarrow> GatewayRoute \<Rightarrow> bytes \<Rightarrow> bytes result" where
  "forward gw source dest route payload =
     (if gr_id route = 0 \<or> gr_family_id route = 0
      then Inl (make_error ES_channel EC_illegal_state CA_reject_message
                  ''gateway route is not initialized'')
      else gateway_translate gw source dest (gr_family_id route) payload)"

definition bridge_message ::
  "Gateway \<Rightarrow> CapabilitySet \<Rightarrow> CapabilitySet \<Rightarrow> ChannelId \<Rightarrow> bytes \<Rightarrow> GatewayForwardedMessage result" where
  "bridge_message gw from_caps to_caps source payload =
     (case find_route gw source of
        Inl err \<Rightarrow> Inl err
      | Inr route \<Rightarrow>
          (case forward gw from_caps to_caps route payload of
             Inl err \<Rightarrow> Inl err
           | Inr translated \<Rightarrow>
               Inr \<lparr>gm_route_id = gr_id route, gm_source = gr_source route,
                    gm_destination = gr_destination route, gm_family_id = gr_family_id route,
                    gm_payload = translated\<rparr>))"

definition bridge_to_connection ::
  "Gateway \<Rightarrow> CapabilitySet \<Rightarrow> CapabilitySet \<Rightarrow> ConnectionEngine \<Rightarrow> ChannelId \<Rightarrow> bytes \<Rightarrow>
   ConnectionEngine \<times> bytes list result" where
  "bridge_to_connection gw from_caps to_caps destination source payload =
     (case bridge_message gw from_caps to_caps source payload of
        Inl err \<Rightarrow> (destination, Inl err)
      | Inr message \<Rightarrow> engine_send destination (gm_destination message) (gm_payload message))"

section \<open>The in-memory transport\<close>

record MemoryTransport =
  mt_queue :: "bytes list"
  mt_queued_bytes :: nat
  mt_closed :: bool

definition memory_transport :: MemoryTransport where
  "memory_transport = \<lparr>mt_queue = [], mt_queued_bytes = 0, mt_closed = False\<rparr>"

definition transport_write :: "MemoryTransport \<Rightarrow> bytes \<Rightarrow> MemoryTransport" where
  "transport_write t bs =
     t\<lparr>mt_queued_bytes := size_add (mt_queued_bytes t) (length bs), mt_queue := mt_queue t @ [bs]\<rparr>"

definition transport_read :: "MemoryTransport \<Rightarrow> MemoryTransport \<times> bytes option" where
  "transport_read t =
     (case mt_queue t of
        [] \<Rightarrow> (t, None)
      | bs # queue \<Rightarrow>
          (t\<lparr>mt_queue := queue, mt_queued_bytes := size_sub (mt_queued_bytes t) (length bs)\<rparr>, Some bs))"

definition transport_empty :: "MemoryTransport \<Rightarrow> bool" where
  "transport_empty t \<longleftrightarrow> mt_queue t = []"

definition transport_close :: "MemoryTransport \<Rightarrow> MemoryTransport" where
  "transport_close t = t\<lparr>mt_closed := True\<rparr>"

section \<open>What is forwarded\<close>

lemma translate_exact:
  "gateway_translate gw source dest family payload = Inr out \<longleftrightarrow>
     (\<exists>f t. find_family source family = Some f \<and> find_family dest family = Some t \<and>
        (pd_schema_hash f = pd_schema_hash t \<or>
           (\<exists>translator. om_get (gp_translators (gw_policy gw)) family = Some translator))) \<and>
     (case om_get (gp_translators (gw_policy gw)) family of
        None \<Rightarrow> out = payload
      | Some translator \<Rightarrow> translator payload = Inr out) \<and>
     length out \<le> cap_max_message dest"
proof -
  have fam: "family_negotiated caps family \<longleftrightarrow> find_family caps family \<noteq> None" for caps
    by (auto simp: family_negotiated_def find_family_def list_ex_iff find_None_iff)
  show ?thesis
    by (auto simp: gateway_translate_def may_forward_def fam has_translator_def translate_payload_def
        split: option.splits sum.splits if_splits)
qed

text \<open>Remark. Forwarding is exact: a payload of a family is forwarded to a destination exactly
  when both sides have the family, under the same schema hash or with a translator for it, the
  translator (when there is one) accepts the payload, and the result is within the destination's
  message limit; the result is then the translator's, or the payload itself.\<close>

theorem forwarding_exact:
  "gateway_translate gw source dest family payload = Inr out \<longleftrightarrow>
     (\<exists>f t. find_family source family = Some f \<and> find_family dest family = Some t \<and>
        (pd_schema_hash f = pd_schema_hash t \<or>
           (\<exists>translator. om_get (gp_translators (gw_policy gw)) family = Some translator))) \<and>
     (case om_get (gp_translators (gw_policy gw)) family of
        None \<Rightarrow> out = payload
      | Some translator \<Rightarrow> translator payload = Inr out) \<and>
     length out \<le> cap_max_message dest"
  by (rule translate_exact)

section \<open>Which route a source gets\<close>

datatype GatewayOp = Gw_route ChannelId ChannelId u32 | Gw_translator u32 "Translator option"

fun gateway_apply :: "Gateway \<Rightarrow> GatewayOp \<Rightarrow> Gateway" where
  "gateway_apply gw (Gw_route source dest family) = fst (create_route gw source dest family)"
| "gateway_apply gw (Gw_translator family translator) = fst (add_translator gw family translator)"

text \<open>The routes a history asks for and the gateway accepts.\<close>

fun accepted_routes :: "GatewayOp list \<Rightarrow> (ChannelId \<times> ChannelId \<times> u32) list" where
  "accepted_routes [] = []"
| "accepted_routes (Gw_route source dest family # ops) =
     (if is_control source \<or> is_control dest \<or> family = 0 then accepted_routes ops
      else (source, dest, family) # accepted_routes ops)"
| "accepted_routes (Gw_translator family translator # ops) = accepted_routes ops"

definition nth_route :: "nat \<Rightarrow> ChannelId \<times> ChannelId \<times> u32 \<Rightarrow> GatewayRoute" where
  "nth_route i r = \<lparr>gr_id = of_nat (i + 1), gr_source = fst r, gr_destination = fst (snd r),
     gr_family_id = snd (snd r)\<rparr>"

definition numbered :: "(ChannelId \<times> ChannelId \<times> u32) list \<Rightarrow> (u64 \<times> GatewayRoute) list" where
  "numbered rs = map (\<lambda>(i, r). (of_nat (i + 1), nth_route i r)) (enumerate 0 rs)"

lemma numbered_append: "numbered (rs @ [r]) = numbered rs @ [(of_nat (length rs + 1), nth_route (length rs) r)]"
  by (simp add: numbered_def enumerate_append_eq)

lemma om_put_above: "\<forall>k' \<in> fst ` set m. k' < k \<Longrightarrow> om_put k v m = m @ [(k, v)]"
  by (induction k v m rule: om_put.induct) auto

lemma of_nat_u64_less: "i < j \<Longrightarrow> j < 2 ^ 64 \<Longrightarrow> (of_nat i :: u64) < of_nat j"
  by (simp add: word_less_nat_alt unat_of_nat)

lemma numbered_below: "length rs + 1 < 2 ^ 64 \<Longrightarrow> \<forall>k \<in> fst ` set (numbered rs). k < of_nat (length rs + 1)"
  by (auto simp: numbered_def in_set_enumerate_eq intro!: of_nat_u64_less simp del: of_nat_Suc
      simp flip: of_nat_Suc)

lemma gateway_history:
  assumes "gw_routes gw = numbered rs" "gw_next_route_id gw = of_nat (length rs + 1)"
    and "length rs + length (accepted_routes ops) + 1 < 2 ^ 64"
  shows "gw_routes (foldl gateway_apply gw ops) = numbered (rs @ accepted_routes ops)"
  using assms
proof (induction ops arbitrary: gw rs)
  case (Cons op ops)
  show ?case
  proof (cases op)
    case (Gw_route source dest family)
    show ?thesis
    proof (cases "is_control source \<or> is_control dest \<or> family = 0")
      case False
      let ?gw = "gateway_apply gw op"
      have small: "length rs + 1 < 2 ^ 64" using Cons.prems(3) by simp
      have "gw_routes ?gw = numbered (rs @ [(source, dest, family)])"
        using Cons.prems(1,2) Gw_route False om_put_above[OF numbered_below[OF small]]
        by (simp add: create_route_def Let_def numbered_append nth_route_def)
      moreover have "gw_next_route_id ?gw = of_nat (length (rs @ [(source, dest, family)]) + 1)"
        using Cons.prems(2) Gw_route False by (simp add: create_route_def Let_def)
      ultimately show ?thesis
        using Cons.IH[of ?gw "rs @ [(source, dest, family)]"] Cons.prems(3) Gw_route False by simp
    qed (use Cons Gw_route in \<open>simp add: create_route_def\<close>)
  next
    case (Gw_translator family translator)
    then show ?thesis
      using Cons.IH[of "gateway_apply gw op" rs] Cons.prems
      by (simp add: add_translator_def split: prod.split)
  qed
qed simp

lemma route_of_source:
  assumes "length (accepted_routes ops) + 1 < 2 ^ 64"
  shows "find_route (foldl gateway_apply new_gateway ops) source = Inr route \<longleftrightarrow>
    (\<exists>i < length (accepted_routes ops). fst (accepted_routes ops ! i) = source \<and>
       (\<forall>j < i. fst (accepted_routes ops ! j) \<noteq> source) \<and> route = nth_route i (accepted_routes ops ! i))"
proof -
  let ?rs = "accepted_routes ops"
  have routes: "gw_routes (foldl gateway_apply new_gateway ops) = numbered ?rs"
    using gateway_history[of new_gateway "[]" ops] assms by (simp add: new_gateway_def numbered_def)
  have len: "length (numbered ?rs) = length ?rs" by (simp add: numbered_def)
  have nth: "numbered ?rs ! i = (of_nat (i + 1), nth_route i (?rs ! i))" if "i < length ?rs" for i
    using that by (simp add: numbered_def nth_enumerate_eq)
  have src: "gr_source (nth_route i r) = fst r" for i r by (simp add: nth_route_def)
  have "find_route (foldl gateway_apply new_gateway ops) source = Inr route \<longleftrightarrow>
      (\<exists>x. List.find (\<lambda>entry. gr_source (snd entry) = source) (numbered ?rs) = Some x \<and> snd x = route)"
    by (auto simp: find_route_def routes split: option.split)
  also have "\<dots> \<longleftrightarrow> (\<exists>i < length ?rs. gr_source (snd (numbered ?rs ! i)) = source \<and>
      (\<forall>j < i. gr_source (snd (numbered ?rs ! j)) \<noteq> source) \<and> snd (numbered ?rs ! i) = route)"
    unfolding find_Some_iff len by metis
  also have "\<dots> \<longleftrightarrow> (\<exists>i < length ?rs. fst (?rs ! i) = source \<and>
      (\<forall>j < i. fst (?rs ! j) \<noteq> source) \<and> route = nth_route i (?rs ! i))"
  proof (intro ex_cong1 conj_cong refl)
    fix i assume i: "i < length ?rs"
    then show "(\<forall>j < i. gr_source (snd (numbered ?rs ! j)) \<noteq> source) \<longleftrightarrow> (\<forall>j < i. fst (?rs ! j) \<noteq> source)"
      by (simp add: nth src)
    show "gr_source (snd (numbered ?rs ! i)) = source \<longleftrightarrow> fst (?rs ! i) = source"
      "snd (numbered ?rs ! i) = route \<longleftrightarrow> route = nth_route i (?rs ! i)"
      using nth[OF i] src by auto
  qed
  finally show ?thesis .
qed

text \<open>Remark. A source is routed to the first destination registered for it: after any history
  of registrations with fewer than \<open>2 ^ 64 - 1\<close> accepted routes, \<open>find_route\<close> gives the
  earliest accepted route of the source, whose identifier is its number in the history, and an
  error when there is none.\<close>

theorem first_route_wins:
  assumes "length (accepted_routes ops) + 1 < 2 ^ 64"
  shows "find_route (foldl gateway_apply new_gateway ops) source = Inr route \<longleftrightarrow>
    (\<exists>i < length (accepted_routes ops). fst (accepted_routes ops ! i) = source \<and>
       (\<forall>j < i. fst (accepted_routes ops ! j) \<noteq> source) \<and> route = nth_route i (accepted_routes ops ! i))"
  using assms by (rule route_of_source)

theorem first_route_wins_witness:
  "let c = \<lambda>n. \<lparr>cid_number = n, cid_generation = 1\<rparr>;
       ops = [Gw_route (c 1) (c 2) 7, Gw_translator 7 None, Gw_route (c 1) (c 3) 7]
   in find_route (foldl gateway_apply new_gateway ops) (c 1) = Inr (nth_route 0 (c 1, c 2, 7))"
  unfolding Let_def by (subst first_route_wins) (auto simp: is_control_def)

section \<open>Bridging end to end\<close>

text \<open>The translator in force for a family: the last one a history registers for it.\<close>

fun registers :: "u32 \<Rightarrow> GatewayOp \<Rightarrow> Translator option" where
  "registers family (Gw_translator f translator) = (if f = family \<and> f \<noteq> 0 then translator else None)"
| "registers family (Gw_route source dest f) = None"

definition translator_in_force :: "GatewayOp list \<Rightarrow> u32 \<Rightarrow> Translator option" where
  "translator_in_force ops family =
     (case List.find (\<lambda>op. registers family op \<noteq> None) (rev ops) of
        None \<Rightarrow> None
      | Some op \<Rightarrow> registers family op)"

lemma gateway_translators:
  "om_ok (gp_translators (gw_policy (foldl gateway_apply new_gateway ops))) \<and>
   om_get (gp_translators (gw_policy (foldl gateway_apply new_gateway ops))) family = translator_in_force ops family"
proof (induction ops rule: rev_induct)
  case Nil
  then show ?case by (simp add: new_gateway_def translator_in_force_def)
next
  case (snoc op ops)
  have force: "translator_in_force (ops @ [op]) family =
      (case registers family op of None \<Rightarrow> translator_in_force ops family | Some t \<Rightarrow> Some t)"
    by (auto simp: translator_in_force_def)
  show ?case using snoc unfolding force
    by (cases op)
      (auto simp: create_route_def add_translator_def policy_add_translator_def om_get_put_map Let_def
        split: option.splits)
qed

text \<open>What a gateway that has gone through a history of registrations forwards, in terms of the
  history: the first accepted route of the source decides; both sides must have its family, under
  one schema hash unless a translator is in force; the payload goes through the translator, and
  must then be within the destination's message limit.\<close>

definition bridges ::
  "GatewayOp list \<Rightarrow> CapabilitySet \<Rightarrow> CapabilitySet \<Rightarrow> ChannelId \<Rightarrow> bytes \<Rightarrow> GatewayForwardedMessage \<Rightarrow> bool" where
  "bridges ops from_caps to_caps source payload m \<longleftrightarrow>
     (\<exists>i < length (accepted_routes ops).
        accepted_routes ops ! i = (source, gm_destination m, gm_family_id m) \<and>
        (\<forall>j < i. fst (accepted_routes ops ! j) \<noteq> source) \<and> gm_route_id m = of_nat (i + 1)) \<and>
     gm_source m = source \<and>
     (\<exists>f t. find_family from_caps (gm_family_id m) = Some f \<and> find_family to_caps (gm_family_id m) = Some t \<and>
        (pd_schema_hash f = pd_schema_hash t \<or> translator_in_force ops (gm_family_id m) \<noteq> None)) \<and>
     (case translator_in_force ops (gm_family_id m) of
        None \<Rightarrow> gm_payload m = payload
      | Some translator \<Rightarrow> translator payload = Inr (gm_payload m)) \<and>
     length (gm_payload m) \<le> cap_max_message to_caps"

lemma accepted_route_data:
  "(source, dest, family) \<in> set (accepted_routes ops) \<Longrightarrow> family \<noteq> 0 \<and> \<not> is_control dest"
  by (induction ops rule: accepted_routes.induct) (auto split: if_splits)

lemma bridge_message_exact:
  assumes "length (accepted_routes ops) + 1 < 2 ^ 64"
  shows "bridge_message (foldl gateway_apply new_gateway ops) from_caps to_caps source payload = Inr m \<longleftrightarrow>
    bridges ops from_caps to_caps source payload m"
proof -
  let ?gw = "foldl gateway_apply new_gateway ops" and ?rs = "accepted_routes ops"
  have id: "(of_nat (i + 1) :: u64) \<noteq> 0" if "i < length ?rs" for i
    using that assms of_nat_u64_less[of 0 "i + 1"] by (auto simp: word_less_nat_alt)
  have forwarded: "forward ?gw from_caps to_caps (nth_route i (?rs ! i)) payload =
      gateway_translate ?gw from_caps to_caps (snd (snd (?rs ! i))) payload" if "i < length ?rs" for i
    using id[OF that] accepted_route_data[of "fst (?rs ! i)" "fst (snd (?rs ! i))" "snd (snd (?rs ! i))" ops]
      nth_mem[OF that] by (simp add: forward_def nth_route_def)
  have "bridge_message ?gw from_caps to_caps source payload = Inr m \<longleftrightarrow>
      (\<exists>route out. find_route ?gw source = Inr route \<and> forward ?gw from_caps to_caps route payload = Inr out \<and>
         m = \<lparr>gm_route_id = gr_id route, gm_source = gr_source route, gm_destination = gr_destination route,
              gm_family_id = gr_family_id route, gm_payload = out\<rparr>)"
    by (auto simp: bridge_message_def split: sum.splits)
  also have "\<dots> \<longleftrightarrow> (\<exists>i < length ?rs. \<exists>out. fst (?rs ! i) = source \<and> (\<forall>j < i. fst (?rs ! j) \<noteq> source) \<and>
      gateway_translate ?gw from_caps to_caps (snd (snd (?rs ! i))) payload = Inr out \<and>
      m = \<lparr>gm_route_id = of_nat (i + 1), gm_source = source, gm_destination = fst (snd (?rs ! i)),
           gm_family_id = snd (snd (?rs ! i)), gm_payload = out\<rparr>)"
    unfolding route_of_source[OF assms] using forwarded
    by (auto simp: nth_route_def)
  also have "\<dots> \<longleftrightarrow> bridges ops from_caps to_caps source payload m"
    unfolding bridges_def translate_exact conjunct2[OF gateway_translators]
    by (cases m) (auto simp: prod_eq_iff split: option.splits)
  finally show ?thesis .
qed

text \<open>Property C12. Bridging is exact, in terms of the history of the gateway: after any sequence of
  route and translator registrations, accepted and refused, a payload from a source is bridged to
  a message exactly when \<open>bridges\<close> says so, with the id, destination and family of the source's
  first accepted route and the payload as the translator in force leaves it; handing it on is then
  the destination engine's \<open>send\<close> of that payload on that channel, whatever comes of it, and when
  it is not bridged the destination engine is left as it was.\<close>

theorem bridge_exact:
  assumes "length (accepted_routes ops) + 1 < 2 ^ 64"
  shows "(bridge_message (foldl gateway_apply new_gateway ops) from_caps to_caps source payload = Inr m \<longleftrightarrow>
      bridges ops from_caps to_caps source payload m) \<and>
    (bridges ops from_caps to_caps source payload m \<longrightarrow>
      bridge_to_connection (foldl gateway_apply new_gateway ops) from_caps to_caps s source payload =
        engine_send s (gm_destination m) (gm_payload m)) \<and>
    ((\<nexists>m. bridges ops from_caps to_caps source payload m) \<longrightarrow>
      (\<exists>err. bridge_to_connection (foldl gateway_apply new_gateway ops) from_caps to_caps s source payload = (s, Inl err)))"
proof (intro conjI impI)
  let ?b = "bridge_message (foldl gateway_apply new_gateway ops) from_caps to_caps source payload"
  note exact = bridge_message_exact[OF assms, of from_caps to_caps source payload]
  show "?b = Inr m \<longleftrightarrow> bridges ops from_caps to_caps source payload m" by (rule exact)
  show "bridge_to_connection (foldl gateway_apply new_gateway ops) from_caps to_caps s source payload =
      engine_send s (gm_destination m) (gm_payload m)" if "bridges ops from_caps to_caps source payload m"
    using that unfolding exact[symmetric] by (simp add: bridge_to_connection_def)
  show "\<exists>err. bridge_to_connection (foldl gateway_apply new_gateway ops) from_caps to_caps s source payload = (s, Inl err)"
    if "\<nexists>m. bridges ops from_caps to_caps source payload m"
    using that unfolding exact[symmetric] by (cases ?b) (auto simp: bridge_to_connection_def)
qed

text \<open>Remark. A bridged message reaches the far peer, under the conditions of a transfer: when
  the destination engine has nothing queued, its scheduler expects the next frame sequence on the
  channel, its peer is active with the channel open, in step and with nothing collected for the
  message, the frames fit the peer's limit, a fragment its credit and the message its receive
  budget, and the translated payload is not empty, a successful \<open>bridge_to_connection\<close> emits
  bytes that make the peer log exactly one delivery, of the translated payload, on the destination
  of the source's route.\<close>

theorem bridge_delivers:
  assumes "bridge_to_connection gw from_caps to_caps s source payload = (s', Inr out)"
    and "find_route gw source = Inr route"
    and "gateway_translate gw from_caps to_caps (gr_family_id route) payload = Inr msg" "0 < length msg" "length msg < 2 ^ 32"
    and "ready_to_send policy s (gr_destination route) slot" "ce_capabilities s = Some caps"
    and "ready_to_receive policy' r (gr_destination route) slot'"
    and "cs_next_recv_seq slot' = cs_next_send_seq slot"
    and "list_all (\<lambda>bs. length bs \<le> lp_max_frame policy') out"
    and "min (max_fragment caps) (length msg) \<le> fa_window (cs_flow slot')"
    and "ra_retained (cs_reassembler slot') + length msg \<le> ra_max_message (cs_reassembler slot')"
  shows "\<exists>rest. ce_events (fst (receive r (concat out) False)) =
      ce_events r @ delivery (gr_destination route) (cs_next_send_seq slot) msg # rest \<and>
    (\<forall>ev \<in> set rest. ev_kind ev \<in> {EK_plugin_response, EK_diagnostic})"
proof -
  have "engine_send s (gr_destination route) msg = (s', Inr out)"
    using assms(1-3) by (auto simp: bridge_to_connection_def bridge_message_def forward_def split: if_splits)
  then show ?thesis by (rule message_transfer[OF assms(6,7) _ assms(4,5,8-12)])
qed

definition loop_gateway :: Gateway where
  "loop_gateway = fst (create_route new_gateway \<lparr>cid_number = 5, cid_generation = 1\<rparr> first_channel 7)"

lemma echo_caps: "ce_capabilities open_engine =
    Some (agreed (policy_hello default_policy echo_registry) (policy_hello default_policy echo_registry))"
  "cap_plugins (agreed (policy_hello default_policy echo_registry) (policy_hello default_policy echo_registry)) =
     [echo_descriptor]"
  "cap_max_message (agreed (policy_hello default_policy echo_registry) (policy_hello default_policy echo_registry)) =
     1048576"
  by (simp_all add: open_engine_def agreed_def Let_def policy_hello_def echo_descriptors common_def common_row_def
      combine_def echo_descriptor_def default_policy_def)

definition translating_history :: "GatewayOp list" where
  "translating_history =
     [Gw_route \<lparr>cid_number = 5, cid_generation = 1\<rparr> first_channel 7, Gw_translator 7 None,
      Gw_translator 7 (Some (\<lambda>bs. Inr (0 # bs)))]"

lemma translating_bridges:
  "accepted_routes translating_history = [(\<lparr>cid_number = 5, cid_generation = 1\<rparr>, first_channel, 7)]"
  "bridges translating_history (the (ce_capabilities open_engine)) (the (ce_capabilities open_engine))
     \<lparr>cid_number = 5, cid_generation = 1\<rparr> [65]
     \<lparr>gm_route_id = 1, gm_source = \<lparr>cid_number = 5, cid_generation = 1\<rparr>, gm_destination = first_channel,
      gm_family_id = 7, gm_payload = [0, 65]\<rparr>"
proof -
  show routes: "accepted_routes translating_history = [(\<lparr>cid_number = 5, cid_generation = 1\<rparr>, first_channel, 7)]"
    by (simp add: translating_history_def is_control_def)
  have force: "translator_in_force translating_history 7 = Some (\<lambda>bs. Inr (0 # bs))"
    by (simp add: translator_in_force_def translating_history_def)
  show "bridges translating_history (the (ce_capabilities open_engine)) (the (ce_capabilities open_engine))
     \<lparr>cid_number = 5, cid_generation = 1\<rparr> [65]
     \<lparr>gm_route_id = 1, gm_source = \<lparr>cid_number = 5, cid_generation = 1\<rparr>, gm_destination = first_channel,
      gm_family_id = 7, gm_payload = [0, 65]\<rparr>"
    unfolding bridges_def by (simp add: routes force echo_caps find_family_def echo_descriptor_def)
qed

theorem bridge_exact_witness:
  "bridge_to_connection (foldl gateway_apply new_gateway translating_history) (the (ce_capabilities open_engine))
     (the (ce_capabilities open_engine)) open_engine \<lparr>cid_number = 5, cid_generation = 1\<rparr> [65] =
   engine_send open_engine first_channel [0, 65]"
  using bridge_exact[of translating_history "the (ce_capabilities open_engine)" "the (ce_capabilities open_engine)"
      "\<lparr>cid_number = 5, cid_generation = 1\<rparr>" "[65]"
      "\<lparr>gm_route_id = 1, gm_source = \<lparr>cid_number = 5, cid_generation = 1\<rparr>, gm_destination = first_channel,
       gm_family_id = 7, gm_payload = [0, 65]\<rparr>" open_engine]
  by (simp add: translating_bridges)

lemma loop_route:
  "find_route loop_gateway \<lparr>cid_number = 5, cid_generation = 1\<rparr> =
     Inr \<lparr>gr_id = 1, gr_source = \<lparr>cid_number = 5, cid_generation = 1\<rparr>, gr_destination = first_channel, gr_family_id = 7\<rparr>"
  by (simp add: find_route_def loop_gateway_def create_route_def new_gateway_def is_control_def Let_def)

lemma loop_bridges:
  "\<exists>s' bs. bridge_to_connection loop_gateway (the (ce_capabilities open_engine)) (the (ce_capabilities open_engine))
       open_engine \<lparr>cid_number = 5, cid_generation = 1\<rparr> [65] = (s', Inr [bs]) \<and> length bs \<le> 100 \<and>
     gateway_translate loop_gateway (the (ce_capabilities open_engine)) (the (ce_capabilities open_engine)) 7 [65] = Inr [65]"
proof -
  have tr: "gateway_translate loop_gateway (the (ce_capabilities open_engine)) (the (ce_capabilities open_engine)) 7 [65] =
      Inr [65]"
    by (simp add: translate_exact find_family_def echo_caps echo_descriptor_def loop_gateway_def create_route_def
        new_gateway_def is_control_def Let_def)
  obtain s' bs where "engine_send open_engine first_channel [65] = (s', Inr [bs])" "length bs \<le> 100"
    using first_send by blast
  then show ?thesis
    using tr by (intro exI[of _ s'] exI[of _ bs]) (simp add: bridge_to_connection_def bridge_message_def loop_route forward_def)
qed

theorem bridge_delivers_witness:
  "\<exists>s' out rest. bridge_to_connection loop_gateway (the (ce_capabilities open_engine))
       (the (ce_capabilities open_engine)) open_engine \<lparr>cid_number = 5, cid_generation = 1\<rparr> [65] = (s', Inr out) \<and>
     ce_events (fst (receive open_engine (concat out) False)) = delivery first_channel 1 [65] # rest"
proof -
  let ?caps = "the (ce_capabilities open_engine)"
  let ?route = "\<lparr>gr_id = 1, gr_source = \<lparr>cid_number = 5, cid_generation = 1\<rparr>, gr_destination = first_channel,
      gr_family_id = 7\<rparr>"
  obtain s' bs where bridge: "bridge_to_connection loop_gateway ?caps ?caps open_engine
      \<lparr>cid_number = 5, cid_generation = 1\<rparr> [65] = (s', Inr [bs])" "length bs \<le> 100"
    and tr: "gateway_translate loop_gateway ?caps ?caps 7 [65] = Inr [65]"
    using loop_bridges by blast
  have caps: "ce_capabilities open_engine = Some ?caps" "ce_events open_engine = []"
    by (simp_all add: open_engine_def connection_engine_def)
  have slot: "cs_next_recv_seq first_slot = 1" "cs_next_send_seq first_slot = 1"
    "fa_window (cs_flow first_slot) = 4096" "cs_reassembler first_slot = reassembler 1000"
    by (simp_all add: first_slot_def open_table_def opened_slot_def flow_account_def channel_table_def Let_def)
  have frame: "lp_max_frame default_policy = 65536" by (simp add: default_policy_def)
  have budget: "ra_retained (cs_reassembler first_slot) = 0" "ra_max_message (cs_reassembler first_slot) = 1000"
    unfolding slot(4) by (simp_all add: reassembler_def)
  have "\<exists>rest. ce_events (fst (receive open_engine (concat [bs]) False)) =
      ce_events open_engine @ delivery (gr_destination ?route) (cs_next_send_seq first_slot) [65] # rest \<and>
    (\<forall>ev \<in> set rest. ev_kind ev \<in> {EK_plugin_response, EK_diagnostic})"
    by (rule bridge_delivers[OF bridge(1) loop_route _ _ _ _ caps(1), where policy = default_policy and policy' = default_policy
        and slot' = first_slot])
      (use tr bridge(2) slot(1-3) open_engine_ready frame budget in
        \<open>simp_all add: min_le_iff_disj del: reassembler_ok_new\<close>)
  then show ?thesis using bridge caps slot by auto
qed

section \<open>The transport is a lossless queue\<close>

datatype TransportOp = Mt_write bytes | Mt_read

text \<open>A history: the transport, and everything read so far.\<close>

fun transport_step :: "MemoryTransport \<times> bytes list \<Rightarrow> TransportOp \<Rightarrow> MemoryTransport \<times> bytes list" where
  "transport_step (t, got) (Mt_write bs) = (transport_write t bs, got)"
| "transport_step (t, got) Mt_read =
     (case transport_read t of (t', None) \<Rightarrow> (t', got) | (t', Some bs) \<Rightarrow> (t', got @ [bs]))"

definition transport_run :: "TransportOp list \<Rightarrow> MemoryTransport \<times> bytes list" where
  "transport_run ops = foldl transport_step (memory_transport, []) ops"

fun written :: "TransportOp list \<Rightarrow> bytes list" where
  "written [] = []"
| "written (Mt_write bs # ops) = bs # written ops"
| "written (Mt_read # ops) = written ops"

lemma written_append [simp]: "written (xs @ ys) = written xs @ written ys"
  by (induction xs rule: written.induct) simp_all

text \<open>Remark. The in-memory transport loses, repeats and reorders nothing: what was read, then
  what is queued, is what was written, in order, and its byte count is the size of the queue (if
  all that was ever written is below \<open>2 ^ 64\<close> bytes).\<close>

theorem transport_lossless:
  assumes "transport_run ops = (t, got)" "length (concat (written ops)) \<le> SIZE_MAX"
  shows "got @ mt_queue t = written ops \<and> mt_queued_bytes t = length (concat (mt_queue t))"
  using assms unfolding transport_run_def
proof (induction ops arbitrary: t got rule: rev_induct)
  case Nil
  then show ?case by (auto simp: memory_transport_def)
next
  case (snoc op ops)
  obtain t1 got1 where h: "foldl transport_step (memory_transport, []) ops = (t1, got1)" by fastforce
  have small: "length (concat (written ops)) \<le> SIZE_MAX" using snoc.prems(2) by simp
  have ih: "got1 @ mt_queue t1 = written ops" "mt_queued_bytes t1 = length (concat (mt_queue t1))"
    using snoc.IH[OF h small] by simp_all
  show ?case
  proof (cases op)
    case (Mt_write bs)
    have "length (concat (mt_queue t1)) \<le> length (concat (written ops))" by (simp flip: ih(1))
    then show ?thesis using Mt_write snoc.prems h ih by (auto simp: transport_write_def)
  next
    case Mt_read
    then show ?thesis using snoc.prems h ih
      by (cases "mt_queue t1") (auto simp: transport_read_def size_sub_def)
  qed
qed

theorem transport_lossless_witness:
  "let r = transport_run [Mt_write [1, 2], Mt_write [3], Mt_read]
   in snd r @ mt_queue (fst r) = [[1, 2], [3]]"
  using transport_lossless[of "[Mt_write [1, 2], Mt_write [3], Mt_read]"
      "fst (transport_run [Mt_write [1, 2], Mt_write [3], Mt_read])"
      "snd (transport_run [Mt_write [1, 2], Mt_write [3], Mt_read])"]
  by (simp add: SIZE_MAX_def Let_def)

end
