(* ===== verification/Trace.thy ===== *)
theory Trace
  imports Text_Format "HOL-Library.Multiset"
begin

text \<open>
  Recorded traces, \<^verbatim>\<open>src/replay/trace.cpp\<close> and \<^verbatim>\<open>include/lattice/trace.hpp\<close>: the log of timed
  events, its text form, the reader of that form, and the replay check. The lemmas show that a
  log built by \<open>record\<close> is always in time order with equal times in recording order, that its
  text reads back as the same log, and therefore that the replay check accepts every log that
  can be written.
\<close>

section \<open>Events and logs\<close>

datatype TraceKind = TK_transport_bytes | TK_api_event | TK_timer | TK_plugin_completion | TK_diagnostic

record TraceEvent =
  te_time_ms :: u64
  te_kind :: TraceKind
  te_label :: string
  te_bytes :: bytes

record TraceLog =
  tl_events :: "TraceEvent list"

record TraceReplayReport =
  tr_total_events :: nat
  tr_transport_events :: nat
  tr_api_events :: nat
  tr_timer_events :: nat
  tr_plugin_events :: nat
  tr_diagnostic_events :: nat
  tr_total_bytes :: nat
  tr_canonical :: bool

definition new_trace :: TraceLog where
  "new_trace = \<lparr>tl_events = []\<rparr>"

definition new_replay_report :: TraceReplayReport where
  "new_replay_report =
     \<lparr>tr_total_events = 0, tr_transport_events = 0, tr_api_events = 0, tr_timer_events = 0,
      tr_plugin_events = 0, tr_diagnostic_events = 0, tr_total_bytes = 0, tr_canonical = False\<rparr>"

definition trace_error :: "string \<Rightarrow> Error" where
  "trace_error detail = make_error ES_connection EC_resource_limit CA_none detail"

fun trace_kind_name :: "TraceKind \<Rightarrow> string" where
  "trace_kind_name TK_transport_bytes = ''transport''"
| "trace_kind_name TK_api_event = ''api''"
| "trace_kind_name TK_timer = ''timer''"
| "trace_kind_name TK_plugin_completion = ''plugin''"
| "trace_kind_name TK_diagnostic = ''diagnostic''"

definition parse_kind :: "string \<Rightarrow> TraceKind result" where
  "parse_kind s =
     (if s = ''transport'' then Inr TK_transport_bytes
      else if s = ''api'' then Inr TK_api_event
      else if s = ''timer'' then Inr TK_timer
      else if s = ''plugin'' then Inr TK_plugin_completion
      else if s = ''diagnostic'' then Inr TK_diagnostic
      else Inl (trace_error ''unknown trace event kind''))"

definition trace_parse_hex :: "string \<Rightarrow> bytes result" where
  "trace_parse_hex s =
     (if length s mod 2 \<noteq> 0 then Inl (trace_error ''trace hex has odd length'')
      else hex_loop (trace_error ''trace hex contains non-hex byte'') [] s)"

definition trace_parse_u64 :: "string \<Rightarrow> nat result" where
  "trace_parse_u64 s =
     (if s = [] then Inl (trace_error ''trace timestamp is empty'')
      else decimal_loop u64_over (trace_error ''trace timestamp is not decimal'')
             (trace_error ''trace timestamp overflows u64'') 0 s)"

text \<open>\<open>record\<close> appends and sorts stably by time.\<close>

definition trace_record :: "TraceLog \<Rightarrow> TraceEvent \<Rightarrow> TraceLog" where
  "trace_record log event = log\<lparr>tl_events := sort_key te_time_ms (tl_events log @ [event])\<rparr>"

section \<open>The text form\<close>

definition trace_line :: "TraceEvent \<Rightarrow> string" where
  "trace_line event =
     decimal (unat (te_time_ms event)) @ ''|'' @ trace_kind_name (te_kind event) @ ''|'' @
     te_label event @ ''|'' @ hex (te_bytes event) @ [CHR 0x0A]"

fun serialize_events :: "string \<Rightarrow> TraceEvent list \<Rightarrow> string result" where
  "serialize_events out [] = Inr out"
| "serialize_events out (event # events) =
     (if CHR ''|'' \<in> set (te_label event) \<or> CHR 0x0A \<in> set (te_label event)
      then Inl (trace_error ''trace labels cannot contain separators'')
      else serialize_events (out @ trace_line event) events)"

definition trace_serialize :: "TraceLog \<Rightarrow> string result" where
  "trace_serialize log = serialize_events (''LTXTRACE/1'' @ [CHR 0x0A]) (tl_events log)"

text \<open>One line: the three separators first, then the fields in order.\<close>

definition parse_trace_line :: "string \<Rightarrow> TraceEvent result" where
  "parse_trace_line line =
     (case cut_at (CHR ''|'') line of
        None \<Rightarrow> Inl (trace_error ''malformed trace line'')
      | Some (time_text, rest1) \<Rightarrow>
          (case cut_at (CHR ''|'') rest1 of
             None \<Rightarrow> Inl (trace_error ''malformed trace line'')
           | Some (kind_text, rest2) \<Rightarrow>
               (case cut_at (CHR ''|'') rest2 of
                  None \<Rightarrow> Inl (trace_error ''malformed trace line'')
                | Some (label, hex_text) \<Rightarrow>
                    (case trace_parse_u64 time_text of
                       Inl e \<Rightarrow> Inl e
                     | Inr time \<Rightarrow>
                         (case parse_kind kind_text of
                            Inl e \<Rightarrow> Inl e
                          | Inr kind \<Rightarrow>
                              (case trace_parse_hex hex_text of
                                 Inl e \<Rightarrow> Inl e
                               | Inr bs \<Rightarrow>
                                   Inr \<lparr>te_time_ms = of_nat time, te_kind = kind,
                                        te_label = label, te_bytes = bs\<rparr>))))))"

fun parse_trace_lines :: "TraceLog \<Rightarrow> string list \<Rightarrow> TraceLog result" where
  "parse_trace_lines log [] = Inr log"
| "parse_trace_lines log (line # lines) =
     (if line = [] then parse_trace_lines log lines
      else case parse_trace_line line of
        Inl e \<Rightarrow> Inl e
      | Inr event \<Rightarrow> parse_trace_lines (trace_record log event) lines)"

definition trace_parse :: "string \<Rightarrow> TraceLog result" where
  "trace_parse s =
     (case getlines s of
        [] \<Rightarrow> Inl (trace_error ''trace header mismatch'')
      | header # lines \<Rightarrow>
          if header \<noteq> ''LTXTRACE/1'' then Inl (trace_error ''trace header mismatch'')
          else parse_trace_lines new_trace lines)"

section \<open>The replay check\<close>

definition sequence_failure :: "string \<Rightarrow> Error" where
  "sequence_failure detail = make_error ES_connection EC_sequence_error CA_none detail"

fun count_kind :: "TraceKind \<Rightarrow> TraceReplayReport \<Rightarrow> TraceReplayReport" where
  "count_kind TK_transport_bytes r = r\<lparr>tr_transport_events := tr_transport_events r + 1\<rparr>"
| "count_kind TK_api_event r = r\<lparr>tr_api_events := tr_api_events r + 1\<rparr>"
| "count_kind TK_timer r = r\<lparr>tr_timer_events := tr_timer_events r + 1\<rparr>"
| "count_kind TK_plugin_completion r = r\<lparr>tr_plugin_events := tr_plugin_events r + 1\<rparr>"
| "count_kind TK_diagnostic r = r\<lparr>tr_diagnostic_events := tr_diagnostic_events r + 1\<rparr>"

text \<open>The counting loop; \<open>previous\<close> is \<open>None\<close> while \<open>first\<close> holds. A counter of events is at
  most the size of the vector, so only the sum of the sizes can wrap.\<close>

fun replay_loop :: "TraceReplayReport \<Rightarrow> u64 option \<Rightarrow> TraceEvent list \<Rightarrow> TraceReplayReport result" where
  "replay_loop report previous [] = Inr report"
| "replay_loop report previous (event # events) =
     (if (case previous of None \<Rightarrow> False | Some p \<Rightarrow> te_time_ms event < p)
      then Inl (sequence_failure ''trace replay timestamps are not monotonic'')
      else replay_loop
             (count_kind (te_kind event)
                (report\<lparr>tr_total_events := tr_total_events report + 1,
                        tr_total_bytes := size_add (tr_total_bytes report) (length (te_bytes event))\<rparr>))
             (Some (te_time_ms event)) events)"

definition verify_trace_replay :: "TraceLog \<Rightarrow> TraceReplayReport result" where
  "verify_trace_replay log =
     (case replay_loop new_replay_report None (tl_events log) of
        Inl e \<Rightarrow> Inl e
      | Inr report \<Rightarrow>
          (case trace_serialize log of
             Inl e \<Rightarrow> Inl e
           | Inr serialized \<Rightarrow>
               (case trace_parse serialized of
                  Inl e \<Rightarrow> Inl e
                | Inr reparsed \<Rightarrow>
                    (case trace_serialize reparsed of
                       Inl e \<Rightarrow> Inl e
                     | Inr reserialized \<Rightarrow>
                         if serialized = reserialized then Inr (report\<lparr>tr_canonical := True\<rparr>)
                         else Inl (sequence_failure ''trace replay is not canonical'')))))"

section \<open>A log is its events sorted by time\<close>

definition recorded :: "TraceEvent list \<Rightarrow> TraceLog" where
  "recorded es = foldl trace_record new_trace es"

lemma filter_key_sort: "filter (\<lambda>y. f k = f y) (sort_key f xs) = filter (\<lambda>y. f k = f y) xs"
  using sort_key_stable[of f "f k" xs] by (simp add: eq_commute)

lemma sort_again: "sort_key f (sort_key f xs @ [x]) = sort_key f (xs @ [x])" for f :: "'a \<Rightarrow> 'b::linorder"
  by (rule properties_for_sort_key) (simp_all only: filter_key_sort filter_append sorted_sort_key
      mset_sort mset_append)

lemma recorded_events: "tl_events (recorded es) = sort_key te_time_ms es"
proof (induction es rule: rev_induct)
  case (snoc e es)
  have "tl_events (recorded (es @ [e])) = sort_key te_time_ms (tl_events (recorded es) @ [e])"
    by (simp add: recorded_def trace_record_def)
  then show ?case by (simp only: snoc.IH sort_again)
qed (simp add: recorded_def new_trace_def)

lemma recorded_sorted: "sorted (map te_time_ms es) \<Longrightarrow> recorded es = \<lparr>tl_events = es\<rparr>"
  using recorded_events[of es] by (cases "recorded es") (simp add: sort_key_id_if_sorted)

lemma recorded_again: "recorded (tl_events (recorded es)) = recorded es"
  using recorded_sorted[of "sort_key te_time_ms es"] recorded_events[of es]
  by (cases "recorded es") simp

section \<open>The reader inverts the writer\<close>

definition clean_label :: "TraceEvent \<Rightarrow> bool" where
  "clean_label event \<longleftrightarrow> CHR ''|'' \<notin> set (te_label event) \<and> CHR 0x0A \<notin> set (te_label event)"

definition trace_text :: "TraceEvent \<Rightarrow> string" where
  "trace_text event = decimal (unat (te_time_ms event)) @ CHR ''|'' # trace_kind_name (te_kind event) @
     CHR ''|'' # te_label event @ CHR ''|'' # hex (te_bytes event)"

lemma trace_line_text: "trace_line event = trace_text event @ [CHR 0x0A]"
  by (simp add: trace_line_def trace_text_def)

lemma kind_name_plain [simp]: "CHR ''|'' \<notin> set (trace_kind_name k)" "CHR 0x0A \<notin> set (trace_kind_name k)"
  by (cases k; simp)+

lemma parse_kind_name [simp]: "parse_kind (trace_kind_name k) = Inr k"
  by (cases k) (simp_all add: parse_kind_def)

lemma trace_text_line: "clean_label e \<Longrightarrow> CHR 0x0A \<notin> set (trace_text e)" "trace_text e \<noteq> []"
  by (auto simp: trace_text_def clean_label_def)

lemma parse_trace_text: "clean_label e \<Longrightarrow> parse_trace_line (trace_text e) = Inr e"
proof -
  assume clean: "clean_label e"
  have time_bound: "unat (te_time_ms e) < 2 ^ 64"
    using unsigned_less[of "te_time_ms e"] by simp
  have time: "trace_parse_u64 (decimal (unat (te_time_ms e))) = Inr (unat (te_time_ms e))"
    using time_bound
    by (simp add: trace_parse_u64_def u64_text.loop_decimal)
  have "trace_parse_hex (hex (te_bytes e)) = Inr (te_bytes e)"
    by (simp add: trace_parse_hex_def hex_loop_hex)
  then show ?thesis using clean time unfolding parse_trace_line_def trace_text_def clean_label_def
    by (simp only: cut_at_append[OF no_bar_decimal(1)] cut_at_append[OF kind_name_plain(1)]
        cut_at_append option.case prod.case sum.case parse_kind_name) simp
qed

lemma serialize_events_exact:
  "serialize_events out es =
     (if list_all clean_label es then Inr (out @ concat (map trace_line es))
      else Inl (trace_error ''trace labels cannot contain separators''))"
  by (induction es arbitrary: out) (auto simp: clean_label_def)

lemma getlines_trace:
  "list_all clean_label es \<Longrightarrow> getlines (concat (map trace_line es)) = map trace_text es"
  by (induction es) (simp_all add: trace_line_text getlines_line trace_text_line)

lemma parse_trace_texts:
  "list_all clean_label es \<Longrightarrow>
     parse_trace_lines log (map trace_text es) = Inr (foldl trace_record log es)"
  by (induction es arbitrary: log) (simp_all add: parse_trace_text trace_text_line)

lemma trace_serialize_exact:
  "trace_serialize log =
     (if list_all clean_label (tl_events log)
      then Inr (''LTXTRACE/1'' @ [CHR 0x0A] @ concat (map trace_line (tl_events log)))
      else Inl (trace_error ''trace labels cannot contain separators''))"
  by (simp add: trace_serialize_def serialize_events_exact)

lemma trace_parse_serialized:
  assumes "list_all clean_label es"
  shows "trace_parse (''LTXTRACE/1'' @ [CHR 0x0A] @ concat (map trace_line es)) = Inr (recorded es)"
proof -
  have "getlines (''LTXTRACE/1'' @ [CHR 0x0A] @ concat (map trace_line es)) =
      ''LTXTRACE/1'' # map trace_text es"
    using getlines_line[of "''LTXTRACE/1''" "concat (map trace_line es)"] getlines_trace[OF assms]
    by simp
  then show ?thesis by (simp add: trace_parse_def parse_trace_texts[OF assms] recorded_def)
qed

lemma parsed_line_clean: "parse_trace_line line = Inr e \<Longrightarrow> CHR 0x0A \<notin> set line \<Longrightarrow> clean_label e"
  by (auto simp: parse_trace_line_def clean_label_def split: option.splits prod.splits sum.splits
      dest!: cut_parts) blast

lemma parse_trace_lines_recorded:
  "parse_trace_lines log lines = Inr log' \<Longrightarrow> list_all (\<lambda>l. CHR 0x0A \<notin> set l) lines \<Longrightarrow>
     \<exists>es. list_all clean_label es \<and> log' = foldl trace_record log es"
proof (induction lines arbitrary: log)
  case (Cons line lines)
  show ?case
  proof (cases "line = []")
    case False
    then obtain e where e: "parse_trace_line line = Inr e"
      and rest: "parse_trace_lines (trace_record log e) lines = Inr log'"
      using Cons.prems(1) by (auto split: sum.splits)
    obtain es where "list_all clean_label es" "log' = foldl trace_record (trace_record log e) es"
      using Cons.IH[OF rest] Cons.prems(2) by auto
    then show ?thesis using parsed_line_clean[OF e] Cons.prems(2)
      by (intro exI[of _ "e # es"]) simp
  qed (use Cons in simp)
qed (auto intro: exI[of _ "[]"])

text \<open>Property C26. Traces survive being written: the text of a recorded log reads back as the same
  log, and whatever text is accepted stands for a log that can be recorded and, written again,
  gives a text that reads back as it.\<close>

theorem trace_roundtrip:
  "(trace_serialize (recorded es) = Inr s \<longrightarrow> trace_parse s = Inr (recorded es)) \<and>
   (trace_parse s = Inr log \<longrightarrow>
      (\<exists>es. log = recorded es) \<and> (\<exists>t. trace_serialize log = Inr t \<and> trace_parse t = Inr log))"
proof (rule conjI; rule impI)
  assume "trace_serialize (recorded es) = Inr s"
  then show "trace_parse s = Inr (recorded es)"
    using trace_parse_serialized[of "tl_events (recorded es)"]
    by (auto simp: trace_serialize_exact recorded_again split: if_splits)
next
  assume p: "trace_parse s = Inr log"
  then obtain es where es: "list_all clean_label es" "log = recorded es"
    using parse_trace_lines_recorded[of new_trace "tl (getlines s)" log] getlines_plain[of _ s]
    by (auto simp: trace_parse_def recorded_def list_all_iff split: list.splits if_splits)
  then have "list_all clean_label (tl_events log)" by (simp add: recorded_events list_all_iff)
  then show "(\<exists>es. log = recorded es) \<and> (\<exists>t. trace_serialize log = Inr t \<and> trace_parse t = Inr log)"
    using trace_parse_serialized[of "tl_events log"] es(2)
    by (auto simp: trace_serialize_exact recorded_again)
qed

definition sample_events :: "TraceEvent list" where
  "sample_events =
     [\<lparr>te_time_ms = 20, te_kind = TK_timer, te_label = ''late'', te_bytes = [255]\<rparr>,
      \<lparr>te_time_ms = 5, te_kind = TK_transport_bytes, te_label = [], te_bytes = [1, 16]\<rparr>]"

definition sample_trace :: string where
  "sample_trace = ''LTXTRACE/1'' @ [CHR 0x0A] @ ''5|transport||0110'' @ [CHR 0x0A] @
     ''20|timer|late|ff'' @ [CHR 0x0A]"

lemma sample_serialized: "trace_serialize (recorded sample_events) = Inr sample_trace"
  by (simp add: trace_serialize_exact recorded_events sample_events_def sample_trace_def
      clean_label_def trace_line_def decimal.simps digit_char_def hex_byte_def hex_digit_def
      char_of_eq_iff)

theorem trace_roundtrip_witness:
  "trace_parse sample_trace = Inr (recorded sample_events)"
  using trace_roundtrip[of sample_events sample_trace new_trace] sample_serialized by blast

section \<open>What the replay check reports\<close>

definition kind_count :: "TraceKind \<Rightarrow> TraceEvent list \<Rightarrow> nat" where
  "kind_count k es = length (filter (\<lambda>e. te_kind e = k) es)"

lemma kind_count_simps [simp]:
  "kind_count k [] = 0"
  "kind_count k (e # es) = (if te_kind e = k then 1 else 0) + kind_count k es"
  by (simp_all add: kind_count_def)

definition payload_sum :: "TraceEvent list \<Rightarrow> nat" where
  "payload_sum es = sum_list (map (\<lambda>e. length (te_bytes e)) es)"

lemma replay_loop_exact:
  "sorted (map te_time_ms es) \<Longrightarrow> (\<forall>p. previous = Some p \<longrightarrow> (\<forall>e \<in> set es. p \<le> te_time_ms e)) \<Longrightarrow>
   tr_total_bytes r \<le> SIZE_MAX \<Longrightarrow>
   replay_loop r previous es = Inr
     (r\<lparr>tr_total_events := tr_total_events r + length es,
        tr_transport_events := tr_transport_events r + kind_count TK_transport_bytes es,
        tr_api_events := tr_api_events r + kind_count TK_api_event es,
        tr_timer_events := tr_timer_events r + kind_count TK_timer es,
        tr_plugin_events := tr_plugin_events r + kind_count TK_plugin_completion es,
        tr_diagnostic_events := tr_diagnostic_events r + kind_count TK_diagnostic es,
        tr_total_bytes := size_add (tr_total_bytes r) (payload_sum es)\<rparr>)"
proof (induction es arbitrary: r previous)
  case Nil
  then show ?case by (simp add: payload_sum_def)
next
  case (Cons e es)
  let ?r = "count_kind (te_kind e) (r\<lparr>tr_total_events := tr_total_events r + 1,
    tr_total_bytes := size_add (tr_total_bytes r) (length (te_bytes e))\<rparr>)"
  have order: "\<not> (case previous of None \<Rightarrow> False | Some p \<Rightarrow> te_time_ms e < p)"
    using Cons.prems(2) by (auto split: option.splits)
  have bounded: "tr_total_bytes ?r \<le> SIZE_MAX"
    by (cases "te_kind e") (simp_all add: size_add_def less_Suc_eq_le[symmetric])
  have bytes: "size_add (size_add (tr_total_bytes r) (length (te_bytes e))) (payload_sum es) =
      size_add (tr_total_bytes r) (payload_sum (e # es))"
    by (simp add: size_add_def payload_sum_def mod_simps add.assoc)
  have "replay_loop r previous (e # es) = replay_loop ?r (Some (te_time_ms e)) es"
    using order by (simp only: replay_loop.simps if_False)
  then show ?case
    using Cons.IH[of "Some (te_time_ms e)" ?r, OF _ _ bounded] Cons.prems(1) bytes
    by (cases "te_kind e") (simp_all add: SIZE_MAX_def)
qed

definition report_of :: "TraceEvent list \<Rightarrow> TraceReplayReport" where
  "report_of es =
     \<lparr>tr_total_events = length es, tr_transport_events = kind_count TK_transport_bytes es,
      tr_api_events = kind_count TK_api_event es, tr_timer_events = kind_count TK_timer es,
      tr_plugin_events = kind_count TK_plugin_completion es,
      tr_diagnostic_events = kind_count TK_diagnostic es,
      tr_total_bytes = payload_sum es mod 2 ^ 64, tr_canonical = True\<rparr>"

lemma report_of_sort: "report_of (sort_key f es) = report_of es" for f :: "TraceEvent \<Rightarrow> 'b::linorder"
proof -
  have "kind_count k (sort_key f es) = kind_count k es" for k
    unfolding kind_count_def by (simp add: filter_sort)
  moreover have "mset (map (\<lambda>e. length (te_bytes e)) (sort_key f es)) =
      mset (map (\<lambda>e. length (te_bytes e)) es)" by simp
  then have "payload_sum (sort_key f es) = payload_sum es"
    unfolding payload_sum_def by (metis sum_mset_sum_list)
  ultimately show ?thesis by (simp add: report_of_def)
qed

lemma recorded_verified:
  "tl_events (recorded es) = sort_key te_time_ms es \<and>
   verify_trace_replay (recorded es) =
     (if list_all clean_label es then Inr (report_of es)
      else Inl (trace_error ''trace labels cannot contain separators''))"
proof (rule conjI, rule recorded_events)
  let ?log = "recorded es"
  have sorted: "sorted (map te_time_ms (tl_events ?log))" by (simp add: recorded_events)
  have loop: "replay_loop new_replay_report None (tl_events ?log) =
      Inr ((report_of es)\<lparr>tr_canonical := False\<rparr>)"
    using replay_loop_exact[OF sorted, of None new_replay_report] report_of_sort[of te_time_ms es]
    by (simp add: new_replay_report_def recorded_events report_of_def size_add_def SIZE_MAX_def)
  have clean: "list_all clean_label (tl_events ?log) = list_all clean_label es"
    by (simp add: recorded_events list_all_iff)
  show "verify_trace_replay ?log =
     (if list_all clean_label es then Inr (report_of es)
      else Inl (trace_error ''trace labels cannot contain separators''))"
    using loop clean trace_parse_serialized[of "tl_events ?log"]
    by (simp add: verify_trace_replay_def trace_serialize_exact recorded_again report_of_def)
qed

text \<open>Remark. A recorded log is its events in time order, those of equal time in the order
  they were recorded; the replay check accepts every one that can be written and counts it exactly: the events of each kind and the bytes of all of them (in 64 bits). The only log it
  refuses is one with a separator in a label; the errors about time order and about the
  canonical form never occur.\<close>

theorem trace_verified:
  "tl_events (recorded es) = sort_key te_time_ms es \<and>
   verify_trace_replay (recorded es) =
     (if list_all clean_label es then Inr (report_of es)
      else Inl (trace_error ''trace labels cannot contain separators''))"
  by (rule recorded_verified)

end
