(* ===== verification/Route_Policy.thy ===== *)
theory Route_Policy
  imports Gateway Text_Format
begin

text \<open>
  Route policy files, \<^verbatim>\<open>src/gateway/route_policy.cpp\<close> and \<^verbatim>\<open>include/lattice/route_policy.hpp\<close>: the
  line parser with its state, the validator, the canonical text, and what applying a policy does
  to a gateway. The lemmas say exactly which documents some text stands for, that the canonical
  text of such a document reads back as it, what the validator accepts, and that a gateway
  loaded from an accepted policy routes every source to the destination the policy names.
\<close>

section \<open>Documents and diagnostics\<close>

record RoutePolicyEntry =
  rp_name :: string
  rp_source :: ChannelId
  rp_destination :: ChannelId
  rp_family_id :: u32
  rp_payload :: bytes

definition default_entry :: RoutePolicyEntry where
  "default_entry =
     \<lparr>rp_name = [], rp_source = \<lparr>cid_number = 1, cid_generation = 1\<rparr>,
      rp_destination = \<lparr>cid_number = 2, cid_generation = 1\<rparr>, rp_family_id = 7, rp_payload = []\<rparr>"

record RoutePolicyDocument =
  rd_routes :: "RoutePolicyEntry list"

datatype RoutePolicyDiagnosticCode =
    RP_missing_key | RP_duplicate_key | RP_malformed_line | RP_invalid_integer | RP_invalid_channel
  | RP_invalid_hex | RP_empty_route | RP_duplicate_source | RP_duplicate_name | RP_unknown_key

record RoutePolicyDiagnostic =
  rg_code :: RoutePolicyDiagnosticCode
  rg_line :: nat
  rg_detail :: string

record RoutePolicyValidation =
  rv_diagnostics :: "RoutePolicyDiagnostic list"

definition validation_ok :: "RoutePolicyValidation \<Rightarrow> bool" where
  "validation_ok v \<longleftrightarrow> rv_diagnostics v = []"

fun diagnostic_code_text :: "RoutePolicyDiagnosticCode \<Rightarrow> string" where
  "diagnostic_code_text RP_missing_key = ''missing_key''"
| "diagnostic_code_text RP_duplicate_key = ''duplicate_key''"
| "diagnostic_code_text RP_malformed_line = ''malformed_line''"
| "diagnostic_code_text RP_invalid_integer = ''invalid_integer''"
| "diagnostic_code_text RP_invalid_channel = ''invalid_channel''"
| "diagnostic_code_text RP_invalid_hex = ''invalid_hex''"
| "diagnostic_code_text RP_empty_route = ''empty_route''"
| "diagnostic_code_text RP_duplicate_source = ''duplicate_source''"
| "diagnostic_code_text RP_duplicate_name = ''duplicate_name''"
| "diagnostic_code_text RP_unknown_key = ''unknown_key''"

definition policy_error :: "RoutePolicyDiagnosticCode \<Rightarrow> nat \<Rightarrow> string \<Rightarrow> Error" where
  "policy_error code line detail =
     make_error ES_connection
       (case code of
          RP_invalid_channel \<Rightarrow> EC_stale_generation
        | RP_invalid_hex \<Rightarrow> EC_malformed_tlv
        | _ \<Rightarrow> EC_resource_limit)
       CA_none (''route policy line '' @ decimal line @ '': '' @ detail)"

section \<open>Field readers\<close>

text \<open>\<open>std::isspace\<close> in the C locale.\<close>

definition is_space :: "char \<Rightarrow> bool" where
  "is_space ch \<longleftrightarrow> ch = CHR '' '' \<or> (CHR 0x09 \<le> ch \<and> ch \<le> CHR 0x0D)"

definition trim :: "string \<Rightarrow> string" where
  "trim s = rev (dropWhile is_space (rev (dropWhile is_space s)))"

definition unquote :: "string \<Rightarrow> string" where
  "unquote s =
     (let t = trim s
      in if length t \<ge> 2 \<and> hd t = CHR 0x22 \<and> last t = CHR 0x22 then butlast (tl t) else t)"

definition u32_over :: "nat \<Rightarrow> nat \<Rightarrow> bool" where
  "u32_over v digit \<longleftrightarrow> v * 10 + digit > 0xFFFFFFFF"

definition parse_u32_text :: "string \<Rightarrow> nat \<Rightarrow> u32 result" where
  "parse_u32_text s line =
     (if s = [] then Inl (policy_error RP_invalid_integer line ''integer value is empty'')
      else map_sum id of_nat
        (decimal_loop u32_over (policy_error RP_invalid_integer line ''integer value is not decimal'')
           (policy_error RP_invalid_integer line ''integer value overflows u32'') 0 s))"

definition parse_channel_text :: "string \<Rightarrow> nat \<Rightarrow> ChannelId result" where
  "parse_channel_text s line =
     (case cut_at (CHR '':'') (unquote s) of
        None \<Rightarrow> Inl (policy_error RP_invalid_channel line ''channel must use number:generation syntax'')
      | Some (number_text, generation_text) \<Rightarrow>
          (case parse_u32_text number_text line of
             Inl e \<Rightarrow> Inl e
           | Inr number \<Rightarrow>
               (case parse_u32_text generation_text line of
                  Inl e \<Rightarrow> Inl e
                | Inr generation \<Rightarrow>
                    if generation > 0xFF
                    then Inl (policy_error RP_invalid_channel line ''channel generation exceeds u8'')
                    else if number = 0 \<and> generation \<noteq> 0
                    then Inl (policy_error RP_invalid_channel line
                                ''control channel must use generation zero'')
                    else Inr \<lparr>cid_number = number, cid_generation = ucast generation\<rparr>)))"

definition parse_hex_text :: "string \<Rightarrow> nat \<Rightarrow> bytes result" where
  "parse_hex_text s line =
     (let t = unquote s
      in if length t mod 2 \<noteq> 0
         then Inl (policy_error RP_invalid_hex line ''hex payload has an odd number of characters'')
         else hex_loop (policy_error RP_invalid_hex line ''hex payload contains a non-hex character'')
                [] t)"

section \<open>The parser\<close>

record ParseState =
  ps_document :: RoutePolicyDocument
  ps_current :: RoutePolicyEntry
  ps_keys :: "string set"
  ps_in_route :: bool
  ps_route_start_line :: nat

definition parse_state :: ParseState where
  "parse_state = \<lparr>ps_document = \<lparr>rd_routes = []\<rparr>, ps_current = default_entry, ps_keys = {},
                  ps_in_route = False, ps_route_start_line = 0\<rparr>"

definition finish_route :: "ParseState \<Rightarrow> ParseState result" where
  "finish_route st =
     (if \<not> ps_in_route st then Inr st
      else if ps_keys st = {}
      then Inl (policy_error RP_empty_route (ps_route_start_line st) ''route section has no keys'')
      else
        (case List.find (\<lambda>key. key \<notin> ps_keys st) [''source'', ''destination'', ''family''] of
           Some key \<Rightarrow> Inl (policy_error RP_missing_key (ps_route_start_line st)
                              (''route is missing '' @ key))
         | None \<Rightarrow>
             let current = (if rp_payload (ps_current st) = []
                            then (ps_current st)\<lparr>rp_payload := [0x6F, 0x6B]\<rparr> else ps_current st)
             in Inr \<lparr>ps_document = \<lparr>rd_routes = rd_routes (ps_document st) @ [current]\<rparr>,
                     ps_current = default_entry, ps_keys = {}, ps_in_route = False,
                     ps_route_start_line = 0\<rparr>))"

definition begin_route :: "ParseState \<Rightarrow> nat \<Rightarrow> ParseState result" where
  "begin_route st line =
     (case finish_route st of
        Inl e \<Rightarrow> Inl e
      | Inr st' \<Rightarrow> Inr (st'\<lparr>ps_current := default_entry, ps_keys := {}, ps_in_route := True,
                             ps_route_start_line := line\<rparr>))"

definition set_key_in_route :: "ParseState \<Rightarrow> string \<Rightarrow> string \<Rightarrow> nat \<Rightarrow> ParseState result" where
  "set_key_in_route st key val line =
     (if key \<in> ps_keys st
      then Inl (policy_error RP_duplicate_key line (''route repeats key '' @ key))
      else
        let st' = st\<lparr>ps_keys := insert key (ps_keys st)\<rparr>; current = ps_current st
        in if key = ''name'' then Inr (st'\<lparr>ps_current := current\<lparr>rp_name := unquote val\<rparr>\<rparr>)
           else if key = ''source''
           then (case parse_channel_text val line of
                   Inl e \<Rightarrow> Inl e
                 | Inr ch \<Rightarrow> Inr (st'\<lparr>ps_current := current\<lparr>rp_source := ch\<rparr>\<rparr>))
           else if key = ''destination''
           then (case parse_channel_text val line of
                   Inl e \<Rightarrow> Inl e
                 | Inr ch \<Rightarrow> Inr (st'\<lparr>ps_current := current\<lparr>rp_destination := ch\<rparr>\<rparr>))
           else if key = ''family''
           then (case parse_u32_text (unquote val) line of
                   Inl e \<Rightarrow> Inl e
                 | Inr family \<Rightarrow> Inr (st'\<lparr>ps_current := current\<lparr>rp_family_id := family\<rparr>\<rparr>))
           else if key = ''payload_hex''
           then (case parse_hex_text val line of
                   Inl e \<Rightarrow> Inl e
                 | Inr payload \<Rightarrow> Inr (st'\<lparr>ps_current := current\<lparr>rp_payload := payload\<rparr>\<rparr>))
           else Inl (policy_error RP_unknown_key line (''unknown route key '' @ key)))"

definition set_key :: "ParseState \<Rightarrow> string \<Rightarrow> string \<Rightarrow> nat \<Rightarrow> ParseState result" where
  "set_key st key val line =
     (if ps_in_route st then set_key_in_route st key val line
      else case begin_route st line of
        Inl e \<Rightarrow> Inl e
      | Inr st' \<Rightarrow> set_key_in_route st' key val line)"

text \<open>What is left of a line: the part before \<open>#\<close>, trimmed.\<close>

definition strip_line :: "string \<Rightarrow> string" where
  "strip_line line = trim (case cut_at (CHR ''#'') line of None \<Rightarrow> line | Some (before, _) \<Rightarrow> before)"

definition parse_policy_line :: "ParseState \<Rightarrow> string \<Rightarrow> nat \<Rightarrow> ParseState result" where
  "parse_policy_line st raw line_no =
     (let line = strip_line raw
      in if line = [] then Inr st
         else if line = ''[route]'' then begin_route st line_no
         else
           (case cut_at (CHR ''='') line of
              None \<Rightarrow> Inl (policy_error RP_malformed_line line_no ''expected key=value'')
            | Some (key, val) \<Rightarrow> set_key st (trim key) (trim val) line_no))"

fun parse_policy_lines :: "ParseState \<Rightarrow> nat \<Rightarrow> string list \<Rightarrow> (ParseState \<times> nat) result" where
  "parse_policy_lines st line_no [] = Inr (st, line_no)"
| "parse_policy_lines st line_no (raw # lines) =
     (case parse_policy_line st raw (line_no + 1) of
        Inl e \<Rightarrow> Inl e
      | Inr st' \<Rightarrow> parse_policy_lines st' (line_no + 1) lines)"

section \<open>Validation\<close>

definition route_diagnostics ::
  "(string \<rightharpoonup> nat) \<Rightarrow> (string \<rightharpoonup> nat) \<Rightarrow> nat \<Rightarrow> RoutePolicyEntry \<Rightarrow> RoutePolicyDiagnostic list" where
  "route_diagnostics names sources line route =
     (if is_control (rp_source route) \<or> is_control (rp_destination route)
      then [\<lparr>rg_code = RP_invalid_channel, rg_line = line,
             rg_detail = ''source and destination must be data channels''\<rparr>] else []) @
     (if rp_family_id route = 0
      then [\<lparr>rg_code = RP_invalid_integer, rg_line = line, rg_detail = ''family id must be nonzero''\<rparr>]
      else []) @
     (case sources (channel_str (rp_source route)) of
        None \<Rightarrow> []
      | Some first \<Rightarrow>
          [\<lparr>rg_code = RP_duplicate_source, rg_line = line,
            rg_detail = ''source channel duplicates route at entry '' @ decimal first\<rparr>]) @
     (if rp_name route = [] then []
      else case names (rp_name route) of
        None \<Rightarrow> []
      | Some first \<Rightarrow>
          [\<lparr>rg_code = RP_duplicate_name, rg_line = line,
            rg_detail = ''route name duplicates entry '' @ decimal first\<rparr>])"

text \<open>\<open>std::map::emplace\<close>: the first value of a key stays.\<close>

definition emplace :: "'k \<Rightarrow> 'v \<Rightarrow> ('k \<rightharpoonup> 'v) \<Rightarrow> ('k \<rightharpoonup> 'v)" where
  "emplace k v m = (case m k of None \<Rightarrow> m(k \<mapsto> v) | Some _ \<Rightarrow> m)"

fun validate_loop ::
  "(string \<rightharpoonup> nat) \<Rightarrow> (string \<rightharpoonup> nat) \<Rightarrow> nat \<Rightarrow> RoutePolicyEntry list \<Rightarrow> RoutePolicyDiagnostic list" where
  "validate_loop names sources i [] = []"
| "validate_loop names sources i (route # routes) =
     route_diagnostics names sources (i + 1) route @
     validate_loop
       (if rp_name route = [] then names else emplace (rp_name route) (i + 1) names)
       (emplace (channel_str (rp_source route)) (i + 1) sources) (i + 1) routes"

definition validate_route_policy :: "RoutePolicyDocument \<Rightarrow> RoutePolicyValidation" where
  "validate_route_policy document =
     \<lparr>rv_diagnostics = validate_loop Map.empty Map.empty 0 (rd_routes document) @
        (if rd_routes document = []
         then [\<lparr>rg_code = RP_empty_route, rg_line = 0, rg_detail = ''policy contains no routes''\<rparr>]
         else [])\<rparr>"

definition validation_error :: "RoutePolicyValidation \<Rightarrow> Error" where
  "validation_error v =
     (let diagnostic = hd (rv_diagnostics v)
      in policy_error (rg_code diagnostic) (rg_line diagnostic) (rg_detail diagnostic))"

definition parse_route_policy_text :: "string \<Rightarrow> RoutePolicyDocument result" where
  "parse_route_policy_text s =
     (case parse_policy_lines parse_state 0 (getlines s) of
        Inl e \<Rightarrow> Inl e
      | Inr (st, line_no) \<Rightarrow>
          (case finish_route st of
             Inl e \<Rightarrow> Inl e
           | Inr st' \<Rightarrow>
               if rd_routes (ps_document st') = []
               then Inl (policy_error RP_empty_route line_no ''policy contains no routes'')
               else
                 let validation = validate_route_policy (ps_document st')
                 in if \<not> validation_ok validation then Inl (validation_error validation)
                    else Inr (ps_document st')))"

text \<open>The file system is a parameter: the contents of a path, \<open>None\<close> when it cannot be opened.\<close>

definition parse_route_policy_file :: "(string \<Rightarrow> string option) \<Rightarrow> string \<Rightarrow> RoutePolicyDocument result" where
  "parse_route_policy_file read_file path =
     (case read_file path of
        None \<Rightarrow> Inl (make_error ES_connection EC_resource_limit CA_none ''cannot open route policy file'')
      | Some s \<Rightarrow> parse_route_policy_text s)"

section \<open>The canonical text\<close>

definition route_text :: "RoutePolicyEntry \<Rightarrow> string" where
  "route_text route =
     ''[route]'' @ [CHR 0x0A] @
     (if rp_name route = [] then []
      else ''name='' @ [CHR 0x22] @ rp_name route @ [CHR 0x22] @ [CHR 0x0A]) @
     ''source='' @ channel_str (rp_source route) @ [CHR 0x0A] @
     ''destination='' @ channel_str (rp_destination route) @ [CHR 0x0A] @
     ''family='' @ decimal (unat (rp_family_id route)) @ [CHR 0x0A] @
     ''payload_hex='' @ hex (rp_payload route) @ [CHR 0x0A]"

definition serialize_route_policy :: "RoutePolicyDocument \<Rightarrow> string result" where
  "serialize_route_policy document =
     (let validation = validate_route_policy document
      in if \<not> validation_ok validation then Inl (validation_error validation)
         else Inr (concat (map route_text (rd_routes document))))"

section \<open>Use\<close>

definition apply_route_policy_entry :: "Gateway \<Rightarrow> RoutePolicyEntry \<Rightarrow> Gateway \<times> GatewayRoute result" where
  "apply_route_policy_entry gw entry =
     create_route gw (rp_source entry) (rp_destination entry) (rp_family_id entry)"

definition find_route_policy_source :: "RoutePolicyDocument \<Rightarrow> ChannelId \<Rightarrow> RoutePolicyEntry result" where
  "find_route_policy_source document source =
     (case List.find (\<lambda>entry. rp_source entry = source) (rd_routes document) of
        None \<Rightarrow> Inl (make_error ES_connection EC_resource_limit CA_none
                       ''route policy source was not found'')
      | Some entry \<Rightarrow> Inr entry)"

section \<open>Lines that need no trimming\<close>

interpretation u32_text: decimal_reader u32_over "2 ^ 32 - 1"
  by unfold_locales (simp add: u32_over_def)

definition solid :: "char \<Rightarrow> bool" where
  "solid ch \<longleftrightarrow> \<not> is_space ch \<and> ch \<noteq> CHR ''#'' \<and> ch \<noteq> CHR 0x0A \<and> ch \<noteq> CHR 0x22 \<and> ch \<noteq> CHR ''=''"

lemma digit_solid: "is_digit ch \<Longrightarrow> solid ch"
  by (auto simp: is_digit_def solid_def is_space_def less_char_def less_eq_char_def)

lemma solid_decimal: "list_all solid (decimal n)"
  using decimal_digits[of n] by (auto simp: list_all_iff intro: digit_solid)

lemma solid_channel: "list_all solid (channel_str ch)"
proof -
  have "solid (CHR '':'')" by (simp add: solid_def is_space_def less_eq_char_def)
  then show ?thesis by (simp add: channel_str_def solid_decimal)
qed

lemma solid_hex: "list_all solid (hex bs)"
proof -
  have "solid ch" if "nibble ch = Some d" for ch d
    using that by (auto simp: nibble_def solid_def is_space_def less_eq_char_def split: if_splits)
  then have "solid (hex_digit d)" if "d < 16" for d
    using nibble_hex_digit[OF that] by blast
  then show ?thesis by (auto simp: hex_def hex_byte_def list_all_iff)
qed

lemma trim_solid_ends: "s \<noteq> [] \<Longrightarrow> \<not> is_space (hd s) \<Longrightarrow> \<not> is_space (last s) \<Longrightarrow> trim s = s"
proof -
  assume s: "s \<noteq> []" "\<not> is_space (hd s)" "\<not> is_space (last s)"
  then have "dropWhile is_space s = s" "dropWhile is_space (rev s) = rev s"
    by (auto simp: neq_Nil_conv hd_rev[symmetric] intro: dropWhile_eq_self_iff[THEN iffD2])
  then show ?thesis by (simp add: trim_def)
qed

lemma trim_solid: "list_all solid s \<Longrightarrow> trim s = s"
proof (cases "s = []")
  case False
  assume "list_all solid s"
  then have "solid (hd s)" "solid (last s)" using False by (auto simp: list_all_iff)
  then show ?thesis using False by (intro trim_solid_ends) (simp_all add: solid_def)
qed (simp add: trim_def)

lemma unquote_solid: "list_all solid s \<Longrightarrow> unquote s = s"
  by (cases s) (auto simp: unquote_def trim_solid Let_def solid_def)

definition quoted :: "string \<Rightarrow> string" where
  "quoted s = CHR 0x22 # s @ [CHR 0x22]"

lemma trim_quoted: "trim (quoted s) = quoted s"
  by (rule trim_solid_ends) (simp_all add: quoted_def is_space_def less_eq_char_def)

lemma unquote_quoted [simp]: "unquote (quoted s) = s"
proof -
  have "length (quoted s) \<ge> 2" "hd (quoted s) = CHR 0x22" "last (quoted s) = CHR 0x22"
    "butlast (tl (quoted s)) = s" by (simp_all add: quoted_def)
  then show ?thesis unfolding unquote_def trim_quoted Let_def by simp
qed

definition key_line :: "string \<Rightarrow> string \<Rightarrow> string" where
  "key_line key val = key @ CHR ''='' # val"

text \<open>A line \<open>key=value\<close> whose key and value need no trimming is read as key and value.\<close>

lemma key_line_stripped:
  assumes "key \<noteq> []" "list_all solid key" "val \<noteq> []" "\<not> is_space (last val)" "CHR ''#'' \<notin> set val"
  shows "strip_line (key_line key val) = key_line key val" "key_line key val \<noteq> []"
    "key_line key val \<noteq> ''[route]''" "cut_at (CHR ''='') (key_line key val) = Some (key, val)"
    "trim key = key"
proof -
  have key: "CHR ''#'' \<notin> set key" "CHR ''='' \<notin> set key" "\<not> is_space (hd key)"
    using assms(1,2) by (auto simp: list_all_iff solid_def)
  have "cut_at (CHR ''#'') s = None" if "CHR ''#'' \<notin> set s" for s
    using that by (induction s) auto
  then have "strip_line (key_line key val) = trim (key_line key val)"
    using key(1) assms(5) by (simp add: strip_line_def key_line_def)
  also have "\<dots> = key_line key val"
    using assms(1,3,4) key(3) by (intro trim_solid_ends) (simp_all add: key_line_def)
  finally show "strip_line (key_line key val) = key_line key val" .
  have "CHR ''='' \<in> set (key_line key val)" "CHR ''='' \<notin> set ''[route]''" by (simp_all add: key_line_def)
  then show "key_line key val \<noteq> ''[route]''" by metis
  show "key_line key val \<noteq> []" "cut_at (CHR ''='') (key_line key val) = Some (key, val)"
    using key(2) by (simp_all add: key_line_def)
  show "trim key = key" using assms(2) by (rule trim_solid)
qed

lemma key_value_line:
  assumes "key \<noteq> []" "list_all solid key" "trim val = val" "val \<noteq> []" "\<not> is_space (last val)"
    "CHR ''#'' \<notin> set val"
  shows "parse_policy_line st (key_line key val) n = set_key st key val n"
  using key_line_stripped[OF assms(1,2,4-6)] assms(3) by (simp add: parse_policy_line_def Let_def)

section \<open>The parser reads the canonical text\<close>

lemma parse_u32_decimal: "parse_u32_text (decimal (unat w)) line = Inr w"
proof -
  have "unat w \<le> 2 ^ 32 - 1" using unat_u32_less[of w] by simp
  then show ?thesis by (simp add: parse_u32_text_def u32_text.loop_decimal)
qed

lemma parse_channel_str:
  assumes "cid_number ch \<noteq> 0"
  shows "parse_channel_text (channel_str ch) line = Inr ch"
proof -
  have gen: "unat (cid_generation ch) = unat (ucast (cid_generation ch) :: u32)"
    using unat_u8_less[of "cid_generation ch"] by (simp add: unsigned_ucast_eq take_bit_nat_eq_self)
  have "parse_u32_text (decimal (unat (cid_generation ch))) line = Inr (ucast (cid_generation ch))"
    unfolding gen by (rule parse_u32_decimal)
  moreover have "\<not> (ucast (cid_generation ch) :: u32) > 0xFF"
    using unat_u8_less[of "cid_generation ch"] by (simp add: word_less_nat_alt gen[symmetric])
  moreover have "ucast (ucast (cid_generation ch) :: u32) = cid_generation ch"
    by (rule bit_word_eqI) (simp add: bit_simps)
  ultimately show ?thesis
    using assms
    by (simp add: parse_channel_text_def unquote_solid[OF solid_channel] channel_str_cut parse_u32_decimal)
qed

lemma parse_hex_hex: "parse_hex_text (hex bs) line = Inr bs"
  by (simp add: parse_hex_text_def unquote_solid[OF solid_hex] hex_loop_hex)

definition complete_keys :: "string set \<Rightarrow> bool" where
  "complete_keys keys \<longleftrightarrow> {''source'', ''destination'', ''family''} \<subseteq> keys"

text \<open>The parser between two routes: everything of \<open>r\<close> has been read.\<close>

definition pending :: "RoutePolicyEntry list \<Rightarrow> RoutePolicyEntry \<Rightarrow> string set \<Rightarrow> nat \<Rightarrow> ParseState" where
  "pending rs r keys line =
     \<lparr>ps_document = \<lparr>rd_routes = rs\<rparr>, ps_current = r, ps_keys = keys, ps_in_route = True,
      ps_route_start_line = line\<rparr>"

definition between :: "RoutePolicyEntry list \<Rightarrow> ParseState" where
  "between rs = \<lparr>ps_document = \<lparr>rd_routes = rs\<rparr>, ps_current = default_entry, ps_keys = {},
     ps_in_route = False, ps_route_start_line = 0\<rparr>"

lemma finish_pending:
  "complete_keys keys \<Longrightarrow> rp_payload r \<noteq> [] \<Longrightarrow> finish_route (pending rs r keys line) = Inr (between (rs @ [r]))"
  by (auto simp: finish_route_def pending_def between_def complete_keys_def)

lemma finish_between: "finish_route (between rs) = Inr (between rs)"
  by (simp add: finish_route_def between_def)

definition readable :: "RoutePolicyEntry \<Rightarrow> bool" where
  "readable r \<longleftrightarrow> CHR ''#'' \<notin> set (rp_name r) \<and> CHR 0x0A \<notin> set (rp_name r) \<and>
     cid_number (rp_source r) \<noteq> 0 \<and> cid_number (rp_destination r) \<noteq> 0 \<and> rp_payload r \<noteq> []"

definition route_lines :: "RoutePolicyEntry \<Rightarrow> string list" where
  "route_lines r =
     ''[route]'' # (if rp_name r = [] then [] else [key_line ''name'' (quoted (rp_name r))]) @
     [key_line ''source'' (channel_str (rp_source r)),
      key_line ''destination'' (channel_str (rp_destination r)),
      key_line ''family'' (decimal (unat (rp_family_id r))),
      key_line ''payload_hex'' (hex (rp_payload r))]"

lemma solid_value:
  assumes "list_all solid s" "s \<noteq> []"
  shows "trim s = s" "\<not> is_space (last s)" "CHR ''#'' \<notin> set s" "CHR 0x0A \<notin> set s"
proof -
  have "solid (last s)" using assms by (auto simp: list_all_iff)
  then show "\<not> is_space (last s)" by (simp add: solid_def)
  show "trim s = s" by (rule trim_solid[OF assms(1)])
  show "CHR ''#'' \<notin> set s" "CHR 0x0A \<notin> set s" using assms(1) by (auto simp: list_all_iff solid_def)
qed

lemma solid_keys:
  "list_all solid ''name''" "list_all solid ''source''" "list_all solid ''destination''"
  "list_all solid ''family''" "list_all solid ''payload_hex''"
  by (simp_all add: solid_def is_space_def less_eq_char_def)

lemma solid_key_line:
  "list_all solid key \<Longrightarrow> key \<noteq> [] \<Longrightarrow> list_all solid val \<Longrightarrow> val \<noteq> [] \<Longrightarrow>
     parse_policy_line st (key_line key val) n = set_key st key val n"
  using solid_value[of val] by (intro key_value_line) simp_all

lemma name_line:
  "CHR ''#'' \<notin> set name \<Longrightarrow>
     parse_policy_line st (key_line ''name'' (quoted name)) n = set_key st ''name'' (quoted name) n"
  by (intro key_value_line trim_quoted) (simp_all add: quoted_def is_space_def less_eq_char_def solid_def)

lemma section_line: "parse_policy_line st ''[route]'' n = begin_route st n"
  by (simp add: parse_policy_line_def strip_line_def trim_def is_space_def less_eq_char_def)

lemma channel_str_nonempty [simp]: "channel_str ch \<noteq> []"
  by (simp add: channel_str_def)

lemma set_pending_keys:
  "set_key (pending rs r keys line) key val n = set_key_in_route (pending rs r keys line) key val n"
  by (simp add: set_key_def pending_def)

lemma set_pending:
  "''name'' \<notin> keys \<Longrightarrow> set_key (pending rs r keys line) ''name'' (quoted name) n =
     Inr (pending rs (r\<lparr>rp_name := name\<rparr>) (insert ''name'' keys) line)"
  "''source'' \<notin> keys \<Longrightarrow> cid_number ch \<noteq> 0 \<Longrightarrow>
     set_key (pending rs r keys line) ''source'' (channel_str ch) n =
       Inr (pending rs (r\<lparr>rp_source := ch\<rparr>) (insert ''source'' keys) line)"
  "''destination'' \<notin> keys \<Longrightarrow> cid_number ch \<noteq> 0 \<Longrightarrow>
     set_key (pending rs r keys line) ''destination'' (channel_str ch) n =
       Inr (pending rs (r\<lparr>rp_destination := ch\<rparr>) (insert ''destination'' keys) line)"
  "''family'' \<notin> keys \<Longrightarrow> set_key (pending rs r keys line) ''family'' (decimal (unat w)) n =
     Inr (pending rs (r\<lparr>rp_family_id := w\<rparr>) (insert ''family'' keys) line)"
  "''payload_hex'' \<notin> keys \<Longrightarrow> set_key (pending rs r keys line) ''payload_hex'' (hex bs) n =
     Inr (pending rs (r\<lparr>rp_payload := bs\<rparr>) (insert ''payload_hex'' keys) line)"
  unfolding set_pending_keys set_key_in_route_def
  by (simp_all add: pending_def parse_channel_str unquote_solid[OF solid_decimal] parse_u32_decimal
      parse_hex_hex Let_def)

lemma begin_ready:
  "finish_route st = Inr (between rs) \<Longrightarrow> begin_route st n = Inr (pending rs default_entry {} n)"
  by (simp add: begin_route_def between_def pending_def)

lemma read_route:
  assumes "readable r" "finish_route st = Inr (between rs)"
  shows "\<exists>keys. complete_keys keys \<and>
    parse_policy_lines st n (route_lines r @ ls) =
    parse_policy_lines (pending rs r keys (n + 1)) (n + length (route_lines r)) ls"
proof -
  have r: "CHR ''#'' \<notin> set (rp_name r)" "cid_number (rp_source r) \<noteq> 0"
    "cid_number (rp_destination r) \<noteq> 0" "rp_payload r \<noteq> []"
    using assms(1) by (simp_all add: readable_def)
  note reading = section_line begin_ready[OF assms(2)] name_line[OF r(1)] set_pending
    solid_key_line[OF solid_keys(2) _ solid_channel] solid_key_line[OF solid_keys(3) _ solid_channel]
    solid_key_line[OF solid_keys(4) _ solid_decimal] solid_key_line[OF solid_keys(5) _ solid_hex] r
  show ?thesis
  proof (cases "rp_name r = []")
    case True
    have "default_entry\<lparr>rp_source := rp_source r, rp_destination := rp_destination r,
        rp_family_id := rp_family_id r, rp_payload := rp_payload r\<rparr> = r"
      using True by (cases r) (simp add: default_entry_def)
    then show ?thesis
      by (intro exI[of _ "{''payload_hex'', ''family'', ''destination'', ''source''}"])
        (simp add: route_lines_def True reading complete_keys_def)
  next
    case False
    have full: "default_entry\<lparr>rp_name := rp_name r, rp_source := rp_source r, rp_destination := rp_destination r,
        rp_family_id := rp_family_id r, rp_payload := rp_payload r\<rparr> = r"
      by (cases r) simp
    show ?thesis using False
      by (intro exI[of _ "{''payload_hex'', ''family'', ''destination'', ''source'', ''name''}"])
        (simp add: route_lines_def reading complete_keys_def full)
  qed
qed

lemma read_routes:
  "list_all readable routes \<Longrightarrow> finish_route st = Inr (between rs) \<Longrightarrow>
     \<exists>st' n'. parse_policy_lines st n (concat (map route_lines routes)) = Inr (st', n') \<and>
       finish_route st' = Inr (between (rs @ routes))"
proof (induction routes arbitrary: st rs n)
  case (Cons r routes)
  then have r: "readable r" "list_all readable routes" by simp_all
  obtain keys where keys: "complete_keys keys"
    and step: "parse_policy_lines st n (route_lines r @ concat (map route_lines routes)) =
      parse_policy_lines (pending rs r keys (n + 1)) (n + length (route_lines r))
        (concat (map route_lines routes))"
    using read_route[OF r(1) Cons.prems(2)] by blast
  have "finish_route (pending rs r keys (n + 1)) = Inr (between (rs @ [r]))"
    using finish_pending[OF keys] r(1) by (simp add: readable_def)
  from Cons.IH[OF r(2) this] show ?case using step by simp
qed simp

lemma getlines_lines:
  "list_all (\<lambda>l. CHR 0x0A \<notin> set l) ls \<Longrightarrow> getlines (concat (map (\<lambda>l. l @ [CHR 0x0A]) ls)) = ls"
  by (induction ls) (simp_all add: getlines_line)

lemma route_text_lines: "route_text r = concat (map (\<lambda>l. l @ [CHR 0x0A]) (route_lines r))"
  by (simp add: route_text_def route_lines_def key_line_def quoted_def)

lemma route_lines_plain: "readable r \<Longrightarrow> list_all (\<lambda>l. CHR 0x0A \<notin> set l) (route_lines r)"
  using solid_value[OF solid_channel] by (auto simp: route_lines_def key_line_def readable_def quoted_def)

lemma getlines_policy:
  "list_all readable routes \<Longrightarrow> getlines (concat (map route_text routes)) = concat (map route_lines routes)"
proof -
  assume "list_all readable routes"
  then have plain: "list_all (\<lambda>l. CHR 0x0A \<notin> set l) (concat (map route_lines routes))"
    using route_lines_plain by (induction routes) auto
  have "concat (map route_text routes) =
      concat (map (\<lambda>l. l @ [CHR 0x0A]) (concat (map route_lines routes)))"
    by (induction routes) (simp_all add: route_text_lines)
  then show ?thesis using getlines_lines[OF plain] by simp
qed

section \<open>What the parser accepts\<close>

definition storable_policy :: "RoutePolicyDocument \<Rightarrow> bool" where
  "storable_policy document \<longleftrightarrow>
     validation_ok (validate_route_policy document) \<and> list_all readable (rd_routes document)"

lemma validation_nonempty: "validation_ok (validate_route_policy d) \<Longrightarrow> rd_routes d \<noteq> []"
  by (auto simp: validation_ok_def validate_route_policy_def)

lemma policy_reads_back:
  assumes "storable_policy d"
  shows "serialize_route_policy d = Inr (concat (map route_text (rd_routes d)))"
    and "parse_route_policy_text (concat (map route_text (rd_routes d))) = Inr d"
proof -
  have ok: "validation_ok (validate_route_policy d)" "list_all readable (rd_routes d)"
    using assms by (simp_all add: storable_policy_def)
  show "serialize_route_policy d = Inr (concat (map route_text (rd_routes d)))"
    using ok(1) by (simp add: serialize_route_policy_def Let_def)
  have start: "parse_state = between []" by (simp add: parse_state_def between_def)
  obtain st n where "parse_policy_lines parse_state 0 (concat (map route_lines (rd_routes d))) = Inr (st, n)"
    "finish_route st = Inr (between (rd_routes d))"
    using read_routes[OF ok(2) finish_between[of "[]"], of 0] unfolding start by auto
  moreover have "ps_document (between (rd_routes d)) = d" by (cases d) (simp add: between_def)
  ultimately show "parse_route_policy_text (concat (map route_text (rd_routes d))) = Inr d"
    using ok(1) validation_nonempty[OF ok(1)]
    by (simp add: parse_route_policy_text_def getlines_policy[OF ok(2)] Let_def)
qed

text \<open>What the parser guarantees of an entry, whatever the text.\<close>

definition entry_sound :: "RoutePolicyEntry \<Rightarrow> bool" where
  "entry_sound r \<longleftrightarrow> CHR ''#'' \<notin> set (rp_name r) \<and> CHR 0x0A \<notin> set (rp_name r) \<and>
     (cid_number (rp_source r) = 0 \<longrightarrow> is_control (rp_source r)) \<and>
     (cid_number (rp_destination r) = 0 \<longrightarrow> is_control (rp_destination r))"

definition state_sound :: "ParseState \<Rightarrow> bool" where
  "state_sound st \<longleftrightarrow> entry_sound (ps_current st) \<and>
     (\<forall>r \<in> set (rd_routes (ps_document st)). entry_sound r \<and> rp_payload r \<noteq> [])"

lemma set_dropWhile_le: "set (dropWhile P xs) \<subseteq> set xs"
  by (induction xs) auto

lemma set_trim: "set (trim s) \<subseteq> set s"
  using set_dropWhile_le[of is_space "rev (dropWhile is_space s)"] set_dropWhile_le[of is_space s]
  by (auto simp: trim_def)

lemma set_unquote: "set (unquote s) \<subseteq> set s"
proof -
  have "set (butlast (tl t)) \<subseteq> set t" for t :: string
    by (cases t) (auto dest: in_set_butlastD)
  then show ?thesis using set_trim[of s] by (auto simp: unquote_def Let_def)
qed

lemma parsed_channel: "parse_channel_text s line = Inr ch \<Longrightarrow> cid_number ch = 0 \<Longrightarrow> is_control ch"
  by (auto simp: parse_channel_text_def is_control_def split: option.splits prod.splits sum.splits if_splits)

lemma finish_sound: "finish_route st = Inr st' \<Longrightarrow> state_sound st \<Longrightarrow> state_sound st'"
  by (auto simp: finish_route_def state_sound_def entry_sound_def default_entry_def Let_def
      split: if_splits option.splits)

lemma begin_sound: "begin_route st n = Inr st' \<Longrightarrow> state_sound st \<Longrightarrow> state_sound st'"
proof -
  assume begun: "begin_route st n = Inr st'" and sound: "state_sound st"
  then obtain st1 where "finish_route st = Inr st1" and st': "ps_current st' = default_entry"
    "ps_document st' = ps_document st1"
    by (auto simp: begin_route_def split: sum.splits)
  then show ?thesis using finish_sound[OF _ sound, of st1]
    by (simp add: state_sound_def entry_sound_def default_entry_def)
qed

lemma set_key_in_route_sound:
  "set_key_in_route st key val n = Inr st' \<Longrightarrow> state_sound st \<Longrightarrow>
   CHR ''#'' \<notin> set val \<Longrightarrow> CHR 0x0A \<notin> set val \<Longrightarrow> state_sound st'"
  using set_unquote[of val] parsed_channel[of val n]
  by (auto simp: set_key_in_route_def state_sound_def entry_sound_def Let_def
      split: if_splits sum.splits)

lemma set_key_sound:
  "set_key st key val n = Inr st' \<Longrightarrow> state_sound st \<Longrightarrow>
   CHR ''#'' \<notin> set val \<Longrightarrow> CHR 0x0A \<notin> set val \<Longrightarrow> state_sound st'"
  using begin_sound[of st n] by (auto simp: set_key_def split: if_splits sum.splits
      intro: set_key_in_route_sound)

lemma cut_none: "cut_at sep s = None \<Longrightarrow> sep \<notin> set s"
  by (induction s) (auto split: if_splits option.splits)

lemma set_strip: "set (strip_line raw) \<subseteq> set raw - {CHR ''#''}"
  using set_trim cut_none by (fastforce simp: strip_line_def split: option.splits dest: cut_parts)

lemma parse_policy_line_sound:
  assumes "parse_policy_line st raw n = Inr st'" "state_sound st" "CHR 0x0A \<notin> set raw"
  shows "state_sound st'"
proof (cases "strip_line raw = [] \<or> strip_line raw = ''[route]''")
  case True
  then show ?thesis using assms begin_sound[of st n]
    by (auto simp: parse_policy_line_def Let_def split: if_splits)
next
  case False
  then obtain key val where cut: "cut_at (CHR ''='') (strip_line raw) = Some (key, val)"
    and set: "set_key st (trim key) (trim val) n = Inr st'"
    using assms(1) by (auto simp: parse_policy_line_def Let_def split: option.splits)
  have "set (trim val) \<subseteq> set raw - {CHR ''#''}"
    using set_trim[of val] cut_parts[OF cut] set_strip[of raw] by blast
  then show ?thesis using set_key_sound[OF set assms(2)] assms(3) by blast
qed

lemma parse_policy_lines_sound:
  "parse_policy_lines st n lines = Inr (st', n') \<Longrightarrow> state_sound st \<Longrightarrow>
   \<forall>l \<in> set lines. CHR 0x0A \<notin> set l \<Longrightarrow> state_sound st'"
  by (induction lines arbitrary: st n) (auto split: sum.splits dest: parse_policy_line_sound)

section \<open>What the validator accepts\<close>

lemma emplace_dom [simp]: "dom (emplace k v m) = insert k (dom m)"
  by (auto simp: emplace_def split: option.splits)

definition route_ok :: "RoutePolicyEntry \<Rightarrow> bool" where
  "route_ok r \<longleftrightarrow> \<not> is_control (rp_source r) \<and> \<not> is_control (rp_destination r) \<and> rp_family_id r \<noteq> 0"

definition route_names :: "RoutePolicyEntry list \<Rightarrow> string list" where
  "route_names rs = filter (\<lambda>n. n \<noteq> []) (map rp_name rs)"

lemma validate_loop_exact:
  "validate_loop names sources i rs = [] \<longleftrightarrow>
     list_all route_ok rs \<and> distinct (map rp_source rs) \<and> distinct (route_names rs) \<and>
     (\<forall>r \<in> set rs. channel_str (rp_source r) \<notin> dom sources) \<and>
     (\<forall>n \<in> set (route_names rs). n \<notin> dom names)"
proof (induction rs arbitrary: names sources i)
  case (Cons r rs)
  have head: "route_diagnostics names sources (i + 1) r = [] \<longleftrightarrow> route_ok r \<and>
      channel_str (rp_source r) \<notin> dom sources \<and> (rp_name r \<noteq> [] \<longrightarrow> rp_name r \<notin> dom names)"
    by (auto simp: route_diagnostics_def route_ok_def split: option.splits)
  have fresh: "(\<forall>r' \<in> set rs. channel_str (rp_source r') \<notin> insert (channel_str (rp_source r)) D) \<longleftrightarrow>
      rp_source r \<notin> rp_source ` set rs \<and> (\<forall>r' \<in> set rs. channel_str (rp_source r') \<notin> D)" for D
    by (simp add: channel_str_injective ball_conj_distrib image_iff) metis
  have names: "(\<forall>n \<in> set (route_names rs). n \<notin> insert k D) \<longleftrightarrow>
      k \<notin> set (route_names rs) \<and> (\<forall>n \<in> set (route_names rs). n \<notin> D)" for k D
    by blast
  show ?case
  proof (cases "rp_name r = []")
    case True
    then show ?thesis by (simp only: validate_loop.simps append_is_Nil_conv head Cons.IH emplace_dom
        fresh) (simp add: route_names_def, blast)
  next
    case False
    then have "route_names (r # rs) = rp_name r # route_names rs" by (simp add: route_names_def)
    then show ?thesis using False by (simp only: validate_loop.simps append_is_Nil_conv head Cons.IH
        emplace_dom fresh names if_False) (simp, blast)
  qed
qed (simp add: route_names_def)

lemma validation_exact:
  "validation_ok (validate_route_policy d) \<longleftrightarrow>
     rd_routes d \<noteq> [] \<and> list_all route_ok (rd_routes d) \<and> distinct (map rp_source (rd_routes d)) \<and>
     distinct (route_names (rd_routes d))"
  by (auto simp: validation_ok_def validate_route_policy_def validate_loop_exact)

lemma parsed_policy_storable: "parse_route_policy_text s = Inr d \<Longrightarrow> storable_policy d"
proof -
  assume parsed: "parse_route_policy_text s = Inr d"
  then obtain st n st' where lines: "parse_policy_lines parse_state 0 (getlines s) = Inr (st, n)"
    and fin: "finish_route st = Inr st'" and d: "d = ps_document st'"
    and ok: "validation_ok (validate_route_policy d)"
    by (auto simp: parse_route_policy_text_def Let_def split: sum.splits if_splits)
  have "state_sound parse_state"
    by (simp add: state_sound_def parse_state_def entry_sound_def default_entry_def)
  then have "state_sound st'"
    using finish_sound[OF fin] parse_policy_lines_sound[OF lines] getlines_plain by blast
  then have "list_all readable (rd_routes d)"
    using ok by (auto simp: validation_exact list_all_iff state_sound_def readable_def entry_sound_def
        route_ok_def d)
  then show ?thesis using ok by (simp add: storable_policy_def)
qed

text \<open>Property C23. The documents some policy text stands for are exactly the storable ones: those the
  validator accepts, with no empty payload, no channel number zero, and no \<open>#\<close> or newline in a
  name. The canonical text of such a document reads back as the document, so reading a policy
  and writing it again loses nothing.\<close>

theorem policy_texts_exact:
  "((\<exists>s. parse_route_policy_text s = Inr d) \<longleftrightarrow> storable_policy d) \<and>
   ((\<exists>s. serialize_route_policy d = Inr s \<and> parse_route_policy_text s = Inr d) \<longleftrightarrow> storable_policy d)"
  using parsed_policy_storable policy_reads_back by blast

text \<open>Remark. The validator accepts a policy exactly when it has a route, every route joins two
  data channels under a non-zero family, no two routes have the same source, and no two have
  the same name (unnamed routes apart).\<close>

theorem policy_validation_exact:
  "validation_ok (validate_route_policy d) \<longleftrightarrow>
     rd_routes d \<noteq> [] \<and> list_all route_ok (rd_routes d) \<and> distinct (map rp_source (rd_routes d)) \<and>
     distinct (filter (\<lambda>n. n \<noteq> []) (map rp_name (rd_routes d)))"
  using validation_exact[of d] by (simp add: route_names_def)

section \<open>A gateway loaded from a policy\<close>

definition load_policy :: "Gateway \<Rightarrow> RoutePolicyDocument \<Rightarrow> Gateway" where
  "load_policy gw d = foldl (\<lambda>gw entry. fst (apply_route_policy_entry gw entry)) gw (rd_routes d)"

definition entry_op :: "RoutePolicyEntry \<Rightarrow> GatewayOp" where
  "entry_op r = Gw_route (rp_source r) (rp_destination r) (rp_family_id r)"

lemma load_policy_history: "load_policy gw d = foldl gateway_apply gw (map entry_op (rd_routes d))"
  by (simp add: load_policy_def foldl_map entry_op_def apply_route_policy_entry_def)

lemma accepted_policy:
  "list_all route_ok rs \<Longrightarrow>
     accepted_routes (map entry_op rs) = map (\<lambda>r. (rp_source r, rp_destination r, rp_family_id r)) rs"
  by (induction rs) (auto simp: entry_op_def route_ok_def)

text \<open>Property C24. Loading a policy read from a text into a fresh gateway registers every route of
  it: the gateway finds a route for a source exactly when the policy has an entry for it, and
  the route is that entry's destination and family under the entry's number; looking the source
  up in the document gives the same entry.\<close>

theorem policy_routes_all:
  assumes "parse_route_policy_text s = Inr d" "length (rd_routes d) + 1 < 2 ^ 64"
  shows "(find_route (load_policy new_gateway d) source = Inr route \<longleftrightarrow>
      (\<exists>i < length (rd_routes d). rp_source (rd_routes d ! i) = source \<and>
         find_route_policy_source d source = Inr (rd_routes d ! i) \<and>
         route = \<lparr>gr_id = of_nat (i + 1), gr_source = source,
                  gr_destination = rp_destination (rd_routes d ! i),
                  gr_family_id = rp_family_id (rd_routes d ! i)\<rparr>))"
proof -
  let ?rs = "rd_routes d"
  let ?t = "map (\<lambda>r. (rp_source r, rp_destination r, rp_family_id r)) ?rs"
  have ok: "list_all route_ok ?rs" "distinct (map rp_source ?rs)"
    using parsed_policy_storable[OF assms(1)] by (simp_all add: storable_policy_def validation_exact)
  have acc: "accepted_routes (map entry_op ?rs) = ?t" by (rule accepted_policy[OF ok(1)])
  have only: "j = i" if "i < length ?rs" "j < length ?rs" "rp_source (?rs ! i) = rp_source (?rs ! j)" for i j
    using that ok(2) by (metis distinct_conv_nth length_map nth_map)
  have lookup: "find_route_policy_source d source = Inr (?rs ! i)"
    if i: "i < length ?rs" "rp_source (?rs ! i) = source" for i
  proof -
    have "List.find (\<lambda>entry. rp_source entry = source) ?rs = Some (?rs ! i)"
      unfolding find_Some_iff
    proof (intro exI[of _ i] conjI allI impI notI)
      fix j assume "j < i" "rp_source (?rs ! j) = source"
      then show False using only[of i j] i by simp
    qed (use i in simp_all)
    then show ?thesis by (simp add: find_route_policy_source_def)
  qed
  have "find_route (load_policy new_gateway d) source = Inr route \<longleftrightarrow>
      (\<exists>i < length ?rs. rp_source (?rs ! i) = source \<and>
        (\<forall>j < i. fst (?t ! j) \<noteq> source) \<and> route = nth_route i (?t ! i))"
    unfolding load_policy_history using route_of_source[of "map entry_op ?rs" source route] assms(2)
    by (auto simp: acc)
  also have "\<dots> \<longleftrightarrow> (\<exists>i < length ?rs. rp_source (?rs ! i) = source \<and> route = nth_route i (?t ! i))"
    using only by (metis (no_types, lifting) fst_conv less_irrefl less_trans nth_map)
  also have "\<dots> \<longleftrightarrow> (\<exists>i < length ?rs. rp_source (?rs ! i) = source \<and>
         find_route_policy_source d source = Inr (?rs ! i) \<and>
         route = \<lparr>gr_id = of_nat (i + 1), gr_source = source,
                  gr_destination = rp_destination (?rs ! i), gr_family_id = rp_family_id (?rs ! i)\<rparr>)"
    using lookup by (auto simp: nth_route_def)
  finally show ?thesis .
qed

definition sample_policy :: RoutePolicyDocument where
  "sample_policy = \<lparr>rd_routes =
     [\<lparr>rp_name = ''a=b'', rp_source = \<lparr>cid_number = 1, cid_generation = 1\<rparr>,
       rp_destination = \<lparr>cid_number = 2, cid_generation = 3\<rparr>, rp_family_id = 7, rp_payload = [0, 255]\<rparr>,
      default_entry\<lparr>rp_source := \<lparr>cid_number = 4, cid_generation = 0\<rparr>, rp_payload := [1]\<rparr>]\<rparr>"

lemma sample_policy_storable: "storable_policy sample_policy"
  by (simp add: storable_policy_def validation_exact sample_policy_def route_ok_def is_control_def
      readable_def default_entry_def route_names_def)

theorem policy_routes_all_witness:
  "find_route (load_policy new_gateway sample_policy) \<lparr>cid_number = 1, cid_generation = 1\<rparr> =
     Inr \<lparr>gr_id = 1, gr_source = \<lparr>cid_number = 1, cid_generation = 1\<rparr>,
          gr_destination = \<lparr>cid_number = 2, cid_generation = 3\<rparr>, gr_family_id = 7\<rparr>"
proof (subst policy_routes_all[OF policy_reads_back(2)[OF sample_policy_storable]])
  show "\<exists>i < length (rd_routes sample_policy).
      rp_source (rd_routes sample_policy ! i) = \<lparr>cid_number = 1, cid_generation = 1\<rparr> \<and>
      find_route_policy_source sample_policy \<lparr>cid_number = 1, cid_generation = 1\<rparr> =
        Inr (rd_routes sample_policy ! i) \<and>
      \<lparr>gr_id = 1, gr_source = \<lparr>cid_number = 1, cid_generation = 1\<rparr>,
        gr_destination = \<lparr>cid_number = 2, cid_generation = 3\<rparr>, gr_family_id = 7\<rparr> =
      \<lparr>gr_id = of_nat (i + 1), gr_source = \<lparr>cid_number = 1, cid_generation = 1\<rparr>,
        gr_destination = rp_destination (rd_routes sample_policy ! i),
        gr_family_id = rp_family_id (rd_routes sample_policy ! i)\<rparr>"
    by (rule exI[of _ 0]) (simp add: sample_policy_def find_route_policy_source_def)
qed (simp add: sample_policy_def)

section \<open>Names and payloads that are not preserved\<close>

text \<open>A document built in memory can be accepted by the validator, and so be written, without its
  text reading back: channel number zero with a generation is not the control channel for the
  validator, but the parser refuses it.\<close>

theorem policy_text_unreadable:
  "\<exists>d s. serialize_route_policy d = Inr s \<and> \<not> is_ok (parse_route_policy_text s)"
proof -
  let ?r = "default_entry\<lparr>rp_source := \<lparr>cid_number = 0, cid_generation = 3\<rparr>, rp_payload := [1]\<rparr>"
  let ?d = "\<lparr>rd_routes = [?r]\<rparr>"
  have ok: "validation_ok (validate_route_policy ?d)"
    by (simp add: validation_exact route_ok_def is_control_def default_entry_def route_names_def)
  have written: "serialize_route_policy ?d = Inr (route_text ?r)"
    using ok by (simp add: serialize_route_policy_def Let_def)
  have plain: "list_all (\<lambda>l. CHR 0x0A \<notin> set l) (route_lines ?r)"
    using solid_value[OF solid_channel]
    by (auto simp: route_lines_def key_line_def default_entry_def simp del: hex_simps)
  have source: "parse_channel_text (channel_str \<lparr>cid_number = 0, cid_generation = 3\<rparr>) n =
      Inl (policy_error RP_invalid_channel n ''control channel must use generation zero'')" for n
    using parse_u32_decimal[of 0 n] parse_u32_decimal[of 3 n]
    by (simp add: parse_channel_text_def unquote_solid[OF solid_channel] channel_str_cut)
  have bad: "set_key (pending [] default_entry {} 1) ''source'' (channel_str \<lparr>cid_number = 0, cid_generation = 3\<rparr>) 2 =
      Inl (policy_error RP_invalid_channel 2 ''control channel must use generation zero'')"
    unfolding set_pending_keys by (simp add: set_key_in_route_def source pending_def Let_def)
  have start: "begin_route parse_state 1 = Inr (pending [] default_entry {} 1)"
    using begin_ready[OF finish_between[of "[]"], of 1] by (simp add: parse_state_def between_def)
  have "rp_name default_entry = []" by (simp add: default_entry_def)
  then have first: "parse_policy_lines parse_state 0 (route_lines ?r) =
      Inl (policy_error RP_invalid_channel 2 ''control channel must use generation zero'')"
    using bad start
    by (simp add: route_lines_def section_line solid_key_line[OF solid_keys(2) _ solid_channel]
        numeral_2_eq_2)
  have "parse_route_policy_text (route_text ?r) =
      Inl (policy_error RP_invalid_channel 2 ''control channel must use generation zero'')"
    using getlines_lines[OF plain] by (simp add: parse_route_policy_text_def route_text_lines first)
  then show ?thesis using written by (intro exI[of _ ?d] exI[of _ "route_text ?r"]) simp
qed

end
