(* ===== verification/Inspection.thy ===== *)
theory Inspection
  imports Engine_Session Text_Format "HOL-Library.List_Lexorder"
begin

text \<open>
  Stream and event inspection, \<^verbatim>\<open>src/diagnostics/inspection.cpp\<close> and
  \<^verbatim>\<open>include/lattice/inspection.hpp\<close>: what is observed of a frame, the findings of one frame, the
  inspection of a whole byte stream through a frame decoder of its own, the summary of a
  connection's event log, and the two report texts. The lemmas say exactly when a stream is
  reported free of errors, that a stream of encoded frames is reported frame by frame, and that
  the summary counts what the log holds. Sums of sizes are not wrapped: what is summed is in
  memory at once.
\<close>

section \<open>Observations and findings\<close>

datatype InspectionSeverity = IS_info | IS_warning | IS_error

datatype FrameFindingCode =
    FF_decoder_error | FF_too_many_frames | FF_empty_required_extension | FF_duplicate_extension_type
  | FF_missing_message_sequence | FF_missing_fragment_offset | FF_missing_message_total
  | FF_missing_family_id | FF_invalid_message_extension | FF_zero_message_total
  | FF_fragment_exceeds_total | FF_control_payload_large | FF_sequence_rewind | FF_goaway_not_last
  | FF_resume_on_data_channel | FF_ping_payload_size | FF_pong_payload_size

record FrameFinding =
  ff_severity :: InspectionSeverity
  ff_code :: FrameFindingCode
  ff_frame_index :: nat
  ff_frame_seq :: u32
  ff_channel :: ChannelId
  ff_detail :: string

record ExtensionObservation =
  eo_type :: u16
  eo_required :: bool
  eo_value_bytes :: nat

record FrameObservation =
  fo_index :: nat
  fo_type :: FrameType
  fo_channel :: ChannelId
  fo_frame_seq :: u32
  fo_payload_bytes :: nat
  fo_extension_count :: nat
  fo_required_extension_count :: nat
  fo_extensions :: "ExtensionObservation list"

record StreamInspectionOptions =
  io_limits :: FrameLimits
  io_eof :: bool
  io_require_data_message_extensions :: bool
  io_warn_on_sequence_rewind :: bool
  io_warn_on_goaway_not_last :: bool
  io_max_frames :: nat

definition default_inspection :: StreamInspectionOptions where
  "default_inspection =
     \<lparr>io_limits = default_frame_limits, io_eof = True, io_require_data_message_extensions = True,
      io_warn_on_sequence_rewind = True, io_warn_on_goaway_not_last = True, io_max_frames = 4096\<rparr>"

record StreamInspectionReport =
  sr_frames :: "FrameObservation list"
  sr_findings :: "FrameFinding list"
  sr_decoded_bytes :: nat
  sr_payload_bytes :: nat
  sr_data_frames :: nat
  sr_control_frames :: nat
  sr_decoder_reached_eof :: bool

definition error_count :: "StreamInspectionReport \<Rightarrow> nat" where
  "error_count r = length (filter (\<lambda>finding. ff_severity finding = IS_error) (sr_findings r))"

definition warning_count :: "StreamInspectionReport \<Rightarrow> nat" where
  "warning_count r = length (filter (\<lambda>finding. ff_severity finding = IS_warning) (sr_findings r))"

definition inspection_ok :: "StreamInspectionReport \<Rightarrow> bool" where
  "inspection_ok r \<longleftrightarrow> error_count r = 0"

record ConnectionEventSummary =
  es_total :: nat
  es_negotiated :: nat
  es_opened :: nat
  es_delivered :: nat
  es_plugin_responses :: nat
  es_pongs :: nat
  es_resumed :: nat
  es_timers :: nat
  es_resets :: nat
  es_half_closes :: nat
  es_closed :: nat
  es_diagnostics :: nat
  es_payload_bytes :: nat
  es_channels :: "ChannelId list"

fun severity_text :: "InspectionSeverity \<Rightarrow> string" where
  "severity_text IS_info = ''info''"
| "severity_text IS_warning = ''warning''"
| "severity_text IS_error = ''error''"

fun finding_code_text :: "FrameFindingCode \<Rightarrow> string" where
  "finding_code_text FF_decoder_error = ''decoder_error''"
| "finding_code_text FF_too_many_frames = ''too_many_frames''"
| "finding_code_text FF_empty_required_extension = ''empty_required_extension''"
| "finding_code_text FF_duplicate_extension_type = ''duplicate_extension_type''"
| "finding_code_text FF_missing_message_sequence = ''missing_message_sequence''"
| "finding_code_text FF_missing_fragment_offset = ''missing_fragment_offset''"
| "finding_code_text FF_missing_message_total = ''missing_message_total''"
| "finding_code_text FF_missing_family_id = ''missing_family_id''"
| "finding_code_text FF_invalid_message_extension = ''invalid_message_extension''"
| "finding_code_text FF_zero_message_total = ''zero_message_total''"
| "finding_code_text FF_fragment_exceeds_total = ''fragment_exceeds_total''"
| "finding_code_text FF_control_payload_large = ''control_payload_large''"
| "finding_code_text FF_sequence_rewind = ''sequence_rewind''"
| "finding_code_text FF_goaway_not_last = ''goaway_not_last''"
| "finding_code_text FF_resume_on_data_channel = ''resume_on_data_channel''"
| "finding_code_text FF_ping_payload_size = ''ping_payload_size''"
| "finding_code_text FF_pong_payload_size = ''pong_payload_size''"

fun frame_type_text :: "FrameType \<Rightarrow> string" where
  "frame_type_text FT_hello = ''HELLO''"
| "frame_type_text FT_open = ''OPEN''"
| "frame_type_text FT_data = ''DATA''"
| "frame_type_text FT_ack = ''ACK''"
| "frame_type_text FT_credit = ''CREDIT''"
| "frame_type_text FT_half_close = ''HALF_CLOSE''"
| "frame_type_text FT_reset = ''RESET''"
| "frame_type_text FT_ping = ''PING''"
| "frame_type_text FT_pong = ''PONG''"
| "frame_type_text FT_goaway = ''GOAWAY''"
| "frame_type_text FT_resume = ''RESUME''"

definition is_control_payload_frame :: "FrameType \<Rightarrow> bool" where
  "is_control_payload_frame type \<longleftrightarrow>
     type \<in> {FT_hello, FT_ack, FT_ping, FT_pong, FT_goaway, FT_resume}"

definition is_data_carrier :: "FrameType \<Rightarrow> bool" where
  "is_data_carrier type \<longleftrightarrow> type = FT_data"

section \<open>One frame\<close>

definition observe_frame :: "Frame \<Rightarrow> nat \<Rightarrow> FrameObservation" where
  "observe_frame frame index =
     \<lparr>fo_index = index, fo_type = f_type frame, fo_channel = f_channel frame,
      fo_frame_seq = f_frame_seq frame, fo_payload_bytes = length (f_payload frame),
      fo_extension_count = length (f_extensions frame),
      fo_required_extension_count = length (filter ext_required (f_extensions frame)),
      fo_extensions =
        map (\<lambda>ext. \<lparr>eo_type = ext_type ext, eo_required = ext_required ext,
                     eo_value_bytes = length (ext_value ext)\<rparr>) (f_extensions frame)\<rparr>"

definition frame_finding ::
  "InspectionSeverity \<Rightarrow> FrameFindingCode \<Rightarrow> Frame \<Rightarrow> nat \<Rightarrow> string \<Rightarrow> FrameFinding" where
  "frame_finding severity code frame index detail =
     \<lparr>ff_severity = severity, ff_code = code, ff_frame_index = index,
      ff_frame_seq = f_frame_seq frame, ff_channel = f_channel frame, ff_detail = detail\<rparr>"

definition data_extension_finding ::
  "Frame \<Rightarrow> nat \<Rightarrow> u16 \<Rightarrow> FrameFindingCode \<Rightarrow> string \<Rightarrow> FrameFinding list" where
  "data_extension_finding frame index type missing_code name =
     (case find_extension frame type of
        None \<Rightarrow> [frame_finding IS_error missing_code frame index
                  (''DATA frame is missing '' @ name @ '' extension'')]
      | Some ext \<Rightarrow>
          if length (ext_value ext) \<noteq> 4
          then [frame_finding IS_error FF_invalid_message_extension frame index
                  (name @ '' extension must be exactly four bytes'')]
          else [])"

text \<open>The counts of \<open>std::map<std::uint16_t, std::size_t> seen\<close>.\<close>

fun count_types :: "(u16 \<times> nat) list \<Rightarrow> Extension list \<Rightarrow> (u16 \<times> nat) list" where
  "count_types seen [] = seen"
| "count_types seen (ext # exts) =
     count_types
       (om_put (ext_type ext) (case om_get seen (ext_type ext) of None \<Rightarrow> 1 | Some n \<Rightarrow> n + 1) seen) exts"

definition data_findings :: "Frame \<Rightarrow> nat \<Rightarrow> FrameFinding list" where
  "data_findings frame index =
     data_extension_finding frame index kExtMessageSeq FF_missing_message_sequence ''message sequence'' @
     data_extension_finding frame index kExtFragmentOffset FF_missing_fragment_offset ''fragment offset'' @
     data_extension_finding frame index kExtMessageTotal FF_missing_message_total ''message total'' @
     data_extension_finding frame index kExtFamilyId FF_missing_family_id ''family id'' @
     (let total = extension_u32 frame kExtMessageTotal;
          offset = extension_u32 frame kExtFragmentOffset
      in (case total of
            Inr t \<Rightarrow> if t = 0 then [frame_finding IS_error FF_zero_message_total frame index
                                    ''message total cannot be zero''] else []
          | Inl _ \<Rightarrow> []) @
         (case (total, offset) of
            (Inr t, Inr off) \<Rightarrow>
              if off > t then [frame_finding IS_error FF_fragment_exceeds_total frame index
                                 ''fragment offset exceeds declared total''] else []
          | _ \<Rightarrow> []))"

definition inspect_frame :: "Frame \<Rightarrow> nat \<Rightarrow> FrameFinding list" where
  "inspect_frame frame index =
     concat (map (\<lambda>ext. if ext_required ext \<and> ext_value ext = []
       then [frame_finding IS_warning FF_empty_required_extension frame index
               ''required extension has an empty value''] else []) (f_extensions frame)) @
     concat (map (\<lambda>(type, count). if count > 1
       then [frame_finding IS_error FF_duplicate_extension_type frame index
               (''frame repeats extension type '' @ decimal (unat type))] else [])
       (count_types [] (f_extensions frame))) @
     (if is_data_carrier (f_type frame) then data_findings frame index else []) @
     (if (f_type frame = FT_ping \<or> f_type frame = FT_pong) \<and> length (f_payload frame) \<noteq> 8
      then [frame_finding IS_warning
              (if f_type frame = FT_ping then FF_ping_payload_size else FF_pong_payload_size)
              frame index ''PING/PONG payload should be exactly eight bytes''] else []) @
     (if f_type frame = FT_resume \<and> \<not> is_control (f_channel frame)
      then [frame_finding IS_error FF_resume_on_data_channel frame index
              ''RESUME must use the control channel''] else []) @
     (if is_control_payload_frame (f_type frame) \<and> length (f_payload frame) > 512
      then [frame_finding IS_warning FF_control_payload_large frame index
              ''control payload is unusually large''] else [])"

section \<open>A byte stream\<close>

definition add_findings :: "FrameFinding list \<Rightarrow> StreamInspectionReport \<Rightarrow> StreamInspectionReport" where
  "add_findings fs r = r\<lparr>sr_findings := sr_findings r @ fs\<rparr>"

text \<open>What one decoded frame adds; \<open>last_event\<close> says that no decoder event follows it.\<close>

definition inspect_step ::
  "StreamInspectionOptions \<Rightarrow> StreamInspectionReport \<Rightarrow> u32 option \<Rightarrow> Frame \<Rightarrow> bool \<Rightarrow> StreamInspectionReport" where
  "inspect_step options report previous frame last_event =
     (let index = length (sr_frames report);
          rewind = (case previous of None \<Rightarrow> False | Some p \<Rightarrow> f_frame_seq frame < p);
          report = (if io_warn_on_sequence_rewind options \<and> rewind
                    then add_findings [frame_finding IS_warning FF_sequence_rewind frame index
                           ''frame sequence moved backwards''] report else report);
          report = (if io_warn_on_goaway_not_last options \<and> f_type frame = FT_goaway \<and> \<not> last_event
                    then add_findings [frame_finding IS_warning FF_goaway_not_last frame index
                           ''GOAWAY was followed by additional decoder events''] report else report);
          report = report\<lparr>sr_payload_bytes := sr_payload_bytes report + length (f_payload frame)\<rparr>;
          report = (if f_type frame = FT_data
                    then report\<lparr>sr_data_frames := sr_data_frames report + 1\<rparr>
                    else report\<lparr>sr_control_frames := sr_control_frames report + 1\<rparr>);
          report = (if io_require_data_message_extensions options \<or> f_type frame \<noteq> FT_data
                    then add_findings (inspect_frame frame index) report else report)
      in report\<lparr>sr_frames := sr_frames report @ [observe_frame frame index]\<rparr>)"

definition decoder_finding :: "nat \<Rightarrow> Error \<Rightarrow> FrameFinding" where
  "decoder_finding index err =
     \<lparr>ff_severity = IS_error, ff_code = FF_decoder_error, ff_frame_index = index, ff_frame_seq = 0,
      ff_channel = control_channel, ff_detail = err_detail err\<rparr>"

fun inspect_events ::
  "StreamInspectionOptions \<Rightarrow> StreamInspectionReport \<Rightarrow> u32 option \<Rightarrow> DecodeEvent list \<Rightarrow> StreamInspectionReport" where
  "inspect_events options report previous [] = report"
| "inspect_events options report previous (DE_need_more # events) =
     inspect_events options report previous events"
| "inspect_events options report previous (DE_error err # events) =
     inspect_events options
       (add_findings [decoder_finding (length (sr_frames report)) err] report) previous events"
| "inspect_events options report previous (DE_frame frame # events) =
     (if length (sr_frames report) \<ge> io_max_frames options
      then add_findings [frame_finding IS_error FF_too_many_frames frame (length (sr_frames report))
             ''stream contains more frames than the inspection cap''] report
      else inspect_events options (inspect_step options report previous frame (events = []))
             (Some (f_frame_seq frame)) events)"

definition new_inspection :: "bytes \<Rightarrow> StreamInspectionOptions \<Rightarrow> StreamInspectionReport" where
  "new_inspection bs options =
     \<lparr>sr_frames = [], sr_findings = [], sr_decoded_bytes = length bs, sr_payload_bytes = 0,
      sr_data_frames = 0, sr_control_frames = 0, sr_decoder_reached_eof = io_eof options\<rparr>"

definition inspect_frame_stream :: "bytes \<Rightarrow> StreamInspectionOptions \<Rightarrow> StreamInspectionReport" where
  "inspect_frame_stream bs options =
     inspect_events options (new_inspection bs options) None
       (snd (feed (new_codec (io_limits options)) bs (io_eof options)))"

section \<open>The event log\<close>

definition new_summary :: "nat \<Rightarrow> ConnectionEventSummary" where
  "new_summary n =
     \<lparr>es_total = n, es_negotiated = 0, es_opened = 0, es_delivered = 0, es_plugin_responses = 0,
      es_pongs = 0, es_resumed = 0, es_timers = 0, es_resets = 0, es_half_closes = 0, es_closed = 0,
      es_diagnostics = 0, es_payload_bytes = 0, es_channels = []\<rparr>"

fun count_event :: "EventKind \<Rightarrow> ConnectionEventSummary \<Rightarrow> ConnectionEventSummary" where
  "count_event EK_negotiated s = s\<lparr>es_negotiated := es_negotiated s + 1\<rparr>"
| "count_event EK_channel_opened s = s\<lparr>es_opened := es_opened s + 1\<rparr>"
| "count_event EK_message_delivered s = s\<lparr>es_delivered := es_delivered s + 1\<rparr>"
| "count_event EK_plugin_response s = s\<lparr>es_plugin_responses := es_plugin_responses s + 1\<rparr>"
| "count_event EK_pong_received s = s\<lparr>es_pongs := es_pongs s + 1\<rparr>"
| "count_event EK_resumed s = s\<lparr>es_resumed := es_resumed s + 1\<rparr>"
| "count_event EK_timer_expired s = s\<lparr>es_timers := es_timers s + 1\<rparr>"
| "count_event EK_channel_reset s = s\<lparr>es_resets := es_resets s + 1\<rparr>"
| "count_event EK_half_closed s = s\<lparr>es_half_closes := es_half_closes s + 1\<rparr>"
| "count_event EK_closed s = s\<lparr>es_closed := es_closed s + 1\<rparr>"
| "count_event EK_diagnostic s = s\<lparr>es_diagnostics := es_diagnostics s + 1\<rparr>"

fun summarize_loop ::
  "ConnectionEventSummary \<Rightarrow> (string \<times> ChannelId) list \<Rightarrow> ConnectionEvent list \<Rightarrow>
   ConnectionEventSummary \<times> (string \<times> ChannelId) list" where
  "summarize_loop summary channels [] = (summary, channels)"
| "summarize_loop summary channels (event # events) =
     summarize_loop
       (count_event (ev_kind event)
          (summary\<lparr>es_payload_bytes := es_payload_bytes summary + length (ev_payload event)\<rparr>))
       (if is_control (ev_channel event) then channels
        else om_put (channel_str (ev_channel event)) (ev_channel event) channels)
       events"

definition summarize_connection_events :: "ConnectionEvent list \<Rightarrow> ConnectionEventSummary" where
  "summarize_connection_events events =
     (let (summary, channels) = summarize_loop (new_summary (length events)) [] events
      in summary\<lparr>es_channels := map snd channels\<rparr>)"

section \<open>Report texts\<close>

definition channel_list :: "ChannelId list \<Rightarrow> string" where
  "channel_list channels =
     (case channels of [] \<Rightarrow> [] | ch # chs \<Rightarrow> channel_str ch @ concat (map (\<lambda>c. '','' @ channel_str c) chs))"

definition observation_line :: "FrameObservation \<Rightarrow> string" where
  "observation_line frame =
     ''frame['' @ decimal (fo_index frame) @ '']'' @ '' type='' @ frame_type_text (fo_type frame) @
     '' channel='' @ channel_str (fo_channel frame) @ '' seq='' @ decimal (unat (fo_frame_seq frame)) @
     '' payload='' @ decimal (fo_payload_bytes frame) @
     '' extensions='' @ decimal (fo_extension_count frame) @
     '' required='' @ decimal (fo_required_extension_count frame) @ [CHR 0x0A]"

definition finding_line :: "FrameFinding \<Rightarrow> string" where
  "finding_line finding =
     severity_text (ff_severity finding) @ '' frame='' @ decimal (ff_frame_index finding) @
     '' code='' @ finding_code_text (ff_code finding) @
     '' detail='' @ [CHR 0x22] @ ff_detail finding @ [CHR 0x22, CHR 0x0A]"

definition format_inspection_report :: "StreamInspectionReport \<Rightarrow> string" where
  "format_inspection_report report =
     ''frames='' @ decimal (length (sr_frames report)) @ '' data='' @ decimal (sr_data_frames report) @
     '' control='' @ decimal (sr_control_frames report) @
     '' payload_bytes='' @ decimal (sr_payload_bytes report) @
     '' errors='' @ decimal (error_count report) @
     '' warnings='' @ decimal (warning_count report) @ [CHR 0x0A] @
     concat (map observation_line (sr_frames report)) @
     concat (map finding_line (sr_findings report))"

definition format_connection_event_summary :: "ConnectionEventSummary \<Rightarrow> string" where
  "format_connection_event_summary summary =
     ''events='' @ decimal (es_total summary) @ '' negotiated='' @ decimal (es_negotiated summary) @
     '' opened='' @ decimal (es_opened summary) @ '' delivered='' @ decimal (es_delivered summary) @
     '' plugin='' @ decimal (es_plugin_responses summary) @ '' pongs='' @ decimal (es_pongs summary) @
     '' resumed='' @ decimal (es_resumed summary) @ '' timers='' @ decimal (es_timers summary) @
     '' resets='' @ decimal (es_resets summary) @ '' half_closes='' @ decimal (es_half_closes summary) @
     '' closed='' @ decimal (es_closed summary) @ '' diagnostics='' @ decimal (es_diagnostics summary) @
     '' payload_bytes='' @ decimal (es_payload_bytes summary) @
     '' channels='' @ channel_list (es_channels summary)"

section \<open>When a frame is reported free of errors\<close>

definition errors_of :: "FrameFinding list \<Rightarrow> FrameFinding list" where
  "errors_of fs = filter (\<lambda>finding. ff_severity finding = IS_error) fs"

lemma errors_of_simps [simp]:
  "errors_of [] = []"
  "errors_of (f # fs) = (if ff_severity f = IS_error then f # errors_of fs else errors_of fs)"
  "errors_of (fs @ gs) = errors_of fs @ errors_of gs"
  "errors_of (if b then fs else gs) = (if b then errors_of fs else errors_of gs)"
  by (simp_all add: errors_of_def)

lemma severity_of_finding [simp]:
  "ff_severity (frame_finding s c f i d) = s" "ff_severity (decoder_finding i e) = IS_error"
  by (simp_all add: frame_finding_def decoder_finding_def)

lemma inspection_ok_iff: "inspection_ok r \<longleftrightarrow> errors_of (sr_findings r) = []"
  by (simp add: inspection_ok_def error_count_def errors_of_def)

text \<open>The four extensions of a message fragment are there, the total is not zero and the offset is
  within it.\<close>

definition fragment_described :: "Frame \<Rightarrow> bool" where
  "fragment_described f \<longleftrightarrow>
     (\<exists>seq offset total family. extension_u32 f kExtMessageSeq = Inr seq \<and>
        extension_u32 f kExtFragmentOffset = Inr offset \<and>
        extension_u32 f kExtMessageTotal = Inr total \<and> extension_u32 f kExtFamilyId = Inr family \<and>
        total \<noteq> 0 \<and> offset \<le> total)"

definition clean_frame :: "Frame \<Rightarrow> bool" where
  "clean_frame f \<longleftrightarrow> distinct (map ext_type (f_extensions f)) \<and>
     (f_type f = FT_data \<longrightarrow> fragment_described f) \<and>
     (f_type f = FT_resume \<longrightarrow> is_control (f_channel f))"

lemma data_extension_errors:
  "errors_of (data_extension_finding f i type code name) = [] \<longleftrightarrow> (\<exists>v. extension_u32 f type = Inr v)"
  by (auto simp: data_extension_finding_def extension_u32_def read_u32_be_def split: option.splits)

lemma data_findings_errors: "errors_of (data_findings f i) = [] \<longleftrightarrow> fragment_described f"
proof -
  consider (both) t off where "extension_u32 f kExtMessageTotal = Inr t" "extension_u32 f kExtFragmentOffset = Inr off"
    | (none) "\<nexists>t. extension_u32 f kExtMessageTotal = Inr t" | (no_offset) "\<nexists>off. extension_u32 f kExtFragmentOffset = Inr off"
    by blast
  then show ?thesis
  proof cases
    case both
    then show ?thesis
      by (auto simp: data_findings_def data_extension_errors fragment_described_def not_less Let_def)
  qed (simp_all add: data_findings_def data_extension_errors fragment_described_def)
qed

lemma om_ok_count: "om_ok seen \<Longrightarrow> om_ok (count_types seen exts)"
  by (induction exts arbitrary: seen) simp_all

lemma count_types_get:
  "om_ok seen \<Longrightarrow> om_get (count_types seen exts) t =
     (let n = count_list (map ext_type exts) t
      in case om_get seen t of None \<Rightarrow> if n = 0 then None else Some n | Some m \<Rightarrow> Some (m + n))"
  by (induction exts arbitrary: seen) (auto simp: om_get_put_map Let_def split: option.splits)

lemma distinct_count_list: "distinct xs \<longleftrightarrow> (\<forall>x. count_list xs x \<le> 1)"
proof (induction xs)
  case (Cons x xs)
  have "x \<notin> set xs \<longleftrightarrow> count_list xs x = 0" by (simp add: count_list_0_iff)
  then show ?case using Cons.IH by (auto simp: le_Suc_eq split: if_splits)
qed simp

lemma duplicate_errors:
  "(\<forall>(type, count) \<in> set (count_types [] exts). \<not> count > 1) \<longleftrightarrow> distinct (map ext_type exts)"
proof -
  have "(\<forall>(type, count) \<in> set (count_types [] exts). \<not> count > 1) \<longleftrightarrow>
      (\<forall>t n. om_get (count_types [] exts) t = Some n \<longrightarrow> n \<le> 1)"
    using om_get_iff[OF om_ok_count[OF om_ok_Nil, of exts]] by fastforce
  also have "\<dots> \<longleftrightarrow> (\<forall>t. count_list (map ext_type exts) t \<le> 1)"
    by (simp add: count_types_get[OF om_ok_Nil] Let_def) (metis gr0I le0)
  finally show ?thesis by (simp only: distinct_count_list)
qed

lemma errors_of_concat: "errors_of (concat xss) = concat (map errors_of xss)"
  by (induction xss) simp_all

lemma errors_of_empty_iff: "errors_of fs = [] \<longleftrightarrow> (\<forall>f \<in> set fs. ff_severity f \<noteq> IS_error)"
  by (auto simp: errors_of_def filter_empty_conv)

lemma inspect_frame_errors: "errors_of (inspect_frame f i) = [] \<longleftrightarrow> clean_frame f"
proof -
  have empty_values: "errors_of (concat (map (\<lambda>ext. if ext_required ext \<and> ext_value ext = []
       then [frame_finding IS_warning FF_empty_required_extension f i d] else []) exts)) = []" for exts d
    by (induction exts) simp_all
  have repeats: "errors_of (concat (map (\<lambda>(type, count). if count > 1
       then [frame_finding IS_error c f i (d type)] else []) counts)) = [] \<longleftrightarrow>
    (\<forall>(type, count) \<in> set counts. \<not> count > (1::nat))" for counts c d
    by (induction counts) auto
  show ?thesis
    unfolding inspect_frame_def errors_of_simps(3) append_is_Nil_conv empty_values repeats duplicate_errors
    by (simp add: data_findings_errors clean_frame_def is_data_carrier_def)
qed

section \<open>When a stream is reported free of errors\<close>

fun event_frames :: "DecodeEvent list \<Rightarrow> Frame list" where
  "event_frames [] = []"
| "event_frames (DE_frame f # events) = f # event_frames events"
| "event_frames (_ # events) = event_frames events"

definition checked_frame :: "StreamInspectionOptions \<Rightarrow> Frame \<Rightarrow> bool" where
  "checked_frame options f \<longleftrightarrow>
     (if io_require_data_message_extensions options \<or> f_type f \<noteq> FT_data then clean_frame f else True)"

lemma step_frames [simp]:
  "sr_frames (inspect_step options r previous f final) =
     sr_frames r @ [observe_frame f (length (sr_frames r))]"
  "sr_frames (add_findings fs r) = sr_frames r"
  "sr_findings (add_findings fs r) = sr_findings r @ fs"
  by (simp_all add: inspect_step_def Let_def add_findings_def)

lemma step_counts [simp]:
  "sr_decoded_bytes (inspect_step options r previous f final) = sr_decoded_bytes r"
  "sr_decoder_reached_eof (inspect_step options r previous f final) = sr_decoder_reached_eof r"
  "sr_payload_bytes (inspect_step options r previous f final) = sr_payload_bytes r + length (f_payload f)"
  "sr_data_frames (inspect_step options r previous f final) =
     sr_data_frames r + (if f_type f = FT_data then 1 else 0)"
  "sr_control_frames (inspect_step options r previous f final) =
     sr_control_frames r + (if f_type f = FT_data then 0 else 1)"
  by (simp_all add: inspect_step_def Let_def add_findings_def)

lemma add_findings_counts [simp]:
  "sr_decoded_bytes (add_findings fs r) = sr_decoded_bytes r"
  "sr_decoder_reached_eof (add_findings fs r) = sr_decoder_reached_eof r"
  "sr_payload_bytes (add_findings fs r) = sr_payload_bytes r"
  "sr_data_frames (add_findings fs r) = sr_data_frames r"
  "sr_control_frames (add_findings fs r) = sr_control_frames r"
  by (simp_all add: add_findings_def)

lemma step_ok: "inspection_ok (inspect_step options r previous f final) \<longleftrightarrow>
    inspection_ok r \<and> checked_frame options f"
  by (simp add: inspection_ok_iff inspect_step_def Let_def add_findings_def checked_frame_def
      inspect_frame_errors)

lemma inspect_events_ok:
  "inspection_ok (inspect_events options r previous events) \<longleftrightarrow>
     inspection_ok r \<and> \<not> list_ex event_is_error events \<and>
     length (sr_frames r) + length (event_frames events) \<le> max (length (sr_frames r)) (io_max_frames options) \<and>
     list_all (checked_frame options) (event_frames events)"
proof (induction options r previous events rule: inspect_events.induct)
  case (4 options r previous f events)
  show ?case
  proof (cases "length (sr_frames r) \<ge> io_max_frames options")
    case True
    then show ?thesis by (simp add: inspection_ok_iff)
  next
    case False
    then show ?thesis using "4.IH" by (auto simp: step_ok)
  qed
qed (auto simp: inspection_ok_iff)

lemma new_inspection_simps [simp]:
  "sr_frames (new_inspection bs options) = []" "sr_payload_bytes (new_inspection bs options) = 0"
  "sr_data_frames (new_inspection bs options) = 0" "sr_control_frames (new_inspection bs options) = 0"
  "sr_decoded_bytes (new_inspection bs options) = length bs"
  "sr_decoder_reached_eof (new_inspection bs options) = io_eof options"
  "inspection_ok (new_inspection bs options)"
  by (simp_all add: new_inspection_def inspection_ok_iff)

text \<open>Remark. A stream is reported free of errors exactly when its decoder raises no error, it has
  no more frames than the cap, and every frame is clean: no extension type twice, RESUME only on
  the control channel, and (where the options ask for it) DATA frames with the four 4-byte
  message extensions, a non-zero total and an offset within it.\<close>

theorem stream_ok_exact:
  "inspection_ok (inspect_frame_stream bs options) \<longleftrightarrow>
     (let events = snd (feed (new_codec (io_limits options)) bs (io_eof options))
      in \<not> list_ex event_is_error events \<and>
         length (event_frames events) \<le> io_max_frames options \<and>
         list_all (checked_frame options) (event_frames events))"
  by (simp add: inspect_frame_stream_def inspect_events_ok Let_def)

definition observed :: "nat \<Rightarrow> Frame list \<Rightarrow> FrameObservation list" where
  "observed n fs = map (\<lambda>(i, f). observe_frame f i) (enumerate n fs)"

lemma observed_simps [simp]:
  "observed n [] = []" "observed n (f # fs) = observe_frame f n # observed (Suc n) fs"
  by (simp_all add: observed_def)

lemma inspect_events_frames:
  "length (sr_frames r) \<le> io_max_frames options \<Longrightarrow>
   (let r' = inspect_events options r previous events;
        fs = take (io_max_frames options - length (sr_frames r)) (event_frames events)
    in sr_frames r' = sr_frames r @ observed (length (sr_frames r)) fs \<and>
       sr_payload_bytes r' = sr_payload_bytes r + sum_list (map (length \<circ> f_payload) fs) \<and>
       sr_data_frames r' = sr_data_frames r + length (filter (\<lambda>f. f_type f = FT_data) fs) \<and>
       sr_control_frames r' = sr_control_frames r + length (filter (\<lambda>f. f_type f \<noteq> FT_data) fs) \<and>
       sr_decoded_bytes r' = sr_decoded_bytes r \<and>
       sr_decoder_reached_eof r' = sr_decoder_reached_eof r)"
proof (induction options r previous events rule: inspect_events.induct)
  case (4 options r previous f events)
  show ?case
  proof (cases "length (sr_frames r) \<ge> io_max_frames options")
    case True
    then show ?thesis by (simp add: Let_def)
  next
    case False
    then obtain k where k: "io_max_frames options - length (sr_frames r) = Suc k"
      "io_max_frames options - Suc (length (sr_frames r)) = k"
      by (metis Suc_diff_Suc not_le)
    show ?thesis using "4.IH" False by (simp add: Let_def k)
  qed
qed (simp_all add: Let_def)

lemma feed_encoded:
  assumes "list_all2 (\<lambda>f out. encode_frame limits f = Inr out) fs outs"
    and "list_all (\<lambda>f. list_all extension_ok (f_extensions f)) fs"
    and "fl_max_header limits \<le> 65535"
  shows "feed_loop limits eof (concat outs) events =
    ([], if events = [] \<and> fs = [] then [DE_need_more] else events @ map (DE_frame \<circ> normal_frame) fs)"
  using assms(1,2)
proof (induction fs outs arbitrary: events rule: list_all2_induct)
  case Nil
  then show ?case by (simp add: feed_loop.simps)
next
  case (Cons f fs out outs)
  have enc: "encode_frame limits f = Inr out" using Cons.hyps by simp
  have one: "decode_one limits eof (out @ concat outs) = Step_frame (normal_frame f) (length out)"
    using encoded_frame_decodes[OF enc _ assms(3)] Cons.prems by simp
  show ?case
  proof (cases "concat outs = []")
    case True
    have "fs = []"
    proof (rule ccontr)
      assume "fs \<noteq> []"
      then obtain g gs o' os where "fs = g # gs" "outs = o' # os" "encode_frame limits g = Inr o'"
        using Cons.hyps(2) by (auto simp: neq_Nil_conv list_all2_Cons1)
      then obtain ext where "o' = frame_bytes g ext" by (auto simp: encode_frame_iff)
      then have "length o' > 0" by (simp add: length_frame_bytes)
      then show False using True \<open>outs = o' # os\<close> by simp
    qed
    then have "outs = []" using Cons.hyps(2) by simp
    then show ?thesis using one \<open>fs = []\<close> by (subst feed_loop.simps) simp
  next
    case False
    then show ?thesis using one Cons.IH[of "events @ [DE_frame (normal_frame f)]"] Cons.prems
      by (subst feed_loop.simps) auto
  qed
qed

lemma event_frames_map [simp]: "event_frames (map (DE_frame \<circ> g) fs) = map g fs"
  by (induction fs) simp_all

lemma inspected_encoding:
  assumes "list_all2 (\<lambda>f out. encode_frame (io_limits options) f = Inr out) fs outs"
    and "list_all (\<lambda>f. list_all extension_ok (f_extensions f)) fs"
    and "fl_max_header (io_limits options) \<le> 65535" and "length fs \<le> io_max_frames options"
  shows "let r = inspect_frame_stream (concat outs) options
    in sr_frames r = observed 0 (map normal_frame fs) \<and>
       sr_data_frames r + sr_control_frames r = length fs \<and>
       sr_data_frames r = length (filter (\<lambda>f. f_type f = FT_data) fs) \<and>
       sr_payload_bytes r = sum_list (map (length \<circ> f_payload) fs) \<and>
       (inspection_ok r \<longleftrightarrow> list_all (checked_frame options \<circ> normal_frame) fs)"
proof -
  have events: "snd (feed (new_codec (io_limits options)) (concat outs) (io_eof options)) =
      (if fs = [] then [DE_need_more] else map (DE_frame \<circ> normal_frame) fs)"
    using feed_encoded[OF assms(1-3), of "io_eof options" "[]"] by (simp add: feed_def new_codec_def)
  have frames: "event_frames (if fs = [] then [DE_need_more] else map (DE_frame \<circ> normal_frame) fs) =
      map normal_frame fs" by simp
  have none: "\<not> list_ex event_is_error (if fs = [] then [DE_need_more] else map (DE_frame \<circ> normal_frame) fs)"
    by (auto simp: list_ex_iff)
  have same: "f_type (normal_frame f) = f_type f" "f_payload (normal_frame f) = f_payload f" for f
    by (simp_all add: normal_frame_def)
  have counts: "length (filter (\<lambda>f. f_type f = FT_data) gs) + length (filter (\<lambda>f. f_type f \<noteq> FT_data) gs) = length gs"
    for gs :: "Frame list" by (rule sum_length_filter_compl)
  show ?thesis
    using inspect_events_frames[of "new_inspection (concat outs) options" options None
        "if fs = [] then [DE_need_more] else map (DE_frame \<circ> normal_frame) fs"] assms(4) frames none counts[of fs]
    by (simp add: inspect_frame_stream_def events inspect_events_ok Let_def filter_map comp_def same
        list_all_iff)
qed

text \<open>Remark. The stream of encoded frames is inspected faithfully: up to the cap it reports
  every frame in order as it was encoded (extensions sorted), counts the data and control frames
  and the payload bytes, and is free of errors exactly when every frame is clean and the cap
  holds.\<close>

theorem encoded_stream_inspected:
  assumes "list_all2 (\<lambda>f out. encode_frame (io_limits options) f = Inr out) fs outs"
    and "list_all (\<lambda>f. list_all extension_ok (f_extensions f)) fs"
    and "fl_max_header (io_limits options) \<le> 65535" and "length fs \<le> io_max_frames options"
  shows "let r = inspect_frame_stream (concat outs) options
    in sr_frames r = observed 0 (map normal_frame fs) \<and>
       sr_data_frames r + sr_control_frames r = length fs \<and>
       sr_data_frames r = length (filter (\<lambda>f. f_type f = FT_data) fs) \<and>
       sr_payload_bytes r = sum_list (map (length \<circ> f_payload) fs) \<and>
       (inspection_ok r \<longleftrightarrow> list_all (checked_frame options \<circ> normal_frame) fs)"
  using assms by (rule inspected_encoding)

theorem encoded_stream_inspected_witness:
  "sr_frames (inspect_frame_stream sample_bytes default_inspection) = observed 0 [normal_frame sample_frame]"
  using encoded_stream_inspected[of default_inspection "[sample_frame]" "[sample_bytes]"]
    sample_encode sample_extensions_ok
  by (simp add: default_inspection_def Let_def) (simp add: default_frame_limits_def)

section \<open>What the summary counts\<close>

definition event_count :: "EventKind \<Rightarrow> ConnectionEvent list \<Rightarrow> nat" where
  "event_count k events = length (filter (\<lambda>e. ev_kind e = k) events)"

lemma event_count_simps [simp]:
  "event_count k [] = 0"
  "event_count k (e # events) = (if ev_kind e = k then 1 else 0) + event_count k events"
  by (simp_all add: event_count_def)

text \<open>The names of the data channels of a log, in the order of the map.\<close>

fun named_channels :: "(string \<times> ChannelId) list \<Rightarrow> ConnectionEvent list \<Rightarrow> (string \<times> ChannelId) list" where
  "named_channels m [] = m"
| "named_channels m (e # events) =
     named_channels (if is_control (ev_channel e) then m
                     else om_put (channel_str (ev_channel e)) (ev_channel e) m) events"

lemma named_channels_ok: "om_ok m \<Longrightarrow> om_ok (named_channels m events)"
  by (induction events arbitrary: m) simp_all

lemma set_om_put: "om_ok m \<Longrightarrow> set (om_put k v m) = insert (k, v) {p \<in> set m. fst p \<noteq> k}"
proof -
  assume ok: "om_ok m"
  have "(k', v') \<in> set (om_put k v m) \<longleftrightarrow> (k', v') \<in> insert (k, v) {p \<in> set m. fst p \<noteq> k}" for k' v'
    unfolding om_get_iff[OF om_ok_put[OF ok], symmetric] om_get_put_map[OF ok]
    using om_get_iff[OF ok, of k' v'] by auto
  then show ?thesis by auto
qed

lemma named_channels_set:
  "om_ok m \<Longrightarrow> \<forall>p \<in> set m. fst p = channel_str (snd p) \<Longrightarrow>
     set (named_channels m events) = set m \<union>
       (\<lambda>ch. (channel_str ch, ch)) ` {ev_channel e | e. e \<in> set events \<and> \<not> is_control (ev_channel e)}"
proof (induction events arbitrary: m)
  case (Cons e events)
  let ?m = "if is_control (ev_channel e) then m else om_put (channel_str (ev_channel e)) (ev_channel e) m"
  have entries: "set ?m = set m \<union> (if is_control (ev_channel e) then {} else
      {(channel_str (ev_channel e), ev_channel e)})"
    using Cons.prems by (auto simp: set_om_put channel_str_injective)
  have "\<forall>p \<in> set ?m. fst p = channel_str (snd p)"
    using Cons.prems(2) unfolding entries by auto
  then have "set (named_channels m (e # events)) = set ?m \<union>
      (\<lambda>ch. (channel_str ch, ch)) ` {ev_channel e | e. e \<in> set events \<and> \<not> is_control (ev_channel e)}"
    using Cons.IH[of ?m] Cons.prems(1) by simp
  then show ?case unfolding entries by (auto split: if_splits)
qed simp

lemma summarize_loop_exact:
  "summarize_loop s m events =
     (s\<lparr>es_negotiated := es_negotiated s + event_count EK_negotiated events,
        es_opened := es_opened s + event_count EK_channel_opened events,
        es_delivered := es_delivered s + event_count EK_message_delivered events,
        es_plugin_responses := es_plugin_responses s + event_count EK_plugin_response events,
        es_pongs := es_pongs s + event_count EK_pong_received events,
        es_resumed := es_resumed s + event_count EK_resumed events,
        es_timers := es_timers s + event_count EK_timer_expired events,
        es_resets := es_resets s + event_count EK_channel_reset events,
        es_half_closes := es_half_closes s + event_count EK_half_closed events,
        es_closed := es_closed s + event_count EK_closed events,
        es_diagnostics := es_diagnostics s + event_count EK_diagnostic events,
        es_payload_bytes := es_payload_bytes s + sum_list (map (length \<circ> ev_payload) events)\<rparr>,
      named_channels m events)"
proof (induction events arbitrary: s m)
  case (Cons e events)
  show ?case
    by (cases "ev_kind e") (simp_all add: Cons.IH)
qed simp

lemma listed_channels:
  "set (map snd (named_channels [] events)) = {ev_channel e | e. e \<in> set events \<and> \<not> is_control (ev_channel e)}"
  by (simp add: named_channels_set image_image)

lemma named_channels_names:
  "map fst (named_channels [] events) = map channel_str (map snd (named_channels [] events))"
  by (auto simp: named_channels_set)

text \<open>Remark. The summary of an event log counts exactly the events of each kind and the payload
  bytes, the counts add up to the length of the log, and it lists every data channel of the log
  once, in the order of the channel names.\<close>

theorem summary_exact:
  "let s = summarize_connection_events events
   in es_total s = length events \<and>
      (es_negotiated s, es_opened s, es_delivered s, es_plugin_responses s, es_pongs s, es_resumed s) =
        (event_count EK_negotiated events, event_count EK_channel_opened events,
         event_count EK_message_delivered events, event_count EK_plugin_response events,
         event_count EK_pong_received events, event_count EK_resumed events) \<and>
      (es_timers s, es_resets s, es_half_closes s, es_closed s, es_diagnostics s) =
        (event_count EK_timer_expired events, event_count EK_channel_reset events,
         event_count EK_half_closed events, event_count EK_closed events,
         event_count EK_diagnostic events) \<and>
      es_total s = es_negotiated s + es_opened s + es_delivered s + es_plugin_responses s + es_pongs s +
        es_resumed s + es_timers s + es_resets s + es_half_closes s + es_closed s + es_diagnostics s \<and>
      es_payload_bytes s = sum_list (map (length \<circ> ev_payload) events) \<and>
      set (es_channels s) = {ev_channel e | e. e \<in> set events \<and> \<not> is_control (ev_channel e)} \<and>
      sorted_wrt (<) (map channel_str (es_channels s))"
proof -
  have total: "length events = event_count EK_negotiated events + event_count EK_channel_opened events +
      event_count EK_message_delivered events + event_count EK_plugin_response events +
      event_count EK_pong_received events + event_count EK_resumed events +
      event_count EK_timer_expired events + event_count EK_channel_reset events +
      event_count EK_half_closed events + event_count EK_closed events + event_count EK_diagnostic events"
  proof (induction events)
    case (Cons e events)
    then show ?case by (cases "ev_kind e") simp_all
  qed simp
  have "sorted_wrt (<) (map channel_str (map snd (named_channels [] events)))"
    unfolding named_channels_names[symmetric]
    using named_channels_ok[OF om_ok_Nil, of events] by (simp only: om_ok_def)
  then show ?thesis
    using total listed_channels[of events]
    by (simp add: summarize_connection_events_def summarize_loop_exact new_summary_def Let_def)
qed

section \<open>What an engine sends passes inspection\<close>

lemma sent_frames:
  "0 < fragment \<Longrightarrow>
     list_all (\<lambda>f. \<exists>q k. f = data_frame cid sequence msg fragment q k \<and> k < length msg)
       (data_frames cid sequence msg fragment q offset) \<and>
     sum_list (map (length \<circ> f_payload) (data_frames cid sequence msg fragment q offset)) = length msg - offset"
proof (induction cid sequence msg fragment q offset rule: data_frames.induct)
  case (1 cid sequence msg fragment q offset)
  show ?case
  proof (cases "offset < length msg")
    case True
    have part: "length (f_payload (data_frame cid sequence msg fragment q offset)) =
        min fragment (length msg - offset)"
      by (simp add: data_frame_def)
    show ?thesis using "1.IH" True "1.prems"
      by (subst (1 2) data_frames.simps) (auto simp: part min_def comp_def)
  qed (subst (1 2) data_frames.simps, simp)
qed

lemma data_frame_clean: "k < length msg \<Longrightarrow> length msg < 2 ^ 32 \<Longrightarrow>
    clean_frame (data_frame cid sequence msg fragment q k)"
proof -
  assume k: "k < length msg" "length msg < 2 ^ 32"
  have "(of_nat (length msg) :: u32) \<noteq> 0" "(of_nat k :: u32) \<le> of_nat (length msg)"
    using k by (auto simp: word_le_nat_alt unat_of_nat simp flip: unat_eq_zero)
  moreover have "distinct (map ext_type (fragment_extensions sequence k (length msg)))"
    by (simp add: fragment_extensions_def kExtMessageSeq_def kExtFragmentOffset_def
        kExtMessageTotal_def kExtFamilyId_def)
  ultimately show ?thesis
    by (simp add: clean_frame_def fragment_described_def data_frame_extensions)
      (simp add: data_frame_def)
qed

text \<open>Property C25. What an engine sends passes the inspection of its own stream: the bytes \<open>send\<close>
  emits for a message are reported, under the sender's limits and up to the frame cap, as one
  DATA frame per fragment with nothing else, carrying exactly the message's bytes, and with no
  error.\<close>

theorem sent_stream_inspected:
  assumes "ready_to_send policy s cid slot" "ce_capabilities s = Some caps"
    and "engine_send s cid msg = (s', Inr out)" "length msg < 2 ^ 32"
    and "io_limits options = engine_limits policy" "length out \<le> io_max_frames options"
  shows "let r = inspect_frame_stream (concat out) options
    in inspection_ok r \<and> sr_data_frames r = length out \<and> sr_control_frames r = 0 \<and>
       sr_payload_bytes r = length msg"
proof -
  let ?fs = "data_frames cid (cs_next_send_seq slot) msg (max_fragment caps) (ce_next_frame_seq s) 0"
  have enc: "list_all2 (\<lambda>f bs. encode_frame (io_limits options) f = Inr bs) ?fs out"
    using send_frames[OF assms(1-3)] assms(5) by simp
  have len: "length ?fs = length out" using enc by (rule list_all2_lengthD)
  have sent: "list_all (\<lambda>f. \<exists>q k. f = data_frame cid (cs_next_send_seq slot) msg (max_fragment caps) q k \<and>
      k < length msg) ?fs"
    "sum_list (map (length \<circ> f_payload) ?fs) = length msg"
    using sent_frames[of "max_fragment caps" cid "cs_next_send_seq slot" msg "ce_next_frame_seq s" 0]
    by (simp_all add: max_fragment_def)
  have exts: "list_all (\<lambda>f. list_all extension_ok (f_extensions f)) ?fs"
    using sent(1) by (auto simp: list_all_iff[of _ ?fs] data_frame_extensions_ok)
  have data: "filter (\<lambda>f. f_type f = FT_data) ?fs = ?fs"
    using sent(1) by (auto simp: list_all_iff data_frame_def intro!: filter_True)
  have clean: "list_all (checked_frame options \<circ> normal_frame) ?fs"
    using sent(1) assms(4)
    by (auto simp: list_all_iff checked_frame_def data_frame_normal data_frame_clean)
  have header: "fl_max_header (io_limits options) \<le> 65535" by (simp add: assms(5) engine_limits_def)
  show ?thesis
    using inspected_encoding[OF enc exts header] assms(6) len data clean sent(2) by (simp add: Let_def)
qed

theorem sent_stream_inspected_witness:
  "\<exists>s' out. engine_send open_engine first_channel [65] = (s', Inr out) \<and>
     inspection_ok (inspect_frame_stream (concat out)
       (default_inspection\<lparr>io_limits := engine_limits default_policy\<rparr>))"
proof -
  obtain s' bs where snd: "engine_send open_engine first_channel [65] = (s', Inr [bs])"
    using first_send by blast
  have "ce_capabilities open_engine \<noteq> None" by (simp add: open_engine_def connection_engine_def)
  then obtain caps where caps: "ce_capabilities open_engine = Some caps" by blast
  have "let r = inspect_frame_stream (concat [bs]) (default_inspection\<lparr>io_limits := engine_limits default_policy\<rparr>)
    in inspection_ok r \<and> sr_data_frames r = length [bs] \<and> sr_control_frames r = 0 \<and>
       sr_payload_bytes r = length [65 :: u8]"
    by (rule sent_stream_inspected[OF open_engine_ready(1) caps snd]) (simp_all add: default_inspection_def)
  then show ?thesis using snd unfolding Let_def by blast
qed

end
