(* ===== verification/Health.thy ===== *)
theory Health
  imports Inspection Route_Policy
begin

text \<open>
  Health reports, \<^verbatim>\<open>src/diagnostics/health.cpp\<close> and \<^verbatim>\<open>include/lattice/health.hpp\<close>: signals with a
  level and a weight, the score they are subtracted from, the evaluation of a stream
  inspection, of an event summary and of a route policy, the merging of reports, the filter and
  the buckets of signals, and the report texts. Scores and weights are 32-bit words. The lemmas
  say that a report's level, score and counters always agree with its signals, exactly when
  each evaluation fails, and what the buckets hold.
\<close>

section \<open>Levels and signals\<close>

datatype HealthLevel = HL_healthy | HL_degraded | HL_failed

datatype HealthSignalCode =
    HS_stream_empty | HS_stream_decoder_errors | HS_stream_policy_errors | HS_stream_warnings
  | HS_stream_payload_pressure | HS_stream_eof_missing | HS_stream_control_only
  | HS_connection_not_negotiated | HS_connection_no_delivery | HS_connection_diagnostics
  | HS_connection_resets | HS_connection_closed | HS_connection_timer_pressure
  | HS_route_policy_empty | HS_route_policy_invalid | HS_route_policy_sparse
  | HS_route_policy_loopback | HS_route_policy_duplicate_family | HS_aggregate_failure

text \<open>The enumerators' values, by which \<open>std::map\<close> and the comparator order the codes.\<close>

fun signal_code_value :: "HealthSignalCode \<Rightarrow> nat" where
  "signal_code_value HS_stream_empty = 0"
| "signal_code_value HS_stream_decoder_errors = 1"
| "signal_code_value HS_stream_policy_errors = 2"
| "signal_code_value HS_stream_warnings = 3"
| "signal_code_value HS_stream_payload_pressure = 4"
| "signal_code_value HS_stream_eof_missing = 5"
| "signal_code_value HS_stream_control_only = 6"
| "signal_code_value HS_connection_not_negotiated = 7"
| "signal_code_value HS_connection_no_delivery = 8"
| "signal_code_value HS_connection_diagnostics = 9"
| "signal_code_value HS_connection_resets = 10"
| "signal_code_value HS_connection_closed = 11"
| "signal_code_value HS_connection_timer_pressure = 12"
| "signal_code_value HS_route_policy_empty = 13"
| "signal_code_value HS_route_policy_invalid = 14"
| "signal_code_value HS_route_policy_sparse = 15"
| "signal_code_value HS_route_policy_loopback = 16"
| "signal_code_value HS_route_policy_duplicate_family = 17"
| "signal_code_value HS_aggregate_failure = 18"

definition code_of_value :: "nat \<Rightarrow> HealthSignalCode" where
  "code_of_value n =
     [HS_stream_empty, HS_stream_decoder_errors, HS_stream_policy_errors, HS_stream_warnings,
      HS_stream_payload_pressure, HS_stream_eof_missing, HS_stream_control_only,
      HS_connection_not_negotiated, HS_connection_no_delivery, HS_connection_diagnostics,
      HS_connection_resets, HS_connection_closed, HS_connection_timer_pressure,
      HS_route_policy_empty, HS_route_policy_invalid, HS_route_policy_sparse,
      HS_route_policy_loopback, HS_route_policy_duplicate_family, HS_aggregate_failure] ! n"

lemma code_of_value_inverse: "code_of_value (signal_code_value c) = c"
  by (cases c) (simp_all add: code_of_value_def)

lemma signal_code_value_eq: "signal_code_value a = signal_code_value b \<longleftrightarrow> a = b"
  by (metis code_of_value_inverse)

instantiation HealthSignalCode :: linorder
begin

definition less_eq_HealthSignalCode :: "HealthSignalCode \<Rightarrow> HealthSignalCode \<Rightarrow> bool" where
  "less_eq_HealthSignalCode a b \<longleftrightarrow> signal_code_value a \<le> signal_code_value b"

definition less_HealthSignalCode :: "HealthSignalCode \<Rightarrow> HealthSignalCode \<Rightarrow> bool" where
  "less_HealthSignalCode a b \<longleftrightarrow> signal_code_value a < signal_code_value b"

instance
  by standard (auto simp: less_eq_HealthSignalCode_def less_HealthSignalCode_def
      signal_code_value_eq[symmetric])

end

record HealthSignal =
  hs_code :: HealthSignalCode
  hs_level :: HealthLevel
  hs_weight :: u32
  hs_subject :: string
  hs_detail :: string

record HealthOptions =
  ho_max_stream_warnings :: nat
  ho_max_stream_errors :: nat
  ho_max_payload_pressure_percent :: u32
  ho_min_routes :: nat
  ho_require_stream_eof :: bool
  ho_require_negotiation :: bool
  ho_require_delivery_for_payload :: bool
  ho_require_route_payload :: bool

definition default_health :: HealthOptions where
  "default_health =
     \<lparr>ho_max_stream_warnings = 8, ho_max_stream_errors = 0, ho_max_payload_pressure_percent = 85,
      ho_min_routes = 1, ho_require_stream_eof = True, ho_require_negotiation = True,
      ho_require_delivery_for_payload = True, ho_require_route_payload = True\<rparr>"

record HealthReport =
  hr_level :: HealthLevel
  hr_score :: u32
  hr_healthy_checks :: nat
  hr_degraded_checks :: nat
  hr_failed_checks :: nat
  hr_signals :: "HealthSignal list"

definition new_report :: HealthReport where
  "new_report = \<lparr>hr_level = HL_healthy, hr_score = 100, hr_healthy_checks = 0,
                 hr_degraded_checks = 0, hr_failed_checks = 0, hr_signals = []\<rparr>"

definition report_passes :: "HealthReport \<Rightarrow> bool" where
  "report_passes r \<longleftrightarrow> hr_level r \<noteq> HL_failed"

record HealthSignalBucket =
  hb_code :: HealthSignalCode
  hb_strongest_level :: HealthLevel
  hb_count :: nat
  hb_total_weight :: u32

definition new_bucket :: HealthSignalBucket where
  "new_bucket = \<lparr>hb_code = HS_aggregate_failure, hb_strongest_level = HL_healthy, hb_count = 0,
                 hb_total_weight = 0\<rparr>"

fun level_text :: "HealthLevel \<Rightarrow> string" where
  "level_text HL_healthy = ''healthy''"
| "level_text HL_degraded = ''degraded''"
| "level_text HL_failed = ''failed''"

fun signal_code_text :: "HealthSignalCode \<Rightarrow> string" where
  "signal_code_text HS_stream_empty = ''stream_empty''"
| "signal_code_text HS_stream_decoder_errors = ''stream_decoder_errors''"
| "signal_code_text HS_stream_policy_errors = ''stream_policy_errors''"
| "signal_code_text HS_stream_warnings = ''stream_warnings''"
| "signal_code_text HS_stream_payload_pressure = ''stream_payload_pressure''"
| "signal_code_text HS_stream_eof_missing = ''stream_eof_missing''"
| "signal_code_text HS_stream_control_only = ''stream_control_only''"
| "signal_code_text HS_connection_not_negotiated = ''connection_not_negotiated''"
| "signal_code_text HS_connection_no_delivery = ''connection_no_delivery''"
| "signal_code_text HS_connection_diagnostics = ''connection_diagnostics''"
| "signal_code_text HS_connection_resets = ''connection_resets''"
| "signal_code_text HS_connection_closed = ''connection_closed''"
| "signal_code_text HS_connection_timer_pressure = ''connection_timer_pressure''"
| "signal_code_text HS_route_policy_empty = ''route_policy_empty''"
| "signal_code_text HS_route_policy_invalid = ''route_policy_invalid''"
| "signal_code_text HS_route_policy_sparse = ''route_policy_sparse''"
| "signal_code_text HS_route_policy_loopback = ''route_policy_loopback''"
| "signal_code_text HS_route_policy_duplicate_family = ''route_policy_duplicate_family''"
| "signal_code_text HS_aggregate_failure = ''aggregate_failure''"

definition combine_health_level :: "HealthLevel \<Rightarrow> HealthLevel \<Rightarrow> HealthLevel" where
  "combine_health_level lhs rhs =
     (if lhs = HL_failed \<or> rhs = HL_failed then HL_failed
      else if lhs = HL_degraded \<or> rhs = HL_degraded then HL_degraded
      else HL_healthy)"

fun level_rank :: "HealthLevel \<Rightarrow> u8" where
  "level_rank HL_healthy = 0"
| "level_rank HL_degraded = 1"
| "level_rank HL_failed = 2"

definition health_level_at_least :: "HealthLevel \<Rightarrow> HealthLevel \<Rightarrow> bool" where
  "health_level_at_least actual threshold \<longleftrightarrow> level_rank actual \<ge> level_rank threshold"

section \<open>Scores\<close>

definition bounded_subtract :: "u32 \<Rightarrow> u32 \<Rightarrow> u32" where
  "bounded_subtract v penalty = (if penalty \<ge> v then 0 else v - penalty)"

definition capped_weight :: "nat \<Rightarrow> u32 \<Rightarrow> u32 \<Rightarrow> u32" where
  "capped_weight items per_item cap =
     (let total = (of_nat items :: u64) * ucast per_item
      in if total > ucast cap then cap else ucast total)"

definition record_healthy :: "HealthReport \<Rightarrow> HealthReport" where
  "record_healthy r = r\<lparr>hr_healthy_checks := hr_healthy_checks r + 1\<rparr>"

definition add_signal ::
  "HealthSignalCode \<Rightarrow> HealthLevel \<Rightarrow> u32 \<Rightarrow> string \<Rightarrow> string \<Rightarrow> HealthReport \<Rightarrow> HealthReport" where
  "add_signal code level weight subject detail r =
     (let r = r\<lparr>hr_signals := hr_signals r @
                  [\<lparr>hs_code = code, hs_level = level, hs_weight = weight, hs_subject = subject,
                    hs_detail = detail\<rparr>],
                hr_level := combine_health_level (hr_level r) level\<rparr>
      in case level of
           HL_failed \<Rightarrow>
             r\<lparr>hr_failed_checks := hr_failed_checks r + 1,
               hr_score := bounded_subtract (hr_score r) (if weight = 0 then 25 else weight)\<rparr>
         | HL_degraded \<Rightarrow>
             r\<lparr>hr_degraded_checks := hr_degraded_checks r + 1,
               hr_score := bounded_subtract (hr_score r) (if weight = 0 then 5 else weight)\<rparr>
         | HL_healthy \<Rightarrow> r\<lparr>hr_healthy_checks := hr_healthy_checks r + 1\<rparr>)"

definition finalize_report :: "HealthReport \<Rightarrow> HealthReport" where
  "finalize_report r =
     (if hr_failed_checks r \<noteq> 0
      then r\<lparr>hr_level := HL_failed, hr_score := (if hr_score r > 49 then 49 else hr_score r)\<rparr>
      else if hr_degraded_checks r \<noteq> 0
      then r\<lparr>hr_level := HL_degraded, hr_score := (if hr_score r > 89 then 89 else hr_score r)\<rparr>
      else r\<lparr>hr_level := HL_healthy, hr_score := max (hr_score r) 90\<rparr>)"

definition count_detail :: "string \<Rightarrow> nat \<Rightarrow> string" where
  "count_detail label items = label @ ''='' @ decimal items"

text \<open>\<open>numerator * 100 / denominator\<close> in \<open>size_t\<close>.\<close>

definition percent :: "nat \<Rightarrow> nat \<Rightarrow> nat" where
  "percent numerator denominator = (numerator * 100) mod (SIZE_MAX + 1) div denominator"

definition percent_detail :: "string \<Rightarrow> nat \<Rightarrow> nat \<Rightarrow> string" where
  "percent_detail label numerator denominator =
     label @ ''='' @ (if denominator = 0 then ''n/a'' else decimal (percent numerator denominator) @ ''%'')"

definition route_has_same_endpoint :: "RoutePolicyEntry \<Rightarrow> bool" where
  "route_has_same_endpoint route \<longleftrightarrow> rp_source route = rp_destination route"

definition route_subject :: "RoutePolicyEntry \<Rightarrow> nat \<Rightarrow> string" where
  "route_subject route index =
     (if rp_name route \<noteq> [] then rp_name route else ''route['' @ decimal index @ '']'')"

text \<open>One \<open>if (...) add_signal(...) else record_healthy(...)\<close> of an evaluation.\<close>

definition check ::
  "bool \<Rightarrow> HealthSignalCode \<Rightarrow> HealthLevel \<Rightarrow> u32 \<Rightarrow> string \<Rightarrow> string \<Rightarrow> HealthReport \<Rightarrow> HealthReport" where
  "check bad code level weight subject detail r =
     (if bad then add_signal code level weight subject detail r else record_healthy r)"

section \<open>Evaluations\<close>

definition evaluate_stream_health :: "StreamInspectionReport \<Rightarrow> HealthOptions \<Rightarrow> HealthReport" where
  "evaluate_stream_health inspection options =
     (let errors = error_count inspection;
          warnings = warning_count inspection;
          decoder_failed = list_ex (\<lambda>f. ff_severity f = IS_error \<and> ff_code f = FF_decoder_error)
                             (sr_findings inspection);
          r = check (sr_frames inspection = []) HS_stream_empty HL_failed 35 ''stream''
                ''no complete frames were decoded'' new_report;
          r = check (errors > ho_max_stream_errors options)
                (if decoder_failed then HS_stream_decoder_errors else HS_stream_policy_errors)
                HL_failed (capped_weight errors 18 60) ''stream'' (count_detail ''errors'' errors) r;
          r = check (warnings > ho_max_stream_warnings options) HS_stream_warnings HL_degraded
                (capped_weight (warnings - ho_max_stream_warnings options) 3 18) ''stream''
                (count_detail ''warnings'' warnings) r;
          r = check (ho_require_stream_eof options \<and> \<not> sr_decoder_reached_eof inspection)
                HS_stream_eof_missing HL_degraded 8 ''stream''
                ''decoder was left waiting for more bytes'' r;
          r = check (sr_frames inspection \<noteq> [] \<and> sr_data_frames inspection = 0)
                HS_stream_control_only HL_degraded 5 ''stream''
                ''stream contains control frames but no DATA frames'' r;
          r = check (sr_decoded_bytes inspection \<noteq> 0 \<and>
                     percent (sr_payload_bytes inspection) (sr_decoded_bytes inspection) >
                       unat (ho_max_payload_pressure_percent options))
                HS_stream_payload_pressure HL_degraded 7 ''stream''
                (percent_detail ''payload_pressure'' (sr_payload_bytes inspection)
                   (sr_decoded_bytes inspection)) r
      in finalize_report r)"

definition evaluate_connection_health :: "ConnectionEventSummary \<Rightarrow> HealthOptions \<Rightarrow> HealthReport" where
  "evaluate_connection_health summary options =
     (if es_total summary = 0
      then finalize_report (add_signal HS_connection_not_negotiated HL_failed 40 ''connection''
             ''event log is empty'' new_report)
      else
        let r = check (ho_require_negotiation options \<and> es_negotiated summary = 0)
                  HS_connection_not_negotiated HL_failed 30 ''connection''
                  ''no negotiation event was recorded'' new_report;
            r = check (ho_require_delivery_for_payload options \<and> es_payload_bytes summary \<noteq> 0 \<and>
                       es_delivered summary = 0)
                  HS_connection_no_delivery HL_degraded 12 ''connection''
                  ''payload bytes were observed without a delivered message'' r;
            r = check (es_diagnostics summary \<noteq> 0) HS_connection_diagnostics HL_degraded
                  (capped_weight (es_diagnostics summary) 4 24) ''connection''
                  (count_detail ''diagnostics'' (es_diagnostics summary)) r;
            r = check (es_resets summary \<noteq> 0) HS_connection_resets HL_degraded
                  (capped_weight (es_resets summary) 5 20) ''connection''
                  (count_detail ''resets'' (es_resets summary)) r;
            r = check (es_closed summary \<noteq> 0 \<and> es_delivered summary = 0) HS_connection_closed
                  HL_degraded 8 ''connection'' ''connection closed before delivering any messages'' r;
            r = check (es_timers summary > es_total summary div 2 \<and> es_timers summary > 2)
                  HS_connection_timer_pressure HL_degraded (capped_weight (es_timers summary) 2 18)
                  ''connection'' (count_detail ''timers'' (es_timers summary)) r
        in finalize_report r)"

text \<open>The route loop: family counts, empty payloads, loopbacks and the report.\<close>

fun route_loop ::
  "nat \<Rightarrow> (u32 \<times> nat) list \<Rightarrow> nat \<Rightarrow> nat \<Rightarrow> HealthReport \<Rightarrow> RoutePolicyEntry list \<Rightarrow>
   (u32 \<times> nat) list \<times> nat \<times> nat \<times> HealthReport" where
  "route_loop i fams empty_payloads loopbacks r [] = (fams, empty_payloads, loopbacks, r)"
| "route_loop i fams empty_payloads loopbacks r (route # routes) =
     route_loop (i + 1)
       (om_put (rp_family_id route)
          (case om_get fams (rp_family_id route) of None \<Rightarrow> 1 | Some n \<Rightarrow> n + 1) fams)
       (if rp_payload route = [] then empty_payloads + 1 else empty_payloads)
       (if route_has_same_endpoint route then loopbacks + 1 else loopbacks)
       (if route_has_same_endpoint route
        then add_signal HS_route_policy_loopback HL_failed 20 (route_subject route i)
               ''source and destination are the same channel'' r
        else r)
       routes"

definition evaluate_route_policy_health :: "RoutePolicyDocument \<Rightarrow> HealthOptions \<Rightarrow> HealthReport" where
  "evaluate_route_policy_health document options =
     (let validation = validate_route_policy document
      in if \<not> validation_ok validation
         then finalize_report
                (fold (\<lambda>diagnostic. add_signal HS_route_policy_invalid HL_failed 25 ''policy''
                         (rg_detail diagnostic)) (rv_diagnostics validation) new_report)
         else
           let r = record_healthy new_report
           in if rd_routes document = []
              then finalize_report (add_signal HS_route_policy_empty HL_failed 45 ''policy''
                     ''no routes are configured'' r)
              else
                let r = record_healthy r;
                    r = check (length (rd_routes document) < ho_min_routes options)
                          HS_route_policy_sparse HL_degraded 8 ''policy''
                          (count_detail ''routes'' (length (rd_routes document))) r;
                    (fams, empty_payloads, loopbacks, r) = route_loop 0 [] 0 0 r (rd_routes document);
                    r = (if loopbacks = 0 then record_healthy r else r);
                    r = check (ho_require_route_payload options \<and> empty_payloads \<noteq> 0)
                          HS_route_policy_sparse HL_degraded (capped_weight empty_payloads 3 15)
                          ''policy'' (count_detail ''empty_payloads'' empty_payloads) r;
                    groups = length (filter (\<lambda>item. snd item > 1) fams);
                    r = check (groups \<noteq> 0) HS_route_policy_duplicate_family HL_degraded
                          (capped_weight groups 2 10) ''policy''
                          (count_detail ''shared_families'' groups) r
                in finalize_report r)"

section \<open>Merging, filtering, buckets\<close>

fun merge_loop :: "HealthReport \<Rightarrow> u64 \<Rightarrow> HealthReport list \<Rightarrow> HealthReport \<times> u64" where
  "merge_loop merged score_total [] = (merged, score_total)"
| "merge_loop merged score_total (r # rs) =
     merge_loop
       (merged\<lparr>hr_level := combine_health_level (hr_level merged) (hr_level r),
               hr_healthy_checks := hr_healthy_checks merged + hr_healthy_checks r,
               hr_degraded_checks := hr_degraded_checks merged + hr_degraded_checks r,
               hr_failed_checks := hr_failed_checks merged + hr_failed_checks r,
               hr_signals := hr_signals merged @ hr_signals r\<rparr>)
       (score_total + ucast (hr_score r)) rs"

definition merge_health_reports :: "HealthReport list \<Rightarrow> HealthReport" where
  "merge_health_reports reports =
     (if reports = []
      then finalize_report (add_signal HS_aggregate_failure HL_failed 50 ''aggregate''
             ''no reports were provided'' new_report)
      else
        let (merged, score_total) = merge_loop new_report 0 reports;
            merged = merged\<lparr>hr_score := ucast (score_total div of_nat (length reports))\<rparr>;
            merged =
              (if hr_failed_checks merged \<noteq> 0
               then add_signal HS_aggregate_failure HL_failed 10 ''aggregate''
                      ''one or more component reports failed'' merged
               else if hr_degraded_checks merged \<noteq> 0
               then add_signal HS_aggregate_failure HL_degraded 4 ''aggregate''
                      ''one or more component reports degraded'' merged
               else record_healthy merged)
        in finalize_report merged)"

definition filter_health_signals :: "HealthReport \<Rightarrow> HealthLevel \<Rightarrow> HealthSignal list" where
  "filter_health_signals r minimum_level =
     filter (\<lambda>signal. health_level_at_least (hs_level signal) minimum_level) (hr_signals r)"

definition bucket_add :: "HealthSignal \<Rightarrow> HealthSignalBucket \<Rightarrow> HealthSignalBucket" where
  "bucket_add signal bucket =
     bucket\<lparr>hb_code := hs_code signal,
            hb_strongest_level := combine_health_level (hb_strongest_level bucket) (hs_level signal),
            hb_count := hb_count bucket + 1,
            hb_total_weight := hb_total_weight bucket + hs_weight signal\<rparr>"

fun bucket_loop ::
  "(HealthSignalCode \<times> HealthSignalBucket) list \<Rightarrow> HealthSignal list \<Rightarrow>
   (HealthSignalCode \<times> HealthSignalBucket) list" where
  "bucket_loop by_code [] = by_code"
| "bucket_loop by_code (signal # rest) =
     bucket_loop
       (om_put (hs_code signal)
          (bucket_add signal
             (case om_get by_code (hs_code signal) of None \<Rightarrow> new_bucket | Some bucket \<Rightarrow> bucket))
          by_code)
       rest"

text \<open>The comparator of \<open>std::sort\<close>; it is total on buckets of different codes, so the sorted
  order is unique.\<close>

definition bucket_before :: "HealthSignalBucket \<Rightarrow> HealthSignalBucket \<Rightarrow> bool" where
  "bucket_before lhs rhs \<longleftrightarrow>
     (if hb_strongest_level lhs \<noteq> hb_strongest_level rhs
      then level_rank (hb_strongest_level lhs) > level_rank (hb_strongest_level rhs)
      else if hb_total_weight lhs \<noteq> hb_total_weight rhs
      then hb_total_weight lhs > hb_total_weight rhs
      else signal_code_value (hb_code lhs) < signal_code_value (hb_code rhs))"

fun insert_bucket :: "HealthSignalBucket \<Rightarrow> HealthSignalBucket list \<Rightarrow> HealthSignalBucket list" where
  "insert_bucket b [] = [b]"
| "insert_bucket b (c # cs) = (if bucket_before c b then c # insert_bucket b cs else b # c # cs)"

definition summarize_health_signals :: "HealthReport \<Rightarrow> HealthSignalBucket list" where
  "summarize_health_signals r =
     foldr insert_bucket (map snd (bucket_loop [] (hr_signals r))) []"

section \<open>Report texts\<close>

definition signal_line :: "HealthSignal \<Rightarrow> string" where
  "signal_line signal =
     level_text (hs_level signal) @ '' code='' @ signal_code_text (hs_code signal) @
     '' weight='' @ decimal (unat (hs_weight signal)) @ '' subject='' @ hs_subject signal @
     '' detail='' @ [CHR 0x22] @ hs_detail signal @ [CHR 0x22, CHR 0x0A]"

definition format_health_report :: "HealthReport \<Rightarrow> string" where
  "format_health_report r =
     ''health='' @ level_text (hr_level r) @ '' score='' @ decimal (unat (hr_score r)) @
     '' healthy='' @ decimal (hr_healthy_checks r) @ '' degraded='' @ decimal (hr_degraded_checks r) @
     '' failed='' @ decimal (hr_failed_checks r) @ [CHR 0x0A] @ concat (map signal_line (hr_signals r))"

definition bucket_line :: "HealthSignalBucket \<Rightarrow> string" where
  "bucket_line bucket =
     ''code='' @ signal_code_text (hb_code bucket) @
     '' strongest='' @ level_text (hb_strongest_level bucket) @
     '' count='' @ decimal (hb_count bucket) @
     '' weight='' @ decimal (unat (hb_total_weight bucket)) @ [CHR 0x0A]"

definition format_health_signal_summary :: "HealthSignalBucket list \<Rightarrow> string" where
  "format_health_signal_summary buckets =
     ''signal_buckets='' @ decimal (length buckets) @ [CHR 0x0A] @ concat (map bucket_line buckets)"

section \<open>Level, score and counters agree with the signals\<close>

definition signals_at :: "HealthLevel \<Rightarrow> HealthReport \<Rightarrow> nat" where
  "signals_at l r = length (filter (\<lambda>s. hs_level s = l) (hr_signals r))"

text \<open>Before \<open>finalize_report\<close>: the counters count the signals, the score is a percentage.\<close>

definition counted :: "HealthReport \<Rightarrow> bool" where
  "counted r \<longleftrightarrow> hr_failed_checks r = signals_at HL_failed r \<and>
     hr_degraded_checks r = signals_at HL_degraded r \<and> hr_score r \<le> 100"

text \<open>After it: the level is that of the worst signal, and the score is in the band of the level.\<close>

definition report_sound :: "HealthReport \<Rightarrow> bool" where
  "report_sound r \<longleftrightarrow> counted r \<and>
     (case hr_level r of
        HL_failed \<Rightarrow> hr_failed_checks r \<noteq> 0 \<and> hr_score r \<le> 49
      | HL_degraded \<Rightarrow> hr_failed_checks r = 0 \<and> hr_degraded_checks r \<noteq> 0 \<and> hr_score r \<le> 89
      | HL_healthy \<Rightarrow> hr_failed_checks r = 0 \<and> hr_degraded_checks r = 0 \<and> 90 \<le> hr_score r)"

lemma subtract_le: "bounded_subtract v p \<le> v"
  by (auto simp: bounded_subtract_def not_le intro: word_sub_le less_imp_le)

lemma counted_new [simp]: "counted new_report"
  by (simp add: counted_def signals_at_def new_report_def)

lemma counted_healthy [simp]: "counted (record_healthy r) = counted r"
  by (simp add: counted_def signals_at_def record_healthy_def)

lemma counted_add [simp]: "counted r \<Longrightarrow> counted (add_signal c l w s d r)"
  by (cases l) (auto simp: counted_def signals_at_def add_signal_def Let_def intro: order_trans[OF subtract_le])

lemma counted_check [simp]: "counted r \<Longrightarrow> counted (check bad c l w s d r)"
  by (simp add: check_def)

lemma finalize_sound: "counted r \<Longrightarrow> report_sound (finalize_report r)"
  by (auto simp: report_sound_def counted_def signals_at_def finalize_report_def max_def not_le not_less
      intro: order_trans)

lemma failed_checks [simp]:
  "hr_failed_checks (check bad c l w s d r) = hr_failed_checks r + (if bad \<and> l = HL_failed then 1 else 0)"
  "hr_failed_checks (add_signal c l w s d r) = hr_failed_checks r + (if l = HL_failed then 1 else 0)"
  "hr_failed_checks (record_healthy r) = hr_failed_checks r"
  "hr_failed_checks new_report = 0"
  by (cases l; simp add: check_def add_signal_def record_healthy_def new_report_def Let_def)+

lemma finalize_passes: "report_passes (finalize_report r) \<longleftrightarrow> hr_failed_checks r = 0"
  by (simp add: report_passes_def finalize_report_def)

lemma sound_passes: "report_sound r \<Longrightarrow> report_passes r \<longleftrightarrow> hr_failed_checks r = 0"
  by (auto simp: report_sound_def report_passes_def split: HealthLevel.splits)

lemma stream_sound: "report_sound (evaluate_stream_health inspection options)"
  unfolding evaluate_stream_health_def Let_def by (intro finalize_sound counted_check counted_new)

lemma connection_sound: "report_sound (evaluate_connection_health summary options)"
  by (simp add: evaluate_connection_health_def Let_def finalize_sound)

lemma route_loop_report:
  "counted r \<Longrightarrow> route_loop i fams e l r routes = (fams', e', l', r') \<Longrightarrow>
     counted r' \<and> l' = l + length (filter route_has_same_endpoint routes) \<and>
     hr_failed_checks r' = hr_failed_checks r + length (filter route_has_same_endpoint routes)"
proof (induction routes arbitrary: i fams e l r)
  case (Cons route routes)
  note step = Cons.prems(2)[unfolded route_loop.simps]
  show ?case using Cons.IH[OF _ step] Cons.prems(1)
    by (cases "route_has_same_endpoint route") simp_all
qed simp

lemma counted_fold: "counted r \<Longrightarrow> counted (fold (\<lambda>d. add_signal c l w s (f d)) ds r)"
  by (induction ds arbitrary: r) simp_all

lemma failed_fold: "hr_failed_checks (fold (\<lambda>d. add_signal c HL_failed w s (f d)) ds r) =
    hr_failed_checks r + length ds"
  by (induction ds arbitrary: r) simp_all

lemma policy_sound: "report_sound (evaluate_route_policy_health document options)"
proof -
  obtain fams e l r where loop: "route_loop 0 [] 0 0
      (check (length (rd_routes document) < ho_min_routes options) HS_route_policy_sparse HL_degraded 8
        ''policy'' (count_detail ''routes'' (length (rd_routes document)))
        (record_healthy (record_healthy new_report))) (rd_routes document) = (fams, e, l, r)"
    by (cases rule: prod_cases4)
  have "counted r" using route_loop_report[OF _ loop] by simp
  then show ?thesis
    by (simp add: evaluate_route_policy_health_def Let_def loop finalize_sound counted_fold)
qed

section \<open>What every report is\<close>

text \<open>The specification of a report: from the signals raised, none of them healthy, and the number of
  checks passed. Each signal takes its weight off 100, down to 0 at the least, and the level then
  caps the score; a healthy report keeps its 100.\<close>

definition penalty :: "HealthSignal \<Rightarrow> nat" where
  "penalty s = (if hs_weight s = 0 then (if hs_level s = HL_failed then 25 else 5)
                else unat (hs_weight s))"

definition score_after :: "HealthSignal list \<Rightarrow> nat" where
  "score_after sigs = 100 - sum_list (map penalty sigs)"

definition at_level :: "HealthLevel \<Rightarrow> HealthSignal list \<Rightarrow> nat" where
  "at_level l sigs = length (filter (\<lambda>s. hs_level s = l) sigs)"

definition report_of :: "nat \<Rightarrow> HealthSignal list \<Rightarrow> HealthReport" where
  "report_of passed sigs =
     \<lparr>hr_level = (if at_level HL_failed sigs \<noteq> 0 then HL_failed
                  else if at_level HL_degraded sigs \<noteq> 0 then HL_degraded else HL_healthy),
      hr_score = of_nat (if at_level HL_failed sigs \<noteq> 0 then min 49 (score_after sigs)
                  else if at_level HL_degraded sigs \<noteq> 0 then min 89 (score_after sigs) else 100),
      hr_healthy_checks = passed, hr_degraded_checks = at_level HL_degraded sigs,
      hr_failed_checks = at_level HL_failed sigs, hr_signals = sigs\<rparr>"

text \<open>The report on the way there, before \<open>finalize_report\<close>.\<close>

definition raw_report :: "nat \<Rightarrow> HealthSignal list \<Rightarrow> HealthReport" where
  "raw_report passed sigs =
     \<lparr>hr_level = (if at_level HL_failed sigs \<noteq> 0 then HL_failed
                  else if at_level HL_degraded sigs \<noteq> 0 then HL_degraded else HL_healthy),
      hr_score = of_nat (score_after sigs), hr_healthy_checks = passed,
      hr_degraded_checks = at_level HL_degraded sigs, hr_failed_checks = at_level HL_failed sigs,
      hr_signals = sigs\<rparr>"

abbreviation signal :: "HealthSignalCode \<Rightarrow> HealthLevel \<Rightarrow> nat \<Rightarrow> string \<Rightarrow> string \<Rightarrow> HealthSignal" where
  "signal code level weight subject detail \<equiv>
     \<lparr>hs_code = code, hs_level = level, hs_weight = of_nat weight, hs_subject = subject, hs_detail = detail\<rparr>"

lemma score_le: "score_after sigs \<le> 100"
  by (simp add: score_after_def)

lemma unat_score: "unat (of_nat (score_after sigs) :: u32) = score_after sigs"
  using score_le[of sigs] by (simp add: unat_of_nat)

lemma subtract_penalty:
  assumes "unat p = penalty s"
  shows "bounded_subtract (of_nat (score_after sigs)) p = of_nat (score_after (sigs @ [s]))"
proof -
  have "unat (bounded_subtract (of_nat (score_after sigs)) p) = score_after sigs - unat p"
    by (auto simp: bounded_subtract_def unat_score word_le_nat_alt unat_sub_if_size)
  also have "\<dots> = unat (of_nat (score_after (sigs @ [s])) :: u32)"
    unfolding unat_score using assms by (simp add: score_after_def)
  finally show ?thesis by (simp only: word_unat_eq_iff)
qed

lemma at_level_simps [simp]: "at_level l [] = 0" "at_level l (sigs @ sigs') = at_level l sigs + at_level l sigs'"
  "at_level l (s # sigs) = (if hs_level s = l then 1 else 0) + at_level l sigs"
  by (simp_all add: at_level_def)

lemma raw_new: "new_report = raw_report 0 []"
  by (simp add: new_report_def raw_report_def score_after_def)

lemma raw_healthy: "record_healthy (raw_report passed sigs) = raw_report (passed + 1) sigs"
  by (simp add: record_healthy_def raw_report_def)

lemma raw_add:
  assumes "level \<noteq> HL_healthy"
  shows "add_signal code level weight subject detail (raw_report passed sigs) =
    raw_report passed (sigs @ [\<lparr>hs_code = code, hs_level = level, hs_weight = weight,
      hs_subject = subject, hs_detail = detail\<rparr>])"
proof -
  let ?s = "\<lparr>hs_code = code, hs_level = level, hs_weight = weight, hs_subject = subject, hs_detail = detail\<rparr>"
  have "bounded_subtract (of_nat (score_after sigs)) (if weight = 0 then (if level = HL_failed then 25 else 5) else weight)
      = of_nat (score_after (sigs @ [?s]))"
    by (rule subtract_penalty) (simp add: penalty_def)
  then show ?thesis using assms
    by (cases level) (auto simp: add_signal_def raw_report_def Let_def combine_health_level_def)
qed

lemma raw_check:
  assumes "level \<noteq> HL_healthy"
  shows "check bad code level weight subject detail (raw_report passed sigs) =
    raw_report (passed + (if bad then 0 else 1))
      (sigs @ (if bad then [\<lparr>hs_code = code, hs_level = level, hs_weight = weight, hs_subject = subject, hs_detail = detail\<rparr>] else []))"
  using assms by (simp add: check_def raw_add raw_healthy)

lemma raw_final:
  assumes "list_all (\<lambda>s. hs_level s \<noteq> HL_healthy) sigs"
  shows "finalize_report (raw_report passed sigs) = report_of passed sigs"
proof -
  have none: "sigs = []" if "at_level HL_failed sigs = 0" "at_level HL_degraded sigs = 0"
  proof (cases sigs)
    case (Cons s ss)
    then show ?thesis using that assms by (cases "hs_level s") auto
  qed
  have capped: "(if (of_nat (score_after sigs) :: u32) > of_nat k then of_nat k else of_nat (score_after sigs))
      = (of_nat (min k (score_after sigs)) :: u32)" if "k \<le> 100" for k
    using that score_le[of sigs] by (auto simp: word_less_nat_alt unat_score unat_of_nat min_def take_bit_nat_eq_self)
  show ?thesis using none capped[of 49] capped[of 89]
    by (auto simp: finalize_report_def raw_report_def report_of_def score_after_def)
qed

lemma capped_weight_exact:
  assumes "items < 2 ^ 48" "per_item < 2 ^ 15" "cap < 2 ^ 32"
  shows "capped_weight items (of_nat per_item) (of_nat cap) = of_nat (min (items * per_item) cap)"
proof -
  have "items * per_item < 2 ^ 48 * 2 ^ 15" using assms by (intro mult_strict_mono') simp_all
  then have small: "items * per_item < 2 ^ 63" by simp
  have per: "unat (of_nat per_item :: u32) = per_item" "unat (of_nat cap :: u32) = cap"
    using assms(2,3) by (simp_all add: unat_of_nat take_bit_nat_eq_self)
  have total: "unat ((of_nat items :: u64) * ucast (of_nat per_item :: u32)) = items * per_item"
    using assms small by (simp add: unat_word_ariths unsigned_ucast_eq per unat_of_nat take_bit_nat_eq_self)
  have cap64: "unat (ucast (of_nat cap :: u32) :: u64) = cap"
    using assms(3) by (simp add: unsigned_ucast_eq per take_bit_nat_eq_self)
  have "unat (capped_weight items (of_nat per_item) (of_nat cap)) = min (items * per_item) cap"
    using total cap64 assms(3) per
    by (auto simp: capped_weight_def Let_def word_less_nat_alt unsigned_ucast_eq take_bit_nat_eq_self min_def not_less)
  also have "\<dots> = unat (of_nat (min (items * per_item) cap) :: u32)"
    using assms(3) by (simp add: unat_of_nat min_def)
  finally show ?thesis by (simp only: word_unat_eq_iff)
qed

text \<open>The checks of an evaluation as a table: what raises the signal, and the signal.\<close>

type_synonym HealthCheck = "bool \<times> HealthSignal"

definition raised :: "HealthCheck list \<Rightarrow> HealthSignal list" where
  "raised checks = map snd (filter fst checks)"

definition passed_checks :: "HealthCheck list \<Rightarrow> nat" where
  "passed_checks checks = length (filter (\<lambda>c. \<not> fst c) checks)"

definition stream_checks :: "StreamInspectionReport \<Rightarrow> HealthOptions \<Rightarrow> HealthCheck list" where
  "stream_checks inspection options =
     (let errors = error_count inspection; warnings = warning_count inspection;
          excess = warnings - ho_max_stream_warnings options
      in [(sr_frames inspection = [],
             signal HS_stream_empty HL_failed 35 ''stream'' ''no complete frames were decoded''),
          (errors > ho_max_stream_errors options,
             signal (if \<exists>f \<in> set (sr_findings inspection). ff_severity f = IS_error \<and> ff_code f = FF_decoder_error
                     then HS_stream_decoder_errors else HS_stream_policy_errors)
               HL_failed (min (errors * 18) 60) ''stream'' (''errors='' @ decimal errors)),
          (warnings > ho_max_stream_warnings options,
             signal HS_stream_warnings HL_degraded (min (excess * 3) 18) ''stream''
               (''warnings='' @ decimal warnings)),
          (ho_require_stream_eof options \<and> \<not> sr_decoder_reached_eof inspection,
             signal HS_stream_eof_missing HL_degraded 8 ''stream'' ''decoder was left waiting for more bytes''),
          (sr_frames inspection \<noteq> [] \<and> sr_data_frames inspection = 0,
             signal HS_stream_control_only HL_degraded 5 ''stream''
               ''stream contains control frames but no DATA frames''),
          (sr_decoded_bytes inspection \<noteq> 0 \<and>
             sr_payload_bytes inspection * 100 div sr_decoded_bytes inspection >
               unat (ho_max_payload_pressure_percent options),
             signal HS_stream_payload_pressure HL_degraded 7 ''stream''
               (''payload_pressure='' @
                 decimal (sr_payload_bytes inspection * 100 div sr_decoded_bytes inspection) @ ''%''))])"

definition connection_checks :: "ConnectionEventSummary \<Rightarrow> HealthOptions \<Rightarrow> HealthCheck list" where
  "connection_checks summary options =
     (if es_total summary = 0
      then [(True, signal HS_connection_not_negotiated HL_failed 40 ''connection'' ''event log is empty'')]
      else
        [(ho_require_negotiation options \<and> es_negotiated summary = 0,
            signal HS_connection_not_negotiated HL_failed 30 ''connection''
              ''no negotiation event was recorded''),
         (ho_require_delivery_for_payload options \<and> es_payload_bytes summary \<noteq> 0 \<and> es_delivered summary = 0,
            signal HS_connection_no_delivery HL_degraded 12 ''connection''
              ''payload bytes were observed without a delivered message''),
         (es_diagnostics summary \<noteq> 0,
            signal HS_connection_diagnostics HL_degraded (min (es_diagnostics summary * 4) 24) ''connection''
              (''diagnostics='' @ decimal (es_diagnostics summary))),
         (es_resets summary \<noteq> 0,
            signal HS_connection_resets HL_degraded (min (es_resets summary * 5) 20) ''connection''
              (''resets='' @ decimal (es_resets summary))),
         (es_closed summary \<noteq> 0 \<and> es_delivered summary = 0,
            signal HS_connection_closed HL_degraded 8 ''connection''
              ''connection closed before delivering any messages''),
         (es_timers summary > es_total summary div 2 \<and> es_timers summary > 2,
            signal HS_connection_timer_pressure HL_degraded (min (es_timers summary * 2) 18) ''connection''
              (''timers='' @ decimal (es_timers summary)))])"

definition run_check :: "HealthCheck \<Rightarrow> HealthReport \<Rightarrow> HealthReport" where
  "run_check c =
     check (fst c) (hs_code (snd c)) (hs_level (snd c)) (hs_weight (snd c)) (hs_subject (snd c)) (hs_detail (snd c))"

lemma run_check_raw:
  "hs_level (snd c) \<noteq> HL_healthy \<Longrightarrow> run_check c (raw_report passed sigs) =
     raw_report (passed + (if fst c then 0 else 1)) (sigs @ (if fst c then [snd c] else []))"
  by (cases "snd c") (simp add: run_check_def raw_check)

lemma percent_check:
  "check (0 < d \<and> b) code level weight subject (percent_detail label n d) =
   check (0 < d \<and> b) code level weight subject (label @ ''='' @ decimal (percent n d) @ ''%'')"
  by (cases "d = 0") (simp_all add: check_def percent_detail_def fun_eq_iff)

lemma check_raised: "check True code level weight subject detail r = add_signal code level weight subject detail r"
  by (simp add: check_def)

lemma run_checks:
  "list_all (\<lambda>c. hs_level (snd c) \<noteq> HL_healthy) checks \<Longrightarrow>
   fold run_check checks
     (raw_report passed sigs) = raw_report (passed + passed_checks checks) (sigs @ raised checks)"
  by (induction checks arbitrary: passed sigs)
    (auto simp: run_check_raw raised_def passed_checks_def)

lemma checked_report:
  assumes "list_all (\<lambda>c. hs_level (snd c) \<noteq> HL_healthy) checks"
  shows "finalize_report (fold run_check checks new_report) = report_of (passed_checks checks) (raised checks)"
proof -
  have "list_all (\<lambda>s. hs_level s \<noteq> HL_healthy) (raised checks)"
    using assms by (auto simp: raised_def list_all_iff)
  then show ?thesis using run_checks[OF assms, of 0 "[]"] by (simp add: raw_new raw_final)
qed

lemma percent_exact: "numerator < 2 ^ 48 \<Longrightarrow> percent numerator denominator = numerator * 100 div denominator"
  by (simp add: percent_def SIZE_MAX_def)

lemmas capped_weights =
  capped_weight_exact[of _ 18 60, simplified] capped_weight_exact[of _ 3 18, simplified]
  capped_weight_exact[of _ 4 24, simplified] capped_weight_exact[of _ 5 20, simplified]
  capped_weight_exact[of _ 2 18, simplified] capped_weight_exact[of _ 3 15, simplified]
  capped_weight_exact[of _ 2 10, simplified]

lemma stream_report:
  assumes "error_count inspection < 2 ^ 48" "warning_count inspection < 2 ^ 48" "sr_payload_bytes inspection < 2 ^ 48"
  shows "evaluate_stream_health inspection options =
    report_of (passed_checks (stream_checks inspection options)) (raised (stream_checks inspection options))"
proof -
  have "warning_count inspection - ho_max_stream_warnings options < 2 ^ 48" using assms(2) by simp
  then have "evaluate_stream_health inspection options = finalize_report
      (fold run_check
        (stream_checks inspection options) new_report)"
    using assms
    by (simp add: evaluate_stream_health_def stream_checks_def Let_def capped_weights percent_exact
        list_ex_iff count_detail_def percent_check run_check_def)
  also have "\<dots> = report_of (passed_checks (stream_checks inspection options)) (raised (stream_checks inspection options))"
    by (rule checked_report) (simp add: stream_checks_def Let_def)
  finally show ?thesis .
qed

lemma connection_report:
  assumes "es_diagnostics summary < 2 ^ 48" "es_resets summary < 2 ^ 48" "es_timers summary < 2 ^ 48"
  shows "evaluate_connection_health summary options =
    report_of (passed_checks (connection_checks summary options)) (raised (connection_checks summary options))"
proof -
  have "evaluate_connection_health summary options = finalize_report
      (fold run_check
        (connection_checks summary options) new_report)"
    using assms
    by (simp add: evaluate_connection_health_def connection_checks_def Let_def capped_weights
        count_detail_def run_check_def check_raised)
  also have "\<dots> = report_of (passed_checks (connection_checks summary options)) (raised (connection_checks summary options))"
    by (rule checked_report) (simp add: connection_checks_def)
  finally show ?thesis .
qed

text \<open>A policy: what the validator says if it refuses the document; otherwise the checks in order,
  with a signal of its own for each route that leads back to its source.\<close>

definition sparse_check :: "RoutePolicyDocument \<Rightarrow> HealthOptions \<Rightarrow> HealthCheck" where
  "sparse_check document options =
     (length (rd_routes document) < ho_min_routes options,
      signal HS_route_policy_sparse HL_degraded 8 ''policy'' (''routes='' @ decimal (length (rd_routes document))))"

definition loopback_signals :: "RoutePolicyDocument \<Rightarrow> HealthSignal list" where
  "loopback_signals document =
     map (\<lambda>(i, route). signal HS_route_policy_loopback HL_failed 20 (route_subject route i)
            ''source and destination are the same channel'')
       (filter (\<lambda>(i, route). rp_source route = rp_destination route) (enumerate 0 (rd_routes document)))"

definition shared_families :: "RoutePolicyDocument \<Rightarrow> nat" where
  "shared_families document =
     card {family. 1 < length (filter (\<lambda>route. rp_family_id route = family) (rd_routes document))}"

definition route_checks :: "RoutePolicyDocument \<Rightarrow> HealthOptions \<Rightarrow> HealthCheck list" where
  "route_checks document options =
     (let empty_payloads = length (filter (\<lambda>route. rp_payload route = []) (rd_routes document));
          groups = shared_families document
      in [(ho_require_route_payload options \<and> empty_payloads \<noteq> 0,
             signal HS_route_policy_sparse HL_degraded (min (empty_payloads * 3) 15) ''policy''
               (''empty_payloads='' @ decimal empty_payloads)),
          (groups \<noteq> 0,
             signal HS_route_policy_duplicate_family HL_degraded (min (groups * 2) 10) ''policy''
               (''shared_families='' @ decimal groups))])"

definition policy_report :: "RoutePolicyDocument \<Rightarrow> HealthOptions \<Rightarrow> HealthReport" where
  "policy_report document options =
     (if \<not> validation_ok (validate_route_policy document)
      then report_of 0 (map (\<lambda>d. signal HS_route_policy_invalid HL_failed 25 ''policy'' (rg_detail d))
             (rv_diagnostics (validate_route_policy document)))
      else
        report_of
          (2 + passed_checks [sparse_check document options] +
             (if loopback_signals document = [] then 1 else 0) + passed_checks (route_checks document options))
          (raised [sparse_check document options] @ loopback_signals document @
             raised (route_checks document options)))"

lemma invalid_fold:
  "fold (\<lambda>d. add_signal HS_route_policy_invalid HL_failed 25 ''policy'' (rg_detail d)) ds (raw_report passed sigs) =
     raw_report passed (sigs @ map (\<lambda>d. signal HS_route_policy_invalid HL_failed 25 ''policy'' (rg_detail d)) ds)"
  by (induction ds arbitrary: sigs) (simp_all add: raw_add)

lemma route_loop_raw:
  "om_ok fams \<Longrightarrow> route_loop i fams e l (raw_report passed sigs) routes = (fams', e', l', r') \<Longrightarrow>
    om_ok fams' \<and>
    (\<forall>f. om_get fams' f = (let n = length (filter (\<lambda>route. rp_family_id route = f) routes)
       in case om_get fams f of None \<Rightarrow> if n = 0 then None else Some n | Some m \<Rightarrow> Some (m + n))) \<and>
    e' = e + length (filter (\<lambda>route. rp_payload route = []) routes) \<and>
    l' = l + length (filter (\<lambda>route. rp_source route = rp_destination route) routes) \<and>
    r' = raw_report passed (sigs @
      map (\<lambda>(i, route). signal HS_route_policy_loopback HL_failed 20 (route_subject route i)
             ''source and destination are the same channel'')
        (filter (\<lambda>(i, route). rp_source route = rp_destination route) (enumerate i routes)))"
proof (induction routes arbitrary: i fams e l sigs)
  case (Cons route routes)
  let ?fams = "om_put (rp_family_id route)
      (case om_get fams (rp_family_id route) of None \<Rightarrow> 1 | Some n \<Rightarrow> n + 1) fams"
  have ok: "om_ok ?fams" using Cons.prems(1) by simp
  note step = Cons.prems(2)[unfolded route_loop.simps route_has_same_endpoint_def]
  have loop: "route_loop (i + 1) ?fams
      (if rp_payload route = [] then e + 1 else e) (if rp_source route = rp_destination route then l + 1 else l)
      (raw_report passed (sigs @ (if rp_source route = rp_destination route
         then [signal HS_route_policy_loopback HL_failed 20 (route_subject route i)
                 ''source and destination are the same channel''] else []))) routes = (fams', e', l', r')"
    using step by (simp add: raw_add split: if_splits)
  note ih = Cons.IH[OF ok loop]
  have "om_get fams' f = (let n = length (filter (\<lambda>route. rp_family_id route = f) (route # routes))
       in case om_get fams f of None \<Rightarrow> if n = 0 then None else Some n | Some m \<Rightarrow> Some (m + n))" for f
    using ih Cons.prems(1) by (auto simp: om_get_put_map Let_def split: option.splits)
  then show ?case using ih by simp
qed (auto simp: Let_def split: option.splits)

lemma filter_entries_card:
  assumes "om_ok m"
  shows "length (filter (\<lambda>item. P (snd item)) m) = card {k. \<exists>v. om_get m k = Some v \<and> P v}"
proof -
  have "distinct (map fst (filter (\<lambda>item. P (snd item)) m))"
    using om_ok_distinct[OF assms] by (simp add: distinct_map_filter)
  moreover have "set (map fst (filter (\<lambda>item. P (snd item)) m)) = {k. \<exists>v. om_get m k = Some v \<and> P v}"
    using om_get_iff[OF assms] by force
  ultimately show ?thesis using distinct_card by (metis length_map)
qed

lemma filter_enumerate_none: "filter (\<lambda>(i, x). P x) (enumerate n xs) = [] \<longleftrightarrow> filter P xs = []"
  by (induction xs arbitrary: n) auto

lemma loopbacks_none: "loopback_signals document = [] \<longleftrightarrow>
    length (filter (\<lambda>route. rp_source route = rp_destination route) (rd_routes document)) = 0"
  by (simp add: loopback_signals_def filter_enumerate_none)

lemma policy_exact:
  assumes "length (rd_routes document) < 2 ^ 48"
  shows "evaluate_route_policy_health document options = policy_report document options"
proof (cases "validation_ok (validate_route_policy document)")
  case False
  then show ?thesis
    by (simp add: evaluate_route_policy_health_def policy_report_def Let_def raw_new invalid_fold)
      (rule raw_final, simp add: list_all_iff)
next
  case True
  have nonempty: "rd_routes document \<noteq> []" using True by (rule validation_nonempty)
  let ?s = "sparse_check document options"
  have r: "check (length (rd_routes document) < ho_min_routes options) HS_route_policy_sparse HL_degraded 8
      ''policy'' (count_detail ''routes'' (length (rd_routes document)))
      (record_healthy (record_healthy new_report)) = raw_report (2 + passed_checks [?s]) (raised [?s])"
    by (simp add: raw_new raw_healthy raw_check sparse_check_def raised_def passed_checks_def count_detail_def)
  obtain fams e l r where loop: "route_loop 0 [] 0 0 (raw_report (2 + passed_checks [?s]) (raised [?s]))
      (rd_routes document) = (fams, e, l, r)" by (cases rule: prod_cases4)
  have facts: "om_ok fams"
    "\<forall>f. om_get fams f = (let n = length (filter (\<lambda>route. rp_family_id route = f) (rd_routes document))
       in if n = 0 then None else Some n)"
    "e = length (filter (\<lambda>route. rp_payload route = []) (rd_routes document))"
    "l = length (filter (\<lambda>route. rp_source route = rp_destination route) (rd_routes document))"
    "r = raw_report (2 + passed_checks [?s]) (raised [?s] @ loopback_signals document)"
    using route_loop_raw[OF om_ok_Nil loop] by (simp_all add: Let_def loopback_signals_def)
  have groups: "length (filter (\<lambda>item. snd item > 1) fams) = shared_families document"
    unfolding filter_entries_card[OF facts(1), of "\<lambda>n. n > 1"] shared_families_def
    using facts(2) by (simp add: Let_def) (rule arg_cong[where f = card], auto)
  have small: "shared_families document < 2 ^ 48" "e < 2 ^ 48"
  proof -
    have "{family. 1 < length (filter (\<lambda>route. rp_family_id route = family) (rd_routes document))}
        \<subseteq> rp_family_id ` set (rd_routes document)"
      by (auto simp: image_iff) (metis (mono_tags, lifting) filter_False length_0_conv less_nat_zero_code)
    then have "shared_families document \<le> length (rd_routes document)"
      unfolding shared_families_def
      by (metis (no_types, lifting) card_length card_mono finite_imageI finite_set length_map list.set_map order_trans)
    then show "shared_families document < 2 ^ 48" using assms by simp
    show "e < 2 ^ 48" unfolding facts(3) using assms by (rule le_less_trans[OF length_filter_le])
  qed
  have "finalize_report (fold run_check (route_checks document options)
      (raw_report (2 + passed_checks [?s] + (if loopback_signals document = [] then 1 else 0))
        (raised [?s] @ loopback_signals document))) = policy_report document options"
  proof -
    have "list_all (\<lambda>c. hs_level (snd c) \<noteq> HL_healthy) (route_checks document options)"
      by (simp add: route_checks_def Let_def)
    note run = run_checks[OF this]
    have "list_all (\<lambda>s. hs_level s \<noteq> HL_healthy) (raised [?s] @ loopback_signals document @ raised (route_checks document options))"
      by (auto simp: list_all_iff raised_def sparse_check_def loopback_signals_def route_checks_def Let_def)
    from raw_final[OF this] show ?thesis unfolding run policy_report_def using True by simp
  qed
  moreover have "evaluate_route_policy_health document options =
      finalize_report (fold run_check (route_checks document options)
      (raw_report (2 + passed_checks [?s] + (if loopback_signals document = [] then 1 else 0))
        (raised [?s] @ loopback_signals document)))"
  proof -
    have loops: "(l = 0) = (loopback_signals document = [])" using loopbacks_none[of document] facts(4) by simp
    have "evaluate_route_policy_health document options = finalize_report
        (check (shared_families document \<noteq> 0) HS_route_policy_duplicate_family HL_degraded
           (capped_weight (shared_families document) 2 10) ''policy'' (count_detail ''shared_families'' (shared_families document))
        (check (ho_require_route_payload options \<and> e \<noteq> 0) HS_route_policy_sparse HL_degraded
           (capped_weight e 3 15) ''policy'' (count_detail ''empty_payloads'' e)
        (if loopback_signals document = [] then record_healthy r else r)))"
      using True nonempty groups loops unfolding evaluate_route_policy_health_def Let_def r loop
      by (simp del: length_0_conv length_greater_0_conv)
    then show ?thesis using small
      by (simp add: route_checks_def Let_def run_check_def facts(3)[symmetric] facts(5) raw_healthy
          capped_weights count_detail_def)
  qed
  ultimately show ?thesis by simp
qed
section \<open>Verdicts\<close>

text \<open>Remark. When an evaluation fails. A stream fails exactly when no frame was decoded or it
  has more errors than allowed; an event summary exactly when it is empty or a required
  negotiation is missing; a route policy exactly when the validator rejects it or a route leads
  back to its own source. Warnings, resets, timers and the like only degrade.\<close>

theorem health_verdicts:
  "(report_passes (evaluate_stream_health inspection options) \<longleftrightarrow>
      sr_frames inspection \<noteq> [] \<and> error_count inspection \<le> ho_max_stream_errors options) \<and>
   (report_passes (evaluate_connection_health summary options) \<longleftrightarrow>
      es_total summary \<noteq> 0 \<and> \<not> (ho_require_negotiation options \<and> es_negotiated summary = 0)) \<and>
   (report_passes (evaluate_route_policy_health document options) \<longleftrightarrow>
      validation_ok (validate_route_policy document) \<and>
      \<not> list_ex (\<lambda>route. rp_source route = rp_destination route) (rd_routes document))"
proof (intro conjI)
  show "report_passes (evaluate_stream_health inspection options) \<longleftrightarrow>
      sr_frames inspection \<noteq> [] \<and> error_count inspection \<le> ho_max_stream_errors options"
    by (auto simp: evaluate_stream_health_def Let_def finalize_passes)
  show "report_passes (evaluate_connection_health summary options) \<longleftrightarrow>
      es_total summary \<noteq> 0 \<and> \<not> (ho_require_negotiation options \<and> es_negotiated summary = 0)"
    by (simp add: evaluate_connection_health_def Let_def finalize_passes)
  obtain fams e l r where loop: "route_loop 0 [] 0 0
      (check (length (rd_routes document) < ho_min_routes options) HS_route_policy_sparse HL_degraded 8
        ''policy'' (count_detail ''routes'' (length (rd_routes document)))
        (record_healthy (record_healthy new_report))) (rd_routes document) = (fams, e, l, r)"
    by (cases rule: prod_cases4)
  have loops: "hr_failed_checks r = length (filter route_has_same_endpoint (rd_routes document))"
    using route_loop_report[OF _ loop] by simp
  have "validation_ok (validate_route_policy document) \<Longrightarrow> rd_routes document \<noteq> []"
    by (rule validation_nonempty)
  then show "report_passes (evaluate_route_policy_health document options) \<longleftrightarrow>
      validation_ok (validate_route_policy document) \<and>
      \<not> list_ex (\<lambda>route. rp_source route = rp_destination route) (rd_routes document)"
    using loops
    by (auto simp: evaluate_route_policy_health_def Let_def loop finalize_passes failed_fold
        validation_ok_def list_ex_iff filter_empty_conv route_has_same_endpoint_def)
qed

section \<open>Merged reports\<close>

definition worst_level :: "HealthLevel list \<Rightarrow> HealthLevel" where
  "worst_level ls = foldr combine_health_level ls HL_healthy"

lemma worst_level_exact:
  "worst_level ls = (if HL_failed \<in> set ls then HL_failed
     else if HL_degraded \<in> set ls then HL_degraded else HL_healthy)"
  by (induction ls) (auto simp: worst_level_def combine_health_level_def)

fun score_sum_of :: "HealthReport list \<Rightarrow> u64" where
  "score_sum_of [] = 0"
| "score_sum_of (r # rs) = ucast (hr_score r) + score_sum_of rs"

lemma merge_loop_exact:
  "merge_loop m t rs = (m', t') \<Longrightarrow>
     hr_failed_checks m' = hr_failed_checks m + sum_list (map hr_failed_checks rs) \<and>
     hr_degraded_checks m' = hr_degraded_checks m + sum_list (map hr_degraded_checks rs) \<and>
     hr_signals m' = hr_signals m @ concat (map hr_signals rs) \<and>
     t' = t + score_sum_of rs"
proof (induction rs arbitrary: m t)
  case (Cons r rs)
  note step = Cons.prems[unfolded merge_loop.simps]
  show ?case using Cons.IH[OF step] by (simp add: add.assoc)
qed simp

lemma signals_at_concat:
  "length (filter (\<lambda>s. hs_level s = l) (concat (map hr_signals rs))) = sum_list (map (signals_at l) rs)"
  by (induction rs) (simp_all add: signals_at_def)

lemma score_sum:
  "list_all (\<lambda>r. hr_score r \<le> 100) rs \<Longrightarrow> length rs * 100 < 2 ^ 64 \<Longrightarrow>
     unat (score_sum_of rs) \<le> length rs * 100"
proof (induction rs)
  case (Cons r rs)
  let ?t = "score_sum_of rs"
  have t: "unat ?t \<le> length rs * 100" using Cons by simp
  have "unat (ucast (hr_score r) :: u64) \<le> 100"
    using Cons.prems(1) by (simp add: word_le_nat_alt unsigned_ucast_eq take_bit_nat_eq_self)
  then have "unat ((ucast (hr_score r) :: u64) + ?t) \<le> 100 + length rs * 100"
    using t Cons.prems(2) by (simp add: unat_word_ariths)
  then show ?case by simp
qed simp

lemma mean_score:
  assumes "list_all (\<lambda>r. hr_score r \<le> 100) rs" "length rs * 100 < 2 ^ 64" "rs \<noteq> []"
  shows "(ucast (score_sum_of rs div of_nat (length rs)) :: u32) \<le> 100"
proof -
  let ?t = "score_sum_of rs"
  have len: "unat (of_nat (length rs) :: u64) = length rs"
    using assms(2) by (simp add: unat_of_nat)
  have "unat ?t div length rs \<le> 100"
    using score_sum[OF assms(1,2)] assms(3) by (metis div_le_mono length_greater_0_conv nonzero_mult_div_cancel_left less_numeral_extra(3))
  then have "unat (?t div of_nat (length rs)) \<le> 100" by (simp add: unat_div len)
  then show ?thesis by (simp add: word_le_nat_alt unsigned_ucast_eq take_bit_nat_eq_self)
qed

lemma sound_level:
  "report_sound r \<Longrightarrow> hr_level r = HL_failed \<longleftrightarrow> hr_failed_checks r \<noteq> 0"
  "report_sound r \<Longrightarrow> hr_level r = HL_degraded \<longleftrightarrow> hr_failed_checks r = 0 \<and> hr_degraded_checks r \<noteq> 0"
  by (auto simp: report_sound_def split: HealthLevel.splits)

lemma merge_exact:
  assumes "rs \<noteq> []" "length rs * 100 < 2 ^ 64" "list_all report_sound rs"
  shows "report_sound (merge_health_reports rs) \<and>
    hr_level (merge_health_reports rs) = worst_level (map hr_level rs)"
proof -
  obtain m t where loop: "merge_loop new_report 0 rs = (m, t)" by fastforce
  have m: "hr_failed_checks m = sum_list (map hr_failed_checks rs)"
    "hr_degraded_checks m = sum_list (map hr_degraded_checks rs)"
    "hr_signals m = concat (map hr_signals rs)" "t = score_sum_of rs"
    using merge_loop_exact[OF loop] by (simp_all add: new_report_def)
  let ?m = "m\<lparr>hr_score := ucast (t div of_nat (length rs))\<rparr>"
  have parts: "list_all counted rs" "list_all (\<lambda>r. hr_score r \<le> 100) rs"
    using assms(3) by (auto simp: list_all_iff report_sound_def counted_def)
  have "signals_at HL_failed m = sum_list (map (signals_at HL_failed) rs)"
    "signals_at HL_degraded m = sum_list (map (signals_at HL_degraded) rs)"
    by (simp_all add: signals_at_def[of _ m] m(3) signals_at_concat)
  moreover have "sum_list (map (signals_at HL_failed) rs) = sum_list (map hr_failed_checks rs)"
    "sum_list (map (signals_at HL_degraded) rs) = sum_list (map hr_degraded_checks rs)"
    using parts(1) by (induction rs) (simp_all add: counted_def)
  ultimately have counted: "counted ?m"
    using mean_score[OF parts(2) assms(2,1)] m by (simp add: counted_def signals_at_def)
  have failed: "hr_failed_checks m \<noteq> 0 \<longleftrightarrow> (\<exists>r \<in> set rs. hr_level r = HL_failed)"
    using assms(3) sound_level(1) by (auto simp: m(1) list_all_iff)
  have degraded: "hr_degraded_checks m \<noteq> 0 \<longleftrightarrow> (\<exists>r \<in> set rs. hr_level r = HL_degraded)"
    if "hr_failed_checks m = 0"
    using assms(3) that sound_level(2) by (auto simp: m(1,2) list_all_iff)
  have merged: "merge_health_reports rs = finalize_report
      (if hr_failed_checks m \<noteq> 0
       then add_signal HS_aggregate_failure HL_failed 10 ''aggregate'' ''one or more component reports failed'' ?m
       else if hr_degraded_checks m \<noteq> 0
       then add_signal HS_aggregate_failure HL_degraded 4 ''aggregate'' ''one or more component reports degraded'' ?m
       else record_healthy ?m)"
    using assms(1) by (simp add: merge_health_reports_def loop)
  have sound: "report_sound (merge_health_reports rs)"
    unfolding merged using counted by (intro finalize_sound) simp
  have "hr_level (merge_health_reports rs) =
      (if hr_failed_checks m \<noteq> 0 then HL_failed else if hr_degraded_checks m \<noteq> 0 then HL_degraded else HL_healthy)"
    unfolding merged by (simp add: finalize_report_def add_signal_def record_healthy_def Let_def)
  moreover have member: "l \<in> set (map hr_level rs) \<longleftrightarrow> (\<exists>r \<in> set rs. hr_level r = l)" for l
    by auto
  ultimately show ?thesis using sound failed degraded unfolding worst_level_exact member by auto
qed

text \<open>Property C28. Every report is the one its specification gives for the signals raised: the
  checks of a stream, of an event summary and of a route policy raise exactly the signals of
  their tables, with the conditions, weights and caps given there (a refused policy raises one
  signal per diagnostic; an accepted one also a signal per route that leads back to its source,
  one for the routes without a payload, and one for the families several routes share); the score
  is 100 less the weights of the signals, 0 if they exceed it, and at most 49 if a signal is a
  failure, at most 89 if one is a degradation; level and counters are those of the signals. Counts
  are below \<open>2 ^ 48\<close>, so that no product of the weighting wraps.\<close>

theorem health_reports_exact:
  assumes "error_count inspection < 2 ^ 48" "warning_count inspection < 2 ^ 48"
    "sr_payload_bytes inspection < 2 ^ 48"
    and "es_diagnostics summary < 2 ^ 48" "es_resets summary < 2 ^ 48" "es_timers summary < 2 ^ 48"
    and "length (rd_routes document) < 2 ^ 48"
  shows "evaluate_stream_health inspection options =
      report_of (passed_checks (stream_checks inspection options)) (raised (stream_checks inspection options)) \<and>
    evaluate_connection_health summary options =
      report_of (passed_checks (connection_checks summary options)) (raised (connection_checks summary options)) \<and>
    evaluate_route_policy_health document options = policy_report document options"
  using assms by (simp only: stream_report connection_report policy_exact simp_thms)

definition sick_inspection :: StreamInspectionReport where
  "sick_inspection =
     \<lparr>sr_frames = [], sr_findings = replicate 6 \<lparr>ff_severity = IS_error, ff_code = FF_decoder_error,
        ff_frame_index = 0, ff_frame_seq = 0, ff_channel = control_channel, ff_detail = []\<rparr>,
      sr_decoded_bytes = 0, sr_payload_bytes = 0, sr_data_frames = 0, sr_control_frames = 0,
      sr_decoder_reached_eof = False\<rparr>"

theorem health_reports_exact_witness:
  "hr_score (evaluate_stream_health sick_inspection default_health) = 0 \<and>
   hr_score (evaluate_connection_health (new_summary 0) default_health) = 49 \<and>
   map hs_code (hr_signals (evaluate_route_policy_health \<lparr>rd_routes = [default_entry]\<rparr> default_health)) =
     [HS_route_policy_sparse]"
proof -
  let ?document = "\<lparr>rd_routes = [default_entry]\<rparr>"
  have counts: "error_count sick_inspection = 6" "warning_count sick_inspection = 0"
    by (simp_all add: sick_inspection_def error_count_def warning_count_def)
  have valid: "validation_ok (validate_route_policy ?document)"
    by (simp add: validate_route_policy_def validation_ok_def default_entry_def is_control_def
        route_diagnostics_def Let_def)
  have families: "shared_families ?document = 0"
    by (simp add: shared_families_def)
  have reports: "evaluate_stream_health sick_inspection default_health =
      report_of (passed_checks (stream_checks sick_inspection default_health)) (raised (stream_checks sick_inspection default_health))"
    "evaluate_connection_health (new_summary 0) default_health =
      report_of (passed_checks (connection_checks (new_summary 0) default_health)) (raised (connection_checks (new_summary 0) default_health))"
    "evaluate_route_policy_health ?document default_health = policy_report ?document default_health"
    using health_reports_exact[of sick_inspection "new_summary 0" ?document default_health] counts
    by (simp_all add: sick_inspection_def new_summary_def)
  have fields: "sr_frames sick_inspection = []" "sr_decoded_bytes sick_inspection = 0"
    "\<not> sr_decoder_reached_eof sick_inspection"
    "\<exists>f \<in> set (sr_findings sick_inspection). ff_severity f = IS_error \<and> ff_code f = FF_decoder_error"
    by (simp_all add: sick_inspection_def)
  have stream: "raised (stream_checks sick_inspection default_health) =
      [signal HS_stream_empty HL_failed 35 ''stream'' ''no complete frames were decoded'',
       signal HS_stream_decoder_errors HL_failed 60 ''stream'' (''errors='' @ decimal 6),
       signal HS_stream_eof_missing HL_degraded 8 ''stream'' ''decoder was left waiting for more bytes'']"
    unfolding stream_checks_def Let_def counts using fields by (simp add: raised_def default_health_def)
  have connection: "raised (connection_checks (new_summary 0) default_health) =
      [signal HS_connection_not_negotiated HL_failed 40 ''connection'' ''event log is empty'']"
    by (simp add: connection_checks_def new_summary_def raised_def)
  have policy: "hr_signals (policy_report ?document default_health) =
      raised [sparse_check ?document default_health] @ loopback_signals ?document @
      raised (route_checks ?document default_health)"
    using valid by (simp add: policy_report_def report_of_def)
  show ?thesis unfolding reports policy stream connection
    by (simp add: report_of_def score_after_def penalty_def families[unfolded default_entry_def] raised_def Let_def
        sparse_check_def loopback_signals_def route_checks_def default_entry_def default_health_def)
qed

text \<open>Remark. Merging reports keeps them consistent and takes the worst level: the merged report
  of a non-empty list of consistent reports is consistent, and its level is the worst of
  theirs.\<close>

theorem merged_level_worst:
  assumes "rs \<noteq> []" "length rs * 100 < 2 ^ 64" "list_all report_sound rs"
  shows "report_sound (merge_health_reports rs) \<and>
    hr_level (merge_health_reports rs) =
      (if HL_failed \<in> set (map hr_level rs) then HL_failed
       else if HL_degraded \<in> set (map hr_level rs) then HL_degraded else HL_healthy)"
  using merge_exact[OF assms] unfolding worst_level_exact .

theorem merged_level_worst_witness:
  "hr_level (merge_health_reports
     [evaluate_connection_health (summarize_connection_events []) default_health, finalize_report new_report]) = HL_failed"
proof -
  let ?r = "evaluate_connection_health (summarize_connection_events []) default_health"
  have "report_sound ?r" "report_sound (finalize_report new_report)"
    using connection_sound finalize_sound by simp_all
  moreover have "\<not> report_passes ?r"
    by (simp add: evaluate_connection_health_def summarize_connection_events_def new_summary_def
        finalize_passes)
  ultimately show ?thesis
    using merged_level_worst[of "[?r, finalize_report new_report]"] by (simp add: report_passes_def)
qed

section \<open>Signal buckets\<close>

lemma combine_worst:
  "combine_health_level a HL_healthy = a" "combine_health_level HL_healthy a = a"
  "combine_health_level (combine_health_level a b) c = combine_health_level a (combine_health_level b c)"
  by (cases a; simp add: combine_health_level_def)+

definition bucket_of :: "HealthSignalCode \<Rightarrow> HealthSignal list \<Rightarrow> HealthSignalBucket" where
  "bucket_of c sigs =
     (let mine = filter (\<lambda>s. hs_code s = c) sigs
      in \<lparr>hb_code = c, hb_strongest_level = worst_level (map hs_level mine), hb_count = length mine,
          hb_total_weight = sum_list (map hs_weight mine)\<rparr>)"

lemma fold_bucket_add:
  "\<forall>s \<in> set sigs. hs_code s = c \<Longrightarrow> sigs \<noteq> [] \<Longrightarrow> fold bucket_add sigs b =
     \<lparr>hb_code = c,
      hb_strongest_level = combine_health_level (hb_strongest_level b) (worst_level (map hs_level sigs)),
      hb_count = hb_count b + length sigs,
      hb_total_weight = hb_total_weight b + sum_list (map hs_weight sigs)\<rparr>"
proof (induction sigs arbitrary: b)
  case (Cons s sigs)
  then show ?case
    by (cases "sigs = []") (simp_all add: bucket_add_def worst_level_def combine_worst add.assoc)
qed simp

lemma bucket_loop_ok: "om_ok m \<Longrightarrow> om_ok (bucket_loop m sigs)"
  by (induction sigs arbitrary: m) simp_all

lemma bucket_loop_get:
  "om_ok m \<Longrightarrow> om_get (bucket_loop m sigs) c =
     (let mine = filter (\<lambda>s. hs_code s = c) sigs
      in if mine = [] then om_get m c
         else Some (fold bucket_add mine (case om_get m c of None \<Rightarrow> new_bucket | Some b \<Rightarrow> b)))"
  by (induction sigs arbitrary: m) (auto simp: om_get_put_map Let_def split: option.splits)

lemma bucket_loop_buckets:
  "(c, b) \<in> set (bucket_loop [] sigs) \<longleftrightarrow> c \<in> hs_code ` set sigs \<and> b = bucket_of c sigs"
proof -
  let ?mine = "filter (\<lambda>s. hs_code s = c) sigs"
  have "(c, b) \<in> set (bucket_loop [] sigs) \<longleftrightarrow> ?mine \<noteq> [] \<and> b = fold bucket_add ?mine new_bucket"
    unfolding om_get_iff[OF bucket_loop_ok[OF om_ok_Nil], symmetric] bucket_loop_get[OF om_ok_Nil]
    by (auto simp: Let_def)
  moreover have "?mine \<noteq> [] \<longleftrightarrow> c \<in> hs_code ` set sigs" by (auto simp: filter_empty_conv)
  moreover have "fold bucket_add ?mine new_bucket = bucket_of c sigs" if "?mine \<noteq> []"
    using fold_bucket_add[OF _ that, of c new_bucket]
    by (simp add: new_bucket_def bucket_of_def Let_def combine_worst)
  ultimately show ?thesis by auto
qed

lemma level_rank_eq: "level_rank a = level_rank b \<longleftrightarrow> a = b"
  by (cases a; cases b) simp_all

lemma bucket_before_trans: "bucket_before a b \<Longrightarrow> bucket_before b c \<Longrightarrow> bucket_before a c"
  unfolding bucket_before_def
  by (auto simp: level_rank_eq[symmetric] split: if_splits)

lemma bucket_before_total: "hb_code a \<noteq> hb_code b \<Longrightarrow> \<not> bucket_before a b \<Longrightarrow> bucket_before b a"
  unfolding bucket_before_def
  by (auto simp: level_rank_eq[symmetric] signal_code_value_eq[symmetric] split: if_splits)

lemma set_insert_bucket [simp]: "set (insert_bucket b bs) = insert b (set bs)"
  by (induction bs) auto

lemma insert_bucket_sorted:
  "sorted_wrt bucket_before bs \<Longrightarrow> hb_code b \<notin> hb_code ` set bs \<Longrightarrow>
     sorted_wrt bucket_before (insert_bucket b bs)"
  by (induction bs) (auto simp: image_iff intro: bucket_before_trans dest: bucket_before_total[rotated])

lemma buckets_sorted:
  "distinct (map hb_code bs) \<Longrightarrow> set (foldr insert_bucket bs []) = set bs \<and>
     sorted_wrt bucket_before (foldr insert_bucket bs [])"
  by (induction bs) (auto intro: insert_bucket_sorted)

text \<open>Remark. The signal summary has exactly one bucket per code that occurs, with the worst level,
  the number and the total weight of the code's signals, and the buckets are ordered by level,
  then weight, then code.\<close>

theorem buckets_exact:
  "set (summarize_health_signals r) = (\<lambda>c. bucket_of c (hr_signals r)) ` hs_code ` set (hr_signals r) \<and>
   sorted_wrt bucket_before (summarize_health_signals r)"
proof -
  let ?loop = "bucket_loop [] (hr_signals r)"
  have ok: "om_ok ?loop" by (simp add: bucket_loop_ok)
  have codes: "hb_code (snd p) = fst p" if "p \<in> set ?loop" for p
    using that bucket_loop_buckets[of "fst p" "snd p"] by (simp add: bucket_of_def Let_def)
  have "map hb_code (map snd ?loop) = map fst ?loop"
    using codes by simp
  then have "distinct (map hb_code (map snd ?loop))" using om_ok_distinct[OF ok] by (simp only:)
  from buckets_sorted[OF this] have sorted: "set (summarize_health_signals r) = snd ` set ?loop"
    "sorted_wrt bucket_before (summarize_health_signals r)"
    by (simp_all add: summarize_health_signals_def)
  have "snd ` set ?loop = (\<lambda>c. bucket_of c (hr_signals r)) ` hs_code ` set (hr_signals r)"
    using bucket_loop_buckets[of _ _ "hr_signals r"] by (auto simp: image_iff) (metis snd_conv)+
  then show ?thesis using sorted by simp
qed

section \<open>The health of an engine's log\<close>

lemma event_count_pos: "event_count k events \<noteq> 0 \<longleftrightarrow> (\<exists>e \<in> set events. ev_kind e = k)"
  by (auto simp: event_count_def filter_empty_conv)

lemma connection_passes: "report_passes (evaluate_connection_health summary options) \<longleftrightarrow>
    es_total summary \<noteq> 0 \<and> \<not> (ho_require_negotiation options \<and> es_negotiated summary = 0)"
  by (simp add: evaluate_connection_health_def Let_def finalize_passes)

lemma summary_counts:
  "es_total (summarize_connection_events events) = length events"
  "es_negotiated (summarize_connection_events events) = event_count EK_negotiated events"
  by (simp_all add: summarize_connection_events_def summarize_loop_exact new_summary_def Let_def)

text \<open>Remark. An engine that got as far as a channel is never reported as failed: in every
  history, once the log holds an opened channel, a delivered message or a plugin's response, the
  health of its summary passes under any options.\<close>

theorem engine_log_passes:
  assumes "policy_fits policy"
    and "evs = ce_events (run_engine (connection_engine policy registry executor) ops)"
    and "list_ex (\<lambda>e. channel_kind (ev_kind e)) evs"
  shows "report_passes (evaluate_connection_health (summarize_connection_events evs) options)"
proof -
  obtain i where i: "i < length evs" "channel_kind (ev_kind (evs ! i))"
    using assms(3) by (auto simp: list_ex_length)
  then obtain j where "j < i" "ev_kind (evs ! j) = EK_negotiated"
    using engine_history_ok[OF assms(1), of registry executor ops]
    by (auto simp: assms(2) engine_ok_def gated_def)
  then have "event_count EK_negotiated evs \<noteq> 0" "evs \<noteq> []"
    using i(1) unfolding event_count_pos by (auto intro!: bexI[of _ "evs ! j"])
  then show ?thesis by (simp add: connection_passes summary_counts)
qed

theorem engine_log_passes_witness:
  "\<exists>bs. report_passes (evaluate_connection_health (summarize_connection_events
     (ce_events (run_engine (connection_engine default_policy echo_registry None)
        [Op_start, Op_receive bs False, Op_open \<lparr>or_family_id = 7, or_initial_window = 100\<rparr>])))
     default_health)"
proof -
  obtain bs where bs: "map ev_kind (ce_events (run_engine (connection_engine default_policy echo_registry None)
        [Op_start, Op_receive bs False, Op_open \<lparr>or_family_id = 7, or_initial_window = 100\<rparr>])) =
      [EK_negotiated, EK_channel_opened]"
    using echo_opens by (elim exE)
  let ?evs = "ce_events (run_engine (connection_engine default_policy echo_registry None)
        [Op_start, Op_receive bs False, Op_open \<lparr>or_family_id = 7, or_initial_window = 100\<rparr>])"
  have "list_ex (\<lambda>e. channel_kind (ev_kind e)) ?evs"
    using bs by (cases ?evs; cases "tl ?evs") auto
  then show ?thesis using engine_log_passes[OF default_policy_fits refl] by blast
qed

section \<open>A signal that never appears\<close>

text \<open>The evaluation of a policy has a signal for an empty document, but the validator has already
  rejected one: \<open>route_policy_empty\<close> is never reported.\<close>

lemma empty_policy_invalid:
  "evaluate_route_policy_health \<lparr>rd_routes = []\<rparr> options =
     finalize_report (add_signal HS_route_policy_invalid HL_failed 25 ''policy''
       ''policy contains no routes'' new_report)"
  by (simp add: evaluate_route_policy_health_def validate_route_policy_def validation_ok_def)

end
