(* ===== verification/Effects.thy ===== *)
theory Effects
  imports Text_Format
begin

text \<open>
  What the process boundary adds to a result: the stable text of an error
  (\<open>Error::stable_code\<close> of \<^verbatim>\<open>frame_codec.cpp\<close>), which is what the command line prints, and the
  outcome of a step that talks to the operating system: it returns, an exception leaves it, or it
  waits forever. The lemmas show that the printed code tells scope and code apart.
\<close>

section \<open>The printed code of an error\<close>

fun scope_name :: "ErrorScope \<Rightarrow> string" where
  "scope_name ES_connection = ''connection''"
| "scope_name ES_channel = ''channel''"
| "scope_name ES_message = ''message''"
| "scope_name ES_plugin = ''plugin''"
| "scope_name ES_transport = ''transport''"
| "scope_name ES_internal = ''internal''"

fun code_name :: "ErrorCode \<Rightarrow> string" where
  "code_name EC_need_more_data = ''NeedMoreData''"
| "code_name EC_truncated_frame = ''TruncatedFrame''"
| "code_name EC_bad_magic = ''BadMagic''"
| "code_name EC_reserved_flags = ''ReservedFlags''"
| "code_name EC_varint_non_canonical = ''VarintNonCanonical''"
| "code_name EC_varint_too_long = ''VarintTooLong''"
| "code_name EC_frame_too_large = ''FrameTooLarge''"
| "code_name EC_header_too_large = ''HeaderTooLarge''"
| "code_name EC_crc_mismatch = ''CrcMismatch''"
| "code_name EC_malformed_tlv = ''MalformedTlv''"
| "code_name EC_unsupported_frame_type = ''UnsupportedFrameType''"
| "code_name EC_negotiation_rejected = ''NegotiationRejected''"
| "code_name EC_duplicate_required_tlv = ''DuplicateRequiredTlv''"
| "code_name EC_unknown_required_feature = ''UnknownRequiredFeature''"
| "code_name EC_stale_generation = ''StaleGeneration''"
| "code_name EC_illegal_state = ''IllegalState''"
| "code_name EC_fragment_range = ''FragmentRange''"
| "code_name EC_fragment_overlap = ''FragmentOverlap''"
| "code_name EC_sequence_error = ''SequenceError''"
| "code_name EC_flow_underflow = ''FlowUnderflow''"
| "code_name EC_flow_overflow = ''FlowOverflow''"
| "code_name EC_resource_limit = ''ResourceLimit''"
| "code_name EC_would_block = ''WouldBlock''"
| "code_name EC_plugin_decode = ''PluginDecode''"
| "code_name EC_resume_rejected = ''ResumeRejected''"
| "code_name EC_timeout = ''Timeout''"
| "code_name EC_cancelled = ''Cancelled''"
| "code_name EC_transport_error = ''Transport''"
| "code_name EC_invariant_failure = ''InvariantFailure''"

definition stable_code :: "Error \<Rightarrow> string" where
  "stable_code e = scope_name (err_scope e) @ ''.'' @ code_name (err_code e)"

lemma scope_name_plain [simp]: "CHR ''.'' \<notin> set (scope_name s)"
  by (cases s) simp_all

lemma scope_name_injective [simp]: "scope_name s = scope_name t \<longleftrightarrow> s = t"
  by (cases s; cases t) simp_all

lemma code_name_injective [simp]: "code_name s = code_name t \<longleftrightarrow> s = t"
  by (cases s; cases t; simp)

lemma stable_code_cut: "cut_at (CHR ''.'') (stable_code e) = Some (scope_name (err_scope e), code_name (err_code e))"
  by (simp add: stable_code_def)

text \<open>Remark. The printed code identifies scope and code of an error: two errors print the same
  exactly when they agree on both.\<close>

theorem stable_code_exact:
  "stable_code a = stable_code b \<longleftrightarrow> err_scope a = err_scope b \<and> err_code a = err_code b"
proof
  assume "stable_code a = stable_code b"
  then have "Some (scope_name (err_scope a), code_name (err_code a)) =
      Some (scope_name (err_scope b), code_name (err_code b))"
    by (simp flip: stable_code_cut)
  then show "err_scope a = err_scope b \<and> err_code a = err_code b" by simp
qed (simp add: stable_code_def)

section \<open>Outcomes of a step that reaches the operating system\<close>

datatype 'a run = Returns 'a | Throws string | Blocks

text \<open>The idiom \<open>auto x = f(); if (!x) return x.error();\<close> over a state.\<close>

definition and_then ::
  "('s \<times> 'a result) run \<Rightarrow> ('s \<Rightarrow> 'a \<Rightarrow> ('s \<times> 'b result) run) \<Rightarrow> ('s \<times> 'b result) run" where
  "and_then m f =
     (case m of
        Returns (s, Inr x) \<Rightarrow> f s x
      | Returns (s, Inl e) \<Rightarrow> Returns (s, Inl e)
      | Throws what \<Rightarrow> Throws what
      | Blocks \<Rightarrow> Blocks)"

lemma and_then_simps [simp]:
  "and_then (Returns (s, Inr x)) f = f s x"
  "and_then (Returns (s, Inl e)) f = Returns (s, Inl e)"
  "and_then (Throws what) f = Throws what"
  "and_then Blocks f = Blocks"
  by (simp_all add: and_then_def)

lemma and_then_ok:
  "and_then m f = Returns (t, Inr y) \<longleftrightarrow> (\<exists>s x. m = Returns (s, Inr x) \<and> f s x = Returns (t, Inr y))"
  by (auto simp: and_then_def split: run.splits prod.splits sum.splits)

lemma and_then_error:
  "and_then m f = Returns (t, Inl e) \<longleftrightarrow>
     m = Returns (t, Inl e) \<or> (\<exists>s x. m = Returns (s, Inr x) \<and> f s x = Returns (t, Inl e))"
  by (auto simp: and_then_def split: run.splits prod.splits sum.splits)

end
