(* ===== verification/Unix_Socket.thy ===== *)
theory Unix_Socket
  imports Effects
begin

text \<open>
  The POSIX socket transport, \<^verbatim>\<open>src/transport/unix_transport.cpp\<close>. The kernel is outside the
  program: what each system call will answer is data of the model (a list of answers per
  descriptor; a list that has run out is a call that waits), and the calls' effects on the table
  of open descriptors and on the bytes handed over are written out. The properties: a write hands
  over every byte once and in order or reports an error after a prefix, and the move operations
  of \<open>UnixTransport\<close> keep every open descriptor with exactly one object.
\<close>

section \<open>The kernel\<close>

text \<open>What \<open>send\<close>, \<open>recv\<close> and \<open>accept\<close> answer; the strings are \<open>strerror(errno)\<close>.\<close>

datatype SendAnswer = Send_accepts nat | Send_fails string | Send_interrupted

datatype RecvAnswer = Recv_bytes bytes | Recv_fails string | Recv_interrupted

record Socket =
  so_sends :: "SendAnswer list"
  so_recvs :: "RecvAnswer list"
  so_wire :: bytes

datatype AcceptAnswer = Accept_opens int Socket | Accept_fails string | Accept_interrupted

datatype SocketAnswer = Socket_opens int | Socket_fails string

datatype ConnectAnswer = Connect_ok Socket | Connect_fails string

record Kernel =
  k_sockets :: "int \<Rightarrow> Socket option"
  k_paths :: "string set"

text \<open>A descriptor that is not open answers \<open>EBADF\<close>.\<close>

definition socket_of :: "Kernel \<Rightarrow> int \<Rightarrow> Socket" where
  "socket_of k fd =
     (case k_sockets k fd of
        Some s \<Rightarrow> s
      | None \<Rightarrow> \<lparr>so_sends = [Send_fails ''Bad file descriptor''],
                  so_recvs = [Recv_fails ''Bad file descriptor''], so_wire = []\<rparr>)"

definition put_socket :: "Kernel \<Rightarrow> int \<Rightarrow> Socket \<Rightarrow> Kernel" where
  "put_socket k fd s =
     (if k_sockets k fd = None then k else k\<lparr>k_sockets := (k_sockets k)(fd \<mapsto> s)\<rparr>)"

definition sys_open :: "Kernel \<Rightarrow> int \<Rightarrow> Socket \<Rightarrow> Kernel" where
  "sys_open k fd s = k\<lparr>k_sockets := (k_sockets k)(fd \<mapsto> s)\<rparr>"

definition sys_close :: "Kernel \<Rightarrow> int \<Rightarrow> Kernel" where
  "sys_close k fd = k\<lparr>k_sockets := (k_sockets k)(fd := None)\<rparr>"

definition sys_unlink :: "Kernel \<Rightarrow> string \<Rightarrow> Kernel" where
  "sys_unlink k path = k\<lparr>k_paths := k_paths k - {path}\<rparr>"

definition fresh_socket :: Socket where
  "fresh_socket = \<lparr>so_sends = [], so_recvs = [], so_wire = []\<rparr>"

text \<open>\<open>sizeof(sockaddr_un::sun_path)\<close> on Linux.\<close>

definition sun_path_size :: nat where "sun_path_size = 108"

section \<open>The transport object\<close>

record UnixTransport =
  ut_fd :: int

definition socket_error :: "string \<Rightarrow> Error" where
  "socket_error detail = make_error ES_transport EC_transport_error CA_close_connection detail"

text \<open>The public constructor takes the descriptor it is given over.\<close>

definition unix_from_fd :: "int \<Rightarrow> UnixTransport" where
  "unix_from_fd fd = \<lparr>ut_fd = fd\<rparr>"

definition unix_move :: "UnixTransport \<Rightarrow> UnixTransport \<times> UnixTransport" where
  "unix_move other = (\<lparr>ut_fd = ut_fd other\<rparr>, other\<lparr>ut_fd := -1\<rparr>)"

definition unix_close :: "Kernel \<Rightarrow> UnixTransport \<Rightarrow> Kernel \<times> UnixTransport" where
  "unix_close k t = ((if ut_fd t \<ge> 0 then sys_close k (ut_fd t) else k), t\<lparr>ut_fd := -1\<rparr>)"

text \<open>Move assignment from another object; assigning an object to itself does nothing.\<close>

definition unix_move_assign ::
  "Kernel \<Rightarrow> UnixTransport \<Rightarrow> UnixTransport \<Rightarrow> Kernel \<times> UnixTransport \<times> UnixTransport" where
  "unix_move_assign k this other =
     (let (k', closed) = unix_close k this
      in (k', closed\<lparr>ut_fd := ut_fd other\<rparr>, other\<lparr>ut_fd := -1\<rparr>))"

definition connect_path ::
  "Kernel \<Rightarrow> string \<Rightarrow> SocketAnswer \<Rightarrow> ConnectAnswer \<Rightarrow> Kernel \<times> UnixTransport result" where
  "connect_path k path socket_answer connect_answer =
     (if path = [] \<or> length path \<ge> sun_path_size
      then (k, Inl (socket_error ''Unix socket path is empty or too long''))
      else case socket_answer of
        Socket_fails why \<Rightarrow> (k, Inl (socket_error (''socket failed: '' @ why)))
      | Socket_opens fd \<Rightarrow>
          (case connect_answer of
             Connect_fails why \<Rightarrow>
               (sys_close (sys_open k fd fresh_socket) fd, Inl (socket_error (''connect failed: '' @ why)))
           | Connect_ok s \<Rightarrow> (sys_open k fd s, Inr \<lparr>ut_fd = fd\<rparr>)))"

definition pair_for_test ::
  "Kernel \<Rightarrow> string + (int \<times> int) \<Rightarrow> Socket \<Rightarrow> Socket \<Rightarrow>
   Kernel \<times> (UnixTransport \<times> UnixTransport) result" where
  "pair_for_test k pair_answer s s' =
     (case pair_answer of
        Inl why \<Rightarrow> (k, Inl (socket_error (''socketpair failed: '' @ why)))
      | Inr (fd, fd') \<Rightarrow>
          (sys_open (sys_open k fd s) fd' s', Inr (\<lparr>ut_fd = fd\<rparr>, \<lparr>ut_fd = fd'\<rparr>)))"

text \<open>The loop of \<open>write\<close>: the answers left, the bytes handed over, and the result.\<close>

fun unix_send_loop ::
  "SendAnswer list \<Rightarrow> bytes \<Rightarrow> nat \<Rightarrow> bytes \<Rightarrow> ((SendAnswer list \<times> bytes) \<times> unit result) run" where
  "unix_send_loop answers bs sent wire =
     (if sent < length bs then
        (case answers of
           [] \<Rightarrow> Blocks
         | Send_interrupted # answers' \<Rightarrow> unix_send_loop answers' bs sent wire
         | Send_fails why # answers' \<Rightarrow>
             Returns ((answers', wire), Inl (socket_error (''send failed: '' @ why)))
         | Send_accepts n # answers' \<Rightarrow>
             if n = 0 then Returns ((answers', wire), Inl (socket_error ''send returned zero bytes''))
             else unix_send_loop answers' bs (sent + n) (wire @ take n (drop sent bs)))
      else Returns ((answers, wire), Inr ()))"

definition unix_write :: "Kernel \<Rightarrow> UnixTransport \<Rightarrow> bytes \<Rightarrow> (Kernel \<times> unit result) run" where
  "unix_write k t bs =
     (if ut_fd t < 0
      then Returns (k, Inl (socket_error ''write on closed Unix transport''))
      else
        let s = socket_of k (ut_fd t)
        in case unix_send_loop (so_sends s) bs 0 (so_wire s) of
             Returns ((answers, wire), r) \<Rightarrow>
               Returns (put_socket k (ut_fd t) (s\<lparr>so_sends := answers, so_wire := wire\<rparr>), r)
           | Throws what \<Rightarrow> Throws what
           | Blocks \<Rightarrow> Blocks)"

text \<open>One \<open>recv\<close>: at most \<open>max_bytes\<close>, what is left stays in the socket. An interrupted call is
  answered with an empty buffer, as the end of the stream is.\<close>

definition read_some :: "Kernel \<Rightarrow> UnixTransport \<Rightarrow> nat \<Rightarrow> (Kernel \<times> bytes result) run" where
  "read_some k t max_bytes =
     (if ut_fd t < 0
      then Returns (k, Inl (socket_error ''read on closed Unix transport''))
      else
        let s = socket_of k (ut_fd t)
        in case so_recvs s of
             [] \<Rightarrow> Blocks
           | Recv_interrupted # answers \<Rightarrow>
               Returns (put_socket k (ut_fd t) (s\<lparr>so_recvs := answers\<rparr>), Inr [])
           | Recv_fails why # answers \<Rightarrow>
               Returns (put_socket k (ut_fd t) (s\<lparr>so_recvs := answers\<rparr>),
                        Inl (socket_error (''recv failed: '' @ why)))
           | Recv_bytes bs # answers \<Rightarrow>
               Returns (put_socket k (ut_fd t)
                          (s\<lparr>so_recvs := (if length bs \<le> max_bytes then answers
                                           else Recv_bytes (drop max_bytes bs) # answers)\<rparr>),
                        Inr (take max_bytes bs)))"

section \<open>The listener\<close>

record UnixListener =
  ul_fd :: int
  ul_path :: string

definition bind_path ::
  "Kernel \<Rightarrow> string \<Rightarrow> SocketAnswer \<Rightarrow> string option \<Rightarrow> string option \<Rightarrow> Kernel \<times> UnixListener result" where
  "bind_path k path socket_answer bind_failure listen_failure =
     (if path = [] \<or> length path \<ge> sun_path_size
      then (k, Inl (socket_error ''Unix listener path is empty or too long''))
      else case socket_answer of
        Socket_fails why \<Rightarrow> (k, Inl (socket_error (''socket failed: '' @ why)))
      | Socket_opens fd \<Rightarrow>
          let k' = sys_unlink (sys_open k fd fresh_socket) path
          in (case bind_failure of
                Some why \<Rightarrow> (sys_close k' fd, Inl (socket_error (''bind failed: '' @ why)))
              | None \<Rightarrow>
                  let k'' = k'\<lparr>k_paths := insert path (k_paths k')\<rparr>
                  in (case listen_failure of
                        Some why \<Rightarrow>
                          (sys_unlink (sys_close k'' fd) path, Inl (socket_error (''listen failed: '' @ why)))
                      | None \<Rightarrow> (k'', Inr \<lparr>ul_fd = fd, ul_path = path\<rparr>))))"

fun accept_loop :: "Kernel \<Rightarrow> AcceptAnswer list \<Rightarrow> (Kernel \<times> UnixTransport result) run" where
  "accept_loop k [] = Blocks"
| "accept_loop k (Accept_opens fd s # answers) = Returns (sys_open k fd s, Inr \<lparr>ut_fd = fd\<rparr>)"
| "accept_loop k (Accept_interrupted # answers) = accept_loop k answers"
| "accept_loop k (Accept_fails why # answers) =
     Returns (k, Inl (socket_error (''accept failed: '' @ why)))"

definition accept_one ::
  "Kernel \<Rightarrow> UnixListener \<Rightarrow> AcceptAnswer list \<Rightarrow> (Kernel \<times> UnixTransport result) run" where
  "accept_one k l answers =
     (if ul_fd l < 0
      then Returns (k, Inl (socket_error ''accept on closed Unix listener''))
      else accept_loop k answers)"

definition listener_close :: "Kernel \<Rightarrow> UnixListener \<Rightarrow> Kernel \<times> UnixListener" where
  "listener_close k l =
     (let k' = (if ul_fd l \<ge> 0 then sys_close k (ul_fd l) else k);
          k'' = (if ul_path l \<noteq> [] then sys_unlink k' (ul_path l) else k')
      in (k'', \<lparr>ul_fd = -1, ul_path = []\<rparr>))"

text \<open>A moved-from string is empty.\<close>

definition listener_move :: "UnixListener \<Rightarrow> UnixListener \<times> UnixListener" where
  "listener_move other = (\<lparr>ul_fd = ul_fd other, ul_path = ul_path other\<rparr>, \<lparr>ul_fd = -1, ul_path = []\<rparr>)"

definition listener_move_assign ::
  "Kernel \<Rightarrow> UnixListener \<Rightarrow> UnixListener \<Rightarrow> Kernel \<times> UnixListener \<times> UnixListener" where
  "listener_move_assign k this other =
     (let (k', closed) = listener_close k this
      in (k', closed\<lparr>ul_fd := ul_fd other, ul_path := ul_path other\<rparr>, \<lparr>ul_fd = -1, ul_path = []\<rparr>))"

declare unix_send_loop.simps [simp del]

section \<open>What a write hands over\<close>

lemma unix_send_loop_simps [simp]:
  "length bs \<le> sent \<Longrightarrow> unix_send_loop answers bs sent wire = Returns ((answers, wire), Inr ())"
  "sent < length bs \<Longrightarrow> unix_send_loop [] bs sent wire = Blocks"
  "sent < length bs \<Longrightarrow> unix_send_loop (Send_interrupted # answers) bs sent wire = unix_send_loop answers bs sent wire"
  "sent < length bs \<Longrightarrow> unix_send_loop (Send_fails why # answers) bs sent wire =
     Returns ((answers, wire), Inl (socket_error (''send failed: '' @ why)))"
  "sent < length bs \<Longrightarrow> unix_send_loop (Send_accepts n # answers) bs sent wire =
     (if n = 0 then Returns ((answers, wire), Inl (socket_error ''send returned zero bytes''))
      else unix_send_loop answers bs (sent + n) (wire @ take n (drop sent bs)))"
  by (simp_all add: unix_send_loop.simps)

lemma unix_send_loop_bytes:
  "unix_send_loop answers bs sent wire = Returns ((left, wire'), r) \<Longrightarrow>
     (\<exists>n. wire' = wire @ take n (drop sent bs) \<and>
        (if is_ok r then length bs \<le> sent + n else sent + n < length bs))"
proof (induction answers arbitrary: sent wire)
  case Nil
  then show ?case by (cases "sent < length bs") (auto simp: not_less intro: exI[of _ 0])
next
  case (Cons a answers)
  show ?case
  proof (cases "sent < length bs \<and> (\<exists>n. a = Send_accepts n \<and> n \<noteq> 0)")
    case True
    then obtain n where n: "a = Send_accepts n" "n \<noteq> 0" by blast
    then have "unix_send_loop answers bs (sent + n) (wire @ take n (drop sent bs)) = Returns ((left, wire'), r)"
      using Cons.prems True by simp
    from Cons.IH[OF this] obtain m where
      m: "wire' = wire @ take n (drop sent bs) @ take m (drop (sent + n) bs)"
        "if is_ok r then length bs \<le> sent + n + m else sent + n + m < length bs" by auto
    have "take (n + m) (drop sent bs) = take n (drop sent bs) @ take m (drop (sent + n) bs)"
      by (simp add: take_add add.commute[of sent n])
    then show ?thesis using m by (intro exI[of _ "n + m"]) (simp add: add.assoc[symmetric])
  next
    case False
    then show ?thesis using Cons
      by (cases "sent < length bs"; cases a) (auto simp: not_less intro: exI[of _ 0])
  qed
qed

lemma unix_send_loop_returns:
  "length bs \<le> sent + length (filter (\<lambda>a. a \<noteq> Send_interrupted) answers) \<Longrightarrow>
     \<exists>left wire' r. unix_send_loop answers bs sent wire = Returns ((left, wire'), r)"
proof (induction answers arbitrary: sent wire)
  case (Cons a answers)
  then show ?case by (cases "sent < length bs"; cases a) (auto simp: not_less)
qed simp

lemma socket_of_open [simp]: "k_sockets k fd = Some s \<Longrightarrow> socket_of k fd = s"
  by (simp add: socket_of_def)

lemma put_socket_simps [simp]:
  "k_sockets k fd = Some s \<Longrightarrow> k_sockets (put_socket k fd s') = (k_sockets k)(fd \<mapsto> s')"
  "k_paths (put_socket k fd s') = k_paths k"
  by (simp_all add: put_socket_def)

lemma unix_write_open:
  assumes "k_sockets k (ut_fd t) = Some s" "ut_fd t \<ge> 0"
  shows "unix_write k t bs = (case unix_send_loop (so_sends s) bs 0 (so_wire s) of
      Returns ((answers, wire), r) \<Rightarrow> Returns (put_socket k (ut_fd t) (s\<lparr>so_sends := answers, so_wire := wire\<rparr>), r)
    | Throws what \<Rightarrow> Throws what
    | Blocks \<Rightarrow> Blocks)"
  using assms by (simp add: unix_write_def)

text \<open>Property C39. A write on an open socket that returns has handed the kernel a prefix of the
  buffer, in order and nothing twice, however the kernel splits it and however often it is
  interrupted: all of it exactly when the result is a success. It leaves every other descriptor
  and what is still to be read alone, and it returns as soon as the kernel has answered as often
  as the buffer has bytes.\<close>

theorem socket_write_exact:
  assumes "k_sockets k (ut_fd t) = Some s" "ut_fd t \<ge> 0"
  shows "(unix_write k t bs = Returns (k', r) \<longrightarrow>
       (\<exists>n \<le> length bs. \<exists>answers.
          k_sockets k' = (k_sockets k)(ut_fd t \<mapsto> s\<lparr>so_sends := answers, so_wire := so_wire s @ take n bs\<rparr>) \<and>
          (is_ok r \<longleftrightarrow> n = length bs))) \<and>
     (length bs \<le> length (filter (\<lambda>a. a \<noteq> Send_interrupted) (so_sends s)) \<longrightarrow>
       (\<exists>k' r. unix_write k t bs = Returns (k', r)))"
proof (intro conjI impI)
  assume "unix_write k t bs = Returns (k', r)"
  then obtain answers wire where l: "unix_send_loop (so_sends s) bs 0 (so_wire s) = Returns ((answers, wire), r)"
    and k: "k' = put_socket k (ut_fd t) (s\<lparr>so_sends := answers, so_wire := wire\<rparr>)"
    by (auto simp: unix_write_open[OF assms] split: run.splits prod.splits)
  obtain n where n: "wire = so_wire s @ take n bs" "if is_ok r then length bs \<le> n else n < length bs"
    using unix_send_loop_bytes[OF l] by (metis add_0 drop0)
  show "\<exists>n \<le> length bs. \<exists>answers.
      k_sockets k' = (k_sockets k)(ut_fd t \<mapsto> s\<lparr>so_sends := answers, so_wire := so_wire s @ take n bs\<rparr>) \<and>
      (is_ok r \<longleftrightarrow> n = length bs)"
    using n assms by (intro exI[of _ "min n (length bs)"] conjI exI[of _ answers])
      (auto simp: k min_def split: if_splits)
next
  assume "length bs \<le> length (filter (\<lambda>a. a \<noteq> Send_interrupted) (so_sends s))"
  then obtain left wire' r where "unix_send_loop (so_sends s) bs 0 (so_wire s) = Returns ((left, wire'), r)"
    using unix_send_loop_returns[of bs 0] by fastforce
  then show "\<exists>k' r. unix_write k t bs = Returns (k', r)" by (simp add: unix_write_open[OF assms])
qed

definition sample_socket :: Socket where
  "sample_socket = \<lparr>so_sends = [Send_interrupted, Send_accepts 2, Send_interrupted, Send_accepts 1],
     so_recvs = [Recv_bytes [7, 8]], so_wire = []\<rparr>"

definition sample_kernel :: Kernel where
  "sample_kernel = \<lparr>k_sockets = [3 \<mapsto> sample_socket], k_paths = {}\<rparr>"

theorem socket_write_exact_witness:
  "\<exists>answers. unix_write sample_kernel \<lparr>ut_fd = 3\<rparr> [1, 2, 3] =
       Returns (sample_kernel\<lparr>k_sockets := [3 \<mapsto> sample_socket\<lparr>so_sends := answers, so_wire := [1, 2, 3]\<rparr>]\<rparr>, Inr ())"
proof -
  let ?k = "sample_kernel\<lparr>k_sockets := [3 \<mapsto> sample_socket\<lparr>so_sends := [], so_wire := [1, 2, 3]\<rparr>]\<rparr>"
  have w: "unix_write sample_kernel \<lparr>ut_fd = 3\<rparr> [1, 2, 3] = Returns (?k, Inr ())"
    by (simp add: unix_write_def socket_of_def sample_kernel_def sample_socket_def put_socket_def
        unix_send_loop.simps)
  have "k_sockets sample_kernel (ut_fd \<lparr>ut_fd = 3\<rparr>) = Some sample_socket" "ut_fd \<lparr>ut_fd = 3\<rparr> \<ge> 0"
    by (simp_all add: sample_kernel_def)
  from socket_write_exact[OF this, of "[1, 2, 3]" ?k "Inr ()"] w show ?thesis by blast
qed

section \<open>Who owns a descriptor\<close>

text \<open>The transports and listeners of a process, by the place they live at. A descriptor a system
  call returns is one that is not open; so is one the constructor from a descriptor is given,
  which the caller opened itself and hands over.\<close>

datatype PoolObject = PO_transport UnixTransport | PO_listener UnixListener

record Pool =
  po_kernel :: Kernel
  po_objects :: "nat \<Rightarrow> PoolObject option"

definition fresh_fd :: "Kernel \<Rightarrow> int \<Rightarrow> bool" where
  "fresh_fd k fd \<longleftrightarrow> fd \<ge> 0 \<and> k_sockets k fd = None"

inductive pool_step :: "Pool \<Rightarrow> Pool \<Rightarrow> bool" where
  pool_default: "po_objects p x = None \<Longrightarrow> obj = PO_transport \<lparr>ut_fd = -1\<rparr> \<or> obj = PO_listener \<lparr>ul_fd = -1, ul_path = []\<rparr> \<Longrightarrow>
     pool_step p (p\<lparr>po_objects := (po_objects p)(x \<mapsto> obj)\<rparr>)"
| pool_adopt: "po_objects p x = None \<Longrightarrow> fresh_fd (po_kernel p) fd \<Longrightarrow>
     pool_step p (p\<lparr>po_kernel := sys_open (po_kernel p) fd s,
       po_objects := (po_objects p)(x \<mapsto> PO_transport (unix_from_fd fd))\<rparr>)"
| pool_connect: "po_objects p x = None \<Longrightarrow>
     (\<And>fd. socket_answer = Socket_opens fd \<Longrightarrow> fresh_fd (po_kernel p) fd) \<Longrightarrow>
     connect_path (po_kernel p) path socket_answer connect_answer = (k, r) \<Longrightarrow>
     pool_step p (p\<lparr>po_kernel := k,
       po_objects := (case r of Inr t \<Rightarrow> (po_objects p)(x \<mapsto> PO_transport t) | Inl e \<Rightarrow> po_objects p)\<rparr>)"
| pool_pair: "po_objects p x = None \<Longrightarrow> po_objects p y = None \<Longrightarrow> x \<noteq> y \<Longrightarrow>
     (\<And>fd fd'. pair_answer = Inr (fd, fd') \<Longrightarrow> fresh_fd (po_kernel p) fd \<and> fresh_fd (po_kernel p) fd' \<and> fd \<noteq> fd') \<Longrightarrow>
     pair_for_test (po_kernel p) pair_answer s s' = (k, r) \<Longrightarrow>
     pool_step p (p\<lparr>po_kernel := k, po_objects :=
       (case r of Inr (t, t') \<Rightarrow> (po_objects p)(x \<mapsto> PO_transport t, y \<mapsto> PO_transport t') | Inl e \<Rightarrow> po_objects p)\<rparr>)"
| pool_bind: "po_objects p x = None \<Longrightarrow>
     (\<And>fd. socket_answer = Socket_opens fd \<Longrightarrow> fresh_fd (po_kernel p) fd) \<Longrightarrow>
     bind_path (po_kernel p) path socket_answer bind_failure listen_failure = (k, r) \<Longrightarrow>
     pool_step p (p\<lparr>po_kernel := k,
       po_objects := (case r of Inr l \<Rightarrow> (po_objects p)(x \<mapsto> PO_listener l) | Inl e \<Rightarrow> po_objects p)\<rparr>)"
| pool_accept: "po_objects p x = None \<Longrightarrow> po_objects p y = Some (PO_listener l) \<Longrightarrow>
     (\<And>fd s. Accept_opens fd s \<in> set answers \<Longrightarrow> fresh_fd (po_kernel p) fd) \<Longrightarrow>
     accept_one (po_kernel p) l answers = Returns (k, r) \<Longrightarrow>
     pool_step p (p\<lparr>po_kernel := k,
       po_objects := (case r of Inr t \<Rightarrow> (po_objects p)(x \<mapsto> PO_transport t) | Inl e \<Rightarrow> po_objects p)\<rparr>)"
| pool_move: "po_objects p x = None \<Longrightarrow> po_objects p y = Some (PO_transport other) \<Longrightarrow>
     unix_move other = (t, other') \<Longrightarrow>
     pool_step p (p\<lparr>po_objects := (po_objects p)(x \<mapsto> PO_transport t, y \<mapsto> PO_transport other')\<rparr>)"
| pool_listener_move: "po_objects p x = None \<Longrightarrow> po_objects p y = Some (PO_listener other) \<Longrightarrow>
     listener_move other = (l, other') \<Longrightarrow>
     pool_step p (p\<lparr>po_objects := (po_objects p)(x \<mapsto> PO_listener l, y \<mapsto> PO_listener other')\<rparr>)"
| pool_assign: "x \<noteq> y \<Longrightarrow> po_objects p x = Some (PO_transport this) \<Longrightarrow> po_objects p y = Some (PO_transport other) \<Longrightarrow>
     unix_move_assign (po_kernel p) this other = (k, t, other') \<Longrightarrow>
     pool_step p (p\<lparr>po_kernel := k, po_objects := (po_objects p)(x \<mapsto> PO_transport t, y \<mapsto> PO_transport other')\<rparr>)"
| pool_listener_assign: "x \<noteq> y \<Longrightarrow> po_objects p x = Some (PO_listener this) \<Longrightarrow> po_objects p y = Some (PO_listener other) \<Longrightarrow>
     listener_move_assign (po_kernel p) this other = (k, l, other') \<Longrightarrow>
     pool_step p (p\<lparr>po_kernel := k, po_objects := (po_objects p)(x \<mapsto> PO_listener l, y \<mapsto> PO_listener other')\<rparr>)"
| pool_write: "po_objects p x = Some (PO_transport t) \<Longrightarrow> unix_write (po_kernel p) t bs = Returns (k, r) \<Longrightarrow>
     pool_step p (p\<lparr>po_kernel := k\<rparr>)"
| pool_read: "po_objects p x = Some (PO_transport t) \<Longrightarrow> read_some (po_kernel p) t n = Returns (k, r') \<Longrightarrow>
     pool_step p (p\<lparr>po_kernel := k\<rparr>)"
| pool_close: "po_objects p x = Some (PO_transport this) \<Longrightarrow> unix_close (po_kernel p) this = (k, t) \<Longrightarrow>
     obj = Some (PO_transport t) \<or> obj = None \<Longrightarrow>
     pool_step p (p\<lparr>po_kernel := k, po_objects := (po_objects p)(x := obj)\<rparr>)"
| pool_listener_close: "po_objects p x = Some (PO_listener this) \<Longrightarrow> listener_close (po_kernel p) this = (k, l) \<Longrightarrow>
     obj = Some (PO_listener l) \<or> obj = None \<Longrightarrow>
     pool_step p (p\<lparr>po_kernel := k, po_objects := (po_objects p)(x := obj)\<rparr>)"

inductive pool_reachable :: "Pool \<Rightarrow> bool" where
  pool_start: "pool_reachable \<lparr>po_kernel = \<lparr>k_sockets = Map.empty, k_paths = paths\<rparr>, po_objects = Map.empty\<rparr>"
| pool_next: "pool_reachable p \<Longrightarrow> pool_step p q \<Longrightarrow> pool_reachable q"

text \<open>The descriptor an object holds.\<close>

fun object_fd :: "PoolObject \<Rightarrow> int" where
  "object_fd (PO_transport t) = ut_fd t"
| "object_fd (PO_listener l) = ul_fd l"

definition held :: "(nat \<Rightarrow> PoolObject option) \<Rightarrow> nat \<Rightarrow> int option" where
  "held objects x =
     (case objects x of Some t \<Rightarrow> (if object_fd t \<ge> 0 then Some (object_fd t) else None) | None \<Rightarrow> None)"

text \<open>Every open descriptor has one holder, and only open descriptors are held.\<close>

definition owned_by :: "(int \<Rightarrow> Socket option) \<Rightarrow> (nat \<Rightarrow> int option) \<Rightarrow> (int \<Rightarrow> nat) \<Rightarrow> bool" where
  "owned_by sockets h holder \<longleftrightarrow> (\<forall>x fd. h x = Some fd \<longrightarrow> sockets fd \<noteq> None \<and> holder fd = x) \<and>
     (\<forall>fd. sockets fd \<noteq> None \<longrightarrow> h (holder fd) = Some fd)"

definition owned :: "(int \<Rightarrow> Socket option) \<Rightarrow> (nat \<Rightarrow> int option) \<Rightarrow> bool" where
  "owned sockets h \<longleftrightarrow> (\<exists>holder. owned_by sockets h holder)"

lemma held_upd [simp]:
  "held (m(x \<mapsto> t)) = (held m)(x := if object_fd t \<ge> 0 then Some (object_fd t) else None)"
  "held (m(x := None)) = (held m)(x := None)"
  by (auto simp: held_def fun_eq_iff)

lemma held_at: "m x = Some t \<Longrightarrow> held m x = (if object_fd t \<ge> 0 then Some (object_fd t) else None)"
  by (simp add: held_def)

lemma held_none [simp]: "m x = None \<Longrightarrow> (held m)(x := None) = held m" "m x = None \<Longrightarrow> held m x = None"
  by (auto simp: held_def fun_eq_iff)

lemma ownedE:
  assumes "owned S h"
  obtains holder where "\<And>x fd. h x = Some fd \<Longrightarrow> S fd \<noteq> None" "\<And>x fd. h x = Some fd \<Longrightarrow> holder fd = x"
    "\<And>fd. S fd \<noteq> None \<Longrightarrow> h (holder fd) = Some fd"
  using assms that unfolding owned_def owned_by_def by blast

lemma ownedI:
  assumes "\<And>x fd. h x = Some fd \<Longrightarrow> S fd \<noteq> None \<and> holder fd = x"
    and "\<And>fd. S fd \<noteq> None \<Longrightarrow> h (holder fd) = Some fd"
  shows "owned S h"
  using assms unfolding owned_def owned_by_def by blast

lemma owned_open:
  assumes "owned S h" "h x = None" "S fd = None"
  shows "owned (S(fd \<mapsto> s)) (h(x \<mapsto> fd))"
  using assms(1)
proof (rule ownedE)
  fix holder assume H: "\<And>x fd. h x = Some fd \<Longrightarrow> S fd \<noteq> None" "\<And>x fd. h x = Some fd \<Longrightarrow> holder fd = x"
    "\<And>fd. S fd \<noteq> None \<Longrightarrow> h (holder fd) = Some fd"
  show ?thesis
  proof (rule ownedI[where holder = "holder(fd := x)"])
    fix y fd' assume "(h(x \<mapsto> fd)) y = Some fd'"
    then show "(S(fd \<mapsto> s)) fd' \<noteq> None \<and> (holder(fd := x)) fd' = y"
      using H(1,2)[of y fd'] assms(3) by (auto split: if_splits)
  next
    fix fd' assume "(S(fd \<mapsto> s)) fd' \<noteq> None"
    then show "(h(x \<mapsto> fd)) ((holder(fd := x)) fd') = Some fd'"
      using H(3)[of fd'] assms(2) by auto
  qed
qed

lemma owned_drop:
  assumes "owned S h" "h x = Some fd"
  shows "owned (S(fd := None)) (h(x := None))"
  using assms(1)
proof (rule ownedE)
  fix holder assume H: "\<And>x fd. h x = Some fd \<Longrightarrow> S fd \<noteq> None" "\<And>x fd. h x = Some fd \<Longrightarrow> holder fd = x"
    "\<And>fd. S fd \<noteq> None \<Longrightarrow> h (holder fd) = Some fd"
  show ?thesis
  proof (rule ownedI[where holder = holder])
    fix y fd' assume "(h(x := None)) y = Some fd'"
    then show "(S(fd := None)) fd' \<noteq> None \<and> holder fd' = y"
      using H(1,2)[of y fd'] H(2)[OF assms(2)] by (auto split: if_splits)
  next
    fix fd' assume "(S(fd := None)) fd' \<noteq> None"
    then show "(h(x := None)) (holder fd') = Some fd'"
      using H(3)[of fd'] assms(2) by (auto split: if_splits)
  qed
qed

lemma owned_move:
  assumes "owned S h" "h x = None" "x \<noteq> y"
  shows "owned S (h(x := h y, y := None))"
  using assms(1)
proof (rule ownedE)
  fix holder assume H: "\<And>x fd. h x = Some fd \<Longrightarrow> S fd \<noteq> None" "\<And>x fd. h x = Some fd \<Longrightarrow> holder fd = x"
    "\<And>fd. S fd \<noteq> None \<Longrightarrow> h (holder fd) = Some fd"
  let ?holder = "\<lambda>fd. if holder fd = y then x else holder fd"
  show ?thesis
  proof (rule ownedI[where holder = ?holder])
    fix z fd assume "(h(x := h y, y := None)) z = Some fd"
    then show "S fd \<noteq> None \<and> ?holder fd = z"
      using H(1,2)[of z fd] H(1,2)[of y fd] assms(3) by (auto split: if_splits)
  next
    fix fd assume "S fd \<noteq> None"
    then show "(h(x := h y, y := None)) (?holder fd) = Some fd"
      using H(3)[of fd] assms(2,3) by (auto split: if_splits)
  qed
qed

text \<open>Closing the descriptor an object holds, if it holds one.\<close>

lemma owned_close:
  assumes "owned (k_sockets k) (held m)" "m x = Some obj"
    and "k_sockets k' = (if object_fd obj \<ge> 0 then (k_sockets k)(object_fd obj := None) else k_sockets k)"
  shows "owned (k_sockets k') ((held m)(x := None))"
proof (cases "object_fd obj \<ge> 0")
  case True
  then show ?thesis using owned_drop[OF assms(1) held_at[of m x obj, OF assms(2), unfolded if_P[OF True]]] assms(3)
    by simp
next
  case False
  then have "(held m)(x := None) = held m" using assms(2) by (auto simp: held_def fun_eq_iff)
  then show ?thesis using False assms by simp
qed

lemma owned_dom:
  assumes "owned S h" "\<And>fd. S' fd = None \<longleftrightarrow> S fd = None"
  shows "owned S' h"
  using assms by (auto simp: owned_def owned_by_def)

definition pool_ok :: "Pool \<Rightarrow> bool" where
  "pool_ok p \<longleftrightarrow> owned (k_sockets (po_kernel p)) (held (po_objects p))"

lemma unix_close_sockets:
  assumes "unix_close k this = (k', t)"
  shows "k_sockets k' = (if ut_fd this \<ge> 0 then (k_sockets k)(ut_fd this := None) else k_sockets k)" "ut_fd t = -1"
  using assms by (auto simp: unix_close_def sys_close_def)

lemma listener_close_sockets:
  assumes "listener_close k this = (k', l)"
  shows "k_sockets k' = (if ul_fd this \<ge> 0 then (k_sockets k)(ul_fd this := None) else k_sockets k)" "ul_fd l = -1"
  using assms by (auto simp: listener_close_def sys_close_def sys_unlink_def Let_def)

lemma put_socket_open: "k_sockets (put_socket k fd s) fd' = None \<longleftrightarrow> k_sockets k fd' = None"
  by (auto simp: put_socket_def)

lemma pool_opened:
  assumes "pool_ok p" "po_objects p x = None" "fresh_fd (po_kernel p) (object_fd obj)"
    and "k_sockets k = (k_sockets (po_kernel p))(object_fd obj \<mapsto> s)"
  shows "pool_ok (p\<lparr>po_kernel := k, po_objects := (po_objects p)(x \<mapsto> obj)\<rparr>)"
  using assms owned_open[of "k_sockets (po_kernel p)" "held (po_objects p)" x "object_fd obj" s]
  by (simp add: pool_ok_def fresh_fd_def)

lemma pool_unchanged:
  assumes "pool_ok p" "\<And>fd. k_sockets k fd = None \<longleftrightarrow> k_sockets (po_kernel p) fd = None"
  shows "pool_ok (p\<lparr>po_kernel := k\<rparr>)" "pool_ok (p\<lparr>po_kernel := k, po_objects := po_objects p\<rparr>)"
  using assms owned_dom by (auto simp: pool_ok_def)

lemma pool_moved:
  assumes "pool_ok p" "po_objects p x = None" "po_objects p y = Some other"
    and "object_fd obj = object_fd other" "object_fd other' = -1"
  shows "pool_ok (p\<lparr>po_objects := (po_objects p)(x \<mapsto> obj, y \<mapsto> other')\<rparr>)"
proof -
  have "x \<noteq> y" using assms(2,3) by auto
  then show ?thesis
    using owned_move[of "k_sockets (po_kernel p)" "held (po_objects p)" x y] assms
      held_at[of "po_objects p" y other]
    by (simp add: pool_ok_def split: if_splits)
qed

lemma pool_closed:
  assumes "pool_ok p" "po_objects p x = Some this" "obj = None \<or> (\<exists>t. obj = Some t \<and> object_fd t = -1)"
    and "k_sockets k = (if object_fd this \<ge> 0 then (k_sockets (po_kernel p))(object_fd this := None)
      else k_sockets (po_kernel p))"
  shows "pool_ok (p\<lparr>po_kernel := k, po_objects := (po_objects p)(x := obj)\<rparr>)"
  using owned_close[OF assms(1)[unfolded pool_ok_def] assms(2,4)] assms(3) by (auto simp: pool_ok_def)

lemma pool_assigned:
  assumes "pool_ok p" "x \<noteq> y" "po_objects p x = Some this" "po_objects p y = Some other"
    and "object_fd obj = object_fd other" "object_fd other' = -1"
    and "k_sockets k = (if object_fd this \<ge> 0 then (k_sockets (po_kernel p))(object_fd this := None)
      else k_sockets (po_kernel p))"
  shows "pool_ok (p\<lparr>po_kernel := k, po_objects := (po_objects p)(x \<mapsto> obj, y \<mapsto> other')\<rparr>)"
proof -
  let ?q = "p\<lparr>po_kernel := k, po_objects := (po_objects p)(x := None)\<rparr>"
  have "pool_ok ?q" by (rule pool_closed[OF assms(1,3) _ assms(7)]) simp
  from pool_moved[OF this, of x y other obj other'] assms(2,4-6) show ?thesis by simp
qed

lemma accept_loop_cases:
  assumes "accept_loop k answers = Returns (k', r)"
  shows "(\<exists>fd s. Accept_opens fd s \<in> set answers \<and> k' = sys_open k fd s \<and> r = Inr \<lparr>ut_fd = fd\<rparr>) \<or>
    (k' = k \<and> (\<exists>e. r = Inl e))"
  using assms by (induction k answers rule: accept_loop.induct) auto

lemma pool_step_connect:
  assumes "pool_ok p" "po_objects p x = None"
    and "\<And>fd. socket_answer = Socket_opens fd \<Longrightarrow> fresh_fd (po_kernel p) fd"
    and "connect_path (po_kernel p) path socket_answer connect_answer = (k, r)"
  shows "pool_ok (p\<lparr>po_kernel := k,
    po_objects := (case r of Inr t \<Rightarrow> (po_objects p)(x \<mapsto> PO_transport t) | Inl e \<Rightarrow> po_objects p)\<rparr>)"
proof (cases r)
  case (Inr t)
  then obtain fd s where "t = \<lparr>ut_fd = fd\<rparr>" "k = sys_open (po_kernel p) fd s" "fresh_fd (po_kernel p) fd"
    using assms by (auto simp: connect_path_def split: if_splits SocketAnswer.splits ConnectAnswer.splits)
  then show ?thesis using assms(1,2) Inr by (simp add: sys_open_def pool_opened)
next
  case (Inl e)
  then have "k_sockets k fd = None \<longleftrightarrow> k_sockets (po_kernel p) fd = None" for fd
    using assms(3,4) by (auto simp: connect_path_def sys_open_def sys_close_def fresh_fd_def
        split: if_splits SocketAnswer.splits ConnectAnswer.splits)
  then show ?thesis using pool_unchanged(2)[OF assms(1)] Inl by simp
qed

lemma pool_step_bind:
  assumes "pool_ok p" "po_objects p x = None"
    and "\<And>fd. socket_answer = Socket_opens fd \<Longrightarrow> fresh_fd (po_kernel p) fd"
    and "bind_path (po_kernel p) path socket_answer bind_failure listen_failure = (k, r)"
  shows "pool_ok (p\<lparr>po_kernel := k,
    po_objects := (case r of Inr l \<Rightarrow> (po_objects p)(x \<mapsto> PO_listener l) | Inl e \<Rightarrow> po_objects p)\<rparr>)"
proof (cases r)
  case (Inr l)
  then obtain fd where "ul_fd l = fd" "k_sockets k = (k_sockets (po_kernel p))(fd \<mapsto> fresh_socket)"
      "fresh_fd (po_kernel p) fd"
    using assms by (auto simp: bind_path_def sys_open_def sys_unlink_def Let_def
        split: if_splits SocketAnswer.splits option.splits)
  then show ?thesis using assms(1,2) Inr by (simp add: pool_opened)
next
  case (Inl e)
  then have "k_sockets k fd = None \<longleftrightarrow> k_sockets (po_kernel p) fd = None" for fd
    using assms(3,4) by (auto simp: bind_path_def sys_open_def sys_close_def sys_unlink_def fresh_fd_def Let_def
        split: if_splits SocketAnswer.splits option.splits)
  then show ?thesis using pool_unchanged(2)[OF assms(1)] Inl by simp
qed

lemma pool_step_pair:
  assumes "pool_ok p" "po_objects p x = None" "po_objects p y = None" "x \<noteq> y"
    and "\<And>fd fd'. pair_answer = Inr (fd, fd') \<Longrightarrow> fresh_fd (po_kernel p) fd \<and> fresh_fd (po_kernel p) fd' \<and> fd \<noteq> fd'"
    and "pair_for_test (po_kernel p) pair_answer s s' = (k, r)"
  shows "pool_ok (p\<lparr>po_kernel := k, po_objects :=
    (case r of Inr (t, t') \<Rightarrow> (po_objects p)(x \<mapsto> PO_transport t, y \<mapsto> PO_transport t') | Inl e \<Rightarrow> po_objects p)\<rparr>)"
proof (cases pair_answer)
  case (Inl why)
  then show ?thesis using assms by (auto simp: pair_for_test_def pool_ok_def)
next
  case (Inr fds)
  obtain fd fd' where fds: "fds = (fd, fd')" by fastforce
  have fresh: "fresh_fd (po_kernel p) fd" "fresh_fd (po_kernel p) fd'" "fd \<noteq> fd'"
    using assms(5) Inr fds by auto
  let ?q = "p\<lparr>po_kernel := sys_open (po_kernel p) fd s, po_objects := (po_objects p)(x \<mapsto> PO_transport \<lparr>ut_fd = fd\<rparr>)\<rparr>"
  have one: "pool_ok ?q" using fresh(1) by (intro pool_opened[OF assms(1,2)]) (simp_all add: sys_open_def)
  have "pool_ok (?q\<lparr>po_kernel := sys_open (po_kernel ?q) fd' s',
      po_objects := (po_objects ?q)(y \<mapsto> PO_transport \<lparr>ut_fd = fd'\<rparr>)\<rparr>)"
    using fresh(2,3) assms(3,4) by (intro pool_opened[OF one]) (simp_all add: sys_open_def fresh_fd_def)
  then show ?thesis using assms(6) Inr fds by (auto simp: pair_for_test_def)
qed

lemma pool_step_accept:
  assumes "pool_ok p" "po_objects p x = None"
    and "\<And>fd s. Accept_opens fd s \<in> set answers \<Longrightarrow> fresh_fd (po_kernel p) fd"
    and "accept_one (po_kernel p) l answers = Returns (k, r)"
  shows "pool_ok (p\<lparr>po_kernel := k,
    po_objects := (case r of Inr t \<Rightarrow> (po_objects p)(x \<mapsto> PO_transport t) | Inl e \<Rightarrow> po_objects p)\<rparr>)"
proof (cases "ul_fd l < 0")
  case True
  then show ?thesis using assms by (auto simp: accept_one_def pool_ok_def)
next
  case False
  then have "accept_loop (po_kernel p) answers = Returns (k, r)" using assms(4) by (simp add: accept_one_def)
  from accept_loop_cases[OF this] show ?thesis
    using assms(1-3) by (auto simp: sys_open_def pool_opened pool_unchanged(2))
qed

lemma pool_step_ok:
  assumes "pool_step p q" "pool_ok p"
  shows "pool_ok q"
  using assms(1)
proof cases
  case (pool_default x obj)
  then show ?thesis using assms(2) by (auto simp: pool_ok_def)
next
  case (pool_adopt x fd s)
  then show ?thesis using assms(2) by (simp add: pool_opened sys_open_def unix_from_fd_def)
next
  case (pool_write x t bs k r)
  have "k_sockets k fd = None \<longleftrightarrow> k_sockets (po_kernel p) fd = None" for fd
    using pool_write(3) by (auto simp: unix_write_def Let_def put_socket_open split: if_splits run.splits prod.splits)
  then show ?thesis unfolding pool_write(1) by (rule pool_unchanged(1)[OF assms(2)])
next
  case (pool_read x t n k r')
  have "k_sockets k fd = None \<longleftrightarrow> k_sockets (po_kernel p) fd = None" for fd
    using pool_read(3) by (auto simp: read_some_def Let_def put_socket_open split: if_splits list.splits RecvAnswer.splits)
  then show ?thesis unfolding pool_read(1) by (rule pool_unchanged(1)[OF assms(2)])
next
  case (pool_move x y other t other')
  then show ?thesis using pool_moved[OF assms(2)] by (auto simp: unix_move_def)
next
  case (pool_listener_move x y other l other')
  then show ?thesis using pool_moved[OF assms(2)] by (auto simp: listener_move_def)
next
  case (pool_assign x y this other k t other')
  obtain k' c where c: "unix_close (po_kernel p) this = (k', c)" by fastforce
  have "k = k'" "ut_fd t = ut_fd other" "ut_fd other' = -1"
    using pool_assign(5) c by (auto simp: unix_move_assign_def)
  then show ?thesis unfolding pool_assign(1) using unix_close_sockets(1)[OF c] pool_assign(2-4)
    by (intro pool_assigned[OF assms(2), of x y "PO_transport this" "PO_transport other"]) simp_all
next
  case (pool_listener_assign x y this other k l other')
  obtain k' c where c: "listener_close (po_kernel p) this = (k', c)" by fastforce
  have "k = k'" "ul_fd l = ul_fd other" "ul_fd other' = -1"
    using pool_listener_assign(5) c by (auto simp: listener_move_assign_def)
  then show ?thesis unfolding pool_listener_assign(1) using listener_close_sockets(1)[OF c] pool_listener_assign(2-4)
    by (intro pool_assigned[OF assms(2), of x y "PO_listener this" "PO_listener other"]) simp_all
next
  case (pool_close x this k t obj)
  show ?thesis unfolding pool_close(1)
    by (rule pool_closed[OF assms(2) pool_close(2)])
      (use unix_close_sockets[OF pool_close(3)] pool_close(4) in auto)
next
  case (pool_listener_close x this k l obj)
  show ?thesis unfolding pool_listener_close(1)
    by (rule pool_closed[OF assms(2) pool_listener_close(2)])
      (use listener_close_sockets[OF pool_listener_close(3)] pool_listener_close(4) in auto)
qed (use assms(2) in \<open>auto intro: pool_step_connect pool_step_bind pool_step_pair pool_step_accept\<close>)

lemma pool_always_ok: "pool_reachable p \<Longrightarrow> pool_ok p"
proof (induction rule: pool_reachable.induct)
  case (pool_start paths)
  then show ?case by (simp add: pool_ok_def owned_def owned_by_def held_def)
qed (rule pool_step_ok)

text \<open>Property C34. Descriptors are neither leaked nor shared. Whatever sequence of constructions
  (empty, or over a descriptor the caller opened), connections, socket pairs, binds and accepts
  (failed ones too), writes, reads, moves, closes and destructions of transports and listeners a
  process goes through, every open descriptor is held by exactly one object and every descriptor
  an object holds is open, so no descriptor is closed twice and none stays open without an object that will
  close it.\<close>

theorem descriptors_owned_once:
  assumes "pool_reachable p"
  shows "(k_sockets (po_kernel p) fd \<noteq> None \<longleftrightarrow> (\<exists>!x. held (po_objects p) x = Some fd)) \<and>
    (held (po_objects p) x = Some fd \<longrightarrow> k_sockets (po_kernel p) fd \<noteq> None)"
  using pool_always_ok[OF assms] unfolding pool_ok_def
proof (rule ownedE)
  fix holder assume H: "\<And>x fd. held (po_objects p) x = Some fd \<Longrightarrow> k_sockets (po_kernel p) fd \<noteq> None"
    "\<And>x fd. held (po_objects p) x = Some fd \<Longrightarrow> holder fd = x"
    "\<And>fd. k_sockets (po_kernel p) fd \<noteq> None \<Longrightarrow> held (po_objects p) (holder fd) = Some fd"
  have "\<exists>!x. held (po_objects p) x = Some fd" if "k_sockets (po_kernel p) fd \<noteq> None"
  proof (rule ex1I)
    show "held (po_objects p) (holder fd) = Some fd" by (rule H(3)[OF that])
  next
    fix y assume "held (po_objects p) y = Some fd"
    then show "y = holder fd" by (simp only: H(2)[of y fd])
  qed
  moreover have "k_sockets (po_kernel p) fd \<noteq> None" if "held (po_objects p) y = Some fd" for y
    by (rule H(1)[OF that])
  ultimately show ?thesis by blast
qed

lemma empty_pool_pairs:
  "\<exists>p. pool_reachable p \<and> held (po_objects p) 0 = Some 3"
proof -
  let ?p = "\<lparr>po_kernel = \<lparr>k_sockets = Map.empty, k_paths = {}\<rparr>, po_objects = Map.empty\<rparr>"
  let ?k = "sys_open (sys_open (po_kernel ?p) 3 fresh_socket) 4 fresh_socket"
  have c: "pair_for_test (po_kernel ?p) (Inr (3, 4)) fresh_socket fresh_socket = (?k, Inr (\<lparr>ut_fd = 3\<rparr>, \<lparr>ut_fd = 4\<rparr>))"
    by (simp add: pair_for_test_def)
  note step = pool_pair[OF _ _ _ _ c, of 0 1, simplified fresh_fd_def]
  show ?thesis
    by (rule exI, rule conjI, rule pool_next[OF pool_start[of "{}"] step]) (auto simp: held_def)
qed

theorem descriptors_owned_once_witness:
  "\<exists>p. pool_reachable p \<and> k_sockets (po_kernel p) 3 \<noteq> None"
proof -
  obtain p where "pool_reachable p" "held (po_objects p) 0 = Some 3" using empty_pool_pairs by blast
  with descriptors_owned_once[of p 3 0] show ?thesis by blast
qed

section \<open>Binding\<close>

text \<open>Remark. A \<open>bind_path\<close> that fails leaves no descriptor open; when it fails after the path was
  checked and a socket obtained, whatever was at the path before is gone, and a success leaves
  the listener's path in place until the listener is closed.\<close>

theorem bind_path_exact:
  assumes "bind_path k path (Socket_opens fd) bind_failure listen_failure = (k', r)"
    and "k_sockets k fd = None"
  shows "(r = Inl e \<longrightarrow> k_sockets k' = k_sockets k \<and>
       (k_paths k' = k_paths k \<longleftrightarrow> path = [] \<or> length path \<ge> sun_path_size \<or> path \<notin> k_paths k)) \<and>
     (r = Inr l \<longrightarrow> k' = k\<lparr>k_sockets := (k_sockets k)(fd \<mapsto> fresh_socket), k_paths := insert path (k_paths k)\<rparr> \<and>
        l = \<lparr>ul_fd = fd, ul_path = path\<rparr> \<and>
        (fd \<ge> 0 \<longrightarrow> fst (listener_close k' l) = k\<lparr>k_paths := k_paths k - {path}\<rparr>))"
  using assms
  by (auto simp: bind_path_def sys_open_def sys_close_def sys_unlink_def listener_close_def fun_eq_iff
      sun_path_size_def Let_def split: if_splits option.splits)

end
