(* ===== verification/Replay_Store.thy ===== *)
theory Replay_Store
  imports Effects
begin

text \<open>
  The file boundary of the replay snapshots, \<^verbatim>\<open>src/replay/replay_store.cpp\<close>, over a map from
  paths to contents. Which file operation fails, and how much of a write reaches the file, is a
  parameter. The properties: without a failure what was saved is what is loaded and nothing else
  on the disk changes; and what is left of the previous snapshot after each kind of failure.
\<close>

type_synonym Disk = "string \<Rightarrow> string option"

text \<open>What the file system answers. \<open>ff_stored\<close> is what a write of a text leaves in the file once
  the stream is destroyed, \<open>ff_write_ok\<close> whether the stream reported the write as good before
  that. The contents of a file that can be opened are read through the stream's buffer, which
  leaves the stream's own state as \<open>ff_good\<close> and \<open>ff_eof\<close>; \<open>ff_read\<close> is what the buffer yields.\<close>

record FileFaults =
  ff_open :: bool
  ff_read :: "string \<Rightarrow> string"
  ff_good :: bool
  ff_eof :: bool
  ff_create :: bool
  ff_stored :: "string \<Rightarrow> string"
  ff_write_ok :: bool
  ff_remove :: bool
  ff_remove_temp :: bool
  ff_rename :: bool

definition no_faults :: FileFaults where
  "no_faults = \<lparr>ff_open = True, ff_read = (\<lambda>s. s), ff_good = True, ff_eof = False, ff_create = True,
     ff_stored = (\<lambda>s. s), ff_write_ok = True, ff_remove = True, ff_remove_temp = True, ff_rename = True\<rparr>"

definition store_error :: "string \<Rightarrow> Error" where
  "store_error detail = make_error ES_internal EC_resource_limit CA_none detail"

definition load_text :: "FileFaults \<Rightarrow> Disk \<Rightarrow> string \<Rightarrow> string result" where
  "load_text f disk path =
     (if \<not> ff_open f then Inl (store_error ''cannot open replay snapshot'')
      else case disk path of
        None \<Rightarrow> Inl (store_error ''cannot open replay snapshot'')
      | Some contents \<Rightarrow>
          let s = ff_read f contents
          in if \<not> ff_good f \<and> \<not> ff_eof f then Inl (store_error ''cannot read replay snapshot'')
             else Inr s)"

definition temp_path :: "string \<Rightarrow> string" where
  "temp_path path = path @ ''.tmp''"

text \<open>The clean-up after a failure calls the overload of \<open>remove\<close> that throws.\<close>

definition discard_temp :: "FileFaults \<Rightarrow> Disk \<Rightarrow> string \<Rightarrow> string \<Rightarrow> (Disk \<times> unit result) run" where
  "discard_temp f disk path detail =
     (if \<not> ff_remove_temp f then Throws ''filesystem_error''
      else Returns (disk(temp_path path := None), Inl (store_error detail)))"

definition save_text :: "FileFaults \<Rightarrow> Disk \<Rightarrow> string \<Rightarrow> string \<Rightarrow> (Disk \<times> unit result) run" where
  "save_text f disk path s =
     (if \<not> ff_create f
      then Returns (disk, Inl (store_error ''cannot create replay snapshot temp file''))
      else
        let disk1 = disk(temp_path path \<mapsto> ff_stored f s)
        in if \<not> ff_write_ok f
           then Returns (disk1, Inl (store_error ''cannot write replay snapshot temp file''))
           else if \<not> ff_remove f
           then discard_temp f disk1 path ''cannot replace existing replay snapshot''
           else
             let disk2 = disk1(path := None)
             in if \<not> ff_rename f
                then discard_temp f disk2 path ''cannot publish replay snapshot''
                else Returns (disk2(path := disk2 (temp_path path), temp_path path := None), Inr ()))"

lemma temp_path_other [simp]: "temp_path path \<noteq> path" "path \<noteq> temp_path path"
  by (auto simp: temp_path_def)

lemma published:
  "(disk(temp_path path := x, path := None, path := x, temp_path path := None)) =
     disk(path := x, temp_path path := None)"
  by auto

section \<open>Saving and loading\<close>

text \<open>Property C35. The store's contract, on every path. A save that succeeds replaces the snapshot by
  what reached the temporary file, removes the temporary file and touches no other file; a save
  that reports an error leaves the other files alone and the old snapshot in place, except when
  the final rename fails: then the old snapshot and the new text are both gone.\<close>

theorem save_exact:
  assumes "save_text f disk path s = Returns (disk', r)"
  shows "(is_ok r \<longleftrightarrow> ff_create f \<and> ff_write_ok f \<and> ff_remove f \<and> ff_rename f) \<and>
    (is_ok r \<longrightarrow> disk' = disk(path \<mapsto> ff_stored f s, temp_path path := None)) \<and>
    (\<not> is_ok r \<longrightarrow>
       disk' path = (if ff_create f \<and> ff_write_ok f \<and> ff_remove f then None else disk path) \<and>
       (ff_create f \<and> ff_write_ok f \<longrightarrow> disk' (temp_path path) = None)) \<and>
    (\<forall>other. other \<noteq> path \<and> other \<noteq> temp_path path \<longrightarrow> disk' other = disk other)"
  using assms
  by (simp add: save_text_def discard_temp_def Let_def published split: if_splits) (use published in auto)

definition rename_fails :: FileFaults where
  "rename_fails = no_faults\<lparr>ff_rename := False\<rparr>"

theorem save_exact_witness:
  "\<exists>disk'. save_text rename_fails [''s'' \<mapsto> ''old''] ''s'' ''new'' =
       Returns (disk', Inl (store_error ''cannot publish replay snapshot'')) \<and>
     disk' ''s'' = None \<and> disk' (temp_path ''s'') = None"
proof -
  let ?d = "[''s'' \<mapsto> ''old''](temp_path ''s'' := None, ''s'' := None)"
  have r: "save_text rename_fails [''s'' \<mapsto> ''old''] ''s'' ''new'' =
      Returns (?d, Inl (store_error ''cannot publish replay snapshot''))"
    by (simp add: save_text_def discard_temp_def rename_fails_def no_faults_def temp_path_def fun_eq_iff)
  from save_exact[OF r] r show ?thesis by (auto simp: rename_fails_def no_faults_def)
qed

lemma faultless_store:
  "save_text no_faults disk path s = Returns (disk(path \<mapsto> s, temp_path path := None), Inr ())"
  "load_text no_faults disk path =
     (case disk path of None \<Rightarrow> Inl (store_error ''cannot open replay snapshot'') | Some s \<Rightarrow> Inr s)"
  by (auto simp: save_text_def load_text_def no_faults_def Let_def fun_eq_iff split: option.split)

text \<open>Remark. Round trip: on a disk whose operations succeed, a saved text is loaded back, every
  other snapshot still loads as before, and saving again replaces it.\<close>

theorem store_roundtrip:
  assumes "save_text no_faults disk path s = Returns (disk', r)"
  shows "r = Inr () \<and> load_text no_faults disk' path = Inr s \<and>
    (\<forall>other. other \<noteq> path \<and> other \<noteq> temp_path path \<longrightarrow>
       load_text no_faults disk' other = load_text no_faults disk other) \<and>
    (\<forall>s'. \<exists>disk''. save_text no_faults disk' path s' = Returns (disk'', Inr ()) \<and>
       load_text no_faults disk'' path = Inr s')"
  using assms by (auto simp: faultless_store)

theorem store_roundtrip_witness:
  "\<exists>disk'. save_text no_faults Map.empty ''s'' ''LTXREPLAY/1'' = Returns (disk', Inr ()) \<and>
     load_text no_faults disk' ''s'' = Inr ''LTXREPLAY/1''"
proof -
  obtain disk' where r: "save_text no_faults Map.empty ''s'' ''LTXREPLAY/1'' = Returns (disk', Inr ())"
    by (simp add: faultless_store)
  from store_roundtrip[OF r] r show ?thesis by blast
qed

text \<open>Remark. A success is no guarantee that the text is on the disk: the stream's last flush happens
  in its destructor, whose failure is not looked at, and a truncated text is published as it
  is.\<close>

theorem lost_flush_reported_saved:
  "save_text (no_faults\<lparr>ff_stored := take n\<rparr>) disk path s =
     Returns (disk(path \<mapsto> take n s, temp_path path := None), Inr ())"
  by (simp add: save_text_def no_faults_def Let_def fun_eq_iff)

end
