(* ===== verification/Bridge_Policy.thy ===== *)
theory Bridge_Policy
  imports Route_Policy
begin

text \<open>
  The route policy the command line reads for itself, \<^verbatim>\<open>tools/lattice.cpp\<close>
  (\<open>read_bridge_policy\<close> and its field readers), and the arguments of the socket bridge. It is a
  second reader of the format of \<open>Route_Policy\<close>, with one route and other rules; the lemmas say
  on which texts the two agree.
\<close>

section \<open>The reader\<close>

record BridgePolicy =
  bp_source :: ChannelId
  bp_destination :: ChannelId
  bp_family_id :: u32
  bp_payload :: bytes

definition default_bridge_policy :: BridgePolicy where
  "default_bridge_policy =
     \<lparr>bp_source = \<lparr>cid_number = 1, cid_generation = 1\<rparr>,
      bp_destination = \<lparr>cid_number = 2, cid_generation = 1\<rparr>, bp_family_id = 7,
      bp_payload = [0x6F, 0x6B]\<rparr>"

definition tool_error :: "ErrorScope \<Rightarrow> string \<Rightarrow> Error" where
  "tool_error scope detail = make_error scope EC_resource_limit CA_none detail"

definition parse_decimal_u32 :: "string \<Rightarrow> u32 result" where
  "parse_decimal_u32 s =
     (if s = [] then Inl (tool_error ES_connection ''policy integer is empty'')
      else map_sum id of_nat
        (decimal_loop u32_over (tool_error ES_connection ''policy integer is not decimal'')
           (tool_error ES_connection ''policy integer overflows u32'') 0 s))"

definition parse_channel_id :: "string \<Rightarrow> ChannelId result" where
  "parse_channel_id s =
     (case cut_at (CHR '':'') (unquote s) of
        None \<Rightarrow> Inl (tool_error ES_channel ''policy channel must use number:generation'')
      | Some (number_text, generation_text) \<Rightarrow>
          (case parse_decimal_u32 number_text of
             Inl e \<Rightarrow> Inl e
           | Inr number \<Rightarrow>
               (case parse_decimal_u32 generation_text of
                  Inl e \<Rightarrow> Inl e
                | Inr generation \<Rightarrow>
                    if generation > 0xFF
                    then Inl (tool_error ES_channel ''policy channel generation exceeds u8'')
                    else Inr \<lparr>cid_number = number, cid_generation = ucast generation\<rparr>)))"

definition parse_hex_bytes :: "string \<Rightarrow> bytes result" where
  "parse_hex_bytes s =
     (let t = unquote s
      in if length t mod 2 \<noteq> 0
         then Inl (tool_error ES_message ''policy payload hex has odd length'')
         else hex_loop (tool_error ES_message ''policy payload contains non-hex byte'') [] t)"

definition bridge_policy_key :: "BridgePolicy \<Rightarrow> string \<Rightarrow> string \<Rightarrow> BridgePolicy result" where
  "bridge_policy_key policy key val =
     (if key = ''source'' then
        (case parse_channel_id val of Inl e \<Rightarrow> Inl e | Inr ch \<Rightarrow> Inr (policy\<lparr>bp_source := ch\<rparr>))
      else if key = ''destination'' then
        (case parse_channel_id val of Inl e \<Rightarrow> Inl e | Inr ch \<Rightarrow> Inr (policy\<lparr>bp_destination := ch\<rparr>))
      else if key = ''family'' then
        (case parse_decimal_u32 (unquote val) of
           Inl e \<Rightarrow> Inl e | Inr family \<Rightarrow> Inr (policy\<lparr>bp_family_id := family\<rparr>))
      else if key = ''payload_hex'' then
        (case parse_hex_bytes val of Inl e \<Rightarrow> Inl e | Inr bs \<Rightarrow> Inr (policy\<lparr>bp_payload := bs\<rparr>))
      else Inl (tool_error ES_connection ''unknown bridge policy key''))"

definition bridge_policy_line :: "BridgePolicy \<Rightarrow> string \<Rightarrow> BridgePolicy result" where
  "bridge_policy_line policy raw =
     (let line = strip_line raw
      in if line = [] \<or> line = ''[route]'' then Inr policy
         else
           (case cut_at (CHR ''='') line of
              None \<Rightarrow> Inl (tool_error ES_connection ''malformed bridge policy line'')
            | Some (key, val) \<Rightarrow> bridge_policy_key policy (trim key) (trim val)))"

fun bridge_policy_lines :: "BridgePolicy \<Rightarrow> string list \<Rightarrow> BridgePolicy result" where
  "bridge_policy_lines policy [] = Inr policy"
| "bridge_policy_lines policy (raw # lines) =
     (case bridge_policy_line policy raw of
        Inl e \<Rightarrow> Inl e
      | Inr policy' \<Rightarrow> bridge_policy_lines policy' lines)"

definition read_bridge_policy :: "(string \<Rightarrow> string option) \<Rightarrow> string \<Rightarrow> BridgePolicy result" where
  "read_bridge_policy read_file path =
     (case read_file path of
        None \<Rightarrow> Inl (tool_error ES_connection ''cannot open bridge policy file'')
      | Some s \<Rightarrow> bridge_policy_lines default_bridge_policy (getlines s))"

section \<open>The arguments of the socket bridge\<close>

record UnixBridgeArgs =
  ub_left :: string
  ub_right :: string
  ub_policy :: string

fun unix_arg_loop :: "UnixBridgeArgs \<Rightarrow> string list \<Rightarrow> UnixBridgeArgs option" where
  "unix_arg_loop args (key # val # rest) =
     (if key = ''--left'' then unix_arg_loop (args\<lparr>ub_left := val\<rparr>) rest
      else if key = ''--right'' then unix_arg_loop (args\<lparr>ub_right := val\<rparr>) rest
      else if key = ''--policy'' then unix_arg_loop (args\<lparr>ub_policy := val\<rparr>) rest
      else None)"
| "unix_arg_loop args _ = Some args"

definition parse_unix_bridge_args :: "string list \<Rightarrow> UnixBridgeArgs option" where
  "parse_unix_bridge_args argv =
     (case unix_arg_loop \<lparr>ub_left = [], ub_right = [], ub_policy = []\<rparr> (drop 2 argv) of
        None \<Rightarrow> None
      | Some args \<Rightarrow>
          if length argv mod 2 \<noteq> 0 \<or> ub_left args = [] \<or> ub_right args = [] \<or> ub_policy args = []
          then None else Some args)"

section \<open>Texts both readers accept\<close>

lemma tool_u32_decimal: "parse_decimal_u32 (decimal (unat w)) = Inr w"
proof -
  have "unat w \<le> 2 ^ 32 - 1" using unat_u32_less[of w] by simp
  then show ?thesis by (simp add: parse_decimal_u32_def u32_text.loop_decimal)
qed

lemma tool_channel_str: "parse_channel_id (channel_str ch) = Inr ch"
proof -
  have gen: "unat (cid_generation ch) = unat (ucast (cid_generation ch) :: u32)"
    using unat_u8_less[of "cid_generation ch"] by (simp add: unsigned_ucast_eq take_bit_nat_eq_self)
  have "parse_decimal_u32 (decimal (unat (cid_generation ch))) = Inr (ucast (cid_generation ch))"
    unfolding gen by (rule tool_u32_decimal)
  moreover have "\<not> (ucast (cid_generation ch) :: u32) > 0xFF"
    using unat_u8_less[of "cid_generation ch"] by (simp add: word_less_nat_alt gen[symmetric])
  moreover have "ucast (ucast (cid_generation ch) :: u32) = cid_generation ch"
    by (rule bit_word_eqI) (simp add: bit_simps)
  ultimately show ?thesis
    by (simp add: parse_channel_id_def unquote_solid[OF solid_channel] channel_str_cut tool_u32_decimal)
qed

lemma tool_hex: "parse_hex_bytes (hex bs) = Inr bs"
  by (simp add: parse_hex_bytes_def unquote_solid[OF solid_hex] hex_loop_hex)

lemma bridge_key_line:
  "list_all solid key \<Longrightarrow> key \<noteq> [] \<Longrightarrow> list_all solid val \<Longrightarrow> val \<noteq> [] \<Longrightarrow>
     bridge_policy_line policy (key_line key val) = bridge_policy_key policy key val"
  using key_line_stripped[of key val] solid_value[of val] by (simp add: bridge_policy_line_def Let_def)

lemma bridge_section_line: "bridge_policy_line policy ''[route]'' = Inr policy"
  by (simp add: bridge_policy_line_def strip_line_def trim_def is_space_def less_eq_char_def)

lemma bridge_reads_route:
  assumes "readable r" "rp_name r = []"
  shows "bridge_policy_lines policy (route_lines r @ lines) =
    bridge_policy_lines \<lparr>bp_source = rp_source r, bp_destination = rp_destination r,
      bp_family_id = rp_family_id r, bp_payload = rp_payload r\<rparr> lines"
proof -
  have "rp_payload r \<noteq> []" using assms(1) by (simp add: readable_def)
  then show ?thesis using assms(2) by (cases policy)
   (    simp add: route_lines_def bridge_section_line bridge_policy_key_def tool_channel_str tool_hex
        tool_u32_decimal unquote_solid[OF solid_decimal]
        bridge_key_line[OF solid_keys(2) _ solid_channel] bridge_key_line[OF solid_keys(3) _ solid_channel]
        bridge_key_line[OF solid_keys(4) _ solid_decimal] bridge_key_line[OF solid_keys(5) _ solid_hex])
qed

lemma named_route_refused:
  assumes "readable r" "rp_name r \<noteq> []"
  shows "bridge_policy_lines policy (route_lines r @ lines) =
    Inl (tool_error ES_connection ''unknown bridge policy key'')"
proof -
  let ?val = "quoted (rp_name r)"
  have "?val \<noteq> []" "\<not> is_space (last ?val)" "CHR ''#'' \<notin> set ?val"
    using assms(1) by (simp_all add: quoted_def readable_def is_space_def less_eq_char_def)
  note line = key_line_stripped[OF _ solid_keys(1) this]
  have "bridge_policy_line policy (key_line ''name'' ?val) = bridge_policy_key policy ''name'' ?val"
    by (simp add: bridge_policy_line_def Let_def line trim_quoted)
  then show ?thesis using assms(2)
    by (simp add: route_lines_def bridge_section_line bridge_policy_key_def)
qed

definition bridge_of :: "RoutePolicyEntry \<Rightarrow> BridgePolicy" where
  "bridge_of r = \<lparr>bp_source = rp_source r, bp_destination = rp_destination r,
     bp_family_id = rp_family_id r, bp_payload = rp_payload r\<rparr>"

lemma bridge_reads_routes:
  "list_all readable routes \<Longrightarrow>
     bridge_policy_lines policy (concat (map route_lines routes)) =
       (if \<exists>r \<in> set routes. rp_name r \<noteq> []
        then Inl (tool_error ES_connection ''unknown bridge policy key'')
        else Inr (if routes = [] then policy else bridge_of (last routes)))"
proof (induction routes arbitrary: policy)
  case (Cons r routes)
  then show ?case
    by (cases "rp_name r = []") (simp_all add: bridge_reads_route named_route_refused bridge_of_def)
qed simp

text \<open>Remark. The two readers of a route policy. On the canonical text of a policy that the
  library writes and reads back, the command line's reader takes the last route and drops the
  others; and it takes nothing when any route is named, because it does not know the key the
  library's text gives a name under.\<close>

theorem bridge_policy_takes_last:
  assumes "serialize_route_policy document = Inr s" "list_all readable (rd_routes document)"
    and "read_file path = Some s"
  shows "parse_route_policy_file read_file path = Inr document \<and>
    read_bridge_policy read_file path =
      (if \<exists>r \<in> set (rd_routes document). rp_name r \<noteq> []
       then Inl (tool_error ES_connection ''unknown bridge policy key'')
       else Inr (bridge_of (last (rd_routes document))))"
proof -
  have v: "validation_ok (validate_route_policy document)" "s = concat (map route_text (rd_routes document))"
    using assms(1) by (auto simp: serialize_route_policy_def Let_def split: if_splits)
  have "storable_policy document" using v(1) assms(2) by (simp add: storable_policy_def)
  then have "parse_route_policy_text s = Inr document"
    unfolding v(2) by (rule policy_reads_back(2))
  moreover have "bridge_policy_lines default_bridge_policy (getlines s) =
      (if \<exists>r \<in> set (rd_routes document). rp_name r \<noteq> []
       then Inl (tool_error ES_connection ''unknown bridge policy key'')
       else Inr (bridge_of (last (rd_routes document))))"
    using bridge_reads_routes[OF assms(2)] validation_nonempty[OF v(1)]
    by (simp add: v(2) getlines_policy[OF assms(2)])
  ultimately show ?thesis
    using assms(3) by (simp add: parse_route_policy_file_def read_bridge_policy_def)
qed

definition two_routes :: RoutePolicyDocument where
  "two_routes = \<lparr>rd_routes =
     [\<lparr>rp_name = [], rp_source = \<lparr>cid_number = 1, cid_generation = 1\<rparr>,
       rp_destination = \<lparr>cid_number = 2, cid_generation = 1\<rparr>, rp_family_id = 7, rp_payload = [0x6F]\<rparr>,
      \<lparr>rp_name = [], rp_source = \<lparr>cid_number = 3, cid_generation = 1\<rparr>,
       rp_destination = \<lparr>cid_number = 4, cid_generation = 1\<rparr>, rp_family_id = 7, rp_payload = [0x6B]\<rparr>]\<rparr>"

lemma two_routes_storable: "storable_policy two_routes"
  by (simp add: storable_policy_def two_routes_def validation_ok_def validate_route_policy_def
      route_diagnostics_def is_control_def emplace_def channel_str_injective readable_def)

theorem bridge_policy_takes_last_witness:
  "read_bridge_policy [''p'' \<mapsto> concat (map route_text (rd_routes two_routes))] ''p'' =
     Inr \<lparr>bp_source = \<lparr>cid_number = 3, cid_generation = 1\<rparr>,
       bp_destination = \<lparr>cid_number = 4, cid_generation = 1\<rparr>, bp_family_id = 7, bp_payload = [0x6B]\<rparr>"
proof -
  have "list_all readable (rd_routes two_routes)" using two_routes_storable by (simp add: storable_policy_def)
  from bridge_policy_takes_last[OF policy_reads_back(1)[OF two_routes_storable] this,
      of "[''p'' \<mapsto> concat (map route_text (rd_routes two_routes))]" "''p''"]
  show ?thesis by (simp add: two_routes_def bridge_of_def)
qed

end
