(* ===== verification/Socket_Bridge.thy ===== *)
theory Socket_Bridge
  imports Unix_Socket Replay_Store Bridge_Policy
begin

text \<open>
  The socket side of the command line, \<^verbatim>\<open>tools/lattice.cpp\<close>: negotiation over a transport
  (\<open>negotiate_unix_peer\<close>), the pump of the socket bridge (\<open>read_bridge_side\<close>,
  \<open>forward_new_events\<close>, \<open>run_unix_bridge_loop\<close>) over the engines, the gateway and the kernel of
  \<open>Unix_Socket\<close>. The loops wait for the kernel: they recurse over its answers, and are \<open>Blocks\<close>
  when these have run out. The properties: negotiation does not depend on how the peer's bytes
  are cut, and the pump ends only with an error and forwards each delivery once.
\<close>

section \<open>Negotiation over a socket\<close>

text \<open>\<open>kDefaultMaxFrame\<close>.\<close>

definition kDefaultMaxFrame :: nat where "kDefaultMaxFrame = 64 * 1024"

fun write_all :: "Kernel \<Rightarrow> UnixTransport \<Rightarrow> bytes list \<Rightarrow> (Kernel \<times> unit result) run" where
  "write_all k t [] = Returns (k, Inr ())"
| "write_all k t (chunk # chunks) = and_then (unix_write k t chunk) (\<lambda>k' _. write_all k' t chunks)"

text \<open>One turn of the loop: read, receive, write what the engine produced.\<close>

definition pump :: "Kernel \<Rightarrow> UnixTransport \<Rightarrow> ConnectionEngine \<Rightarrow> string \<Rightarrow>
   ((Kernel \<times> ConnectionEngine) \<times> unit result) run" where
  "pump k t e closed =
     (case read_some k t kDefaultMaxFrame of
        Blocks \<Rightarrow> Blocks
      | Throws what \<Rightarrow> Throws what
      | Returns (k1, Inl err) \<Rightarrow> Returns ((k1, e), Inl err)
      | Returns (k1, Inr bs) \<Rightarrow>
          if bs = []
          then Returns ((k1, e), Inl (make_error ES_transport EC_transport_error CA_close_connection closed))
          else
            (case receive e bs False of
               (e', Inl err) \<Rightarrow> Returns ((k1, e'), Inl err)
             | (e', Inr produced) \<Rightarrow>
                 (case write_all k1 t produced of
                    Returns (k2, r) \<Rightarrow> Returns ((k2, e'), r)
                  | Throws what \<Rightarrow> Throws what
                  | Blocks \<Rightarrow> Blocks)))"

text \<open>The fuel is the number of turns: every turn takes an answer of the kernel, or a buffer's worth
  of a longer one, so as many turns as the socket has answers and bytes are never too few.\<close>

fun negotiate_turns :: "nat \<Rightarrow> Kernel \<Rightarrow> UnixTransport \<Rightarrow> ConnectionEngine \<Rightarrow>
   ((Kernel \<times> ConnectionEngine) \<times> unit result) run" where
  "negotiate_turns fuel k t e =
     (if ce_state e \<noteq> CS_negotiating then Returns ((k, e), Inr ())
      else case fuel of
        0 \<Rightarrow> Blocks
      | Suc fuel' \<Rightarrow>
          and_then (pump k t e ''peer closed before HELLO negotiation completed'')
            (\<lambda>(k', e') _. negotiate_turns fuel' k' t e'))"

declare negotiate_turns.simps [simp del]

definition recv_budget :: "Socket \<Rightarrow> nat" where
  "recv_budget s = sum_list (map (\<lambda>a. case a of Recv_bytes bs \<Rightarrow> 1 + length bs | _ \<Rightarrow> 1) (so_recvs s))"

definition negotiate_unix_peer :: "Kernel \<Rightarrow> UnixTransport \<Rightarrow> ConnectionEngine \<Rightarrow>
   ((Kernel \<times> ConnectionEngine) \<times> unit result) run" where
  "negotiate_unix_peer k t e =
     (case start e of
        (e', Inl err) \<Rightarrow> Returns ((k, e'), Inl err)
      | (e', Inr hello) \<Rightarrow>
          (case write_all k t hello of
             Returns (k', Inl err) \<Rightarrow> Returns ((k', e'), Inl err)
           | Returns (k', Inr _) \<Rightarrow> negotiate_turns (recv_budget (socket_of k' (ut_fd t)) + 1) k' t e'
           | Throws what \<Rightarrow> Throws what
           | Blocks \<Rightarrow> Blocks))"

section \<open>The bridge pump\<close>

text \<open>The loop of \<open>forward_new_events\<close> over the events from the cursor on. Reading the capabilities
  of an engine that has none throws.\<close>

fun forward_events :: "CapabilitySet option \<Rightarrow> Kernel \<Rightarrow> ConnectionEngine \<Rightarrow> UnixTransport \<Rightarrow> Gateway \<Rightarrow>
   nat \<Rightarrow> ConnectionEvent list \<Rightarrow> ((Kernel \<times> ConnectionEngine \<times> nat) \<times> unit result) run" where
  "forward_events from_caps k to t gw cursor [] = Returns ((k, to, cursor), Inr ())"
| "forward_events from_caps k to t gw cursor (event # events) =
     (if ev_kind event \<noteq> EK_message_delivered then forward_events from_caps k to t gw (cursor + 1) events
      else if \<not> is_ok (find_route gw (ev_channel event))
      then forward_events from_caps k to t gw (cursor + 1) events
      else
        (case (from_caps, ce_capabilities to) of
           (Some source, Some dest) \<Rightarrow>
             (case bridge_to_connection gw source dest to (ev_channel event) (ev_payload event) of
                (to', Inl err) \<Rightarrow> Returns ((k, to', cursor + 1), Inl err)
              | (to', Inr out) \<Rightarrow>
                  (case write_all k t out of
                     Returns (k', Inl err) \<Rightarrow> Returns ((k', to', cursor + 1), Inl err)
                   | Returns (k', Inr _) \<Rightarrow> forward_events from_caps k' to' t gw (cursor + 1) events
                   | Throws what \<Rightarrow> Throws what
                   | Blocks \<Rightarrow> Blocks))
         | _ \<Rightarrow> Throws ''bad_optional_access''))"

definition forward_new_events :: "ConnectionEngine \<Rightarrow> Kernel \<Rightarrow> ConnectionEngine \<Rightarrow> UnixTransport \<Rightarrow> Gateway \<Rightarrow>
   nat \<Rightarrow> ((Kernel \<times> ConnectionEngine \<times> nat) \<times> unit result) run" where
  "forward_new_events from k to t gw cursor =
     forward_events (ce_capabilities from) k to t gw cursor (drop cursor (ce_events from))"

definition read_bridge_side :: "Kernel \<Rightarrow> UnixTransport \<Rightarrow> ConnectionEngine \<Rightarrow> UnixTransport \<Rightarrow>
   ConnectionEngine \<Rightarrow> Gateway \<Rightarrow> nat \<Rightarrow>
   ((Kernel \<times> ConnectionEngine \<times> ConnectionEngine \<times> nat) \<times> unit result) run" where
  "read_bridge_side k from_transport from to_transport to gw cursor =
     (case pump k from_transport from ''bridge peer closed'' of
        Blocks \<Rightarrow> Blocks
      | Throws what \<Rightarrow> Throws what
      | Returns ((k', from'), Inl err) \<Rightarrow> Returns ((k', from', to, cursor), Inl err)
      | Returns ((k', from'), Inr _) \<Rightarrow>
          (case forward_new_events from' k' to to_transport gw cursor of
             Blocks \<Rightarrow> Blocks
           | Throws what \<Rightarrow> Throws what
           | Returns ((k'', to', cursor'), r) \<Rightarrow> Returns ((k'', from', to', cursor'), r)))"

record BridgeRuntime =
  br_left :: ConnectionEngine
  br_right :: ConnectionEngine
  br_left_transport :: UnixTransport
  br_right_transport :: UnixTransport
  br_gateway :: Gateway
  br_left_events :: nat
  br_right_events :: nat

definition read_left :: "Kernel \<Rightarrow> BridgeRuntime \<Rightarrow> ((Kernel \<times> BridgeRuntime) \<times> unit result) run" where
  "read_left k b =
     (case read_bridge_side k (br_left_transport b) (br_left b) (br_right_transport b) (br_right b)
             (br_gateway b) (br_left_events b) of
        Blocks \<Rightarrow> Blocks
      | Throws what \<Rightarrow> Throws what
      | Returns ((k', left, right, cursor), r) \<Rightarrow>
          Returns ((k', b\<lparr>br_left := left, br_right := right, br_left_events := cursor\<rparr>), r))"

definition read_right :: "Kernel \<Rightarrow> BridgeRuntime \<Rightarrow> ((Kernel \<times> BridgeRuntime) \<times> unit result) run" where
  "read_right k b =
     (case read_bridge_side k (br_right_transport b) (br_right b) (br_left_transport b) (br_left b)
             (br_gateway b) (br_right_events b) of
        Blocks \<Rightarrow> Blocks
      | Throws what \<Rightarrow> Throws what
      | Returns ((k', right, left, cursor), r) \<Rightarrow>
          Returns ((k', b\<lparr>br_left := left, br_right := right, br_right_events := cursor\<rparr>), r))"

text \<open>What \<open>select\<close> answers: which of the two descriptors is readable.\<close>

datatype SelectAnswer = Select_ready bool bool | Select_interrupted | Select_fails

definition bridge_error :: "string \<Rightarrow> Error" where
  "bridge_error detail = make_error ES_transport EC_transport_error CA_close_connection detail"

fun run_unix_bridge_loop :: "SelectAnswer list \<Rightarrow> Kernel \<Rightarrow> BridgeRuntime \<Rightarrow>
   ((Kernel \<times> BridgeRuntime) \<times> unit result) run" where
  "run_unix_bridge_loop answers k b =
     (if ut_fd (br_left_transport b) < 0 \<or> ut_fd (br_right_transport b) < 0
      then Returns ((k, b), Inl (bridge_error ''bridge transport closed''))
      else case answers of
        [] \<Rightarrow> Blocks
      | Select_interrupted # answers' \<Rightarrow> run_unix_bridge_loop answers' k b
      | Select_fails # answers' \<Rightarrow> Returns ((k, b), Inl (bridge_error ''bridge select failed''))
      | Select_ready left right # answers' \<Rightarrow>
          and_then (if left then read_left k b else Returns ((k, b), Inr ()))
            (\<lambda>(k', b') _.
               and_then (if right then read_right k' b' else Returns ((k', b'), Inr ()))
                 (\<lambda>(k'', b'') _. run_unix_bridge_loop answers' k'' b'')))"

declare run_unix_bridge_loop.simps [simp del]

section \<open>Writing chunks\<close>

lemma unix_write_success:
  assumes "k_sockets k (ut_fd t) = Some s" "ut_fd t \<ge> 0" "unix_write k t bs = Returns (k', Inr ())"
  shows "\<exists>answers. k_sockets k' =
    (k_sockets k)(ut_fd t \<mapsto> s\<lparr>so_sends := answers, so_wire := so_wire s @ bs\<rparr>)"
proof -
  obtain answers wire where l: "unix_send_loop (so_sends s) bs 0 (so_wire s) = Returns ((answers, wire), Inr ())"
    and k: "k' = put_socket k (ut_fd t) (s\<lparr>so_sends := answers, so_wire := wire\<rparr>)"
    using assms(3) by (auto simp: unix_write_open[OF assms(1,2)] split: run.splits prod.splits)
  show ?thesis using unix_send_loop_bytes[OF l] assms(1) by (auto simp: k)
qed

lemma write_all_success:
  assumes "k_sockets k (ut_fd t) = Some s" "ut_fd t \<ge> 0" "write_all k t chunks = Returns (k', Inr ())"
  shows "\<exists>answers. k_sockets k' =
    (k_sockets k)(ut_fd t \<mapsto> s\<lparr>so_sends := answers, so_wire := so_wire s @ concat chunks\<rparr>)"
  using assms
proof (induction chunks arbitrary: k s)
  case Nil
  then show ?case by (intro exI[of _ "so_sends s"]) auto
next
  case (Cons chunk chunks)
  then obtain k1 where w: "unix_write k t chunk = Returns (k1, Inr ())" "write_all k1 t chunks = Returns (k', Inr ())"
    by (auto simp: and_then_ok)
  obtain answers where k1: "k_sockets k1 =
      (k_sockets k)(ut_fd t \<mapsto> s\<lparr>so_sends := answers, so_wire := so_wire s @ chunk\<rparr>)"
    using unix_write_success[OF Cons.prems(1,2) w(1)] by blast
  then have "k_sockets k1 (ut_fd t) = Some (s\<lparr>so_sends := answers, so_wire := so_wire s @ chunk\<rparr>)" by simp
  from Cons.IH[OF this Cons.prems(2) w(2)] show ?case unfolding k1 by (simp add: fun_upd_upd del: fun_upd_apply)
qed

text \<open>The fuel is never too little: more of it than the socket holds gives the same outcome, since a
  turn that succeeds uses up an answer or a part of one.\<close>

lemma pump_budget:
  assumes "pump k t e closed = Returns ((k', e'), Inr u)"
  shows "recv_budget (socket_of k' (ut_fd t)) < recv_budget (socket_of k (ut_fd t))"
proof -
  obtain k1 bs produced where r: "read_some k t kDefaultMaxFrame = Returns (k1, Inr bs)" "bs \<noteq> []"
    and w: "write_all k1 t produced = Returns (k', Inr ())"
    using assms by (auto simp: pump_def split: run.splits prod.splits sum.splits if_splits)
  then obtain s answers' all where s: "k_sockets k (ut_fd t) = Some s" "ut_fd t \<ge> 0"
    and recvs: "so_recvs s = Recv_bytes all # answers'" "all \<noteq> []"
    and k1: "k1 = put_socket k (ut_fd t) (s\<lparr>so_recvs := (if length all \<le> kDefaultMaxFrame then answers'
        else Recv_bytes (drop kDefaultMaxFrame all) # answers')\<rparr>)"
    by (auto simp: read_some_def socket_of_def Let_def split: if_splits option.splits list.splits RecvAnswer.splits)
  let ?s = "s\<lparr>so_recvs := (if length all \<le> kDefaultMaxFrame then answers'
        else Recv_bytes (drop kDefaultMaxFrame all) # answers')\<rparr>"
  have "k_sockets k1 (ut_fd t) = Some ?s" using s by (simp add: k1)
  from write_all_success[OF this s(2) w] have "so_recvs (socket_of k' (ut_fd t)) = so_recvs ?s"
    by (auto simp: socket_of_def)
  moreover define f where "f = (\<lambda>a. case a of Recv_bytes bs \<Rightarrow> 1 + length bs | _ \<Rightarrow> 1)"
  then have "recv_budget x = sum_list (map f (so_recvs x))" "f (Recv_bytes bs) = 1 + length bs" for x bs
    by (simp_all add: recv_budget_def)
  ultimately show ?thesis using s recvs by (simp add: socket_of_def kDefaultMaxFrame_def)
qed

lemma negotiate_fuel_enough:
  assumes "recv_budget (socket_of k (ut_fd t)) < m" "recv_budget (socket_of k (ut_fd t)) < n"
  shows "negotiate_turns m k t e = negotiate_turns n k t e"
  using assms
proof (induction m arbitrary: n k e)
  case (Suc m)
  then obtain n' where n: "n = Suc n'" by (cases n) auto
  have "negotiate_turns m k' t e' = negotiate_turns n' k' t e'"
    if "pump k t e ''peer closed before HELLO negotiation completed'' = Returns ((k', e'), Inr u)" for k' e' u
    using Suc.IH[of k' n' e'] Suc.prems pump_budget[OF that] n by simp
  then show ?case
    unfolding n by (subst (1 2) negotiate_turns.simps) (auto simp: and_then_def split: run.split prod.split sum.split)
qed simp

section \<open>Receiving a HELLO in pieces\<close>

text \<open>An engine whose codec has read a part of a frame.\<close>

definition with_buffer :: "ConnectionEngine \<Rightarrow> bytes \<Rightarrow> ConnectionEngine" where
  "with_buffer e r = e\<lparr>ce_codec := (ce_codec e)\<lparr>fc_buffer := r\<rparr>\<rparr>"

lemma with_buffer_simps [simp]:
  "with_buffer (with_buffer e r) r' = with_buffer e r'"
  "ce_state (with_buffer e r) = ce_state e"
  "ce_codec (with_buffer e r) = (ce_codec e)\<lparr>fc_buffer := r\<rparr>"
  by (simp_all add: with_buffer_def)

lemma with_buffer_same: "fc_buffer (ce_codec e) = r \<Longrightarrow> with_buffer e r = e"
  by (cases e) (auto simp: with_buffer_def)

lemma strict_prefix_waits:
  assumes "decode_one limits False (r @ rest) = Step_frame f (length (r @ rest))" "rest \<noteq> []"
  shows "decode_one limits False r = Step_need_more"
proof (rule ccontr)
  assume wait: "decode_one limits False r \<noteq> Step_need_more"
  then have "decode_one limits False r = Step_frame f (length (r @ rest))"
    using decode_one_stable[OF wait, of False rest] assms(1) by simp
  then show False using decode_one_progress[of limits False r f] assms(2) by fastforce
qed

lemma receive_part:
  assumes "fc_limits (ce_codec e) = limits" "decode_one limits False (r @ c) = Step_need_more"
  shows "receive (with_buffer e r) c False = (with_buffer e (r @ c), Inr [])"
proof -
  have "ltx.runs limits (r @ c) [] (Pending (r @ c))" using assms(2) by (rule ltx.runs_wait)
  from feed_runs[OF this]
  have "feed (ce_codec (with_buffer e r)) c False = (\<lparr>fc_limits = limits, fc_buffer = r @ c\<rparr>, [DE_need_more])"
    using assms(1) by (cases "ce_codec e") simp
  moreover have "\<lparr>fc_limits = limits, fc_buffer = r @ c\<rparr> = (ce_codec e)\<lparr>fc_buffer := r @ c\<rparr>"
    using assms(1) by (cases "ce_codec e") simp
  ultimately show ?thesis by (simp add: receive_def with_buffer_def)
qed

lemma receive_last:
  assumes "fc_limits (ce_codec e) = limits" "decode_one limits False (r @ c) = Step_frame f (length (r @ c))"
  shows "receive (with_buffer e r) c False = handle_frames (with_buffer e []) [f]"
proof -
  have "ltx.runs limits (r @ c) [f] (Pending [])"
    using assms(2) by (intro ltx.runs_item[where n = "length (r @ c)"]) (simp_all add: ltx.runs_empty)
  from feed_runs[OF this]
  have "feed (ce_codec (with_buffer e r)) c False = ((ce_codec e)\<lparr>fc_buffer := []\<rparr>, map DE_frame [f])"
    using assms(1) by (cases "ce_codec e") simp
  then show ?thesis
    using receive_loop_frames[of "with_buffer e []" "[f]" "[]"]
    by (simp add: receive_def with_buffer_def split: prod.split sum.split)
qed

fun discard :: "'a result \<Rightarrow> unit result" where
  "discard (Inl err) = Inl err"
| "discard (Inr _) = Inr ()"

lemma is_ok_discard [simp]: "is_ok (discard r) = is_ok r"
  by (cases r) simp_all

lemma read_chunk:
  assumes "k_sockets k (ut_fd t) = Some s" "ut_fd t \<ge> 0" "so_recvs s = Recv_bytes c # later"
    and "length c \<le> m"
  shows "read_some k t m = Returns (put_socket k (ut_fd t) (s\<lparr>so_recvs := later\<rparr>), Inr c)"
  using assms by (simp add: read_some_def)

lemma pump_chunk:
  assumes "k_sockets k (ut_fd t) = Some s" "ut_fd t \<ge> 0" "so_recvs s = Recv_bytes c # later"
    and "length c \<le> kDefaultMaxFrame" "c \<noteq> []" "receive e c False = (e', r)" "r = Inl err \<or> r = Inr []"
  shows "pump k t e closed = Returns ((put_socket k (ut_fd t) (s\<lparr>so_recvs := later\<rparr>), e'), discard r)"
  using read_chunk[OF assms(1-4)] assms(5-7) by (auto simp: pump_def)

lemma negotiate_pieces:
  assumes "fc_limits (ce_codec e) = limits" "ce_state e = CS_negotiating" "ut_fd t \<ge> 0"
    and "handle_frames (with_buffer e []) [f] = (e', res)"
    and "res = Inr [] \<and> ce_state e' \<noteq> CS_negotiating \<or> res = Inl err"
  shows "decode_one limits False (r @ concat chunks) = Step_frame f (length (r @ concat chunks)) \<Longrightarrow>
     chunks \<noteq> [] \<Longrightarrow> [] \<notin> set chunks \<Longrightarrow> list_all (\<lambda>c. length c \<le> kDefaultMaxFrame) chunks \<Longrightarrow>
     k_sockets k (ut_fd t) = Some s \<Longrightarrow> so_recvs s = map Recv_bytes chunks @ later \<Longrightarrow>
     length chunks < fuel \<Longrightarrow>
     \<exists>k'. negotiate_turns fuel k t (with_buffer e r) = Returns ((k', e'), discard res) \<and>
       k_sockets k' = (k_sockets k)(ut_fd t \<mapsto> s\<lparr>so_recvs := later\<rparr>)"
proof (induction chunks arbitrary: k s r fuel)
  case (Cons c cs)
  obtain fuel' where fuel: "fuel = Suc fuel'" "length cs < fuel'" using Cons.prems(7) by (cases fuel) auto
  have c: "c \<noteq> []" "length c \<le> kDefaultMaxFrame" using Cons.prems(3,4) by auto
  have recvs: "so_recvs s = Recv_bytes c # (map Recv_bytes cs @ later)" using Cons.prems(6) by simp
  let ?s = "s\<lparr>so_recvs := map Recv_bytes cs @ later\<rparr>"
  let ?k = "put_socket k (ut_fd t) ?s"
  have step: "negotiate_turns fuel k t (with_buffer e r) =
      and_then (pump k t (with_buffer e r) ''peer closed before HELLO negotiation completed'')
        (\<lambda>(k', e') _. negotiate_turns fuel' k' t e')"
    by (subst negotiate_turns.simps) (simp add: fuel(1) assms(2))
  note p = pump_chunk[OF Cons.prems(5) assms(3) recvs c(2,1)]
  show ?case
  proof (cases "cs = []")
    case True
    have last: "receive (with_buffer e r) c False = (e', res)"
      using receive_last[OF assms(1), of r c f] Cons.prems(1) True assms(4) by simp
    from p[OF last, of err] assms(5) have
      pump: "pump k t (with_buffer e r) ''peer closed before HELLO negotiation completed'' =
        Returns ((?k, e'), discard res)" by blast
    have "negotiate_turns fuel' ?k t e' = Returns ((?k, e'), Inr ())" if "ce_state e' \<noteq> CS_negotiating"
      using that by (subst negotiate_turns.simps) simp
    then show ?thesis using assms(5) Cons.prems(5) True by (auto simp: step pump)
  next
    case False
    then have "concat cs \<noteq> []" using Cons.prems(3) by (cases cs) auto
    then have wait: "decode_one limits False (r @ c) = Step_need_more"
      using strict_prefix_waits[of limits "r @ c" "concat cs" f] Cons.prems(1) by simp
    from p[OF receive_part[OF assms(1) wait]] have
      pump: "pump k t (with_buffer e r) ''peer closed before HELLO negotiation completed'' =
        Returns ((?k, with_buffer e (r @ c)), Inr ())" by simp
    have "k_sockets ?k (ut_fd t) = Some ?s" "so_recvs ?s = map Recv_bytes cs @ later"
      "decode_one limits False ((r @ c) @ concat cs) = Step_frame f (length ((r @ c) @ concat cs))"
      "[] \<notin> set cs" "list_all (\<lambda>c. length c \<le> kDefaultMaxFrame) cs"
      using Cons.prems(1,3-5) by simp_all
    from Cons.IH[OF this(3) False this(4,5,1,2) fuel(2)]
    obtain k' where "negotiate_turns fuel' ?k t (with_buffer e (r @ c)) = Returns ((k', e'), discard res)"
      "k_sockets k' = (k_sockets ?k)(ut_fd t \<mapsto> ?s\<lparr>so_recvs := later\<rparr>)" by blast
    then show ?thesis using Cons.prems(5) by (simp add: step pump del: fun_upd_apply)
  qed
qed simp

lemma chunks_in_budget: "so_recvs s = map Recv_bytes chunks @ later \<Longrightarrow> length chunks \<le> recv_budget s"
proof -
  assume "so_recvs s = map Recv_bytes chunks @ later"
  moreover have "length chunks \<le> sum_list (map (\<lambda>bs. 1 + length bs) chunks)"
    by (induction chunks) auto
  ultimately show ?thesis by (simp add: recv_budget_def o_def)
qed

lemma greeting_decodes:
  assumes "greeting policy registry e" "encode_frame limits (hello_frame payload) = Inr bs"
    and "fl_max_header limits = 4096" "length bs \<le> lp_max_frame policy"
  shows "decode_one (engine_limits policy) False bs = Step_frame (hello_frame payload) (length bs)"
proof -
  have "encode_frame (engine_limits policy) (hello_frame payload) = Inr bs"
    using encode_other_limits[OF assms(2)] assms(3,4) by (simp add: engine_limits_def)
  from encoded_frame_decodes[OF this, of False "[]"] show ?thesis
    by (simp add: hello_frame_def normal_frame_def engine_limits_def)
qed

lemma greeting_codec:
  assumes "greeting policy registry e"
  shows "fc_limits (ce_codec e) = engine_limits policy" "with_buffer e [] = e" "ce_state e = CS_negotiating"
  using assms by (auto simp: greeting_def new_codec_def intro!: with_buffer_same)

text \<open>Property C31. Negotiation over a socket is the handshake. When the kernel accepts the local HELLO
  and hands the peer's HELLO over in any non-empty pieces, \<open>negotiate_unix_peer\<close> returns, having
  read exactly those pieces, with the engine that receiving the HELLO at once gives; and it
  succeeds, with an active engine, exactly when the two sides are compatible.\<close>

theorem socket_negotiation:
  assumes "start (connection_engine policy registry executor) = (a, Inr out)"
    and "start (connection_engine policy' registry' executor') = (b, Inr out')"
    and "policy_fits policy" "policy_fits policy'" "hello_fits (policy_hello policy' registry')"
    and "length (concat out') \<le> lp_max_frame policy"
    and "k_sockets k (ut_fd t) = Some s" "ut_fd t \<ge> 0"
    and "so_recvs s = map Recv_bytes pieces @ later" "concat pieces = concat out'" "[] \<notin> set pieces"
    and "list_all (\<lambda>c. length c \<le> kDefaultMaxFrame) pieces"
    and "write_all k t out = Returns (k1, Inr ())"
    and "receive a (concat out') False = (a', res)"
  shows "\<exists>k'. negotiate_unix_peer k t (connection_engine policy registry executor) =
      Returns ((k', a'), discard res) \<and>
    (\<exists>s'. k_sockets k' (ut_fd t) = Some s' \<and> so_recvs s' = later \<and> so_wire s' = so_wire s @ concat out) \<and>
    (is_ok res \<longleftrightarrow> compatible (policy_hello policy registry) (policy_hello policy' registry')) \<and>
    (is_ok res \<longrightarrow> ce_state a' = CS_active)"
proof -
  let ?a = "policy_hello policy registry" and ?b = "policy_hello policy' registry'"
  have win: "lp_connection_window policy \<le> SIZE_MAX" "lp_connection_window policy' \<le> SIZE_MAX"
    using assms(3,4) by (simp_all add: policy_fits_def)
  obtain y where y: "receive a (concat out') False = handle_frames a [hello_frame y]"
    "decode_hello_payload y = Inr (wire_hello ?b)" "greeting policy registry a"
    "negotiate ?a (wire_hello ?b) = negotiate ?a ?b"
    by (rule hello_received[OF assms(1,2) win assms(5,6)])
  obtain y' bs where b: "encode_hello_payload ?b = Inr y'"
    "encode_frame (engine_limits policy') (hello_frame y') = Inr bs" "out' = [bs]"
    by (rule start_greets[OF assms(2) win(2)])
  have dec: "decode_one (engine_limits policy) False (concat pieces) = Step_frame (hello_frame y') (length (concat pieces))"
    using greeting_decodes[OF y(3) b(2)] b(3) assms(6,10) by (simp add: engine_limits_def)
  note codec = greeting_codec[OF y(3)]
  have whole: "handle_frames (with_buffer a []) [hello_frame y'] = (a', res)"
    using receive_greeting[OF y(3) b(2)] b(3) assms(6,14) codec(2) by (simp add: engine_limits_def)
  have same: "handle_frames a [hello_frame y] = (a', res)" using y(1) assms(14) by simp
  note handled = handle_greeting[OF y(3,2) y(4)]
  have res: "(\<exists>err. negotiate ?a ?b = Inl err \<and> res = Inl err) \<or>
      (\<exists>caps. negotiate ?a ?b = Inr caps \<and> res = Inr [] \<and> ce_state a' = CS_active)"
    using handled same by (cases "negotiate ?a ?b") auto
  then have ends: "res = Inr [] \<and> ce_state a' \<noteq> CS_negotiating \<or> res = Inl (case res of Inl err \<Rightarrow> err)"
    by auto
  have "bs \<noteq> []" using b(2) by (auto simp: encode_frame_iff frame_bytes_def append_u32_def)
  then have "pieces \<noteq> []" using b(3) assms(10) by auto
  obtain answers where k1: "k_sockets k1 =
      (k_sockets k)(ut_fd t \<mapsto> s\<lparr>so_sends := answers, so_wire := so_wire s @ concat out\<rparr>)"
    using write_all_success[OF assms(7,8,13)] by blast
  let ?s1 = "s\<lparr>so_sends := answers, so_wire := so_wire s @ concat out\<rparr>"
  have s1: "k_sockets k1 (ut_fd t) = Some ?s1" "so_recvs ?s1 = map Recv_bytes pieces @ later"
    using k1 assms(9) by simp_all
  have fuel: "length pieces < recv_budget (socket_of k1 (ut_fd t)) + 1"
    using chunks_in_budget[OF s1(2)] s1(1) by simp
  obtain k' where "negotiate_turns (recv_budget (socket_of k1 (ut_fd t)) + 1) k1 t (with_buffer a []) =
      Returns ((k', a'), discard res)" "k_sockets k' = (k_sockets k1)(ut_fd t \<mapsto> ?s1\<lparr>so_recvs := later\<rparr>)"
    using negotiate_pieces[OF codec(1,3) assms(8) whole ends _ \<open>pieces \<noteq> []\<close> assms(11,12) s1 fuel, of "[]"] dec
    by auto
  then have "negotiate_unix_peer k t (connection_engine policy registry executor) = Returns ((k', a'), discard res)"
    "k_sockets k' (ut_fd t) = Some (?s1\<lparr>so_recvs := later\<rparr>)"
    using assms(1,13) codec(2) by (simp_all add: negotiate_unix_peer_def)
  moreover have "is_ok (negotiate ?a ?b) \<longleftrightarrow> compatible ?a ?b" by (simp add: is_ok_iff negotiate_when)
  then have "is_ok res \<longleftrightarrow> compatible ?a ?b" using res by auto
  moreover have "is_ok res \<longrightarrow> ce_state a' = CS_active" using res by auto
  ultimately show ?thesis by (intro exI[of _ k']) simp
qed

text \<open>The socket of the example: the kernel takes the HELLO in one call and hands the peer's over in
  two.\<close>

definition hello_socket :: "bytes \<Rightarrow> Socket" where
  "hello_socket bs = \<lparr>so_sends = [Send_accepts 100], so_recvs = [Recv_bytes (take 9 bs), Recv_bytes (drop 9 bs)],
     so_wire = []\<rparr>"

lemma one_send:
  assumes "k_sockets k (ut_fd t) = Some s" "ut_fd t \<ge> 0" "so_sends s = Send_accepts n # rest"
    and "length bs \<le> n"
  shows "\<exists>k1. write_all k t [bs] = Returns (k1, Inr ())"
proof (cases "bs = []")
  case False
  then have "0 < n" "0 < length bs" using assms(4) by (cases n; simp)+
  then show ?thesis using assms(3,4) by (simp add: unix_write_open[OF assms(1,2)] del: length_greater_0_conv)
qed (simp add: unix_write_open[OF assms(1,2)])

lemma echo_starts_one:
  "\<exists>e bs. start (connection_engine default_policy echo_registry None) = (e, Inr [bs]) \<and>
     length bs \<le> 77 \<and> 9 < length bs"
proof -
  obtain e out where e: "start (connection_engine default_policy echo_registry None) = (e, Inr out)"
    "length (concat out) \<le> 77" using echo_starts by blast
  have "lp_connection_window default_policy \<le> SIZE_MAX" using default_policy_fits by (simp add: policy_fits_def)
  from start_greets[OF e(1) this] obtain payload bs where
    p: "encode_frame (engine_limits default_policy) (hello_frame payload) = Inr bs" "out = [bs]" by blast
  have "9 < length bs" using p(1) by (auto simp: encode_frame_iff length_frame_bytes)
  then show ?thesis using e p by auto
qed

theorem socket_negotiation_witness:
  "\<exists>bs k' a'. negotiate_unix_peer \<lparr>k_sockets = [3 \<mapsto> hello_socket bs], k_paths = {}\<rparr> \<lparr>ut_fd = 3\<rparr>
       (connection_engine default_policy echo_registry None) = Returns ((k', a'), Inr ()) \<and>
     ce_state a' = CS_active"
proof -
  let ?h = "policy_hello default_policy echo_registry"
  obtain a bs where a: "start (connection_engine default_policy echo_registry None) = (a, Inr [bs])"
    "length bs \<le> 77" "9 < length bs" using echo_starts_one by blast
  obtain a' res where r: "receive a (concat [bs]) False = (a', res)" by fastforce
  let ?k = "\<lparr>k_sockets = [3 \<mapsto> hello_socket bs], k_paths = {}\<rparr>" and ?t = "\<lparr>ut_fd = 3\<rparr>"
  have len: "length (concat [bs]) \<le> lp_max_frame default_policy" using a(2) by (simp add: default_policy_def)
  have k: "k_sockets ?k (ut_fd ?t) = Some (hello_socket bs)" "ut_fd ?t \<ge> 0"
    "so_recvs (hello_socket bs) = map Recv_bytes [take 9 bs, drop 9 bs] @ []"
    "concat [take 9 bs, drop 9 bs] = concat [bs]" "[] \<notin> set [take 9 bs, drop 9 bs]"
    "list_all (\<lambda>c. length c \<le> kDefaultMaxFrame) [take 9 bs, drop 9 bs]"
    using a(2,3) by (auto simp: hello_socket_def kDefaultMaxFrame_def)
  obtain k1 where w: "write_all ?k ?t [bs] = Returns (k1, Inr ())"
  proof -
    have "so_sends (hello_socket bs) = Send_accepts 100 # []" by (simp add: hello_socket_def)
    moreover have "length bs \<le> 100" using a(2) by simp
    ultimately show thesis using that one_send[OF k(1,2), of 100 "[]" bs] by auto
  qed
  from socket_negotiation[OF a(1) a(1) default_policy_fits default_policy_fits echo_fits len k w r]
  obtain k' where n: "negotiate_unix_peer ?k ?t (connection_engine default_policy echo_registry None) =
      Returns ((k', a'), discard res)" "is_ok res" "ce_state a' = CS_active" using echo_compatible by blast
  have "discard res = Inr ()" using n(2) by (cases res) simp_all
  then show ?thesis using n(1,3) by (intro exI[of _ bs] exI[of _ k'] exI[of _ a']) simp
qed

text \<open>A read that a signal interrupts in the middle of the HELLO.\<close>

lemma pump_interrupted:
  assumes "k_sockets k (ut_fd t) = Some s" "ut_fd t \<ge> 0" "so_recvs s = Recv_interrupted # later"
  shows "\<exists>k'. pump k t e closed = Returns ((k', e),
    Inl (make_error ES_transport EC_transport_error CA_close_connection closed))"
  using assms by (simp add: pump_def read_some_def)

lemma negotiate_interrupted:
  assumes "fc_limits (ce_codec e) = limits" "ce_state e = CS_negotiating" "ut_fd t \<ge> 0" "rest \<noteq> []"
  shows "decode_one limits False (r @ concat chunks @ rest) = Step_frame f (length (r @ concat chunks @ rest)) \<Longrightarrow>
     [] \<notin> set chunks \<Longrightarrow> list_all (\<lambda>c. length c \<le> kDefaultMaxFrame) chunks \<Longrightarrow>
     k_sockets k (ut_fd t) = Some s \<Longrightarrow> so_recvs s = map Recv_bytes chunks @ Recv_interrupted # later \<Longrightarrow>
     length chunks < fuel \<Longrightarrow>
     \<exists>k'. negotiate_turns fuel k t (with_buffer e r) = Returns ((k', with_buffer e (r @ concat chunks)),
       Inl (make_error ES_transport EC_transport_error CA_close_connection
         ''peer closed before HELLO negotiation completed''))"
proof (induction chunks arbitrary: k s r fuel)
  case Nil
  then obtain fuel' where "fuel = Suc fuel'" by (cases fuel) auto
  moreover obtain k' where "pump k t (with_buffer e r) ''peer closed before HELLO negotiation completed'' =
      Returns ((k', with_buffer e r), Inl (make_error ES_transport EC_transport_error CA_close_connection
        ''peer closed before HELLO negotiation completed''))"
    using pump_interrupted[OF Nil.prems(4) assms(3), of later "with_buffer e r"] Nil.prems(5) by auto
  ultimately show ?case using assms(2) by (subst negotiate_turns.simps) simp
next
  case (Cons c cs)
  obtain fuel' where fuel: "fuel = Suc fuel'" "length cs < fuel'" using Cons.prems(6) by (cases fuel) auto
  have c: "c \<noteq> []" "length c \<le> kDefaultMaxFrame" using Cons.prems(2,3) by auto
  have recvs: "so_recvs s = Recv_bytes c # (map Recv_bytes cs @ Recv_interrupted # later)"
    using Cons.prems(5) by simp
  let ?s = "s\<lparr>so_recvs := map Recv_bytes cs @ Recv_interrupted # later\<rparr>"
  let ?k = "put_socket k (ut_fd t) ?s"
  have wait: "decode_one limits False (r @ c) = Step_need_more"
    using strict_prefix_waits[of limits "r @ c" "concat cs @ rest" f] Cons.prems(1) assms(4) by simp
  from pump_chunk[OF Cons.prems(4) assms(3) recvs c(2,1) receive_part[OF assms(1) wait]] have
    "negotiate_turns fuel k t (with_buffer e r) = negotiate_turns fuel' ?k t (with_buffer e (r @ c))"
    by (subst negotiate_turns.simps) (simp add: fuel(1) assms(2))
  moreover have "k_sockets ?k (ut_fd t) = Some ?s" "[] \<notin> set cs"
    "so_recvs ?s = map Recv_bytes cs @ Recv_interrupted # later"
    "decode_one limits False ((r @ c) @ concat cs @ rest) = Step_frame f (length ((r @ c) @ concat cs @ rest))"
    "list_all (\<lambda>c. length c \<le> kDefaultMaxFrame) cs"
    using Cons.prems(1-4) by simp_all
  note Cons.IH[OF this(4,2,5,1,3) fuel(2)]
  ultimately show ?case by simp
qed

text \<open>Remark. What a signal does to a negotiation: a \<open>recv\<close> interrupted before the HELLO is
  complete ends it with the error that reports a closed peer, whatever the socket would have
  delivered next.\<close>

theorem interrupted_negotiation_fails:
  assumes "start (connection_engine policy registry executor) = (a, Inr out)"
    and "start (connection_engine policy' registry' executor') = (b, Inr out')"
    and "policy_fits policy" "policy_fits policy'"
    and "length (concat out') \<le> lp_max_frame policy"
    and "k_sockets k (ut_fd t) = Some s" "ut_fd t \<ge> 0"
    and "so_recvs s = map Recv_bytes pieces @ Recv_interrupted # map Recv_bytes later"
    and "concat pieces @ concat later = concat out'" "concat later \<noteq> []" "[] \<notin> set pieces"
    and "list_all (\<lambda>c. length c \<le> kDefaultMaxFrame) pieces"
    and "write_all k t out = Returns (k1, Inr ())"
  shows "\<exists>k' a'. negotiate_unix_peer k t (connection_engine policy registry executor) =
      Returns ((k', a'), Inl (make_error ES_transport EC_transport_error CA_close_connection
        ''peer closed before HELLO negotiation completed'')) \<and> ce_state a' = CS_negotiating"
proof -
  have win: "lp_connection_window policy \<le> SIZE_MAX" "lp_connection_window policy' \<le> SIZE_MAX"
    using assms(3,4) by (simp_all add: policy_fits_def)
  obtain x xs where a: "greeting policy registry a" by (rule start_greets[OF assms(1) win(1)])
  obtain y bs where b: "encode_frame (engine_limits policy') (hello_frame y) = Inr bs" "out' = [bs]"
    by (rule start_greets[OF assms(2) win(2)])
  note codec = greeting_codec[OF a]
  have dec: "decode_one (engine_limits policy) False ([] @ concat pieces @ concat later) =
      Step_frame (hello_frame y) (length ([] @ concat pieces @ concat later))"
    using greeting_decodes[OF a b(1)] b(2) assms(5,9) by (simp add: engine_limits_def)
  obtain answers where k1: "k_sockets k1 (ut_fd t) =
      Some (s\<lparr>so_sends := answers, so_wire := so_wire s @ concat out\<rparr>)"
    using write_all_success[OF assms(6,7,13)] by fastforce
  let ?s1 = "s\<lparr>so_sends := answers, so_wire := so_wire s @ concat out\<rparr>"
  have recvs: "so_recvs ?s1 = map Recv_bytes pieces @ Recv_interrupted # map Recv_bytes later"
    using assms(8) by simp
  have "length pieces \<le> recv_budget ?s1" by (rule chunks_in_budget[OF recvs])
  then have fuel: "length pieces < recv_budget (socket_of k1 (ut_fd t)) + 1" using k1 by simp
  have "\<exists>k'. negotiate_turns (recv_budget (socket_of k1 (ut_fd t)) + 1) k1 t (with_buffer a []) =
      Returns ((k', with_buffer a ([] @ concat pieces)), Inl (make_error ES_transport EC_transport_error
        CA_close_connection ''peer closed before HELLO negotiation completed''))"
    by (rule negotiate_interrupted[OF codec(1,3) assms(7,10) dec assms(11,12) k1 recvs fuel])
  then show ?thesis using assms(1,13) codec(2,3) by (auto simp: negotiate_unix_peer_def)
qed

theorem interrupted_negotiation_fails_witness:
  "\<exists>bs k' a'. negotiate_unix_peer
       \<lparr>k_sockets = [3 \<mapsto> (hello_socket bs)\<lparr>so_recvs := [Recv_bytes (take 9 bs), Recv_interrupted, Recv_bytes (drop 9 bs)]\<rparr>],
        k_paths = {}\<rparr> \<lparr>ut_fd = 3\<rparr> (connection_engine default_policy echo_registry None) =
     Returns ((k', a'), Inl (make_error ES_transport EC_transport_error CA_close_connection
        ''peer closed before HELLO negotiation completed''))"
proof -
  obtain a bs where a: "start (connection_engine default_policy echo_registry None) = (a, Inr [bs])"
    "length bs \<le> 77" "9 < length bs" using echo_starts_one by blast
  let ?s = "(hello_socket bs)\<lparr>so_recvs := [Recv_bytes (take 9 bs), Recv_interrupted, Recv_bytes (drop 9 bs)]\<rparr>"
  let ?k = "\<lparr>k_sockets = [3 \<mapsto> ?s], k_paths = {}\<rparr>" and ?t = "\<lparr>ut_fd = 3\<rparr>"
  have len: "length (concat [bs]) \<le> lp_max_frame default_policy" using a(2) by (simp add: default_policy_def)
  have k: "k_sockets ?k (ut_fd ?t) = Some ?s" "ut_fd ?t \<ge> 0"
    "so_recvs ?s = map Recv_bytes [take 9 bs] @ Recv_interrupted # map Recv_bytes [drop 9 bs]"
    "concat [take 9 bs] @ concat [drop 9 bs] = concat [bs]" "concat [drop 9 bs] \<noteq> []"
    "[] \<notin> set [take 9 bs]" "list_all (\<lambda>c. length c \<le> kDefaultMaxFrame) [take 9 bs]"
    using a(2,3) by (auto simp: kDefaultMaxFrame_def)
  obtain k1 where w: "write_all ?k ?t [bs] = Returns (k1, Inr ())"
  proof -
    have "so_sends (hello_socket bs) = Send_accepts 100 # []" by (simp add: hello_socket_def)
    moreover have "length bs \<le> 100" using a(2) by simp
    ultimately show thesis using that one_send[OF k(1,2), of 100 "[]" bs] by auto
  qed
  from interrupted_negotiation_fails[OF a(1) a(1) default_policy_fits default_policy_fits len k w]
  show ?thesis by blast
qed

section \<open>What the pump forwards\<close>

text \<open>The messages to forward: the deliveries whose channel has a route; and the engine and frames
  that bridging them one after the other gives.\<close>

definition routed :: "Gateway \<Rightarrow> ConnectionEvent list \<Rightarrow> (ChannelId \<times> bytes) list" where
  "routed gw events = map (\<lambda>ev. (ev_channel ev, ev_payload ev))
     (filter (\<lambda>ev. ev_kind ev = EK_message_delivered \<and> is_ok (find_route gw (ev_channel ev))) events)"

fun bridge_messages :: "Gateway \<Rightarrow> CapabilitySet \<Rightarrow> ConnectionEngine \<Rightarrow> (ChannelId \<times> bytes) list \<Rightarrow>
   ConnectionEngine \<times> bytes list result" where
  "bridge_messages gw source to [] = (to, Inr [])"
| "bridge_messages gw source to ((channel, payload) # messages) =
     (case bridge_to_connection gw source (the (ce_capabilities to)) to channel payload of
        (to', Inl err) \<Rightarrow> (to', Inl err)
      | (to', Inr out) \<Rightarrow>
          (case bridge_messages gw source to' messages of
             (to'', Inl err) \<Rightarrow> (to'', Inl err)
           | (to'', Inr out') \<Rightarrow> (to'', Inr (out @ out'))))"

lemma forward_events_success:
  assumes "k_sockets k (ut_fd t) = Some s" "ut_fd t \<ge> 0"
    and "forward_events from_caps k to t gw cursor events = Returns ((k', to', cursor'), Inr ())"
  shows "cursor' = cursor + length events \<and>
    (\<exists>out answers. bridge_messages gw (the from_caps) to (routed gw events) = (to', Inr out) \<and>
       k_sockets k' = (k_sockets k)(ut_fd t \<mapsto> s\<lparr>so_sends := answers, so_wire := so_wire s @ concat out\<rparr>))"
  using assms
proof (induction events arbitrary: k s to cursor)
  case Nil
  then have "k_sockets k = (k_sockets k)(ut_fd t \<mapsto> s\<lparr>so_sends := so_sends s, so_wire := so_wire s @ concat []\<rparr>)"
    by (auto simp: fun_eq_iff)
  with Nil show ?case by (auto simp: routed_def simp del: fun_upd_apply intro: exI[of _ "so_sends s"])
next
  case (Cons event events)
  show ?case
  proof (cases "ev_kind event = EK_message_delivered \<and> is_ok (find_route gw (ev_channel event))")
    case False
    then have "forward_events from_caps k to t gw (cursor + 1) events = Returns ((k', to', cursor'), Inr ())"
      using Cons.prems(3) by (auto split: if_splits)
    from Cons.IH[OF Cons.prems(1,2) this] show ?thesis using False by (auto simp: routed_def)
  next
    case True
    then obtain source dest to1 out1 k1 where caps: "from_caps = Some source" "ce_capabilities to = Some dest"
      and b: "bridge_to_connection gw source dest to (ev_channel event) (ev_payload event) = (to1, Inr out1)"
      and w: "write_all k t out1 = Returns (k1, Inr ())"
      and rest: "forward_events from_caps k1 to1 t gw (cursor + 1) events = Returns ((k', to', cursor'), Inr ())"
      using Cons.prems(3) by (auto split: option.splits prod.splits sum.splits run.splits)
    obtain answers where k1: "k_sockets k1 =
        (k_sockets k)(ut_fd t \<mapsto> s\<lparr>so_sends := answers, so_wire := so_wire s @ concat out1\<rparr>)"
      using write_all_success[OF Cons.prems(1,2) w] by blast
    then have "k_sockets k1 (ut_fd t) = Some (s\<lparr>so_sends := answers, so_wire := so_wire s @ concat out1\<rparr>)" by simp
    from Cons.IH[OF this Cons.prems(2) rest] obtain out answers' where
      "cursor' = cursor + 1 + length events"
      "bridge_messages gw source to1 (routed gw events) = (to', Inr out)"
      "k_sockets k' = (k_sockets k)(ut_fd t \<mapsto>
         s\<lparr>so_sends := answers', so_wire := so_wire s @ concat (out1 @ out)\<rparr>)"
      unfolding caps(1) k1 by (auto simp: fun_upd_upd simp del: fun_upd_apply)
    then show ?thesis using True caps b by (auto simp: routed_def simp del: fun_upd_apply)
  qed
qed

text \<open>Property C32. The pump forwards each delivery once and in order: when \<open>forward_new_events\<close>
  succeeds, the bytes it has written to the other side are exactly the frames of bridging, one
  after the other, the routed messages delivered since the cursor; the cursor is at the end of
  the log, so that a second call forwards nothing.\<close>

theorem pump_forwards_once:
  assumes "k_sockets k (ut_fd t) = Some s" "ut_fd t \<ge> 0" "cursor \<le> length (ce_events from)"
    and "forward_new_events from k to t gw cursor = Returns ((k', to', cursor'), Inr ())"
  shows "cursor' = length (ce_events from) \<and>
    (\<exists>out s'. bridge_messages gw (the (ce_capabilities from)) to (routed gw (drop cursor (ce_events from))) =
         (to', Inr out) \<and>
       k_sockets k' (ut_fd t) = Some s' \<and> so_wire s' = so_wire s @ concat out) \<and>
    forward_new_events from k' to' t gw cursor' = Returns ((k', to', cursor'), Inr ())"
  using forward_events_success[OF assms(1,2) assms(4)[unfolded forward_new_events_def]] assms(3)
  by (auto simp: forward_new_events_def)

lemma and_then_fails:
  "and_then m f = Returns (t, r) \<Longrightarrow> (\<And>s x. m = Returns (s, Inr x) \<Longrightarrow> f s x = Returns (t, r) \<Longrightarrow> \<not> is_ok r) \<Longrightarrow>
     \<not> is_ok r"
  by (cases r) (auto simp: and_then_ok)

lemma bridge_loop_steps:
  assumes "\<not> ut_fd (br_left_transport b) < 0" "\<not> ut_fd (br_right_transport b) < 0"
  shows "run_unix_bridge_loop (Select_interrupted # answers) k b = run_unix_bridge_loop answers k b"
    and "run_unix_bridge_loop (Select_fails # answers) k b =
      Returns ((k, b), Inl (bridge_error ''bridge select failed''))"
  using assms by (simp_all add: run_unix_bridge_loop.simps)

lemma bridge_loop_error:
  assumes "run_unix_bridge_loop answers k b = Returns (final, r)"
  shows "\<not> is_ok r"
  using assms
proof (induction answers arbitrary: k b)
  case Nil
  then show ?case by (auto simp: run_unix_bridge_loop.simps[of "[]"] split: if_splits)
next
  case (Cons a answers)
  show ?case
  proof (cases "ut_fd (br_left_transport b) < 0 \<or> ut_fd (br_right_transport b) < 0")
    case True
    then show ?thesis using Cons.prems by (auto simp: run_unix_bridge_loop.simps[of "a # answers"])
  next
    case False
    show ?thesis
    proof (cases a)
      case (Select_ready left right)
      then have "and_then (if left then read_left k b else Returns ((k, b), Inr ()))
          (\<lambda>(k', b') _. and_then (if right then read_right k' b' else Returns ((k', b'), Inr ()))
             (\<lambda>(k'', b'') _. run_unix_bridge_loop answers k'' b'')) = Returns (final, r)"
        using Cons.prems False by (subst (asm) run_unix_bridge_loop.simps) simp
      then show ?thesis
      proof (rule and_then_fails)
        fix p x
        assume rest: "(case p of (k', b') \<Rightarrow> \<lambda>_. and_then (if right then read_right k' b' else Returns ((k', b'), Inr ()))
            (\<lambda>(k'', b'') _. run_unix_bridge_loop answers k'' b'')) x = Returns (final, r)"
        show ?thesis
          by (rule and_then_fails[OF rest[unfolded case_prod_beta]]) (auto split: prod.splits dest: Cons.IH)
      qed
    qed (use Cons False in \<open>auto simp: bridge_loop_steps\<close>)
  qed
qed

text \<open>Remark. The bridge never stops quietly: whatever \<open>select\<close> and the sockets answer, a bridge
  loop that returns does so with an error.\<close>

theorem bridge_loop_fails:
  assumes "run_unix_bridge_loop answers k b = Returns (final, r)"
  shows "\<not> is_ok r"
  using assms by (rule bridge_loop_error)

text \<open>The example: the left engine has delivered a message on a routed channel, the right one is
  connected.\<close>

definition delivered_engine :: ConnectionEngine where
  "delivered_engine = open_engine\<lparr>ce_events := [delivery \<lparr>cid_number = 5, cid_generation = 1\<rparr> 1 [65]]\<rparr>"

theorem pump_forwards_once_witness:
  "\<exists>k' to' out s'. forward_new_events delivered_engine \<lparr>k_sockets = [4 \<mapsto> hello_socket []], k_paths = {}\<rparr>
       open_engine \<lparr>ut_fd = 4\<rparr> loop_gateway 0 = Returns ((k', to', 1), Inr ()) \<and>
     k_sockets k' 4 = Some s' \<and> so_wire s' = concat out \<and>
     bridge_messages loop_gateway (the (ce_capabilities open_engine)) open_engine
       [(\<lparr>cid_number = 5, cid_generation = 1\<rparr>, [65])] = (to', Inr out)"
proof -
  let ?k = "\<lparr>k_sockets = [4 \<mapsto> hello_socket []], k_paths = {}\<rparr>" and ?t = "\<lparr>ut_fd = 4\<rparr>"
  obtain to' bs where b: "bridge_to_connection loop_gateway (the (ce_capabilities open_engine))
      (the (ce_capabilities open_engine)) open_engine \<lparr>cid_number = 5, cid_generation = 1\<rparr> [65] = (to', Inr [bs])"
    "length bs \<le> 100" using loop_bridges by blast
  have k: "k_sockets ?k (ut_fd ?t) = Some (hello_socket [])" "ut_fd ?t \<ge> 0"
    "so_sends (hello_socket []) = Send_accepts 100 # []" by (simp_all add: hello_socket_def)
  obtain k1 where w: "write_all ?k ?t [bs] = Returns (k1, Inr ())" using one_send[OF k b(2)] by blast
  have from_caps: "ce_capabilities delivered_engine = ce_capabilities open_engine"
    "ce_events delivered_engine = [delivery \<lparr>cid_number = 5, cid_generation = 1\<rparr> 1 [65]]"
    by (simp_all add: delivered_engine_def)
  have f: "forward_new_events delivered_engine ?k open_engine ?t loop_gateway 0 = Returns ((k1, to', 1), Inr ())"
    using b w echo_caps(1)
    by (simp add: forward_new_events_def from_caps delivery_def loop_route del: write_all.simps)
  have routed: "routed loop_gateway (drop 0 (ce_events delivered_engine)) =
      [(\<lparr>cid_number = 5, cid_generation = 1\<rparr>, [65])]"
    by (simp add: routed_def from_caps delivery_def loop_route)
  from pump_forwards_once[OF k(1,2) _ f, unfolded routed from_caps(1)] f
  show ?thesis by (auto simp: hello_socket_def)
qed

theorem bridge_loop_fails_witness:
  "\<exists>final err. run_unix_bridge_loop [Select_interrupted, Select_fails] \<lparr>k_sockets = Map.empty, k_paths = {}\<rparr>
      \<lparr>br_left = open_engine, br_right = open_engine, br_left_transport = \<lparr>ut_fd = 3\<rparr>,
       br_right_transport = \<lparr>ut_fd = 4\<rparr>, br_gateway = loop_gateway, br_left_events = 0, br_right_events = 0\<rparr> =
     Returns (final, Inl err)"
proof -
  let ?k = "\<lparr>k_sockets = Map.empty, k_paths = {}\<rparr>"
  let ?b = "\<lparr>br_left = open_engine, br_right = open_engine, br_left_transport = \<lparr>ut_fd = 3\<rparr>,
    br_right_transport = \<lparr>ut_fd = 4\<rparr>, br_gateway = loop_gateway, br_left_events = 0, br_right_events = 0\<rparr>"
  obtain final r where l: "run_unix_bridge_loop [Select_interrupted, Select_fails] ?k ?b = Returns (final, r)"
    by (simp add: run_unix_bridge_loop.simps)
  have "\<not> is_ok r" by (rule bridge_loop_fails[OF l])
  then show ?thesis using l by (auto simp: not_is_ok_iff)
qed

section \<open>Descriptors\<close>

text \<open>The open descriptors; none of the operations on a transport opens or closes one.\<close>

definition opened :: "Kernel \<Rightarrow> int set" where
  "opened k = dom (k_sockets k)"

lemma opened_put [simp]: "opened (put_socket k fd s) = opened k"
  by (auto simp: opened_def put_socket_def)

lemma opened_write: "unix_write k t bs = Returns (k', r) \<Longrightarrow> opened k' = opened k"
  by (auto simp: unix_write_def Let_def split: if_splits run.splits prod.splits)

lemma opened_read: "read_some k t m = Returns (k', r) \<Longrightarrow> opened k' = opened k"
  by (auto simp: read_some_def Let_def split: if_splits list.splits RecvAnswer.splits)

lemma opened_write_all: "write_all k t chunks = Returns (k', r) \<Longrightarrow> opened k' = opened k"
proof (induction chunks arbitrary: k)
  case (Cons chunk chunks)
  obtain k1 where "unix_write k t chunk = Returns (k1, Inr ()) \<and> write_all k1 t chunks = Returns (k', r) \<or>
      (\<exists>err. unix_write k t chunk = Returns (k', Inl err))"
    using Cons.prems by (cases r) (auto simp: and_then_ok and_then_error)
  then show ?case using Cons.IH[of k1] opened_write by blast
qed simp

lemma opened_pump: "pump k t e closed = Returns ((k', e'), r) \<Longrightarrow> opened k' = opened k"
  by (auto simp: pump_def dest!: opened_read opened_write_all split: run.splits prod.splits sum.splits if_splits)

lemma opened_negotiate_turns: "negotiate_turns fuel k t e = Returns ((k', e'), r) \<Longrightarrow> opened k' = opened k"
proof (induction fuel arbitrary: k e)
  case 0
  then show ?case by (subst (asm) negotiate_turns.simps) (simp split: if_splits)
next
  case (Suc fuel)
  show ?case
  proof (cases "ce_state e = CS_negotiating")
    case True
    then have step: "and_then (pump k t e ''peer closed before HELLO negotiation completed'')
        (\<lambda>(k', e') _. negotiate_turns fuel k' t e') = Returns ((k', e'), r)"
      using Suc.prems by (subst (asm) negotiate_turns.simps) simp
    show ?thesis
      using step Suc.IH opened_pump
      by (cases r) (auto simp: and_then_ok and_then_error; metis)+
  qed (use Suc.prems in \<open>subst (asm) negotiate_turns.simps; simp\<close>)
qed

lemma opened_negotiate: "negotiate_unix_peer k t e = Returns ((k', e'), r) \<Longrightarrow> opened k' = opened k"
  by (auto simp: negotiate_unix_peer_def dest!: opened_write_all opened_negotiate_turns
      split: run.splits prod.splits sum.splits)

lemma opened_forward:
  "forward_events caps k to t gw cursor events = Returns ((k', to', cursor'), r) \<Longrightarrow> opened k' = opened k"
proof (induction events arbitrary: k to cursor)
  case (Cons event events)
  then show ?case
    by (auto dest!: opened_write_all split: if_splits option.splits prod.splits sum.splits run.splits)
qed simp

lemma opened_side:
  "read_bridge_side k ft from tt to gw cursor = Returns ((k', from', to', cursor'), r) \<Longrightarrow> opened k' = opened k"
  by (auto simp: read_bridge_side_def forward_new_events_def dest!: opened_pump opened_forward
      split: run.splits prod.splits sum.splits)

lemma opened_left: "read_left k b = Returns ((k', b'), r) \<Longrightarrow> opened k' = opened k"
  by (auto simp: read_left_def dest!: opened_side split: run.splits prod.splits)

lemma opened_right: "read_right k b = Returns ((k', b'), r) \<Longrightarrow> opened k' = opened k"
  by (auto simp: read_right_def dest!: opened_side split: run.splits prod.splits)

lemma opened_loop: "run_unix_bridge_loop answers k b = Returns ((k', b'), r) \<Longrightarrow> opened k' = opened k"
proof (induction answers arbitrary: k b)
  case Nil
  then show ?case by (auto simp: run_unix_bridge_loop.simps[of "[]"] split: if_splits)
next
  case (Cons a answers)
  show ?case
  proof (cases "ut_fd (br_left_transport b) < 0 \<or> ut_fd (br_right_transport b) < 0")
    case True
    then show ?thesis using Cons.prems by (auto simp: run_unix_bridge_loop.simps[of "a # answers"])
  next
    case False
    show ?thesis
    proof (cases a)
      case (Select_ready left right)
      then have step: "and_then (if left then read_left k b else Returns ((k, b), Inr ()))
          (\<lambda>(k', b') _. and_then (if right then read_right k' b' else Returns ((k', b'), Inr ()))
             (\<lambda>(k'', b'') _. run_unix_bridge_loop answers k'' b'')) = Returns ((k', b'), r)"
        using Cons.prems False by (subst (asm) run_unix_bridge_loop.simps) simp
      have l: "opened k1 = opened k" if "(if left then read_left k b else Returns ((k, b), Inr ())) = Returns ((k1, b1), r1)"
        for k1 b1 r1 using that opened_left by (auto split: if_splits)
      have r: "opened k2 = opened k1" if "(if right then read_right k1 b1 else Returns ((k1, b1), Inr ())) = Returns ((k2, b2), r1)"
        for k1 b1 k2 b2 r1 using that opened_right by (auto split: if_splits)
      obtain err where err: "r = Inl err" using bridge_loop_error[OF Cons.prems] by (auto simp: not_is_ok_iff)
      show ?thesis
        using step unfolding err and_then_error
      proof (elim disjE exE conjE)
        fix s x assume s: "(if left then read_left k b else Returns ((k, b), Inr ())) = Returns (s, Inr x)"
          and rest: "(case s of (k', b') \<Rightarrow> \<lambda>_. and_then (if right then read_right k' b' else Returns ((k', b'), Inr ()))
             (\<lambda>(k'', b'') _. run_unix_bridge_loop answers k'' b'')) x = Returns ((k', b'), Inl err)"
        then show ?thesis using l[of "fst s" "snd s" "Inr x"]
          by (cases s) (auto simp: and_then_error dest!: r Cons.IH[unfolded err] split: prod.splits)
      qed (rule l)
    qed (use Cons False in \<open>auto simp: bridge_loop_steps\<close>)
  qed
qed

end
