(* ===== verification/Command_Line.thy ===== *)
theory Command_Line
  imports Socket_Bridge Trace Inspection
begin

text \<open>
  The command line, \<^verbatim>\<open>tools/lattice.cpp\<close>: its commands over a world of files, sockets and the two
  output streams, and the dispatch of \<open>main\<close>. A command ends with an exit status, with an
  exception nobody catches, or waits for the kernel forever. The properties: what each memory
  command prints and returns, which commands can succeed, and what the exit status tells.
\<close>

section \<open>The world of a command\<close>

text \<open>What the kernel will answer is part of it: the two connects, the bind, the accepts and selects.\<close>

record World =
  w_disk :: Disk
  w_faults :: FileFaults
  w_stat_ok :: bool
  w_kernel :: Kernel
  w_connect :: "SocketAnswer \<times> ConnectAnswer"
  w_connect_right :: "SocketAnswer \<times> ConnectAnswer"
  w_bind :: "SocketAnswer \<times> string option \<times> string option"
  w_accepts :: "AcceptAnswer list"
  w_selects :: "SelectAnswer list"
  w_out :: string
  w_err :: string

datatype CliEnd = Exit nat | Uncaught string | Waiting

definition nl :: string where "nl = [CHR 0x0A]"

definition cout :: "World \<Rightarrow> string \<Rightarrow> World" where
  "cout w s = w\<lparr>w_out := w_out w @ s\<rparr>"

definition cerr :: "World \<Rightarrow> string \<Rightarrow> World" where
  "cerr w s = w\<lparr>w_err := w_err w @ s\<rparr>"

definition print_error :: "World \<Rightarrow> Error \<Rightarrow> World \<times> CliEnd" where
  "print_error w e = (cerr w (stable_code e @ '': '' @ err_detail e @ nl), Exit 3)"

text \<open>The contents of a file that opens, as its stream yields them.\<close>

definition read_file :: "World \<Rightarrow> string \<Rightarrow> string option" where
  "read_file w path =
     (if ff_open (w_faults w) then map_option (ff_read (w_faults w)) (w_disk w path) else None)"

text \<open>\<open>registry\<close>: the echo plugin; registering it does not fail.\<close>

definition echo_engine :: ConnectionEngine where
  "echo_engine = connection_engine default_policy echo_registry None"

lemma echo_registers: "snd (register_factory plugin_registry echo_descriptor (Some echo_handle)) = Inr ()"
  by (simp add: register_factory_def plugin_registry_def echo_descriptor_def om_get_def Let_def)

section \<open>Snapshots\<close>

definition snapshot_error :: "string \<Rightarrow> Error" where
  "snapshot_error detail = make_error ES_internal EC_resource_limit CA_none detail"

definition load_snapshot_if_present :: "World \<Rightarrow> ConnectionEngine \<Rightarrow> string \<Rightarrow> ConnectionEngine \<times> unit result" where
  "load_snapshot_if_present w e path =
     (if path = [] then (e, Inr ())
      else if \<not> w_stat_ok w then (e, Inl (snapshot_error ''cannot inspect replay snapshot path''))
      else if w_disk w path = None then (e, Inr ())
      else case load_text (w_faults w) (w_disk w) path of
        Inl err \<Rightarrow> (e, Inl err)
      | Inr snapshot \<Rightarrow> load_replay_snapshot e snapshot)"

definition save_snapshot :: "World \<Rightarrow> ConnectionEngine \<Rightarrow> string \<Rightarrow> (World \<times> unit result) run" where
  "save_snapshot w e path =
     (if path = [] then Returns (w, Inr ())
      else case export_replay_snapshot e of
        Inl err \<Rightarrow> Returns (w, Inl err)
      | Inr snapshot \<Rightarrow>
          (case save_text (w_faults w) (w_disk w) path snapshot of
             Returns (disk, r) \<Rightarrow> Returns (w\<lparr>w_disk := disk\<rparr>, r)
           | Throws what \<Rightarrow> Throws what
           | Blocks \<Rightarrow> Blocks))"

text \<open>The end of a command that saves a snapshot.\<close>

definition save_and_exit :: "World \<Rightarrow> ConnectionEngine \<Rightarrow> string \<Rightarrow> World \<times> CliEnd" where
  "save_and_exit w e path =
     (case save_snapshot w e path of
        Returns (w', Inl err) \<Rightarrow> print_error w' err
      | Returns (w', Inr _) \<Rightarrow> (w', Exit 0)
      | Throws what \<Rightarrow> (w, Uncaught what)
      | Blocks \<Rightarrow> (w, Waiting))"

definition capability_text :: "CapabilitySet \<Rightarrow> string" where
  "capability_text caps =
     ''LTX/'' @ decimal (unat (cap_major caps)) @ '' max_frame='' @ decimal (cap_max_frame caps) @
     '' max_message='' @ decimal (cap_max_message caps) @
     '' channels='' @ decimal (unat (cap_max_channels caps)) @
     '' plugins='' @ decimal (length (cap_plugins caps)) @ nl"

definition print_capabilities :: "World \<Rightarrow> string \<Rightarrow> CapabilitySet \<Rightarrow> World" where
  "print_capabilities w prefix caps = cout w (prefix @ '' '' @ capability_text caps)"

section \<open>Commands without sockets\<close>

text \<open>Two engines exchange their first chunks, as \<open>probe_memory\<close> and \<open>bridge_memory\<close> do.\<close>

datatype Exchange =
    Start_failed | Exchange_failed | Exchanged ConnectionEngine CapabilitySet CapabilitySet

definition hello_exchange :: "ConnectionEngine \<Rightarrow> ConnectionEngine \<Rightarrow> Exchange" where
  "hello_exchange left right =
     (case (start left, start right) of
        ((left1, Inr left_hello), (right1, Inr right_hello)) \<Rightarrow>
          (let (right2, right_result) = receive right1 (left_hello ! 0) False;
               (left2, left_result) = receive left1 (right_hello ! 0) False
           in if is_ok right_result \<and> is_ok left_result
              then (case (ce_capabilities left2, ce_capabilities right2) of
                      (Some left_caps, Some right_caps) \<Rightarrow> Exchanged left2 left_caps right_caps
                    | _ \<Rightarrow> Exchange_failed)
              else Exchange_failed)
      | _ \<Rightarrow> Start_failed)"

definition probe_memory :: "World \<Rightarrow> string \<Rightarrow> World \<times> CliEnd" where
  "probe_memory w path =
     (case load_snapshot_if_present w echo_engine path of
        (left, Inl err) \<Rightarrow> print_error w err
      | (left, Inr _) \<Rightarrow>
          (case hello_exchange left echo_engine of
             Start_failed \<Rightarrow> (cerr w (''lattice: failed to emit HELLO'' @ nl), Exit 10)
           | Exchange_failed \<Rightarrow> (cerr w (''lattice: negotiation failed'' @ nl), Exit 3)
           | Exchanged left' caps _ \<Rightarrow> save_and_exit (cout w (capability_text caps)) left' path))"

definition bridge_memory :: "World \<Rightarrow> BridgePolicy \<Rightarrow> World \<times> CliEnd" where
  "bridge_memory w policy =
     (case hello_exchange echo_engine echo_engine of
        Start_failed \<Rightarrow> (cerr w (''lattice: failed to emit bridge HELLO'' @ nl), Exit 10)
      | Exchange_failed \<Rightarrow> (cerr w (''lattice: bridge negotiation failed'' @ nl), Exit 3)
      | Exchanged _ left_caps right_caps \<Rightarrow>
          (case create_route new_gateway (bp_source policy) (bp_destination policy) (bp_family_id policy) of
             (gateway, Inl err) \<Rightarrow> print_error w err
           | (gateway, Inr route) \<Rightarrow>
               (case bridge_message gateway left_caps right_caps (bp_source policy) (bp_payload policy) of
                  Inl err \<Rightarrow> print_error w err
                | Inr m \<Rightarrow>
                    (cout w (''bridge=memory route='' @ decimal (unat (gm_route_id m)) @
                       '' source='' @ channel_str (gm_source m) @
                       '' destination='' @ channel_str (gm_destination m) @
                       '' family='' @ decimal (unat (gm_family_id m)) @
                       '' bytes='' @ decimal (length (gm_payload m)) @ nl), Exit 0))))"

definition fixture_memory_hello :: "World \<Rightarrow> World \<times> CliEnd" where
  "fixture_memory_hello w =
     (case (start echo_engine, start echo_engine) of
        ((_, Inr left_hello), (_, Inr right_hello)) \<Rightarrow>
          let log = trace_record
                (trace_record new_trace
                   \<lparr>te_time_ms = 0, te_kind = TK_transport_bytes, te_label = ''left.hello'',
                    te_bytes = left_hello ! 0\<rparr>)
                \<lparr>te_time_ms = 0, te_kind = TK_transport_bytes, te_label = ''right.hello'',
                 te_bytes = right_hello ! 0\<rparr>
          in (case trace_serialize log of
                Inl err \<Rightarrow> print_error w err
              | Inr s \<Rightarrow> (cout w s, Exit 0))
      | _ \<Rightarrow> (cerr w (''lattice: failed to emit fixture HELLO'' @ nl), Exit 10))"

text \<open>The bytes of a text read with \<open>istreambuf_iterator<char>\<close>.\<close>

definition text_bytes :: "string \<Rightarrow> bytes" where
  "text_bytes s = map (\<lambda>c. of_nat (of_char c)) s"

definition cannot_open :: "World \<Rightarrow> string \<Rightarrow> World \<times> CliEnd" where
  "cannot_open w path = (cerr w (''lattice: cannot open '' @ path @ nl), Exit 3)"

definition frame_line :: "Frame \<Rightarrow> string" where
  "frame_line f =
     ''frame type='' @ decimal (unat (frame_type_code (f_type f))) @
     '' channel='' @ channel_str (f_channel f) @ '' seq='' @ decimal (unat (f_frame_seq f)) @
     '' payload='' @ decimal (length (f_payload f)) @ nl"

fun dump_events :: "World \<Rightarrow> DecodeEvent list \<Rightarrow> World \<times> CliEnd" where
  "dump_events w [] = (w, Exit 0)"
| "dump_events w (DE_frame f # events) = dump_events (cout w (frame_line f)) events"
| "dump_events w (DE_error err # events) = print_error w err"
| "dump_events w (DE_need_more # events) = dump_events w events"

definition dump_file :: "World \<Rightarrow> string \<Rightarrow> World \<times> CliEnd" where
  "dump_file w path =
     (case read_file w path of
        None \<Rightarrow> cannot_open w path
      | Some s \<Rightarrow> dump_events w (snd (feed (new_codec default_frame_limits) (text_bytes s) True)))"

definition report_text :: "TraceReplayReport \<Rightarrow> string" where
  "report_text r =
     ''events='' @ decimal (tr_total_events r) @ '' transport='' @ decimal (tr_transport_events r) @
     '' api='' @ decimal (tr_api_events r) @ '' timer='' @ decimal (tr_timer_events r) @
     '' plugin='' @ decimal (tr_plugin_events r) @ '' diagnostic='' @ decimal (tr_diagnostic_events r) @
     '' bytes='' @ decimal (tr_total_bytes r) @
     '' canonical='' @ (if tr_canonical r then ''yes'' else ''no'') @ nl"

definition replay_trace :: "World \<Rightarrow> string \<Rightarrow> World \<times> CliEnd" where
  "replay_trace w path =
     (case read_file w path of
        None \<Rightarrow> cannot_open w path
      | Some s \<Rightarrow>
          (case trace_parse s of
             Inl err \<Rightarrow> print_error w err
           | Inr log \<Rightarrow>
               (case verify_trace_replay log of
                  Inl err \<Rightarrow> print_error w err
                | Inr report \<Rightarrow> (cout w (report_text report), Exit 0))))"

section \<open>Commands over sockets\<close>

text \<open>A transport is closed when its command returns; an exception nobody catches ends the process
  without that.\<close>

fun closing :: "UnixTransport \<Rightarrow> World \<times> CliEnd \<Rightarrow> World \<times> CliEnd" where
  "closing t (w, Exit n) = (w\<lparr>w_kernel := fst (unix_close (w_kernel w) t)\<rparr>, Exit n)"
| "closing t (w, ending) = (w, ending)"

fun closing_listener :: "UnixListener \<Rightarrow> World \<times> CliEnd \<Rightarrow> World \<times> CliEnd" where
  "closing_listener l (w, Exit n) = (w\<lparr>w_kernel := fst (listener_close (w_kernel w) l)\<rparr>, Exit n)"
| "closing_listener l (w, ending) = (w, ending)"

text \<open>Negotiation and what follows when it succeeds: the shared part of the socket commands.\<close>

definition negotiating :: "World \<Rightarrow> UnixTransport \<Rightarrow> ConnectionEngine \<Rightarrow>
   (World \<Rightarrow> ConnectionEngine \<Rightarrow> World \<times> CliEnd) \<Rightarrow> World \<times> CliEnd" where
  "negotiating w t e continue =
     (case negotiate_unix_peer (w_kernel w) t e of
        Returns ((k, e'), Inl err) \<Rightarrow> print_error (w\<lparr>w_kernel := k\<rparr>) err
      | Returns ((k, e'), Inr _) \<Rightarrow> continue (w\<lparr>w_kernel := k\<rparr>) e'
      | Throws what \<Rightarrow> (w, Uncaught what)
      | Blocks \<Rightarrow> (w, Waiting))"

definition report_session :: "string \<Rightarrow> string \<Rightarrow> string \<Rightarrow> World \<Rightarrow> ConnectionEngine \<Rightarrow> World \<times> CliEnd" where
  "report_session prefix complaint path w e =
     (case ce_capabilities e of
        None \<Rightarrow> (cerr w (complaint @ nl), Exit 10)
      | Some caps \<Rightarrow> save_and_exit (print_capabilities w prefix caps) e path)"

definition probe_unix :: "World \<Rightarrow> string \<Rightarrow> string \<Rightarrow> World \<times> CliEnd" where
  "probe_unix w path snapshot_path =
     (let (k, r) = connect_path (w_kernel w) path (fst (w_connect w)) (snd (w_connect w));
          w' = w\<lparr>w_kernel := k\<rparr>
      in case r of
        Inl err \<Rightarrow> print_error w' err
      | Inr transport \<Rightarrow> closing transport
          (case load_snapshot_if_present w' echo_engine snapshot_path of
             (e, Inl err) \<Rightarrow> print_error w' err
           | (e, Inr _) \<Rightarrow> negotiating w' transport e
               (report_session ''transport=unix'' ''lattice: Unix probe did not negotiate capabilities''
                  snapshot_path)))"

definition serve_unix :: "World \<Rightarrow> string \<Rightarrow> string \<Rightarrow> string \<Rightarrow> World \<times> CliEnd" where
  "serve_unix w path plugin snapshot_path =
     (if plugin \<noteq> ''echo''
      then (cerr w (''lattice: unsupported plugin '' @ [CHR 0x27] @ plugin @ [CHR 0x27] @ nl), Exit 2)
      else
        let (socket_answer, bind_failure, listen_failure) = w_bind w;
            (k, r) = bind_path (w_kernel w) path socket_answer bind_failure listen_failure;
            w' = w\<lparr>w_kernel := k\<rparr>
        in case r of
          Inl err \<Rightarrow> print_error w' err
        | Inr listener \<Rightarrow> closing_listener listener
            (case accept_one (w_kernel w') listener (w_accepts w) of
               Returns (k', Inl err) \<Rightarrow> print_error (w'\<lparr>w_kernel := k'\<rparr>) err
             | Returns (k', Inr peer) \<Rightarrow>
                 let w'' = w'\<lparr>w_kernel := k'\<rparr>
                 in closing peer
                   (case load_snapshot_if_present w'' echo_engine snapshot_path of
                      (e, Inl err) \<Rightarrow> print_error w'' err
                    | (e, Inr _) \<Rightarrow> negotiating w'' peer e
                        (report_session ''serve=unix'' ''lattice: Unix endpoint did not negotiate capabilities''
                           snapshot_path))
             | Throws what \<Rightarrow> (w', Uncaught what)
             | Blocks \<Rightarrow> (w', Waiting)))"

text \<open>The last part of \<open>bridge_unix\<close>, once both sides are negotiated.\<close>

definition bridge_sessions :: "UnixBridgeArgs \<Rightarrow> BridgePolicy \<Rightarrow> UnixTransport \<Rightarrow> UnixTransport \<Rightarrow>
   ConnectionEngine \<Rightarrow> World \<Rightarrow> ConnectionEngine \<Rightarrow> World \<times> CliEnd" where
  "bridge_sessions args policy left_transport right_transport left w right =
     (case (ce_capabilities left, ce_capabilities right) of
        (Some left_caps, Some right_caps) \<Rightarrow>
          (case create_route new_gateway (bp_source policy) (bp_destination policy) (bp_family_id policy) of
             (gateway, Inl err) \<Rightarrow> print_error w err
           | (gateway, Inr route) \<Rightarrow>
               (case bridge_message gateway left_caps right_caps (bp_source policy) (bp_payload policy) of
                  Inl err \<Rightarrow> print_error w err
                | Inr m \<Rightarrow>
                    let w' = cout w (''bridge=unix route='' @ decimal (unat (gm_route_id m)) @
                          '' left='' @ ub_left args @ '' right='' @ ub_right args @
                          '' source='' @ channel_str (gm_source m) @
                          '' destination='' @ channel_str (gm_destination m) @
                          '' family='' @ decimal (unat (gm_family_id m)) @
                          '' bytes='' @ decimal (length (gm_payload m)) @ nl);
                        runtime = \<lparr>br_left = left, br_right = right, br_left_transport = left_transport,
                          br_right_transport = right_transport, br_gateway = gateway,
                          br_left_events = length (ce_events left), br_right_events = length (ce_events right)\<rparr>
                    in (case run_unix_bridge_loop (w_selects w') (w_kernel w') runtime of
                          Returns ((k, _), Inl err) \<Rightarrow> print_error (w'\<lparr>w_kernel := k\<rparr>) err
                        | Returns ((k, _), Inr _) \<Rightarrow> (w'\<lparr>w_kernel := k\<rparr>, Exit 0)
                        | Throws what \<Rightarrow> (w', Uncaught what)
                        | Blocks \<Rightarrow> (w', Waiting))))
      | _ \<Rightarrow> (cerr w (''lattice: Unix bridge did not negotiate both endpoints'' @ nl), Exit 10))"

definition bridge_unix :: "World \<Rightarrow> UnixBridgeArgs \<Rightarrow> World \<times> CliEnd" where
  "bridge_unix w args =
     (case read_bridge_policy (read_file w) (ub_policy args) of
        Inl err \<Rightarrow> print_error w err
      | Inr policy \<Rightarrow>
          let (k, r) = connect_path (w_kernel w) (ub_left args) (fst (w_connect w)) (snd (w_connect w));
              w1 = w\<lparr>w_kernel := k\<rparr>
          in case r of
            Inl err \<Rightarrow> print_error w1 err
          | Inr left_transport \<Rightarrow> closing left_transport
              (let (k', r') = connect_path (w_kernel w1) (ub_right args) (fst (w_connect_right w1))
                      (snd (w_connect_right w1));
                   w2 = w1\<lparr>w_kernel := k'\<rparr>
               in case r' of
                 Inl err \<Rightarrow> print_error w2 err
               | Inr right_transport \<Rightarrow> closing right_transport
                   (negotiating w2 left_transport echo_engine (\<lambda>w3 left.
                      negotiating w3 right_transport echo_engine (\<lambda>w4 right.
                        bridge_sessions args policy left_transport right_transport left w4 right)))))"

section \<open>The dispatch\<close>

definition usage_text :: string where
  "usage_text = concat (map (\<lambda>l. l @ nl)
     [''usage:'',
      ''  lattice probe --memory'',
      ''  lattice probe --memory [--snapshot <file>]'',
      ''  lattice probe --socket <path> [--snapshot <file>]'',
      ''  lattice serve --socket <path> --plugin echo [--snapshot <file>]'',
      ''  lattice bridge --memory [--policy <file>]'',
      ''  lattice bridge --left <path> --right <path> --policy <file>'',
      ''  lattice dump <file>'',
      ''  lattice replay <trace-file>'',
      ''  lattice fixture --memory-hello''])"

definition usage :: "World \<Rightarrow> World \<times> CliEnd" where
  "usage w = (cout w usage_text, Exit 2)"

definition lattice_main :: "World \<Rightarrow> string list \<Rightarrow> World \<times> CliEnd" where
  "lattice_main w argv =
     (let argc = length argv; command = argv ! 1
      in if argc < 2 then usage w
         else if command = ''probe'' \<and> argc = 3 \<and> argv ! 2 = ''--memory'' then probe_memory w []
         else if command = ''probe'' \<and> argc = 5 \<and> argv ! 2 = ''--memory'' \<and> argv ! 3 = ''--snapshot''
         then probe_memory w (argv ! 4)
         else if command = ''probe'' \<and> argc = 4 \<and> argv ! 2 = ''--socket'' then probe_unix w (argv ! 3) []
         else if command = ''probe'' \<and> argc = 6 \<and> argv ! 2 = ''--socket'' \<and> argv ! 4 = ''--snapshot''
         then probe_unix w (argv ! 3) (argv ! 5)
         else if command = ''serve'' \<and> argc = 6 \<and> argv ! 2 = ''--socket'' \<and> argv ! 4 = ''--plugin''
         then serve_unix w (argv ! 3) (argv ! 5) []
         else if command = ''serve'' \<and> argc = 8 \<and> argv ! 2 = ''--socket'' \<and> argv ! 4 = ''--plugin'' \<and>
           argv ! 6 = ''--snapshot''
         then serve_unix w (argv ! 3) (argv ! 5) (argv ! 7)
         else if command = ''bridge'' \<and> argc = 3 \<and> argv ! 2 = ''--memory''
         then bridge_memory w default_bridge_policy
         else if command = ''bridge'' \<and> argc = 5 \<and> argv ! 2 = ''--memory'' \<and> argv ! 3 = ''--policy''
         then (case read_bridge_policy (read_file w) (argv ! 4) of
                 Inl err \<Rightarrow> print_error w err
               | Inr policy \<Rightarrow> bridge_memory w policy)
         else
           (case (if command = ''bridge'' then parse_unix_bridge_args argv else None) of
              Some args \<Rightarrow> bridge_unix w args
            | None \<Rightarrow>
                if command = ''dump'' \<and> argc = 3 then dump_file w (argv ! 2)
                else if command = ''replay'' \<and> argc = 3 then replay_trace w (argv ! 2)
                else if command = ''fixture'' \<and> argc = 3 \<and> argv ! 2 = ''--memory-hello''
                then fixture_memory_hello w
                else usage w))"

section \<open>The memory commands\<close>

definition echo_capabilities :: CapabilitySet where
  "echo_capabilities = agreed (policy_hello default_policy echo_registry) (policy_hello default_policy echo_registry)"

lemma echo_engine_starts:
  "\<exists>e payload bs. start echo_engine = (e, Inr [bs]) \<and> greeting default_policy echo_registry e \<and>
     encode_hello_payload (policy_hello default_policy echo_registry) = Inr payload \<and>
     encode_frame (engine_limits default_policy) (hello_frame payload) = Inr bs \<and> length payload = 52"
proof -
  obtain e bs where e: "start echo_engine = (e, Inr [bs])"
    using echo_starts_one unfolding echo_engine_def by blast
  have "lp_connection_window default_policy \<le> SIZE_MAX" using default_policy_fits by (simp add: policy_fits_def)
  from start_greets[OF e[unfolded echo_engine_def] this] obtain payload bs' where
    "encode_hello_payload (policy_hello default_policy echo_registry) = Inr payload"
    "encode_frame (engine_limits default_policy) (hello_frame payload) = Inr bs'" "[bs] = [bs']"
    "greeting default_policy echo_registry e" by blast
  then show ?thesis using e echo_hello by auto
qed

lemma hello_length:
  "encode_frame limits (hello_frame payload) = Inr bs \<Longrightarrow> length payload = 52 \<Longrightarrow> length bs = 73"
  by (auto simp: encode_frame_iff length_frame_bytes hello_frame_def write_extensions_def uleb_bytes_last)

lemma echo_exchange: "\<exists>e. hello_exchange echo_engine echo_engine = Exchanged e echo_capabilities echo_capabilities"
proof -
  let ?h = "policy_hello default_policy echo_registry"
  obtain a payload bs where a: "start echo_engine = (a, Inr [bs])" "greeting default_policy echo_registry a"
    "encode_hello_payload ?h = Inr payload"
    "encode_frame (engine_limits default_policy) (hello_frame payload) = Inr bs" "length payload = 52"
    using echo_engine_starts by blast
  have win: "lp_connection_window default_policy \<le> SIZE_MAX" using default_policy_fits by (simp add: policy_fits_def)
  have len: "length (concat [bs]) \<le> lp_max_frame default_policy"
    using hello_length[OF a(4,5)] by (simp add: default_policy_def)
  obtain y where y: "receive a (concat [bs]) False = handle_frames a [hello_frame y]"
    "decode_hello_payload y = Inr (wire_hello ?h)" "negotiate ?h (wire_hello ?h) = negotiate ?h ?h"
    by (rule hello_received[OF a(1)[unfolded echo_engine_def] a(1)[unfolded echo_engine_def] win win echo_fits len])
  have n: "negotiate ?h ?h = Inr echo_capabilities"
    using echo_compatible negotiate_when[of ?h ?h] by (simp add: echo_capabilities_def)
  obtain e' where "receive a bs False = (e', Inr [])" "ce_capabilities e' = Some echo_capabilities"
    using handle_greeting[OF a(2) y(2,3)] y(1) n by auto
  then show ?thesis using a(1) by (simp add: hello_exchange_def)
qed

lemma echo_capability_fields:
  "cap_major echo_capabilities = 1" "cap_max_frame echo_capabilities = 65536"
  "cap_max_message echo_capabilities = 1048576" "cap_max_channels echo_capabilities = lp_max_channels default_policy"
  "cap_plugins echo_capabilities = [echo_descriptor]"
  unfolding echo_capabilities_def echo_caps
  by (simp_all add: agreed_def Let_def policy_hello_def default_policy_def)

lemma decimal_numeral: "decimal (numeral n) =
    (if (numeral n :: nat) < 10 then [digit_char (numeral n)]
     else decimal (numeral n div 10) @ [digit_char (numeral n mod 10)])"
  by (rule decimal.simps)

lemma digit_chars:
  "digit_char 0 = CHR ''0''" "digit_char (Suc 0) = CHR ''1''" "digit_char 1 = CHR ''1''" "digit_char 2 = CHR ''2''"
  "digit_char 3 = CHR ''3''" "digit_char 4 = CHR ''4''" "digit_char 5 = CHR ''5''" "digit_char 6 = CHR ''6''"
  "digit_char 7 = CHR ''7''" "digit_char 8 = CHR ''8''" "digit_char 9 = CHR ''9''"
  by (simp_all add: digit_char_def char_of_def bit_Suc_0_iff)

lemma decimal_small: "decimal 0 = ''0''" "decimal (Suc 0) = ''1''"
  by (simp_all add: decimal.simps digit_chars)

lemma echo_capability_text:
  "capability_text echo_capabilities =
     ''LTX/1 max_frame=65536 max_message=1048576 channels=256 plugins=1'' @ nl"
  by (simp add: capability_text_def echo_capability_fields default_policy_def decimal_numeral
      decimal_small digit_chars)

section \<open>What the memory bridge forwards\<close>

lemma find_echo_family: "find_family echo_capabilities family =
    (if family = 7 then Some echo_descriptor else None)"
  by (simp add: find_family_def echo_capability_fields echo_descriptor_def)

lemma untranslated:
  "gp_translators (gw_policy gw) = [] \<Longrightarrow> gateway_translate gw echo_capabilities echo_capabilities family payload =
     (if family \<noteq> 7 then Inl (make_error ES_plugin EC_plugin_decode CA_reject_message
         ''schema-mismatched opaque forwarding rejected'')
      else if length payload > 1048576
      then Inl (make_error ES_message EC_resource_limit CA_reject_message
         ''translated payload exceeds destination limit'')
      else Inr payload)"
  by (auto simp: gateway_translate_def may_forward_def find_echo_family family_negotiated_def
      echo_capability_fields translate_payload_def echo_descriptor_def om_get_def)

lemma first_route:
  assumes "create_route new_gateway source dest family = (gw, Inr route)"
  shows "gp_translators (gw_policy gw) = []" "find_route gw source = Inr route"
    "route = \<lparr>gr_id = 1, gr_source = source, gr_destination = dest, gr_family_id = family\<rparr>" "family \<noteq> 0"
  using assms by (auto simp: create_route_def new_gateway_def find_route_def Let_def split: if_splits)

text \<open>Remark. The memory bridge, on every policy: it refuses a route over a control channel or
  without a family, a family other than the echo plugin's and a payload over the message limit,
  each with its error and status 3; every other payload passes, over route 1.\<close>

theorem bridge_memory_exact:
  "bridge_memory w policy =
     (if is_control (bp_source policy) \<or> is_control (bp_destination policy) \<or> bp_family_id policy = 0
      then print_error w (make_error ES_channel EC_illegal_state CA_reject_message
             ''gateway route requires two data channels and a family'')
      else if bp_family_id policy \<noteq> 7
      then print_error w (make_error ES_plugin EC_plugin_decode CA_reject_message
             ''schema-mismatched opaque forwarding rejected'')
      else if length (bp_payload policy) > 1048576
      then print_error w (make_error ES_message EC_resource_limit CA_reject_message
             ''translated payload exceeds destination limit'')
      else (cout w (''bridge=memory route=1 source='' @ channel_str (bp_source policy) @
              '' destination='' @ channel_str (bp_destination policy) @ '' family=7 bytes='' @
              decimal (length (bp_payload policy)) @ nl), Exit 0))"
proof -
  obtain e where x: "hello_exchange echo_engine echo_engine = Exchanged e echo_capabilities echo_capabilities"
    using echo_exchange by blast
  let ?route = "create_route new_gateway (bp_source policy) (bp_destination policy) (bp_family_id policy)"
  show ?thesis
  proof (cases "is_control (bp_source policy) \<or> is_control (bp_destination policy) \<or> bp_family_id policy = 0")
    case True
    then show ?thesis by (simp add: bridge_memory_def x create_route_def)
  next
    case False
    then obtain gw route where r: "?route = (gw, Inr route)" by (auto simp: create_route_def Let_def)
    note f = first_route[OF r]
    have "decimal 7 = ''7''" by (simp add: decimal_numeral digit_chars)
    then show ?thesis using False f(4)
      by (simp add: bridge_memory_def x r bridge_message_def f(2) forward_def f(3) untranslated[OF f(1)] decimal_small)
  qed
qed

section \<open>Dumping a file of frames\<close>

lemma dump_frames: "dump_events w (map DE_frame fs) = (cout w (concat (map frame_line fs)), Exit 0)"
  by (induction fs arbitrary: w) (simp_all add: cout_def)

text \<open>Remark. A dump lists the frames of a file: of a file holding encoded frames, one line for
  each, in order, with status 0.\<close>

theorem dump_lists_frames:
  assumes "list_all2 (\<lambda>f out. encode_frame default_frame_limits f = Inr out) fs outs"
    and "list_all (\<lambda>f. list_all extension_ok (f_extensions f)) fs"
    and "read_file w path = Some s" "text_bytes s = concat outs"
  shows "dump_file w path = (cout w (concat (map (\<lambda>f. frame_line (normal_frame f)) fs)), Exit 0)"
proof -
  have "fl_max_header default_frame_limits \<le> 65535" by (simp add: default_frame_limits_def)
  from feed_encoded[OF assms(1,2) this, of True "[]"]
  have "snd (feed (new_codec default_frame_limits) (text_bytes s) True) =
      (if fs = [] then [DE_need_more] else map DE_frame (map normal_frame fs))"
    by (simp add: feed_def new_codec_def assms(4) o_def)
  then show ?thesis using dump_frames[of w "map normal_frame fs"]
    by (simp add: dump_file_def assms(3) cout_def o_def)
qed

definition bytes_text :: "bytes \<Rightarrow> string" where
  "bytes_text bs = map (\<lambda>b. char_of (unat b)) bs"

lemma text_bytes_text [simp]: "text_bytes (bytes_text bs) = bs"
proof -
  have "of_nat (of_char (char_of (unat b))) = b" for b :: u8
    using unat_u8_less[of b] by simp
  then show ?thesis by (simp add: text_bytes_def bytes_text_def map_idI)
qed

definition sample_world :: "Disk \<Rightarrow> World" where
  "sample_world disk = \<lparr>w_disk = disk, w_faults = no_faults, w_stat_ok = True,
     w_kernel = \<lparr>k_sockets = Map.empty, k_paths = {}\<rparr>,
     w_connect = (Socket_opens 3, Connect_fails ''Connection refused''),
     w_connect_right = (Socket_opens 4, Connect_fails ''Connection refused''),
     w_bind = (Socket_opens 3, None, None), w_accepts = [], w_selects = [], w_out = [], w_err = []\<rparr>"

lemma sample_reads: "read_file (sample_world disk) path = disk path"
  by (cases "disk path") (simp_all add: read_file_def sample_world_def no_faults_def)

theorem dump_lists_frames_witness:
  "dump_file (sample_world [''f'' \<mapsto> bytes_text (sample_bytes @ sample_bytes)]) ''f'' =
     (cout (sample_world [''f'' \<mapsto> bytes_text (sample_bytes @ sample_bytes)])
        (frame_line (normal_frame sample_frame) @ frame_line (normal_frame sample_frame)), Exit 0)"
  using dump_lists_frames[of "[sample_frame, sample_frame]" "[sample_bytes, sample_bytes]"
      "sample_world [''f'' \<mapsto> bytes_text (sample_bytes @ sample_bytes)]" "''f''"]
    sample_encode sample_extensions_ok sample_reads by simp

section \<open>Exit statuses\<close>

text \<open>What a status tells: 0 that nothing was written to the error stream, any other that something
  was.\<close>

definition reported :: "World \<Rightarrow> World \<times> CliEnd \<Rightarrow> bool" where
  "reported w r \<longleftrightarrow> (case snd r of
       Exit n \<Rightarrow> (n = 0 \<and> w_err (fst r) = w_err w) \<or>
         (n \<in> {2, 3, 10} \<and> (\<exists>m. m \<noteq> [] \<and> w_err (fst r) = w_err w @ m))
     | _ \<Rightarrow> True)"

named_theorems reporting "commands whose exit status tells what the error stream holds"

lemma reported_end [simp]:
  "reported w (w', Uncaught what)" "reported w (w', Waiting)"
  "reported w (w', Exit 0) \<longleftrightarrow> w_err w' = w_err w"
  by (simp_all add: reported_def)

lemma reported_complaint: "w_err w' = w_err w \<Longrightarrow> m \<noteq> [] \<Longrightarrow> n \<in> {2, 3, 10} \<Longrightarrow> reported w (cerr w' m, Exit n)"
  by (auto simp: reported_def cerr_def)

lemma reported_error: "w_err w' = w_err w \<Longrightarrow> reported w (print_error w' e)"
  by (simp add: print_error_def nl_def reported_complaint)

lemma w_err_simps [simp]: "w_err (cout w s) = w_err w" "w_err (print_capabilities w prefix caps) = w_err w"
  by (simp_all add: cout_def print_capabilities_def)

lemma save_snapshot_err: "save_snapshot w e path = Returns (w', r) \<Longrightarrow> w_err w' = w_err w"
  by (auto simp: save_snapshot_def split: if_splits sum.splits run.splits prod.splits)

lemma reported_save: "w_err w' = w_err w \<Longrightarrow> reported w (save_and_exit w' e path)"
  by (auto simp: save_and_exit_def intro!: reported_error dest: save_snapshot_err split: run.splits prod.splits sum.splits)

lemma reported_closing [simp]:
  "reported w (closing t r) = reported w r" "reported w (closing_listener l r) = reported w r"
  by (cases "snd r"; cases r; simp add: reported_def)+

lemma reported_session: "w_err w' = w_err w \<Longrightarrow> complaint \<noteq> [] \<Longrightarrow> reported w (report_session prefix complaint path w' e)"
  by (auto simp: report_session_def intro!: reported_complaint reported_save split: option.splits)

lemma reported_negotiating:
  "w_err w' = w_err w \<Longrightarrow> (\<And>w'' e'. w_err w'' = w_err w \<Longrightarrow> reported w (continue w'' e')) \<Longrightarrow>
     reported w (negotiating w' t e continue)"
  by (auto simp: negotiating_def intro!: reported_error split: run.splits prod.splits sum.splits)

lemma reported_probe_memory [reporting]: "reported w (probe_memory w path)"
  by (auto simp: probe_memory_def intro!: reported_error reported_complaint reported_save
      split: prod.splits sum.splits Exchange.splits)

lemma reported_bridge_memory [reporting]: "reported w (bridge_memory w policy)"
  by (auto simp: bridge_memory_def intro!: reported_error reported_complaint
      split: prod.splits sum.splits Exchange.splits)

lemma reported_fixture [reporting]: "reported w (fixture_memory_hello w)"
  by (auto simp: fixture_memory_hello_def Let_def intro!: reported_error reported_complaint split: prod.splits sum.splits)

lemma reported_dump_events: "w_err w' = w_err w \<Longrightarrow> reported w (dump_events w' events)"
  by (induction w' events rule: dump_events.induct) (auto intro: reported_error)

lemma reported_cannot_open: "reported w (cannot_open w path)"
  by (simp add: cannot_open_def reported_complaint)

lemma reported_dump [reporting]: "reported w (dump_file w path)"
  by (auto simp: dump_file_def intro: reported_cannot_open reported_dump_events split: option.splits)

lemma reported_replay [reporting]: "reported w (replay_trace w path)"
  by (auto simp: replay_trace_def intro: reported_cannot_open reported_error split: option.splits sum.splits)

lemma reported_probe_unix [reporting]: "reported w (probe_unix w path snapshot_path)"
  by (auto simp: probe_unix_def Let_def intro!: reported_error reported_negotiating reported_session
      split: prod.splits sum.splits)

lemma reported_serve_unix [reporting]: "reported w (serve_unix w path plugin snapshot_path)"
  by (auto simp: serve_unix_def Let_def intro!: reported_error reported_complaint reported_negotiating reported_session
      split: prod.splits sum.splits run.splits)

lemma reported_sessions: "w_err w' = w_err w \<Longrightarrow> reported w (bridge_sessions args policy lt rt left w' right)"
  by (auto simp: bridge_sessions_def Let_def intro!: reported_error reported_complaint
      split: option.splits prod.splits sum.splits run.splits)

lemma reported_bridge_unix [reporting]: "reported w (bridge_unix w args)"
  by (auto simp: bridge_unix_def Let_def intro!: reported_error reported_negotiating reported_sessions
      split: prod.splits sum.splits)

text \<open>Property C36. The exit status of the program is truthful: 0 exactly when the error stream is as it
  was and the usage was not printed, otherwise 2, 3 or 10; 3 and 10 always come with a message,
  and 2 with a message or with the usage on the output stream.\<close>

theorem exit_status_told:
  assumes "lattice_main w argv = (w', Exit n)"
  shows "n \<in> {0, 2, 3, 10} \<and>
    (if n = 0 then w_err w' = w_err w
     else (\<exists>m. m \<noteq> [] \<and> w_err w' = w_err w @ m) \<or> n = 2 \<and> w' = cout w usage_text)"
proof -
  have "reported w (lattice_main w argv) \<or> lattice_main w argv = usage w"
    by (auto simp: lattice_main_def Let_def reporting reported_error split: sum.splits option.splits)
  then show ?thesis using assms by (auto simp: reported_def usage_def)
qed

theorem exit_status_told_witness:
  "\<exists>w'. lattice_main (sample_world Map.empty) [''lattice'', ''dump'', ''missing''] = (w', Exit 3) \<and> w_err w' \<noteq> []"
proof -
  have r: "lattice_main (sample_world Map.empty) [''lattice'', ''dump'', ''missing''] =
      (cerr (sample_world Map.empty) (''lattice: cannot open missing'' @ nl), Exit 3)"
    by (simp add: lattice_main_def dump_file_def sample_reads cannot_open_def)
  from exit_status_told[OF r] r show ?thesis by auto
qed

text \<open>Which end the two-sided bridge has.\<close>

definition not_success :: "World \<times> CliEnd \<Rightarrow> bool" where
  "not_success r \<longleftrightarrow> snd r \<noteq> Exit 0"

lemma not_success_simps [simp]:
  "not_success (print_error w e)" "not_success (w, Waiting)" "not_success (w, Uncaught what)"
  "not_success (w, Exit n) \<longleftrightarrow> n \<noteq> 0" "not_success (closing t r) \<longleftrightarrow> not_success r"
  by (simp_all add: not_success_def print_error_def) (cases "snd r"; cases r; simp add: not_success_def)

lemma not_success_negotiating:
  "(\<And>w' e'. not_success (continue w' e')) \<Longrightarrow> not_success (negotiating w t e continue)"
  by (auto simp: negotiating_def split: run.splits prod.splits sum.splits)

lemma not_success_sessions: "not_success (bridge_sessions args policy lt rt left w right)"
  by (auto simp: bridge_sessions_def Let_def dest!: bridge_loop_error
      split: option.splits prod.splits sum.splits run.splits)

text \<open>Remark. The socket bridge runs until something breaks: whatever the policy, the
  peers and the kernel do, it never exits with status 0.\<close>

theorem bridge_never_succeeds:
  assumes "bridge_unix w args = (w', Exit n)"
  shows "n \<noteq> 0"
proof -
  have "not_success (bridge_unix w args)"
    by (auto simp: bridge_unix_def Let_def intro!: not_success_negotiating not_success_sessions
        split: prod.splits sum.splits)
  then show ?thesis using assms by (simp add: not_success_def)
qed

section \<open>Descriptors left open\<close>

text \<open>The descriptors the kernel hands out are not open when it does.\<close>

definition fresh_answers :: "World \<Rightarrow> bool" where
  "fresh_answers w \<longleftrightarrow>
     (\<forall>fd. fst (w_connect w) = Socket_opens fd \<longrightarrow> fd \<ge> 0 \<and> fd \<notin> opened (w_kernel w)) \<and>
     (\<forall>fd. fst (w_connect_right w) = Socket_opens fd \<longrightarrow> fd \<ge> 0 \<and> fd \<notin> opened (w_kernel w) \<and>
        fst (w_connect w) \<noteq> Socket_opens fd) \<and>
     (\<forall>fd. fst (w_bind w) = Socket_opens fd \<longrightarrow> fd \<ge> 0 \<and> fd \<notin> opened (w_kernel w)) \<and>
     (\<forall>fd s. Accept_opens fd s \<in> set (w_accepts w) \<longrightarrow> fd \<ge> 0 \<and> fd \<notin> opened (w_kernel w) \<and>
        fst (w_bind w) \<noteq> Socket_opens fd)"

definition leaves_open :: "int set \<Rightarrow> World \<times> CliEnd \<Rightarrow> bool" where
  "leaves_open F r \<longleftrightarrow> (case snd r of Exit n \<Rightarrow> opened (w_kernel (fst r)) = F | _ \<Rightarrow> True)"

lemma leaves_open_simps [simp]:
  "leaves_open F (w, Exit n) \<longleftrightarrow> opened (w_kernel w) = F"
  "leaves_open F (w, Uncaught what)" "leaves_open F (w, Waiting)"
  "leaves_open F (print_error w e) \<longleftrightarrow> opened (w_kernel w) = F"
  by (simp_all add: leaves_open_def print_error_def cerr_def)

lemma w_kernel_simps [simp]:
  "w_kernel (cout w s) = w_kernel w" "w_kernel (cerr w s) = w_kernel w"
  "w_kernel (print_capabilities w prefix caps) = w_kernel w"
  by (simp_all add: cout_def cerr_def print_capabilities_def)

lemma opened_sys [simp]:
  "opened (sys_open k fd s) = insert fd (opened k)" "opened (sys_close k fd) = opened k - {fd}"
  "opened (sys_unlink k path) = opened k" "opened (k\<lparr>k_paths := ps\<rparr>) = opened k"
  by (auto simp: opened_def sys_open_def sys_close_def sys_unlink_def split: if_splits)

lemma leaves_open_closing:
  assumes "leaves_open (insert (ut_fd t) F) r" "ut_fd t \<ge> 0" "ut_fd t \<notin> F"
  shows "leaves_open F (closing t r)"
  using assms by (cases r; cases "snd r") (auto simp: unix_close_def)

lemma leaves_open_closing_listener:
  assumes "leaves_open (insert (ul_fd l) F) r" "ul_fd l \<ge> 0" "ul_fd l \<notin> F"
  shows "leaves_open F (closing_listener l r)"
  using assms by (cases r; cases "snd r") (auto simp: listener_close_def Let_def)

lemma save_snapshot_kernel: "save_snapshot w e path = Returns (w', r) \<Longrightarrow> w_kernel w' = w_kernel w"
  by (auto simp: save_snapshot_def split: if_splits sum.splits run.splits prod.splits)

lemma leaves_open_save: "opened (w_kernel w) = F \<Longrightarrow> leaves_open F (save_and_exit w e path)"
  by (auto simp: save_and_exit_def dest: save_snapshot_kernel split: run.splits prod.splits sum.splits)

lemma leaves_open_session: "opened (w_kernel w) = F \<Longrightarrow> leaves_open F (report_session prefix complaint path w e)"
  by (auto simp: report_session_def intro!: leaves_open_save split: option.splits)

lemma leaves_open_negotiating:
  "opened (w_kernel w) = F \<Longrightarrow> (\<And>w' e'. opened (w_kernel w') = F \<Longrightarrow> leaves_open F (continue w' e')) \<Longrightarrow>
     leaves_open F (negotiating w t e continue)"
  by (auto simp: negotiating_def dest!: opened_negotiate split: run.splits prod.splits sum.splits)

lemma leaves_open_sessions:
  "opened (w_kernel w) = F \<Longrightarrow> leaves_open F (bridge_sessions args policy lt rt left w right)"
  by (auto simp: bridge_sessions_def Let_def dest!: opened_loop split: option.splits prod.splits sum.splits run.splits)

lemma connected:
  assumes "connect_path k path sa ca = (k', r)" "\<And>fd. sa = Socket_opens fd \<Longrightarrow> fd \<notin> opened k"
  shows "case r of Inl e \<Rightarrow> opened k' = opened k
    | Inr t \<Rightarrow> sa = Socket_opens (ut_fd t) \<and> opened k' = insert (ut_fd t) (opened k)"
  using assms by (auto simp: connect_path_def split: if_splits SocketAnswer.splits ConnectAnswer.splits)

lemma bound:
  assumes "bind_path k path sa bf lf = (k', r)" "\<And>fd. sa = Socket_opens fd \<Longrightarrow> fd \<notin> opened k"
  shows "case r of Inl e \<Rightarrow> opened k' = opened k
    | Inr l \<Rightarrow> sa = Socket_opens (ul_fd l) \<and> opened k' = insert (ul_fd l) (opened k)"
  using assms by (auto simp: bind_path_def Let_def split: if_splits SocketAnswer.splits option.splits)

lemma accept_opened: "accept_loop k answers = Returns (k', r) \<Longrightarrow>
    (case r of Inl e \<Rightarrow> k' = k
     | Inr t \<Rightarrow> (\<exists>s. Accept_opens (ut_fd t) s \<in> set answers) \<and> opened k' = insert (ut_fd t) (opened k))"
  by (induction k answers rule: accept_loop.induct) (auto split: sum.splits)

lemma probe_leaves:
  assumes "fresh_answers w"
  shows "leaves_open (opened (w_kernel w)) (probe_unix w path snapshot_path)"
proof -
  obtain k r where c: "connect_path (w_kernel w) path (fst (w_connect w)) (snd (w_connect w)) = (k, r)" by fastforce
  note o = connected[OF c] assms[unfolded fresh_answers_def]
  show ?thesis
  proof (cases r)
    case (Inr t)
    then have t: "fst (w_connect w) = Socket_opens (ut_fd t)" "opened k = insert (ut_fd t) (opened (w_kernel w))"
      "ut_fd t \<ge> 0" "ut_fd t \<notin> opened (w_kernel w)" using o by auto
    show ?thesis
      by (simp add: probe_unix_def c Inr Let_def)
        (auto intro!: leaves_open_closing leaves_open_negotiating leaves_open_session simp: t split: prod.splits sum.splits)
  qed (use o in \<open>simp add: probe_unix_def c\<close>)
qed

lemma serve_leaves:
  assumes "fresh_answers w"
  shows "leaves_open (opened (w_kernel w)) (serve_unix w path plugin snapshot_path)"
proof (cases "plugin = ''echo''")
  case True
  obtain sa bf lf where b: "w_bind w = (sa, bf, lf)" by (cases "w_bind w") auto
  obtain k r where c: "bind_path (w_kernel w) path sa bf lf = (k, r)" by fastforce
  note o = bound[OF c] assms[unfolded fresh_answers_def]
  show ?thesis
  proof (cases r)
    case (Inr l)
    then have l: "sa = Socket_opens (ul_fd l)" "opened k = insert (ul_fd l) (opened (w_kernel w))"
      "ul_fd l \<ge> 0" "ul_fd l \<notin> opened (w_kernel w)" using o b by auto
    have peer: "opened k' = insert (ut_fd t) (opened k) \<and> ut_fd t \<ge> 0 \<and> ut_fd t \<notin> opened k"
      if "accept_loop k (w_accepts w) = Returns (k', Inr t)" for k' t
      using accept_opened[OF that] o(2) b l by fastforce
    have refused: "k' = k" if "accept_loop k (w_accepts w) = Returns (k', Inl err)" for k' err
      using accept_opened[OF that] by simp
    show ?thesis using True
      by (simp add: serve_unix_def b c Inr Let_def, intro leaves_open_closing_listener l(3,4))
        (auto simp: accept_one_def Let_def l(2)[symmetric] dest: peer refused
          intro!: leaves_open_closing leaves_open_negotiating leaves_open_session
          split: prod.splits sum.splits run.splits)
  qed (use o True b in \<open>simp add: serve_unix_def c\<close>)
qed (simp add: serve_unix_def)

lemma bridge_leaves:
  assumes "fresh_answers w"
  shows "leaves_open (opened (w_kernel w)) (bridge_unix w args)"
proof (cases "read_bridge_policy (read_file w) (ub_policy args)")
  case (Inr policy)
  obtain k r where c: "connect_path (w_kernel w) (ub_left args) (fst (w_connect w)) (snd (w_connect w)) = (k, r)"
    by fastforce
  note o = connected[OF c] assms[unfolded fresh_answers_def]
  show ?thesis
  proof (cases r)
    case (Inr left)
    then have l: "fst (w_connect w) = Socket_opens (ut_fd left)" "opened k = insert (ut_fd left) (opened (w_kernel w))"
      "ut_fd left \<ge> 0" "ut_fd left \<notin> opened (w_kernel w)" using o by auto
    obtain k' r' where c': "connect_path k (ub_right args) (fst (w_connect_right w)) (snd (w_connect_right w)) = (k', r')"
      by fastforce
    have o': "case r' of Inl e \<Rightarrow> opened k' = opened k
        | Inr t \<Rightarrow> fst (w_connect_right w) = Socket_opens (ut_fd t) \<and> opened k' = insert (ut_fd t) (opened k)"
      by (rule connected[OF c']) (use o(2) l in auto)
    have "leaves_open (insert (ut_fd left) (opened (w_kernel w)))
        (case r' of
           Inl err \<Rightarrow> print_error (w\<lparr>w_kernel := k'\<rparr>) err
         | Inr right \<Rightarrow> closing right
             (negotiating (w\<lparr>w_kernel := k'\<rparr>) left echo_engine (\<lambda>w3 l.
                negotiating w3 right echo_engine (\<lambda>w4 r. bridge_sessions args policy left right l w4 r))))"
    proof (cases r')
      case (Inr right)
      have r: "opened k' = insert (ut_fd right) (opened k)" "ut_fd right \<ge> 0" "ut_fd right \<notin> opened k"
        using o' o(2) Inr l by auto
      show ?thesis unfolding Inr l(2)[symmetric]
        by (auto intro!: leaves_open_closing leaves_open_negotiating leaves_open_sessions simp: r)
    qed (use o' l in simp)
    then show ?thesis using l(3,4) \<open>r = Inr left\<close> Inr
      by (simp add: bridge_unix_def \<open>read_bridge_policy (read_file w) (ub_policy args) = Inr policy\<close> c c'
          Let_def leaves_open_closing)
  qed (use o Inr in \<open>simp add: bridge_unix_def c\<close>)
qed (simp add: bridge_unix_def)

lemma memory_leaves:
  "leaves_open (opened (w_kernel w)) (probe_memory w path)" "leaves_open (opened (w_kernel w)) (bridge_memory w policy)"
  "leaves_open (opened (w_kernel w)) (fixture_memory_hello w)" "leaves_open (opened (w_kernel w)) (usage w)"
  "leaves_open (opened (w_kernel w)) (dump_file w path)" "leaves_open (opened (w_kernel w)) (replay_trace w path)"
proof -
  have dump: "opened (w_kernel w') = F \<Longrightarrow> leaves_open F (dump_events w' events)" for w' F events
    by (induction w' events rule: dump_events.induct) simp_all
  show "leaves_open (opened (w_kernel w)) (dump_file w path)"
    by (auto simp: dump_file_def cannot_open_def intro: dump split: option.splits)
  show "leaves_open (opened (w_kernel w)) (probe_memory w path)"
    by (auto simp: probe_memory_def intro!: leaves_open_save split: prod.splits sum.splits Exchange.splits)
qed (auto simp: bridge_memory_def fixture_memory_hello_def usage_def replay_trace_def cannot_open_def Let_def
    split: prod.splits sum.splits Exchange.splits option.splits)

text \<open>Property C33. No command leaves a socket behind: whatever it is called with and whatever the
  kernel answers, a program that exits has closed every descriptor it was given.\<close>

theorem descriptors_closed_at_exit:
  assumes "lattice_main w argv = (w', Exit n)" "fresh_answers w"
  shows "opened (w_kernel w') = opened (w_kernel w)"
proof -
  have "leaves_open (opened (w_kernel w)) (lattice_main w argv)"
    by (simp add: lattice_main_def Let_def memory_leaves probe_leaves serve_leaves bridge_leaves assms(2)
        split: sum.split option.split)
  then show ?thesis using assms(1) by simp
qed

text \<open>The example: a peer that accepts the connection and closes it at once.\<close>

definition closing_peer_world :: World where
  "closing_peer_world = (sample_world Map.empty)\<lparr>w_connect := (Socket_opens 3, Connect_ok (hello_socket []))\<rparr>"

lemma closing_peer_probe:
  "\<exists>w'. lattice_main closing_peer_world [''lattice'', ''probe'', ''--socket'', ''/tmp/a''] = (w', Exit 3)"
proof -
  obtain e bs where e: "start echo_engine = (e, Inr [bs])" "greeting default_policy echo_registry e" "length bs = 73"
    using echo_engine_starts hello_length by blast
  let ?k = "sys_open \<lparr>k_sockets = Map.empty, k_paths = {}\<rparr> 3 (hello_socket [])" and ?t = "\<lparr>ut_fd = 3\<rparr>"
  have k: "k_sockets ?k (ut_fd ?t) = Some (hello_socket [])" "ut_fd ?t \<ge> 0"
    "so_sends (hello_socket []) = Send_accepts 100 # []" "length bs \<le> 100"
    using e(3) by (simp_all add: sys_open_def hello_socket_def)
  obtain k1 where w: "write_all ?k ?t [bs] = Returns (k1, Inr ())" using one_send[OF k] by blast
  obtain answers where k1: "k_sockets k1 = (k_sockets ?k)(ut_fd ?t \<mapsto>
      hello_socket []\<lparr>so_sends := answers, so_wire := so_wire (hello_socket []) @ concat [bs]\<rparr>)"
    using write_all_success[OF k(1,2) w] by blast
  have pump: "\<exists>k2. pump k1 ?t e closed = Returns ((k2, e), Inl (bridge_error closed))" for closed
    using k1 by (simp add: pump_def read_some_def socket_of_def hello_socket_def bridge_error_def)
  then obtain k2 where "pump k1 ?t e ''peer closed before HELLO negotiation completed'' =
      Returns ((k2, e), Inl (bridge_error ''peer closed before HELLO negotiation completed''))" by blast
  then have "negotiate_turns (Suc n) k1 ?t e =
      Returns ((k2, e), Inl (bridge_error ''peer closed before HELLO negotiation completed''))" for n
    using greeting_codec(3)[OF e(2)] by (subst negotiate_turns.simps) simp
  then have "negotiate_unix_peer ?k ?t echo_engine =
      Returns ((k2, e), Inl (bridge_error ''peer closed before HELLO negotiation completed''))"
    using e(1) w by (simp add: negotiate_unix_peer_def)
  then show ?thesis
    by (simp add: lattice_main_def probe_unix_def closing_peer_world_def sample_world_def connect_path_def
        sun_path_size_def load_snapshot_if_present_def negotiating_def print_error_def)
qed

theorem descriptors_closed_at_exit_witness:
  "\<exists>w'. lattice_main closing_peer_world [''lattice'', ''probe'', ''--socket'', ''/tmp/a''] = (w', Exit 3) \<and>
     opened (w_kernel w') = {}"
proof -
  obtain w' where r: "lattice_main closing_peer_world [''lattice'', ''probe'', ''--socket'', ''/tmp/a''] = (w', Exit 3)"
    using closing_peer_probe by blast
  have "fresh_answers closing_peer_world" "opened (w_kernel closing_peer_world) = {}"
    by (auto simp: fresh_answers_def closing_peer_world_def sample_world_def opened_def)
  with descriptors_closed_at_exit[OF r] r show ?thesis by auto
qed

theorem bridge_never_succeeds_witness:
  "\<exists>w' n. bridge_unix (sample_world Map.empty) \<lparr>ub_left = ''l'', ub_right = ''r'', ub_policy = ''missing''\<rparr> = (w', Exit n) \<and>
     n \<noteq> 0"
proof -
  obtain w' where r: "bridge_unix (sample_world Map.empty) \<lparr>ub_left = ''l'', ub_right = ''r'', ub_policy = ''missing''\<rparr> =
      (w', Exit 3)"
    by (simp add: bridge_unix_def read_bridge_policy_def sample_reads print_error_def)
  from bridge_never_succeeds[OF r] r show ?thesis by blast
qed

end
