(* ===== verification/Fixtures.thy ===== *)
theory Fixtures
  imports Command_Line
begin

text \<open>
  The checked-in samples \<^verbatim>\<open>fixtures/ltx1/memory_hello.trace\<close> and \<^verbatim>\<open>memory_bridge.policy\<close>, and what
  the commands that \<^verbatim>\<open>fixtures/ltx1/README.md\<close> gives for them do, computed through the whole
  model: the HELLO of the default policy with the echo plugin is evaluated to its bytes, checksum
  included.
\<close>

section \<open>The bytes of the HELLO\<close>

definition hello_payload :: bytes where
  "hello_payload =
     [0x00, 0x01, 0x00, 0x01, 0x00, 0x01, 0x00, 0x00, 0x00, 0x10, 0x00, 0x00, 0x00, 0x10, 0x00,
      0x00, 0x01, 0x00, 0x00, 0x00, 0x00, 0x00, 0x00, 0x00, 0x00, 0x00, 0x00, 0x00, 0x00, 0x00,
      0x00, 0x00, 0x00, 0x00, 0x00, 0x01, 0x00, 0x00, 0x00, 0x07, 0x45, 0x43, 0x48, 0x4F, 0x5F,
      0x76, 0x30, 0x31, 0x00, 0x00, 0x00, 0x04]"

definition hello_bytes :: bytes where
  "hello_bytes =
     [0x4C, 0x54, 0x58, 0x31, 0x01, 0x00, 0x00, 0x00, 0x00, 0x00, 0x00, 0x00, 0x00, 0x00, 0x00, 0x01, 0x34] @
     hello_payload @ [0x44, 0x87, 0x08, 0x1D]"

text \<open>One bit of the checksum, on a numeral.\<close>

lemma crc_bit_if: "crc_bit x = (if bit x 0 then drop_bit 1 x XOR 0x82F63B78 else drop_bit 1 x)"
proof -
  have "x AND 1 = of_bool (bit x 0)" by (simp add: and_one_eq mod_2_eq_odd bit_0)
  then show ?thesis by (cases "bit x 0") (simp_all add: crc_bit_def Let_def)
qed

lemma crc_bit_numeral:
  "crc_bit (numeral (num.Bit0 n)) = drop_bit (Suc 0) (numeral (num.Bit0 n))"
  "crc_bit (numeral (num.Bit1 n)) = drop_bit (Suc 0) (numeral (num.Bit1 n)) XOR 0x82F63B78"
  by (simp_all add: crc_bit_if bit_0)

lemma hello_checksum:
  "crc32c ([0x4C, 0x54, 0x58, 0x31, 0x01, 0x00, 0x00, 0x00, 0x00, 0x00, 0x00, 0x00, 0x00, 0x00, 0x00, 0x01, 0x34] @
     hello_payload) = 0x4487081D"
  by (simp add: crc32c_def crc_loop_ref hello_payload_def crc_byte_def crc_table0_def crc_bit_numeral)

lemma echo_payload: "encode_hello_payload (policy_hello default_policy echo_registry) = Inr hello_payload"
  by (simp add: encode_hello_iff policy_hello_def echo_descriptors families_def default_policy_def
      hello_header_split append_descriptor_split append_u16_def append_u32_def append_u64_def
      echo_descriptor_def hello_payload_def)

lemma hello_encoded:
  assumes "encode_frame limits (hello_frame hello_payload) = Inr bs"
  shows "bs = hello_bytes"
proof -
  have len: "length hello_payload = 52" by (simp add: hello_payload_def)
  have body: "frame_body (hello_frame hello_payload) [] =
      [0x4C, 0x54, 0x58, 0x31, 0x01, 0x00, 0x00, 0x00, 0x00, 0x00, 0x00, 0x00, 0x00, 0x00, 0x00, 0x01, 0x34] @ hello_payload"
    using len by (simp add: frame_body_def frame_head_def hello_frame_def control_channel_def kLtxMagic_def
        append_u16_def append_u24_def append_u32_def uleb_bytes_last)
  have "bs = frame_bytes (hello_frame hello_payload) []"
    using assms by (auto simp: encode_frame_iff hello_frame_def write_extensions_def)
  then show ?thesis
    by (simp add: frame_bytes_def body[simplified] hello_checksum[simplified] append_u32_def hello_bytes_def)
qed

lemma echo_sends: "\<exists>e. start echo_engine = (e, Inr [hello_bytes])"
proof -
  obtain e payload bs where "start echo_engine = (e, Inr [bs])"
    "encode_hello_payload (policy_hello default_policy echo_registry) = Inr payload"
    "encode_frame (engine_limits default_policy) (hello_frame payload) = Inr bs"
    using echo_engine_starts by blast
  then show ?thesis using hello_encoded echo_payload by auto
qed

section \<open>The files\<close>

definition hello_hex :: string where
  "hello_hex =
     ''4c545831010000000000000000000001340001000100010000001000000010000001000000'' @
     ''00000000000000000000000000000001000000074543484f5f763031000000044487081d''"

definition trace_fixture :: string where
  "trace_fixture = ''LTXTRACE/1'' @ nl @ ''0|transport|left.hello|'' @ hello_hex @ nl @
     ''0|transport|right.hello|'' @ hello_hex @ nl"

definition policy_fixture :: string where
  "policy_fixture = ''[route]'' @ nl @ ''source = '' @ quoted ''1:1'' @ nl @ ''destination = '' @ quoted ''2:1'' @ nl @
     ''family = 7'' @ nl @ ''payload_hex = '' @ quoted ''6f6b21'' @ nl"

lemma hex_digits:
  "hex_digit 0 = CHR ''0''" "hex_digit (Suc 0) = CHR ''1''" "hex_digit 1 = CHR ''1''" "hex_digit 2 = CHR ''2''"
  "hex_digit 3 = CHR ''3''" "hex_digit 4 = CHR ''4''" "hex_digit 5 = CHR ''5''" "hex_digit 6 = CHR ''6''"
  "hex_digit 7 = CHR ''7''" "hex_digit 8 = CHR ''8''" "hex_digit 9 = CHR ''9''" "hex_digit 10 = CHR ''a''"
  "hex_digit 11 = CHR ''b''" "hex_digit 12 = CHR ''c''" "hex_digit 13 = CHR ''d''" "hex_digit 14 = CHR ''e''"
  "hex_digit 15 = CHR ''f''"
  by (simp_all add: hex_digit_def char_of_def bit_Suc_0_iff)

lemma hex_hello: "hex hello_bytes = hello_hex"
  by (simp add: hello_bytes_def hello_payload_def hello_hex_def hex_byte_def hex_digits)

section \<open>The trace fixture\<close>

definition hello_event :: "string \<Rightarrow> TraceEvent" where
  "hello_event label = \<lparr>te_time_ms = 0, te_kind = TK_transport_bytes, te_label = label, te_bytes = hello_bytes\<rparr>"

lemma fixture_log:
  "trace_record (trace_record new_trace (hello_event ''left.hello'')) (hello_event ''right.hello'') =
     recorded [hello_event ''left.hello'', hello_event ''right.hello'']"
  by (simp add: recorded_def)

lemma fixture_serialized:
  "trace_serialize (recorded [hello_event ''left.hello'', hello_event ''right.hello'']) = Inr trace_fixture"
  by (simp add: recorded_def trace_record_def new_trace_def hello_event_def trace_serialize_def trace_line_def
      trace_fixture_def nl_def hex_hello decimal_small)

text \<open>Remark. The checked-in trace is what the program generates and accepts: \<open>lattice fixture
  --memory-hello\<close> prints \<^verbatim>\<open>memory_hello.trace\<close> byte for byte, and \<open>lattice replay\<close> of a file with
  that text reports two transport events of 146 bytes and a canonical trace, with status 0.\<close>

theorem trace_fixture_exact:
  "lattice_main w [program, ''fixture'', ''--memory-hello''] = (cout w trace_fixture, Exit 0) \<and>
   (read_file w path = Some trace_fixture \<longrightarrow>
      lattice_main w [program, ''replay'', path] =
        (cout w (''events=2 transport=2 api=0 timer=0 plugin=0 diagnostic=0 bytes=146 canonical=yes'' @ nl), Exit 0))"
proof (intro conjI impI)
  obtain e where e: "start echo_engine = (e, Inr [hello_bytes])" using echo_sends by blast
  note log = fixture_log[unfolded hello_event_def] fixture_serialized[unfolded hello_event_def]
  have "fixture_memory_hello w = (cout w trace_fixture, Exit 0)"
    by (simp add: fixture_memory_hello_def e log)
  then show "lattice_main w [program, ''fixture'', ''--memory-hello''] = (cout w trace_fixture, Exit 0)"
    by (simp add: lattice_main_def parse_unix_bridge_args_def)
next
  assume stored: "read_file w path = Some trace_fixture"
  let ?events = "[hello_event ''left.hello'', hello_event ''right.hello'']"
  have clean: "list_all clean_label ?events" by (simp add: clean_label_def hello_event_def)
  have parse: "trace_parse trace_fixture = Inr (recorded ?events)"
    using trace_parse_serialized[of "tl_events (recorded ?events)"] fixture_serialized
    by (auto simp: trace_serialize_exact recorded_again split: if_splits)
  have "length hello_bytes = 73" by (simp add: hello_bytes_def hello_payload_def)
  then have report: "report_of ?events = \<lparr>tr_total_events = 2, tr_transport_events = 2, tr_api_events = 0,
      tr_timer_events = 0, tr_plugin_events = 0, tr_diagnostic_events = 0, tr_total_bytes = 146, tr_canonical = True\<rparr>"
    by (simp add: report_of_def hello_event_def payload_sum_def)
  have "verify_trace_replay (recorded ?events) = Inr (report_of ?events)"
    using recorded_verified[of ?events] clean by simp
  then have "replay_trace w path =
      (cout w (''events=2 transport=2 api=0 timer=0 plugin=0 diagnostic=0 bytes=146 canonical=yes'' @ nl), Exit 0)"
    by (simp add: replay_trace_def stored parse report report_text_def decimal_numeral decimal_small digit_chars)
  then show "lattice_main w [program, ''replay'', path] =
      (cout w (''events=2 transport=2 api=0 timer=0 plugin=0 diagnostic=0 bytes=146 canonical=yes'' @ nl), Exit 0)"
    by (simp add: lattice_main_def)
qed

definition fixture_world :: World where
  "fixture_world = sample_world [''memory_hello.trace'' \<mapsto> trace_fixture]"

theorem trace_fixture_exact_witness:
  "snd (lattice_main fixture_world [''lattice'', ''replay'', ''memory_hello.trace'']) = Exit 0"
proof -
  have "read_file fixture_world ''memory_hello.trace'' = Some trace_fixture"
    by (simp add: fixture_world_def sample_reads)
  with trace_fixture_exact[of fixture_world "''lattice''" "''memory_hello.trace''"] show ?thesis by simp
qed

end
