(* ===== verification/Fuzz_Input.thy ===== *)
theory Fuzz_Input
  imports Command_Line "HOL-Library.State_Monad"
begin

text \<open>
  The reader the fuzz targets take their decisions from, class \<open>Input\<close> of
  \<^verbatim>\<open>fuzz/deep_fuzz_support.hpp\<close>, and its generators of channels, frames and capabilities. A target
  is a program in the state monad over the reader. What holds of its result on every input is
  \<open>yields\<close>, which also says that the input is read front to back and never past its end; one rule
  for each way programs are put together carries the proofs about the targets. Where the code
  leaves the order of two reads to the compiler (arguments of one call) the model reads from left
  to right.
\<close>

section \<open>The reader\<close>

record Input =
  in_data :: bytes
  in_pos :: nat

type_synonym 'a fuzz = "(Input, 'a) state"

abbreviation give :: "'a \<Rightarrow> 'a fuzz" where
  "give x \<equiv> State_Monad.return x"

definition new_input :: "bytes \<Rightarrow> Input" where
  "new_input data = \<lparr>in_data = data, in_pos = 0\<rparr>"

definition in_remaining :: "nat fuzz" where
  "in_remaining = State (\<lambda>i. (if in_pos i \<ge> length (in_data i) then 0 else length (in_data i) - in_pos i, i))"

definition in_empty :: "bool fuzz" where
  "in_empty = do { left \<leftarrow> in_remaining; give (left = 0) }"

definition in_byte :: "u8 \<Rightarrow> u8 fuzz" where
  "in_byte fallback = State (\<lambda>i.
     if in_pos i \<ge> length (in_data i) then (fallback, i)
     else (in_data i ! in_pos i, i\<lparr>in_pos := in_pos i + 1\<rparr>))"

definition in_bit :: "bool fuzz" where
  "in_bit = do { b \<leftarrow> in_byte 0; give (b AND 1 \<noteq> 0) }"

definition in_u16 :: "u16 \<Rightarrow> u16 fuzz" where
  "in_u16 fallback = do {
     left \<leftarrow> in_remaining;
     if left \<ge> 2 then do { b0 \<leftarrow> in_byte 0; b1 \<leftarrow> in_byte 0; give (word16_be b0 b1) }
     else give fallback
   }"

definition in_u32 :: "u32 \<Rightarrow> u32 fuzz" where
  "in_u32 fallback = do {
     left \<leftarrow> in_remaining;
     if left \<ge> 4
     then do { b0 \<leftarrow> in_byte 0; b1 \<leftarrow> in_byte 0; b2 \<leftarrow> in_byte 0; b3 \<leftarrow> in_byte 0; give (word32_be b0 b1 b2 b3) }
     else give fallback
   }"

definition in_u64 :: "u64 \<Rightarrow> u64 fuzz" where
  "in_u64 fallback = do {
     left \<leftarrow> in_remaining;
     if left \<ge> 8
     then do { high \<leftarrow> in_u32 0; low \<leftarrow> in_u32 0; give (push_bit 32 (ucast high) OR ucast low) }
     else give fallback
   }"

definition in_bounded :: "nat \<Rightarrow> nat fuzz" where
  "in_bounded most =
     (if most = 0 then give 0 else do { v \<leftarrow> in_u16 0; give (unat v mod (most + 1)) })"

fun in_take :: "nat \<Rightarrow> bytes \<Rightarrow> bytes fuzz" where
  "in_take 0 out = give out"
| "in_take (Suc n) out = do { b \<leftarrow> in_byte 0; in_take n (out @ [b]) }"

definition in_bytes :: "nat \<Rightarrow> bytes fuzz" where
  "in_bytes most = do {
     requested \<leftarrow> in_bounded most;
     left \<leftarrow> in_remaining;
     in_take (min requested left) []
   }"

fun in_fixed :: "nat list \<Rightarrow> bytes \<Rightarrow> bytes fuzz" where
  "in_fixed [] out = give out"
| "in_fixed (i # is) out = do { b \<leftarrow> in_byte (of_nat i AND 0xFF); in_fixed is (out @ [b]) }"

definition in_fixed_bytes :: "nat \<Rightarrow> bytes fuzz" where
  "in_fixed_bytes n = in_fixed [0..<n] []"

definition in_text :: "nat \<Rightarrow> string fuzz" where
  "in_text most = do { raw \<leftarrow> in_bytes most; give (bytes_text raw) }"

section \<open>What a program over the reader yields\<close>

definition yields :: "'a fuzz \<Rightarrow> ('a \<Rightarrow> bool) \<Rightarrow> bool" where
  "yields m P \<longleftrightarrow> (\<forall>i. in_pos i \<le> length (in_data i) \<longrightarrow>
     (case run_state m i of (x, i') \<Rightarrow>
        P x \<and> in_data i' = in_data i \<and> in_pos i \<le> in_pos i' \<and> in_pos i' \<le> length (in_data i)))"

lemma yieldsI:
  assumes "\<And>i x i'. in_pos i \<le> length (in_data i) \<Longrightarrow> run_state m i = (x, i') \<Longrightarrow>
    P x \<and> in_data i' = in_data i \<and> in_pos i \<le> in_pos i' \<and> in_pos i' \<le> length (in_data i)"
  shows "yields m P"
  unfolding yields_def
proof (intro allI impI)
  fix i :: Input
  assume i: "in_pos i \<le> length (in_data i)"
  obtain x i' where r: "run_state m i = (x, i')" by fastforce
  from assms[OF i r] show "case run_state m i of (x, i') \<Rightarrow>
      P x \<and> in_data i' = in_data i \<and> in_pos i \<le> in_pos i' \<and> in_pos i' \<le> length (in_data i)"
    by (simp add: r)
qed

lemma yieldsD:
  "yields m P \<Longrightarrow> run_state m i = (x, i') \<Longrightarrow> in_pos i \<le> length (in_data i) \<Longrightarrow>
     P x \<and> in_data i' = in_data i \<and> in_pos i \<le> in_pos i' \<and> in_pos i' \<le> length (in_data i)"
  by (force simp: yields_def)

text \<open>The rules: \<open>then_\<close> for a step that is followed by others, with what is known of its result, and
  \<open>yields_weaken\<close> for the last step.\<close>

named_theorems yielding "what the programs over the reader yield"

lemma yields_give [yielding]: "P x \<Longrightarrow> yields (give x) P"
  by (simp add: yields_def)

lemma yields_bind:
  assumes "yields m Q" "\<And>x. Q x \<Longrightarrow> yields (f x) P"
  shows "yields (State_Monad.bind m f) P"
proof (rule yieldsI)
  fix i z j
  assume i: "in_pos i \<le> length (in_data i)" and r: "run_state (State_Monad.bind m f) i = (z, j)"
  obtain x i' where m: "run_state m i = (x, i')" by fastforce
  note x = yieldsD[OF assms(1) m i]
  have f: "run_state (f x) i' = (z, j)" using r by (simp add: m)
  show "P z \<and> in_data j = in_data i \<and> in_pos i \<le> in_pos j \<and> in_pos j \<le> length (in_data i)"
    using yieldsD[OF assms(2) f] x by auto
qed

lemma yields_weaken: "yields m Q \<Longrightarrow> (\<And>x. Q x \<Longrightarrow> P x) \<Longrightarrow> yields m P"
  by (rule yieldsI) (blast dest: yieldsD)

lemma yields_if [yielding]: "(c \<Longrightarrow> yields a P) \<Longrightarrow> (\<not> c \<Longrightarrow> yields b P) \<Longrightarrow> yields (if c then a else b) P"
  by simp

lemma then_give [yielding]: "yields (f x) P \<Longrightarrow> yields (State_Monad.bind (give x) f) P"
  by simp

lemma then_if [yielding]:
  "(c \<Longrightarrow> yields (State_Monad.bind a f) P) \<Longrightarrow> (\<not> c \<Longrightarrow> yields (State_Monad.bind b f) P) \<Longrightarrow>
     yields (State_Monad.bind (if c then a else b) f) P"
  by simp

lemma then_bind [yielding]:
  "yields (State_Monad.bind m (\<lambda>x. State_Monad.bind (f x) g)) P \<Longrightarrow> yields (State_Monad.bind (State_Monad.bind m f) g) P"
  by simp

lemma then_let [yielding]: "yields (State_Monad.bind (f x) g) P \<Longrightarrow> yields (State_Monad.bind (Let x f) g) P"
  by simp

lemma yields_let [yielding]: "yields (f x) P \<Longrightarrow> yields (Let x f) P"
  by simp

lemma yields_sum:
  "(\<And>x. r = Inl x \<Longrightarrow> yields (f x) P) \<Longrightarrow> (\<And>x. r = Inr x \<Longrightarrow> yields (g x) P) \<Longrightarrow>
     yields (case r of Inl x \<Rightarrow> f x | Inr x \<Rightarrow> g x) P"
  by (simp split: sum.split)

lemma yields_option:
  "(r = None \<Longrightarrow> yields a P) \<Longrightarrow> (\<And>x. r = Some x \<Longrightarrow> yields (f x) P) \<Longrightarrow>
     yields (case r of None \<Rightarrow> a | Some x \<Rightarrow> f x) P"
  by (simp split: option.split)

lemma yields_prod:
  "(\<And>x y. r = (x, y) \<Longrightarrow> yields (f x y) P) \<Longrightarrow> yields (case r of (x, y) \<Rightarrow> f x y) P"
  by (simp split: prod.split)

lemmas yields_cases = yields_sum yields_option yields_prod

lemma yields_remaining: "yields in_remaining (\<lambda>_. True)"
  by (simp add: yields_def in_remaining_def)

lemma yields_byte: "yields (in_byte fallback) (\<lambda>_. True)"
  by (simp add: yields_def in_byte_def)

lemmas then_reads [yielding] =
  yields_bind[OF yields_remaining] yields_bind[OF yields_byte] yields_weaken[OF yields_byte]

lemma yields_empty: "yields in_empty (\<lambda>_. True)"
  unfolding in_empty_def by (intro yielding) simp_all

lemma yields_bit: "yields in_bit (\<lambda>_. True)"
  unfolding in_bit_def by (intro yielding) simp_all

lemma yields_u16: "yields (in_u16 fallback) (\<lambda>_. True)"
  unfolding in_u16_def by (intro yielding) simp_all

lemma yields_u32: "yields (in_u32 fallback) (\<lambda>_. True)"
  unfolding in_u32_def by (intro yielding) simp_all

lemmas then_words [yielding] =
  yields_bind[OF yields_empty] yields_bind[OF yields_bit] yields_bind[OF yields_u16] yields_bind[OF yields_u32]
  yields_weaken[OF yields_bit] yields_weaken[OF yields_u16] yields_weaken[OF yields_u32]

lemma yields_u64: "yields (in_u64 fallback) (\<lambda>_. True)"
  unfolding in_u64_def by (intro yielding) simp_all

text \<open>A bounded number is within its bound, and so is the length of a byte string.\<close>

lemma yields_bounded: "yields (in_bounded most) (\<lambda>n. n \<le> most)"
proof -
  have "k mod Suc most \<le> most" for k using mod_less_divisor[of "Suc most" k] by simp
  then show ?thesis unfolding in_bounded_def by (intro yielding) simp_all
qed

lemma yields_take: "yields (in_take n out) (\<lambda>bs. length bs = length out + n)"
proof (induction n arbitrary: out)
  case (Suc n)
  show ?case unfolding in_take.simps by (intro yielding yields_weaken[OF Suc]) simp
qed (simp add: yields_give)

lemma yields_bytes: "yields (in_bytes most) (\<lambda>bs. length bs \<le> most)"
  unfolding in_bytes_def
  by (intro yields_bind[OF yields_bounded] yielding yields_weaken[OF yields_take]) simp

lemma yields_fixed: "yields (in_fixed is out) (\<lambda>bs. length bs = length out + length is)"
proof (induction "is" arbitrary: out)
  case (Cons i "is")
  show ?case unfolding in_fixed.simps by (intro yielding yields_weaken[OF Cons]) simp
qed (simp add: yields_give)

lemma yields_fixed_bytes: "yields (in_fixed_bytes n) (\<lambda>bs. length bs = n)"
  using yields_fixed[of "[0..<n]" "[]"] by (simp add: in_fixed_bytes_def)

lemmas then_bytes [yielding] =
  yields_bind[OF yields_u64] yields_bind[OF yields_bounded] yields_bind[OF yields_bytes] yields_bind[OF yields_fixed_bytes]
  yields_weaken[OF yields_u64] yields_weaken[OF yields_bounded] yields_weaken[OF yields_bytes]
  yields_weaken[OF yields_fixed_bytes]

lemma yields_text: "yields (in_text most) (\<lambda>s. length s \<le> most)"
  unfolding in_text_def by (intro yielding) (simp add: bytes_text_def)

lemmas then_text [yielding] = yields_bind[OF yields_text] yields_weaken[OF yields_text]

section \<open>Loops\<close>

text \<open>\<open>for (i = 0; i < n && !input.empty(); ++i)\<close>, and a loop over a list of indices or items.\<close>

fun while_input :: "nat \<Rightarrow> ('s \<Rightarrow> 's fuzz) \<Rightarrow> 's \<Rightarrow> 's fuzz" where
  "while_input 0 body s = give s"
| "while_input (Suc n) body s = do {
     stop \<leftarrow> in_empty;
     if stop then give s else do { s' \<leftarrow> body s; while_input n body s' }
   }"

fun for_each :: "('x \<Rightarrow> 's \<Rightarrow> 's fuzz) \<Rightarrow> 'x list \<Rightarrow> 's \<Rightarrow> 's fuzz" where
  "for_each body [] s = give s"
| "for_each body (x # xs) s = do { s' \<leftarrow> body x s; for_each body xs s' }"

lemma yields_while:
  assumes "P s" "\<And>s. P s \<Longrightarrow> yields (body s) P"
  shows "yields (while_input n body s) P"
  using assms(1)
proof (induction n arbitrary: s)
  case (Suc n)
  show ?case unfolding while_input.simps
    by (intro yielding yields_bind[OF assms(2)] Suc)
qed (simp add: yields_give)

lemma yields_for:
  assumes "P s" "\<And>x s. x \<in> set xs \<Longrightarrow> P s \<Longrightarrow> yields (body x s) P"
  shows "yields (for_each body xs s) P"
  using assms
proof (induction xs arbitrary: s)
  case (Cons x xs)
  then show ?case by (auto intro!: yields_bind[of "body x s" P])
qed (simp add: yields_give)

text \<open>The same with an invariant that knows how often the loop has run.\<close>

lemma yields_upto:
  assumes "P 0 s" "\<And>i s. i < n \<Longrightarrow> P i s \<Longrightarrow> yields (body i s) (P (Suc i))"
  shows "yields (for_each body [0..<n] s) (P n)"
proof -
  have "yields (for_each body [n - k..<n] s) (P n)" if "k \<le> n" "P (n - k) s" for k s
    using that
  proof (induction k arbitrary: s)
    case (Suc k)
    have "[n - Suc k..<n] = (n - Suc k) # [n - k..<n]"
      using Suc.prems(1) by (simp add: upt_conv_Cons Suc_diff_Suc)
    then show ?case
      using Suc assms(2)[of "n - Suc k" s] by (auto intro!: yields_bind[of _ "P (n - k)"] simp: Suc_diff_Suc)
  qed (simp add: yields_give)
  from this[of n s] assms(1) show ?thesis by simp
qed

section \<open>Generators\<close>

definition default_seed :: bytes where
  "default_seed = map (\<lambda>c. of_nat (of_char c)) ''LTX1'' @
     [0x01, 0x10, 0x11, 0x12, 0x13, 0x14, 0x15, 0x20, 0x21, 0x22, 0x23]"

definition channel_from :: "ChannelId fuzz" where
  "channel_from = do {
     number \<leftarrow> in_u32 1;
     generation \<leftarrow> in_byte 1;
     give \<lparr>cid_number = 1 + number mod 32, cid_generation = 1 + generation mod 8\<rparr>
   }"

definition frame_type_from :: "FrameType fuzz" where
  "frame_type_from = do {
     b \<leftarrow> in_byte 0;
     give (let k = unat b mod 10 in
           if k = 0 then FT_hello else if k = 1 then FT_open else if k = 2 then FT_data
           else if k = 3 then FT_ack else if k = 4 then FT_credit else if k = 5 then FT_half_close
           else if k = 6 then FT_reset else if k = 7 then FT_ping else if k = 8 then FT_pong
           else FT_resume)
   }"

definition random_extensions :: "nat \<Rightarrow> nat \<Rightarrow> Extension list fuzz" where
  "random_extensions most_count most_payload = do {
     n \<leftarrow> in_bounded most_count;
     for_each (\<lambda>i extensions. do {
         v \<leftarrow> in_u16 0;
         required \<leftarrow> in_bit;
         payload \<leftarrow> in_bytes most_payload;
         give (extensions @ [\<lparr>ext_type = 1 + v mod 32, ext_required = required, ext_value = payload\<rparr>])
       }) [0..<n] []
   }"

definition data_extensions :: "u32 \<Rightarrow> u32 \<Rightarrow> u32 \<Rightarrow> u32 \<Rightarrow> Extension list" where
  "data_extensions sequence offset whole family =
     [\<lparr>ext_type = 1, ext_required = True, ext_value = u32_bytes sequence\<rparr>,
      \<lparr>ext_type = 2, ext_required = True, ext_value = u32_bytes offset\<rparr>,
      \<lparr>ext_type = 3, ext_required = True, ext_value = u32_bytes whole\<rparr>,
      \<lparr>ext_type = 4, ext_required = True, ext_value = u32_bytes family\<rparr>]"

definition random_frame :: "nat \<Rightarrow> nat \<Rightarrow> Frame fuzz" where
  "random_frame most_payload most_ext_payload = do {
     type \<leftarrow> frame_type_from;
     channel \<leftarrow> (if type \<in> {FT_hello, FT_ack, FT_ping, FT_pong, FT_goaway, FT_resume}
                 then give control_channel else channel_from);
     seq \<leftarrow> in_u32 1;
     payload \<leftarrow> in_bytes most_payload;
     extensions \<leftarrow> random_extensions 6 most_ext_payload;
     give \<lparr>f_type = type, f_flags = 0, f_channel = channel, f_frame_seq = seq,
           f_extensions = extensions, f_payload = payload\<rparr>
   }"

definition fuzz_capability :: "nat \<Rightarrow> u64 \<Rightarrow> CapabilitySet" where
  "fuzz_capability max_message schema =
     \<lparr>cap_major = 1, cap_max_frame = kDefaultMaxFrame, cap_max_message = max_message,
      cap_connection_window = 1024 * 1024, cap_max_channels = 256, cap_features = 0,
      cap_transcript_hash = replicate 16 0,
      cap_plugins = [\<lparr>pd_family_id = 7, pd_schema_hash = schema, pd_max_depth = 4\<rparr>]\<rparr>"

text \<open>The target of a fuzzer reads its whole input from a file, or a fixed seed; it always returns 0.\<close>

definition run_standalone :: "World \<Rightarrow> string list \<Rightarrow> (bytes \<Rightarrow> 'a) \<Rightarrow> 'a" where
  "run_standalone w argv entry =
     (let input = (if length argv > 1
                   then (case read_file w (argv ! 1) of Some s \<Rightarrow> text_bytes s | None \<Rightarrow> [])
                   else [])
      in entry (if input = [] then default_seed else input))"

lemma yields_channel:
  "yields channel_from (\<lambda>c. \<not> is_control c \<and> unat (cid_number c) \<le> 32 \<and> unat (cid_generation c) \<le> 8)"
proof -
  have n: "1 + x mod 32 \<noteq> 0" "unat (1 + x mod 32) \<le> 32" for x :: u32
  proof -
    have "unat (x mod 32) < 32" by (simp add: unat_mod_distrib)
    then show "1 + x mod 32 \<noteq> 0" "unat (1 + x mod 32) \<le> 32" by (simp_all add: unat_word_ariths word_unat_eq_iff)
  qed
  have g: "unat (1 + y mod 8) \<le> 8" for y :: u8
  proof -
    have "unat (y mod 8) < 8" by (simp add: unat_mod_distrib)
    then show ?thesis by (simp add: unat_word_ariths)
  qed
  show ?thesis unfolding channel_from_def by (intro yielding) (simp add: is_control_def n g)
qed

lemma yields_frame_type: "yields frame_type_from (\<lambda>t. t \<noteq> FT_goaway)"
  unfolding frame_type_from_def by (intro yielding) (simp add: Let_def)

lemma yields_extensions:
  "yields (random_extensions most_count most_payload) (list_all (\<lambda>x. length (ext_value x) \<le> most_payload))"
  unfolding random_extensions_def by (intro yielding yields_for) simp_all

lemmas then_generators [yielding] =
  yields_bind[OF yields_channel] yields_bind[OF yields_frame_type] yields_bind[OF yields_extensions]

text \<open>A random frame has no flags and is on the control channel exactly when its type is one of the
  connection's.\<close>

lemma yields_frame:
  "yields (random_frame most_payload most_ext)
     (\<lambda>f. f_flags f = 0 \<and> length (f_payload f) \<le> most_payload \<and>
        (is_control (f_channel f) \<longleftrightarrow> f_type f \<in> {FT_hello, FT_ack, FT_ping, FT_pong, FT_resume}))"
  unfolding random_frame_def by (intro yielding) auto

lemmas then_frame [yielding] = yields_bind[OF yields_frame]

end
