(* ===== verification/Fuzz_Engines.thy ===== *)
theory Fuzz_Engines
  imports Fuzz_Input
begin

text \<open>
  The fuzz targets that drive connection engines: \<open>run_connection_*\<close> and \<open>run_gateway_bridge\<close> of
  \<^verbatim>\<open>fuzz/deep_fuzz_support.hpp\<close> and the stand-alone \<^verbatim>\<open>fuzz/lattice_connection_event_fuzz.cpp\<close>. Each
  target is the program over the reader that the code is, and returns the engines it leaves. The
  properties: whatever the input, every engine keeps the invariant of \<open>Engine_Invariant\<close>; the
  handshake the targets begin with succeeds; and no target reads an optional that is empty or an
  element that is not there.
\<close>

section \<open>Two peers\<close>

definition fuzz_engine :: "PluginTask DeterministicExecutor option \<Rightarrow> ConnectionEngine" where
  "fuzz_engine executor = connection_engine default_policy echo_registry executor"

fun deliver :: "ConnectionEngine \<Rightarrow> bytes list \<Rightarrow> ConnectionEngine \<times> bool" where
  "deliver e [] = (e, True)"
| "deliver e (chunk # chunks) =
     (case receive e chunk False of
        (e', Inl _) \<Rightarrow> (e', False)
      | (e', Inr _) \<Rightarrow> deliver e' chunks)"

text \<open>Most targets deliver what an operation produced, when it produced something.\<close>

definition deliver_ok :: "ConnectionEngine \<Rightarrow> bytes list result \<Rightarrow> ConnectionEngine" where
  "deliver_ok e r = (case r of Inl _ \<Rightarrow> e | Inr chunks \<Rightarrow> fst (deliver e chunks))"

type_synonym Peers = "ConnectionEngine \<times> ConnectionEngine"

definition fuzz_handshake :: "ConnectionEngine \<Rightarrow> ConnectionEngine \<Rightarrow> Peers \<times> bool" where
  "fuzz_handshake left right =
     (let (left, left_hello) = start left; (right, right_hello) = start right
      in case (left_hello, right_hello) of
        (Inr lh, Inr rh) \<Rightarrow>
          (let (right, ok) = deliver right lh
           in if \<not> ok then ((left, right), False)
              else let (left, ok) = deliver left rh
                in ((left, right), ok \<and> ce_state left = CS_active \<and> ce_state right = CS_active))
      | _ \<Rightarrow> ((left, right), False))"

definition open_pair :: "ConnectionEngine \<Rightarrow> ConnectionEngine \<Rightarrow> nat \<Rightarrow> Peers \<times> ChannelId option" where
  "open_pair left right window =
     (case open_channel left \<lparr>or_family_id = 7, or_initial_window = window\<rparr> of
        (left, Inl _) \<Rightarrow> ((left, right), None)
      | (left, Inr (cid, chunks)) \<Rightarrow>
          (case deliver right chunks of
             (right, ok) \<Rightarrow> ((left, right), if ok then Some cid else None)))"

text \<open>At most 64 tasks, until one fails or none is left.\<close>

fun fuzz_drain :: "nat \<Rightarrow> ConnectionEngine \<Rightarrow> ConnectionEngine" where
  "fuzz_drain 0 e = e"
| "fuzz_drain (Suc n) e =
     (case ce_executor e of
        None \<Rightarrow> e
      | Some ex \<Rightarrow>
          if de_queue ex = [] then e
          else (case drain_one (lift_task run_plugin_task) (ex, e) of
                  ((ex', e'), Inl _) \<Rightarrow> e'\<lparr>ce_executor := Some ex'\<rparr>
                | ((ex', e'), Inr _) \<Rightarrow> fuzz_drain n (e'\<lparr>ce_executor := Some ex'\<rparr>)))"

definition event_digest :: "ConnectionEngine \<Rightarrow> u64" where
  "event_digest e = foldl (\<lambda>digest event.
     let digest = digest XOR (ucast (ev_sequence event) + 0x9E3779B97F4A7C15 + push_bit 6 digest + drop_bit 2 digest);
         digest = digest XOR push_bit 17 (ucast (cid_number (ev_channel event)));
         digest = digest XOR push_bit 41 (ucast (cid_generation (ev_channel event)))
     in digest XOR push_bit 3 (of_nat (length (ev_payload event)))) 0x9E3779B185EBCA87 (ce_events e)"

definition connected_pair :: "PluginTask DeterministicExecutor option \<Rightarrow> Peers \<times> bool" where
  "connected_pair executor = fuzz_handshake (fuzz_engine None) (fuzz_engine executor)"

section \<open>The targets\<close>

definition run_connection_peer_bytes :: "Peers fuzz" where
  "run_connection_peer_bytes =
     while_input 16 (\<lambda>(left, right). do {
         chunk \<leftarrow> in_bytes 256;
         side \<leftarrow> in_bit;
         eof \<leftarrow> in_bit;
         give (if side then (fst (receive left chunk eof), right) else (left, fst (receive right chunk eof)))
       }) (fst (connected_pair None))"

text \<open>The loop that cuts a chunk.\<close>

function split_chunk :: "bytes \<Rightarrow> nat \<Rightarrow> ConnectionEngine \<Rightarrow> ConnectionEngine fuzz" where
  "split_chunk chunk offset e =
     (if offset < length chunk
      then do {
        n \<leftarrow> in_bounded 16;
        let size = min (1 + n) (length chunk - offset);
        split_chunk chunk (offset + size) (fst (receive e (take size (drop offset chunk)) False))
      }
      else give e)"
  by pat_completeness auto
termination
  by (relation "measure (\<lambda>(chunk, offset, e). length chunk - offset)") auto

declare split_chunk.simps [simp del]

definition run_connection_chunks :: "Peers fuzz" where
  "run_connection_chunks =
     (case start (fuzz_engine None) of
        (left, Inl _) \<Rightarrow> give (left, fuzz_engine None)
      | (left, Inr hello) \<Rightarrow> do {
          right \<leftarrow> for_each (\<lambda>chunk right. split_chunk chunk 0 right) hello (fuzz_engine None);
          give (left, right)
        })"

definition run_connection_open :: "Peers fuzz" where
  "run_connection_open =
     (case connected_pair None of
        (peers, False) \<Rightarrow> give peers
      | (peers, True) \<Rightarrow> do {
          n \<leftarrow> in_bounded 16;
          for_each (\<lambda>_ (left, right). do {
              w \<leftarrow> in_bounded (1024 * 1024 div 8);
              seven \<leftarrow> in_bit;
              family \<leftarrow> (if seven then give 7 else in_u32 0);
              give (case open_channel left \<lparr>or_family_id = family, or_initial_window = 1 + w\<rparr> of
                      (left, Inl _) \<Rightarrow> (left, right)
                    | (left, Inr (_, chunks)) \<Rightarrow> (left, fst (deliver right chunks)))
            }) [0..<1 + n] peers
        })"

text \<open>The targets that open one channel first: what they do with it.\<close>

definition with_channel :: "nat \<Rightarrow> (ChannelId \<Rightarrow> Peers \<Rightarrow> Peers fuzz) \<Rightarrow> Peers fuzz" where
  "with_channel window body =
     (case connected_pair None of
        (peers, False) \<Rightarrow> give peers
      | ((left, right), True) \<Rightarrow>
          (case open_pair left right window of
             (peers, None) \<Rightarrow> give peers
           | (peers, Some channel) \<Rightarrow> body channel peers))"

definition run_connection_data_ext :: "Peers fuzz" where
  "run_connection_data_ext = with_channel 8192 (\<lambda>channel (left, right). do {
     t \<leftarrow> in_bounded 512;
     let whole = 1 + t;
     offset \<leftarrow> in_bounded (whole - 1);
     seq \<leftarrow> in_u32 2;
     payload \<leftarrow> in_bytes (min 128 (whole - offset));
     sequence \<leftarrow> in_u32 1;
     (case encode_frame default_frame_limits
             \<lparr>f_type = FT_data, f_flags = 0, f_channel = channel, f_frame_seq = seq,
              f_extensions = data_extensions sequence (of_nat offset) (of_nat whole) 7, f_payload = payload\<rparr> of
        Inl _ \<Rightarrow> give (left, right)
      | Inr encoded \<Rightarrow> do { eof \<leftarrow> in_bit; give (left, fst (receive right encoded eof)) })
   })"

text \<open>Some acknowledgement ranges.\<close>

definition random_ranges :: "nat \<Rightarrow> nat \<Rightarrow> u32 \<Rightarrow> AckRange list fuzz" where
  "random_ranges most width fallback = do {
     n \<leftarrow> in_bounded most;
     for_each (\<lambda>_ ranges. do {
         first \<leftarrow> in_u32 fallback;
         k \<leftarrow> in_bounded width;
         give (ranges @ [\<lparr>ar_first = first, ar_last = first + of_nat k\<rparr>])
       }) [0..<n] []
   }"

definition run_connection_credit_ack :: "Peers fuzz" where
  "run_connection_credit_ack =
     (case connected_pair None of
        (peers, False) \<Rightarrow> give peers
      | ((left, right), True) \<Rightarrow> do {
          w \<leftarrow> in_bounded 4096;
          (case open_pair left right (1024 + w) of
             (peers, None) \<Rightarrow> give peers
           | (peers, Some channel) \<Rightarrow>
               for_each (\<lambda>_ (left, right). do {
                   credits \<leftarrow> in_bit;
                   if credits
                   then do {
                     amount \<leftarrow> in_bounded 8192;
                     give (case grant_credit right channel amount of (right, r) \<Rightarrow> (deliver_ok left r, right))
                   }
                   else do {
                     ranges \<leftarrow> random_ranges 4 8 1;
                     give (case engine_acknowledge left ranges of (left, r) \<Rightarrow> (left, deliver_ok right r))
                   }
                 }) [0..<12] peers)
        })"

definition run_connection_resume :: "Peers fuzz" where
  "run_connection_resume =
     (case connected_pair None of
        (peers, False) \<Rightarrow> give peers
      | ((left, right), True) \<Rightarrow> do {
          known \<leftarrow> (if ce_capabilities left = None then give False else in_bit);
          hash \<leftarrow> (if known then give (cap_transcript_hash (the (ce_capabilities left))) else in_fixed_bytes 16);
          epoch \<leftarrow> in_bounded 3;
          first \<leftarrow> in_u32 0;
          give (case engine_resume right \<lparr>rr_transcript_hash = hash, rr_epoch = of_nat (1 + epoch),
                       rr_first_required_seq = first\<rparr> of
                  (right, r) \<Rightarrow> (deliver_ok left r, right))
        })"

definition run_connection_timer :: "Peers fuzz" where
  "run_connection_timer = do {
     (peers, now) \<leftarrow> for_each (\<lambda>_ ((left, right), now). do {
         step \<leftarrow> in_bounded 10000;
         let now = now + of_nat (1 + step);
         give (case advance_time left now of (left, r) \<Rightarrow> ((left, deliver_ok right r), now))
       }) [0..<16] (fst (connected_pair None), 0);
     give peers
   }"

definition run_connection_reset_goaway :: "Peers fuzz" where
  "run_connection_reset_goaway =
     (case connected_pair None of
        (peers, False) \<Rightarrow> give peers
      | ((left, right), True) \<Rightarrow> do {
          (left, right) \<leftarrow>
            (case open_pair left right 4096 of
               (peers, None) \<Rightarrow> give peers
             | ((left, right), Some channel) \<Rightarrow> do {
                 closes \<leftarrow> in_bit;
                 (left, right) \<leftarrow>
                   (if closes then do {
                      sends \<leftarrow> in_bit;
                      give (case engine_half_close left channel (if sends then Dir_local_send else Dir_remote_send) of
                              (left, r) \<Rightarrow> (left, deliver_ok right r))
                    } else give (left, right));
                 resets_left \<leftarrow> in_bit;
                 (case (if resets_left
                        then (case engine_reset left channel of (left, r) \<Rightarrow> ((left, right), r))
                        else (case engine_reset right channel of (right, r) \<Rightarrow> ((left, right), r))) of
                    (peers, Inl _) \<Rightarrow> give peers
                  | ((left, right), Inr chunks) \<Rightarrow> do {
                      to_right \<leftarrow> in_bit;
                      give (if to_right then (left, fst (deliver right chunks)) else (fst (deliver left chunks), right))
                    })
               });
          give (case goaway left of (left, r) \<Rightarrow> (left, deliver_ok right r))
        })"

definition run_connection_outbound :: "Peers fuzz" where
  "run_connection_outbound = with_channel 8192 (\<lambda>channel.
     for_each (\<lambda>_ (left, right). do {
         payload \<leftarrow> in_bytes 256;
         (case engine_send left channel payload of
            (left, Inl _) \<Rightarrow> give (left, right)
          | (left, Inr _) \<Rightarrow> do {
              n \<leftarrow> in_bounded 512;
              give (case flush_outbound left (1 + n) of (left, chunks) \<Rightarrow> (left, fst (deliver right chunks)))
            })
       }) [0..<8])"

definition run_connection_multichannel :: "Peers fuzz" where
  "run_connection_multichannel =
     (case connected_pair None of
        (peers, False) \<Rightarrow> give peers
      | (peers, True) \<Rightarrow>
          (let (peers, channels) = foldl (\<lambda>((left, right), channels) i.
                 (case open_pair left right 2048 of
                    (peers, None) \<Rightarrow> (peers, channels)
                  | (peers, Some channel) \<Rightarrow> (peers, channels @ [channel]))) (peers, []) [0..<(12::nat)]
           in for_each (\<lambda>channel (left, right). do {
                payload \<leftarrow> in_bytes 128;
                give (case engine_send left channel payload of (left, r) \<Rightarrow> (left, deliver_ok right r))
              }) channels peers))"

text \<open>One step of the scripted target: the peers and the channel that was opened last.\<close>

definition event_script_step :: "Peers \<times> ChannelId option \<Rightarrow> (Peers \<times> ChannelId option) fuzz" where
  "event_script_step st = (case st of ((left, right), channel) \<Rightarrow> do {
     op \<leftarrow> in_byte 0;
     (let k = unat op mod 6 in
      if k = 0 then give (open_pair left right 4096)
      else if k = 1 then
        (case channel of
           None \<Rightarrow> give st
         | Some cid \<Rightarrow> do {
             payload \<leftarrow> in_bytes 64;
             give (case engine_send left cid payload of (left, r) \<Rightarrow> ((left, deliver_ok right r), channel))
           })
      else if k = 2 then do {
        token \<leftarrow> in_u64 0;
        give ((fst (ping left token), right), channel)
      }
      else if k = 3 then
        give (case channel of None \<Rightarrow> st | Some cid \<Rightarrow> ((fst (engine_reset left cid), right), channel))
      else if k = 4 then do {
        chunk \<leftarrow> in_bytes 64;
        eof \<leftarrow> in_bit;
        give ((left, fst (receive right chunk eof)), channel)
      }
      else give ((left, fuzz_drain 64 right), channel))
   })"

definition run_connection_event_script :: "Peers fuzz" where
  "run_connection_event_script = do {
     ((left, right), _) \<leftarrow> for_each (\<lambda>_. event_script_step) [0..<32]
       (fst (connected_pair (Some (deterministic_executor 32 4))), None);
     give (left, fuzz_drain 64 right)
   }"

text \<open>The bridge over four engines. Reading the capabilities of an engine that has none throws: the
  result is then \<open>None\<close>. The loop runs over the events of the ingress side, which it does not
  change.\<close>

fun bridge_deliveries :: "Gateway \<Rightarrow> ChannelId \<Rightarrow> CapabilitySet option \<Rightarrow> ConnectionEvent list \<Rightarrow> Peers \<Rightarrow> Peers option" where
  "bridge_deliveries gw source from_caps [] peers = Some peers"
| "bridge_deliveries gw source from_caps (event # events) (egress, server) =
     (if ev_kind event = EK_message_delivered \<and> ev_channel event = source
      then (case (from_caps, ce_capabilities egress) of
              (Some from, Some dest) \<Rightarrow>
                (case bridge_to_connection gw from dest egress source (ev_payload event) of
                   (egress, r) \<Rightarrow> bridge_deliveries gw source from_caps events (egress, deliver_ok server r))
            | _ \<Rightarrow> None)
      else bridge_deliveries gw source from_caps events (egress, server))"

definition run_gateway_bridge :: "(Peers \<times> Peers) option fuzz" where
  "run_gateway_bridge =
     (case connected_pair None of
        (clients, False) \<Rightarrow> give (Some (clients, (fuzz_engine None, fuzz_engine None)))
      | (clients, True) \<Rightarrow>
          (case connected_pair None of
             (servers, False) \<Rightarrow> give (Some (clients, servers))
           | (servers, True) \<Rightarrow>
               (let ((client, ingress), source) = open_pair (fst clients) (snd clients) 8192;
                    ((egress, server), destination) = open_pair (fst servers) (snd servers) 8192
                in case (source, destination) of
                  (Some s, Some d) \<Rightarrow> do {
                    payload \<leftarrow> in_bytes 512;
                    (let gw = fst (create_route new_gateway s d 7);
                         (client, r) = engine_send client s payload;
                         ingress = deliver_ok ingress r
                     in give (map_option (Pair (client, ingress))
                          (bridge_deliveries gw s (ce_capabilities ingress) (ce_events ingress) (egress, server))))
                  }
                | _ \<Rightarrow> give (Some ((client, ingress), (egress, server))))))"

section \<open>The stand-alone event fuzzer\<close>

text \<open>\<open>lattice_connection_event_fuzz.cpp\<close>: one operation for each byte of the file. The chunks are
  taken with \<open>[0]\<close>; \<open>None\<close> is an access to a chunk that is not there.\<close>

fun event_fuzz_loop :: "bytes \<Rightarrow> Peers \<Rightarrow> Peers option" where
  "event_fuzz_loop [] peers = Some peers"
| "event_fuzz_loop (op # ops) (left, right) =
     (if op mod 5 = 0
      then (case open_channel left \<lparr>or_family_id = 7, or_initial_window = 1024\<rparr> of
              (left, Inl _) \<Rightarrow> event_fuzz_loop ops (left, right)
            | (left, Inr (_, [])) \<Rightarrow> None
            | (left, Inr (_, chunk # _)) \<Rightarrow> event_fuzz_loop ops (left, fst (receive right chunk False)))
      else event_fuzz_loop ops (left, fst (receive right [op] False)))"

definition connection_event_fuzz :: "World \<Rightarrow> string list \<Rightarrow> (Peers \<times> CliEnd) option" where
  "connection_event_fuzz w argv =
     (let ops = (if length argv = 2
                 then (case read_file w (argv ! 1) of Some s \<Rightarrow> text_bytes s | None \<Rightarrow> [])
                 else []);
          (left, left_hello) = start (fuzz_engine None);
          (right, right_hello) = start (fuzz_engine None)
      in case (left_hello, right_hello) of
        (Inr (lh # _), Inr (rh # _)) \<Rightarrow>
          map_option (\<lambda>peers. (peers, Exit 0))
            (event_fuzz_loop ops (fst (receive left rh False), fst (receive right lh False)))
      | (Inr _, Inr _) \<Rightarrow> None
      | _ \<Rightarrow> Some ((left, right), Exit 1))"

section \<open>The invariant of the peers\<close>

fun peers_ok :: "Peers \<Rightarrow> bool" where
  "peers_ok (left, right) \<longleftrightarrow> engine_ok left \<and> engine_ok right"

lemma engine_ok_fuzz [simp]: "engine_ok (fuzz_engine executor)"
  using default_policy_fits by (simp add: fuzz_engine_def engine_ok_new policy_fits_def)

text \<open>What every public operation keeps, in the forms the targets use them.\<close>

lemma kept:
  "engine_ok e \<Longrightarrow> receive e bs eof = (e', r) \<Longrightarrow> engine_ok e'"
  "engine_ok e \<Longrightarrow> start e = (e', r) \<Longrightarrow> engine_ok e'"
  "engine_ok e \<Longrightarrow> open_channel e request = (e', r') \<Longrightarrow> engine_ok e'"
  "engine_ok e \<Longrightarrow> engine_send e cid payload = (e', r) \<Longrightarrow> engine_ok e'"
  "engine_ok e \<Longrightarrow> grant_credit e cid amount = (e', r) \<Longrightarrow> engine_ok e'"
  "engine_ok e \<Longrightarrow> engine_acknowledge e ranges = (e', r) \<Longrightarrow> engine_ok e'"
  "engine_ok e \<Longrightarrow> engine_resume e resumption = (e', r) \<Longrightarrow> engine_ok e'"
  "engine_ok e \<Longrightarrow> advance_time e now = (e', r) \<Longrightarrow> engine_ok e'"
  "engine_ok e \<Longrightarrow> engine_half_close e cid direction = (e', r) \<Longrightarrow> engine_ok e'"
  "engine_ok e \<Longrightarrow> engine_reset e cid = (e', r) \<Longrightarrow> engine_ok e'"
  "engine_ok e \<Longrightarrow> goaway e = (e', r) \<Longrightarrow> engine_ok e'"
  "engine_ok e \<Longrightarrow> flush_outbound e n = (e', chunks) \<Longrightarrow> engine_ok e'"
  using engine_ok_receive[of e bs eof] engine_ok_start[of e] engine_ok_open_channel[of e request]
    engine_ok_send[of e cid payload] engine_ok_send_ops[of e] engine_ok_advance[of e now]
    engine_ok_half_close[of e cid direction] engine_ok_reset[of e cid]
  by (metis fst_conv)+

lemmas kept_by [dest] = kept[rotated]

lemma kept_fst [simp]:
  "engine_ok e \<Longrightarrow> engine_ok (fst (receive e bs eof))" "engine_ok e \<Longrightarrow> engine_ok (fst (ping e token))"
  "engine_ok e \<Longrightarrow> engine_ok (fst (engine_reset e cid))"
  by (simp_all add: engine_ok_receive engine_ok_send_ops engine_ok_reset)

lemma engine_ok_deliver_all [simp]: "engine_ok e \<Longrightarrow> engine_ok (fst (deliver e chunks))"
  by (induction chunks arbitrary: e) (auto split: prod.split sum.split)

lemma deliver_kept [dest]: "deliver e chunks = (e', ok) \<Longrightarrow> engine_ok e \<Longrightarrow> engine_ok e'"
  using engine_ok_deliver_all[of e chunks] by simp

lemma engine_ok_deliver_ok [simp]: "engine_ok e \<Longrightarrow> engine_ok (deliver_ok e r)"
  by (simp add: deliver_ok_def split: sum.split)

lemma engine_ok_fuzz_drain [simp]: "engine_ok e \<Longrightarrow> engine_ok (fuzz_drain n e)"
proof (induction n arbitrary: e)
  case (Suc n)
  then show ?case using engine_ok_plugin_task[OF Suc.prems]
    by (auto simp: drain_one_def lift_task_def split: option.split list.split prod.split sum.split)
qed simp

lemma handshake_kept: "engine_ok left \<Longrightarrow> engine_ok right \<Longrightarrow> peers_ok (fst (fuzz_handshake left right))"
  by (auto simp: fuzz_handshake_def Let_def split: prod.split sum.split)

lemma open_pair_fst [simp]: "engine_ok left \<Longrightarrow> engine_ok right \<Longrightarrow> peers_ok (fst (open_pair left right window))"
  by (auto simp: open_pair_def split: prod.split sum.split)

lemma open_pair_kept [dest]:
  "open_pair left right window = ((left', right'), channel) \<Longrightarrow> engine_ok left \<Longrightarrow> engine_ok right \<Longrightarrow>
     engine_ok left' \<and> engine_ok right'"
  using open_pair_fst[of left right window] by simp

lemma connected_kept: "connected_pair executor = (peers, ok) \<Longrightarrow> peers_ok peers"
  using handshake_kept[of "fuzz_engine None" "fuzz_engine executor"] by (simp add: connected_pair_def)

text \<open>What is known of the outcome of the steps before the input is read.\<close>

lemma then_connected:
  assumes "\<And>peers. peers_ok peers \<Longrightarrow> yields (f (peers, False)) P" "\<And>peers. peers_ok peers \<Longrightarrow> yields (f (peers, True)) P"
  shows "yields (f (connected_pair executor)) P"
  using assms connected_kept[of executor] by (cases "connected_pair executor"; cases "snd (connected_pair executor)") auto

lemma targets_open_kept: "yields run_connection_open peers_ok"
  unfolding run_connection_open_def
  by (rule then_connected) (auto intro!: yielding yields_for split: prod.splits sum.split)

lemma targets_peer_bytes_kept: "yields run_connection_peer_bytes peers_ok"
  unfolding run_connection_peer_bytes_def
  by (rule yields_while) (auto intro!: yielding split: prod.split simp: connected_kept[of None, OF prod.collapse[symmetric]])

lemma yields_split: "engine_ok e \<Longrightarrow> yields (split_chunk chunk offset e) engine_ok"
proof (induction chunk offset e rule: split_chunk.induct)
  case (1 chunk offset e)
  show ?case using "1.prems"
    by (subst split_chunk.simps) (auto intro!: yielding "1.IH" simp: Let_def)
qed

lemma targets_chunks_kept: "yields run_connection_chunks peers_ok"
proof -
  have "yields (for_each (\<lambda>chunk right. split_chunk chunk 0 right) hello (fuzz_engine None)) engine_ok" for hello
    by (rule yields_for) (simp_all add: yields_split)
  then show ?thesis
    unfolding run_connection_chunks_def
    by (auto split: prod.split sum.split intro!: yielding yields_bind[of _ engine_ok])
qed

lemma with_channel_kept:
  assumes "\<And>channel peers. peers_ok peers \<Longrightarrow> yields (body channel peers) peers_ok"
  shows "yields (with_channel window body) peers_ok"
  unfolding with_channel_def
  by (rule then_connected) (auto intro!: yielding assms split: prod.split option.split)

lemma targets_data_ext_kept: "yields run_connection_data_ext peers_ok"
  unfolding run_connection_data_ext_def
  by (rule with_channel_kept) (auto intro!: yielding split: prod.split sum.split)

lemma yields_ranges: "yields (random_ranges most width fallback) (\<lambda>_. True)"
  unfolding random_ranges_def by (intro yielding yields_for) auto

lemmas then_ranges [yielding] = yields_bind[OF yields_ranges]

lemma targets_credit_ack_kept: "yields run_connection_credit_ack peers_ok"
  unfolding run_connection_credit_ack_def
  by (rule then_connected)
    (auto intro!: yielding yields_for split: prod.split option.split dest!: kept_by open_pair_kept)

lemma targets_resume_kept: "yields run_connection_resume peers_ok"
  unfolding run_connection_resume_def
  by (rule then_connected) (auto intro!: yielding split: prod.split)

lemma targets_timer_kept: "yields run_connection_timer peers_ok"
  unfolding run_connection_timer_def
  by (rule yields_bind[OF yields_for[where P = "\<lambda>st. peers_ok (fst st)"]])
    (auto intro!: yielding split: prod.split simp: connected_kept[of None, OF prod.collapse[symmetric]])

lemma targets_outbound_kept: "yields run_connection_outbound peers_ok"
  unfolding run_connection_outbound_def
  by (rule with_channel_kept, rule yields_for) (auto intro!: yielding split: prod.split sum.split dest!: kept_by)

lemma targets_multichannel_kept: "yields run_connection_multichannel peers_ok"
proof -
  let ?open = "\<lambda>((left, right), channels) i. (case open_pair left right 2048 of
      (peers, None) \<Rightarrow> (peers, channels) | (peers, Some channel) \<Rightarrow> (peers, channels @ [channel]))"
  have opened: "engine_ok left' \<and> engine_ok right'"
    if "foldl ?open ((left, right), channels) xs = ((left', right'), channels')" "engine_ok left" "engine_ok right"
    for left right left' right' channels channels' and xs :: "nat list"
    using that
    by (induction xs arbitrary: left right channels) (auto split: prod.splits option.splits)
  show ?thesis
    unfolding run_connection_multichannel_def
    by (rule then_connected) (auto intro!: yielding yields_for split: prod.splits sum.split dest!: opened)
qed

lemma targets_reset_goaway_kept: "yields run_connection_reset_goaway peers_ok"
  unfolding run_connection_reset_goaway_def
  by (rule then_connected)
    (auto intro!: yielding yields_bind[of _ peers_ok] split: prod.split option.split sum.split dest!: kept_by open_pair_kept)

lemma event_script_kept:
  "peers_ok (fst st) \<Longrightarrow> yields (event_script_step st) (\<lambda>st. peers_ok (fst st))"
  unfolding event_script_step_def
  by (cases st; cases "fst st")
    (auto intro!: yielding split: prod.split option.split simp: Let_def)

lemma targets_event_script_kept: "yields run_connection_event_script peers_ok"
  unfolding run_connection_event_script_def
  by (rule yields_bind[OF yields_for[where P = "\<lambda>st. peers_ok (fst st)"]])
    (auto intro!: yielding event_script_kept split: prod.split
      simp: connected_kept[of "Some (deterministic_executor 32 4)", OF prod.collapse[symmetric]])

section \<open>The handshake succeeds\<close>

definition session :: "ConnectionEngine \<Rightarrow> bool" where
  "session e \<longleftrightarrow> ce_state e = CS_active \<and> ce_capabilities e = Some echo_capabilities \<and>
     ce_channels e = Some (channel_table 256 4096 1048576) \<and> ce_codec e = new_codec (engine_limits default_policy) \<and>
     ce_policy e = default_policy \<and> ce_registry e = echo_registry \<and> flushed e \<and> ce_next_frame_seq e = 2 \<and>
     rw_epoch (ce_replay e) = 1 \<and> \<not> window_contains (ce_replay e) 2"

lemma fuzz_starts:
  "\<exists>e bs. start (fuzz_engine executor) = (e, Inr [bs]) \<and> length bs \<le> 77"
proof -
  obtain payload where "encode_hello_payload (policy_hello default_policy echo_registry) = Inr payload"
    "length payload = 52" using echo_hello by blast
  then show ?thesis
    using start_succeeds[of default_policy echo_registry payload executor]
    by (fastforce simp: fuzz_engine_def default_policy_def SIZE_MAX_def)
qed

lemma echo_negotiates: "negotiate (policy_hello default_policy echo_registry) (policy_hello default_policy echo_registry) = Inr echo_capabilities"
  using echo_compatible negotiate_when[of "policy_hello default_policy echo_registry" "policy_hello default_policy echo_registry"]
  by (simp add: echo_capabilities_def)

lemma hello_replay: "handle_frames e [hello_frame y] = (e', Inr out) \<Longrightarrow>
    ce_replay e' = ce_replay e \<and> ce_scheduler e' = ce_scheduler e"
  by (auto simp: handle_frame_def hello_frame_def handle_hello_def push_event_def schedule_timer_def Let_def
      split: sum.splits if_splits prod.splits)

lemma greeted:
  assumes "start (fuzz_engine executor) = (e, Inr [bs])" "start (fuzz_engine executor') = (e', Inr [bs'])"
    and "length bs' \<le> 77"
  shows "\<exists>e''. receive e bs' False = (e'', Inr []) \<and> session e'' \<and> ce_replay e'' = ce_replay e \<and>
    ce_scheduler e'' = ce_scheduler e \<and> map ev_kind (ce_events e'') = [EK_negotiated]"
proof -
  have win: "lp_connection_window default_policy \<le> SIZE_MAX" using default_policy_fits by (simp add: policy_fits_def)
  have "length (concat [bs']) \<le> lp_max_frame default_policy" using assms(3) by (simp add: default_policy_def)
  from hello_received[OF assms(1,2)[unfolded fuzz_engine_def] win win echo_fits this] obtain y where
    y: "receive e (concat [bs']) False = handle_frames e [hello_frame y]"
    "decode_hello_payload y = Inr (wire_hello (policy_hello default_policy echo_registry))"
    "greeting default_policy echo_registry e"
    "negotiate (policy_hello default_policy echo_registry) (wire_hello (policy_hello default_policy echo_registry)) =
       Inr echo_capabilities" by (metis echo_negotiates)
  have "cap_connection_window echo_capabilities = 1048576"
    by (simp add: echo_capabilities_def echo_caps agreed_def Let_def policy_hello_def default_policy_def)
  then show ?thesis
    using handle_greeting[OF y(3,2,4)] y(1,3) echo_capability_fields
    by (auto simp: session_def greeting_def default_policy_def simp del: handle_frames.simps dest: hello_replay)
qed

text \<open>Remark. Every target gets past its handshake: two engines with the default policy and the echo
  plugin connect, whatever executor the second one has.\<close>

theorem fuzz_handshake_connects:
  "\<exists>left right. connected_pair executor = ((left, right), True) \<and> session left \<and> session right"
proof -
  obtain l lh where l: "start (fuzz_engine None) = (l, Inr [lh])" "length lh \<le> 77" using fuzz_starts by blast
  obtain r rh where r: "start (fuzz_engine executor) = (r, Inr [rh])" "length rh \<le> 77" using fuzz_starts by blast
  obtain r' where r': "receive r lh False = (r', Inr [])" "session r'" using greeted[OF r(1) l] by blast
  obtain l' where l': "receive l rh False = (l', Inr [])" "session l'" using greeted[OF l(1) r] by blast
  show ?thesis using l r l' r'
    by (simp add: connected_pair_def fuzz_handshake_def session_def)
qed

section \<open>Reading what may not be there\<close>

lemma send_capabilities:
  assumes "engine_send e cid payload = (e', r)"
  shows "ce_capabilities e' = ce_capabilities e"
proof -
  have set: "ce_capabilities (set_flow x c f) = ce_capabilities x" for x c f
    by (simp add: set_flow_def split: option.split)
  have rel: "ce_capabilities (release_flow x c n) = ce_capabilities x" for x c n
    by (simp add: release_flow_def set split: option.split)
  have loop: "ce_capabilities x' = ce_capabilities x" if "send_loop x c q p f 0 [] = (x', r')" for x c q p f x' r'
    using send_loop_core[of x c q p f 0 "[]"] that by (simp add: same_core_def)
  show ?thesis
    using assms
    by (auto simp: engine_send_def set rel Let_def dest!: loop
        split: option.splits if_splits prod.splits sum.splits)
qed

lemma open_capabilities: "open_channel e request = (e', r) \<Longrightarrow> ce_capabilities e' = ce_capabilities e"
  by (auto simp: open_channel_def push_event_def same_core_def dest!: emit_new_core
      split: option.splits if_splits prod.splits sum.splits)

lemma bridge_kept:
  assumes "bridge_to_connection gw from_caps dest e source payload = (e', r)"
  shows "ce_capabilities e' = ce_capabilities e" "engine_ok e \<Longrightarrow> engine_ok e'"
  using assms by (auto simp: bridge_to_connection_def send_capabilities split: sum.splits)

lemma bridge_deliveries_reads:
  assumes "engine_ok egress" "engine_ok server" "ce_capabilities egress \<noteq> None"
    and "(\<exists>ev \<in> set events. ev_kind ev = EK_message_delivered) \<longrightarrow> from_caps \<noteq> None"
  shows "\<exists>peers. bridge_deliveries gw source from_caps events (egress, server) = Some peers \<and> peers_ok peers"
  using assms
proof (induction events arbitrary: egress server)
  case (Cons event events)
  show ?case
  proof (cases "ev_kind event = EK_message_delivered \<and> ev_channel event = source")
    case True
    then obtain source_caps dest where caps: "from_caps = Some source_caps" "ce_capabilities egress = Some dest"
      using Cons.prems(3,4) by auto
    obtain egress' r where b: "bridge_to_connection gw source_caps dest egress source (ev_payload event) = (egress', r)"
      by fastforce
    have "\<exists>peers. bridge_deliveries gw source from_caps events (egress', deliver_ok server r) = Some peers \<and> peers_ok peers"
      by (rule Cons.IH) (use Cons.prems bridge_kept[OF b] caps in auto)
    then show ?thesis using True caps b by simp
  qed (use Cons in auto)
qed simp

lemma delivery_needs_capabilities:
  assumes "engine_ok e" "ev \<in> set (ce_events e)" "ev_kind ev = EK_message_delivered"
  shows "ce_capabilities e \<noteq> None"
proof -
  have "delivered (cid_number (ev_channel ev)) (ce_events e) \<noteq> []"
    unfolding delivered_def using assms(2,3) by (simp add: filter_empty_conv) blast
  moreover have "ce_channels e = None \<Longrightarrow> delivered n (ce_events e) = []" for n
    using assms(1) by (simp add: engine_ok_def)
  ultimately show ?thesis using assms(1) by (auto simp: engine_ok_def)
qed

lemma targets_bridge_kept:
  "yields run_gateway_bridge (\<lambda>r. \<exists>clients servers. r = Some (clients, servers) \<and> peers_ok clients \<and> peers_ok servers)"
proof -
  obtain left right where c: "connected_pair None = ((left, right), True)" "session left" "session right"
    using fuzz_handshake_connects by blast
  have ok: "engine_ok left" "engine_ok right" using connected_kept[OF c(1)] by simp_all
  obtain l r channel where o: "open_pair left right 8192 = ((l, r), channel)" by (metis surj_pair)
  have kept: "engine_ok l" "engine_ok r" using open_pair_kept[OF o] ok by simp_all
  have caps: "ce_capabilities l \<noteq> None"
    using o c(2) by (auto simp: open_pair_def session_def dest!: open_capabilities split: prod.splits sum.splits)
  have body: "\<exists>servers. bridge_deliveries gw s (ce_capabilities i) (ce_events i) (l, r) = Some servers \<and> peers_ok servers"
    if "engine_ok i" for gw s i
    by (rule bridge_deliveries_reads[OF kept caps]) (use that delivery_needs_capabilities in blast)
  have sent: "\<exists>servers. bridge_deliveries gw s (ce_capabilities (deliver_ok r chunks))
      (ce_events (deliver_ok r chunks)) (l, r) = Some servers \<and> peers_ok servers" for gw s chunks
    by (rule body) (use kept in simp)
  show ?thesis
    unfolding run_gateway_bridge_def
    using c(1) o kept
    by (auto simp: Let_def intro!: yielding split: option.split prod.split) (use sent in fastforce)+
qed

section \<open>The event fuzzer\<close>

lemma emit_control_keeps:
  assumes "flushed e" "emit e frame = (e', r)" "f_type frame \<noteq> FT_data"
  shows "flushed e' \<and> (\<forall>out. r = Inr out \<longrightarrow> (\<exists>bs. out = [bs]))"
proof (cases r)
  case (Inl err)
  then have "ce_scheduler e' = ce_scheduler e" "ce_policy e' = ce_policy e"
    using assms(2,3)
    by (auto simp: emit_def queue_encoded_def enqueue_def is_control_frame_def Let_def split: sum.splits prod.splits if_splits option.splits)
  then show ?thesis using assms(1) Inl by (simp add: flushed_def)
next
  case (Inr out)
  then obtain bs w where "out = [bs]"
    "e' = e\<lparr>ce_replay := w, ce_scheduler := sent_item (ce_scheduler e) (frame_item frame bs)\<rparr>"
    using emit_flushed[OF assms(1) assms(2)[unfolded Inr]] assms(3) by metis
  then show ?thesis using assms(1) Inr by (simp add: flushed_def)
qed

lemma open_channel_keeps:
  assumes "flushed e" "open_channel e request = (e', r)"
  shows "flushed e' \<and> (\<forall>cid out. r = Inr (cid, out) \<longrightarrow> (\<exists>bs. out = [bs]))"
proof -
  have em: "flushed x' \<and> (\<forall>out. y = Inr out \<longrightarrow> (\<exists>bs. out = [bs]))"
    if "emit_new (e\<lparr>ce_channels := t\<rparr>) FT_open cid payload [] = (x', y)" for t cid payload x' y
  proof -
    have "flushed (e\<lparr>ce_channels := t, ce_next_frame_seq := ce_next_frame_seq e + 1\<rparr>)"
      using assms(1) by (simp add: flushed_def)
    from emit_control_keeps[OF this] that show ?thesis by (auto simp: emit_new_def make_frame_def)
  qed
  have view: "flushed (e\<lparr>ce_channels := t\<rparr>)" "flushed (push_event k c s p x) = flushed x" for t k c s p x
    using assms(1) by (simp_all add: flushed_def push_event_def)
  show ?thesis
    using assms(1,2)
    by (auto simp: open_channel_def view dest!: em split: option.splits if_splits prod.splits sum.splits)
qed

lemma event_fuzz_loop_ok:
  assumes "flushed left" "engine_ok left" "engine_ok right"
  shows "\<exists>peers. event_fuzz_loop ops (left, right) = Some peers \<and> peers_ok peers"
  using assms
proof (induction ops arbitrary: left right)
  case (Cons op ops)
  show ?case
  proof (cases "op mod 5 = 0")
    case True
    obtain left' r where o: "open_channel left \<lparr>or_family_id = 7, or_initial_window = 1024\<rparr> = (left', r)" by fastforce
    note keeps = open_channel_keeps[OF Cons.prems(1) o] kept(3)[OF Cons.prems(2) o]
    show ?thesis
    proof (cases r)
      case (Inl err)
      then show ?thesis using True o Cons.IH keeps Cons.prems(3) by simp
    next
      case (Inr opened)
      then obtain cid bs where "opened = (cid, [bs])" using keeps(1) by (cases opened) auto
      then show ?thesis using True o Inr Cons.IH keeps Cons.prems(3) by simp
    qed
  next
    case False
    then show ?thesis using Cons by simp
  qed
qed simp

text \<open>Remark. Whatever bytes a fuzzer feeds them, the targets that drive engines leave every engine
  consistent (active only with capabilities and a table, credit whole, deliveries in order, no
  event before the negotiation), read their input front to back and never past its end, and the
  bridge target never reads capabilities that are not there.\<close>

theorem fuzz_engines_sound:
  "yields run_connection_peer_bytes peers_ok \<and> yields run_connection_chunks peers_ok \<and>
   yields run_connection_open peers_ok \<and> yields run_connection_data_ext peers_ok \<and>
   yields run_connection_credit_ack peers_ok \<and> yields run_connection_resume peers_ok \<and>
   yields run_connection_timer peers_ok \<and> yields run_connection_reset_goaway peers_ok \<and>
   yields run_connection_outbound peers_ok \<and> yields run_connection_multichannel peers_ok \<and>
   yields run_connection_event_script peers_ok \<and>
   yields run_gateway_bridge (\<lambda>r. \<exists>clients servers. r = Some (clients, servers) \<and> peers_ok clients \<and> peers_ok servers)"
  by (intro conjI targets_peer_bytes_kept targets_chunks_kept targets_open_kept targets_data_ext_kept
      targets_credit_ack_kept targets_resume_kept targets_timer_kept targets_reset_goaway_kept
      targets_outbound_kept targets_multichannel_kept targets_event_script_kept targets_bridge_kept)

text \<open>Remark. The stand-alone event fuzzer exits with status 0 on every command line and every
  file: both engines start, every chunk it takes is there, and both engines stay consistent.\<close>

theorem event_fuzzer_exits:
  "\<exists>peers. connection_event_fuzz w argv = Some (peers, Exit 0) \<and> peers_ok peers"
proof -
  obtain l bs where l: "start (fuzz_engine None) = (l, Inr [bs])" "length bs \<le> 77" using fuzz_starts by blast
  obtain e where e: "receive l bs False = (e, Inr [])" "session e" using greeted[OF l(1) l] by blast
  have "engine_ok e" using kept(1)[OF kept(2)[OF engine_ok_fuzz l(1)] e(1)] .
  then obtain peers where "event_fuzz_loop ops (e, e) = Some (peers ops) \<and> peers_ok (peers ops)" for ops
    using event_fuzz_loop_ok[of e e] e(2) unfolding session_def by metis
  then show ?thesis using l e(1) by (simp add: connection_event_fuzz_def)
qed

end
