(* ===== verification/Bench.thy ===== *)
theory Bench
  imports Fuzz_Engines
begin

text \<open>
  The acceptance benchmark \<^verbatim>\<open>tools/lattice_bench.cpp\<close>, as far as it does not depend on the clock: its
  handshake with the messages it prints, and \<open>measure_active_channels\<close>, which opens as many channels
  as the default policy allows. The property: it gets them all. The probes that time decoding and
  delivery compute with \<open>double\<close> and are not modelled.
\<close>

section \<open>The probe\<close>

definition kDefaultMaxChannels :: nat where
  "kDefaultMaxChannels = 256"

definition bench_error :: "World \<Rightarrow> string \<Rightarrow> Error \<Rightarrow> World" where
  "bench_error w what err = cerr w (what @ '': '' @ stable_code err @ '': '' @ err_detail err @ nl)"

text \<open>An element that is not there (\<open>value()[0]\<close> of an empty vector) is \<open>None\<close>.\<close>

definition bench_handshake :: "World \<Rightarrow> Peers \<Rightarrow> (World \<times> Peers \<times> bool) option" where
  "bench_handshake w = (\<lambda>(left, right).
     (let (left, left_hello) = start left; (right, right_hello) = start right
      in case left_hello of
        Inl err \<Rightarrow> Some (bench_error w ''left.start'' err, (left, right), False)
      | Inr lh \<Rightarrow>
          (case right_hello of
             Inl err \<Rightarrow> Some (bench_error w ''right.start'' err, (left, right), False)
           | Inr rh \<Rightarrow>
               (case (lh, rh) of
                  (l # _, r # _) \<Rightarrow>
                    (case receive right l False of
                       (right, Inl err) \<Rightarrow> Some (bench_error w ''right.receive(hello)'' err, (left, right), False)
                     | (right, Inr _) \<Rightarrow>
                         (case receive left r False of
                            (left, Inl err) \<Rightarrow> Some (bench_error w ''left.receive(hello)'' err, (left, right), False)
                          | (left, Inr _) \<Rightarrow>
                              Some (w, (left, right), ce_state left = CS_active \<and> ce_state right = CS_active)))
                | _ \<Rightarrow> None))))"

fun open_all :: "nat \<Rightarrow> nat \<Rightarrow> World \<Rightarrow> Peers \<Rightarrow> (World \<times> nat) option" where
  "open_all 0 opened_count w peers = Some (w, opened_count)"
| "open_all (Suc n) opened_count w (left, right) =
     (case open_channel left \<lparr>or_family_id = 7, or_initial_window = 1024\<rparr> of
        (left, Inl err) \<Rightarrow> Some (bench_error w ''open_channel(capacity)'' err, opened_count)
      | (left, Inr (_, [])) \<Rightarrow> None
      | (left, Inr (_, chunk # _)) \<Rightarrow>
          (case receive right chunk False of
             (right, Inl err) \<Rightarrow> Some (bench_error w ''receive(OPEN capacity)'' err, opened_count)
           | (right, Inr _) \<Rightarrow> open_all n (opened_count + 1) w (left, right)))"

definition measure_active_channels :: "World \<Rightarrow> (World \<times> nat) option" where
  "measure_active_channels w =
     (case bench_handshake w (fuzz_engine None, fuzz_engine None) of
        None \<Rightarrow> None
      | Some (w, peers, ok) \<Rightarrow> if ok then open_all kDefaultMaxChannels 0 w peers else Some (w, 0))"

section \<open>A table that fills from the front\<close>

definition nth_channel :: "nat \<Rightarrow> ChannelId" where
  "nth_channel i = \<lparr>cid_number = of_nat (i + 1), cid_generation = 1\<rparr>"

definition empty_table :: ChannelTable where
  "empty_table = channel_table 256 4096 1048576"

definition filled :: "nat \<Rightarrow> ChannelTable" where
  "filled k = empty_table\<lparr>ct_slots := map (\<lambda>i. if i < k then opened_slot empty_table (nth_channel i) CH_open (new_slot 4096 1048576 i)
     else new_slot 4096 1048576 i) [0..<256]\<rparr>"

lemma filled_0: "filled 0 = channel_table 256 4096 1048576"
  by (simp add: filled_def empty_table_def channel_table_def)

lemma first_free_filled: "first_free (ct_slots (filled k)) 0 = (if k < 256 then Some k else None)"
proof -
  have "first_free (map f [a..<b]) a = (if max a k < b then Some (max a k) else None)"
    if "a \<le> b" "\<And>i. cs_state (f i) = CH_free \<longleftrightarrow> k \<le> i" for f a b
    using that(1)
  proof (induction "b - a" arbitrary: a)
    case (Suc n)
    have "first_free (map f [Suc a..<b]) (Suc a) = (if max (Suc a) k < b then Some (max (Suc a) k) else None)"
      using Suc by (intro Suc.hyps(1)) simp_all
    then show ?case using Suc.hyps(2) that(2)[of a] by (auto simp: upt_conv_Cons max_def)
  qed (use that in auto)
  from this[of 0 256] show ?thesis
    by (simp add: filled_def opened_slot_def new_slot_def)
qed

lemma filled_slot: "i < 256 \<Longrightarrow> ct_slots (filled k) ! i =
    (if i < k then opened_slot empty_table (nth_channel i) CH_open (new_slot 4096 1048576 i) else new_slot 4096 1048576 i)"
  by (simp add: filled_def)

lemma filled_next: "k < 256 \<Longrightarrow>
    (filled k)\<lparr>ct_slots := (ct_slots (filled k))[k := opened_slot empty_table (nth_channel k) CH_open (new_slot 4096 1048576 k)]\<rparr>
    = filled (Suc k)"
proof -
  assume k: "k < 256"
  have "(ct_slots (filled k))[k := opened_slot empty_table (nth_channel k) CH_open (new_slot 4096 1048576 k)]
      = ct_slots (filled (Suc k))"
    by (rule nth_equalityI) (use k in \<open>auto simp: filled_def nth_list_update less_Suc_eq\<close>)
  then show ?thesis by (simp add: filled_def)
qed

lemma index_filled: "k < 256 \<Longrightarrow> slot_index (filled j) (nth_channel k) = Some k"
proof -
  assume k: "k < 256"
  have n: "unat (of_nat (k + 1) :: u32) = k + 1" using k by (simp add: unat_of_nat del: of_nat_add of_nat_Suc)
  then have "(of_nat (k + 1) :: u32) \<noteq> 0" by (metis Suc_eq_plus1 nat.distinct(1) unat_0)
  then show ?thesis using k n by (simp add: slot_index_def nth_channel_def filled_def unat_of_nat)
qed

lemma allocate_filled:
  assumes "k < 256"
  shows "\<exists>t. allocate (filled k) = (t, Inr (nth_channel k)) \<and> activate t (nth_channel k) = (filled (Suc k), Inr ())"
    "accept_remote (filled k) (nth_channel k) = (filled (Suc k), Inr ())"
proof -
  let ?slot = "new_slot 4096 1048576 k"
  let ?opening = "opened_slot empty_table (nth_channel k) CH_opening ?slot"
  let ?t = "(filled k)\<lparr>ct_slots := (ct_slots (filled k))[k := ?opening]\<rparr>"
  have slots: "ct_slots (filled k) ! k = ?slot" "length (ct_slots (filled k)) = 256"
    using assms filled_slot[of k k] by (simp_all add: filled_def)
  have cid: "(cs_id ?slot)\<lparr>cid_generation := 1\<rparr> = nth_channel k"
    "cid_generation (cs_id ?slot) = 0" "cs_state ?slot = CH_free"
    by (simp_all add: new_slot_def nth_channel_def)
  have same: "opened_slot (filled k) = opened_slot empty_table"
    by (simp add: opened_slot_def fun_eq_iff filled_def)
  have alloc: "allocate (filled k) = (?t, Inr (nth_channel k))"
    using assms by (simp add: allocate_def first_free_filled slots cid same Let_def)
  have index: "slot_index (filled k) (nth_channel k) = Some k" "slot_index ?t (nth_channel k) = Some k"
    using index_filled[OF assms, of k] slots by (simp_all add: slot_index_def)
  have found: "find_slot ?t (nth_channel k) = Some ?opening"
    using assms index(2) slots by (simp add: find_slot_def opened_slot_def Let_def)
  have number: "unat (cid_number (nth_channel k) - 1) = k" using index(1) by (auto simp: slot_index_def split: if_splits)
  have opened: "?opening\<lparr>cs_state := CH_open\<rparr> = opened_slot empty_table (nth_channel k) CH_open ?slot"
    "cs_state ?opening = CH_opening"
    by (rule ChannelSlot.equality; simp add: opened_slot_def) (simp add: opened_slot_def)
  have "activate ?t (nth_channel k) = (filled (Suc k), Inr ())"
    using filled_next[OF assms] found
    by (simp add: activate_def update_slot_def number opened)
  with alloc show "\<exists>t. allocate (filled k) = (t, Inr (nth_channel k)) \<and> activate t (nth_channel k) = (filled (Suc k), Inr ())"
    by blast
  show "accept_remote (filled k) (nth_channel k) = (filled (Suc k), Inr ())"
    using assms index(1) slots cid same filled_next[OF assms]
    by (simp add: accept_remote_def nth_channel_def[of k])
qed

section \<open>Opening one channel after another\<close>

text \<open>The two ends after \<open>k\<close> channels.\<close>

definition acceptor :: "nat \<Rightarrow> ConnectionEngine \<Rightarrow> bool" where
  "acceptor k e \<longleftrightarrow> ce_state e = CS_active \<and> ce_capabilities e = Some echo_capabilities \<and>
     ce_channels e = Some (filled k) \<and> ce_codec e = new_codec (engine_limits default_policy)"

definition opener :: "nat \<Rightarrow> ConnectionEngine \<Rightarrow> bool" where
  "opener k e \<longleftrightarrow> acceptor k e \<and> ce_policy e = default_policy \<and> flushed e \<and>
     ce_next_frame_seq e = of_nat (k + 2) \<and> rw_epoch (ce_replay e) = 1 \<and>
     (\<forall>q \<in> set (seqs (ce_replay e)). unat q \<le> k + 1)"

definition open_frame :: "nat \<Rightarrow> nat \<Rightarrow> Frame" where
  "open_frame window k = \<lparr>f_type = FT_open, f_flags = 0, f_channel = nth_channel k, f_frame_seq = of_nat (k + 2),
     f_extensions = [], f_payload = append_u32 (append_u32 [] 7) (of_nat window)\<rparr>"

lemma echo_family: "family_negotiated echo_capabilities 7"
  by (simp add: echo_capabilities_def family_negotiated_def agreed_def Let_def policy_hello_def echo_descriptors
      common_def common_row_def combine_def echo_descriptor_def)

lemma open_frame_encodes:
  assumes "k < 256"
  shows "encode_frame (engine_limits default_policy) (open_frame window k) = Inr (frame_bytes (open_frame window k) [])"
    "length (frame_bytes (open_frame window k) []) \<le> 33"
proof -
  show size: "length (frame_bytes (open_frame window k) []) \<le> 33"
    using length_uleb_bytes[of 8] by (simp add: length_frame_bytes append_u32_def open_frame_def)
  have "unat (of_nat (k + 1) :: u32) = k + 1" using assms by (simp add: unat_of_nat del: of_nat_add of_nat_Suc)
  moreover have "write_extensions [] = Inr []" by (simp add: write_extensions_def)
  ultimately show "encode_frame (engine_limits default_policy) (open_frame window k) = Inr (frame_bytes (open_frame window k) [])"
    using size assms
    by (simp add: encode_frame_iff engine_limits_def kMaxChannelNo_def SIZE_MAX_def open_frame_def nth_channel_def
        default_policy_def append_u32_def word_le_nat_alt word_less_nat_alt del: of_nat_add of_nat_Suc)
qed

lemma recorded_seqs:
  "record_frame w epoch q bs = (w', Inr ()) \<Longrightarrow> set (seqs w') \<subseteq> insert q (set (seqs w)) \<and> rw_epoch w' = rw_epoch w"
  by (cases "rw_entries w") (auto simp: record_frame_def seqs_def Let_def split: if_splits)

lemma flushed_sent: "flushed e \<Longrightarrow> flushed (e\<lparr>ce_replay := w, ce_scheduler := sent_item (ce_scheduler e) item\<rparr>)"
  by (simp add: flushed_def)

lemma opens_next:
  assumes "opener k e" "k < 256"
  shows "\<exists>e'. open_channel e \<lparr>or_family_id = 7, or_initial_window = window\<rparr> =
      (e', Inr (nth_channel k, [frame_bytes (open_frame window k) []])) \<and> opener (Suc k) e' \<and>
      ce_scheduler e' = ce_scheduler e \<and> map ev_kind (ce_events e') = map ev_kind (ce_events e) @ [EK_channel_opened]"
proof -
  note o = assms(1)[unfolded opener_def acceptor_def]
  obtain t where t: "allocate (filled k) = (t, Inr (nth_channel k))" "activate t (nth_channel k) = (filled (Suc k), Inr ())"
    using allocate_filled(1)[OF assms(2)] by blast
  let ?bs = "frame_bytes (open_frame window k) []"
  let ?e1 = "e\<lparr>ce_channels := Some (filled (Suc k)), ce_next_frame_seq := of_nat (k + 2) + 1\<rparr>"
  have n: "unat (of_nat (k + 2) :: u32) = k + 2" using assms(2) by (intro unat_of_nat_u32) simp
  have "flushed e" using o by blast
  then have fl: "flushed ?e1" by (simp add: flushed_def)
  have enc: "encode_frame (fc_limits (ce_codec ?e1)) (open_frame window k) = Inr ?bs"
    using open_frame_encodes(1)[OF assms(2)] o by (simp add: new_codec_def)
  have new: "\<not> window_contains (ce_replay ?e1) (f_frame_seq (open_frame window k))"
    using o n by (auto simp: window_contains_iff open_frame_def)
  obtain e2 where em: "emit ?e1 (open_frame window k) = (e2, Inr [?bs])"
    by (rule emit_flushed_ok[OF fl enc _ new])
      (use o open_frame_encodes(2)[OF assms(2), of window] in \<open>simp_all add: default_policy_def open_frame_def\<close>)
  obtain bs w where f: "encode_frame (fc_limits (ce_codec ?e1)) (open_frame window k) = Inr bs"
    "e2 = ?e1\<lparr>ce_replay := w, ce_scheduler := sent_item (ce_scheduler ?e1) (frame_item (open_frame window k) bs)\<rparr>"
    "record_frame (ce_replay ?e1) 1 (f_frame_seq (open_frame window k)) bs = (w, Inr ())"
    by (rule emit_flushed[OF fl em]) (simp_all add: open_frame_def)
  have "bs = ?bs" using f(1) enc by simp
  note w = f(2,3)[unfolded this]
  have "opener (Suc k) (push_event EK_channel_opened (nth_channel k) 0 [] e2)"
    unfolding opener_def
  proof (intro conjI)
    show "acceptor (Suc k) (push_event EK_channel_opened (nth_channel k) 0 [] e2)"
      using o by (simp add: acceptor_def push_event_def w(1))
    show "flushed (push_event EK_channel_opened (nth_channel k) 0 [] e2)"
      using flushed_sent[OF fl] by (simp add: push_event_def w(1) flushed_def)
    have "q = of_nat (k + 2) \<or> unat q \<le> k + 1" if "q \<in> set (seqs w)" for q
      using recorded_seqs[OF w(2)] that o by (auto simp: open_frame_def)
    then show "\<forall>q \<in> set (seqs (ce_replay (push_event EK_channel_opened (nth_channel k) 0 [] e2))). unat q \<le> Suc k + 1"
      using n by (fastforce simp: push_event_def w(1))
  qed (use o recorded_seqs[OF w(2)] in \<open>simp_all add: push_event_def w(1)\<close>)
  moreover have "ce_scheduler e2 = ce_scheduler e" "ce_events e2 = ce_events e"
    by (simp_all add: w(1) sent_item_def frame_item_def is_control_frame_def open_frame_def)
  moreover have "emit_new (e\<lparr>ce_channels := Some (filled (Suc k))\<rparr>) FT_open (nth_channel k) (append_u32 (append_u32 [] 7) (of_nat window)) []
      = (e2, Inr [?bs])"
    using em o by (simp add: emit_new_def make_frame_def open_frame_def)
  ultimately show ?thesis using o t echo_family by (simp add: open_channel_def push_event_def)
qed

lemma accepts_next:
  assumes "acceptor k e" "k < 256"
  shows "\<exists>e'. receive e (frame_bytes (open_frame window k) []) False = (e', Inr []) \<and> acceptor (Suc k) e' \<and>
      map ev_kind (ce_events e') = map ev_kind (ce_events e) @ [EK_channel_opened]"
proof -
  note o = assms(1)[unfolded acceptor_def]
  let ?bs = "frame_bytes (open_frame window k) []"
  have "feed (ce_codec e) (concat [?bs]) False = (ce_codec e, map DE_frame (map normal_frame [open_frame window k]))"
    using open_frame_encodes[OF assms(2), of window] o
    by (intro feed_frames[where limits = "engine_limits default_policy"])
      (simp_all add: new_codec_def engine_limits_def open_frame_def default_policy_def)
  moreover have "normal_frame (open_frame window k) = open_frame window k" by (simp add: normal_frame_def open_frame_def)
  ultimately have "receive e ?bs False = handle_frames e [open_frame window k]" by (intro receive_frames) simp
  moreover have "handle_frame e (open_frame window k) =
      (push_event EK_channel_opened (nth_channel k) 0 [] (e\<lparr>ce_channels := Some (filled (Suc k))\<rparr>), Inr [])"
    using o allocate_filled(2)[OF assms(2)] echo_family
    by (simp add: handle_frame_def handle_open_def open_frame_def append_u32_def read_u32_be_def word32_be_def)
  ultimately show ?thesis using o by (simp add: acceptor_def push_event_def)
qed

lemma opens_all:
  "opener k left \<Longrightarrow> acceptor k right \<Longrightarrow> k + n \<le> 256 \<Longrightarrow>
     open_all n k w (left, right) = Some (w, k + n)"
proof (induction n arbitrary: k left right)
  case (Suc n)
  obtain l where l: "open_channel left \<lparr>or_family_id = 7, or_initial_window = 1024\<rparr> =
      (l, Inr (nth_channel k, [frame_bytes (open_frame 1024 k) []]))" "opener (Suc k) l"
    using opens_next[OF Suc.prems(1)] Suc.prems(3) by auto
  obtain r where r: "receive right (frame_bytes (open_frame 1024 k) []) False = (r, Inr [])" "acceptor (Suc k) r"
    using accepts_next[OF Suc.prems(2)] Suc.prems(3) by auto
  show ?case using Suc.IH[OF l(2) r(2)] Suc.prems(3) l(1) r(1) by simp
qed simp

section \<open>The handshake of the benchmark\<close>

lemma emitted_replay:
  "emit e frame = (e', Inr out) \<Longrightarrow> set (seqs (ce_replay e')) \<subseteq> insert (f_frame_seq frame) (set (seqs (ce_replay e)))"
  by (auto simp: emit_def queue_encoded_def flush_outbound_def Let_def split: sum.splits prod.splits
      dest!: recorded_seqs)

lemma start_replay:
  assumes "start (fuzz_engine executor) = (e, Inr out)"
  shows "set (seqs (ce_replay e)) \<subseteq> {1}"
proof -
  obtain e0 payload where "emit_new e0 FT_hello control_channel payload [] = (e, Inr out)" "seqs (ce_replay e0) = []"
    "ce_next_frame_seq e0 = 1"
    using assms
    by (auto simp: start_def fuzz_engine_def connection_engine_def schedule_timer_def replay_window_def seqs_def
        split: sum.splits if_splits)
  then show ?thesis
    by (auto simp: emit_new_def make_frame_def dest!: emitted_replay)
qed

lemma greeted_opener:
  assumes "start (fuzz_engine executor) = (e, Inr [bs])" "receive e bs' False = (e', Inr [])" "session e'"
    "ce_replay e' = ce_replay e"
  shows "opener 0 e'"
proof -
  have "\<forall>q \<in> set (seqs (ce_replay e')). unat q \<le> 1" using start_replay[OF assms(1)] assms(4) by auto
  then show ?thesis using assms(3) by (simp add: opener_def acceptor_def session_def filled_0)
qed

text \<open>Property C27. The benchmark opens every channel the default policy allows: its handshake succeeds, all
  256 opens are emitted, received and accepted, the probe counts 256 and prints no error, and it
  never reads a chunk that is not there.\<close>

theorem all_channels_open: "measure_active_channels w = Some (w, 256)"
proof -
  obtain l bs where l: "start (fuzz_engine None) = (l, Inr [bs])" "length bs \<le> 77" using fuzz_starts by blast
  obtain e where e: "receive l bs False = (e, Inr [])" "session e" "ce_replay e = ce_replay l"
    using greeted[OF l(1) l] by blast
  have o: "opener 0 e" by (rule greeted_opener[OF l(1) e])
  then have "acceptor 0 e" by (simp add: opener_def)
  from opens_all[OF o this, of 256 w] show ?thesis using l(1) e
    by (simp add: measure_active_channels_def bench_handshake_def kDefaultMaxChannels_def session_def)
qed

end
