(* ===== verification/Fuzz_Bridge.thy ===== *)
theory Fuzz_Bridge
  imports Bench
begin

text \<open>
  What the bridge target of \<^verbatim>\<open>fuzz/deep_fuzz_support.hpp\<close> achieves: over its four engines, connected in
  pairs with one channel opened on each pair, a payload the client sends is delivered to the
  ingress, bridged to the egress and delivered to the server.
\<close>

section \<open>A pair with one channel\<close>

text \<open>The messages an engine has delivered, in order.\<close>

definition messages :: "ConnectionEngine \<Rightarrow> ConnectionEvent list" where
  "messages e = filter (\<lambda>ev. ev_kind ev = EK_message_delivered) (ce_events e)"

lemma no_messages: "EK_message_delivered \<notin> set (map ev_kind (ce_events e)) \<Longrightarrow> messages e = []"
  by (simp add: messages_def filter_empty_conv) (metis imageI)

lemma nth_channel_0: "nth_channel 0 = first_channel"
  by (simp add: nth_channel_def)

text \<open>The two ends of the pair, before anything is sent on the channel.\<close>

definition fresh_pair :: "Peers \<Rightarrow> bool" where
  "fresh_pair = (\<lambda>(left, right). opener 1 left \<and> acceptor 1 right \<and>
     (\<forall>c. os_expected_sequence (ce_scheduler left) c = 0) \<and> messages left = [] \<and> messages right = [])"

lemma start_scheduler:
  assumes "start (fuzz_engine executor) = (e, Inr out)"
  shows "os_expected_sequence (ce_scheduler e) c = 0"
proof -
  let ?e1 = "(schedule_timer TK_handshake control_channel kHandshakeTimeoutMs
      ((fuzz_engine executor)\<lparr>ce_state := CS_negotiating\<rparr>))\<lparr>ce_next_frame_seq := 2\<rparr>"
  obtain payload where em: "emit ?e1 (hello_frame payload) = (e, Inr out)"
    using assms
    by (auto simp: start_def emit_new_def make_frame_def hello_frame_def fuzz_engine_def
        connection_engine_def schedule_timer_def split: sum.splits if_splits)
  have "flushed ?e1" using flushed_new[of default_policy echo_registry executor] default_policy_fits
    by (simp add: flushed_def schedule_timer_def fuzz_engine_def policy_fits_def)
  then obtain bs w where "e = ?e1\<lparr>ce_replay := w,
      ce_scheduler := sent_item (ce_scheduler ?e1) (frame_item (hello_frame payload) bs)\<rparr>"
    by (rule emit_flushed[OF _ em]) (simp_all add: hello_frame_def)
  then show ?thesis
    by (simp add: sent_item_def frame_item_def is_control_frame_def hello_frame_def schedule_timer_def
        fuzz_engine_def connection_engine_def outbound_scheduler_def)
qed

lemma pair_opens:
  "\<exists>left right pair. connected_pair None = ((left, right), True) \<and>
     open_pair left right window = (pair, Some first_channel) \<and> fresh_pair pair"
proof -
  obtain l bs where l: "start (fuzz_engine None) = (l, Inr [bs])" "length bs \<le> 77" using fuzz_starts by blast
  obtain e where e: "receive l bs False = (e, Inr [])" "session e" "ce_replay e = ce_replay l"
    "ce_scheduler e = ce_scheduler l" "map ev_kind (ce_events e) = [EK_negotiated]"
    using greeted[OF l(1) l] by (elim exE conjE) (rule that)
  have o: "opener 0 e" by (rule greeted_opener[OF l(1) e(1-3)])
  then have a: "acceptor 0 e" by (simp add: opener_def)
  obtain left where left: "open_channel e \<lparr>or_family_id = 7, or_initial_window = window\<rparr> =
      (left, Inr (nth_channel 0, [frame_bytes (open_frame window 0) []]))" "opener (Suc 0) left"
    "ce_scheduler left = ce_scheduler e" "map ev_kind (ce_events left) = [EK_negotiated, EK_channel_opened]"
    using opens_next[OF o, of window] e(5) by auto
  obtain right where right: "receive e (frame_bytes (open_frame window 0) []) False = (right, Inr [])"
    "acceptor (Suc 0) right" "map ev_kind (ce_events right) = [EK_negotiated, EK_channel_opened]"
    using accepts_next[OF a, of window] e(5) by auto
  have "opener 1 left" "acceptor 1 right" using left(2) right(2) by simp_all
  moreover have "messages left = []" "messages right = []" using left(4) right(3) by (simp_all add: no_messages del: set_map)
  moreover have "os_expected_sequence (ce_scheduler left) c = 0" for c
    unfolding left(3) e(4) by (rule start_scheduler[OF l(1)])
  ultimately have "fresh_pair (left, right)" unfolding fresh_pair_def by simp
  moreover have "connected_pair None = ((e, e), True)"
    using l e by (simp add: connected_pair_def fuzz_handshake_def session_def)
  moreover have "open_pair e e window = ((left, right), Some first_channel)"
    using left(1) right(1) by (simp add: open_pair_def nth_channel_0)
  ultimately show ?thesis by blast
qed

section \<open>One message over the pair\<close>

definition pair_slot :: ChannelSlot where
  "pair_slot = opened_slot empty_table first_channel CH_open (new_slot 4096 1048576 0)"

lemma pair_slot_fields [simp]:
  "cs_next_send_seq pair_slot = 1" "cs_next_recv_seq pair_slot = 1" "fa_window (cs_flow pair_slot) = 4096"
  "fa_available (cs_flow pair_slot) = 4096" "cs_reassembler pair_slot = reassembler 1048576"
  "\<not> cs_local_half_closed pair_slot" "\<not> cs_remote_half_closed pair_slot" "cs_id pair_slot = first_channel"
  "slot_live pair_slot"
  by (simp_all add: pair_slot_def opened_slot_def empty_table_def channel_table_def flow_account_def slot_live_def)

lemma pair_index: "slot_index (filled 1) first_channel = Some 0"
  using index_filled[of 0 1] by (simp add: nth_channel_0)

lemma pair_slot_nth: "ct_slots (filled 1) ! 0 = pair_slot"
  by (simp add: filled_slot pair_slot_def nth_channel_0)

lemma pair_slot_found: "find_slot (filled 1) first_channel = Some pair_slot"
  using pair_index pair_slot_nth by (simp add: find_slot_Some)

lemma pair_table_full: "table_full (filled 1)"
proof -
  have "table_full (fst (accept_remote (channel_table 256 4096 1048576) first_channel))"
    by (rule table_move_full[OF table_full_new table_op_moves(2)[OF table_full_new]]) (simp_all add: SIZE_MAX_def)
  then show ?thesis using allocate_filled(2)[of 0] by (simp add: filled_0 nth_channel_0)
qed

lemma pair_ready:
  assumes "fresh_pair (left, right)"
  shows "ready_to_send default_policy left first_channel pair_slot"
    "ready_to_receive default_policy right first_channel pair_slot"
    "ce_capabilities left = Some echo_capabilities" "ce_capabilities right = Some echo_capabilities"
  using assms pair_slot_found pair_table_full
  by (auto simp: fresh_pair_def opener_def acceptor_def ready_to_send_def ready_to_receive_def expects_def reassembler_def)

lemma fragment_encodes:
  assumes "length p \<le> 512"
  obtains bs where "encode_frame (engine_limits default_policy) (data_frame first_channel 1 p 32768 q 0) = Inr bs"
    "length bs \<le> 600"
proof -
  let ?f = "data_frame first_channel 1 p 32768 q 0"
  let ?x = "concat (map2 (\<lambda>i v. [0x80, i, 4] @ u32_bytes v) [1, 2, 3, 4] [1, 0, of_nat (length p), 7])"
  have x: "write_extensions (f_extensions ?f) = Inr ?x" "length ?x = 28"
    by (simp_all add: write_extensions_def data_frame_def fragment_extensions_def extension_key_def
        encode_uleb128_ok append_u16_def kRequiredBit_def uleb_bytes_last Let_def
        kExtMessageSeq_def kExtFragmentOffset_def kExtMessageTotal_def kExtFamilyId_def)
  let ?bs = "frame_bytes ?f ?x"
  have pay: "f_payload ?f = p" using assms by (simp add: data_frame_def)
  have len: "length ?bs \<le> 600"
    using length_uleb_bytes[of "of_nat (length p)"] x(2) assms by (simp add: length_frame_bytes pay)
  have "f_flags ?f = 0" "f_channel ?f = first_channel" by (simp_all add: data_frame_def)
  then have "encode_frame (engine_limits default_policy) ?f = Inr ?bs"
    using len x assms
    by (simp add: encode_frame_iff engine_limits_def kMaxChannelNo_def default_policy_def SIZE_MAX_def pay)
  then show ?thesis using that len by blast
qed

text \<open>An empty message is sent as no frame at all; one that fits a fragment as one frame.\<close>

lemma pair_sends:
  assumes "fresh_pair (left, right)" "length p \<le> 512"
  obtains s' out where "engine_send left first_channel p = (s', Inr out)"
    "p = [] \<longrightarrow> out = []" "p \<noteq> [] \<longrightarrow> (\<exists>bs. out = [bs] \<and> length bs \<le> 600)"
proof -
  note o = assms(1)[unfolded fresh_pair_def opener_def acceptor_def, simplified]
  note ready = pair_ready(1)[OF assms(1)]
  obtain flow where res: "flow_reserve (cs_flow pair_slot) (length p) = (flow, Inr ())"
    using reserve_available[of "length p" "cs_flow pair_slot"] assms(2) by auto
  have ch: "ce_channels left = Some (filled 1)" "ce_capabilities left = Some echo_capabilities"
    "ce_state left = CS_active" using o by simp_all
  note upd = set_flow_update[OF ch(1) pair_slot_found, of flow]
  let ?t1 = "update_slot (filled 1) first_channel (pair_slot\<lparr>cs_flow := flow\<rparr>)"
  obtain t2 r where seq: "reserve_send_sequence ?t1 first_channel = (t2, r)" by fastforce
  have "flow_ok (cs_flow pair_slot)" using slot_of_full[OF pair_table_full pair_slot_found] by simp
  from send_restores(2)[OF pair_slot_found this res seq, of "left\<lparr>ce_channels := Some t2\<rparr>"] have r: "r = Inr 1"
    using pair_slot_found by (simp add: reserve_send_sequence_def)
  let ?e = "left\<lparr>ce_channels := Some t2\<rparr>"
  have whole: "engine_send left first_channel p =
      (case send_loop ?e first_channel 1 p 32768 0 [] of (e2, y) \<Rightarrow> (release_flow e2 first_channel (length p), y))"
    using ch pair_slot_found res upd seq r assms(2)
    by (simp add: engine_send_def echo_capability_fields max_fragment_def)
  show ?thesis
  proof (cases "p = []")
    case True
    then show ?thesis using whole that by (simp add: send_loop.simps)
  next
    case False
    let ?q = "ce_next_frame_seq left"
    let ?f = "data_frame first_channel 1 p 32768 ?q 0"
    obtain bs where bs: "encode_frame (engine_limits default_policy) ?f = Inr bs" "length bs \<le> 600"
      by (rule fragment_encodes[OF assms(2)])
    have fields: "f_frame_seq (data_frame first_channel 1 p 32768 x 0) = x"
      "f_channel (data_frame first_channel 1 p 32768 x 0) = first_channel" for x by (simp_all add: data_frame_def)
    have q: "unat ?q = 3" "?q = 3" using o by simp_all
    have new: "\<not> window_contains (ce_replay left) ?q"
    proof
      assume "window_contains (ce_replay left) ?q"
      then have "unat ?q \<le> 2" using o by (auto simp: window_contains_iff)
      then show False using q by simp
    qed
    obtain e' where em: "emit (?e\<lparr>ce_next_frame_seq := ?q + 1\<rparr>) ?f = (e', Inr [bs])"
      by (rule emit_flushed_ok[of "?e\<lparr>ce_next_frame_seq := ?q + 1\<rparr>" ?f bs])
        (use o bs new in \<open>simp_all add: fields expects_def new_codec_def default_policy_def\<close>)
    then have "emit_new ?e FT_data first_channel p (fragment_extensions 1 0 (length p)) = (e', Inr [bs])"
      using assms(2) by (simp add: emit_new_def make_frame_def data_frame_def)
    then have "send_loop ?e first_channel 1 p 32768 0 [] = (e', Inr [bs])"
      using False assms(2) by (simp add: send_loop.simps)
    then show ?thesis using whole that bs(2) False by simp
  qed
qed

text \<open>No DATA changes what was negotiated.\<close>

lemma task_capabilities: "ce_capabilities (fst (run_plugin_task task e)) = ce_capabilities e"
  by (auto simp: run_plugin_task_def complete_plugin_def push_event_def split: sum.split prod.split option.split)

lemma dispatch_capabilities: "ce_capabilities (fst (dispatch_message e cid completed family)) = ce_capabilities e"
proof -
  consider (thrown) "create_lease (ce_registry e) family = None"
    | (refused) rg err where "create_lease (ce_registry e) family = Some (rg, Inl err)"
    | (granted) rg lease where "create_lease (ce_registry e) family = Some (rg, Inr lease)"
    by (metis option.exhaust prod.exhaust sum.exhaust)
  then show ?thesis
  proof cases
    case (granted rg lease)
    let ?e1 = "e\<lparr>ce_registry := rg, ce_next_plugin_token := ce_next_plugin_token e + 1\<rparr>"
    let ?task = "\<lparr>pt_lease = lease, pt_completed = completed, pt_token = ce_next_plugin_token e,
        pt_channel = cid, pt_sequence = lm_sequence completed, pt_family_id = family\<rparr>"
    show ?thesis
    proof (cases "ce_executor e")
      case None
      then have "fst (dispatch_message e cid completed family) = fst (run_plugin_task ?task ?e1)"
        using granted by (simp add: dispatch_message_def Let_def split: sum.split prod.split)
      then show ?thesis using task_capabilities[of ?task ?e1] by simp
    qed (use granted in \<open>auto simp: dispatch_message_def Let_def split: sum.split prod.split\<close>)
  qed (simp_all add: dispatch_message_def)
qed

lemma fragment_capabilities:
  "ce_capabilities (fst (accept_fragment e frame t slot seq offset whole family)) = ce_capabilities e"
  by (simp add: accept_fragment_def Let_def put_slot_def push_event_def schedule_timer_def dispatch_capabilities
      split: sum.split prod.split option.split)

lemma data_capabilities:
  assumes "f_type frame = FT_data"
  shows "ce_capabilities (fst (handle_frames e [frame])) = ce_capabilities e"
proof -
  have "ce_capabilities (fst (handle_data e frame)) = ce_capabilities e"
    by (simp add: handle_data_def fragment_capabilities split: sum.split prod.split option.split)
  then have "ce_capabilities (fst (handle_frame e frame)) = ce_capabilities e"
    using assms by (simp add: handle_frame_def)
  then show ?thesis
    by (auto simp: frame_failed_def close_with_def diagnostic_def push_event_def split: sum.split prod.split)
qed

text \<open>Sending over the pair and delivering what comes of it: exactly the message arrives.\<close>

lemma pair_delivers:
  assumes "fresh_pair (left, right)" "length p \<le> 512"
  shows "\<exists>s' r. engine_send left first_channel p = (s', r) \<and>
    messages (deliver_ok right r) = (if p = [] then [] else [delivery first_channel 1 p]) \<and>
    ce_capabilities (deliver_ok right r) = Some echo_capabilities"
proof -
  obtain s' out where snd: "engine_send left first_channel p = (s', Inr out)"
    "p = [] \<longrightarrow> out = []" "p \<noteq> [] \<longrightarrow> (\<exists>bs. out = [bs] \<and> length bs \<le> 600)"
    by (rule pair_sends[OF assms])
  note ready = pair_ready[OF assms(1)]
  have none: "messages right = []" using assms(1) by (simp add: fresh_pair_def)
  show ?thesis
  proof (cases "p = []")
    case True
    then show ?thesis using snd none ready(4) by (simp add: deliver_ok_def)
  next
    case False
    then obtain bs where bs: "out = [bs]" "length bs \<le> 600" using snd(3) by blast
    let ?f = "data_frame first_channel 1 p 32768 (ce_next_frame_seq left) 0"
    have max: "max_fragment echo_capabilities = 32768" by (simp add: max_fragment_def echo_capability_fields)
    have rest: "\<exists>rest. ce_events (fst (receive right bs False)) = ce_events right @ delivery first_channel 1 p # rest \<and>
        (\<forall>ev \<in> set rest. ev_kind ev \<in> {EK_plugin_response, EK_diagnostic})"
      using message_transfer[OF ready(1,3) snd(1) _ _ ready(2)] False assms(2) bs
      by (simp add: max default_policy_def reassembler_def)
    then have "messages (fst (receive right bs False)) = [delivery first_channel 1 p]"
      using none by (fastforce simp: messages_def delivery_def filter_empty_conv)
    moreover have "ce_capabilities (fst (receive right bs False)) = Some echo_capabilities"
    proof -
      have "data_frames first_channel 1 p 32768 (ce_next_frame_seq left) 0 = [?f]"
        using False assms(2) by (simp add: data_frames.simps)
      then have "list_all2 (\<lambda>f bs. encode_frame (engine_limits default_policy) f = Inr bs) [?f] [bs]"
        using send_frames[OF ready(1,3) snd(1)] bs(1) max by simp
      moreover have codec: "ce_codec right = new_codec (engine_limits default_policy)"
        using ready(2) by (simp add: ready_to_receive_def)
      ultimately have "feed (ce_codec right) (concat [bs]) False = (ce_codec right, map DE_frame (map normal_frame [?f]))"
        using bs(2)
        by (intro feed_frames[where limits = "engine_limits default_policy"])
          (simp_all add: new_codec_def engine_limits_def data_frame_extensions_ok default_policy_def)
      then have "receive right bs False = handle_frames right [?f]"
        by (intro receive_frames) (simp add: data_frame_normal)
      then show ?thesis using data_capabilities[of ?f right] ready(4) by (simp add: data_frame_def)
    qed
    moreover have "deliver_ok right (Inr out) = fst (receive right bs False)"
      by (simp add: deliver_ok_def bs(1) split: prod.split sum.split)
    ultimately show ?thesis using snd(1) False by simp
  qed
qed

section \<open>The whole bridge\<close>

text \<open>The loop looks at the delivered messages only.\<close>

lemma bridge_messages: "bridge_deliveries gw source from_caps events (egress, server) =
    bridge_deliveries gw source from_caps (filter (\<lambda>ev. ev_kind ev = EK_message_delivered) events) (egress, server)"
  by (induction events arbitrary: egress server) (auto split: option.split prod.split)

lemma passes_unchanged:
  assumes "length p \<le> 512"
  shows "bridge_to_connection (fst (create_route new_gateway first_channel first_channel 7)) echo_capabilities
      echo_capabilities e first_channel p = engine_send e first_channel p"
proof -
  obtain gw route where r: "create_route new_gateway first_channel first_channel 7 = (gw, Inr route)"
    by (simp add: create_route_def is_control_def Let_def)
  note f = first_route[OF r]
  show ?thesis using assms
    by (simp add: r bridge_to_connection_def bridge_message_def f(2) forward_def f(3) untranslated[OF f(1)] is_control_def)
qed

text \<open>The payload the target takes from its input reaches the ingress and the server, whole and once;
  an empty one is sent as no frame, and reaches neither.\<close>

definition forwarded_once :: "bytes \<Rightarrow> (Peers \<times> Peers) option \<Rightarrow> bool" where
  "forwarded_once p r = (case r of
     None \<Rightarrow> False
   | Some ((client, ingress), (egress, server)) \<Rightarrow>
       messages ingress = (if p = [] then [] else [delivery first_channel 1 p]) \<and>
       messages server = (if p = [] then [] else [delivery first_channel 1 p]))"

lemma bridge_target_forwards:
  "forwarded_once (fst (run_state (in_bytes 512) (new_input data))) (fst (run_state run_gateway_bridge (new_input data)))"
proof -
  obtain l r pair where c: "connected_pair None = ((l, r), True)" "open_pair l r 8192 = (pair, Some first_channel)"
    "fresh_pair pair" using pair_opens by blast
  obtain left right where pair: "pair = (left, right)" by fastforce
  note fresh = c(3)[unfolded pair]
  obtain p i where p: "run_state (in_bytes 512) (new_input data) = (p, i)" by fastforce
  have "length p \<le> 512" using yieldsD[OF yields_bytes p] by (simp add: new_input_def)
  from pair_delivers[OF fresh this] obtain s' res where d: "engine_send left first_channel p = (s', res)"
    "messages (deliver_ok right res) = (if p = [] then [] else [delivery first_channel 1 p])"
    "ce_capabilities (deliver_ok right res) = Some echo_capabilities" by blast
  let ?gw = "fst (create_route new_gateway first_channel first_channel 7)"
  have "bridge_deliveries ?gw first_channel (Some echo_capabilities) (messages (deliver_ok right res)) (left, right) =
      Some (if p = [] then (left, right) else (s', deliver_ok right res))"
    using d pair_ready(3)[OF fresh] passes_unchanged[OF \<open>length p \<le> 512\<close>]
    by (simp add: delivery_def)
  then have "bridge_deliveries ?gw first_channel (Some echo_capabilities) (ce_events (deliver_ok right res)) (left, right) =
      Some (if p = [] then (left, right) else (s', deliver_ok right res))"
    by (subst bridge_messages) (simp add: messages_def)
  moreover have "messages right = []" using fresh by (simp add: fresh_pair_def)
  ultimately show ?thesis using c(1,2) d p
    by (simp add: run_gateway_bridge_def pair forwarded_once_def Let_def)
qed

end
