(* ===== verification/Fuzz_Codecs.thy ===== *)
theory Fuzz_Codecs
  imports Fuzz_Input
begin

text \<open>
  The fuzz targets that drive the frame codec: \<open>run_frame_*\<close> of \<^verbatim>\<open>fuzz/deep_fuzz_support.hpp\<close> and the
  stand-alone \<^verbatim>\<open>fuzz/lattice_frame_fuzz.cpp\<close>. The code drops what the encoder answers; the models
  return it. The properties: whatever the input, every frame a decoder reports can be encoded
  again, and the stand-alone fuzzer exits with status 0.
\<close>

section \<open>Decoding and encoding again\<close>

definition exercise_decoder :: "FrameCodec \<Rightarrow> bytes \<Rightarrow> bool \<Rightarrow> FrameCodec \<times> bytes result list" where
  "exercise_decoder decoder bs eof =
     (case feed decoder bs eof of
        (decoder', events) \<Rightarrow>
          (decoder', concat (map (\<lambda>event. case event of
               DE_frame f \<Rightarrow> [encode_frame default_frame_limits f] | _ \<Rightarrow> []) events)))"

definition run_frame_stream :: "bytes result list fuzz" where
  "run_frame_stream = do {
     f \<leftarrow> in_bounded 4096;
     h \<leftarrow> in_bounded 512;
     (_, answers) \<leftarrow> while_input 32 (\<lambda>(decoder, answers). do {
         chunk \<leftarrow> in_bytes 256;
         eof \<leftarrow> in_bit;
         give (case exercise_decoder decoder chunk eof of (decoder', r) \<Rightarrow> (decoder', answers @ r))
       }) (new_codec \<lparr>fl_max_frame = 64 + f, fl_max_header = 16 + h\<rparr>, []);
     give answers
   }"

definition run_frame_split :: "bytes result list fuzz" where
  "run_frame_split = do {
     frame \<leftarrow> random_frame 512 32;
     give (case encode_frame default_frame_limits frame of
             Inl _ \<Rightarrow> []
           | Inr encoded \<Rightarrow>
               (case foldl (\<lambda>(decoder, answers) byte.
                        (case exercise_decoder decoder [byte] False of (decoder', r) \<Rightarrow> (decoder', answers @ r)))
                      (new_codec default_frame_limits, []) encoded of
                  (decoder, answers) \<Rightarrow> answers @ snd (exercise_decoder decoder [] True)))
   }"

definition run_frame_extension :: "bytes result list fuzz" where
  "run_frame_extension = do {
     n \<leftarrow> in_u32 0;
     seq \<leftarrow> in_u32 1;
     payload \<leftarrow> in_bytes 256;
     extensions \<leftarrow> random_extensions 12 64;
     give (case encode_frame default_frame_limits
                  \<lparr>f_type = FT_data, f_flags = 0, f_channel = \<lparr>cid_number = 1 + n mod 8, cid_generation = 1\<rparr>,
                   f_frame_seq = seq, f_extensions = extensions, f_payload = payload\<rparr> of
             Inl _ \<Rightarrow> []
           | Inr encoded \<Rightarrow> snd (exercise_decoder (new_codec default_frame_limits) encoded True))
   }"

definition run_frame_header_limit :: "bytes result list fuzz" where
  "run_frame_header_limit = do {
     f \<leftarrow> in_bounded 2048;
     h \<leftarrow> in_bounded 128;
     raw \<leftarrow> in_bytes 2048;
     eof \<leftarrow> in_bit;
     give (snd (exercise_decoder (new_codec \<lparr>fl_max_frame = 1 + f, fl_max_header = 1 + h\<rparr>) raw eof))
   }"

definition run_frame_crc_mutation :: "bytes result list fuzz" where
  "run_frame_crc_mutation = do {
     frame \<leftarrow> random_frame 256 16;
     (case encode_frame default_frame_limits frame of
        Inl _ \<Rightarrow> give []
      | Inr encoded \<Rightarrow> do {
          mutated \<leftarrow>
            (if encoded = [] then give encoded
             else do {
               index \<leftarrow> in_bounded (length encoded - 1);
               mask \<leftarrow> in_byte 0x5A;
               give (encoded[index := encoded ! index XOR mask])
             });
          give (snd (exercise_decoder (new_codec default_frame_limits) mutated True))
        })
   }"

definition run_frame_concat_eof :: "bytes result list fuzz" where
  "run_frame_concat_eof = do {
     stream \<leftarrow> for_each (\<lambda>_ stream. do {
         frame \<leftarrow> random_frame 128 16;
         give (case encode_frame default_frame_limits frame of Inl _ \<Rightarrow> stream | Inr encoded \<Rightarrow> stream @ encoded)
       }) [0..<8] [];
     cut \<leftarrow> (if stream = [] then give False else in_bit);
     stream \<leftarrow> (if cut then do { n \<leftarrow> in_bounded (length stream - 1); give (take n stream) } else give stream);
     eof \<leftarrow> in_bit;
     give (snd (exercise_decoder (new_codec default_frame_limits) stream eof))
   }"

text \<open>The stand-alone frame fuzzer; without a file it decodes one frame of its own.\<close>

definition fuzz_frame :: Frame where
  "fuzz_frame = \<lparr>f_type = FT_hello, f_flags = 0, f_channel = control_channel, f_frame_seq = 1,
     f_extensions = [], f_payload = map (\<lambda>c. of_nat (of_char c)) ''fuzz''\<rparr>"

fun encode_events :: "World \<Rightarrow> DecodeEvent list \<Rightarrow> World \<times> CliEnd" where
  "encode_events w [] = (w, Exit 0)"
| "encode_events w (DE_frame f # events) =
     (case encode_frame default_frame_limits f of
        Inl err \<Rightarrow> (cerr w (stable_code err @ nl), Exit 1)
      | Inr _ \<Rightarrow> encode_events w events)"
| "encode_events w (_ # events) = encode_events w events"

definition frame_fuzz :: "World \<Rightarrow> string list \<Rightarrow> World \<times> CliEnd" where
  "frame_fuzz w argv =
     (let input = (if length argv = 2
                   then (case read_file w (argv ! 1) of Some s \<Rightarrow> text_bytes s | None \<Rightarrow> [])
                   else (case encode_frame default_frame_limits fuzz_frame of Inr bs \<Rightarrow> bs | Inl _ \<Rightarrow> []))
      in encode_events w (snd (feed (new_codec default_frame_limits) input True)))"

section \<open>Every reported frame can be encoded\<close>

lemma extensions_rewritten:
  assumes "list_all extension_ok exts"
  shows "\<exists>out. write_extensions exts = Inr out \<and> length out = length (concat (map extension_bytes exts))"
proof -
  let ?sorted = "sort_key extension_key exts"
  have "list_all extension_ok ?sorted" using assms by (simp add: list_all_iff)
  then have "write_extensions exts = Inr (concat (map extension_bytes ?sorted))"
    using write_extension_loop_bytes[of ?sorted "[]"] assms
    by (auto simp: write_extensions_def list_all_iff extension_ok_def)
  moreover have "length (concat (map extension_bytes ?sorted)) = length (concat (map extension_bytes exts))"
    unfolding length_concat map_map by (metis mset_map mset_sort sum_mset_sum_list)
  ultimately show ?thesis by simp
qed

definition small_limits :: "FrameLimits \<Rightarrow> bool" where
  "small_limits limits \<longleftrightarrow> fl_max_frame limits \<le> fl_max_frame default_frame_limits \<and>
     fl_max_header limits \<le> fl_max_header default_frame_limits"

lemma decoded_encodes:
  assumes "decode_one limits eof view = Step_frame f n" "small_limits limits"
  shows "\<exists>bs. encode_frame default_frame_limits f = Inr bs"
proof -
  note D = decode_one_bytes[OF assms(1)]
  obtain out where out: "write_extensions (f_extensions f) = Inr out"
    "length out = length (concat (map extension_bytes (f_extensions f)))"
    using extensions_rewritten D by blast
  have "length (frame_bytes f out) = length (frame_bytes f (concat (map extension_bytes (f_extensions f))))"
    using out(2) by (simp add: length_frame_bytes)
  also have "\<dots> = n" using D by (metis length_take min_absorb2)
  finally show ?thesis
    using D out assms(2)
    by (auto simp: encode_frame_iff small_limits_def default_frame_limits_def SIZE_MAX_def)
qed

definition encodable :: "DecodeEvent \<Rightarrow> bool" where
  "encodable event \<longleftrightarrow> (\<forall>f. event = DE_frame f \<longrightarrow> is_ok (encode_frame default_frame_limits f))"

lemma encodable_simps [simp]:
  "encodable DE_need_more" "encodable (DE_error e)" "encodable (DE_frame f) \<longleftrightarrow> is_ok (encode_frame default_frame_limits f)"
  by (simp_all add: encodable_def)

lemma feed_loop_encodable:
  "small_limits limits \<Longrightarrow> list_all encodable events \<Longrightarrow> list_all encodable (snd (feed_loop limits eof view events))"
proof (induction limits eof view events rule: feed_loop.induct)
  case (1 limits eof view events)
  show ?case
  proof (cases "decode_one limits eof view")
    case (Step_frame f n)
    then have "encodable (DE_frame f)" using decoded_encodes[OF _ 1(2)] by force
    then show ?thesis using 1 Step_frame by (subst feed_loop.simps) simp
  qed (use 1(3) in \<open>subst feed_loop.simps, simp\<close>)+
qed

lemma feed_encodable:
  assumes "feed codec bs eof = (codec', events)" "small_limits (fc_limits codec)"
  shows "list_all encodable events \<and> small_limits (fc_limits codec')"
  using assms feed_loop_encodable[OF assms(2), of "[]" eof "fc_buffer codec @ bs"]
  by (auto simp: feed_def split: prod.splits)

lemma exercise_ok:
  assumes "exercise_decoder decoder bs eof = (decoder', answers)" "small_limits (fc_limits decoder)"
  shows "list_all is_ok answers \<and> small_limits (fc_limits decoder')"
proof -
  obtain events where f: "feed decoder bs eof = (decoder', events)"
    using assms(1) by (auto simp: exercise_decoder_def split: prod.splits)
  have "list_all encodable events \<Longrightarrow> list_all is_ok (concat (map (\<lambda>event. case event of
      DE_frame f \<Rightarrow> [encode_frame default_frame_limits f] | _ \<Rightarrow> []) events))"
    by (induction events) (auto split: DecodeEvent.split)
  then show ?thesis using feed_encodable[OF f assms(2)] assms(1) f by (auto simp: exercise_decoder_def)
qed

lemma exercise_new [simp]:
  assumes "small_limits limits"
  shows "list_all is_ok (snd (exercise_decoder (new_codec limits) bs eof))"
  using exercise_ok[of "new_codec limits" bs eof] assms
  by (cases "exercise_decoder (new_codec limits) bs eof") (simp add: new_codec_def)

lemma small_default [simp]: "small_limits default_frame_limits"
  by (simp add: small_limits_def)

lemma targets_frame_stream: "yields run_frame_stream (list_all is_ok)"
  unfolding run_frame_stream_def
  by (intro yielding, rule yields_bind[OF yields_while[where P = "\<lambda>(decoder, answers).
        small_limits (fc_limits decoder) \<and> list_all is_ok answers"]])
    (auto intro!: yielding split: prod.splits dest!: exercise_ok
      simp: new_codec_def small_limits_def[of "\<lparr>fl_max_frame = _, fl_max_header = _\<rparr>"] default_frame_limits_def)

lemma targets_frame_split: "yields run_frame_split (list_all is_ok)"
proof -
  let ?step = "\<lambda>(decoder, answers) byte.
      (case exercise_decoder decoder [byte] False of (decoder', r) \<Rightarrow> (decoder', answers @ r))"
  have steps: "small_limits (fc_limits (fst (foldl ?step (decoder, answers) bs))) \<and>
      list_all is_ok (snd (foldl ?step (decoder, answers) bs))"
    if "small_limits (fc_limits decoder)" "list_all is_ok answers" for decoder answers bs
    using that by (induction bs arbitrary: decoder answers) (auto split: prod.split dest: exercise_ok)
  have split: "list_all is_ok (case foldl ?step (new_codec default_frame_limits, []) bs of
      (decoder, answers) \<Rightarrow> answers @ snd (exercise_decoder decoder [] True))" for bs
    using steps[of "new_codec default_frame_limits" "[]" bs] exercise_ok
    by (auto simp: new_codec_def split: prod.split) (metis prod.collapse)
  show ?thesis unfolding run_frame_split_def by (intro yielding) (simp add: split split: sum.split)
qed

text \<open>Remark. Every frame that a decoder reports under a frame fuzz target, from random bytes in any
  chunks, from valid frames cut or with a damaged byte, and under limits at most the default
  ones, is a frame the encoder writes.\<close>

theorem fuzzed_frames_encode:
  "yields run_frame_stream (list_all is_ok) \<and> yields run_frame_split (list_all is_ok) \<and>
   yields run_frame_extension (list_all is_ok) \<and> yields run_frame_header_limit (list_all is_ok) \<and>
   yields run_frame_crc_mutation (list_all is_ok) \<and> yields run_frame_concat_eof (list_all is_ok)"
proof (intro conjI targets_frame_stream targets_frame_split)
  show "yields run_frame_extension (list_all is_ok)"
    unfolding run_frame_extension_def by (intro yielding) (simp split: sum.split)
  show "yields run_frame_header_limit (list_all is_ok)"
    unfolding run_frame_header_limit_def
    by (intro yielding exercise_new) (simp add: small_limits_def default_frame_limits_def)
  show "yields run_frame_crc_mutation (list_all is_ok)"
    unfolding run_frame_crc_mutation_def by (intro yielding yields_cases) simp_all
  show "yields run_frame_concat_eof (list_all is_ok)"
    unfolding run_frame_concat_eof_def
    by (intro yields_bind[OF yields_for[where P = "\<lambda>_. True"]] yielding) (auto intro!: yielding)
qed

lemma encode_events_encodable: "list_all encodable events \<Longrightarrow> encode_events w events = (w, Exit 0)"
  by (induction w events rule: encode_events.induct) (auto split: sum.split)

text \<open>Remark. The stand-alone frame fuzzer never reports a failure: on every command line and every
  file it exits with status 0 and writes nothing to the error stream.\<close>

theorem frame_fuzzer_exits: "frame_fuzz w argv = (w, Exit 0)"
proof -
  have "list_all encodable (snd (feed (new_codec default_frame_limits) bs True))" for bs
    using feed_encodable[of "new_codec default_frame_limits" bs True]
    by (cases "feed (new_codec default_frame_limits) bs True") (simp add: new_codec_def)
  then show ?thesis by (simp add: frame_fuzz_def Let_def encode_events_encodable)
qed

end
