(* ===== verification/Fuzz_Payloads.thy ===== *)
theory Fuzz_Payloads
  imports Fuzz_Input
begin

text \<open>
  The fuzz targets that drive the payload codecs and the texts: \<open>run_hello_payload\<close>,
  \<open>run_negotiation_matrix\<close>, \<open>run_ack_payload\<close>, \<open>run_replay_snapshot\<close>, \<open>run_trace_parse\<close> and
  \<open>run_trace_build\<close> of \<^verbatim>\<open>fuzz/deep_fuzz_support.hpp\<close>. The code drops what the codecs answer; the
  models return it with what it answers to. The properties: what a codec accepts it can write,
  what it has written it reads back, and negotiation gives the answer the offers call for.
\<close>

section \<open>The targets\<close>

definition run_hello_payload :: "(bytes result option \<times> HelloMessage \<times> HelloMessage result option) fuzz" where
  "run_hello_payload = do {
     raw \<leftarrow> in_bytes 1024;
     let again = (case decode_hello_payload raw of Inl _ \<Rightarrow> None | Inr hello \<Rightarrow> Some (encode_hello_payload hello));
     major \<leftarrow> in_byte 0;
     max_frame \<leftarrow> in_bounded (kDefaultMaxFrame - 64);
     max_message \<leftarrow> in_bounded 8192;
     max_channels \<leftarrow> in_bounded 255;
     let hello = \<lparr>hm_min_major = 1, hm_max_major = 1 + ucast (major mod 4),
         hm_limits = default_policy\<lparr>lp_max_frame := 64 + max_frame, lp_max_message := 128 + max_message,
           lp_max_channels := of_nat (1 + max_channels)\<rparr>,
         hm_plugins = [echo_descriptor]\<rparr>;
     give (again, hello,
       case encode_hello_payload hello of Inl _ \<Rightarrow> None | Inr encoded \<Rightarrow> Some (decode_hello_payload encoded))
   }"

definition run_negotiation_matrix :: "(HelloMessage \<times> HelloMessage \<times> CapabilitySet result) fuzz" where
  "run_negotiation_matrix = do {
     left_max \<leftarrow> in_byte 0;
     right_min \<leftarrow> in_byte 0;
     right_more \<leftarrow> in_byte 0;
     left_frame \<leftarrow> in_bounded 4096;
     right_frame \<leftarrow> in_bounded 4096;
     left_message \<leftarrow> in_bounded 32768;
     right_message \<leftarrow> in_bounded 32768;
     left_channels \<leftarrow> in_bounded 255;
     right_channels \<leftarrow> in_bounded 255;
     same \<leftarrow> in_bit;
     schema \<leftarrow> (if same then give (pd_schema_hash echo_descriptor) else in_u64 0);
     let left = \<lparr>hm_min_major = 1, hm_max_major = 1 + ucast (left_max mod 3),
         hm_limits = default_policy\<lparr>lp_max_frame := 512 + left_frame, lp_max_message := 1024 + left_message,
           lp_max_channels := of_nat (1 + left_channels)\<rparr>,
         hm_plugins = [echo_descriptor]\<rparr>;
     let right = \<lparr>hm_min_major = 1 + ucast (right_min mod 2),
         hm_max_major = (1 + ucast (right_min mod 2)) + ucast (right_more mod 3),
         hm_limits = default_policy\<lparr>lp_max_frame := 256 + right_frame, lp_max_message := 512 + right_message,
           lp_max_channels := of_nat (1 + right_channels)\<rparr>,
         hm_plugins = [\<lparr>pd_family_id = 7, pd_schema_hash = schema, pd_max_depth = 4\<rparr>]\<rparr>;
     give (left, right, negotiate left right)
   }"

text \<open>\<open>for (i = 0; i < input.bounded(16); ++i)\<close> reads its bound anew each time round; the bound is at
  most 16, so the seventeenth test always fails and 17 rounds of fuel are never used up.\<close>

fun ack_ranges :: "nat \<Rightarrow> nat \<Rightarrow> AckRange list \<Rightarrow> AckRange list fuzz" where
  "ack_ranges 0 i ranges = give ranges"
| "ack_ranges (Suc fuel) i ranges = do {
     bound \<leftarrow> in_bounded 16;
     if i < bound
     then do {
       lo \<leftarrow> in_u32 0;
       width \<leftarrow> in_bounded 32;
       ack_ranges fuel (i + 1) (ranges @ [\<lparr>ar_first = lo, ar_last = lo + of_nat width\<rparr>])
     }
     else give ranges
   }"

definition run_ack_payload ::
  "((u16 \<times> AckRange list \<times> bytes result) option \<times> u16 \<times> AckRange list \<times> bytes result) fuzz" where
  "run_ack_payload = do {
     raw \<leftarrow> in_bytes 512;
     let again = (case decode_ack_payload raw of Inl _ \<Rightarrow> None
         | Inr (epoch, ranges) \<Rightarrow> Some (epoch, ranges, encode_ack_payload epoch ranges));
     ranges \<leftarrow> ack_ranges 17 0 [];
     epoch \<leftarrow> in_bounded 4;
     let epoch = of_nat (1 + epoch);
     give (again, epoch, ranges, encode_ack_payload epoch ranges)
   }"

definition run_replay_snapshot :: "(string option \<times> ReplayWindow \<times> ReplayWindow result) fuzz" where
  "run_replay_snapshot = do {
     snapshot \<leftarrow> in_text 2048;
     let again = (case restore_retained snapshot of Inl _ \<Rightarrow> None | Inr w \<Rightarrow> Some (serialize_retained w));
     replay \<leftarrow> for_each (\<lambda>i replay. do {
         frame \<leftarrow> in_bytes 64;
         give (fst (record_frame replay 1 (of_nat (i + 1)) frame))
       }) [0..<16] (replay_window 32);
     give (again, replay, restore_retained (serialize_retained replay))
   }"

definition run_trace_parse :: "(TraceLog \<times> TraceReplayReport result \<times> string result) option fuzz" where
  "run_trace_parse = do {
     trace \<leftarrow> in_text 4096;
     give (case trace_parse trace of Inl _ \<Rightarrow> None
       | Inr log \<Rightarrow> Some (log, verify_trace_replay log, trace_serialize log))
   }"

definition trace_kind_from :: "TraceKind fuzz" where
  "trace_kind_from = do {
     b \<leftarrow> in_byte 0;
     give (let k = unat b mod 5 in
           if k = 0 then TK_transport_bytes else if k = 1 then TK_api_event else if k = 2 then TK_timer
           else if k = 3 then TK_plugin_completion else TK_diagnostic)
   }"

definition run_trace_build ::
  "(TraceLog \<times> (TraceLog result \<times> TraceReplayReport result option) option) fuzz" where
  "run_trace_build = do {
     n \<leftarrow> in_bounded 32;
     log \<leftarrow> for_each (\<lambda>_ log. do {
         time \<leftarrow> in_u64 0;
         kind \<leftarrow> trace_kind_from;
         label \<leftarrow> in_text 32;
         payload \<leftarrow> in_bytes 128;
         give (trace_record log \<lparr>te_time_ms = time, te_kind = kind, te_label = label, te_bytes = payload\<rparr>)
       }) [0..<n] new_trace;
     give (log,
       case trace_serialize log of
         Inl _ \<Rightarrow> None
       | Inr s \<Rightarrow> Some (trace_parse s,
           case trace_parse s of Inl _ \<Rightarrow> None | Inr parsed \<Rightarrow> Some (verify_trace_replay parsed)))
   }"

section \<open>What the codecs accept they can write\<close>

lemma decoded_ack_encodes:
  "decode_ack_payload raw = Inr (epoch, ranges) \<Longrightarrow> is_ok (encode_ack_payload epoch ranges)"
  by (auto simp: decode_ack_payload_def Let_def is_ok_iff split: if_splits sum.splits prod.splits)

lemma encoded_ack_decodes:
  assumes "encode_ack_payload epoch ranges = Inr out"
  shows "decode_ack_payload out = Inr (epoch, sort_key ar_first ranges)"
proof (rule decode_any_order)
  have chk: "check_ranges None None (sort_key ar_first ranges) = Inr ()"
    using assms by (simp add: encode_ack_payload_iff)
  then show "check_ranges None None (sort_key ar_first (sort_key ar_first ranges)) = Inr ()"
    by (simp add: check_ranges_sorted[OF chk])
qed (use assms in \<open>simp_all add: encode_ack_payload_iff\<close>)

lemma parsed_recorded:
  assumes "trace_parse s = Inr log"
  shows "\<exists>es. list_all clean_label es \<and> log = recorded es"
  using assms parse_trace_lines_recorded[of new_trace "tl (getlines s)" log] getlines_plain[of _ s]
  by (auto simp: trace_parse_def recorded_def list_all_iff split: list.splits if_splits)

lemma empty_entry_refused:
  assumes "re_encoded e = []"
  shows "\<not> is_ok (parse_entry (entry_text e))"
proof -
  have "unat (re_frame_seq e) < 2 ^ 64" "unat (re_retries e) < 2 ^ 64"
    using unat_u32_small[of "re_frame_seq e"] unat_u8_small[of "re_retries e"] by simp_all
  then show ?thesis
    unfolding parse_entry_def entry_text_def
    by (simp only: cut_at_append[OF no_bar_decimal(1)] cut_at_append[of "CHR ''|''" "''entry''"]
        option.case prod.case) (simp add: assms parse_u64_inverse parse_hex_inverse[of "[]", simplified])
qed

lemma restore_entries_refuse:
  "\<exists>e \<in> set es. re_encoded e = [] \<Longrightarrow> \<not> is_ok (restore_entries w prev (map entry_text es))"
proof (induction es arbitrary: w prev)
  case (Cons e es)
  then show ?case
  proof (cases "re_encoded e = []")
    case True
    then show ?thesis using empty_entry_refused[OF True] by (auto simp: is_ok_iff split: sum.split)
  next
    case False
    then show ?thesis using Cons by (auto simp: Let_def parse_entry_text)
  qed
qed simp

text \<open>A window with an empty frame is written as a snapshot that is refused when it is read.\<close>

lemma snapshot_exact:
  assumes "window_ok w" "rw_capacity w \<le> SIZE_MAX" "rw_epoch w \<noteq> 0"
  shows "is_ok (restore_retained (serialize_retained w)) = list_all (\<lambda>e. re_encoded e \<noteq> []) (rw_entries w)"
proof (cases "list_all (\<lambda>e. re_encoded e \<noteq> []) (rw_entries w)")
  case True
  then show ?thesis using assms snapshot_restores[of w] by (simp add: storable_def)
next
  case False
  then have "\<exists>e \<in> set (rw_entries w). re_encoded e = []" by (simp add: list_all_iff)
  from restore_entries_refuse[OF this] show ?thesis using False
    by (auto simp: restore_retained_def getlines_serialize split: sum.split)
qed

section \<open>What the targets find\<close>

text \<open>The versions the targets offer do not wrap.\<close>

lemma small_remainder: "unat k \<le> 4 \<Longrightarrow> k \<noteq> 0 \<Longrightarrow> unat (ucast (a mod k) :: u16) < 4" for a k :: u8
proof -
  assume k: "unat k \<le> 4" "k \<noteq> 0"
  have "0 < unat k" using k(2) by (simp add: unat_gt_0)
  from mod_less_divisor[OF this, of "unat a"] have "unat (a mod k) < 4" using k(1) by (simp add: unat_mod_distrib)
  moreover have "unat (ucast (a mod k) :: u16) = unat (a mod k)"
    using unat_u8_small[of "a mod k"] by (simp add: unsigned_ucast_eq take_bit_nat_eq_self)
  ultimately show ?thesis by simp
qed

lemma small_version: "unat k \<le> 4 \<Longrightarrow> k \<noteq> 0 \<Longrightarrow> (1 :: u16) \<le> 1 + ucast (a mod k)" for a k :: u8
  using small_remainder[of k a] by (simp add: word_le_nat_alt unat_word_ariths)

lemma small_versions:
  "unat k \<le> 4 \<Longrightarrow> k \<noteq> 0 \<Longrightarrow> unat m \<le> 4 \<Longrightarrow> m \<noteq> 0 \<Longrightarrow>
     (1 :: u16) \<le> (1 + ucast (a mod k)) + ucast (b mod m)" for a b k m :: u8
  using small_remainder[of k a] small_remainder[of m b] by (simp add: word_le_nat_alt unat_word_ariths)

lemma targets_hello:
  "yields run_hello_payload (\<lambda>(again, hello, answer). answer = Some (Inr (wire_hello hello)))"
  unfolding run_hello_payload_def
proof (intro yielding)
  fix major :: u8 and max_frame max_message max_channels :: nat
  let ?hello = "\<lparr>hm_min_major = 1, hm_max_major = 1 + ucast (major mod 4),
      hm_limits = default_policy\<lparr>lp_max_frame := 64 + max_frame, lp_max_message := 128 + max_message,
        lp_max_channels := of_nat (1 + max_channels)\<rparr>,
      hm_plugins = [echo_descriptor]\<rparr> :: HelloMessage"
  have "(1 :: u16) \<le> 1 + ucast (major mod 4)" by (rule small_version) simp_all
  then obtain out where out: "encode_hello_payload ?hello = Inr out"
    using encode_hello_iff[of ?hello] by (auto simp: families_def)
  then have "decode_hello_payload out = Inr (wire_hello ?hello)" by (intro hello_roundtrip[OF out]) simp
  then show "case (case decode_hello_payload raw of Inl _ \<Rightarrow> None | Inr hello \<Rightarrow> Some (encode_hello_payload hello),
      ?hello, case encode_hello_payload ?hello of Inl _ \<Rightarrow> None | Inr encoded \<Rightarrow> Some (decode_hello_payload encoded)) of
      (again, hello, answer) \<Rightarrow> answer = Some (Inr (wire_hello hello))" for raw
    by (simp only: out prod.case sum.case)
qed

lemma targets_ack:
  "yields run_ack_payload (\<lambda>(again, epoch, ranges, encoded).
     (case again of None \<Rightarrow> True | Some (_, _, r) \<Rightarrow> is_ok r) \<and>
     (case encoded of Inl _ \<Rightarrow> True
      | Inr out \<Rightarrow> decode_ack_payload out = Inr (epoch, sort_key ar_first ranges)))"
proof -
  have loop: "yields (ack_ranges fuel i ranges) (\<lambda>_. True)" for fuel i ranges
    by (induction fuel i ranges rule: ack_ranges.induct) (auto intro!: yielding)
  show ?thesis unfolding run_ack_payload_def
    by (intro yielding yields_bind[OF loop])
      (auto split: sum.split option.split dest: decoded_ack_encodes encoded_ack_decodes)
qed

lemma targets_snapshot:
  "yields run_replay_snapshot (\<lambda>(again, replay, answer).
     (case again of None \<Rightarrow> True | Some s \<Rightarrow> is_ok (restore_retained s)) \<and>
     is_ok answer = list_all (\<lambda>e. re_encoded e \<noteq> []) (rw_entries replay) \<and>
     (case answer of Inl _ \<Rightarrow> True | Inr w \<Rightarrow> w = replay))"
proof -
  let ?P = "\<lambda>i w. window_ok w \<and> rw_epoch w = 1 \<and> rw_capacity w = 32 \<and> (\<forall>q \<in> set (seqs w). unat q \<le> i)"
  have step: "?P (Suc i) (fst (record_frame w 1 (of_nat (i + 1)) frame))" if small: "i < 16" and P: "?P i w" for i w frame
  proof -
    have n: "unat (of_nat (i + 1) :: u32) = Suc i" using small by (simp add: unat_of_nat del: of_nat_Suc)
    then have above: "\<forall>q \<in> set (seqs w). q < of_nat (i + 1)"
      using P by (auto simp: word_less_nat_alt simp del: of_nat_Suc of_nat_add)
    obtain w' where w': "record_frame w (rw_epoch w) (of_nat (i + 1)) frame = (w', Inr ())" "window_ok w'"
      "rw_epoch w' = rw_epoch w" "rw_capacity w' = rw_capacity w"
      "rw_entries w' = drop (Suc (length (rw_entries w)) - rw_capacity w) (rw_entries w @
        [\<lparr>re_epoch = rw_epoch w, re_frame_seq = of_nat (i + 1), re_encoded = frame, re_retries = 0\<rparr>])"
      using record_frame_ok[OF _ above] P by blast
    have "set (seqs w') \<subseteq> insert (of_nat (i + 1)) (set (seqs w))"
      using w'(5) by (auto simp: seqs_def dest!: in_set_dropD)
    then have "\<forall>q \<in> set (seqs w'). unat q \<le> Suc i" using P n by fastforce
    then show ?thesis using w' P by simp
  qed
  have again: "case (case restore_retained s of Inl _ \<Rightarrow> None | Inr w \<Rightarrow> Some (serialize_retained w)) of
      None \<Rightarrow> True | Some t \<Rightarrow> is_ok (restore_retained t)" for s
    using restored_window_sound[of s] by (auto split: sum.split simp: is_ok_iff)
  have restored: "is_ok (restore_retained (serialize_retained w)) = list_all (\<lambda>e. re_encoded e \<noteq> []) (rw_entries w) \<and>
      (case restore_retained (serialize_retained w) of Inl _ \<Rightarrow> True | Inr v \<Rightarrow> v = w)" if "?P 16 w" for w
    using that snapshot_exact[of w] snapshot_restores[of w]
    by (auto simp: storable_def SIZE_MAX_def is_ok_iff split: sum.split)
  show ?thesis unfolding run_replay_snapshot_def
    by (intro yielding yields_bind[OF yields_upto[of ?P]] step)
      (use again restored in \<open>auto simp: window_ok_def replay_window_def seqs_def\<close>)
qed

text \<open>Remark. What the payload codecs accept they can write, and what they have written they read
  back, under every fuzz input: a HELLO built from it reads back with its limits as sent, a decoded
  ACK payload can be encoded and an encoded one reads back with its ranges in order, a restored
  replay window is written as a snapshot that is restored, and the window the target records is
  given back entry for entry, except when a frame in it is empty: its snapshot is refused.\<close>

theorem fuzzed_payloads_survive:
  "yields run_hello_payload (\<lambda>(again, hello, answer). answer = Some (Inr (wire_hello hello))) \<and>
   yields run_ack_payload (\<lambda>(again, epoch, ranges, encoded).
     (case again of None \<Rightarrow> True | Some (_, _, r) \<Rightarrow> is_ok r) \<and>
     (case encoded of Inl _ \<Rightarrow> True
      | Inr out \<Rightarrow> decode_ack_payload out = Inr (epoch, sort_key ar_first ranges))) \<and>
   yields run_replay_snapshot (\<lambda>(again, replay, answer).
     (case again of None \<Rightarrow> True | Some s \<Rightarrow> is_ok (restore_retained s)) \<and>
     is_ok answer = list_all (\<lambda>e. re_encoded e \<noteq> []) (rw_entries replay) \<and>
     (case answer of Inl _ \<Rightarrow> True | Inr w \<Rightarrow> w = replay))"
  by (intro conjI targets_hello targets_ack targets_snapshot)

text \<open>Remark. Traces survive under every fuzz input: a trace the parser takes passes the replay check
  and can be written, and what is written is parsed as the same log; a log built from random
  events is refused by the writer exactly when a label in it has a separator, and else is parsed
  as it was and passes the replay check.\<close>

theorem fuzzed_traces_survive:
  "yields run_trace_parse (\<lambda>r. case r of None \<Rightarrow> True
     | Some (log, report, output) \<Rightarrow> is_ok report \<and>
         (case output of Inl _ \<Rightarrow> False | Inr s \<Rightarrow> trace_parse s = Inr log)) \<and>
   yields run_trace_build (\<lambda>(log, answer). case answer of
       None \<Rightarrow> \<not> list_all clean_label (tl_events log)
     | Some (parsed, report) \<Rightarrow> list_all clean_label (tl_events log) \<and> parsed = Inr log \<and>
         (case report of None \<Rightarrow> False | Some r \<Rightarrow> is_ok r))"
proof (rule conjI)
  have parsed: "is_ok (verify_trace_replay log) \<and>
      (case trace_serialize log of Inl _ \<Rightarrow> False | Inr t \<Rightarrow> trace_parse t = Inr log)" if p: "trace_parse s = Inr log" for s log
  proof -
    obtain es where es: "list_all clean_label es" "log = recorded es" using parsed_recorded[OF p] by blast
    then have "list_all clean_label (tl_events log)" by (simp add: recorded_events list_all_iff)
    then show ?thesis using es conjunct2[OF recorded_verified[of es]] trace_parse_serialized[of "tl_events log"]
      by (simp add: trace_serialize_exact recorded_again)
  qed
  then show "yields run_trace_parse (\<lambda>r. case r of None \<Rightarrow> True
     | Some (log, report, output) \<Rightarrow> is_ok report \<and>
         (case output of Inl _ \<Rightarrow> False | Inr s \<Rightarrow> trace_parse s = Inr log))"
    unfolding run_trace_parse_def by (intro yielding) (simp split: sum.split)
  have kinds: "yields trace_kind_from (\<lambda>_. True)" unfolding trace_kind_from_def by (intro yielding) simp
  have more_events: "\<exists>es. trace_record (recorded es') e = recorded es" for es' e
    by (rule exI[of _ "es' @ [e]"]) (simp add: recorded_def)
  have none: "\<exists>es. new_trace = recorded es" by (rule exI[of _ "[]"]) (simp add: recorded_def)
  have built: "(case (case trace_serialize log of Inl _ \<Rightarrow> None
         | Inr s \<Rightarrow> Some (trace_parse s, case trace_parse s of Inl _ \<Rightarrow> None | Inr p \<Rightarrow> Some (verify_trace_replay p))) of
       None \<Rightarrow> \<not> list_all clean_label (tl_events log)
     | Some (parsed, report) \<Rightarrow> list_all clean_label (tl_events log) \<and> parsed = Inr log \<and>
         (case report of None \<Rightarrow> False | Some r \<Rightarrow> is_ok r))" if r: "\<exists>es. log = recorded es" for log
  proof -
    obtain es where es: "log = recorded es" using r by blast
    then show ?thesis using parsed[of _ log] trace_parse_serialized[of "tl_events log"]
      by (auto simp: trace_serialize_exact recorded_again)
  qed
  show "yields run_trace_build (\<lambda>(log, answer). case answer of
       None \<Rightarrow> \<not> list_all clean_label (tl_events log)
     | Some (parsed, report) \<Rightarrow> list_all clean_label (tl_events log) \<and> parsed = Inr log \<and>
         (case report of None \<Rightarrow> False | Some r \<Rightarrow> is_ok r))"
    unfolding run_trace_build_def
    by (intro yielding yields_bind[OF yields_for[where P = "\<lambda>log. \<exists>es. log = recorded es"]]
        yields_bind[OF kinds])
      (rule none, elim exE, simp only: more_events, simp only: prod.case, erule built)
qed

lemma channel_limit_positive: "n \<le> 255 \<Longrightarrow> (0 :: u16) < of_nat (Suc n)"
  by (simp add: word_less_nat_alt unat_of_nat del: of_nat_Suc)

lemma matrix_decided:
  assumes "lp_max_frame (hm_limits a) \<in> {128..1024 * 1024}" "lp_max_frame (hm_limits b) \<in> {128..1024 * 1024}"
    and "1 \<le> lp_max_message (hm_limits a)" "1 \<le> lp_max_message (hm_limits b)"
    and "0 < lp_max_channels (hm_limits a)" "0 < lp_max_channels (hm_limits b)"
    and "\<forall>h \<in> {a, b}. lp_connection_window (hm_limits h) = 1024 * 1024 \<and> lp_required_features (hm_limits h) = 0"
    and "hm_plugins a = [p]" "map pd_family_id (hm_plugins b) = [pd_family_id p]"
    and "hm_min_major a \<le> hm_max_major b"
  shows "is_ok (negotiate a b) \<longleftrightarrow> hm_min_major b \<le> hm_max_major a \<and>
    map pd_schema_hash (hm_plugins b) = [pd_schema_hash p]"
proof -
  obtain q where q: "hm_plugins b = [q]" "pd_family_id q = pd_family_id p" using assms(9) by (auto simp: map_eq_Cons_conv)
  show ?thesis using assms(1-8,10) q by (auto simp: is_ok_iff negotiate_when compatible_def families_def)
qed

text \<open>Remark. The negotiation target meets a refusal for two reasons only: whatever the limits it
  picks, negotiation succeeds exactly when the versions meet and the other side's plugin has the
  schema of the echo plugin.\<close>

theorem fuzzed_negotiation_exact:
  "yields run_negotiation_matrix (\<lambda>(left, right, outcome).
     is_ok outcome \<longleftrightarrow> hm_min_major right \<le> hm_max_major left \<and>
       map pd_schema_hash (hm_plugins right) = [pd_schema_hash echo_descriptor])"
  unfolding run_negotiation_matrix_def
  by (intro yielding; simp only: prod.case; rule matrix_decided)
    (simp_all add: default_policy_def echo_descriptor_def channel_limit_positive small_versions del: of_nat_Suc of_nat_add)

end
