(* ===== verification/Fuzz_Components.thy ===== *)
theory Fuzz_Components
  imports Fuzz_Input
begin

text \<open>
  The fuzz targets that drive one component each: channel table, reassembler, flow account, replay
  window, timers, scheduler, gateway, plugin registry, deterministic executor and in-memory
  transport, all of \<^verbatim>\<open>fuzz/deep_fuzz_support.hpp\<close>. A target returns the component it leaves and
  the answers of the queries it makes. The properties are the invariants of the components, kept
  under every input, and what follows for the queries.
\<close>

section \<open>Channels and messages\<close>

text \<open>\<open>ids[input.bounded(ids.size() - 1)]\<close>, guarded by \<open>!ids.empty()\<close> at every use.\<close>

definition pick :: "'a list \<Rightarrow> 'a fuzz" where
  "pick ids = do { i \<leftarrow> in_bounded (length ids - 1); give (ids ! i) }"

definition run_channel_table :: "(ChannelTable \<times> nat list) fuzz" where
  "run_channel_table = do {
     max_channels \<leftarrow> in_bounded 64;
     window \<leftarrow> in_bounded 4096;
     max_message \<leftarrow> in_bounded 8192;
     (table, _, live) \<leftarrow> for_each (\<lambda>_ (table, ids, live). do {
         b \<leftarrow> in_byte 0;
         (table, ids) \<leftarrow>
           (if b mod 6 = 0
            then give (case allocate table of (table', Inl _) \<Rightarrow> (table', ids) | (table', Inr cid) \<Rightarrow> (table', ids @ [cid]))
            else if b mod 6 = 1
            then (if ids \<noteq> [] then do { cid \<leftarrow> pick ids; give (fst (activate table cid), ids) } else give (table, ids))
            else if b mod 6 = 2
            then do { cid \<leftarrow> channel_from; give (fst (accept_remote table cid), ids) }
            else if b mod 6 = 3
            then (if ids \<noteq> [] then do { cid \<leftarrow> pick ids; give (fst (reset_channel table cid), ids) } else give (table, ids))
            else if b mod 6 = 4
            then (if ids \<noteq> []
                  then do {
                    cid \<leftarrow> pick ids;
                    local \<leftarrow> in_bit;
                    give (fst (half_close table cid (if local then Dir_local_send else Dir_remote_send)), ids)
                  }
                  else give (table, ids))
            else (if ids \<noteq> [] then do { cid \<leftarrow> pick ids; give (fst (retire_tombstone table cid), ids) } else give (table, ids)));
         give (table, ids, live @ [live_count table])
       }) [0..<64] (channel_table (of_nat (1 + max_channels)) (1 + window) (1 + max_message), [], []);
     give (table, live)
   }"

definition run_reassembler_ranges :: "Reassembler fuzz" where
  "run_reassembler_ranges = do {
     n \<leftarrow> in_bounded 4096;
     for_each (\<lambda>_ r. do {
         s \<leftarrow> in_bounded 8;
         t \<leftarrow> in_bounded 1024;
         let sequence = 1 + of_nat s;
         let whole = 1 + of_nat t;
         offset \<leftarrow> in_bounded (unat (whole - 1));
         payload \<leftarrow> in_bytes (min 128 (unat (whole - of_nat offset)));
         let r = fst (reassembler_insert r \<lparr>cid_number = 1, cid_generation = 1\<rparr> sequence (of_nat offset) whole payload);
         forget \<leftarrow> in_bit;
         give (if forget then reset_message r sequence else r)
       }) [0..<32] (reassembler (1 + n))
   }"

definition run_reassembler_overlap :: "Reassembler fuzz" where
  "run_reassembler_overlap = do {
     c \<leftarrow> in_u32 0;
     let channel = \<lparr>cid_number = 1 + c mod 4, cid_generation = 1\<rparr>;
     s \<leftarrow> in_bounded 4;
     t \<leftarrow> in_bounded 512;
     let sequence = 1 + of_nat s;
     let whole = 32 + of_nat t;
     lead \<leftarrow> in_fixed_bytes (min 64 (unat whole));
     for_each (\<lambda>_ r. do {
         offset \<leftarrow> in_bounded (unat (whole - 1));
         fragment \<leftarrow> in_bytes (min 96 (unat (whole - of_nat offset)));
         give (fst (reassembler_insert r channel sequence (of_nat offset) whole fragment))
       }) [0..<16] (fst (reassembler_insert (reassembler 2048) channel sequence 0 whole lead))
   }"

definition run_flow_account :: "(FlowAccount \<times> bool list) fuzz" where
  "run_flow_account = do {
     window \<leftarrow> in_bounded 65535;
     for_each (\<lambda>_ (account, answers). do {
         amount \<leftarrow> in_bounded 8192;
         b \<leftarrow> in_byte 0;
         let account =
           (if b mod 3 = 0 then fst (flow_reserve account amount)
            else if b mod 3 = 1 then fst (flow_release account amount)
            else fst (flow_grant account amount));
         give (account, answers @ [flow_invariant_holds account])
       }) [0..<64] (flow_account window, [])
   }"

section \<open>Replay and timers\<close>

definition run_replay_window :: "(ReplayWindow \<times> string) fuzz" where
  "run_replay_window = do {
     n \<leftarrow> in_bounded 64;
     replay \<leftarrow> for_each (\<lambda>_ replay. do {
         b \<leftarrow> in_byte 0;
         if b mod 4 = 0
         then do { seq \<leftarrow> in_u32 0; frame \<leftarrow> in_bytes 128; give (fst (record_frame replay 1 seq frame)) }
         else if b mod 4 = 1
         then do {
           k \<leftarrow> in_bounded 4;
           ranges \<leftarrow> for_each (\<lambda>_ ranges. do {
               lo \<leftarrow> in_u32 0;
               width \<leftarrow> in_bounded 16;
               give (ranges @ [\<lparr>ar_first = lo, ar_last = lo + of_nat width\<rparr>])
             }) [0..<k] [];
           give (fst (acknowledge replay 1 ranges))
         }
         else if b mod 4 = 2 then do { seq \<leftarrow> in_u32 0; give replay }
         else do { limit \<leftarrow> in_bounded 8; give (fst (due_for_retry replay (of_nat limit))) }
       }) [0..<64] (replay_window (1 + n));
     give (replay, serialize_retained replay)
   }"

definition run_timer_wheel :: "(TimerWheel \<times> TimerId list) fuzz" where
  "run_timer_wheel =
     for_each (\<lambda>_ (wheel, ids). do {
         b \<leftarrow> in_byte 0;
         if b mod 3 = 0
         then do {
           k \<leftarrow> in_byte 0;
           channel \<leftarrow> channel_from;
           due \<leftarrow> in_u64 0;
           let kind = [TK_handshake, TK_fragment_gap, TK_retry, TK_idle, TK_pong_deadline, TK_drain] ! (unat k mod 6);
           give (case schedule wheel kind channel due of (wheel', tid) \<Rightarrow> (wheel', ids @ [tid]))
         }
         else if b mod 3 = 1
         then (if ids \<noteq> [] then do { tid \<leftarrow> pick ids; give (fst (cancel wheel tid), ids) } else give (wheel, ids))
         else do { now \<leftarrow> in_u64 0; give (fst (expire wheel now), ids) }
       }) [0..<64] (timer_wheel, [])"

section \<open>The scheduler\<close>

definition outbound_item_from :: "OutboundPriority \<Rightarrow> OutboundItem fuzz" where
  "outbound_item_from priority = do {
     channel \<leftarrow> channel_from;
     sequence \<leftarrow> in_u32 0;
     encoded \<leftarrow> in_bytes 256;
     give \<lparr>oi_priority = priority, oi_channel = channel, oi_sequence = sequence, oi_encoded = encoded\<rparr>
   }"

definition run_scheduler_mixed :: "(OutboundScheduler \<times> bool list) fuzz" where
  "run_scheduler_mixed = do {
     n \<leftarrow> in_bounded 8192;
     for_each (\<lambda>_ (scheduler, answers). do {
         queue_it \<leftarrow> in_bit;
         scheduler \<leftarrow>
           (if queue_it
            then do {
              control \<leftarrow> in_bit;
              item \<leftarrow> outbound_item_from (if control then OP_control else OP_data);
              give (fst (enqueue scheduler item))
            }
            else do { writable \<leftarrow> in_bounded 512; give (fst (drain scheduler (1 + writable))) });
         give (scheduler, answers @ [scheduler_empty scheduler])
       }) [0..<64] (outbound_scheduler (1 + n), [])
   }"

text \<open>\<open>for (i = 0; i < 128 && !scheduler.empty(); ++i)\<close>.\<close>

fun drain_rounds :: "nat \<Rightarrow> OutboundScheduler \<Rightarrow> OutboundScheduler fuzz" where
  "drain_rounds 0 scheduler = give scheduler"
| "drain_rounds (Suc n) scheduler =
     (if scheduler_empty scheduler then give scheduler
      else do { writable \<leftarrow> in_bounded 16; drain_rounds n (fst (drain scheduler (1 + writable))) })"

definition run_scheduler_backpressure :: "OutboundScheduler fuzz" where
  "run_scheduler_backpressure = do {
     scheduler \<leftarrow> for_each (\<lambda>i scheduler. do {
         n \<leftarrow> in_bounded 96;
         encoded \<leftarrow> in_fixed_bytes (1 + n);
         give (fst (enqueue scheduler \<lparr>oi_priority = OP_data,
             oi_channel = \<lparr>cid_number = 1 + of_nat (i mod 4), cid_generation = 1\<rparr>,
             oi_sequence = of_nat (i + 1), oi_encoded = encoded\<rparr>))
       }) [0..<24] (outbound_scheduler 4096);
     drain_rounds 128 scheduler
   }"

definition run_scheduler_order :: "OutboundScheduler fuzz" where
  "run_scheduler_order = do {
     n \<leftarrow> in_bounded 8;
     let channel_count = 1 + of_nat n;
     scheduler \<leftarrow> for_each (\<lambda>_ scheduler. do {
         control \<leftarrow> in_bit;
         c \<leftarrow> in_u32 0;
         s \<leftarrow> in_bounded 16;
         encoded \<leftarrow> in_bytes 128;
         give (fst (enqueue scheduler \<lparr>oi_priority = (if control then OP_control else OP_data),
             oi_channel = \<lparr>cid_number = 1 + c mod channel_count, cid_generation = 1\<rparr>,
             oi_sequence = of_nat (1 + s), oi_encoded = encoded\<rparr>))
       }) [0..<48] (outbound_scheduler 16384);
     for_each (\<lambda>_ scheduler. do {
         writable \<leftarrow> in_bounded 1024;
         give (fst (drain scheduler (1 + writable)))
       }) [0..<32] scheduler
   }"

section \<open>Gateway, plugins, executor, transport\<close>

definition kDefaultMaxMessage :: nat where
  "kDefaultMaxMessage = 1024 * 1024"

definition capability_pair :: "nat \<Rightarrow> nat \<Rightarrow> (CapabilitySet \<times> CapabilitySet) fuzz" where
  "capability_pair least most = do {
     a \<leftarrow> in_bounded most;
     b \<leftarrow> in_bounded most;
     same \<leftarrow> in_bit;
     schema \<leftarrow> (if same then give (pd_schema_hash echo_descriptor) else in_u64 0);
     give (fuzz_capability (least + a) (pd_schema_hash echo_descriptor), fuzz_capability (least + b) schema)
   }"

definition run_capability_policy :: "(bool \<times> bytes \<times> bytes result option) fuzz" where
  "run_capability_policy = do {
     added \<leftarrow> in_bit;
     let policy = (if added then fst (policy_add_translator \<lparr>gp_translators = []\<rparr> 7 (Some Inr))
                   else \<lparr>gp_translators = []\<rparr>);
     (source, dest) \<leftarrow> capability_pair 64 4096;
     payload \<leftarrow> in_bytes 512;
     give (added, payload,
       if may_forward policy source dest 7 \<or> has_translator policy 7 then Some (translate_payload policy 7 payload)
       else None)
   }"

definition run_gateway_policy ::
  "(nat \<times> (bytes \<times> bytes result) list) fuzz" where
  "run_gateway_policy = do {
     added \<leftarrow> in_bit;
     let gateway = (if added then fst (add_translator new_gateway 7 (Some (\<lambda>payload. Inr (rev payload)))) else new_gateway);
     (source, dest) \<leftarrow> capability_pair 1 2048;
     payload \<leftarrow> in_bytes 512;
     let forwarded = forward gateway source dest \<lparr>gr_id = 1, gr_source = \<lparr>cid_number = 1, cid_generation = 1\<rparr>,
         gr_destination = \<lparr>cid_number = 2, cid_generation = 1\<rparr>, gr_family_id = 7\<rparr> payload;
     payload' \<leftarrow> in_bytes 512;
     give (cap_max_message dest, [(payload, forwarded), (payload', gateway_translate gateway source dest 7 payload')])
   }"

text \<open>The sixteen routes, with the sources of those that were created.\<close>

definition fuzz_routes :: "Gateway \<times> ChannelId list" where
  "fuzz_routes = foldl (\<lambda>(gateway, sources) i.
       let source = \<lparr>cid_number = 1 + of_nat i, cid_generation = 1\<rparr>
       in case create_route gateway source \<lparr>cid_number = 100 + of_nat i, cid_generation = 1\<rparr> 7 of
            (gateway', Inl _) \<Rightarrow> (gateway', sources)
          | (gateway', Inr _) \<Rightarrow> (gateway', sources @ [source]))
     (new_gateway, []) [0..<16]"

definition run_gateway_route ::
  "(bytes \<times> GatewayForwardedMessage result \<times> GatewayRoute result) list fuzz" where
  "run_gateway_route =
     (let caps = fuzz_capability kDefaultMaxMessage (pd_schema_hash echo_descriptor)
      in for_each (\<lambda>source answers. do {
           payload \<leftarrow> in_bytes 128;
           give (answers @ [(payload, bridge_message (fst fuzz_routes) caps caps source payload,
                             find_route (fst fuzz_routes) source)])
         }) (snd fuzz_routes) [])"

text \<open>A lease is a temporary of its statement and released at the end of it. The exception of an
  empty factory ends the process: \<open>None\<close>.\<close>

definition registry_action ::
  "PluginRegistry \<Rightarrow> PluginDescriptor \<Rightarrow> u32 \<Rightarrow> u8 \<Rightarrow> PluginRegistry option" where
  "registry_action registry descriptor family b =
     (if b mod 4 = 0 then Some (fst (register_factory registry descriptor (Some echo_handle)))
      else if b mod 4 = 1 then map_option (\<lambda>_. registry) (create_plugin registry family)
      else if b mod 4 = 2
      then (case create_lease registry family of
              None \<Rightarrow> None
            | Some (registry', Inl _) \<Rightarrow> Some registry'
            | Some (registry', Inr lease) \<Rightarrow> Some (release_lease registry' lease))
      else Some (fst (unregister_family registry family)))"

definition run_plugin_registry :: "(PluginRegistry \<times> PluginDescriptor list list) option fuzz" where
  "run_plugin_registry =
     for_each (\<lambda>_ run.
       case run of
         None \<Rightarrow> give None
       | Some (registry, listings) \<Rightarrow> do {
           seven \<leftarrow> in_bit;
           family \<leftarrow> (if seven then give 7 else do { n \<leftarrow> in_u32 0; give (1 + n) });
           same \<leftarrow> in_bit;
           schema \<leftarrow> (if same then give (pd_schema_hash echo_descriptor) else in_u64 0);
           depth \<leftarrow> in_bounded 32;
           let descriptor = \<lparr>pd_family_id = family, pd_schema_hash = schema, pd_max_depth = of_nat (1 + depth)\<rparr>;
           b \<leftarrow> in_byte 0;
           give (case registry_action registry descriptor family b of
                   None \<Rightarrow> None
                 | Some registry' \<Rightarrow> Some (registry', listings @ [descriptors registry']))
         }) [0..<32] (Some (plugin_registry, []))"

text \<open>The tasks do nothing and succeed.\<close>

definition idle_task :: "(unit, unit) runner" where
  "idle_task = lift_task (\<lambda>_ s. (s, Inr ()))"

definition run_executor_queue ::
  "(unit DeterministicExecutor \<times> ((unit DeterministicExecutor \<times> unit) \<times> unit result) option) fuzz" where
  "run_executor_queue = do {
     capacity \<leftarrow> in_bounded 64;
     shards \<leftarrow> in_bounded 8;
     (executor, _) \<leftarrow> for_each (\<lambda>_ (executor, ids). do {
         b \<leftarrow> in_byte 0;
         if b mod 3 = 0
         then do {
           shard \<leftarrow> in_bounded 7;
           give (case submit executor (of_nat shard) (Some ()) of
                   (executor', Inl _) \<Rightarrow> (executor', ids) | (executor', Inr tid) \<Rightarrow> (executor', ids @ [tid]))
         }
         else if b mod 3 = 1
         then (if ids \<noteq> [] then do { tid \<leftarrow> pick ids; give (fst (cancel_task executor tid), ids) } else give (executor, ids))
         else give (fst (fst (drain_one idle_task (executor, ()))), ids)
       }) [0..<64] (deterministic_executor (1 + capacity) (1 + of_nat shards), []);
     give (executor, drain_all idle_task (executor, ()))
   }"

definition run_memory_transport :: "(MemoryTransport \<times> MemoryTransport \<times> (nat \<times> nat) list) fuzz" where
  "run_memory_transport =
     for_each (\<lambda>_ (left, right, counts). do {
         b \<leftarrow> in_byte 0;
         (left, right) \<leftarrow>
           (if b mod 4 = 0 then do { bs \<leftarrow> in_bytes 256; give (transport_write left bs, right) }
            else if b mod 4 = 1 then do { bs \<leftarrow> in_bytes 256; give (left, transport_write right bs) }
            else if b mod 4 = 2 then give (fst (transport_read left), fst (transport_read right))
            else do {
              which \<leftarrow> in_bit;
              give (if which then (transport_close left, right) else (left, transport_close right))
            });
         give (left, right, counts @ [(mt_queued_bytes left, mt_queued_bytes right)])
       }) [0..<64] (memory_transport, memory_transport, [])"

section \<open>Channels and messages stay sound\<close>

lemma yields_pick: "ids \<noteq> [] \<Longrightarrow> yields (pick ids) (\<lambda>x. x \<in> set ids)"
  unfolding pick_def by (intro yielding nth_mem) (cases ids; simp)

lemma then_pick: "ids \<noteq> [] \<Longrightarrow> (\<And>x. x \<in> set ids \<Longrightarrow> yields (f x) P) \<Longrightarrow> yields (State_Monad.bind (pick ids) f) P"
  by (rule yields_bind[OF yields_pick])

lemma channel_apply_length: "table_ok t \<Longrightarrow> length (ct_slots (channel_apply t op)) = length (ct_slots t)"
  using channel_apply_step[of t op] by (auto simp: table_step_def)

definition sound_table :: "ChannelTable \<Rightarrow> nat list \<Rightarrow> bool" where
  "sound_table t live \<longleftrightarrow> table_ok t \<and> list_all (\<lambda>n. n \<le> length (ct_slots t)) live"

lemma live_count_bound: "live_count t \<le> length (ct_slots t)"
  by (simp add: live_count_def)

lemma sound_table_apply: "sound_table t live \<Longrightarrow> channel_apply t op = t' \<Longrightarrow> sound_table t' (live @ [live_count t'])"
  using channel_apply_ok[of t op] channel_apply_length[of t op] live_count_bound[of t'] by (auto simp: sound_table_def)

lemma sound_table_steps:
  assumes "sound_table t live"
  shows "sound_table t (live @ [live_count t])"
    "allocate t = (t', r) \<Longrightarrow> sound_table t' (live @ [live_count t'])"
    "sound_table (fst (activate t cid)) (live @ [live_count (fst (activate t cid))])"
    "sound_table (fst (accept_remote t cid)) (live @ [live_count (fst (accept_remote t cid))])"
    "sound_table (fst (reset_channel t cid)) (live @ [live_count (fst (reset_channel t cid))])"
    "sound_table (fst (half_close t cid d)) (live @ [live_count (fst (half_close t cid d))])"
    "sound_table (fst (retire_tombstone t cid)) (live @ [live_count (fst (retire_tombstone t cid))])"
proof -
  show "sound_table t (live @ [live_count t])" using assms live_count_bound[of t] by (simp add: sound_table_def)
  show "allocate t = (t', r) \<Longrightarrow> sound_table t' (live @ [live_count t'])"
    by (rule sound_table_apply[OF assms, of Ch_allocate]) simp
qed (rule sound_table_apply[OF assms], rule channel_apply.simps)+

lemma targets_channel_table:
  "yields run_channel_table (\<lambda>(table, live). sound_table table live)"
  unfolding run_channel_table_def
  by (intro yielding, rule yields_bind[OF yields_for[where P = "\<lambda>(table, ids, live). sound_table table live"]])
    (auto intro!: yielding then_pick split: prod.splits sum.splits
      simp: sound_table_steps table_ok_new SIZE_MAX_def sound_table_def[of "channel_table _ _ _"])

lemma targets_reassembler:
  "yields run_reassembler_ranges reassembler_ok" "yields run_reassembler_overlap reassembler_ok"
proof -
  show "yields run_reassembler_ranges reassembler_ok" unfolding run_reassembler_ranges_def
    by (intro yielding yields_for) (auto simp: SIZE_MAX_def intro!: insert_ok reset_message_ok)
  show "yields run_reassembler_overlap reassembler_ok" unfolding run_reassembler_overlap_def
    by (intro yielding yields_for insert_ok) (simp_all add: SIZE_MAX_def)
qed

lemma flow_full_invariant: "flow_full a \<Longrightarrow> fa_window a \<le> SIZE_MAX \<Longrightarrow> flow_invariant_holds a"
  by (simp add: flow_full_def flow_invariant_holds_def)

lemma targets_flow:
  "yields run_flow_account (\<lambda>(account, answers). flow_full account \<and> list_all id answers)"
  unfolding run_flow_account_def
proof (intro yielding, rule yields_weaken[OF yields_for[where P = "\<lambda>(account, answers).
    flow_full account \<and> fa_window account \<le> 65535 \<and> list_all id answers"]])
  fix window :: nat and st :: "FlowAccount \<times> bool list"
  assume w: "window \<le> 65535"
  show "case (flow_account window, []) of (account, answers) \<Rightarrow>
      flow_full account \<and> fa_window account \<le> 65535 \<and> list_all id answers"
    using w by (simp add: flow_full_def flow_account_def)
  assume st: "case st of (account, answers) \<Rightarrow> flow_full account \<and> fa_window account \<le> 65535 \<and> list_all id answers"
  have step: "flow_full (flow_apply a op) \<and> fa_window (flow_apply a op) \<le> 65535 \<and> flow_invariant_holds (flow_apply a op)"
    if "flow_full a" "fa_window a \<le> 65535" "grant_bounded 8192 op" for a op
  proof -
    have "fa_window a + 8192 \<le> SIZE_MAX" using that(2) by (simp add: SIZE_MAX_def)
    from flow_apply_full[OF that(1) this that(3)] show ?thesis
      using that(2) flow_full_invariant[of "flow_apply a op"] by (simp add: SIZE_MAX_def)
  qed
  note step[of _ "Reserve n" for n] step[of _ "Release n" for n] step[of _ "Grant n" for n]
  then show "yields (case st of (account, answers) \<Rightarrow> do {
        amount \<leftarrow> in_bounded 8192;
        b \<leftarrow> in_byte 0;
        let account = (if b mod 3 = 0 then fst (flow_reserve account amount)
          else if b mod 3 = 1 then fst (flow_release account amount) else fst (flow_grant account amount));
        give (account, answers @ [flow_invariant_holds account])
      }) (\<lambda>(account, answers). flow_full account \<and> fa_window account \<le> 65535 \<and> list_all id answers)"
    using st by (intro yields_cases yielding) (auto simp del: flow_apply_window)
qed auto

section \<open>Replay windows and timers stay sound\<close>

text \<open>A window in which frames arrive in any order: bounded, without duplicates, of one epoch.\<close>

definition window_sound :: "ReplayWindow \<Rightarrow> bool" where
  "window_sound w \<longleftrightarrow> 0 < rw_capacity w \<and> length (rw_entries w) \<le> rw_capacity w \<and>
     rw_epoch w = 1 \<and> list_all (\<lambda>e. re_epoch e = 1) (rw_entries w) \<and> distinct (seqs w)"

lemma record_sound: "window_sound w \<Longrightarrow> window_sound (fst (record_frame w 1 seq frame))"
  by (cases "rw_entries w")
    (auto simp: window_sound_def record_frame_def seqs_def Let_def window_contains_iff list_all_iff)

lemma filter_sound: "window_sound w \<Longrightarrow> window_sound (w\<lparr>rw_entries := filter P (rw_entries w)\<rparr>)"
  using le_trans[OF length_filter_le[of P "rw_entries w"]]
  by (auto simp: window_sound_def seqs_def list_all_iff distinct_map_filter)

lemma acknowledge_sound: "window_sound w \<Longrightarrow> window_sound (fst (acknowledge w epoch ranges))"
  by (simp add: acknowledge_def Let_def filter_sound split: sum.split)

lemma retry_sound: "window_sound w \<Longrightarrow> window_sound (fst (due_for_retry w limit))"
proof -
  have loop: "map re_frame_seq (fst (retry_loop limit es)) = map re_frame_seq es \<and>
      map re_epoch (fst (retry_loop limit es)) = map re_epoch es" for es
    by (induction es) (auto simp: Let_def split: prod.splits)
  let ?w = "fst (due_for_retry w limit)"
  have w: "seqs ?w = seqs w" "map re_epoch (rw_entries ?w) = map re_epoch (rw_entries w)"
    "rw_capacity ?w = rw_capacity w" "rw_epoch ?w = rw_epoch w"
    using loop[of "rw_entries w"]
    by (cases "retry_loop limit (rw_entries w)"; simp add: due_for_retry_def seqs_def)+
  have "window_sound v \<longleftrightarrow> 0 < rw_capacity v \<and> length (seqs v) \<le> rw_capacity v \<and> rw_epoch v = 1 \<and>
      list_all (\<lambda>k. k = 1) (map re_epoch (rw_entries v)) \<and> distinct (seqs v)" for v
    by (simp add: window_sound_def seqs_def list_all_iff)
  then show "window_sound w \<Longrightarrow> window_sound (fst (due_for_retry w limit))" by (simp only: w)
qed

lemma targets_replay_window: "yields run_replay_window (\<lambda>(replay, _). window_sound replay)"
  unfolding run_replay_window_def
  by (intro yielding yields_bind[OF yields_for[where P = window_sound]]
      yields_bind[OF yields_for[where P = "\<lambda>_. True"]] record_sound acknowledge_sound retry_sound)
    (simp_all add: window_sound_def replay_window_def seqs_def)

text \<open>The wheel of a target is the wheel of a history of at most \<open>n\<close> operations that has handed out
  the identifiers the target holds.\<close>

definition wheel_history :: "nat \<Rightarrow> TimerWheel \<times> TimerId list \<Rightarrow> bool" where
  "wheel_history n = (\<lambda>(wheel, ids). \<exists>l. log_ok n l \<and> wl_wheel l = wheel \<and> wl_scheduled l = ids)"

lemma wheel_history_step:
  assumes "wheel_history n (wheel, ids)" "n < 2 ^ 64"
  shows "wheel_history (Suc n) (wheel, ids)"
    "schedule wheel kind channel due = (wheel', tid) \<Longrightarrow> wheel_history (Suc n) (wheel', ids @ [tid])"
    "wheel_history (Suc n) (fst (cancel wheel tid), ids)"
    "wheel_history (Suc n) (fst (expire wheel now), ids)"
proof -
  obtain l where l: "log_ok n l" "wl_wheel l = wheel" "wl_scheduled l = ids"
    using assms(1) by (auto simp: wheel_history_def)
  have step: "wheel_history (Suc n) (wl_wheel (wheel_step l op), wl_scheduled (wheel_step l op))" for op
    using log_ok_step[OF l(1) assms(2), of op] by (auto simp: wheel_history_def)
  show "wheel_history (Suc n) (wheel, ids)"
    using l by (auto simp: wheel_history_def log_ok_def intro!: exI[of _ l])
  show "schedule wheel kind channel due = (wheel', tid) \<Longrightarrow> wheel_history (Suc n) (wheel', ids @ [tid])"
    using step[of "OP_Schedule kind channel due"] l by simp
  show "wheel_history (Suc n) (fst (cancel wheel tid), ids)"
    using step[of "OP_Cancel tid"] l by (auto split: prod.splits sum.splits)
  show "wheel_history (Suc n) (fst (expire wheel now), ids)"
    using step[of "OP_Expire now"] l by (auto split: prod.splits)
qed

lemma targets_timer_wheel:
  "yields run_timer_wheel (\<lambda>(wheel, ids). wheel_sorted wheel \<and> distinct (pending_ids wheel) \<and>
     set (pending_ids wheel) \<subseteq> set ids)"
proof -
  have start: "wheel_history 0 (timer_wheel, [])"
    by (auto simp: wheel_history_def log_ok_def wheel_log_def timer_wheel_def pending_ids_def wheel_sorted_def
        intro!: exI[of _ wheel_log])
  have done': "wheel_sorted wheel \<and> distinct (pending_ids wheel) \<and> set (pending_ids wheel) \<subseteq> set ids"
    if h: "wheel_history 64 (wheel, ids)" for wheel ids
  proof -
    obtain l where l: "log_ok 64 l" "wl_wheel l = wheel" "wl_scheduled l = ids"
      using h by (auto simp: wheel_history_def)
    then have "mset ids = mset (map te_id (wl_fired l)) + mset (wl_cancelled l) + mset (pending_ids wheel)"
      by (simp add: log_ok_def)
    from arg_cong[of _ _ set_mset, OF this] show ?thesis
      using l log_ok_distinct[OF l(1)] by (auto simp: log_ok_def)
  qed
  show ?thesis unfolding run_timer_wheel_def
    by (rule yields_weaken[OF yields_upto[where P = wheel_history]])
      (use start done' in \<open>auto intro!: yielding then_pick split: prod.splits simp: wheel_history_step
        wheel_history_step(2)[where ids = "[]", simplified]\<close>)
qed

section \<open>The scheduler stays sound\<close>

lemma enqueue_ok: "scheduler_ok s \<Longrightarrow> scheduler_ok (fst (enqueue s item))"
  using enqueue_spec[of s item] by (cases "enqueue s item") auto

lemma drain_ok: "scheduler_ok s \<Longrightarrow> scheduler_ok (fst (drain s w))"
  using drain_spec[of s w] by (cases "drain s w") auto

lemma yields_item: "yields (outbound_item_from priority) (\<lambda>item. oi_priority item = priority)"
  unfolding outbound_item_from_def by (intro yielding) simp

lemma yields_rounds:
  assumes "P s" "\<And>s w. P s \<Longrightarrow> P (fst (drain s w))"
  shows "yields (drain_rounds n s) P"
  using assms(1)
proof (induction n arbitrary: s)
  case (Suc n)
  then show ?case using assms(2) by (auto intro!: yielding)
qed (simp add: yields_give)

lemma targets_scheduler:
  "yields run_scheduler_mixed (\<lambda>(scheduler, _). scheduler_ok scheduler)"
  "yields run_scheduler_order scheduler_ok"
proof -
  show "yields run_scheduler_mixed (\<lambda>(scheduler, _). scheduler_ok scheduler)"
    unfolding run_scheduler_mixed_def
    by (intro yielding, rule yields_weaken[OF yields_for[where P = "\<lambda>(scheduler, _). scheduler_ok scheduler"]])
      (auto intro!: yielding yields_bind[OF yields_item] simp: enqueue_ok drain_ok SIZE_MAX_def)
  show "yields run_scheduler_order scheduler_ok"
    unfolding run_scheduler_order_def
    by (intro yielding yields_bind[OF yields_for[where P = scheduler_ok]] yields_for enqueue_ok drain_ok)
      (simp_all add: SIZE_MAX_def)
qed

section \<open>The backpressure target jams\<close>

text \<open>What every step of the data loop keeps, the loop keeps.\<close>

lemma drain_channels_keeps:
  assumes full: "\<And>s d item rest q. P s \<Longrightarrow> data_queue (os_data s) d = item # rest \<Longrightarrow>
      os_expected_sequence s d = 0 \<or> oi_sequence item = os_expected_sequence s d \<Longrightarrow>
      P (s\<lparr>os_queued_bytes := q, os_rr_cursor := d + 1,
           os_expected_sequence := (os_expected_sequence s)(d := oi_sequence item + 1),
           os_data := om_put d rest (os_data s)\<rparr>)"
    and part: "\<And>s d item rest q bs. P s \<Longrightarrow> data_queue (os_data s) d = item # rest \<Longrightarrow>
      os_expected_sequence s d = 0 \<or> oi_sequence item = os_expected_sequence s d \<Longrightarrow>
      P (s\<lparr>os_queued_bytes := q, os_rr_cursor := d + 1,
           os_data := om_put d (item\<lparr>oi_encoded := bs\<rparr> # rest) (os_data s)\<rparr>)"
  shows "P s \<Longrightarrow> P (fst (drain_channels w used s cs))"
proof (induction w used s cs rule: drain_channels.induct)
  case (2 w used s d cs)
  show ?case
  proof (cases "data_queue (os_data s) d")
    case Nil
    then show ?thesis using 2 by simp
  next
    case (Cons item rest)
    let ?n = "min (w - used) (length (oi_encoded item))"
    show ?thesis
    proof (cases "(os_expected_sequence s d \<noteq> 0 \<and> oi_sequence item \<noteq> os_expected_sequence s d) \<or> ?n = 0")
      case True
      then show ?thesis using 2 Cons by (auto simp: Let_def)
    next
      case False
      then have go: "os_expected_sequence s d = 0 \<or> oi_sequence item = os_expected_sequence s d"
        "\<not> (os_expected_sequence s d \<noteq> 0 \<and> oi_sequence item \<noteq> os_expected_sequence s d)" "?n \<noteq> 0" by auto
      show ?thesis
      proof (cases "?n = length (oi_encoded item)")
        case True
        note full[OF "2.prems" Cons go(1), of "size_sub (os_queued_bytes s) ?n"]
        from "2.IH"(4)[OF Cons refl go(2) refl refl go(3) refl refl True, simplified, OF this[simplified]]
        show ?thesis using Cons go True by (auto simp: Let_def case_prod_beta)
      next
        case f: False
        then show ?thesis using Cons go part[OF "2.prems" Cons go(1)]
          by (simp only: drain_channels.simps Cons list.case Let_def go(2) if_False fst_conv) simp
      qed
    qed
  qed
qed simp

text \<open>Two waiting items whose sequences do not follow each other: the first may still be sent, and
  then the channel is blocked for good.\<close>

definition jammed :: "OutboundScheduler \<Rightarrow> u32 \<Rightarrow> bool" where
  "jammed s c \<longleftrightarrow> om_ok (os_data s) \<and> os_expected_sequence s c = 0 \<and>
     (\<exists>a b rest. data_queue (os_data s) c = a # b # rest \<and> oi_sequence a + 1 \<notin> {0, oi_sequence b})"

definition stuck :: "u32 \<Rightarrow> OutboundScheduler \<Rightarrow> bool" where
  "stuck c s \<longleftrightarrow> jammed s c \<or> (\<exists>items expected. blocked s c items expected)"

lemma stuck_channels: "stuck c s \<Longrightarrow> stuck c (fst (drain_channels w used s cs))"
proof (rule drain_channels_keeps)
  fix s d item rest q
  assume s: "stuck c s" "data_queue (os_data s) d = item # rest"
    "os_expected_sequence s d = 0 \<or> oi_sequence item = os_expected_sequence s d"
  show "stuck c (s\<lparr>os_queued_bytes := q, os_rr_cursor := d + 1,
      os_expected_sequence := (os_expected_sequence s)(d := oi_sequence item + 1),
      os_data := om_put d rest (os_data s)\<rparr>)"
    using s by (cases "d = c") (auto simp: stuck_def jammed_def blocked_def)
  show "stuck c (s\<lparr>os_queued_bytes := q, os_rr_cursor := d + 1,
      os_data := om_put d (item\<lparr>oi_encoded := bs\<rparr> # rest) (os_data s)\<rparr>)" for bs
    using s by (cases "d = c") (auto simp: stuck_def jammed_def blocked_def)
qed

lemma stuck_drain: "stuck c s \<Longrightarrow> stuck c (fst (drain s w))"
proof -
  assume s: "stuck c s"
  obtain used queued left out1 stop where d: "drain_control w 0 (os_queued_bytes s) (os_control s)
      = (used, queued, left, out1, stop)"
    by (metis prod_cases5)
  let ?s1 = "s\<lparr>os_queued_bytes := queued, os_control := left\<rparr>"
  let ?cs = "rotate_from (os_rr_cursor ?s1) (map fst (filter (\<lambda>(c, queue). queue \<noteq> []) (os_data ?s1)))"
  have s1: "stuck c ?s1" using s by (simp add: stuck_def jammed_def blocked_def)
  obtain s2 out2 where dc: "drain_channels w used ?s1 ?cs = (s2, out2)" by fastforce
  have "stuck c s2" using stuck_channels[OF s1, of w used ?cs] dc by simp
  then have "stuck c (s2\<lparr>os_data := filter (\<lambda>(c, queue). queue \<noteq> []) (os_data s2)\<rparr>)"
    by (auto simp: stuck_def jammed_def blocked_def)
  then show ?thesis using s1 d dc by (auto simp: drain_def Let_def)
qed

lemma stuck_not_empty: "stuck c s \<Longrightarrow> \<not> scheduler_empty s"
proof -
  assume "stuck c s"
  then have "om_ok (os_data s)" "data_queue (os_data s) c \<noteq> []"
    by (auto simp: stuck_def jammed_def blocked_def)
  from data_queue_mem[OF this] show ?thesis using \<open>data_queue (os_data s) c \<noteq> []\<close>
    by (fastforce simp: scheduler_empty_def list_all_iff)
qed

text \<open>Filling: channel 1 gets the sequences 1, 5, 9 and so on.\<close>

definition filling :: "nat \<Rightarrow> OutboundScheduler \<Rightarrow> bool" where
  "filling i s \<longleftrightarrow> scheduler_ok s \<and> os_byte_limit s = 4096 \<and> os_queued_bytes s \<le> 97 * i \<and>
     os_expected_sequence s 1 = 0 \<and>
     take 2 (map oi_sequence (data_queue (os_data s) 1)) = (if i = 0 then [] else if i \<le> 4 then [1] else [1, 5])"

lemma filling_step:
  assumes "filling i s" "i < 24" "0 < length bs" "length bs \<le> 97"
    and item: "item = \<lparr>oi_priority = OP_data, oi_channel = \<lparr>cid_number = 1 + of_nat (i mod 4), cid_generation = 1\<rparr>,
      oi_sequence = of_nat (i + 1), oi_encoded = bs\<rparr>"
  shows "filling (Suc i) (fst (enqueue s item))"
proof -
  let ?c = "1 + of_nat (i mod 4) :: u32" and ?q = "data_queue (os_data s)"
  have f: "scheduler_ok s" "om_ok (os_data s)" "os_queued_bytes s + length bs \<le> 4096" "os_byte_limit s = 4096"
    using assms(1,2,4) by (auto simp: filling_def scheduler_ok_def)
  have "i mod 4 = 0 \<or> i mod 4 = 1 \<or> i mod 4 = 2 \<or> i mod 4 = 3" by presburger
  then have c: "?c = 1 \<longleftrightarrow> i mod 4 = 0" by (elim disjE; simp only:) simp_all
  have t2: "take 2 (map oi_sequence (?q 1)) = (if i = 0 then [] else if i \<le> 4 then [1] else [1, 5])"
    using assms(1) by (simp add: filling_def)
  have q0: "?q 1 = []" if "i = 0" using t2 that by simp
  have q4: "\<exists>a. ?q 1 = [a] \<and> oi_sequence a = 1" if "0 < i" "i \<le> 4"
    using t2 that by (cases "?q 1"; cases "tl (?q 1)") auto
  obtain s' r where e: "enqueue s item = (s', r)" by fastforce
  show ?thesis
  proof (cases "?q ?c \<noteq> [] \<and> of_nat (i + 1) \<le> oi_sequence (last (?q ?c))")
    case True
    then have "\<exists>err. r = Inl err"
      using e f assms(3) by (auto simp: enqueue_def item checked_add_fits SIZE_MAX_def Let_def)
    then have "s' = s" using enqueue_spec[OF f(1) e] by blast
    moreover have "False" if "i = 0" using True q0[OF that] that by simp
    moreover have "False" if "i = 4" using True q4 that by (auto simp: word_le_nat_alt)
    ultimately show ?thesis using assms(1) e by (cases "i \<le> 4"; cases "i = 0"; cases "i = 4") (auto simp: filling_def)
  next
    case False
    then have "s' = s\<lparr>os_queued_bytes := os_queued_bytes s + length bs,
        os_data := om_put ?c (?q ?c @ [item]) (os_data s)\<rparr>"
      using e f assms(3) by (auto simp: enqueue_def item checked_add_fits SIZE_MAX_def Let_def)
    moreover have "scheduler_ok s'" using enqueue_ok[OF f(1), of item] e by simp
    moreover have "take 2 (map oi_sequence (data_queue (om_put ?c (?q ?c @ [item]) (os_data s)) 1)) =
        (if Suc i \<le> 4 then [1] else [1, 5])"
    proof (cases "i mod 4 = 0")
      case True
      then have c1: "?c = 1" by (rule iffD2[OF c])
      show ?thesis
      proof (cases "i \<le> 4")
        case True
        then have "i = 0 \<or> i = 4" using \<open>i mod 4 = 0\<close> by presburger
        then show ?thesis using q0 q4 f(2) unfolding c1 by (auto simp: item)
      next
        case False
        then have "take 2 (map oi_sequence (?q 1)) = [1, 5]" using t2 by simp
        from arg_cong[OF this, of length] have "2 \<le> length (?q 1)" by simp
        then show ?thesis using f(2) t2 False unfolding c1 by simp
      qed
    next
      case False
      then have "i \<noteq> 0" "i \<noteq> 4" "?c \<noteq> 1" using c by auto
      then show ?thesis using f(2) t2 by auto
    qed
    ultimately show ?thesis using assms(1,4) e by (simp add: filling_def)
  qed
qed

lemma filled_stuck: "filling 24 s \<Longrightarrow> stuck 1 s"
proof -
  assume f: "filling 24 s"
  then have "take 2 (map oi_sequence (data_queue (os_data s) 1)) = [1, 5]" by (simp add: filling_def)
  then obtain a b rest where "data_queue (os_data s) 1 = a # b # rest" "oi_sequence a = 1" "oi_sequence b = 5"
    by (cases "data_queue (os_data s) 1" rule: list.exhaust; cases "tl (data_queue (os_data s) 1)") auto
  then show "stuck 1 s" using f by (auto simp: filling_def stuck_def jammed_def scheduler_ok_def)
qed

text \<open>Remark. The backpressure target never empties its queue: the sequences it gives a channel
  are four apart, the scheduler sends none after the first without its predecessor, and so,
  whatever the input, bytes are left after the 128 drains and the loop never ends early. The
  scheduler itself stays sound.\<close>

theorem fuzzed_backpressure_jams:
  "yields run_scheduler_backpressure (\<lambda>s. scheduler_ok s \<and> \<not> scheduler_empty s)"
  unfolding run_scheduler_backpressure_def
proof (intro yields_bind[OF yields_upto[where P = filling]])
  show "filling 0 (outbound_scheduler 4096)"
    by (simp add: filling_def SIZE_MAX_def) (simp add: outbound_scheduler_def data_queue_def)
  show "yields (do {
         n \<leftarrow> in_bounded 96;
         encoded \<leftarrow> in_fixed_bytes (1 + n);
         give (fst (enqueue s \<lparr>oi_priority = OP_data,
             oi_channel = \<lparr>cid_number = 1 + of_nat (i mod 4), cid_generation = 1\<rparr>,
             oi_sequence = of_nat (i + 1), oi_encoded = encoded\<rparr>))
       }) (filling (Suc i))" if "i < 24" "filling i s" for i s
    using that by (intro yielding filling_step) simp_all
  show "yields (drain_rounds 128 s) (\<lambda>s. scheduler_ok s \<and> \<not> scheduler_empty s)" if "filling 24 s" for s
  proof (rule yields_weaken[OF yields_rounds[where P = "\<lambda>s. scheduler_ok s \<and> stuck 1 s"]])
    show "scheduler_ok s \<and> stuck 1 s" using that filled_stuck[OF that] by (simp add: filling_def)
  qed (use drain_ok stuck_drain stuck_not_empty in auto)
qed

section \<open>What the gateway forwards\<close>

text \<open>A payload comes out as it was, or as the translator makes it, and within the limit.\<close>

definition forwarded_within :: "nat \<Rightarrow> bytes \<times> bytes result \<Rightarrow> bool" where
  "forwarded_within most = (\<lambda>(payload, r). case r of Inl _ \<Rightarrow> True
     | Inr bs \<Rightarrow> bs \<in> {payload, rev payload} \<and> length bs \<le> most)"

lemma yields_capabilities: "yields (capability_pair least most) (\<lambda>_. True)"
  unfolding capability_pair_def by (intro yielding) simp_all

lemma reversing_translates:
  "translate_payload (gw_policy (if added then fst (add_translator new_gateway 7 (Some (\<lambda>payload. Inr (rev payload))))
     else new_gateway)) 7 payload = Inr (if added then rev payload else payload)"
  by (simp add: add_translator_def policy_add_translator_def new_gateway_def translate_payload_def om_get_def)

lemma gateway_translate_within:
  assumes "translate_payload (gw_policy gw) 7 payload = Inr (if added then rev payload else payload)"
  shows "forwarded_within (cap_max_message dest) (payload, gateway_translate gw source dest 7 payload)"
  using assms by (auto simp: forwarded_within_def gateway_translate_def)

lemma targets_gateway_policy:
  "yields run_gateway_policy (\<lambda>(most, answers). list_all (forwarded_within most) answers)"
  unfolding run_gateway_policy_def
  by (intro yielding yields_bind[OF yields_capabilities] yields_cases)
    (simp_all add: forward_def gateway_translate_within[OF reversing_translates] split del: if_split)

text \<open>With a translator every payload comes back; without one only between equal schemas.\<close>

lemma targets_capability_policy:
  "yields run_capability_policy (\<lambda>(added, payload, r). case r of None \<Rightarrow> added = False | Some t \<Rightarrow> t = Inr payload)"
proof -
  have t: "translate_payload (if added then fst (policy_add_translator \<lparr>gp_translators = []\<rparr> 7 (Some Inr))
      else \<lparr>gp_translators = []\<rparr>) 7 payload = Inr payload" for added payload
    by (simp add: policy_add_translator_def translate_payload_def om_get_def)
  have h: "has_translator (if added then fst (policy_add_translator \<lparr>gp_translators = []\<rparr> 7 (Some Inr))
      else \<lparr>gp_translators = []\<rparr>) 7 = added" for added
    by (simp add: policy_add_translator_def has_translator_def om_get_def)
  show ?thesis unfolding run_capability_policy_def
    by (intro yielding yields_bind[OF yields_capabilities] yields_cases) (simp add: t h)
qed

text \<open>The sixteen routes exist and lead where they were created to.\<close>

definition fuzz_route :: "nat \<Rightarrow> GatewayRoute" where
  "fuzz_route i = \<lparr>gr_id = of_nat (i + 1), gr_source = \<lparr>cid_number = 1 + of_nat i, cid_generation = 1\<rparr>,
     gr_destination = \<lparr>cid_number = 100 + of_nat i, cid_generation = 1\<rparr>, gr_family_id = 7\<rparr>"

lemma fuzz_routes_eval:
  "snd fuzz_routes = map (\<lambda>i. gr_source (fuzz_route i)) [0..<16]"
  "\<forall>i \<in> set [0..<16]. find_route (fst fuzz_routes) (gr_source (fuzz_route i)) = Inr (fuzz_route i)"
  by code_simp+

definition delivered_by :: "nat \<Rightarrow> bytes \<times> GatewayForwardedMessage result \<times> GatewayRoute result \<Rightarrow> bool" where
  "delivered_by i = (\<lambda>(payload, bridged, route). route = Inr (fuzz_route i) \<and>
     bridged = Inr \<lparr>gm_route_id = gr_id (fuzz_route i), gm_source = gr_source (fuzz_route i),
       gm_destination = gr_destination (fuzz_route i), gm_family_id = 7, gm_payload = payload\<rparr>)"

lemma fuzz_routes_policy: "gp_translators (gw_policy (fst fuzz_routes)) = []"
proof -
  have "length (gp_translators (gw_policy (fst fuzz_routes))) = 0" by code_simp
  then show ?thesis by simp
qed

lemma yields_map_upto:
  assumes "P 0 s" "\<And>i s. i < n \<Longrightarrow> P i s \<Longrightarrow> yields (body (f i) s) (P (Suc i))"
  shows "yields (for_each body (map f [0..<n]) s) (P n)"
proof -
  have "for_each body (map f is) s = for_each (\<lambda>i. body (f i)) is s" for "is" s
    by (induction "is" arbitrary: s) (auto intro!: arg_cong2[where f = State_Monad.bind])
  then show ?thesis using yields_upto[where P = P and body = "\<lambda>i. body (f i)", OF assms] by simp
qed

lemma bridges_on_route:
  assumes "i < 16" "length payload \<le> 128"
  shows "bridge_message (fst fuzz_routes) (fuzz_capability kDefaultMaxMessage schema) (fuzz_capability kDefaultMaxMessage schema)
      (gr_source (fuzz_route i)) payload =
    Inr \<lparr>gm_route_id = gr_id (fuzz_route i), gm_source = gr_source (fuzz_route i),
         gm_destination = gr_destination (fuzz_route i), gm_family_id = 7, gm_payload = payload\<rparr>"
proof -
  have "gr_family_id (fuzz_route i) = 7" "gr_id (fuzz_route i) \<noteq> 0"
    using assms(1) by (simp_all add: fuzz_route_def word_of_nat_eq_0_iff nat_dvd_not_less del: of_nat_add of_nat_Suc)
  then show ?thesis using assms fuzz_routes_eval(2)
    by (simp add: bridge_message_def forward_def gateway_translate_def may_forward_def fuzz_capability_def
        family_negotiated_def find_family_def translate_payload_def fuzz_routes_policy om_get_def
        kDefaultMaxMessage_def)
qed

lemma targets_gateway_route:
  "yields run_gateway_route (\<lambda>answers. length answers = 16 \<and> list_all2 delivered_by [0..<16] answers)"
proof -
  let ?caps = "fuzz_capability kDefaultMaxMessage (pd_schema_hash echo_descriptor)"
  show ?thesis unfolding run_gateway_route_def Let_def fuzz_routes_eval(1)
  proof (rule yields_weaken[OF yields_map_upto[where P = "\<lambda>n. list_all2 delivered_by [0..<n]"]])
    show "yields (do {
           payload \<leftarrow> in_bytes 128;
           give (answers @ [(payload, bridge_message (fst fuzz_routes) ?caps ?caps (gr_source (fuzz_route i)) payload,
                             find_route (fst fuzz_routes) (gr_source (fuzz_route i)))])
         }) (list_all2 delivered_by [0..<Suc i])" if "i < 16" "list_all2 delivered_by [0..<i] answers" for i answers
      using that fuzz_routes_eval(2)
      by (intro yielding) (auto simp: delivered_by_def bridges_on_route intro!: list_all2_appendI)
  qed (auto dest: list_all2_lengthD)
qed

section \<open>Plugins, executor and transport\<close>

text \<open>Dropped at once, no lease is held between two steps.\<close>

definition registry_quiet :: "PluginRegistry \<Rightarrow> bool" where
  "registry_quiet registry \<longleftrightarrow> registry_ok registry []"

lemma registry_quiet_action:
  assumes "registry_quiet registry" "registry_action registry descriptor family b = Some registry'"
  shows "registry_quiet registry'"
proof -
  note step = registry_ok_step[OF assms(1)[unfolded registry_quiet_def]]
  have "registry_quiet (fst (register_factory registry descriptor factory))" for factory
    using step[of "OP_Register descriptor factory"] by (simp add: registry_quiet_def)
  moreover have "registry_quiet (fst (unregister_family registry family))"
    using step[of "OP_Unregister family"] by (simp add: registry_quiet_def)
  moreover have "registry_quiet registry''" if "create_lease registry family = Some (registry'', Inl e)" for registry'' e
    using step[of "OP_Lease family"] that by (simp add: registry_quiet_def)
  moreover have "registry_quiet (release_lease registry'' lease)"
    if "create_lease registry family = Some (registry'', Inr lease)" for registry'' lease
  proof -
    have "registry_ok registry'' [lease]" using step[of "OP_Lease family"] that by simp
    from registry_ok_step[OF this, of "OP_Release 0"] show ?thesis by (simp add: registry_quiet_def)
  qed
  ultimately show ?thesis using assms
    by (auto simp: registry_action_def split: if_splits option.splits sum.splits)
qed

lemma descriptors_distinct: "registry_quiet registry \<Longrightarrow> distinct (map pd_family_id (descriptors registry))"
proof -
  assume r: "registry_quiet registry"
  have "map (\<lambda>entry. pd_family_id (pe_descriptor (snd entry))) (rg_entries registry) = map fst (rg_entries registry)"
    using r by (auto simp: registry_quiet_def registry_ok_def entry_ok_def)
  moreover have "distinct (map fst (rg_entries registry))"
    using r by (auto simp: registry_quiet_def registry_ok_def om_ok_def strict_sorted_iff)
  ultimately have "distinct (map (\<lambda>entry. pd_family_id (pe_descriptor (snd entry))) (rg_entries registry))"
    by (simp only:)
  then show ?thesis by (simp add: descriptors_def comp_def case_prod_beta)
qed

lemma registry_quiet_new: "registry_quiet plugin_registry"
  by (simp add: registry_quiet_def registry_ok_def plugin_registry_def fresh_state_def)

definition registry_run_ok :: "(PluginRegistry \<times> PluginDescriptor list list) option \<Rightarrow> bool" where
  "registry_run_ok run = (case run of
       None \<Rightarrow> True
     | Some (registry, listings) \<Rightarrow> registry_quiet registry \<and>
         list_all (\<lambda>listing. distinct (map pd_family_id listing)) listings)"

lemma registry_run_ok_simps [simp]:
  "registry_run_ok None"
  "registry_run_ok (Some (registry, listings)) \<longleftrightarrow> registry_quiet registry \<and>
     list_all (\<lambda>listing. distinct (map pd_family_id listing)) listings"
  by (simp_all add: registry_run_ok_def)

lemma registry_run_action:
  assumes "registry_run_ok (Some (registry, listings))"
  shows "registry_run_ok (case registry_action registry descriptor family b of
      None \<Rightarrow> None
    | Some registry' \<Rightarrow> Some (registry', listings @ [descriptors registry']))"
proof (cases "registry_action registry descriptor family b")
  case (Some registry')
  have "registry_quiet registry'" using assms by (intro registry_quiet_action[OF _ Some]) simp
  then show ?thesis using assms Some by (simp add: descriptors_distinct)
qed simp

lemma targets_plugin_registry: "yields run_plugin_registry registry_run_ok"
  unfolding run_plugin_registry_def
proof (rule yields_for)
  show "yields (case run of None \<Rightarrow> give None
      | Some (registry, listings) \<Rightarrow> do {
          seven \<leftarrow> in_bit;
          family \<leftarrow> (if seven then give 7 else do { n \<leftarrow> in_u32 0; give (1 + n) });
          same \<leftarrow> in_bit;
          schema \<leftarrow> (if same then give (pd_schema_hash echo_descriptor) else in_u64 0);
          depth \<leftarrow> in_bounded 32;
          let descriptor = \<lparr>pd_family_id = family, pd_schema_hash = schema, pd_max_depth = of_nat (1 + depth)\<rparr>;
          b \<leftarrow> in_byte 0;
          give (case registry_action registry descriptor family b of
                  None \<Rightarrow> None
                | Some registry' \<Rightarrow> Some (registry', listings @ [descriptors registry']))
        }) registry_run_ok" if "registry_run_ok run" for run
    using that
    by (cases run) (auto intro!: yielding simp: Let_def registry_run_action simp del: registry_run_ok_simps(2))
qed (simp_all add: registry_quiet_new)

text \<open>The tasks cannot fail, so that what is queued at the end is run to the last.\<close>

lemma idle_drain: "drain_all idle_task (executor, ()) = Some ((executor\<lparr>de_queue := []\<rparr>, ()), Inr ())"
proof -
  have "run_in_order (\<lambda>_ s. (s, Inr ())) queue () = (([], ()), Inr ())" for queue :: "unit ExecutorTask list"
    by (induction queue) simp_all
  then show ?thesis by (simp add: idle_task_def drain_all_lift)
qed

definition executor_within :: "nat \<Rightarrow> unit DeterministicExecutor \<Rightarrow> bool" where
  "executor_within n executor \<longleftrightarrow> executor_ok (de_capacity executor) (de_shards executor) n executor"

lemma executor_within_steps:
  assumes "executor_within n executor" "Suc n < 2 ^ 64"
  shows "executor_within (Suc n) executor"
    "submit executor shard task = (executor', r) \<Longrightarrow> executor_within (Suc n) executor'"
    "executor_within (Suc n) (fst (cancel_task executor tid))"
    "executor_within (Suc n) (fst (fst (drain_one idle_task (executor, ()))))"
proof -
  let ?ok = "executor_ok (de_capacity executor) (de_shards executor)"
  have keep: "executor_within (Suc n) (executor_apply executor op)" for op
  proof -
    have "?ok (Suc n) (executor_apply executor op)"
      using executor_ok_apply[of _ _ n executor op] assms by (simp add: executor_within_def)
    moreover have "de_capacity (executor_apply executor op) = de_capacity executor \<and>
        de_shards (executor_apply executor op) = de_shards executor"
      by (cases op) (auto simp: submit_def cancel_task_def drain_one_def lift_task_def Let_def
          split: option.split list.split)
    ultimately show ?thesis by (simp add: executor_within_def)
  qed
  show "executor_within (Suc n) executor"
    using assms(1) unfolding executor_within_def executor_ok_def by (auto intro: le_SucI)
  show "submit executor shard task = (executor', r) \<Longrightarrow> executor_within (Suc n) executor'"
    using keep[of "OP_Submit shard task"] by simp
  show "executor_within (Suc n) (fst (cancel_task executor tid))"
    using keep[of "OP_Cancel_task tid"] by simp
  show "executor_within (Suc n) (fst (fst (drain_one idle_task (executor, ()))))"
    using keep[of OP_Drain_one] by (simp add: idle_task_def)
qed

lemma executor_within_new: "executor_within 0 (deterministic_executor capacity shards)"
  by (simp add: executor_within_def executor_ok_def deterministic_executor_def)

lemma targets_executor_queue:
  "yields run_executor_queue (\<lambda>(executor, answer). length (de_queue executor) \<le> de_capacity executor \<and>
     answer = Some ((executor\<lparr>de_queue := []\<rparr>, ()), Inr ()))"
  unfolding run_executor_queue_def
  by (intro yielding, rule yields_bind[OF yields_upto[where P = "\<lambda>n (executor, ids). executor_within n executor"]])
    (auto intro!: yielding then_pick split: prod.splits sum.splits
      simp: executor_within_steps executor_within_new idle_drain,
     simp add: executor_within_def executor_ok_def)

text \<open>The byte count of a transport is that of its queue, while all that was written fits a counter.\<close>

definition transport_counts :: "nat \<Rightarrow> MemoryTransport \<Rightarrow> bool" where
  "transport_counts n t \<longleftrightarrow> mt_queued_bytes t = length (concat (mt_queue t)) \<and> mt_queued_bytes t \<le> 256 * n"

lemma transport_counts_steps:
  assumes "transport_counts n t" "n < 64"
  shows "transport_counts (Suc n) t"
    "length bs \<le> 256 \<Longrightarrow> transport_counts (Suc n) (transport_write t bs)"
    "transport_counts (Suc n) (fst (transport_read t))"
    "transport_counts (Suc n) (transport_close t)"
  using assms by (auto simp: transport_counts_def transport_write_def transport_read_def transport_close_def
      size_add_def size_sub_def SIZE_MAX_def split: list.splits)

lemma targets_memory_transport:
  "yields run_memory_transport (\<lambda>(left, right, _).
     mt_queued_bytes left = length (concat (mt_queue left)) \<and> mt_queued_bytes right = length (concat (mt_queue right)))"
  unfolding run_memory_transport_def
  by (rule yields_weaken[OF yields_upto[where P = "\<lambda>n (left, right, _). transport_counts n left \<and> transport_counts n right"]])
    (auto intro!: yielding simp: transport_counts_steps
      simp: transport_counts_def[of 0] transport_counts_def[of 64] memory_transport_def)

section \<open>The targets, together\<close>

text \<open>Remark. No fuzz input breaks a component, and the components answer the targets as they
  should: every table, reassembler, account, window, wheel, scheduler and executor a target leaves
  satisfies its invariant; no table counts more live channels than it has slots; the credit
  invariant the target checks after each operation holds each time; the timers pending are among
  those scheduled; the families a registry lists are distinct and no lease stays held, in every run
  of its target that an empty factory does not abort; the last drain of the executor ends with an empty queue; the byte counts of a transport are those of its
  queue.\<close>

theorem fuzzed_components_sound:
  "yields run_channel_table (\<lambda>(table, live). sound_table table live) \<and>
   yields run_reassembler_ranges reassembler_ok \<and> yields run_reassembler_overlap reassembler_ok \<and>
   yields run_flow_account (\<lambda>(account, answers). flow_full account \<and> list_all id answers) \<and>
   yields run_replay_window (\<lambda>(replay, _). window_sound replay) \<and>
   yields run_timer_wheel (\<lambda>(wheel, ids). wheel_sorted wheel \<and> distinct (pending_ids wheel) \<and>
     set (pending_ids wheel) \<subseteq> set ids) \<and>
   yields run_scheduler_mixed (\<lambda>(scheduler, _). scheduler_ok scheduler) \<and>
   yields run_scheduler_order scheduler_ok \<and>
   yields run_plugin_registry registry_run_ok \<and>
   yields run_executor_queue (\<lambda>(executor, answer). length (de_queue executor) \<le> de_capacity executor \<and>
     answer = Some ((executor\<lparr>de_queue := []\<rparr>, ()), Inr ())) \<and>
   yields run_memory_transport (\<lambda>(left, right, _).
     mt_queued_bytes left = length (concat (mt_queue left)) \<and> mt_queued_bytes right = length (concat (mt_queue right)))"
  by (intro conjI targets_channel_table targets_reassembler targets_flow targets_replay_window targets_timer_wheel
      targets_scheduler targets_plugin_registry targets_executor_queue targets_memory_transport)

text \<open>Remark. The gateway forwards what it is given under every fuzz input: a payload comes out as
  it was or as the translator makes it, and within the limit of the destination; a family with a
  translator is always translated; and each of the sixteen routes of the route target delivers its
  payload unchanged to its own destination.\<close>

theorem fuzzed_gateway_forwards:
  "yields run_gateway_policy (\<lambda>(most, answers). list_all (forwarded_within most) answers) \<and>
   yields run_capability_policy (\<lambda>(added, payload, r). case r of None \<Rightarrow> added = False | Some t \<Rightarrow> t = Inr payload) \<and>
   yields run_gateway_route (\<lambda>answers. length answers = 16 \<and> list_all2 delivered_by [0..<16] answers)"
  by (intro conjI targets_gateway_policy targets_capability_policy targets_gateway_route)

text \<open>The stand-alone gateway fuzzer, \<^verbatim>\<open>fuzz/lattice_gateway_trace_fuzz.cpp\<close>, whose default capability
  sets with the echo plugin are those of the targets.\<close>

definition gateway_fuzz :: "World \<Rightarrow> string list \<Rightarrow> CliEnd" where
  "gateway_fuzz w argv =
     (let input = (if length argv = 2
                   then (case read_file w (argv ! 1) of Some s \<Rightarrow> text_bytes s | None \<Rightarrow> [])
                   else text_bytes ''ok'');
          caps = fuzz_capability kDefaultMaxMessage (pd_schema_hash echo_descriptor)
      in case gateway_translate new_gateway caps caps 7 input of Inl _ \<Rightarrow> Exit 1 | Inr _ \<Rightarrow> Exit 0)"

text \<open>Remark. The stand-alone gateway fuzzer fails for one reason only: it exits with status 1
  exactly when its argument names a readable file of more than 1048576 bytes.\<close>

theorem gateway_fuzzer_exits:
  "gateway_fuzz w argv =
     Exit (if length argv = 2 \<and> (\<exists>s. read_file w (argv ! 1) = Some s \<and> 1048576 < length s) then 1 else 0)"
  by (auto simp: gateway_fuzz_def Let_def gateway_translate_def may_forward_def fuzz_capability_def family_negotiated_def
      find_family_def translate_payload_def new_gateway_def kDefaultMaxMessage_def text_bytes_def split: option.splits)

end
