(* ===== verification/Fuzz_Programs.thy ===== *)
theory Fuzz_Programs
  imports Fuzz_Bridge Fuzz_Codecs Fuzz_Payloads Fuzz_Components
begin

text \<open>
  The fuzzers, one program per file of \<^verbatim>\<open>fuzz/deep\<close>: the entry point builds the reader over its
  input, runs one target and returns 0; the stand-alone main takes the input from the file it is
  given. A model returns what the target leaves. The properties say of the programs, for every
  command line and every file, what the targets were shown to do over the reader.
\<close>

section \<open>The programs\<close>

definition run_target :: "'a fuzz \<Rightarrow> bytes \<Rightarrow> 'a" where
  "run_target target data = fst (run_state target (new_input data))"

definition ack_payload_fuzzer :: "World \<Rightarrow> string list \<Rightarrow> ((u16 \<times> AckRange list \<times> bytes result) option \<times> u16 \<times> AckRange list \<times> bytes result)" where
  "ack_payload_fuzzer w argv = run_standalone w argv (run_target run_ack_payload)"

definition capability_policy_fuzzer :: "World \<Rightarrow> string list \<Rightarrow> (bool \<times> bytes \<times> bytes result option)" where
  "capability_policy_fuzzer w argv = run_standalone w argv (run_target run_capability_policy)"

definition channel_table_fuzzer :: "World \<Rightarrow> string list \<Rightarrow> (ChannelTable \<times> nat list)" where
  "channel_table_fuzzer w argv = run_standalone w argv (run_target run_channel_table)"

definition connection_chunk_fuzzer :: "World \<Rightarrow> string list \<Rightarrow> Peers" where
  "connection_chunk_fuzzer w argv = run_standalone w argv (run_target run_connection_chunks)"

definition connection_credit_ack_fuzzer :: "World \<Rightarrow> string list \<Rightarrow> Peers" where
  "connection_credit_ack_fuzzer w argv = run_standalone w argv (run_target run_connection_credit_ack)"

definition connection_data_ext_fuzzer :: "World \<Rightarrow> string list \<Rightarrow> Peers" where
  "connection_data_ext_fuzzer w argv = run_standalone w argv (run_target run_connection_data_ext)"

definition connection_event_script_fuzzer :: "World \<Rightarrow> string list \<Rightarrow> Peers" where
  "connection_event_script_fuzzer w argv = run_standalone w argv (run_target run_connection_event_script)"

definition connection_multichannel_fuzzer :: "World \<Rightarrow> string list \<Rightarrow> Peers" where
  "connection_multichannel_fuzzer w argv = run_standalone w argv (run_target run_connection_multichannel)"

definition connection_open_fuzzer :: "World \<Rightarrow> string list \<Rightarrow> Peers" where
  "connection_open_fuzzer w argv = run_standalone w argv (run_target run_connection_open)"

definition connection_outbound_fuzzer :: "World \<Rightarrow> string list \<Rightarrow> Peers" where
  "connection_outbound_fuzzer w argv = run_standalone w argv (run_target run_connection_outbound)"

definition connection_peer_bytes_fuzzer :: "World \<Rightarrow> string list \<Rightarrow> Peers" where
  "connection_peer_bytes_fuzzer w argv = run_standalone w argv (run_target run_connection_peer_bytes)"

definition connection_reset_goaway_fuzzer :: "World \<Rightarrow> string list \<Rightarrow> Peers" where
  "connection_reset_goaway_fuzzer w argv = run_standalone w argv (run_target run_connection_reset_goaway)"

definition connection_resume_fuzzer :: "World \<Rightarrow> string list \<Rightarrow> Peers" where
  "connection_resume_fuzzer w argv = run_standalone w argv (run_target run_connection_resume)"

definition connection_timer_fuzzer :: "World \<Rightarrow> string list \<Rightarrow> Peers" where
  "connection_timer_fuzzer w argv = run_standalone w argv (run_target run_connection_timer)"

definition executor_queue_fuzzer :: "World \<Rightarrow> string list \<Rightarrow> (unit DeterministicExecutor \<times> ((unit DeterministicExecutor \<times> unit) \<times> unit result) option)" where
  "executor_queue_fuzzer w argv = run_standalone w argv (run_target run_executor_queue)"

definition flow_account_fuzzer :: "World \<Rightarrow> string list \<Rightarrow> (FlowAccount \<times> bool list)" where
  "flow_account_fuzzer w argv = run_standalone w argv (run_target run_flow_account)"

definition frame_concat_eof_fuzzer :: "World \<Rightarrow> string list \<Rightarrow> bytes result list" where
  "frame_concat_eof_fuzzer w argv = run_standalone w argv (run_target run_frame_concat_eof)"

definition frame_crc_mutation_fuzzer :: "World \<Rightarrow> string list \<Rightarrow> bytes result list" where
  "frame_crc_mutation_fuzzer w argv = run_standalone w argv (run_target run_frame_crc_mutation)"

definition frame_extension_fuzzer :: "World \<Rightarrow> string list \<Rightarrow> bytes result list" where
  "frame_extension_fuzzer w argv = run_standalone w argv (run_target run_frame_extension)"

definition frame_header_limit_fuzzer :: "World \<Rightarrow> string list \<Rightarrow> bytes result list" where
  "frame_header_limit_fuzzer w argv = run_standalone w argv (run_target run_frame_header_limit)"

definition frame_split_fuzzer :: "World \<Rightarrow> string list \<Rightarrow> bytes result list" where
  "frame_split_fuzzer w argv = run_standalone w argv (run_target run_frame_split)"

definition frame_stream_fuzzer :: "World \<Rightarrow> string list \<Rightarrow> bytes result list" where
  "frame_stream_fuzzer w argv = run_standalone w argv (run_target run_frame_stream)"

definition gateway_bridge_fuzzer :: "World \<Rightarrow> string list \<Rightarrow> (Peers \<times> Peers) option" where
  "gateway_bridge_fuzzer w argv = run_standalone w argv (run_target run_gateway_bridge)"

definition gateway_policy_fuzzer :: "World \<Rightarrow> string list \<Rightarrow> (nat \<times> (bytes \<times> bytes result) list)" where
  "gateway_policy_fuzzer w argv = run_standalone w argv (run_target run_gateway_policy)"

definition gateway_route_fuzzer :: "World \<Rightarrow> string list \<Rightarrow> (bytes \<times> GatewayForwardedMessage result \<times> GatewayRoute result) list" where
  "gateway_route_fuzzer w argv = run_standalone w argv (run_target run_gateway_route)"

definition hello_payload_fuzzer :: "World \<Rightarrow> string list \<Rightarrow> (bytes result option \<times> HelloMessage \<times> HelloMessage result option)" where
  "hello_payload_fuzzer w argv = run_standalone w argv (run_target run_hello_payload)"

definition memory_transport_fuzzer :: "World \<Rightarrow> string list \<Rightarrow> (MemoryTransport \<times> MemoryTransport \<times> (nat \<times> nat) list)" where
  "memory_transport_fuzzer w argv = run_standalone w argv (run_target run_memory_transport)"

definition negotiation_matrix_fuzzer :: "World \<Rightarrow> string list \<Rightarrow> (HelloMessage \<times> HelloMessage \<times> CapabilitySet result)" where
  "negotiation_matrix_fuzzer w argv = run_standalone w argv (run_target run_negotiation_matrix)"

definition plugin_registry_fuzzer :: "World \<Rightarrow> string list \<Rightarrow> (PluginRegistry \<times> PluginDescriptor list list) option" where
  "plugin_registry_fuzzer w argv = run_standalone w argv (run_target run_plugin_registry)"

definition reassembler_overlap_fuzzer :: "World \<Rightarrow> string list \<Rightarrow> Reassembler" where
  "reassembler_overlap_fuzzer w argv = run_standalone w argv (run_target run_reassembler_overlap)"

definition reassembler_ranges_fuzzer :: "World \<Rightarrow> string list \<Rightarrow> Reassembler" where
  "reassembler_ranges_fuzzer w argv = run_standalone w argv (run_target run_reassembler_ranges)"

definition replay_snapshot_fuzzer :: "World \<Rightarrow> string list \<Rightarrow> (string option \<times> ReplayWindow \<times> ReplayWindow result)" where
  "replay_snapshot_fuzzer w argv = run_standalone w argv (run_target run_replay_snapshot)"

definition replay_window_fuzzer :: "World \<Rightarrow> string list \<Rightarrow> (ReplayWindow \<times> string)" where
  "replay_window_fuzzer w argv = run_standalone w argv (run_target run_replay_window)"

definition scheduler_backpressure_fuzzer :: "World \<Rightarrow> string list \<Rightarrow> OutboundScheduler" where
  "scheduler_backpressure_fuzzer w argv = run_standalone w argv (run_target run_scheduler_backpressure)"

definition scheduler_mixed_fuzzer :: "World \<Rightarrow> string list \<Rightarrow> (OutboundScheduler \<times> bool list)" where
  "scheduler_mixed_fuzzer w argv = run_standalone w argv (run_target run_scheduler_mixed)"

definition scheduler_order_fuzzer :: "World \<Rightarrow> string list \<Rightarrow> OutboundScheduler" where
  "scheduler_order_fuzzer w argv = run_standalone w argv (run_target run_scheduler_order)"

definition timer_wheel_fuzzer :: "World \<Rightarrow> string list \<Rightarrow> (TimerWheel \<times> TimerId list)" where
  "timer_wheel_fuzzer w argv = run_standalone w argv (run_target run_timer_wheel)"

definition trace_build_fuzzer :: "World \<Rightarrow> string list \<Rightarrow> (TraceLog \<times> (TraceLog result \<times> TraceReplayReport result option) option)" where
  "trace_build_fuzzer w argv = run_standalone w argv (run_target run_trace_build)"

definition trace_parse_fuzzer :: "World \<Rightarrow> string list \<Rightarrow> (TraceLog \<times> TraceReplayReport result \<times> string result) option" where
  "trace_parse_fuzzer w argv = run_standalone w argv (run_target run_trace_parse)"

section \<open>What they do\<close>

lemma run_target_yields: "yields target P \<Longrightarrow> P (run_standalone w argv (run_target target))"
proof -
  assume y: "yields target P"
  have "P (run_target target data)" for data
  proof -
    obtain x i where r: "run_state target (new_input data) = (x, i)" by fastforce
    show ?thesis using yieldsD[OF y r] r by (simp add: run_target_def new_input_def)
  qed
  then show ?thesis by (simp add: run_standalone_def Let_def)
qed

text \<open>Remark. Whatever a fuzzer of engines is run on, every engine it leaves is consistent: active
  only with capabilities and a table, credit whole, deliveries in order, no event before the
  negotiation. The bridge fuzzer never reads capabilities that are not there.\<close>

theorem engine_fuzzers_sound:
  "peers_ok (connection_peer_bytes_fuzzer w argv) \<and>
   peers_ok (connection_chunk_fuzzer w argv) \<and>
   peers_ok (connection_open_fuzzer w argv) \<and>
   peers_ok (connection_data_ext_fuzzer w argv) \<and>
   peers_ok (connection_credit_ack_fuzzer w argv) \<and>
   peers_ok (connection_resume_fuzzer w argv) \<and>
   peers_ok (connection_timer_fuzzer w argv) \<and>
   peers_ok (connection_reset_goaway_fuzzer w argv) \<and>
   peers_ok (connection_outbound_fuzzer w argv) \<and>
   peers_ok (connection_multichannel_fuzzer w argv) \<and>
   peers_ok (connection_event_script_fuzzer w argv) \<and>
   (\<exists>clients servers. gateway_bridge_fuzzer w argv = Some (clients, servers) \<and> peers_ok clients \<and> peers_ok servers)"
  unfolding connection_peer_bytes_fuzzer_def connection_chunk_fuzzer_def connection_open_fuzzer_def connection_data_ext_fuzzer_def connection_credit_ack_fuzzer_def connection_resume_fuzzer_def connection_timer_fuzzer_def connection_reset_goaway_fuzzer_def connection_outbound_fuzzer_def connection_multichannel_fuzzer_def connection_event_script_fuzzer_def gateway_bridge_fuzzer_def
  by (insert fuzz_engines_sound, elim conjE)
    (intro conjI run_target_yields[where P = peers_ok] run_target_yields[where P = "\<lambda>r. \<exists>clients servers.
      r = Some (clients, servers) \<and> peers_ok clients \<and> peers_ok servers"]; assumption)

text \<open>Property C38. The bridge fuzzer bridges, on every command line and every file: both its pairs get
  through their handshakes and open their channel, and the payload it takes from its input, if it
  is not empty, is delivered to the ingress, bridged to the egress and delivered to the server,
  whole, once and as message 1 of the channel; an empty payload is sent as no frame and reaches
  neither. Nothing else is delivered to the two.\<close>

theorem bridge_fuzzer_forwards:
  "\<exists>client ingress egress server payload.
     payload = run_standalone w argv (run_target (in_bytes 512)) \<and>
     gateway_bridge_fuzzer w argv = Some ((client, ingress), (egress, server)) \<and>
     messages ingress = (if payload = [] then [] else [delivery first_channel 1 payload]) \<and>
     messages server = (if payload = [] then [] else [delivery first_channel 1 payload])"
proof -
  have "forwarded_once (run_standalone w argv (run_target (in_bytes 512))) (gateway_bridge_fuzzer w argv)"
    by (simp add: gateway_bridge_fuzzer_def run_standalone_def run_target_def Let_def bridge_target_forwards)
  then show ?thesis by (auto simp: forwarded_once_def simp del: split_paired_Ex split: option.splits)
qed

text \<open>Without a file the bridge fuzzer has a payload to forward.\<close>

lemma default_payload: "run_target (in_bytes 512) default_seed \<noteq> []"
  by code_simp

text \<open>Property C37. Every frame that a decoder reports under a frame fuzzer, from random bytes in any
  chunks, from valid frames cut or with a damaged byte, and under limits at most the default
  ones, is a frame the encoder writes.\<close>

theorem frame_fuzzers_reencode:
  "list_all is_ok (frame_stream_fuzzer w argv) \<and>
   list_all is_ok (frame_split_fuzzer w argv) \<and>
   list_all is_ok (frame_extension_fuzzer w argv) \<and>
   list_all is_ok (frame_header_limit_fuzzer w argv) \<and>
   list_all is_ok (frame_crc_mutation_fuzzer w argv) \<and>
   list_all is_ok (frame_concat_eof_fuzzer w argv)"
  unfolding frame_stream_fuzzer_def frame_split_fuzzer_def frame_extension_fuzzer_def frame_header_limit_fuzzer_def frame_crc_mutation_fuzzer_def frame_concat_eof_fuzzer_def
  by (intro conjI run_target_yields[where P = "list_all is_ok"]) (simp_all add: fuzzed_frames_encode)

text \<open>Property C40. The backpressure fuzzer never gets its queue empty: the sequences it gives a channel are
  four apart, the scheduler sends none after the first without its predecessor, and so, whatever
  the input, bytes are left after the 128 drains and the loop never ends early. The scheduler
  itself stays sound.\<close>

theorem backpressure_fuzzer_jams:
  "scheduler_ok (scheduler_backpressure_fuzzer w argv) \<and> \<not> scheduler_empty (scheduler_backpressure_fuzzer w argv)"
  unfolding scheduler_backpressure_fuzzer_def
  by (rule run_target_yields[where P = "\<lambda>s. scheduler_ok s \<and> \<not> scheduler_empty s"]) (rule fuzzed_backpressure_jams)

text \<open>Remark. The registry fuzzer ends in an uncaught exception on an input that registers one family
  twice and then creates from it.\<close>

lemma registry_fuzzer_throws:
  "run_target run_plugin_registry [1, 1, 0, 0, 0, 1, 1, 0, 0, 0, 1, 1, 0, 0, 1] = None"
  by code_simp

end
