(* ===== verification/Spec2Isabelle.thy ===== *)
theory Spec2Isabelle
  imports Frame_Codec Channel_Table Scheduler Replay_Snapshot Timer_Wheel Negotiator Plugin_Registry
    Executor Engine_Session Gateway Trace Route_Policy Inspection Health Effects Unix_Socket Replay_Store
    Bridge_Policy Socket_Bridge Command_Line Fixtures Fuzz_Programs Bench
begin

text \<open>
  A verification library for the Lattice multiplexed protocol gateway.

  The program. Two peers exchange LTX1 frames over a byte stream. A \<open>FrameCodec\<close> finds the frames
  in the stream and checks their CRC32C; a \<open>ConnectionEngine\<close> negotiates capabilities with the
  HELLO frames, opens channels, cuts messages into DATA frames and puts them together again,
  keeps emitted frames for replay, runs timers and hands completed messages to plugins, at once
  or on an executor; a \<open>Gateway\<close> forwards messages from one connection to another.

  The theories, bottom up, and the code each models (under \<^verbatim>\<open>src/\<close>).

  \<^item> \<open>Prelude\<close>: \<^verbatim>\<open>include/lattice/types.hpp\<close> and \<^verbatim>\<open>error.hpp\<close>: enums, identifiers, policies, errors,
    \<open>Result<T>\<close> as the sum \<open>'a result\<close>, checked \<open>size_t\<close> arithmetic on \<open>nat\<close>, byte appenders.
    \<open>Wire_Format\<close>: big-endian fields and the interfaces \<open>cursor_format\<close> and \<open>format_pair\<close> of a
    field that can be read back where it was written.
  \<^item> \<open>Crc\<close>, \<open>Varint\<close>, \<open>Extensions\<close>, \<open>Incremental\<close>, \<open>Frame_Codec\<close>: \<^verbatim>\<open>src/format/frame_codec.cpp\<close>.
    \<open>feed\<close> is the loop \<open>feed_loop\<close> over \<open>decode_one\<close>; the interface \<open>incremental_decoder\<close> carries
    what does not depend on the frame format. Shown: the slicing-by-8 CRC is the bitwise one, frames
    survive any chunking, the accepted bytes are exactly the wire forms (the encoder writes one of
    them), a corrupted byte is noticed.
  \<^item> \<open>Flow_Account\<close>, \<open>Reassembler\<close>, \<open>Channel_Table\<close>: \<^verbatim>\<open>src/channel/channel_state.cpp\<close>. Credit is the
    interface \<open>credit_account\<close>; a slot's life cycle is the relation \<open>slot_step\<close>, and every table
    operation is at most one step. Shown: exact reassembly within the budget, slot invariants,
    identifiers that stay dead, unique send sequences.
  \<^item> \<open>Ordered_Map\<close>: \<open>std::map\<close> as a list in key order, with the interface \<open>keyed_store\<close>.
    \<open>Scheduler\<close>: \<^verbatim>\<open>src/schedule/outbound_scheduler.cpp\<close>. Shown: the byte streams pass unchanged in any
    portions and the byte count is exact; and that a sequence gap blocks a channel.
  \<^item> \<open>Text_Format\<close>, \<open>Replay_Window\<close>, \<open>Replay_Snapshot\<close>, \<open>Timer_Wheel\<close>: \<^verbatim>\<open>src/replay/replay_window.cpp\<close>.
    Shown: exact acknowledgement and resume, the snapshot round trip, timers neither lost nor
    doubled.
  \<^item> \<open>Negotiator\<close>: \<^verbatim>\<open>src/connection/negotiator.cpp\<close>. Shown: when negotiation succeeds, that the outcome
    is within both offers, and that both ends compute the same.
  \<^item> \<open>Plugin_Registry\<close>: \<^verbatim>\<open>src/plugin/registry.cpp\<close>, with the shared lease counters in a store of cells.
    A factory that was moved from, as the second registration of a family leaves it, is \<open>None\<close>, and
    a call of it, which throws, makes the result \<open>None\<close>; through the engine that exception travels
    as the error value \<open>bad_function_call\<close>, which no handler looks at.
    \<open>Executor\<close>: \<^verbatim>\<open>src/connection/event_loop.cpp\<close>; the threaded executor is the relation
    \<open>threaded_step\<close> whose steps are the critical sections, with the threads asleep on its two
    condition variables, spurious wake-ups, and the calls of \<open>wait_idle\<close> and \<open>shutdown\<close> by any
    number of threads. Shown, for every interleaving: each shard serves in order, no wake-up is
    lost, what a returned call of either operation promises; and that a second \<open>shutdown\<close> promises
    nothing.
  \<^item> \<open>Engine\<close>: \<^verbatim>\<open>src/connection/engine.cpp\<close>: the members of \<open>ConnectionEngine\<close> as a record, and every
    public operation, timer and frame handler as a function on it. \<open>Engine_Invariant\<close> proves the
    invariant \<open>engine_ok\<close> over all histories of public operations: the table is well formed,
    credit is whole between operations, the log and the receive sequences agree.
    \<open>Engine_Session\<close> connects two engines: the handshake and the transfer of a message.
  \<^item> \<open>Gateway\<close>: \<^verbatim>\<open>src/gateway/gateway.cpp\<close> and \<^verbatim>\<open>src/transport/memory_transport.cpp\<close>: routes,
    translators, bridging into an engine, the in-memory queue. Shown: what is bridged, exactly, as a
    function of the history of registrations.
  \<^item> \<open>Trace\<close>: \<^verbatim>\<open>src/replay/trace.cpp\<close>. Shown: recorded logs are sorted stably, their text reads
    back, the replay check accepts and counts them exactly.
    \<open>Route_Policy\<close>: \<^verbatim>\<open>src/gateway/route_policy.cpp\<close>. Shown: which documents have a text, the round
    trip, what the validator accepts, and what a gateway loaded from a policy routes.
    The decimal readers of these and of the snapshots are the interface \<open>decimal_reader\<close> of
    \<open>Text_Format\<close>, interpreted for each overflow test.
  \<^item> \<open>Inspection\<close>: \<^verbatim>\<open>src/diagnostics/inspection.cpp\<close>; \<open>Health\<close>: \<^verbatim>\<open>src/diagnostics/health.cpp\<close>.
    Shown: when a stream is reported free of errors, that what an engine sends is, what the event
    summary counts, when each health evaluation fails, and the exact report of each evaluation
    (signals, weights, capped penalty, score, level) for counts below \<open>2 ^ 48\<close>.
  \<^item> \<open>Effects\<close>: the printed code of an error (\<^verbatim>\<open>frame_codec.cpp\<close>) and \<open>run\<close>, the outcome of a step that
    talks to the operating system: it returns, throws, or waits.
    \<open>Unix_Socket\<close>: \<^verbatim>\<open>src/transport/unix_transport.cpp\<close>, with the table of descriptors and socket paths
    as the kernel's state. Shown: a write hands over a prefix, all of it on success; every open
    descriptor has one owner through all constructions, accepts, moves and closes of transports and
    listeners. \<open>Replay_Store\<close>: \<^verbatim>\<open>src/replay/replay_store.cpp\<close> over a
    map from paths to contents. Shown: what every failure leaves on the disk.
  \<^item> \<open>Bridge_Policy\<close>, \<open>Socket_Bridge\<close>, \<open>Command_Line\<close>: \<^verbatim>\<open>tools/lattice.cpp\<close>: its policy reader, the
    negotiation and the bridge loop over sockets, and every command from its arguments to its
    output and exit status. Shown: negotiation over a socket is the in-memory handshake however
    the bytes are cut, the bridge forwards each delivery once, the exit status is truthful, no
    descriptor is left open. \<open>Fixtures\<close> runs the commands of \<^verbatim>\<open>fixtures/ltx1/README.md\<close>.
  \<^item> \<open>Fuzz_Input\<close>: the reader of \<^verbatim>\<open>fuzz/deep_fuzz_support.hpp\<close>, from which a fuzz target takes its
    decisions, as a state monad; \<open>yields m P\<close> says that \<open>m\<close> gives only what \<open>P\<close> holds of, whatever the
    input, and reads it front to back. \<open>Fuzz_Engines\<close>, \<open>Fuzz_Codecs\<close>, \<open>Fuzz_Payloads\<close> and
    \<open>Fuzz_Components\<close> are the targets, \<open>Fuzz_Programs\<close> the programs of \<^verbatim>\<open>fuzz/deep\<close>. Shown: no input
    breaks an invariant, decoded frames can be encoded, payloads and traces read back; that
    the bridge target delivers its payload at both ends (\<open>Fuzz_Bridge\<close>), that the backpressure
    target never drains, and that the registry target can end in an exception. Reads in the arguments of one call, whose order C++
    leaves open, are taken from left to right.
    \<open>Bench\<close>: the channel probe of \<^verbatim>\<open>tools/lattice_bench.cpp\<close>, which opens all 256 channels.

  Conventions. Unsigned integers of fixed width are words. \<open>size_t\<close> is \<open>nat\<close>; where the code adds
  without a check the wrap at \<open>2 ^ 64\<close> is written out (\<open>size_add\<close>, \<open>size_sub\<close>), and \<open>checked_add\<close> and
  \<open>checked_mul\<close> are the code's. An operation that changes its object returns it with its result,
  also on the error paths that leave a partial change behind. Loops are structural or have a
  measure; \<open>drain_all\<close>, whose tasks may add tasks, is a partial function, proved to return for the
  tasks the engine submits. What the kernel answers (\<open>send\<close>, \<open>recv\<close>, \<open>accept\<close>, \<open>select\<close>, file
  operations) is data, a list of answers where a call repeats, and a step that finds its list
  empty waits: it is \<open>Blocks\<close>. Only \<open>negotiate_turns\<close> counts fuel; it starts with more than the
  socket has answers and bytes, each turn uses one of these up (\<open>negotiate_fuel_enough\<close>).
  \<open>std::sort\<close> is a stable sort: the
  keys the code sorts by are distinct, or equal keys have no effect that is observed;
  \<open>std::stable_sort\<close> is \<open>sort_key\<close>. A file that is read is a parameter, its contents.
  Parameters: plugin handlers, translators, the closures of the threaded executor, and the two
  SSE4.2 intrinsics. The CRC's eight-byte load is the one of a little-endian host.

  Names. The properties stand in the theory of their component, each after a text block with its
  number; a text block that starts with Remark goes with a further theorem of the library.

  Not modelled: the branches for Windows; the probes of the benchmark that time the library
  (they compute rates in \<open>double\<close>);
  the fuzz target of the threaded executor, which races a thread pool; and the tests, which call the
  library. The engine's executor is used by that engine alone; tasks of the threaded executor do
  not call its \<open>wait_idle\<close> or \<open>shutdown\<close> themselves; signals (\<open>SIGPIPE\<close>, which \<open>send\<close> with flags 0
  raises) and memory exhaustion are not outcomes.
\<close>

end
